(* ===== verification/Kernel_Prelude.thy ===== *)
theory Kernel_Prelude
  imports Main "HOL-Library.Word" "HOL-Library.Monad_Syntax"
begin

text \<open>
  The shared vocabulary of the development: C's sized integers as words, the flat
  byte memory of the 32-bit machine, little-endian loads and stores, reading and
  writing a run of bytes, and the generic lemmas on lists and words that the
  component theories use. Every kernel routine that may run forever returns an
  \<open>option\<close>, where \<open>None\<close> means that the code does not return.
\<close>

unbundle bit_operations_syntax

named_theorems mem_simps \<open>reads after writes in the byte memory\<close>
named_theorems frame_simps \<open>fields and bytes an operation leaves alone\<close>

section \<open>C integers\<close>

text \<open>The typedefs of \<open>types.h\<close>. A signed 32-bit value that the code only compares and
  counts with is an \<open>int\<close>; where a conversion between signed and unsigned matters the
  word is kept and read with \<open>sint\<close> or \<open>uint\<close>.\<close>

type_synonym u8 = "8 word"
type_synonym u16 = "16 word"
type_synonym u32 = "32 word"
type_synonym memory = "u32 \<Rightarrow> u8"

section \<open>Lists and words\<close>

lemma word_of_nat_eq_iff:
  assumes "i < 2 ^ LENGTH('a::len)" and "j < 2 ^ LENGTH('a)"
  shows "(of_nat i :: 'a word) = of_nat j \<longleftrightarrow> i = j"
proof
  assume "(of_nat i :: 'a word) = of_nat j"
  then have "unat (of_nat i :: 'a word) = unat (of_nat j :: 'a word)" by simp
  with assms show "i = j" by (simp add: unat_of_nat)
qed simp

lemma word_add_of_nat_cancel [simp]:
  "(a + of_nat i = a + (of_nat j :: 'a::len word)) \<longleftrightarrow> (of_nat i :: 'a word) = of_nat j"
  by simp

lemma unat_of_nat_less [simp]: "n < 2 ^ LENGTH('a::len) \<Longrightarrow> unat (of_nat n :: 'a word) = n"
  by (simp add: unat_of_nat)

lemma unat_of_nat32: "n < 2 ^ 32 \<Longrightarrow> unat (of_nat n :: u32) = n"
  by (rule unat_of_nat_less) simp

lemma unat_add_of_nat32:
  "unat a + n < 2 ^ 32 \<Longrightarrow> unat (a + of_nat n :: u32) = unat a + n"
  by (simp add: unat_word_ariths unat_of_nat)

lemma unat_Suc_less: "i < n \<Longrightarrow> unat (i + 1) = Suc (unat (i :: 'a::len word))"
proof -
  assume "i < n"
  then have "unat i < unat n" by (simp add: word_less_nat_alt)
  also have "unat n < 2 ^ LENGTH('a)" by simp
  finally have "Suc (unat i) < 2 ^ LENGTH('a) \<or> Suc (unat i) = 2 ^ LENGTH('a)" by linarith
  moreover have "Suc (unat i) \<noteq> 2 ^ LENGTH('a)"
    using \<open>unat i < unat n\<close> \<open>unat n < 2 ^ LENGTH('a)\<close> by linarith
  ultimately show ?thesis by (simp add: unat_word_ariths)
qed

lemma word_Suc_measure: "i < n \<Longrightarrow> unat n - unat (i + 1) < unat n - unat (i :: 'a::len word)"
  by (simp add: unat_Suc_less word_less_nat_alt)

lemma unat32_less: "unat (x :: u32) < 2 ^ 32"
proof -
  have "unat x < 2 ^ LENGTH(32)" by (rule unsigned_less)
  then show ?thesis by simp
qed

lemma of_nat_eq_word32: "k < 2 ^ 32 \<Longrightarrow> (of_nat k :: u32) = w \<longleftrightarrow> k = unat w"
  by (metis of_nat_unat ucast_id unat_of_nat32)

lemma sint_eq_sint [simp]: "sint a = sint b \<longleftrightarrow> (a :: 'a::len word) = b"
  by (auto intro: signed_word_eqI)

lemma word_diff_Suc: "i < n \<Longrightarrow> unat n - unat i = Suc (unat n - unat (i + 1 :: 'a::len word))"
  by (simp add: unat_Suc_less word_less_nat_alt)

lemma word_less_Suc_le: "i < n \<Longrightarrow> i + 1 \<le> (n :: 'a::len word)"
  by (simp add: word_le_nat_alt unat_Suc_less word_less_nat_alt Suc_leI)

lemma fold_upt_Suc: "a \<le> b \<Longrightarrow> fold f [a..<Suc b] s = f b (fold f [a..<b] s)"
  by simp

lemma nat_div_eq: "0 < n \<Longrightarrow> m div n = q \<longleftrightarrow> n * q \<le> m \<and> m < n * Suc (q :: nat)"
  using dividend_less_times_div [of n m] by (auto intro: div_nat_eqI simp: algebra_simps)

lemma drop_eq_nth_Cons: "i < length xs \<Longrightarrow> drop i xs = xs ! i # drop (Suc i) xs"
  by (simp add: Cons_nth_drop_Suc)

text \<open>Keeps a function update folded when the simplifier meets it eta-expanded.\<close>

lemma fun_upd_eta [simp]: "(\<lambda>a. if a = x then y else m a) = m(x := y)"
  by (simp add: fun_upd_def)

section \<open>The byte memory\<close>

text \<open>Memory is a total function from 32-bit addresses to bytes and addresses wrap
  around, as pointer arithmetic on the flat 32-bit address space does.\<close>

definition ld32 :: "memory \<Rightarrow> u32 \<Rightarrow> u32" where
  "ld32 m a = ucast (m a) OR push_bit 8 (ucast (m (a + 1)))
     OR push_bit 16 (ucast (m (a + 2))) OR push_bit 24 (ucast (m (a + 3)))"

definition st32 :: "memory \<Rightarrow> u32 \<Rightarrow> u32 \<Rightarrow> memory" where
  "st32 m a v = m(a := ucast v, a + 1 := ucast (drop_bit 8 v),
     a + 2 := ucast (drop_bit 16 v), a + 3 := ucast (drop_bit 24 v))"

text \<open>The bytes of a run of memory, and storing a run of bytes.\<close>

definition rds :: "memory \<Rightarrow> u32 \<Rightarrow> nat \<Rightarrow> u8 list" where
  "rds m a n = map (\<lambda>i. m (a + of_nat i)) [0..<n]"

fun wrs :: "memory \<Rightarrow> u32 \<Rightarrow> u8 list \<Rightarrow> memory" where
  "wrs m a [] = m"
| "wrs m a (b # bs) = wrs (m(a := b)) (a + 1) bs"

text \<open>The addresses of a run of \<open>n\<close> bytes.\<close>

definition span :: "u32 \<Rightarrow> nat \<Rightarrow> u32 set" where
  "span a n = (\<lambda>i. a + of_nat i) ` {0..<n}"

lemma in_span_iff:
  "x \<in> span a n \<longleftrightarrow> (\<exists>i < n. x = a + of_nat i)"
  by (auto simp: span_def)

lemma in_spanI [intro]: "i < n \<Longrightarrow> a + of_nat i \<in> span a n"
  by (auto simp: span_def)

lemma span_0 [simp]: "span a 0 = {}"
  by (simp add: span_def)

lemma span_Suc: "span a (Suc n) = insert (a + of_nat n) (span a n)"
  by (auto simp: span_def atLeast0_lessThan_Suc)

lemma span_Cons: "span a (Suc n) = insert a (span (a + 1) n)"
  by (simp add: set_eq_iff in_span_iff Ex_less_Suc2 algebra_simps)

lemma span_mono: "i \<le> n \<Longrightarrow> span a i \<subseteq> span a n"
  by (auto simp: span_def)

lemma in_span_unat:
  assumes "n \<le> 2 ^ 32"
  shows "x \<in> span a n \<longleftrightarrow> unat (x - a) < n"
proof
  assume "x \<in> span a n"
  then obtain i where "i < n" "x = a + of_nat i" by (auto simp: in_span_iff)
  with assms show "unat (x - a) < n" by (simp add: unat_of_nat)
next
  assume "unat (x - a) < n"
  moreover have "x = a + of_nat (unat (x - a))" by simp
  ultimately show "x \<in> span a n" by (metis in_spanI)
qed

text \<open>A run below another one that does not wrap around is disjoint from it.\<close>

lemma span_disjoint_below:
  assumes "unat a + n \<le> unat b" and "unat b + k \<le> 2 ^ 32"
  shows "span a n \<inter> span b k = {}"
proof -
  have "a + of_nat i \<noteq> b + of_nat j" if "i < n" "j < k" for i j
  proof -
    have "unat (a + of_nat i) = unat a + i" using that assms by (intro unat_add_of_nat32) simp
    moreover have "unat (b + of_nat j) = unat b + j" using that assms by (intro unat_add_of_nat32) simp
    ultimately show ?thesis using that assms(1) by (metis add_less_cancel_left leD le_add1 le_trans)
  qed
  then show ?thesis by (auto simp: in_span_iff)
qed

lemma span_disjoint_above:
  "unat b + k \<le> unat a \<Longrightarrow> unat a + n \<le> 2 ^ 32 \<Longrightarrow> span a n \<inter> span b k = {}"
  using span_disjoint_below [of b k a n] by auto

lemma length_rds [simp]: "length (rds m a n) = n"
  by (simp add: rds_def)

lemma nth_rds [simp]: "i < n \<Longrightarrow> rds m a n ! i = m (a + of_nat i)"
  by (simp add: rds_def)

lemma rds_0 [simp]: "rds m a 0 = []"
  by (simp add: rds_def)

lemma rds_Suc: "rds m a (Suc n) = rds m a n @ [m (a + of_nat n)]"
  by (simp add: rds_def)

lemma rds_Cons: "rds m a (Suc n) = m a # rds m (a + 1) n"
  by (rule nth_equalityI) (auto simp: nth_Cons algebra_simps split: nat.splits)

lemma rds_cong: "(\<And>i. i < n \<Longrightarrow> m (a + of_nat i) = m' (a + of_nat i)) \<Longrightarrow> rds m a n = rds m' a n"
  by (simp add: rds_def)

lemma rds_upd [mem_simps]: "x \<notin> span a n \<Longrightarrow> rds (m(x := b)) a n = rds m a n"
  by (rule rds_cong) auto

lemma wrs_other [mem_simps]: "x \<notin> span a (length bs) \<Longrightarrow> wrs m a bs x = m x"
proof (induction bs arbitrary: m a)
  case (Cons b bs)
  then show ?case by (auto simp: span_Cons)
qed simp

lemma wrs_append: "wrs m a (bs @ cs) = wrs (wrs m a bs) (a + of_nat (length bs)) cs"
  by (induction bs arbitrary: m a) (auto simp: algebra_simps)

lemma wrs_snoc: "wrs m a (bs @ [b]) = (wrs m a bs)(a + of_nat (length bs) := b)"
  by (simp add: wrs_append)

lemma wrs_nth:
  assumes "i < length bs" and "length bs \<le> 2 ^ 32"
  shows "wrs m a bs (a + of_nat i) = bs ! i"
  using assms
proof (induction bs rule: rev_induct)
  case (snoc b bs)
  show ?case
  proof (cases "i = length bs")
    case True
    then show ?thesis by (simp add: wrs_snoc)
  next
    case False
    with snoc.prems have "i < length bs" by simp
    moreover from this snoc.prems have "(of_nat i :: u32) \<noteq> of_nat (length bs)"
      by (subst word_of_nat_eq_iff) auto
    ultimately show ?thesis using snoc by (simp add: wrs_snoc nth_append)
  qed
qed simp

lemma rds_wrs [mem_simps]: "length bs \<le> 2 ^ 32 \<Longrightarrow> rds (wrs m a bs) a (length bs) = bs"
  by (rule nth_equalityI) (auto simp: wrs_nth)

lemma rds_wrs_disjoint [mem_simps]:
  "span a n \<inter> span b (length bs) = {} \<Longrightarrow> rds (wrs m b bs) a n = rds m a n"
  by (rule rds_cong) (auto intro: wrs_other)

lemma wrs_upd_commute:
  "x \<notin> span a (length bs) \<Longrightarrow> wrs (m(x := b)) a bs = (wrs m a bs)(x := b)"
proof (induction bs arbitrary: m a)
  case (Cons c bs)
  then have "x \<noteq> a" "x \<notin> span (a + 1) (length bs)" by (auto simp: span_Cons)
  with Cons.IH [of "a + 1" "m(a := c)"] show ?case by (simp add: fun_upd_twist)
qed simp

lemma rds_append: "rds m a (i + j) = rds m a i @ rds m (a + of_nat i) j"
  by (rule nth_equalityI) (auto simp: nth_append algebra_simps of_nat_diff)

subsection \<open>Little-endian words\<close>

definition bytes32 :: "u32 \<Rightarrow> u8 list" where
  "bytes32 v = [ucast v, ucast (drop_bit 8 v), ucast (drop_bit 16 v), ucast (drop_bit 24 v)]"

lemma length_bytes32 [simp]: "length (bytes32 v) = 4"
  by (simp add: bytes32_def)

lemma st32_wrs: "st32 m a v = wrs m a (bytes32 v)"
  by (simp add: st32_def bytes32_def add.assoc)

lemma bytes32_ld32: "bytes32 (ld32 m a) = rds m a 4"
proof -
  have "ucast (ld32 m a) = m a" "ucast (drop_bit 8 (ld32 m a)) = m (a + 1)"
    "ucast (drop_bit 16 (ld32 m a)) = m (a + 2)" "ucast (drop_bit 24 (ld32 m a)) = m (a + 3)"
    by (rule bit_word_eqI; auto simp: ld32_def bit_simps dest: bit_imp_le_length)+
  then show ?thesis by (simp add: bytes32_def rds_def numeral_eq_Suc add.assoc)
qed

lemma ld32_cong: "(\<And>i. i < 4 \<Longrightarrow> m (a + of_nat i) = m' (a + of_nat i)) \<Longrightarrow> ld32 m a = ld32 m' a"
proof -
  assume h: "\<And>i. i < 4 \<Longrightarrow> m (a + of_nat i) = m' (a + of_nat i)"
  from h [of 0] h [of 1] h [of 2] h [of 3] show ?thesis by (simp add: ld32_def)
qed

lemma ld32_disjoint: "(\<And>x. x \<in> span a 4 \<Longrightarrow> m x = m' x) \<Longrightarrow> ld32 m a = ld32 m' a"
  by (rule ld32_cong) auto

lemma word32_split_bytes:
  "(ucast (ucast v :: u8) OR push_bit 8 (ucast (ucast (drop_bit 8 v) :: u8))
     OR push_bit 16 (ucast (ucast (drop_bit 16 v) :: u8))
     OR push_bit 24 (ucast (ucast (drop_bit 24 v) :: u8))) = (v :: u32)" (is "?l = _")
proof (rule bit_word_eqI)
  fix n :: nat
  assume "n < LENGTH(32)"
  then consider "n < 8" | "8 \<le> n" "n < 16" | "16 \<le> n" "n < 24" | "24 \<le> n" "n < 32"
    by fastforce
  then show "bit ?l n = bit v n"
    by cases (auto simp: bit_simps)
qed

lemma ld32_st32 [simp]: "ld32 (st32 m a v) a = v"
  by (simp add: ld32_def st32_def word32_split_bytes)

lemma st32_other [mem_simps]: "x \<notin> span a 4 \<Longrightarrow> st32 m a v x = m x"
  by (auto simp: st32_def in_span_iff dest: spec [of _ 0] spec [of _ 1] spec [of _ 2] spec [of _ 3])

end
