(* ===== verification/CString.thy ===== *)
theory CString
  imports Kernel_Prelude "HOL-Library.Signed_Division"
begin

text \<open>
  The string and memory routines of \<open>lib.c\<close> over the byte memory: \<open>strlen\<close>, \<open>strcpy\<close>,
  \<open>strncpy\<close>, \<open>strncmp\<close>, \<open>strrev\<close>, \<open>itoa\<close> and the assembly loops of \<open>memset\<close>,
  \<open>memset_word\<close>, \<open>memset_dword\<close>, \<open>memcpy\<close> and \<open>memmove\<close>, the last five with the
  registers of the inline assembly as their variables. A loop that searches for a
  terminating zero byte is an \<open>option\<close>: \<open>None\<close> when it never finds one. The
  correctness lemmas state each routine against a list of bytes.
\<close>

section \<open>Definitions\<close>

subsection \<open>Strings\<close>

partial_function (option) strlen_loop :: "memory \<Rightarrow> u32 \<Rightarrow> u32 \<Rightarrow> u32 option" where
  "strlen_loop m s len = (if m (s + len) \<noteq> 0 then strlen_loop m s (len + 1) else Some len)"

definition strlen :: "memory \<Rightarrow> u32 \<Rightarrow> u32 option" where
  "strlen m s = strlen_loop m s 0"

partial_function (option) strcpy_loop ::
  "memory \<Rightarrow> u32 \<Rightarrow> u32 \<Rightarrow> u32 \<Rightarrow> memory option" where
  "strcpy_loop m dest src i =
     (if m (src + i) \<noteq> 0 then strcpy_loop (m(dest + i := m (src + i))) dest src (i + 1)
      else Some (m(dest + i := 0)))"

definition strcpy :: "memory \<Rightarrow> u32 \<Rightarrow> u32 \<Rightarrow> memory option" where
  "strcpy m dest src = strcpy_loop m dest src 0"

text \<open>The counters of \<open>strncpy\<close> and \<open>strncmp\<close> are compared with the unsigned \<open>n\<close>, so the
  comparison is unsigned. The first loop of \<open>strncpy\<close> returns the counter where it stopped.\<close>

function strncpy_copy :: "memory \<Rightarrow> u32 \<Rightarrow> u32 \<Rightarrow> u32 \<Rightarrow> u32 \<Rightarrow> memory \<times> u32" where
  "strncpy_copy m dest src n i =
     (if m (src + i) \<noteq> 0 \<and> i < n
      then strncpy_copy (m(dest + i := m (src + i))) dest src n (i + 1) else (m, i))"
  by pat_completeness auto
termination
  by (relation "measure (\<lambda>(m, dest, src, n, i). unat n - unat i)") (auto intro: word_Suc_measure)

function strncpy_pad :: "memory \<Rightarrow> u32 \<Rightarrow> u32 \<Rightarrow> u32 \<Rightarrow> memory" where
  "strncpy_pad m dest n i =
     (if i < n then strncpy_pad (m(dest + i := 0)) dest n (i + 1) else m)"
  by pat_completeness auto
termination
  by (relation "measure (\<lambda>(m, dest, n, i). unat n - unat i)") (auto intro: word_Suc_measure)

definition strncpy :: "memory \<Rightarrow> u32 \<Rightarrow> u32 \<Rightarrow> u32 \<Rightarrow> memory" where
  "strncpy m dest src n = (let (m', i) = strncpy_copy m dest src n 0 in strncpy_pad m' dest n i)"

text \<open>\<open>int8_t\<close> is \<open>char\<close>, which is signed on this target.\<close>

function strncmp_loop :: "memory \<Rightarrow> u32 \<Rightarrow> u32 \<Rightarrow> u32 \<Rightarrow> u32 \<Rightarrow> int" where
  "strncmp_loop m s1 s2 n i =
     (if i < n then
        (if m (s1 + i) \<noteq> m (s2 + i) \<or> m (s1 + i) = 0
         then sint (m (s1 + i)) - sint (m (s2 + i))
         else strncmp_loop m s1 s2 n (i + 1))
      else 0)"
  by pat_completeness auto
termination
  by (relation "measure (\<lambda>(m, s1, s2, n, i). unat n - unat i)") (auto intro: word_Suc_measure)

definition strncmp :: "memory \<Rightarrow> u32 \<Rightarrow> u32 \<Rightarrow> u32 \<Rightarrow> int" where
  "strncmp m s1 s2 n = strncmp_loop m s1 s2 n 0"

declare strncpy_copy.simps [simp del] strncpy_pad.simps [simp del] strncmp_loop.simps [simp del]

text \<open>The swap loop of \<open>strrev\<close>; \<open>beg\<close> and \<open>end\<close> are \<open>int32_t\<close>.\<close>

function strrev_loop :: "memory \<Rightarrow> u32 \<Rightarrow> int \<Rightarrow> int \<Rightarrow> memory" where
  "strrev_loop m s beg e =
     (if beg < e then
        (let tmp = m (s + word_of_int e);
             m1 = m(s + word_of_int e := m (s + word_of_int beg));
             m2 = m1(s + word_of_int beg := tmp)
         in strrev_loop m2 s (beg + 1) (e - 1))
      else m)"
  by pat_completeness auto
termination
  by (relation "measure (\<lambda>(m, s, beg, e). nat (e - beg))") auto

declare strrev_loop.simps [simp del]

definition strrev :: "memory \<Rightarrow> u32 \<Rightarrow> memory option" where
  "strrev m s = do { len \<leftarrow> strlen m s; Some (strrev_loop m s 0 (sint (len - 1))) }"

text \<open>The static table of \<open>itoa\<close>, with its terminating zero; \<open>stray\<close> gives the bytes after
  the table, which a radix above 37 would read.\<close>

definition lookup :: "(u32 \<Rightarrow> u8) \<Rightarrow> u32 \<Rightarrow> u8" where
  "lookup stray i = (if i < 10 then 48 + ucast i else if i < 36 then 55 + ucast i
     else if i = 36 then 0 else stray i)"

text \<open>A radix of 0 raises the divide error, whose handler never returns; a radix of 1 loops.\<close>

partial_function (option) itoa_loop ::
  "(u32 \<Rightarrow> u8) \<Rightarrow> memory \<Rightarrow> u32 \<Rightarrow> u32 \<Rightarrow> u32 \<Rightarrow> (memory \<times> u32) option" where
  "itoa_loop stray m newval newbuf radix =
     (if newval > 0 then
        if radix = 0 then None
        else itoa_loop stray (m(newbuf := lookup stray (newval mod radix)))
               (newval div radix) (newbuf + 1) radix
      else Some (m, newbuf))"

definition itoa :: "(u32 \<Rightarrow> u8) \<Rightarrow> memory \<Rightarrow> u32 \<Rightarrow> u32 \<Rightarrow> u32 \<Rightarrow> memory option" where
  "itoa stray m val buf radix =
     (if val = 0 then Some (m(buf := 48, buf + 1 := 0))
      else do {
        (m', newbuf) \<leftarrow> itoa_loop stray m val buf radix;
        strrev (m'(newbuf := 0)) buf
      })"

subsection \<open>Block operations\<close>

text \<open>\<open>memset\<close>: store bytes until \<open>%edi\<close> is a multiple of four or \<open>%ecx\<close> is zero, then
  doublewords, then the remaining bytes.\<close>

fun memset_top :: "u8 \<Rightarrow> nat \<Rightarrow> u32 \<Rightarrow> memory \<Rightarrow> nat \<times> u32 \<times> memory" where
  "memset_top al 0 edi m = (0, edi, m)"
| "memset_top al (Suc ecx) edi m =
     (if edi AND 3 = 0 then (Suc ecx, edi, m) else memset_top al ecx (edi + 1) (m(edi := al)))"

fun rep_stosl :: "u32 \<Rightarrow> nat \<Rightarrow> u32 \<Rightarrow> memory \<Rightarrow> u32 \<times> memory" where
  "rep_stosl eax 0 edi m = (edi, m)"
| "rep_stosl eax (Suc ecx) edi m = rep_stosl eax ecx (edi + 4) (st32 m edi eax)"

fun rep_stosw :: "u16 \<Rightarrow> nat \<Rightarrow> u32 \<Rightarrow> memory \<Rightarrow> memory" where
  "rep_stosw ax 0 edi m = m"
| "rep_stosw ax (Suc ecx) edi m =
     rep_stosw ax ecx (edi + 2) (m(edi := ucast ax, edi + 1 := ucast (drop_bit 8 ax)))"

fun memset_bottom :: "u8 \<Rightarrow> nat \<Rightarrow> u32 \<Rightarrow> memory \<Rightarrow> memory" where
  "memset_bottom al 0 edi m = m"
| "memset_bottom al (Suc edx) edi m = memset_bottom al edx (edi + 1) (m(edi := al))"

definition memset_asm :: "u32 \<Rightarrow> u32 \<Rightarrow> nat \<Rightarrow> memory \<Rightarrow> memory" where
  "memset_asm eax edi ecx m =
     (let (ecx, edi, m1) = memset_top (ucast eax) ecx edi m
      in if ecx = 0 then m1
         else let (edi, m2) = rep_stosl eax (ecx div 4) edi m1
              in memset_bottom (ucast eax) (ecx mod 4) edi m2)"

definition memset :: "memory \<Rightarrow> u32 \<Rightarrow> u32 \<Rightarrow> u32 \<Rightarrow> memory" where
  "memset m s c n =
     (let c = c AND 255
      in memset_asm (push_bit 24 c OR push_bit 16 c OR push_bit 8 c OR c) s (unat n) m)"

definition memset_word :: "memory \<Rightarrow> u32 \<Rightarrow> u32 \<Rightarrow> u32 \<Rightarrow> memory" where
  "memset_word m s c n = rep_stosw (ucast c) (unat n) s m"

definition memset_dword :: "memory \<Rightarrow> u32 \<Rightarrow> u32 \<Rightarrow> u32 \<Rightarrow> memory" where
  "memset_dword m s c n = snd (rep_stosl c (unat n) s m)"

fun memcpy_top :: "nat \<Rightarrow> u32 \<Rightarrow> u32 \<Rightarrow> memory \<Rightarrow> nat \<times> u32 \<times> u32 \<times> memory" where
  "memcpy_top 0 edi esi m = (0, edi, esi, m)"
| "memcpy_top (Suc ecx) edi esi m =
     (if edi AND 3 = 0 then (Suc ecx, edi, esi, m)
      else memcpy_top ecx (edi + 1) (esi + 1) (m(edi := m esi)))"

fun rep_movsl :: "nat \<Rightarrow> u32 \<Rightarrow> u32 \<Rightarrow> memory \<Rightarrow> u32 \<times> u32 \<times> memory" where
  "rep_movsl 0 edi esi m = (edi, esi, m)"
| "rep_movsl (Suc ecx) edi esi m = rep_movsl ecx (edi + 4) (esi + 4) (st32 m edi (ld32 m esi))"

text \<open>The byte loop of \<open>memcpy\<close>, and \<open>rep movsb\<close> with the direction flag clear.\<close>

fun memcpy_bottom :: "nat \<Rightarrow> u32 \<Rightarrow> u32 \<Rightarrow> memory \<Rightarrow> memory" where
  "memcpy_bottom 0 edi esi m = m"
| "memcpy_bottom (Suc edx) edi esi m = memcpy_bottom edx (edi + 1) (esi + 1) (m(edi := m esi))"

fun rep_movsb_down :: "nat \<Rightarrow> u32 \<Rightarrow> u32 \<Rightarrow> memory \<Rightarrow> memory" where
  "rep_movsb_down 0 edi esi m = m"
| "rep_movsb_down (Suc ecx) edi esi m = rep_movsb_down ecx (edi - 1) (esi - 1) (m(edi := m esi))"

definition memcpy :: "memory \<Rightarrow> u32 \<Rightarrow> u32 \<Rightarrow> u32 \<Rightarrow> memory" where
  "memcpy m dest src n =
     (let (ecx, edi, esi, m1) = memcpy_top (unat n) dest src m
      in if ecx = 0 then m1
         else let (edi, esi, m2) = rep_movsl (ecx div 4) edi esi m1
              in memcpy_bottom (ecx mod 4) edi esi m2)"

text \<open>\<open>memmove\<close> returns the memory and the direction flag it leaves set.\<close>

definition memmove :: "memory \<Rightarrow> u32 \<Rightarrow> u32 \<Rightarrow> u32 \<Rightarrow> memory \<times> bool" where
  "memmove m dest src n =
     (if dest \<le> src then (memcpy_bottom (unat n) dest src m, False)
      else (rep_movsb_down (unat n) (dest + n - 1) (src + n - 1) m, True))"

section \<open>Strings as lists of bytes\<close>

text \<open>\<open>cstr m a xs\<close>: the zero-terminated string at \<open>a\<close> is \<open>xs\<close>.\<close>

primrec cstr :: "memory \<Rightarrow> u32 \<Rightarrow> u8 list \<Rightarrow> bool" where
  "cstr m a [] \<longleftrightarrow> m a = 0"
| "cstr m a (x # xs) \<longleftrightarrow> m a = x \<and> x \<noteq> 0 \<and> cstr m (a + 1) xs"

text \<open>The bytes of a string literal, without its terminating zero.\<close>

definition chars :: "string \<Rightarrow> u8 list" where
  "chars t = map of_char t"

definition nl :: string where "nl = [CHR 0x0A]"

lemma chars_append: "chars (xs @ ys) = chars xs @ chars ys"
  by (simp add: chars_def)

lemma length_chars: "length (chars t) = length t"
  by (simp add: chars_def)

lemma cstr_unique: "cstr m a xs \<Longrightarrow> cstr m a ys \<Longrightarrow> xs = ys"
proof (induction xs arbitrary: a ys)
  case Nil
  then show ?case by (cases ys) auto
next
  case (Cons x xs)
  then show ?case by (cases ys) auto
qed

lemma cstr_cong:
  "(\<And>x. x \<in> span a (Suc (length xs)) \<Longrightarrow> m x = m' x) \<Longrightarrow> cstr m a xs = cstr m' a xs"
proof (induction xs arbitrary: a)
  case (Cons x xs)
  from Cons.prems have "m a = m' a" by (auto simp: span_Cons)
  moreover from Cons.prems have "cstr m (a + 1) xs = cstr m' (a + 1) xs"
    by (intro Cons.IH) (auto simp: span_Cons [of a])
  ultimately show ?case by simp
qed (simp add: span_Cons)

lemma cstr_wrs_self:
  assumes "length xs < 2 ^ 32" and "0 \<notin> set xs"
  shows "cstr (wrs m a (xs @ [0])) a xs"
proof -
  have "cstr m' a xs" if "\<And>i. i \<le> length xs \<Longrightarrow> m' (a + of_nat i) = (xs @ [0]) ! i" for m'
    using that assms(2)
  proof (induction xs arbitrary: a)
    case Nil
    from Nil.prems(1) [of 0] show ?case by simp
  next
    case (Cons x xs)
    from Cons.prems(1) [of 0] have "m' a = x" by simp
    moreover have "cstr m' (a + 1) xs"
    proof (rule Cons.IH)
      fix i assume "i \<le> length xs"
      with Cons.prems(1) [of "Suc i"] show "m' (a + 1 + of_nat i) = (xs @ [0]) ! i"
        by (simp add: algebra_simps)
    qed (use Cons.prems in auto)
    ultimately show ?case using Cons.prems by auto
  qed
  then show ?thesis using assms(1) by (simp add: wrs_nth)
qed

text \<open>What a field of \<open>n\<close> bytes holds as a name: the bytes before the first zero.\<close>

definition name_of :: "u8 list \<Rightarrow> u8 list" where
  "name_of bs = takeWhile (\<lambda>b. b \<noteq> 0) bs"

lemma name_of_simps [simp]:
  "name_of [] = []" "name_of (b # bs) = (if b = 0 then [] else b # name_of bs)"
  by (auto simp: name_of_def)

lemma length_name_of: "length (name_of bs) \<le> length bs"
  by (simp add: name_of_def length_takeWhile_le)

lemma name_of_nonzero [simp]: "0 \<notin> set (name_of bs)"
  by (auto simp: name_of_def dest: set_takeWhileD)

lemma cstr_name_of: "cstr m a xs \<Longrightarrow> length xs \<le> n \<Longrightarrow> name_of (rds m a n) = take n xs"
proof (induction n arbitrary: a xs)
  case (Suc n)
  then show ?case by (cases xs) (auto simp: rds_Cons)
qed simp

section \<open>Correctness of the string routines\<close>

lemma strlen_loop_cstr: "cstr m (s + len) xs \<Longrightarrow> strlen_loop m s len = Some (len + of_nat (length xs))"
proof (induction xs arbitrary: len)
  case Nil
  then show ?case by (simp add: strlen_loop.simps)
next
  case (Cons x xs)
  then show ?case
    using Cons.IH [of "len + 1"] by (subst strlen_loop.simps) (simp add: algebra_simps)
qed

lemma strlen_cstr: "cstr m s xs \<Longrightarrow> strlen m s = Some (of_nat (length xs))"
  using strlen_loop_cstr [of m s 0 xs] by (simp add: strlen_def)

lemma strcpy_loop_cstr:
  assumes "cstr m (src + i) xs"
    and "span (dest + i) (Suc (length xs)) \<inter> span (src + i) (Suc (length xs)) = {}"
  shows "strcpy_loop m dest src i = Some (wrs m (dest + i) (xs @ [0]))"
  using assms
proof (induction xs arbitrary: m i)
  case Nil
  then show ?case by (simp add: strcpy_loop.simps)
next
  case (Cons x xs)
  let ?m = "m(dest + i := x)"
  have disj: "span (dest + (i + 1)) (Suc (length xs)) \<inter> span (src + (i + 1)) (Suc (length xs)) = {}"
    and out: "dest + i \<notin> span (src + (i + 1)) (Suc (length xs))"
    using Cons.prems(2) by (auto simp: span_Cons [of "dest + i"] span_Cons [of "src + i"] add.assoc)
  have "cstr ?m (src + (i + 1)) xs = cstr m (src + (i + 1)) xs"
    by (rule cstr_cong) (use out in auto)
  then have "cstr ?m (src + (i + 1)) xs" using Cons.prems(1) by (simp add: add.assoc)
  from Cons.IH [OF this disj] Cons.prems(1) show ?case
    by (subst strcpy_loop.simps) (simp add: add.assoc)
qed

lemma strcpy_cstr:
  assumes "cstr m src xs" and "span dest (Suc (length xs)) \<inter> span src (Suc (length xs)) = {}"
  shows "strcpy m dest src = Some (wrs m dest (xs @ [0]))"
  using strcpy_loop_cstr [of m src 0 xs dest] assms by (simp add: strcpy_def)

lemma strncpy_pad_wrs: "i \<le> n \<Longrightarrow> strncpy_pad m dest n i = wrs m (dest + i) (replicate (unat n - unat i) 0)"
proof (induction m dest n i rule: strncpy_pad.induct)
  case (1 m dest n i)
  show ?case
  proof (cases "i < n")
    case True
    then have "unat n - unat i = Suc (unat n - unat (i + 1))"
      by (rule word_diff_Suc)
    with True 1 show ?thesis
      by (subst strncpy_pad.simps) (simp add: word_less_Suc_le add.assoc)
  next
    case False
    with 1 show ?thesis by (subst strncpy_pad.simps) simp
  qed
qed

lemma strncpy_copy_wrs:
  fixes m :: memory
  assumes "i \<le> n"
    and "span (dest + i) (unat n - unat i) \<inter> span (src + i) (unat n - unat i) = {}"
  defines "xs \<equiv> name_of (rds m (src + i) (unat n - unat i))"
  shows "strncpy_copy m dest src n i = (wrs m (dest + i) xs, i + of_nat (length xs))"
  using assms(1,2) unfolding xs_def
proof (induction m dest src n i rule: strncpy_copy.induct)
  case (1 m dest src n i)
  show ?case
  proof (cases "m (src + i) \<noteq> 0 \<and> i < n")
    case True
    let ?k = "unat n - unat (i + 1)" and ?m = "m(dest + i := m (src + i))"
    have k: "unat n - unat i = Suc ?k"
      using True by (simp add: word_diff_Suc)
    have disj: "span (dest + (i + 1)) ?k \<inter> span (src + (i + 1)) ?k = {}"
      and out: "dest + i \<notin> span (src + (i + 1)) ?k"
      using 1(3) by (auto simp: k span_Cons add.assoc)
    have "rds ?m (src + (i + 1)) ?k = rds m (src + (i + 1)) ?k"
      using out by (rule rds_upd)
    with 1(1) [OF True _ disj] True show ?thesis
      by (subst strncpy_copy.simps) (simp add: k rds_Cons word_less_Suc_le add.assoc)
  next
    case False
    then show ?thesis
    proof (cases "i < n")
      case True
      then have "unat n - unat i = Suc (unat n - unat (i + 1))"
        by (rule word_diff_Suc)
      with False True show ?thesis by (subst strncpy_copy.simps) (simp add: rds_Cons)
    next
      case False
      with 1(2) have "i = n" by simp
      then show ?thesis by (subst strncpy_copy.simps) simp
    qed
  qed
qed

lemma strncpy_wrs:
  fixes m :: memory
  assumes "span dest (unat n) \<inter> span src (unat n) = {}"
  defines "xs \<equiv> name_of (rds m src (unat n))"
  shows "strncpy m dest src n = wrs m dest (xs @ replicate (unat n - length xs) 0)"
proof -
  have len: "length xs \<le> unat n"
    using length_name_of [of "rds m src (unat n)"] by (simp add: xs_def)
  then have lt: "length xs < 2 ^ 32" using unat32_less [of n] by simp
  then have u: "unat (of_nat (length xs) :: u32) = length xs" by (simp add: unat_of_nat)
  have "strncpy_copy m dest src n 0 = (wrs m dest xs, of_nat (length xs))"
    using strncpy_copy_wrs [of 0 n dest src m] assms by simp
  moreover have "of_nat (length xs) \<le> n"
    using len u by (simp add: word_le_nat_alt)
  ultimately show ?thesis
    by (simp add: strncpy_def strncpy_pad_wrs wrs_append u)
qed

lemma strncmp_loop_zero:
  "i \<le> n \<Longrightarrow> strncmp_loop m s1 s2 n i = 0 \<longleftrightarrow>
     name_of (rds m (s1 + i) (unat n - unat i)) = name_of (rds m (s2 + i) (unat n - unat i))"
proof (induction m s1 s2 n i rule: strncmp_loop.induct)
  case (1 m s1 s2 n i)
  show ?case
  proof (cases "i < n")
    case True
    then have k: "unat n - unat i = Suc (unat n - unat (i + 1))"
      by (rule word_diff_Suc)
    show ?thesis
    proof (cases "m (s1 + i) \<noteq> m (s2 + i) \<or> m (s1 + i) = 0")
      case c: True
      then have "strncmp_loop m s1 s2 n i = 0 \<longleftrightarrow> m (s1 + i) = m (s2 + i)"
        using True by (subst strncmp_loop.simps) simp
      with c show ?thesis by (auto simp: k rds_Cons)
    next
      case c: False
      have "strncmp_loop m s1 s2 n i = strncmp_loop m s1 s2 n (i + 1)"
        using True c by (subst strncmp_loop.simps) simp
      with 1(1) [OF True c word_less_Suc_le [OF True]] c show ?thesis
        by (simp add: k rds_Cons add.assoc)
    qed
  next
    case False
    with 1 show ?thesis by (subst strncmp_loop.simps) simp
  qed
qed

lemma strncmp_zero:
  "strncmp m s1 s2 n = 0 \<longleftrightarrow> name_of (rds m s1 (unat n)) = name_of (rds m s2 (unat n))"
  using strncmp_loop_zero [of 0 n m s1 s2] by (simp add: strncmp_def)

section \<open>Correctness of the block operations\<close>

lemma memset_bottom_wrs: "memset_bottom al n edi m = wrs m edi (replicate n al)"
  by (induction n arbitrary: edi m) auto

lemma memset_top_wrs:
  "memset_top al n edi m = (k, edi', m') \<Longrightarrow>
     k \<le> n \<and> edi' = edi + of_nat (n - k) \<and> m' = wrs m edi (replicate (n - k) al)"
proof (induction n arbitrary: edi m)
  case (Suc n)
  show ?case
  proof (cases "edi AND 3 = 0")
    case False
    with Suc.IH [of "edi + 1" "m(edi := al)"] Suc.prems have "k \<le> n \<and> edi' = edi + 1 + of_nat (n - k) \<and>
        m' = wrs (m(edi := al)) (edi + 1) (replicate (n - k) al)" by simp
    then show ?thesis by (auto simp: Suc_diff_le algebra_simps simp del: of_nat_diff)
  qed (use Suc in auto)
qed simp

lemma rep_stosl_wrs:
  "rep_stosl eax n edi m = (edi + of_nat (4 * n), wrs m edi (concat (replicate n (bytes32 eax))))"
  by (induction n arbitrary: edi m) (auto simp: st32_wrs wrs_append algebra_simps)

lemma bytes32_repeat:
  fixes c :: u32
  defines "d \<equiv> c AND 255"
  shows "bytes32 (push_bit 24 d OR push_bit 16 d OR push_bit 8 d OR d) = replicate 4 (ucast c)"
proof -
  let ?e = "push_bit 24 d OR push_bit 16 d OR push_bit 8 d OR d"
  have d: "d = take_bit 8 c"
    by (simp add: d_def take_bit_eq_mask mask_eq_exp_minus_1)
  have "(ucast ?e :: u8) = ucast c" "(ucast (drop_bit 8 ?e) :: u8) = ucast c"
    "(ucast (drop_bit 16 ?e) :: u8) = ucast c" "(ucast (drop_bit 24 ?e) :: u8) = ucast c"
    by (rule bit_word_eqI; auto simp: d bit_simps)+
  then show ?thesis by (simp add: bytes32_def numeral_eq_Suc)
qed

lemma concat_replicate_replicate: "concat (replicate n (replicate k x)) = replicate (n * k) x"
  by (induction n) (auto simp: replicate_add)

lemma memset_asm_wrs:
  assumes bs: "bytes32 eax = replicate 4 c"
  shows "memset_asm eax edi n m = wrs m edi (replicate n c)"
proof -
  have al: "ucast eax = c" using bs by (simp add: bytes32_def numeral_eq_Suc)
  obtain k edi' m' where top: "memset_top c n edi m = (k, edi', m')"
    by (metis prod_cases3)
  define r q where "r = n - k" and "q = k div 4 * 4"
  have t: "edi' = edi + of_nat r" "m' = wrs m edi (replicate r c)" and n: "n = r + (q + k mod 4)"
    using memset_top_wrs [OF top] by (auto simp: r_def q_def simp del: of_nat_diff)
  have q: "of_nat (4 * (k div 4)) = (of_nat q :: u32)" by (simp add: q_def mult.commute)
  have "memset_asm eax edi n m = wrs m edi (replicate r c @ replicate q c @ replicate (k mod 4) c)"
    by (auto simp only: memset_asm_def Let_def al top prod.case rep_stosl_wrs bs memset_bottom_wrs
        concat_replicate_replicate wrs_append t q_def [symmetric] q length_replicate
        replicate_empty append_Nil2 wrs.simps if_True if_False split: if_splits)
       (simp add: q_def)
  then show ?thesis by (subst n) (simp add: replicate_add)
qed

lemma memset_wrs: "memset m s c n = wrs m s (replicate (unat n) (ucast c))"
  unfolding memset_def Let_def by (rule memset_asm_wrs) (rule bytes32_repeat)

lemma memset_dword_wrs: "memset_dword m s c n = wrs m s (concat (replicate (unat n) (bytes32 c)))"
  by (simp add: memset_dword_def rep_stosl_wrs)

lemma rep_stosw_wrs:
  "rep_stosw ax n edi m = wrs m edi (concat (replicate n [ucast ax, ucast (drop_bit 8 ax)]))"
  by (induction n arbitrary: edi m) (auto simp: add.assoc)

text \<open>A byte copy in increasing order is right when no byte is read after it was overwritten.\<close>

lemma memcpy_bottom_wrs:
  assumes "\<And>i j. i < j \<Longrightarrow> j < n \<Longrightarrow> edi + of_nat i \<noteq> esi + of_nat j"
  shows "memcpy_bottom n edi esi m = wrs m edi (rds m esi n)"
  using assms
proof (induction n arbitrary: edi esi m)
  case (Suc n)
  have "edi \<notin> span (esi + 1) n"
    using Suc.prems [of 0 "Suc _"] by (auto simp: in_span_iff algebra_simps)
  moreover have "memcpy_bottom n (edi + 1) (esi + 1) m' = wrs m' (edi + 1) (rds m' (esi + 1) n)" for m'
    using Suc.prems [of "Suc _" "Suc _"] by (intro Suc.IH) (auto simp: algebra_simps)
  ultimately show ?case by (simp add: rds_Cons rds_upd)
qed simp

text \<open>A byte copy in decreasing order.\<close>

lemma rep_movsb_down_wrs:
  assumes "n \<le> 2 ^ 32" and "\<And>i j. i < j \<Longrightarrow> j < n \<Longrightarrow> edi + of_nat j \<noteq> esi + of_nat i"
  shows "rep_movsb_down n (edi + of_nat n - 1) (esi + of_nat n - 1) m = wrs m edi (rds m esi n)"
  using assms
proof (induction n arbitrary: m)
  case (Suc n)
  let ?x = "edi + of_nat n" and ?b = "m (esi + of_nat n)"
  have src: "?x \<notin> span esi n"
    using Suc.prems(2) [of _ n] by (auto simp: in_span_iff)
  have dst: "?x \<notin> span edi n"
    using Suc.prems(1) by (auto simp: in_span_iff word_of_nat_eq_iff)
  have "rep_movsb_down n (edi + of_nat n - 1) (esi + of_nat n - 1) (m(?x := ?b))
      = wrs (m(?x := ?b)) edi (rds (m(?x := ?b)) esi n)"
    using Suc.prems by (intro Suc.IH) auto
  with src dst show ?case
    by (simp add: rds_upd wrs_upd_commute rds_Suc wrs_snoc algebra_simps)
qed simp

lemma rep_movsl_wrs:
  assumes "span edi (4 * n) \<inter> span esi (4 * n) = {}"
  shows "rep_movsl n edi esi m =
    (edi + of_nat (4 * n), esi + of_nat (4 * n), wrs m edi (rds m esi (4 * n)))"
  using assms
proof (induction n arbitrary: edi esi m)
  case (Suc n)
  have split: "span a (4 * Suc n) = span a 4 \<union> span (a + 4) (4 * n)" for a
    by (auto simp: span_Cons numeral_eq_Suc add.assoc)
  from Suc.prems have d: "span (edi + 4) (4 * n) \<inter> span (esi + 4) (4 * n) = {}"
    and e: "span (esi + 4) (4 * n) \<inter> span edi 4 = {}"
    unfolding split by auto
  have "rds (wrs m edi (rds m esi 4)) (esi + 4) (4 * n) = rds m (esi + 4) (4 * n)"
    using e by (intro rds_wrs_disjoint) simp
  moreover have "rds m esi (4 * Suc n) = rds m esi 4 @ rds m (esi + 4) (4 * n)"
    using rds_append [of m esi 4 "4 * n"] by simp
  ultimately show ?case
    using Suc.IH [OF d] by (simp add: st32_wrs bytes32_ld32 wrs_append algebra_simps)
qed simp

lemma memcpy_top_wrs:
  assumes "memcpy_top n edi esi m = (k, edi', esi', m')" and "span edi n \<inter> span esi n = {}"
  shows "k \<le> n \<and> edi' = edi + of_nat (n - k) \<and> esi' = esi + of_nat (n - k)
    \<and> m' = wrs m edi (rds m esi (n - k))"
  using assms
proof (induction n arbitrary: edi esi m)
  case (Suc n)
  show ?case
  proof (cases "edi AND 3 = 0")
    case False
    from Suc.prems(2) have d: "span (edi + 1) n \<inter> span (esi + 1) n = {}" and e: "edi \<notin> span (esi + 1) n"
      by (auto simp: span_Cons)
    from Suc.IH [OF _ d, of "m(edi := m esi)"] False Suc.prems(1)
    have ih: "k \<le> n" "edi' = edi + 1 + of_nat (n - k)" "esi' = esi + 1 + of_nat (n - k)"
      "m' = wrs (m(edi := m esi)) (edi + 1) (rds (m(edi := m esi)) (esi + 1) (n - k))"
      by (auto simp del: of_nat_diff)
    have "edi \<notin> span (esi + 1) (n - k)" using e span_mono [of "n - k" n] by auto
    with ih show ?thesis by (auto simp: Suc_diff_le rds_Cons rds_upd algebra_simps simp del: of_nat_diff)
  qed (use Suc.prems in auto)
qed simp

lemma span_append: "span a (i + j) = span a i \<union> span (a + of_nat i) j"
proof (induction i arbitrary: a)
  case (Suc i)
  have "span a (Suc i + j) = insert a (span (a + 1) i \<union> span (a + 1 + of_nat i) j)"
    using Suc.IH [of "a + 1"] by (simp add: span_Cons)
  then show ?case by (simp add: span_Cons [of a i] add.assoc)
qed simp

lemma span_consecutive:
  assumes "i + k \<le> 2 ^ 32" shows "span a i \<inter> span (a + of_nat i) k = {}"
proof -
  have "a + of_nat m \<noteq> a + of_nat i + of_nat n" if "m < i" "n < k" for m n
  proof -
    have "(of_nat m :: u32) \<noteq> of_nat (i + n)" 
      using that assms by (subst word_of_nat_eq_iff) auto
    then show ?thesis by (simp add: add.assoc)
  qed
  then show ?thesis by (auto simp: in_span_iff)
qed

lemma memcpy_wrs:
  assumes disj: "span dest (unat n) \<inter> span src (unat n) = {}"
  shows "memcpy m dest src n = wrs m dest (rds m src (unat n))"
proof -
  obtain k edi esi m' where top: "memcpy_top (unat n) dest src m = (k, edi, esi, m')"
    by (metis prod_cases4)
  define r q s where "r = unat n - k" and "q = 4 * (k div 4)" and "s = k mod 4"
  have t: "edi = dest + of_nat r" "esi = src + of_nat r" "m' = wrs m dest (rds m src r)"
    and n: "unat n = r + (q + s)"
    using memcpy_top_wrs [OF top disj] by (auto simp: r_def q_def s_def simp del: of_nat_diff)
  have sp: "span a (unat n) = span a r \<union> (span (a + of_nat r) q \<union> span (a + of_nat r + of_nat q) s)" for a
    by (subst n) (simp only: span_append)
  have d: "span edi q \<inter> span esi q = {}" "span (edi + of_nat q) s \<inter> span (esi + of_nat q) s = {}"
    "span esi q \<inter> span dest r = {}" "span (esi + of_nat q) s \<inter> span dest r = {}"
    "span (esi + of_nat q) s \<inter> span edi q = {}"
    using disj t(1,2) unfolding sp by auto
  have b: "memcpy_bottom s (edi + of_nat q) (esi + of_nat q) x =
      wrs x (edi + of_nat q) (rds x (esi + of_nat q) s)" for x
  proof (rule memcpy_bottom_wrs)
    fix i j assume "i < j" "j < s"
    then have "edi + of_nat q + of_nat i \<in> span (edi + of_nat q) s"
      "esi + of_nat q + of_nat j \<in> span (esi + of_nat q) s" by (auto intro!: in_spanI)
    with d(2) show "edi + of_nat q + of_nat i \<noteq> esi + of_nat q + of_nat j"
      unfolding disjoint_iff by metis
  qed
  have z: "k = 0 \<Longrightarrow> q = 0 \<and> s = 0" by (simp add: q_def s_def)
  have l: "rep_movsl (k div 4) edi esi m' = (edi + of_nat q, esi + of_nat q, wrs m' edi (rds m' esi q))"
    using rep_movsl_wrs [of edi "k div 4" esi m'] d(1) by (simp add: q_def)
  have "memcpy m dest src n = wrs (wrs m' edi (rds m' esi q)) (edi + of_nat q)
      (rds (wrs m' edi (rds m' esi q)) (esi + of_nat q) s)"
    using z by (simp add: memcpy_def Let_def top l b s_def [symmetric])
  also have "\<dots> = wrs m dest (rds m src r @ rds m esi q @ rds m (esi + of_nat q) s)"
    using d t(1,3) by (simp add: wrs_append rds_wrs_disjoint)
  also have "rds m src r @ rds m esi q @ rds m (esi + of_nat q) s = rds m src (unat n)"
    by (subst n) (simp only: rds_append t(2))
  finally show ?thesis .
qed

lemma memmove_wrs:
  assumes "unat dest + unat n \<le> 2 ^ 32" and "unat src + unat n \<le> 2 ^ 32"
  shows "fst (memmove m dest src n) = wrs m dest (rds m src (unat n))"
proof -
  have u: "unat (a + of_nat i :: u32) = unat a + i" if "unat a + unat n \<le> 2 ^ 32" "i < unat n" for a i
    using that by (intro unat_add_of_nat32) simp
  show ?thesis
  proof (cases "dest \<le> src")
    case True
    have "dest + of_nat i \<noteq> src + of_nat j" if "i < j" "j < unat n" for i j
      using that True assms u [of dest i] u [of src j]
      by (auto simp: word_le_nat_alt dest!: arg_cong [of _ _ unat])
    with True show ?thesis by (simp add: memmove_def memcpy_bottom_wrs)
  next
    case False
    have "dest + of_nat j \<noteq> src + of_nat i" if "i < j" "j < unat n" for i j
      using that False assms u [of dest j] u [of src i]
      by (auto simp: word_le_nat_alt dest!: arg_cong [of _ _ unat])
    with False rep_movsb_down_wrs [of "unat n" dest src m] show ?thesis
      using unat32_less [of n] by (simp add: memmove_def)
  qed
qed

section \<open>Correctness of strrev and itoa\<close>

lemma strrev_loop_wrs:
  assumes "b + n \<le> 2 ^ 31"
  shows "strrev_loop m s (int b) (int b + int n - 1) = wrs m (s + of_nat b) (rev (rds m (s + of_nat b) n))"
  using assms
proof (induction n arbitrary: m b rule: less_induct)
  case (less n)
  consider "n = 0" | "n = 1" | k where "n = Suc (Suc k)"
    by (metis One_nat_def not0_implies_Suc)
  then show ?case
  proof cases
    case 1
    then show ?thesis by (subst strrev_loop.simps) simp
  next
    case 2
    then show ?thesis by (subst strrev_loop.simps) (simp add: rds_Cons fun_upd_idem)
  next
    case 3
    let ?a = "s + of_nat b" and ?z = "s + of_nat b + 1 + of_nat k"
    let ?m = "m(?z := m ?a, ?a := m ?z)"
    have e: "int b + int n - 1 = int (Suc (b + k))" using 3 by simp
    have step: "strrev_loop m s (int b) (int b + int n - 1) =
        strrev_loop ?m s (int (Suc b)) (int (Suc b) + int k - 1)"
      unfolding e using 3 by (subst strrev_loop.simps) (simp add: Let_def algebra_simps)
    have out: "?a \<notin> span (?a + 1) k" "?z \<notin> span (?a + 1) k"
    proof -
      have "(of_nat 0 :: u32) \<noteq> of_nat (Suc i)" "(of_nat k :: u32) \<noteq> of_nat i" if "i < k" for i
        using that less.prems 3 by (subst word_of_nat_eq_iff; simp)+
      then show "?a \<notin> span (?a + 1) k" "?z \<notin> span (?a + 1) k"
        by (auto simp: in_span_iff algebra_simps)
    qed
    have "strrev_loop ?m s (int (Suc b)) (int (Suc b) + int k - 1) =
        wrs ?m (?a + 1) (rev (rds ?m (?a + 1) k))"
      using less.IH [of k "Suc b" ?m] less.prems 3 by (simp add: algebra_simps)
    also have "\<dots> = wrs m ?a (m ?z # rev (rds m (?a + 1) k) @ [m ?a])"
    proof -
      have "(of_nat 0 :: u32) \<noteq> of_nat (Suc k)"
        using less.prems 3 by (subst word_of_nat_eq_iff; simp)
      then have "?z \<noteq> ?a" by (simp add: add.assoc)
      then have "m(?z := m ?a, ?a := m ?z) = m(?a := m ?z, ?z := m ?a)"
        by (rule fun_upd_twist)
      then show ?thesis
        using out by (simp add: rds_upd wrs_append wrs_upd_commute)
    qed
    also have "m ?z # rev (rds m (?a + 1) k) @ [m ?a] = rev (rds m ?a n)"
      using 3 by (simp add: rds_Cons [of m ?a] rds_Suc [of m "?a + 1"])
    finally show ?thesis using step by simp
  qed
qed

lemma sint_of_nat_less: "n < 2 ^ 31 \<Longrightarrow> sint (of_nat n :: u32) = int n"
  by (simp add: signed_of_nat signed_take_bit_int_eq_self)

lemma cstr_rds: "cstr m s xs \<Longrightarrow> rds m s (length xs) = xs"
  by (induction xs arbitrary: s) (auto simp: rds_Cons)

lemma strrev_cstr:
  assumes "cstr m s xs" and "length xs < 2 ^ 31"
  shows "strrev m s = Some (wrs m s (rev xs))"
proof -
  have "sint (of_nat (length xs) - 1 :: u32) = int 0 + int (length xs) - 1"
  proof (cases "length xs")
    case (Suc k)
    then show ?thesis using assms(2) sint_of_nat_less [of k] by simp
  qed simp
  then show ?thesis
    using strrev_loop_wrs [of 0 "length xs" m s] assms by (simp add: strrev_def strlen_cstr cstr_rds)
qed

text \<open>The digits of a number, least significant first, and the number they denote.\<close>

fun lsd :: "nat \<Rightarrow> nat \<Rightarrow> nat list" where
  "lsd r v = (if v = 0 \<or> r < 2 then [] else v mod r # lsd r (v div r))"

declare lsd.simps [simp del]

definition digits_value :: "nat \<Rightarrow> nat list \<Rightarrow> nat" where
  "digits_value r ds = foldr (\<lambda>d acc. d + r * acc) ds 0"

lemma digits_value_lsd: "2 \<le> r \<Longrightarrow> digits_value r (lsd r v) = v"
proof (induction r v rule: lsd.induct)
  case (1 r v)
  show ?case
  proof (cases "v = 0")
    case True
    then show ?thesis by (simp add: lsd.simps digits_value_def)
  next
    case False
    with 1 have "digits_value r (lsd r (v div r)) = v div r" by simp
    moreover have "lsd r v = v mod r # lsd r (v div r)"
      using False 1(2) by (subst lsd.simps) simp
    ultimately show ?thesis by (simp add: digits_value_def)
  qed
qed

lemma lsd_bound: "2 \<le> r \<Longrightarrow> d \<in> set (lsd r v) \<Longrightarrow> d < r"
proof (induction r v rule: lsd.induct)
  case (1 r v)
  have "lsd r v = (if v = 0 \<or> r < 2 then [] else v mod r # lsd r (v div r))"
    by (rule lsd.simps)
  with 1 show ?case by (auto split: if_splits)
qed

lemma length_lsd: "2 \<le> r \<Longrightarrow> v < 2 ^ k \<Longrightarrow> length (lsd r v) \<le> k"
proof (induction k arbitrary: v)
  case 0
  then show ?case by (simp add: lsd.simps)
next
  case (Suc k)
  have "v div r \<le> v div 2" using Suc.prems by (simp add: div_le_mono2)
  then have "v div r < 2 ^ k" using Suc.prems by (simp add: less_mult_imp_div_less)
  with Suc.IH [of "v div r"] Suc.prems show ?case by (subst lsd.simps) simp
qed

lemma lsd_last: "2 \<le> r \<Longrightarrow> 0 < v \<Longrightarrow> lsd r v \<noteq> [] \<and> last (lsd r v) \<noteq> 0"
proof (induction r v rule: lsd.induct)
  case (1 r v)
  then have e: "lsd r v = v mod r # lsd r (v div r)" by (subst lsd.simps) simp
  show ?case
  proof (cases "v < r")
    case True
    then show ?thesis using 1 by (simp add: e lsd.simps [of r 0])
  next
    case False
    then show ?thesis using 1 by (simp add: e div_greater_zero_iff)
  qed
qed

text \<open>The character of a digit: \<open>0\<close> to \<open>9\<close>, then \<open>A\<close> to \<open>Z\<close>.\<close>

definition digit_char :: "nat \<Rightarrow> u8" where
  "digit_char d = (if d < 10 then of_nat (48 + d) else of_nat (55 + d))"

lemma digit_char_nonzero: "d < 36 \<Longrightarrow> digit_char d \<noteq> 0"
proof -
  assume "d < 36"
  then have "unat (digit_char d) = (if d < 10 then 48 + d else 55 + d)"
    by (auto simp: digit_char_def unat_of_nat simp del: of_nat_add)
  then show ?thesis by (auto split: if_splits)
qed

lemma digit_char_inj: "d < 36 \<Longrightarrow> e < 36 \<Longrightarrow> digit_char d = digit_char e \<Longrightarrow> d = e"
proof -
  assume d: "d < 36" and e: "e < 36" and eq: "digit_char d = digit_char e"
  have u: "unat (digit_char x) = (if x < 10 then 48 + x else 55 + x)" if "x < 36" for x
    using that by (auto simp: digit_char_def unat_of_nat simp del: of_nat_add)
  from eq have "unat (digit_char d) = unat (digit_char e)" by simp
  with u [OF d] u [OF e] d e show "d = e" by (simp split: if_splits)
qed

lemma lookup_digit_char: "unat i < 36 \<Longrightarrow> lookup stray i = digit_char (unat i)"
proof -
  assume i: "unat i < 36"
  have "(ucast i :: u8) = of_nat (unat i)" by (simp add: of_nat_unat)
  with i show ?thesis
    by (auto simp: lookup_def digit_char_def word_less_nat_alt)
qed

lemma itoa_loop_wrs:
  assumes "2 \<le> unat r" and "unat r \<le> 36"
  shows "itoa_loop stray m v nb r =
    Some (wrs m nb (map digit_char (lsd (unat r) (unat v))), nb + of_nat (length (lsd (unat r) (unat v))))"
proof (induction "unat v" arbitrary: v m nb rule: less_induct)
  case less
  show ?case
  proof (cases "v = 0")
    case True
    then show ?thesis by (simp add: itoa_loop.simps lsd.simps)
  next
    case False
    then have pos: "0 < unat v" "0 < v" by (simp_all add: unat_gt_0 word_neq_0_conv)
    have r0: "r \<noteq> 0" using assms(1) by auto
    have dm: "unat (v div r) = unat v div unat r" "unat (v mod r) = unat v mod unat r"
      by (simp_all add: unat_div unat_mod)
    have lt: "unat (v div r) < unat v" using pos assms(1) by (simp add: dm)
    have "lookup stray (v mod r) = digit_char (unat v mod unat r)"
    proof -
      have "unat v mod unat r < unat r" using assms(1) by simp
      with assms(2) show ?thesis using lookup_digit_char [of "v mod r" stray] by (simp add: dm)
    qed
    moreover have "lsd (unat r) (unat v) = unat v mod unat r # lsd (unat r) (unat v div unat r)"
      using pos(1) assms(1) by (subst lsd.simps) simp
    ultimately show ?thesis
      using less [OF lt] pos r0 by (subst itoa_loop.simps) (simp add: dm add.assoc)
  qed
qed

lemma itoa_wrs:
  fixes v r :: u32
  assumes "2 \<le> unat r" and "unat r \<le> 36"
  defines "ds \<equiv> (if v = 0 then [0] else rev (lsd (unat r) (unat v)))"
  shows "itoa stray m v buf r = Some (wrs m buf (map digit_char ds @ [0]))"
proof (cases "v = 0")
  case True
  then show ?thesis by (simp add: itoa_def ds_def digit_char_def)
next
  case False
  let ?xs = "map digit_char (lsd (unat r) (unat v))"
  have len: "length ?xs \<le> 32"
    using length_lsd [of "unat r" "unat v" 32] assms(1) unat32_less [of v] by simp
  have nz: "0 \<notin> set ?xs"
    using lsd_bound [OF assms(1)] digit_char_nonzero assms(2) by fastforce
  have c: "cstr (wrs m buf (?xs @ [0])) buf ?xs"
    using len nz by (intro cstr_wrs_self) auto
  have w: "wrs (wrs m buf (?xs @ [0])) buf (rev ?xs) = wrs m buf (rev ?xs @ [0])"
  proof -
    have out: "buf + of_nat (length ?xs) \<notin> span buf (length ?xs)"
      using len by (auto simp: in_span_iff word_of_nat_eq_iff)
    have "wrs (wrs m buf ?xs) buf (rev ?xs) = wrs m buf (rev ?xs)"
    proof
      fix x
      show "wrs (wrs m buf ?xs) buf (rev ?xs) x = wrs m buf (rev ?xs) x"
        using len wrs_other [of x buf ?xs m] wrs_other [of x buf "rev ?xs"]
        by (cases "x \<in> span buf (length ?xs)") (auto simp: in_span_iff wrs_nth)
    qed
    with out show ?thesis by (simp add: wrs_snoc wrs_upd_commute)
  qed
  have "itoa stray m v buf r = Some (wrs m buf (rev ?xs @ [0]))"
    using False c len w by (simp add: itoa_def itoa_loop_wrs [OF assms(1,2)] strrev_cstr wrs_snoc)
  then show ?thesis using False by (simp add: ds_def rev_map)
qed

section \<open>Properties\<close>

text \<open>C32: \<open>itoa\<close> returns for every number in every radix from 2 to 36. The string it leaves in the
  buffer is the numeral of the number: digits below the radix, no leading zero unless the number is
  zero, and of the value of the number; no byte behind its terminating zero is touched.\<close>

theorem itoa_writes_number:
  fixes v r :: u32
  assumes "2 \<le> unat r" and "unat r \<le> 36"
  shows "\<exists>m' ds. itoa stray m v buf r = Some m' \<and> cstr m' buf (map digit_char ds)
    \<and> digits_value (unat r) (rev ds) = unat v \<and> (\<forall>d \<in> set ds. d < unat r) \<and> ds \<noteq> [] \<and> length ds \<le> 32
    \<and> (v \<noteq> 0 \<longrightarrow> hd ds \<noteq> 0) \<and> (\<forall>x. x \<notin> span buf (Suc (length ds)) \<longrightarrow> m' x = m x)"
proof -
  define ds where "ds = (if v = 0 then [0] else rev (lsd (unat r) (unat v)))"
  have e: "itoa stray m v buf r = Some (wrs m buf (map digit_char ds @ [0]))"
    unfolding ds_def by (rule itoa_wrs [OF assms])
  have digits: "d < unat r" if "d \<in> set ds" for d
    using that lsd_bound [OF assms(1)] assms(1) by (auto simp: ds_def split: if_splits)
  have len: "length ds \<le> 32"
    using length_lsd [of "unat r" "unat v" 32] assms(1) unat32_less [of v] by (simp add: ds_def)
  have "0 \<notin> set (map digit_char ds)"
    using digits digit_char_nonzero assms(2) by fastforce
  then have "cstr (wrs m buf (map digit_char ds @ [0])) buf (map digit_char ds)"
    using len by (intro cstr_wrs_self) auto
  moreover have "digits_value (unat r) (rev ds) = unat v"
    using digits_value_lsd [OF assms(1)] by (simp add: ds_def digits_value_def)
  moreover have "ds \<noteq> []" "v \<noteq> 0 \<longrightarrow> hd ds \<noteq> 0"
    using lsd_last [OF assms(1), of "unat v"] by (simp_all add: ds_def hd_rev unat_gt_0)
  moreover have "\<forall>x. x \<notin> span buf (Suc (length ds)) \<longrightarrow> wrs m buf (map digit_char ds @ [0]) x = m x"
    by (simp add: wrs_other)
  ultimately show ?thesis using e digits len by blast
qed

theorem itoa_writes_number_witness:
  "\<exists>m' ds. itoa (\<lambda>_. 0) (\<lambda>_. 0) 255 0x1000 16 = Some m' \<and> cstr m' 0x1000 (map digit_char ds)
    \<and> digits_value 16 (rev ds) = 255 \<and> m' 0x2000 = 0"
proof -
  obtain m' ds where "itoa (\<lambda>_. 0) (\<lambda>_. 0) 255 0x1000 16 = Some m'" "cstr m' 0x1000 (map digit_char ds)"
      "digits_value 16 (rev ds) = 255" "length ds \<le> 32" "\<forall>x. x \<notin> span 0x1000 (Suc (length ds)) \<longrightarrow> m' x = 0"
    using itoa_writes_number [of 16 "\<lambda>_. 0" "\<lambda>_. 0" 255 "0x1000"] by auto
  moreover from this have "0x2000 \<notin> span 0x1000 (Suc (length ds))" by (simp add: in_span_unat)
  ultimately show ?thesis by auto
qed

text \<open>C33: The optimised block routines do what a byte loop does. \<open>memset\<close> (bytes up to a doubleword
  boundary, doublewords, remaining bytes) equals its own byte loop run from the start, for every
  alignment and length, and so does \<open>memcpy\<close> when source and destination do not overlap.\<close>

theorem block_routines_equal_byte_loops:
  "memset m s c n = memset_bottom (ucast c) (unat n) s m \<and>
   (span dest (unat n) \<inter> span src (unat n) = {} \<longrightarrow> memcpy m dest src n = memcpy_bottom (unat n) dest src m)"
proof (intro conjI impI)
  show "memset m s c n = memset_bottom (ucast c) (unat n) s m" by (simp add: memset_wrs memset_bottom_wrs)
  assume d: "span dest (unat n) \<inter> span src (unat n) = {}"
  then have "dest + of_nat i \<noteq> src + of_nat j" if "i < unat n" "j < unat n" for i j
    using that in_spanI [of i "unat n" dest] in_spanI [of j "unat n" src] by (metis disjoint_iff)
  then have "memcpy_bottom (unat n) dest src m = wrs m dest (rds m src (unat n))"
    by (intro memcpy_bottom_wrs) simp
  with memcpy_wrs [OF d] show "memcpy m dest src n = memcpy_bottom (unat n) dest src m" by simp
qed

theorem block_routines_equal_byte_loops_witness:
  "memset (\<lambda>x. ucast x) 0x1003 65 11 = memset_bottom 65 11 0x1003 (\<lambda>x. ucast x) \<and>
   memcpy (\<lambda>x. ucast x) 0x1003 0x2001 11 = memcpy_bottom 11 0x1003 0x2001 (\<lambda>x. ucast x)"
proof -
  have "span 0x1003 (unat (11 :: u32)) \<inter> span 0x2001 (unat (11 :: u32)) = {}"
    by (rule span_disjoint_below) simp_all
  then show ?thesis
    using block_routines_equal_byte_loops [of "\<lambda>x. ucast x" "0x1003" 65 11 "0x1003" "0x2001"] by simp
qed

text \<open>\<open>memmove\<close> copies correctly between buffers that overlap in either direction: the
  destination ends up with the bytes the source held before the call.\<close>

theorem memmove_copies_overlapping:
  assumes "unat dest + unat n \<le> 2 ^ 32" and "unat src + unat n \<le> 2 ^ 32"
  shows "rds (fst (memmove m dest src n)) dest (unat n) = rds m src (unat n)
    \<and> (\<forall>x. x \<notin> span dest (unat n) \<longrightarrow> fst (memmove m dest src n) x = m x)"
  using memmove_wrs [OF assms, of m] rds_wrs [of "rds m src (unat n)" m dest] unat32_less [of n]
  by (simp add: wrs_other)

theorem memmove_copies_overlapping_witness:
  "rds (fst (memmove (\<lambda>x. ucast x) 0x1002 0x1000 4)) 0x1002 4 = [0, 1, 2, 3]"
  using memmove_copies_overlapping [of "0x1002" 4 "0x1000" "\<lambda>x. ucast x"]
  by (simp add: rds_def upt_rec)

end
