(* ===== verification/Machine.thy ===== *)
theory Machine
  imports CString
begin

text \<open>
  The machine the kernel's C code runs on, as far as \<open>lib.h\<close> exposes it: the byte
  memory, the I/O ports and the interrupt flag. Every component state extends the
  record \<open>machine\<close>, so an operation of one component applies to the state of any
  later one.

  A device is a parameter: \<open>dev h p\<close> is the byte the hardware returns when port \<open>p\<close> is
  read after the port accesses \<open>h\<close>. The accesses themselves are kept in \<open>io\<close>, oldest
  first.
\<close>

datatype access = Out u16 u8 | In u16

record machine =
  mem :: memory
  io :: "access list"
  dev :: "access list \<Rightarrow> u16 \<Rightarrow> u8"
  iflag :: bool

text \<open>\<open>outb\<close> writes the low byte of its first argument to the port that is its second.\<close>

definition outb :: "u8 \<Rightarrow> u16 \<Rightarrow> 'a machine_scheme \<Rightarrow> 'a machine_scheme" where
  "outb data port s = s\<lparr>io := io s @ [Out port data]\<rparr>"

definition inb :: "u16 \<Rightarrow> 'a machine_scheme \<Rightarrow> u8 \<times> 'a machine_scheme" where
  "inb port s = (dev s (io s) port, s\<lparr>io := io s @ [In port]\<rparr>)"

definition cli :: "'a machine_scheme \<Rightarrow> 'a machine_scheme" where
  "cli s = s\<lparr>iflag := False\<rparr>"

definition sti :: "'a machine_scheme \<Rightarrow> 'a machine_scheme" where
  "sti s = s\<lparr>iflag := True\<rparr>"

text \<open>The bytes written to a port, oldest first.\<close>

fun written :: "u16 \<Rightarrow> access list \<Rightarrow> u8 list" where
  "written p [] = []"
| "written p (Out q b # h) = (if p = q then b # written p h else written p h)"
| "written p (In q # h) = written p h"

lemma written_append [simp]: "written p (h @ h') = written p h @ written p h'"
  by (induction p h rule: written.induct) auto

lemma outb_frame [frame_simps, simp]:
  "mem (outb b p s) = mem s" "dev (outb b p s) = dev s" "iflag (outb b p s) = iflag s"
  "io (outb b p s) = io s @ [Out p b]" "machine.more (outb b p s) = machine.more s"
  by (simp_all add: outb_def)

end
