(* ===== verification/Console.thy ===== *)
theory Console
  imports Machine
begin

text \<open>
  The text screen of \<open>lib.c\<close>: the cursor variables \<open>screen_x\<close> and \<open>screen_y\<close>, the video
  memory at \<open>0xB8000\<close> (80 columns, 25 rows, a character and an attribute byte for each
  cell) and the routines that write it, down to the port writes that place the
  hardware cursor. The screen is then abstracted to a list of 2000 cells, and \<open>putc\<close>
  is proved to refine a terminal on that list.
\<close>

section \<open>Definitions\<close>

abbreviation VIDEO :: u32 where "VIDEO \<equiv> 0xB8000"
abbreviation NUM_COLS :: int where "NUM_COLS \<equiv> 80"
abbreviation NUM_ROWS :: int where "NUM_ROWS \<equiv> 25"
abbreviation ATTRIB :: u8 where "ATTRIB \<equiv> 7"
abbreviation BACKSPACE :: u8 where "BACKSPACE \<equiv> 8"

record console = machine +
  screen_x :: int
  screen_y :: int

text \<open>The address \<open>video_mem + (i << 1)\<close> and the two stores every routine makes there.\<close>

definition cell :: "int \<Rightarrow> u32" where
  "cell i = VIDEO + push_bit 1 (word_of_int i)"

definition vput :: "int \<Rightarrow> u8 \<Rightarrow> memory \<Rightarrow> memory" where
  "vput i c m = m(cell i := c, cell i + 1 := ATTRIB)"

definition place_cursor :: "u8 \<Rightarrow> u8 \<Rightarrow> 'a machine_scheme \<Rightarrow> 'a machine_scheme" where
  "place_cursor x y s =
     (let pos = uint x + uint y * NUM_COLS;
          s = outb 0x0E 0x3D4 s;
          position_high = word_of_int (drop_bit 8 pos) AND 0xFF;
          s = outb position_high 0x3D5 s;
          s = outb 0x0F 0x3D4 s;
          position_low = word_of_int pos AND 0xFF
      in outb position_low 0x3D5 s)"

definition clear :: "'a console_scheme \<Rightarrow> 'a console_scheme" where
  "clear s =
     (let s = s\<lparr>mem := fold (\<lambda>i. vput (int i) 32) [0..<nat (NUM_ROWS * NUM_COLS)] (mem s)\<rparr>;
          s = s\<lparr>screen_x := 0, screen_y := 0\<rparr>
      in place_cursor (word_of_int (screen_x s)) (word_of_int (screen_y s)) s)"

text \<open>\<open>disable_cursor\<close> and \<open>enable_cursor\<close> pass the port first and the data second, the
  other way round from what \<open>outb\<close> takes.\<close>

definition disable_cursor :: "'a machine_scheme \<Rightarrow> 'a machine_scheme" where
  "disable_cursor s = (let s = outb (ucast (0x3D4 :: u32)) 0x0A s in outb (ucast (0x3D5 :: u32)) 0x20 s)"

definition enable_cursor :: "u8 \<Rightarrow> u8 \<Rightarrow> 'a machine_scheme \<Rightarrow> 'a machine_scheme" where
  "enable_cursor cursor_start cursor_end s =
     (let s = outb (ucast (0x3D4 :: u32)) 0x0A s;
          (v, s) = inb 0x3D5 s;
          s = outb (ucast (0x3D5 :: u32)) (ucast ((v AND 0xC0) OR cursor_start)) s;
          s = outb (ucast (0x3D4 :: u32)) 0x0B s;
          (v, s) = inb 0x3D5 s
      in outb (ucast (0x3D5 :: u32)) (ucast ((v AND 0xE0) OR cursor_end)) s)"

definition clear_top_row :: "u8 \<Rightarrow> 'a machine_scheme \<Rightarrow> 'a machine_scheme" where
  "clear_top_row r s =
     (let row_start = uint r * NUM_COLS
      in s\<lparr>mem := fold (\<lambda>i. vput (int i) 0) [nat row_start..<nat (NUM_ROWS * NUM_COLS)] (mem s)\<rparr>)"

definition get_screenx :: "'a console_scheme \<Rightarrow> u8" where
  "get_screenx s = word_of_int (screen_x s)"

definition get_screeny :: "'a console_scheme \<Rightarrow> u8" where
  "get_screeny s = word_of_int (screen_y s)"

definition set_screenx :: "u8 \<Rightarrow> 'a console_scheme \<Rightarrow> 'a console_scheme" where
  "set_screenx x_pos s = s\<lparr>screen_x := uint x_pos\<rparr>"

definition set_screeny :: "u8 \<Rightarrow> 'a console_scheme \<Rightarrow> 'a console_scheme" where
  "set_screeny y_pos s = s\<lparr>screen_y := uint y_pos\<rparr>"

definition scroll_cell :: "int \<Rightarrow> memory \<Rightarrow> memory" where
  "scroll_cell i m =
     (let m = m(cell i := m (cell (i + NUM_COLS)))
      in m(cell i + 1 := m (cell (i + NUM_COLS) + 1)))"

definition scroll :: "'a console_scheme \<Rightarrow> 'a console_scheme" where
  "scroll s =
     (let s = s\<lparr>mem := fold (\<lambda>i. scroll_cell (int i)) [0..<nat ((NUM_ROWS - 1) * NUM_COLS)] (mem s)\<rparr>;
          s = s\<lparr>screen_x := 0, screen_y := NUM_ROWS - 1\<rparr>
      in clear_top_row (word_of_int (NUM_ROWS - 1)) s)"

definition putc :: "u8 \<Rightarrow> 'a console_scheme \<Rightarrow> 'a console_scheme" where
  "putc c s =
     (let s =
        (if c = 10 \<or> c = 13 then
           (let s = s\<lparr>screen_y := screen_y s + 1\<rparr>;
                s = (if screen_y s \<ge> NUM_ROWS then scroll s else s)
            in s\<lparr>screen_x := 0\<rparr>)
         else if c = BACKSPACE then
           (let s = s\<lparr>screen_x := screen_x s - 1\<rparr>;
                s = (if screen_y s < 0 \<and> screen_x s < 0 then s\<lparr>screen_y := 0, screen_x := 0\<rparr>
                     else if screen_x s < 0 then
                       (let s = clear_top_row (word_of_int (screen_y s)) s;
                            s = s\<lparr>screen_y := screen_y s - 1\<rparr>
                        in s\<lparr>screen_x := NUM_COLS - 1\<rparr>)
                     else s)
            in s\<lparr>mem := vput (NUM_COLS * screen_y s + screen_x s) 32 (mem s)\<rparr>)
         else if c = 0 then
           s\<lparr>mem := vput (NUM_COLS * screen_y s + screen_x s) c (mem s)\<rparr>
         else
           (let s = s\<lparr>mem := vput (NUM_COLS * screen_y s + screen_x s) c (mem s)\<rparr>;
                s = s\<lparr>screen_x := screen_x s + 1\<rparr>
            in if screen_x s \<ge> NUM_COLS then
                 (let s = s\<lparr>screen_x := 0, screen_y := screen_y s + 1\<rparr>;
                      s = (if screen_y s \<ge> NUM_ROWS then scroll s else s)
                  in clear_top_row (word_of_int (screen_y s)) s)
               else s))
      in place_cursor (word_of_int (screen_x s)) (word_of_int (screen_y s)) s)"

text \<open>\<open>puts\<close> reads the string from the same memory that \<open>putc\<close> writes.\<close>

partial_function (option) puts_loop ::
  "u32 \<Rightarrow> u32 \<Rightarrow> 'a console_scheme \<Rightarrow> (u32 \<times> 'a console_scheme) option" where
  "puts_loop p index s =
     (if mem s (p + index) \<noteq> 0 then puts_loop p (index + 1) (putc (mem s (p + index)) s)
      else Some (index, s))"

definition puts :: "u32 \<Rightarrow> 'a console_scheme \<Rightarrow> (u32 \<times> 'a console_scheme) option" where
  "puts p s = puts_loop p 0 s"

definition test_interrupts :: "'a machine_scheme \<Rightarrow> 'a machine_scheme" where
  "test_interrupts s =
     s\<lparr>mem := fold (\<lambda>i m. m(cell (int i) := m (cell (int i)) + 1)) [0..<nat (NUM_ROWS * NUM_COLS)] (mem s)\<rparr>"

section \<open>The screen as a list of cells\<close>

definition vcell :: "memory \<Rightarrow> nat \<Rightarrow> u8 \<times> u8" where
  "vcell m i = (m (cell (int i)), m (cell (int i) + 1))"

definition screen :: "memory \<Rightarrow> (u8 \<times> u8) list" where
  "screen m = map (vcell m) [0..<2000]"

abbreviation video :: "u32 set" where "video \<equiv> span VIDEO 4000"

lemma cell_of_nat: "cell (int i) = VIDEO + of_nat (2 * i)"
  by (simp add: cell_def push_bit_eq_mult)

lemma cell_plus_1: "cell (int i) + 1 = VIDEO + of_nat (Suc (2 * i))"
  by (simp add: cell_of_nat)

lemma cell_distinct:
  assumes "i < 2000" and "j < 2000"
  shows "cell (int i) = cell (int j) \<longleftrightarrow> i = j" and "cell (int i) + 1 = cell (int j) + 1 \<longleftrightarrow> i = j"
    and "cell (int i) \<noteq> cell (int j) + 1" and "cell (int i) + 1 \<noteq> cell (int j)"
proof -
  have e: "(VIDEO + of_nat a = VIDEO + of_nat b) \<longleftrightarrow> a = b" if "a < 4000" "b < 4000" for a b
    using that by (simp only: add_left_cancel) (rule word_of_nat_eq_iff; simp)
  show "cell (int i) = cell (int j) \<longleftrightarrow> i = j"
    unfolding cell_of_nat by (subst e) (use assms in auto)
  show "cell (int i) + 1 = cell (int j) + 1 \<longleftrightarrow> i = j"
    unfolding cell_plus_1 by (subst e) (use assms in auto)
  have "VIDEO + of_nat (2 * a) \<noteq> VIDEO + of_nat (Suc (2 * b))" if "a < 2000" "b < 2000" for a b
    using that by (subst e; presburger)
  then show "cell (int i) \<noteq> cell (int j) + 1" "cell (int i) + 1 \<noteq> cell (int j)"
    using assms unfolding cell_plus_1 by (metis cell_of_nat)+
qed

lemma cell_in_video: "i < 2000 \<Longrightarrow> cell (int i) \<in> video"
  unfolding cell_of_nat by (rule in_spanI) simp

lemma cell_plus_1_in_video: "i < 2000 \<Longrightarrow> cell (int i) + 1 \<in> video"
  unfolding cell_plus_1 by (rule in_spanI) simp

lemma length_screen [simp]: "length (screen m) = 2000"
  by (simp add: screen_def)

lemma nth_screen [simp]: "i < 2000 \<Longrightarrow> screen m ! i = vcell m i"
  by (simp add: screen_def)

lemma vcell_vput:
  "i < 2000 \<Longrightarrow> j < 2000 \<Longrightarrow> vcell (vput (int i) c m) j = (if i = j then (c, ATTRIB) else vcell m j)"
  by (auto simp: vcell_def vput_def cell_distinct)

lemma screen_vput: "i < 2000 \<Longrightarrow> screen (vput (int i) c m) = (screen m)[i := (c, ATTRIB)]"
  by (rule nth_equalityI) (auto simp: vcell_vput nth_list_update)

lemma vput_outside: "i < 2000 \<Longrightarrow> x \<notin> video \<Longrightarrow> vput (int i) c m x = m x"
  using cell_in_video cell_plus_1_in_video by (auto simp: vput_def)

lemma vcell_vput_fold:
  "b \<le> 2000 \<Longrightarrow> j < 2000 \<Longrightarrow>
     vcell (fold (\<lambda>i. vput (int i) c) [a..<b] m) j =
       (if a \<le> j \<and> j < b then (c, ATTRIB) else vcell m j)"
proof (induction b)
  case (Suc b)
  then show ?case
    by (cases "a \<le> b") (auto simp: vcell_vput)
qed simp

lemma vput_fold_outside:
  "b \<le> 2000 \<Longrightarrow> x \<notin> video \<Longrightarrow> fold (\<lambda>i. vput (int i) c) [a..<b] m x = m x"
proof (induction b)
  case (Suc b)
  then show ?case by (cases "a \<le> b") (auto simp: vput_outside)
qed simp

lemma screen_vput_fold:
  "a \<le> 2000 \<Longrightarrow> screen (fold (\<lambda>i. vput (int i) c) [a..<2000] m) =
     take a (screen m) @ replicate (2000 - a) (c, ATTRIB)"
  by (rule nth_equalityI) (auto simp: vcell_vput_fold nth_append)

lemma vcell_scroll_cell:
  assumes i: "i < 1920" and j: "j < 2000"
  shows "vcell (scroll_cell (int i) m) j = (if i = j then vcell m (i + 80) else vcell m j)"
proof -
  define k where "k = i + 80"
  have e: "int i + NUM_COLS = int k" and k: "k < 2000" "i \<noteq> k" "i < 2000"
    using i by (auto simp: k_def)
  show ?thesis
    using j k unfolding scroll_cell_def Let_def e k_def [symmetric]
    by (auto simp: vcell_def cell_distinct)
qed

lemma scroll_cell_outside: "i < 1920 \<Longrightarrow> x \<notin> video \<Longrightarrow> scroll_cell (int i) m x = m x"
  using cell_in_video [of i] cell_plus_1_in_video [of i] by (auto simp: scroll_cell_def)

lemma scroll_fold:
  "b \<le> 1920 \<Longrightarrow> j < 2000 \<Longrightarrow>
     vcell (fold (\<lambda>i. scroll_cell (int i)) [0..<b] m) j = (if j < b then vcell m (j + 80) else vcell m j)"
proof (induction b arbitrary: j)
  case (Suc b)
  then have "vcell (fold (\<lambda>i. scroll_cell (int i)) [0..<b] m) (b + 80) = vcell m (b + 80)" by simp
  with Suc show ?case by (auto simp: vcell_scroll_cell less_Suc_eq)
qed simp

lemma scroll_fold_outside:
  "b \<le> 1920 \<Longrightarrow> x \<notin> video \<Longrightarrow> fold (\<lambda>i. scroll_cell (int i)) [0..<b] m x = m x"
  by (induction b) (auto simp: scroll_cell_outside)

section \<open>The terminal that putc implements\<close>

record tty =
  cells :: "(u8 \<times> u8) list"
  cx :: nat
  cy :: nat

definition tty_of :: "'a console_scheme \<Rightarrow> tty" where
  "tty_of s = \<lparr>cells = screen (mem s), cx = nat (screen_x s), cy = nat (screen_y s)\<rparr>"

definition on_screen :: "'a console_scheme \<Rightarrow> bool" where
  "on_screen s \<longleftrightarrow> 0 \<le> screen_x s \<and> screen_x s < NUM_COLS \<and> 0 \<le> screen_y s \<and> screen_y s < NUM_ROWS"

definition tty_set :: "u8 \<Rightarrow> tty \<Rightarrow> tty" where
  "tty_set c t = t\<lparr>cells := (cells t)[80 * cy t + cx t := (c, ATTRIB)]\<rparr>"

text \<open>Blank every cell from the start of row \<open>r\<close> to the end of the screen.\<close>

definition tty_blank :: "nat \<Rightarrow> tty \<Rightarrow> tty" where
  "tty_blank r t = t\<lparr>cells := take (80 * r) (cells t) @ replicate (2000 - 80 * r) (0, ATTRIB)\<rparr>"

definition tty_newline :: "tty \<Rightarrow> tty" where
  "tty_newline t =
     (if Suc (cy t) < 25 then t\<lparr>cx := 0, cy := Suc (cy t)\<rparr>
      else t\<lparr>cells := drop 80 (cells t) @ replicate 80 (0, ATTRIB), cx := 0, cy := 24\<rparr>)"

definition tty_back :: "tty \<Rightarrow> tty" where
  "tty_back t =
     (if cx t = 0 then tty_set 32 ((tty_blank (cy t) t)\<lparr>cx := 79, cy := cy t - 1\<rparr>)
      else tty_set 32 (t\<lparr>cx := cx t - 1\<rparr>))"

definition tty_putc :: "u8 \<Rightarrow> tty \<Rightarrow> tty" where
  "tty_putc c t =
     (if c = 10 \<or> c = 13 then tty_newline t
      else if c = BACKSPACE then tty_back t
      else if c = 0 then tty_set 0 t
      else if Suc (cx t) < 80 then (tty_set c t)\<lparr>cx := Suc (cx t)\<rparr>
      else (let t = tty_newline (tty_set c t) in tty_blank (cy t) t))"

lemma place_cursor_frame [simp]:
  "mem (place_cursor x y s) = mem s" "dev (place_cursor x y s) = dev s"
  "iflag (place_cursor x y s) = iflag s" "machine.more (place_cursor x y s) = machine.more s"
  by (simp_all add: place_cursor_def Let_def)

lemma place_cursor_console [simp]:
  "screen_x (place_cursor x y s) = screen_x s" "screen_y (place_cursor x y s) = screen_y s"
  "console.more (place_cursor x y s) = console.more s"
  by (simp_all add: place_cursor_def Let_def outb_def)

lemma clear_top_row_mem:
  "r < 25 \<Longrightarrow> screen (mem (clear_top_row (of_nat r) s)) =
     take (80 * r) (screen (mem s)) @ replicate (2000 - 80 * r) (0, ATTRIB)"
  "r < 25 \<Longrightarrow> x \<notin> video \<Longrightarrow> mem (clear_top_row (of_nat r) s) x = mem s x"
proof -
  assume "r < 25"
  then have "uint (of_nat r :: u8) = int r" by (simp add: uint_nat unat_of_nat)
  then have r: "nat (uint (of_nat r :: u8) * NUM_COLS) = 80 * r" "80 * r \<le> 2000"
    using \<open>r < 25\<close> by auto
  show "screen (mem (clear_top_row (of_nat r) s)) =
     take (80 * r) (screen (mem s)) @ replicate (2000 - 80 * r) (0, ATTRIB)"
    using r(2) by (simp add: clear_top_row_def r(1) screen_vput_fold)
  show "x \<notin> video \<Longrightarrow> mem (clear_top_row (of_nat r) s) x = mem s x"
    by (simp add: clear_top_row_def r(1) vput_fold_outside)
qed

lemma clear_top_row_frame [simp]:
  "screen_x (clear_top_row r s) = screen_x s" "screen_y (clear_top_row r s) = screen_y s"
  "dev (clear_top_row r s) = dev s" "iflag (clear_top_row r s) = iflag s"
  "io (clear_top_row r s) = io s" "console.more (clear_top_row r s) = console.more s"
  by (simp_all add: clear_top_row_def)

lemma scroll_frame [simp]:
  "screen_x (scroll s) = 0" "screen_y (scroll s) = 24" "dev (scroll s) = dev s"
  "iflag (scroll s) = iflag s" "console.more (scroll s) = console.more s"
  by (simp_all add: scroll_def Let_def)

lemma scroll_mem:
  "screen (mem (scroll s)) = drop 80 (screen (mem s)) @ replicate 80 (0, ATTRIB)" (is ?A)
  "x \<notin> video \<Longrightarrow> mem (scroll s) x = mem s x"
proof -
  let ?s = "s\<lparr>mem := fold (\<lambda>i. scroll_cell (int i)) [0..<1920] (mem s), screen_x := 0, screen_y := 24\<rparr>"
  have u: "scroll s = clear_top_row (of_nat 24) ?s" by (simp add: scroll_def Let_def)
  show ?A
    unfolding u
    by (subst clear_top_row_mem(1), simp, rule nth_equalityI)
       (auto simp: nth_append scroll_fold add.commute)
  show "x \<notin> video \<Longrightarrow> mem (scroll s) x = mem s x"
    unfolding u by (subst clear_top_row_mem(2)) (auto simp: scroll_fold_outside)
qed

text \<open>The position of the cursor as an index of \<open>screen\<close>.\<close>

lemma on_screen_pos:
  assumes "on_screen s"
  obtains x y where "screen_x s = int x" "screen_y s = int y" "x < 80" "y < 25"
    "NUM_COLS * screen_y s + screen_x s = int (80 * y + x)" "80 * y + x < 2000"
proof -
  from assms obtain x y where xy: "screen_x s = int x" "screen_y s = int y" "x < 80" "y < 25"
    unfolding on_screen_def by (metis nat_0_le nat_less_iff of_nat_numeral zero_le_numeral int_nat_eq)
  then have "80 * y \<le> 80 * 24" by simp
  with xy have "80 * y + x < 2000" by linarith
  with xy that show thesis by simp
qed

lemma putc_newline:
  assumes "on_screen s" and c: "c = 10 \<or> c = 13"
  shows "on_screen (putc c s) \<and> tty_of (putc c s) = tty_newline (tty_of s)
    \<and> (x \<notin> video \<longrightarrow> mem (putc c s) x = mem s x)"
proof -
  obtain px py where p: "screen_x s = int px" "screen_y s = int py" "px < 80" "py < 25"
    by (rule on_screen_pos [OF assms(1)])
  show ?thesis
  proof (cases "py = 24")
    case True
    with p c show ?thesis
      by (auto simp: putc_def Let_def on_screen_def tty_of_def tty_newline_def scroll_mem)
  next
    case False
    with p c show ?thesis
      by (auto simp: putc_def Let_def on_screen_def tty_of_def tty_newline_def nat_add_distrib)
  qed
qed

lemma putc_backspace:
  assumes "on_screen s" and "screen_x s \<noteq> 0 \<or> screen_y s \<noteq> 0"
  shows "on_screen (putc BACKSPACE s) \<and> tty_of (putc BACKSPACE s) = tty_back (tty_of s)
    \<and> (x \<notin> video \<longrightarrow> mem (putc BACKSPACE s) x = mem s x)"
proof -
  obtain px py where p: "screen_x s = int px" "screen_y s = int py" "px < 80" "py < 25"
      "80 * py + px < 2000"
    by (rule on_screen_pos [OF assms(1)])
  show ?thesis
  proof (cases "px = 0")
    case True
    with assms(2) p obtain q where q: "py = Suc q" by (cases py) auto
    have e: "NUM_COLS * int (Suc q) - 1 = int (80 * q + 79)" and l: "80 * q + 79 < 2000"
      using p q by auto
    show ?thesis
      using True p q l
      by (auto simp: putc_def Let_def on_screen_def tty_of_def tty_back_def tty_set_def tty_blank_def
          screen_vput clear_top_row_mem vput_outside e simp del: of_nat_Suc of_nat_add of_nat_mult)
  next
    case False
    then obtain q where q: "px = Suc q" by (cases px) auto
    have e: "NUM_COLS * int py + int q = int (80 * py + q)" and l: "80 * py + q < 2000"
      using p q by auto
    show ?thesis
      using p q l
      by (auto simp: putc_def Let_def on_screen_def tty_of_def tty_back_def tty_set_def
          screen_vput vput_outside e nat_add_distrib simp del: of_nat_add of_nat_mult)
  qed
qed

lemma putc_char:
  assumes "on_screen s" and c: "c \<noteq> 10" "c \<noteq> 13" "c \<noteq> BACKSPACE"
  shows "on_screen (putc c s) \<and> tty_of (putc c s) = tty_putc c (tty_of s)
    \<and> (x \<notin> video \<longrightarrow> mem (putc c s) x = mem s x)"
proof -
  obtain px py where p: "screen_x s = int px" "screen_y s = int py" "px < 80" "py < 25"
      "80 * py + px < 2000"
    by (rule on_screen_pos [OF assms(1)])
  have e: "NUM_COLS * int py + int px = int (80 * py + px)" by simp
  consider "c = 0" | "c \<noteq> 0" "px < 79" | "c \<noteq> 0" "px = 79" "py < 24" | "c \<noteq> 0" "px = 79" "py = 24"
    using p by linarith
  then show ?thesis
  proof cases
    case 1
    with p c show ?thesis
      by (simp add: putc_def Let_def on_screen_def tty_of_def tty_putc_def tty_set_def
          e screen_vput vput_outside del: of_nat_add of_nat_mult)
  next
    case 2
    with p c show ?thesis
      by (auto simp: putc_def Let_def on_screen_def tty_of_def tty_putc_def tty_set_def
          e screen_vput vput_outside nat_add_distrib simp del: of_nat_add of_nat_mult)
  next
    case 3
    have w: "(of_nat py + 1 :: u8) = of_nat (Suc py)" by simp
    have e79: "NUM_COLS * int py + 79 = int (80 * py + 79)" by simp
    from 3 p c show ?thesis
      by (auto simp: putc_def Let_def on_screen_def tty_of_def tty_putc_def tty_set_def tty_newline_def
          tty_blank_def e screen_vput vput_outside clear_top_row_mem w e79 nat_add_distrib
          simp del: of_nat_add of_nat_mult of_nat_Suc)
  next
    case 4
    from 4 p c show ?thesis
      by (auto simp: putc_def Let_def on_screen_def tty_of_def tty_putc_def tty_set_def tty_newline_def
          tty_blank_def e screen_vput vput_outside clear_top_row_mem(1) [of 24, simplified]
          clear_top_row_mem(2) [of 24, simplified] scroll_mem
          screen_vput [of 1999, simplified] vput_outside [of 1999, simplified]
          simp del: of_nat_add of_nat_mult)
  qed
qed

lemma putc_refines:
  assumes "on_screen s" and "c = BACKSPACE \<longrightarrow> screen_x s \<noteq> 0 \<or> screen_y s \<noteq> 0"
  shows "on_screen (putc c s)" and "tty_of (putc c s) = tty_putc c (tty_of s)"
    and "x \<notin> video \<Longrightarrow> mem (putc c s) x = mem s x"
proof -
  consider "c = 10 \<or> c = 13" | "c = BACKSPACE" | "c \<noteq> 10" "c \<noteq> 13" "c \<noteq> BACKSPACE" by blast
  then have "on_screen (putc c s) \<and> tty_of (putc c s) = tty_putc c (tty_of s)
    \<and> (x \<notin> video \<longrightarrow> mem (putc c s) x = mem s x)"
  proof cases
    case 1
    then show ?thesis using putc_newline [OF assms(1), of c x] by (auto simp: tty_putc_def)
  next
    case 2
    then show ?thesis using putc_backspace [OF assms(1), of x] assms(2) by (auto simp: tty_putc_def)
  next
    case 3
    then show ?thesis using putc_char [OF assms(1), of c x] by simp
  qed
  then show "on_screen (putc c s)" and "tty_of (putc c s) = tty_putc c (tty_of s)"
    and "x \<notin> video \<Longrightarrow> mem (putc c s) x = mem s x" by simp_all
qed

lemma putc_frame [simp]:
  "console.more (putc c s) = console.more s" "dev (putc c s) = dev s" "iflag (putc c s) = iflag s"
  by (simp_all add: putc_def Let_def)

section \<open>Clearing the screen and writing strings\<close>

lemma clear_screen:
  "tty_of (clear s) = \<lparr>cells = replicate 2000 (32, ATTRIB), cx = 0, cy = 0\<rparr>"
  "x \<notin> video \<Longrightarrow> mem (clear s) x = mem s x" "on_screen (clear s)"
  by (simp_all add: clear_def Let_def tty_of_def on_screen_def screen_vput_fold vput_fold_outside)

lemma clear_frame [simp]:
  "console.more (clear s) = console.more s" "dev (clear s) = dev s" "iflag (clear s) = iflag s"
  by (simp_all add: clear_def Let_def)

text \<open>The terminal is a function of the video memory and the cursor.\<close>

lemma screen_cong: "(\<And>x. x \<in> video \<Longrightarrow> m x = m' x) \<Longrightarrow> screen m = screen m'"
  by (rule nth_equalityI) (auto simp: vcell_def cell_in_video cell_plus_1_in_video)

lemma tty_of_mem: "(\<And>x. x \<in> video \<Longrightarrow> m x = mem s x) \<Longrightarrow> tty_of (s\<lparr>mem := m\<rparr>) = tty_of s"
  using screen_cong [of m "mem s"] by (simp add: tty_of_def)

text \<open>Writing a list of characters that moves nowhere off the screen.\<close>

lemma fold_putc_refines:
  assumes "on_screen s" and "BACKSPACE \<notin> set xs"
  shows "on_screen (fold putc xs s)" and "tty_of (fold putc xs s) = fold tty_putc xs (tty_of s)"
    and "x \<notin> video \<Longrightarrow> mem (fold putc xs s) x = mem s x"
  using assms by (induction xs arbitrary: s) (auto simp: putc_refines)

lemma fold_putc_frame [simp]:
  "console.more (fold putc xs s) = console.more s" "dev (fold putc xs s) = dev s"
  "iflag (fold putc xs s) = iflag s"
  by (induction xs arbitrary: s) auto

lemma puts_loop_cstr:
  assumes "cstr (mem s) (p + i) xs" and "span (p + i) (Suc (length xs)) \<inter> video = {}"
    and "on_screen s" and "BACKSPACE \<notin> set xs"
  shows "puts_loop p i s = Some (i + of_nat (length xs), fold putc xs s)"
  using assms
proof (induction xs arbitrary: i s)
  case Nil
  then show ?case by (simp add: puts_loop.simps)
next
  case (Cons x xs)
  have d: "span (p + (i + 1)) (Suc (length xs)) \<inter> video = {}"
    using Cons.prems(2) by (auto simp: span_Cons [of "p + i"] add.assoc)
  have x: "mem s (p + i) = x" "x \<noteq> 0" "x = BACKSPACE \<longrightarrow> screen_x s \<noteq> 0 \<or> screen_y s \<noteq> 0"
    using Cons.prems(1,4) by auto
  have "cstr (mem (putc x s)) (p + (i + 1)) xs = cstr (mem s) (p + (i + 1)) xs"
    using d by (intro cstr_cong putc_refines(3) [OF Cons.prems(3) x(3)]) (auto simp: disjoint_iff)
  with Cons.prems(1) have "cstr (mem (putc x s)) (p + (i + 1)) xs" by (simp add: add.assoc)
  from Cons.IH [OF this d putc_refines(1) [OF Cons.prems(3) x(3)]] Cons.prems(4) x
  show ?case by (subst puts_loop.simps) (simp add: add.assoc)
qed

section \<open>Properties\<close>

text \<open>C35: \<open>putc\<close> implements a terminal. While the cursor is on the screen, and unless a
  backspace is sent at the top left corner, \<open>putc\<close> keeps the cursor on the screen, does to
  the 2000 cells and the cursor exactly what the terminal specification \<open>tty_putc\<close> does
  (newline, scrolling, wrapping, backspace over a line start), and changes no byte outside
  the video memory.\<close>

theorem putc_implements_tty:
  assumes "on_screen s" and "c = BACKSPACE \<longrightarrow> screen_x s \<noteq> 0 \<or> screen_y s \<noteq> 0"
  shows "on_screen (putc c s) \<and> tty_of (putc c s) = tty_putc c (tty_of s)
    \<and> (\<forall>x. x \<notin> video \<longrightarrow> mem (putc c s) x = mem s x)"
  using putc_refines [OF assms] by simp

definition demo_console :: console where
  "demo_console = \<lparr>mem = (\<lambda>_. 0), io = [], dev = (\<lambda>_ _. 0), iflag = False, screen_x = 79, screen_y = 24\<rparr>"

theorem putc_implements_tty_witness:
  "on_screen demo_console \<and> tty_of (putc 65 demo_console) = tty_putc 65 (tty_of demo_console)
    \<and> cy (tty_of (putc 65 demo_console)) = 24"
proof -
  have h: "on_screen demo_console" by (simp add: on_screen_def demo_console_def)
  have "(65 :: u8) = BACKSPACE \<longrightarrow> screen_x demo_console \<noteq> 0 \<or> screen_y demo_console \<noteq> 0" by simp
  from putc_implements_tty [OF h this] have e: "tty_of (putc 65 demo_console) = tty_putc 65 (tty_of demo_console)"
    by simp
  have "cy (tty_putc 65 (tty_of demo_console)) = 24"
    by (simp add: tty_putc_def tty_newline_def tty_set_def tty_blank_def tty_of_def demo_console_def Let_def)
  with h e show ?thesis by simp
qed

text \<open>\<open>puts\<close> writes a zero-terminated string that lies outside the video memory and holds
  no backspace: it returns, its value is the length of the string, and the screen afterwards
  is the one the terminal specification gives for the characters in order.\<close>

theorem puts_writes_string:
  assumes "cstr (mem s) p xs" and "span p (Suc (length xs)) \<inter> video = {}"
    and "on_screen s" and "BACKSPACE \<notin> set xs"
  shows "\<exists>s'. puts p s = Some (of_nat (length xs), s') \<and> on_screen s'
    \<and> tty_of s' = fold tty_putc xs (tty_of s) \<and> (\<forall>x. x \<notin> video \<longrightarrow> mem s' x = mem s x)"
proof -
  have "puts p s = Some (of_nat (length xs), fold putc xs s)"
    using puts_loop_cstr [of s p 0 xs] assms by (simp add: puts_def)
  then show ?thesis using fold_putc_refines [OF assms(3,4)] by simp
qed

definition demo_string :: console where
  "demo_string = demo_console\<lparr>mem := (\<lambda>_. 0)(0x1000 := 72, 0x1001 := 105), screen_x := 0, screen_y := 0\<rparr>"

theorem puts_writes_string_witness:
  "\<exists>s'. puts 0x1000 demo_string = Some (2, s') \<and> cx (tty_of s') = 2"
proof -
  have d: "span 0x1000 (Suc (length [72, 105 :: u8])) \<inter> video = {}"
    by (rule span_disjoint_below) simp_all
  have c: "cstr (mem demo_string) 0x1000 [72, 105]" by (simp add: demo_string_def)
  have o: "on_screen demo_string" by (simp add: on_screen_def demo_string_def)
  from puts_writes_string [OF c d o] obtain s' where
    "puts 0x1000 demo_string = Some (2, s')" "tty_of s' = fold tty_putc [72, 105] (tty_of demo_string)"
    by auto
  moreover have "cx (fold tty_putc [72, 105] (tty_of demo_string)) = 2"
    by (simp add: tty_putc_def tty_set_def tty_of_def demo_string_def)
  ultimately show ?thesis by auto
qed

text \<open>a backspace sent when the cursor is at the top left corner leaves the screen: the test
  for the corner looks at \<open>screen_y\<close> before the row was decremented, so \<open>putc\<close> blanks the whole
  screen, moves the cursor to row \<open>-1\<close> and writes a blank in front of the video memory.\<close>

theorem putc_backspace_underflow:
  assumes "screen_x s = 0" and "screen_y s = 0"
  shows "screen_y (putc BACKSPACE s) = - 1 \<and> mem (putc BACKSPACE s) (VIDEO - 2) = 32
    \<and> cells (tty_of (putc BACKSPACE s)) = replicate 2000 (0, ATTRIB) \<and> VIDEO - 2 \<notin> video"
proof -
  have c: "cell (- 1) = VIDEO - 2" by (simp add: cell_def push_bit_eq_mult)
  have out: "VIDEO - 2 \<notin> video" "VIDEO - 1 \<notin> video"
    by (simp_all add: in_span_unat unsigned_minus_1_eq_mask mask_eq_exp_minus_1)
  let ?s = "clear_top_row 0 (s\<lparr>screen_x := - 1\<rparr>)"
  have p: "mem (putc BACKSPACE s) = vput (- 1) 32 (mem ?s)" "screen_y (putc BACKSPACE s) = - 1"
    using assms by (simp_all add: putc_def Let_def)
  have "vcell (vput (- 1) 32 m) i = vcell m i" if "i < 2000" for i m
    using that out cell_in_video [OF that] cell_plus_1_in_video [OF that]
    by (auto simp: vcell_def vput_def c)
  then have "screen (vput (- 1) 32 m) = screen m" for m by (simp add: screen_def)
  then show ?thesis
    using p out clear_top_row_mem(1) [of 0 "s\<lparr>screen_x := - 1\<rparr>"]
    by (simp add: tty_of_def vput_def c)
qed

theorem putc_backspace_underflow_witness:
  "screen_y (putc BACKSPACE demo_string) = - 1"
  using putc_backspace_underflow [of demo_string] by (simp add: demo_string_def)

end
