(* ===== verification/I8259.thy ===== *)
theory I8259
  imports Console
begin

text \<open>
  The driver of the two interrupt controllers, \<open>i8259.c\<close>: the shadow copies of the mask
  registers (\<open>master_mask\<close>, \<open>slave_mask\<close>) and the bytes sent to the controllers. The
  interface a device initialiser relies on, that enabling a line unmasks it and masks
  nothing, is the locale \<open>irq_lines\<close>, interpreted on the driver.
\<close>

section \<open>Definitions\<close>

abbreviation MASTER_8259_PORT :: u16 where "MASTER_8259_PORT \<equiv> 0x20"
abbreviation SLAVE_8259_PORT :: u16 where "SLAVE_8259_PORT \<equiv> 0xA0"
abbreviation ICW1 :: u8 where "ICW1 \<equiv> 0x11"
abbreviation ICW2_MASTER :: u8 where "ICW2_MASTER \<equiv> 0x20"
abbreviation ICW2_SLAVE :: u8 where "ICW2_SLAVE \<equiv> 0x28"
abbreviation ICW3_MASTER :: u8 where "ICW3_MASTER \<equiv> 0x04"
abbreviation ICW3_SLAVE :: u8 where "ICW3_SLAVE \<equiv> 0x02"
abbreviation ICW4 :: u8 where "ICW4 \<equiv> 0x01"
abbreviation EOI :: u32 where "EOI \<equiv> 0x60"
abbreviation CASCADE :: u32 where "CASCADE \<equiv> 2"
abbreviation MASK_ALL :: u8 where "MASK_ALL \<equiv> 0xFF"
abbreviation SLAVE_START :: u32 where "SLAVE_START \<equiv> 8"

record pic = console +
  master_mask :: u8
  slave_mask :: u8

text \<open>C computes the masks in 32 bits and truncates them to the \<open>uint8_t\<close> they are stored in.\<close>

definition enable_irq :: "u32 \<Rightarrow> 'a pic_scheme \<Rightarrow> 'a pic_scheme" where
  "enable_irq irq_num s =
     (if irq_num > 15 then s
      else if irq_num AND SLAVE_START \<noteq> 0 then
        (let s = s\<lparr>master_mask := ucast (ucast (master_mask s) AND NOT (push_bit 2 (1 :: u32)))\<rparr>;
             s = outb (master_mask s) (MASTER_8259_PORT + 1) s;
             k = unat (irq_num - 8);
             s = outb (ucast (ucast (slave_mask s) AND push_bit k (NOT (1 :: u32)))) (SLAVE_8259_PORT + 1) s
         in s\<lparr>slave_mask := ucast (ucast (slave_mask s) AND NOT (push_bit k (1 :: u32)))\<rparr>)
      else
        (let s = s\<lparr>master_mask := ucast (ucast (master_mask s) AND NOT (push_bit (unat irq_num) (1 :: u32)))\<rparr>
         in outb (master_mask s) (MASTER_8259_PORT + 1) s))"

definition disable_irq :: "u32 \<Rightarrow> 'a pic_scheme \<Rightarrow> 'a pic_scheme" where
  "disable_irq irq_num s =
     (if irq_num > 15 then s
      else if irq_num AND SLAVE_START \<noteq> 0 then
        (let (v, s) = inb (SLAVE_8259_PORT + 1) s
         in outb (ucast (ucast v OR push_bit (unat (irq_num - 8)) (1 :: u32))) (SLAVE_8259_PORT + 1) s)
      else
        (let (v, s) = inb (MASTER_8259_PORT + 1) s
         in outb (ucast (ucast v OR push_bit (unat irq_num) (1 :: u32))) (MASTER_8259_PORT + 1) s))"

definition send_eoi :: "u32 \<Rightarrow> 'a pic_scheme \<Rightarrow> 'a pic_scheme" where
  "send_eoi irq_num s =
     (if irq_num AND SLAVE_START \<noteq> 0 then
        (let s = outb (ucast (EOI OR (irq_num - 8))) SLAVE_8259_PORT s
         in outb (ucast (EOI OR CASCADE)) MASTER_8259_PORT s)
      else outb (ucast (EOI OR irq_num)) MASTER_8259_PORT s)"

definition i8259_init :: "'a pic_scheme \<Rightarrow> 'a pic_scheme" where
  "i8259_init s =
     (let s = s\<lparr>master_mask := MASK_ALL\<rparr>;
          s = s\<lparr>slave_mask := MASK_ALL\<rparr>;
          s = outb ICW1 MASTER_8259_PORT s;
          s = outb ICW2_MASTER (MASTER_8259_PORT + 1) s;
          s = outb ICW3_MASTER (MASTER_8259_PORT + 1) s;
          s = outb ICW4 (MASTER_8259_PORT + 1) s;
          s = outb ICW1 SLAVE_8259_PORT s;
          s = outb ICW2_SLAVE (SLAVE_8259_PORT + 1) s;
          s = outb ICW3_SLAVE (SLAVE_8259_PORT + 1) s;
          s = outb ICW4 (SLAVE_8259_PORT + 1) s;
          s = outb MASK_ALL (MASTER_8259_PORT + 1) s;
          s = outb MASK_ALL (SLAVE_8259_PORT + 1) s
      in enable_irq 2 s)"

section \<open>The mask registers\<close>

text \<open>Whether the driver's shadow masks hold line \<open>i\<close> masked, and whether the last bytes sent to
  the controllers do. The mask register of a controller is what was last written to its data
  port, once the four initialisation words are past.\<close>

definition irq_masked :: "'a pic_scheme \<Rightarrow> nat \<Rightarrow> bool" where
  "irq_masked s i = (if i < 8 then bit (master_mask s) i else bit (slave_mask s) (i - 8))"

definition sent_mask :: "u16 \<Rightarrow> 'a machine_scheme \<Rightarrow> u8" where
  "sent_mask port s = last (written (port + 1) (io s))"

definition irq_masked_at_pic :: "'a pic_scheme \<Rightarrow> nat \<Rightarrow> bool" where
  "irq_masked_at_pic s i =
     (if i < 8 then bit (sent_mask MASTER_8259_PORT s) i else bit (sent_mask SLAVE_8259_PORT s) (i - 8))"

text \<open>The lines a call of \<open>enable_irq\<close> opens: a slave line needs the cascade line too.\<close>

definition opens :: "nat \<Rightarrow> nat set" where
  "opens i = (if i < 8 then {i} else if i < 16 then {2, i} else {})"

lemma slave_bit: "(of_nat i :: u32) AND 8 \<noteq> 0 \<longleftrightarrow> 8 \<le> i" if "i < 16"
proof -
  have "i \<in> set [0..<16]" using that by simp
  then show ?thesis by (auto simp: upt_rec)
qed

lemma unat_sub_8: "8 \<le> i \<Longrightarrow> i < 16 \<Longrightarrow> unat (of_nat i - 8 :: u32) = i - 8"
proof -
  assume "8 \<le> i" "i < 16"
  then have "(of_nat i - 8 :: u32) = of_nat (i - 8)" by (simp add: of_nat_diff)
  with \<open>i < 16\<close> show ?thesis by (simp add: unat_of_nat del: of_nat_diff)
qed

lemma bit_mask_and_not:
  "bit (ucast ((ucast (w :: u8) :: u32) AND NOT (push_bit k 1)) :: u8) j \<longleftrightarrow> bit w j \<and> j \<noteq> k"
  by (auto simp: bit_simps dest: bit_imp_le_length)

lemma bit_mask_and_shift:
  "bit (ucast ((ucast (w :: u8) :: u32) AND push_bit k (- 2)) :: u8) j \<longleftrightarrow> bit w j \<and> k < j"
proof -
  have "bit (ucast ((ucast w :: u32) AND push_bit k (NOT 1)) :: u8) j \<longleftrightarrow> bit w j \<and> k < j"
    unfolding bit_simps by (auto dest: bit_imp_le_length)
  then show ?thesis by simp
qed

lemma bit_mask_or:
  "k < 8 \<Longrightarrow> bit (ucast ((ucast (w :: u8) :: u32) OR push_bit k 1) :: u8) j \<longleftrightarrow> bit w j \<or> j = k"
  by (auto simp: bit_simps dest: bit_imp_le_length)

lemma of_nat_le_15: "i < 16 \<Longrightarrow> \<not> (of_nat i :: u32) > 15"
  by (simp add: word_less_nat_alt unat_of_nat)

lemma enable_irq_master:
  "i < 8 \<Longrightarrow> enable_irq (of_nat i) s = outb (ucast (ucast (master_mask s) AND NOT (push_bit i (1 :: u32)))) 0x21
     (s\<lparr>master_mask := ucast (ucast (master_mask s) AND NOT (push_bit i (1 :: u32)))\<rparr>)"
  using slave_bit [of i] of_nat_le_15 [of i] by (simp add: enable_irq_def Let_def unat_of_nat)

lemma enable_irq_slave:
  assumes "8 \<le> i" "i < 16"
  shows "enable_irq (of_nat i) s =
     (outb (ucast (ucast (slave_mask s) AND push_bit (i - 8) (NOT (1 :: u32)))) 0xA1
       (outb (ucast (ucast (master_mask s) AND NOT (push_bit 2 (1 :: u32)))) 0x21
         (s\<lparr>master_mask := ucast (ucast (master_mask s) AND NOT (push_bit 2 (1 :: u32)))\<rparr>)))
     \<lparr>slave_mask := ucast (ucast (slave_mask s) AND NOT (push_bit (i - 8) (1 :: u32)))\<rparr>"
  using assms slave_bit [of i] of_nat_le_15 [of i] unat_sub_8 [of i]
  by (simp add: enable_irq_def Let_def outb_def)

lemma pic_outb_frame [frame_simps, simp]:
  "master_mask (outb b p s) = master_mask s" "slave_mask (outb b p s) = slave_mask s"
  by (simp_all add: outb_def)

lemma enable_irq_masked:
  assumes "i < 16" "j < 16"
  shows "irq_masked (enable_irq (of_nat i) s) j \<longleftrightarrow> irq_masked s j \<and> j \<notin> opens i"
proof (cases "i < 8")
  case True
  show ?thesis
    unfolding enable_irq_master [OF True] irq_masked_def opens_def using True
    by (simp add: bit_mask_and_not del: push_bit_of_1)
next
  case False
  then have "8 \<le> i" by simp
  show ?thesis
    unfolding enable_irq_slave [OF \<open>8 \<le> i\<close> \<open>i < 16\<close>] irq_masked_def opens_def using False assms
    by (auto simp: bit_mask_and_not simp del: push_bit_of_1)
qed

section \<open>The interface of a device initialiser\<close>

text \<open>What the initialisers rely on: enabling a line opens a fixed set of lines and leaves
  every other line as it was.\<close>

locale irq_lines =
  fixes enable :: "nat \<Rightarrow> 's \<Rightarrow> 's"
    and masked :: "'s \<Rightarrow> nat \<Rightarrow> bool"
    and line_set :: "nat \<Rightarrow> nat set"
  assumes enable_law: "i < 16 \<Longrightarrow> j < 16 \<Longrightarrow> masked (enable i s) j \<longleftrightarrow> masked s j \<and> j \<notin> line_set i"
begin

lemma fold_enable:
  "set is \<subseteq> {..<16} \<Longrightarrow> j < 16 \<Longrightarrow>
     masked (fold enable is s) j \<longleftrightarrow> masked s j \<and> j \<notin> (\<Union>i \<in> set is. line_set i)"
  by (induction "is" arbitrary: s) (auto simp: enable_law)

lemma enable_order:
  assumes "set is = set is'" and "set is \<subseteq> {..<16}" and "j < 16"
  shows "masked (fold enable is s) j \<longleftrightarrow> masked (fold enable is' s) j"
  using assms by (simp add: fold_enable)

end

interpretation pic8259: irq_lines "\<lambda>i. enable_irq (of_nat i)" irq_masked opens
  by unfold_locales (rule enable_irq_masked)

section \<open>Properties\<close>

text \<open>C36: Unmasking interrupt lines through \<open>enable_irq\<close>, in any order and with any repetition,
  leaves masked in the driver's record exactly the lines that were masked before and that no
  call opened; a slave line opens the cascade line 2 with it.\<close>

theorem enable_irqs_open_exactly:
  assumes "set is \<subseteq> {..<16}" and "j < 16"
  shows "irq_masked (fold (\<lambda>i. enable_irq (of_nat i)) is s) j \<longleftrightarrow>
     irq_masked s j \<and> j \<notin> (\<Union>i \<in> set is. opens i)"
  using assms by (rule pic8259.fold_enable)

definition demo_pic :: pic where
  "demo_pic = \<lparr>mem = (\<lambda>_. 0), io = [], dev = (\<lambda>h p. if written p h = [] then 0 else last (written p h)),
     iflag = False, screen_x = 0, screen_y = 0, master_mask = 0xFF, slave_mask = 0xFF\<rparr>"

theorem enable_irqs_open_exactly_witness:
  "irq_masked (fold (\<lambda>i. enable_irq (of_nat i)) [1, 8] demo_pic) 12 \<and>
   \<not> irq_masked (fold (\<lambda>i. enable_irq (of_nat i)) [1, 8] demo_pic) 2"
  using enable_irqs_open_exactly [of "[1, 8]" 12 demo_pic] enable_irqs_open_exactly [of "[1, 8]" 2 demo_pic]
  by (simp add: irq_masked_def demo_pic_def opens_def bit_numeral_rec)

lemma sent_mask_outb:
  "sent_mask p (outb b q s) = (if q = p + 1 then b else sent_mask p s)"
  by (simp add: sent_mask_def)

lemma sent_mask_upd [simp]:
  "sent_mask p (s\<lparr>master_mask := x\<rparr>) = sent_mask p s" "sent_mask p (s\<lparr>slave_mask := x\<rparr>) = sent_mask p s"
  by (simp_all add: sent_mask_def)

text \<open>A call of \<open>enable_irq\<close> for a line of the master controller sends the driver's new
  mask, so the master controller and the driver's record agree on every master line, and the
  slave controller is not written.\<close>

theorem enable_irq_master_in_step:
  assumes "i < 8"
  shows "sent_mask MASTER_8259_PORT (enable_irq (of_nat i) s) = master_mask (enable_irq (of_nat i) s) \<and>
     sent_mask SLAVE_8259_PORT (enable_irq (of_nat i) s) = sent_mask SLAVE_8259_PORT s"
  unfolding enable_irq_master [OF assms] by (simp_all add: sent_mask_outb)

theorem enable_irq_master_in_step_witness:
  "sent_mask MASTER_8259_PORT (enable_irq (of_nat 1) demo_pic) = master_mask (enable_irq (of_nat 1) demo_pic)"
  using enable_irq_master_in_step [of 1 demo_pic] by simp

text \<open>For a line \<open>i\<close> of the slave controller \<open>enable_irq\<close> sends \<open>slave_mask & (~1 << (i - 8))\<close>,
  which unmasks at the device not only \<open>i\<close> but every slave line below it, while the driver's
  record opens \<open>i\<close> alone; the two agree for all masks only on line 8.\<close>

theorem enable_irq_slave_opens_lower_lines:
  assumes "8 \<le> i" and "i < 16" and "8 \<le> j" and "j < 16"
  shows "irq_masked_at_pic (enable_irq (of_nat i) s) j \<longleftrightarrow> irq_masked s j \<and> i < j"
proof -
  have "i - 8 < j - 8 \<longleftrightarrow> i < j" using assms by linarith
  with assms show ?thesis
    unfolding enable_irq_slave [OF assms(1,2)] irq_masked_at_pic_def irq_masked_def
    by (simp add: sent_mask_outb bit_mask_and_shift)
qed

theorem enable_irq_slave_opens_lower_lines_witness:
  "\<not> irq_masked_at_pic (enable_irq (of_nat 12) demo_pic) 9 \<and> irq_masked (enable_irq (of_nat 12) demo_pic) 9"
  using enable_irq_slave_opens_lower_lines [of 12 9 demo_pic] enable_irq_masked [of 12 9 demo_pic]
  by (simp add: irq_masked_def opens_def demo_pic_def bit_numeral_rec)

text \<open>The mask register of a controller reads back at its data port.\<close>

definition pic_reads_back :: "'a machine_scheme \<Rightarrow> bool" where
  "pic_reads_back s = (\<forall>h. \<forall>p \<in> {0x21, 0xA1}. written p h \<noteq> [] \<longrightarrow> dev s h p = last (written p h))"

lemma disable_irq_master:
  "i < 8 \<Longrightarrow> disable_irq (of_nat i) s =
     outb (ucast (ucast (dev s (io s) 0x21) OR push_bit i (1 :: u32))) 0x21 (s\<lparr>io := io s @ [In 0x21]\<rparr>)"
  using slave_bit [of i] of_nat_le_15 [of i] by (simp add: disable_irq_def inb_def unat_of_nat)

lemma disable_irq_slave:
  "8 \<le> i \<Longrightarrow> i < 16 \<Longrightarrow> disable_irq (of_nat i) s =
     outb (ucast (ucast (dev s (io s) 0xA1) OR push_bit (i - 8) (1 :: u32))) 0xA1 (s\<lparr>io := io s @ [In 0xA1]\<rparr>)"
  using slave_bit [of i] of_nat_le_15 [of i] unat_sub_8 [of i] by (simp add: disable_irq_def inb_def)

lemma disable_irq_frame [frame_simps]:
  "master_mask (disable_irq i s) = master_mask s" "slave_mask (disable_irq i s) = slave_mask s"
  by (simp_all add: disable_irq_def inb_def)

text \<open>With controllers whose mask reads back at the data port, \<open>disable_irq\<close> masks at the
  device exactly the line it is given: that line becomes masked and every other one keeps its
  state.\<close>

theorem disable_irq_masks_exactly:
  assumes "pic_reads_back s" and "written 0x21 (io s) \<noteq> []" and "written 0xA1 (io s) \<noteq> []"
    and "i < 16" and "j < 16"
  shows "irq_masked_at_pic (disable_irq (of_nat i) s) j \<longleftrightarrow> irq_masked_at_pic s j \<or> j = i"
proof -
  have rd: "dev s (io s) 0x21 = sent_mask MASTER_8259_PORT s" "dev s (io s) 0xA1 = sent_mask SLAVE_8259_PORT s"
    using assms(1-3) by (simp_all add: pic_reads_back_def sent_mask_def)
  have io: "sent_mask p (s\<lparr>io := io s @ [In q]\<rparr>) = sent_mask p s" for p q
    by (simp add: sent_mask_def)
  show ?thesis
  proof (cases "i < 8")
    case True
    then show ?thesis
      unfolding disable_irq_master [OF True] irq_masked_at_pic_def
      by (auto simp: sent_mask_outb io bit_mask_or rd simp del: push_bit_of_1)
  next
    case False
    then have i: "8 \<le> i" by simp
    then have k: "i - 8 < 8" "\<not> j < 8 \<Longrightarrow> j - 8 = i - 8 \<longleftrightarrow> j = i" using assms(4) by linarith+
    show ?thesis
      unfolding disable_irq_slave [OF i assms(4)] irq_masked_at_pic_def
      using k i by (auto simp: sent_mask_outb io bit_mask_or rd simp del: push_bit_of_1)
  qed
qed

lemma demo_pic_reads_back: "pic_reads_back (outb b p (outb c q demo_pic))"
  by (simp add: pic_reads_back_def demo_pic_def outb_def)

theorem disable_irq_masks_exactly_witness:
  "irq_masked_at_pic (disable_irq (of_nat 1) (outb 0 0xA1 (outb 0 0x21 demo_pic))) 1 \<and>
   \<not> irq_masked_at_pic (disable_irq (of_nat 1) (outb 0 0xA1 (outb 0 0x21 demo_pic))) 12"
  using disable_irq_masks_exactly [of "outb 0 0xA1 (outb 0 0x21 demo_pic)" 1 1]
    disable_irq_masks_exactly [of "outb 0 0xA1 (outb 0 0x21 demo_pic)" 1 12] demo_pic_reads_back
  by (simp add: irq_masked_at_pic_def sent_mask_outb)

text \<open>\<open>disable_irq\<close> does not update the driver's record, so the next \<open>enable_irq\<close> of another
  master line sends the old mask and unmasks the disabled line again.\<close>

theorem disable_irq_undone_by_enable:
  assumes "i < 8" and "j < 8" and "\<not> irq_masked s i"
  shows "\<not> irq_masked_at_pic (enable_irq (of_nat j) (disable_irq (of_nat i) s)) i"
proof -
  let ?d = "disable_irq (of_nat i) s"
  have "irq_masked_at_pic (enable_irq (of_nat j) ?d) i \<longleftrightarrow> irq_masked (enable_irq (of_nat j) ?d) i"
    unfolding enable_irq_master [OF assms(2)] irq_masked_at_pic_def irq_masked_def
    using assms(1) by (simp add: sent_mask_outb)
  also have "\<dots> \<longrightarrow> irq_masked ?d i" using enable_irq_masked [of j i ?d] assms by simp
  also have "irq_masked ?d i \<longleftrightarrow> irq_masked s i" by (simp add: irq_masked_def frame_simps)
  finally show ?thesis using assms(3) by blast
qed

theorem disable_irq_undone_by_enable_witness:
  "\<not> irq_masked_at_pic (enable_irq (of_nat 0) (disable_irq (of_nat 1) (demo_pic\<lparr>master_mask := 0\<rparr>))) 1"
  using disable_irq_undone_by_enable [of 1 0 "demo_pic\<lparr>master_mask := 0\<rparr>"] by (simp add: irq_masked_def)

text \<open>\<open>send_eoi\<close> acknowledges line \<open>i\<close> with a specific end-of-interrupt: one byte \<open>0x60 + i\<close> to the
  master for a master line; for a slave line first \<open>0x60 + (i - 8)\<close> to the slave and then the
  cascade line to the master. It changes nothing else.\<close>

theorem send_eoi_acknowledges:
  assumes "i < 16"
  shows "send_eoi (of_nat i) s =
    (if i < 8 then outb (of_nat (0x60 + i)) MASTER_8259_PORT s
     else outb 0x62 MASTER_8259_PORT (outb (of_nat (0x60 + (i - 8))) SLAVE_8259_PORT s))"
proof -
  have "i \<in> set [0..<16]" using assms by simp
  then show ?thesis by (auto simp: send_eoi_def upt_rec)
qed

theorem send_eoi_acknowledges_witness:
  "send_eoi (of_nat 8) demo_pic = outb 0x62 MASTER_8259_PORT (outb 0x60 SLAVE_8259_PORT demo_pic)"
  using send_eoi_acknowledges [of 8 demo_pic] by simp

text \<open>After \<open>i8259_init\<close> every line but the cascade line 2 is masked, in the driver's record
  and at the controllers, each controller has received its four initialisation words in
  order (vectors 0x20 and 0x28), and nothing outside the two controllers is touched.\<close>

theorem i8259_init_masks_all:
  "\<exists>tr. i8259_init s = s\<lparr>io := io s @ tr, master_mask := 0xFB, slave_mask := 0xFF\<rparr> \<and>
     written 0x20 tr = [ICW1] \<and> written 0x21 tr = [ICW2_MASTER, ICW3_MASTER, ICW4, 0xFF, 0xFB] \<and>
     written 0xA0 tr = [ICW1] \<and> written 0xA1 tr = [ICW2_SLAVE, ICW3_SLAVE, ICW4, 0xFF] \<and>
     (\<forall>p. p \<notin> {0x20, 0x21, 0xA0, 0xA1} \<longrightarrow> written p tr = [])"
  by (rule exI [of _ "[Out 0x20 ICW1, Out 0x21 ICW2_MASTER, Out 0x21 ICW3_MASTER, Out 0x21 ICW4,
        Out 0xA0 ICW1, Out 0xA1 ICW2_SLAVE, Out 0xA1 ICW3_SLAVE, Out 0xA1 ICW4,
        Out 0x21 0xFF, Out 0xA1 0xFF, Out 0x21 0xFB]"])
    (simp add: i8259_init_def Let_def enable_irq_def outb_def)

theorem i8259_init_masks_all_witness:
  "master_mask (i8259_init demo_pic) = 0xFB"
  using i8259_init_masks_all [of demo_pic] by auto

end
