(* ===== verification/Rtc.thy ===== *)
theory Rtc
  imports I8259
begin

text \<open>
  The real-time clock driver, \<open>rtc.c\<close>: its initialisation, its interrupt handler and the
  four file operations. The handlers that run while \<open>read_rtc\<close> spins are an explicit
  sequence; \<open>None\<close> means that the sequence ends with the code still spinning. The chip is
  seen through the port accesses: \<open>cmos_writes\<close> reads from them which register each byte
  went to.
\<close>

section \<open>Definitions\<close>

abbreviation REG_A :: u8 where "REG_A \<equiv> 0x8A"
abbreviation REG_B :: u8 where "REG_B \<equiv> 0x8B"
abbreviation COMMAND_PORT :: u16 where "COMMAND_PORT \<equiv> 0x70"
abbreviation RTC_PORT :: u16 where "RTC_PORT \<equiv> 0x71"

record rtc = pic +
  interrupt_rtc :: int
  freq_value :: int

text \<open>The third and the fifth \<open>outb\<close> of \<open>init_rtc\<close> pass the port number as the data and the
  register number as the port, as the source does.\<close>

definition init_rtc :: "'a rtc_scheme \<Rightarrow> 'a rtc_scheme" where
  "init_rtc s =
     (let s = outb REG_B COMMAND_PORT s;
          (prev, s) = inb RTC_PORT s;
          s = outb REG_B COMMAND_PORT s;
          s = outb (prev OR 0x40) RTC_PORT s;
          rate = 0xF;
          s = outb (ucast RTC_PORT) (ucast REG_A) s;
          (prev, s) = inb RTC_PORT s;
          s = outb (ucast COMMAND_PORT) (ucast REG_A) s;
          prev = prev AND 0xF0;
          s = outb (prev OR rate) RTC_PORT s
      in enable_irq 8 s)"

definition rtc_handler :: "'a rtc_scheme \<Rightarrow> 'a rtc_scheme" where
  "rtc_handler s =
     (let s = outb 0x0C COMMAND_PORT s;
          (_, s) = inb RTC_PORT s;
          s = s\<lparr>interrupt_rtc := 1\<rparr>
      in send_eoi 8 s)"

definition set_freq_rtc :: "int \<Rightarrow> int" where
  "set_freq_rtc curr_freq =
     (if curr_freq < 2 \<or> curr_freq > 1024 then - 1
      else if curr_freq = 1024 then 0x06
      else if curr_freq = 512 then 0x07
      else if curr_freq = 256 then 0x08
      else if curr_freq = 128 then 0x09
      else if curr_freq = 64 then 0x0A
      else if curr_freq = 32 then 0x0B
      else if curr_freq = 16 then 0x0C
      else if curr_freq = 8 then 0x0D
      else if curr_freq = 4 then 0x0E
      else if curr_freq = 2 then 0x0F
      else - 1)"

text \<open>The byte \<open>(0xF0 & prev_) | val_freq\<close>, computed in 32 bits and truncated by \<open>outb\<close>.\<close>

definition reg_a_byte :: "u8 \<Rightarrow> int \<Rightarrow> u8" where
  "reg_a_byte prev val_freq = ucast (((0xF0 :: u32) AND ucast prev) OR word_of_int val_freq)"

definition open_rtc :: "u32 \<Rightarrow> 'a rtc_scheme \<Rightarrow> int \<times> 'a rtc_scheme" where
  "open_rtc filename s =
     (let s = outb REG_A COMMAND_PORT s;
          (prev, s) = inb RTC_PORT s;
          val_freq = set_freq_rtc 2;
          s = outb REG_A COMMAND_PORT s;
          s = outb (reg_a_byte prev val_freq) RTC_PORT s
      in (0, s))"

text \<open>The loop of \<open>read_rtc\<close>: each test of the flag is followed by the next handler that
  interrupts it.\<close>

fun read_rtc_loop :: "('a rtc_scheme \<Rightarrow> 'a rtc_scheme option) list \<Rightarrow> 'a rtc_scheme \<Rightarrow> (int \<times> 'a rtc_scheme) option" where
  "read_rtc_loop hs s =
     (if interrupt_rtc s = 1 then Some (0, cli s)
      else case hs of [] \<Rightarrow> None | h # hs \<Rightarrow> do { s \<leftarrow> h s; read_rtc_loop hs s })"

declare read_rtc_loop.simps [simp del]

definition read_rtc :: "('a rtc_scheme \<Rightarrow> 'a rtc_scheme option) list \<Rightarrow> int \<Rightarrow> u32 \<Rightarrow> int \<Rightarrow> 'a rtc_scheme
    \<Rightarrow> (int \<times> 'a rtc_scheme) option" where
  "read_rtc hs fd buffer num s = read_rtc_loop hs (sti (s\<lparr>interrupt_rtc := 0\<rparr>))"

definition write_rtc :: "int \<Rightarrow> u32 \<Rightarrow> int \<Rightarrow> 'a rtc_scheme \<Rightarrow> int \<times> 'a rtc_scheme" where
  "write_rtc fd buffer num s =
     (let s = outb REG_A COMMAND_PORT s;
          (prev, s) = inb RTC_PORT s;
          val_freq = set_freq_rtc (sint (ld32 (mem s) buffer));
          s = s\<lparr>freq_value := val_freq\<rparr>;
          s = outb REG_A COMMAND_PORT s;
          s = outb (reg_a_byte prev val_freq) RTC_PORT s
      in (0, s))"

definition close_rtc :: "int \<Rightarrow> 'a rtc_scheme \<Rightarrow> int \<times> 'a rtc_scheme" where
  "close_rtc fd s = (0, s)"

definition get_freq :: "'a rtc_scheme \<Rightarrow> int" where
  "get_freq s = sint (word_of_int (freq_value s) :: u8)"

section \<open>The chip behind the ports\<close>

text \<open>Which register each byte sent to the data port goes to: the register last selected at
  the command port, whose top bit only masks the NMI.\<close>

fun cmos_writes :: "u8 \<Rightarrow> access list \<Rightarrow> (u8 \<times> u8) list" where
  "cmos_writes i [] = []"
| "cmos_writes i (Out p b # h) =
     (if p = COMMAND_PORT then cmos_writes (b AND 0x7F) h
      else if p = RTC_PORT then (i, b) # cmos_writes i h
      else cmos_writes i h)"
| "cmos_writes i (In p # h) = cmos_writes i h"

fun cmos_index :: "u8 \<Rightarrow> access list \<Rightarrow> u8" where
  "cmos_index i [] = i"
| "cmos_index i (Out p b # h) = cmos_index (if p = COMMAND_PORT then b AND 0x7F else i) h"
| "cmos_index i (In p # h) = cmos_index i h"

lemma cmos_writes_append:
  "cmos_writes i (h @ h') = cmos_writes i h @ cmos_writes (cmos_index i h) h'"
  by (induction i h rule: cmos_writes.induct) auto

text \<open>The periodic rate the chip derives from the low four bits of register A.\<close>

definition rtc_hz :: "u8 \<Rightarrow> int" where
  "rtc_hz a = 32768 div 2 ^ (unat (a AND 0x0F) - 1)"

lemma set_freq_rtc_power: "k \<in> {1..10} \<Longrightarrow> set_freq_rtc (2 ^ k) = 16 - int k"
proof -
  assume "k \<in> {1..10}"
  then have "k \<in> set [1..<11]" by auto
  then show ?thesis by (auto simp: set_freq_rtc_def upt_rec)
qed

lemma set_freq_rtc_valid: "set_freq_rtc f \<noteq> - 1 \<Longrightarrow> \<exists>k \<in> {1..10}. f = 2 ^ k"
proof -
  assume "set_freq_rtc f \<noteq> - 1"
  then have "f \<in> set (map (\<lambda>k. 2 ^ k) [1..<11])"
    by (auto simp: set_freq_rtc_def upt_rec split: if_splits)
  then show ?thesis by (auto simp: Suc_le_eq less_Suc_eq_le)
qed

lemma reg_a_byte_rate:
  "0 \<le> r \<Longrightarrow> r < 16 \<Longrightarrow> reg_a_byte p r = (p AND 0xF0) OR word_of_int r"
  by (rule bit_word_eqI)
    (auto simp: reg_a_byte_def bit_simps dest: bit_imp_le_length)

lemma reg_a_byte_minus_1: "reg_a_byte p (- 1) = 0xFF"
proof -
  have "(ucast (- 1 :: u32) :: u8) = - 1" by (rule bit_word_eqI) (simp add: bit_simps)
  then show ?thesis by (simp add: reg_a_byte_def)
qed

lemma rtc_hz_rate:
  assumes "k \<in> {1..10}"
  shows "rtc_hz ((p AND 0xF0) OR word_of_int (16 - int k)) = 2 ^ k"
proof -
  have m: "((p AND 0xF0) OR r) AND 0x0F = r AND 0x0F" for r :: u8
    by (rule bit_word_eqI) (auto simp: bit_simps bit_numeral_rec split: nat.splits)
  have "k \<in> set [1..<11]" using assms by auto
  then show ?thesis unfolding rtc_hz_def m by (auto simp: upt_rec)
qed

lemma reg_a_byte_high:
  assumes "0 \<le> r" and "r < 16"
  shows "reg_a_byte p r AND 0xF0 = p AND 0xF0"
proof -
  have "nat r \<in> set [0..<16]" using assms by auto
  then have "(word_of_int r :: u8) AND 0xF0 = 0" using assms(1) by (auto simp: upt_rec nat_eq_iff)
  then have "((p AND 0xF0) OR word_of_int r) AND 0xF0 = p AND 0xF0"
    by (simp add: word_bw_lcs bit.conj_disj_distrib2 and.assoc)
  then show ?thesis by (simp add: reg_a_byte_rate assms)
qed

section \<open>Properties\<close>


definition demo_rtc :: rtc where
  "demo_rtc = \<lparr>mem = (\<lambda>a. if a = 1 then 4 else 0), io = [], dev = (\<lambda>h p. 0x26), iflag = True,
     screen_x = 0, screen_y = 0, master_mask = 0xFB, slave_mask = 0xFF, interrupt_rtc = 0, freq_value = 0\<rparr>"


lemma write_rtc_eq:
  "write_rtc fd b n s =
     (let v = set_freq_rtc (sint (ld32 (mem s) b));
          p = dev s (io s @ [Out COMMAND_PORT REG_A]) RTC_PORT
      in (0, s\<lparr>freq_value := v,
          io := io s @ [Out COMMAND_PORT REG_A, In RTC_PORT, Out COMMAND_PORT REG_A, Out RTC_PORT (reg_a_byte p v)]\<rparr>))"
  by (simp add: write_rtc_def outb_def inb_def Let_def)

text \<open>Writing one of the ten frequencies to the clock sends the chip exactly one byte, to
  register A; the byte keeps the high four bits the chip returned and makes the chip run at
  the frequency in the buffer. The call returns 0 and records the rate.\<close>

theorem write_rtc_sets_frequency:
  assumes "sint (ld32 (mem s) b) = 2 ^ k" and "k \<in> {1..10}"
  shows "\<exists>tr v p. write_rtc fd b n s = (0, s\<lparr>freq_value := 16 - int k, io := io s @ tr\<rparr>) \<and>
     p = dev s (io s @ [Out COMMAND_PORT REG_A]) RTC_PORT \<and>
     cmos_writes i tr = [(0x0A, v)] \<and> v AND 0xF0 = p AND 0xF0 \<and> rtc_hz v = 2 ^ k"
proof -
  let ?p = "dev s (io s @ [Out COMMAND_PORT REG_A]) RTC_PORT"
  have v: "set_freq_rtc (sint (ld32 (mem s) b)) = 16 - int k" using assms by (simp add: set_freq_rtc_power)
  have "rtc_hz (reg_a_byte ?p (16 - int k)) = 2 ^ k"
    using assms(2) rtc_hz_rate [of k ?p] by (simp add: reg_a_byte_rate)
  moreover have "reg_a_byte ?p (16 - int k) AND 0xF0 = ?p AND 0xF0"
    using assms(2) by (intro reg_a_byte_high) auto
  ultimately show ?thesis
    apply -
    apply (rule exI [of _ "[Out COMMAND_PORT REG_A, In RTC_PORT, Out COMMAND_PORT REG_A,
          Out RTC_PORT (reg_a_byte ?p (16 - int k))]"])
    apply (rule exI [of _ "reg_a_byte ?p (16 - int k)"])
    apply (rule exI [of _ ?p])
    apply (simp add: write_rtc_eq v Let_def)
    done
qed

theorem write_rtc_sets_frequency_witness:
  "fst (write_rtc 3 0 4 demo_rtc) = 0 \<and> freq_value (snd (write_rtc 3 0 4 demo_rtc)) = 6"
proof -
  have "sint (ld32 (mem demo_rtc) 0) = 2 ^ 10" by (simp add: demo_rtc_def ld32_def)
  from write_rtc_sets_frequency [OF this, of 3 4 0] show ?thesis by auto
qed

text \<open>Writing any other number still returns 0, and sends 0xFF to register A: the divider
  bits the chip had are overwritten and the rate becomes 2 Hz.\<close>

theorem write_rtc_invalid_frequency:
  assumes "sint (ld32 (mem s) b) \<notin> (\<lambda>k. 2 ^ k) ` {1..10}"
  shows "\<exists>tr. write_rtc fd b n s = (0, s\<lparr>freq_value := - 1, io := io s @ tr\<rparr>) \<and>
     cmos_writes i tr = [(0x0A, 0xFF)]"
proof -
  have "set_freq_rtc (sint (ld32 (mem s) b)) = - 1" using assms set_freq_rtc_valid by blast
  then show ?thesis
    by (intro exI [of _ "[Out COMMAND_PORT REG_A, In RTC_PORT, Out COMMAND_PORT REG_A, Out RTC_PORT 0xFF]"])
      (simp add: write_rtc_eq Let_def reg_a_byte_minus_1)
qed

theorem write_rtc_invalid_frequency_witness:
  "fst (write_rtc 3 4 4 demo_rtc) = 0 \<and> freq_value (snd (write_rtc 3 4 4 demo_rtc)) = - 1"
proof -
  have "sint (ld32 (mem demo_rtc) 4) \<notin> (\<lambda>k. 2 ^ k) ` {1..10}" by (auto simp: demo_rtc_def ld32_def)
  from write_rtc_invalid_frequency [OF this, of 3 4 0] show ?thesis by auto
qed

text \<open>A sequence of handlers run one after the other, each to its end.\<close>

fun run_handlers :: "('s \<Rightarrow> 's option) list \<Rightarrow> 's \<Rightarrow> 's option" where
  "run_handlers [] s = Some s"
| "run_handlers (h # hs) s = do { s \<leftarrow> h s; run_handlers hs s }"

text \<open>The handlers \<open>hs\<close> return and none of them raises the flag.\<close>

definition no_tick :: "('a rtc_scheme \<Rightarrow> 'a rtc_scheme option) list \<Rightarrow> 'a rtc_scheme \<Rightarrow> bool" where
  "no_tick hs s \<longleftrightarrow> (\<forall>k \<le> length hs. case run_handlers (take k hs) s of None \<Rightarrow> False | Some s \<Rightarrow> interrupt_rtc s \<noteq> 1)"

lemma no_tick_Cons:
  assumes "no_tick (h # hs) s"
  shows "interrupt_rtc s \<noteq> 1" and "\<exists>s1. h s = Some s1 \<and> no_tick hs s1"
proof -
  from assms have all: "\<forall>k \<le> Suc (length hs). case run_handlers (take k (h # hs)) s of None \<Rightarrow> False | Some s \<Rightarrow> interrupt_rtc s \<noteq> 1"
    by (simp add: no_tick_def)
  from all [rule_format, of 0] show "interrupt_rtc s \<noteq> 1" by simp
  from all [rule_format, of 1] obtain s1 where s1: "h s = Some s1" by (cases "h s") auto
  have "case run_handlers (take k hs) s1 of None \<Rightarrow> False | Some s \<Rightarrow> interrupt_rtc s \<noteq> 1" if "k \<le> length hs" for k
    using all [rule_format, of "Suc k"] that s1 by simp
  then show "\<exists>s1. h s = Some s1 \<and> no_tick hs s1" using s1 by (auto simp: no_tick_def)
qed

lemma read_rtc_loop_no_tick:
  "no_tick hs s \<Longrightarrow> \<exists>s'. run_handlers hs s = Some s' \<and> interrupt_rtc s' \<noteq> 1 \<and>
     read_rtc_loop (hs @ gs) s = read_rtc_loop gs s'"
proof (induction hs arbitrary: s)
  case Nil
  then show ?case by (simp add: no_tick_def)
next
  case (Cons h hs)
  from no_tick_Cons [OF Cons.prems] obtain s1 where s1: "h s = Some s1" "no_tick hs s1" "interrupt_rtc s \<noteq> 1" by blast
  from Cons.IH [OF s1(2)] show ?case
    using s1 by (auto simp: read_rtc_loop.simps [of "h # (hs @ gs)"])
qed

lemma rtc_handler_flag [simp]: "interrupt_rtc (rtc_handler s) = 1"
  by (simp add: rtc_handler_def send_eoi_def outb_def inb_def)

text \<open>A read of the clock returns 0 with interrupts off at the first clock interrupt: it
  spins through every interrupt that leaves the flag unset (a tick that came before the call
  does not count, because the flag is cleared first) and stops at the first run of
  \<open>rtc_handler\<close>. With no such interrupt it does not return.\<close>

theorem read_rtc_waits_for_tick:
  fixes s :: "'a rtc_scheme"
  assumes "no_tick hs (sti (s\<lparr>interrupt_rtc := 0\<rparr>))"
  shows "\<exists>s'. run_handlers hs (sti (s\<lparr>interrupt_rtc := 0\<rparr>)) = Some s' \<and>
     read_rtc (hs @ (\<lambda>s. Some (rtc_handler s)) # gs) fd b n s = Some (0, cli (rtc_handler s')) \<and>
     read_rtc hs fd b n s = None"
proof -
  obtain s' where s': "run_handlers hs (sti (s\<lparr>interrupt_rtc := 0\<rparr>)) = Some s'" "interrupt_rtc s' \<noteq> 1"
    "\<And>gs. read_rtc_loop (hs @ gs) (sti (s\<lparr>interrupt_rtc := 0\<rparr>)) = read_rtc_loop gs s'"
    using read_rtc_loop_no_tick [OF assms] by (metis option.inject)
  have "read_rtc_loop ((\<lambda>s. Some (rtc_handler s)) # gs) s' = Some (0, cli (rtc_handler s'))"
    using s'(2) by (subst read_rtc_loop.simps) (simp add: read_rtc_loop.simps [of gs])
  moreover have "read_rtc_loop [] s' = None" using s'(2) by (subst read_rtc_loop.simps) simp
  ultimately show ?thesis using s'(1) s'(3) [of "(\<lambda>s. Some (rtc_handler s)) # gs"] s'(3) [of "[]"]
    by (simp add: read_rtc_def)
qed

theorem read_rtc_waits_for_tick_witness:
  "read_rtc ([\<lambda>s. Some (send_eoi 1 s)] @ (\<lambda>s. Some (rtc_handler s)) # []) 0 0 0 demo_rtc \<noteq> None"
proof -
  have "no_tick [\<lambda>s. Some (send_eoi 1 s)] (sti (demo_rtc\<lparr>interrupt_rtc := 0\<rparr>))"
    by (simp add: no_tick_def le_Suc_eq sti_def send_eoi_def outb_def)
  from read_rtc_waits_for_tick [OF this, of "[]" 0 0 0] show ?thesis by auto
qed

text \<open>\<open>init_rtc\<close> turns on bit 6 of register B (periodic interrupts) and opens line 8, but the
  rate never reaches register A: the two \<open>outb\<close> calls that should select it have their
  arguments swapped, so they write to port 0x8A and the rate byte goes to register B.\<close>

theorem init_rtc_rate_lost:
  "\<exists>tr b1 b2. init_rtc s = enable_irq 8 (s\<lparr>io := io s @ tr\<rparr>) \<and>
     cmos_writes i tr = [(0x0B, b1 OR 0x40), (0x0B, (b2 AND 0xF0) OR 0x0F)] \<and>
     written 0x8A tr = [0x71, 0x70]"
proof -
  define h1 where "h1 = io s @ [Out COMMAND_PORT REG_B]"
  define b1 where "b1 = dev s h1 RTC_PORT"
  define h2 where "h2 = h1 @ [In RTC_PORT, Out COMMAND_PORT REG_B, Out RTC_PORT (b1 OR 0x40), Out 0x8A 0x71]"
  define b2 where "b2 = dev s h2 RTC_PORT"
  define tr where "tr = [Out COMMAND_PORT REG_B, In RTC_PORT, Out COMMAND_PORT REG_B, Out RTC_PORT (b1 OR 0x40),
     Out 0x8A 0x71, In RTC_PORT, Out 0x8A 0x70, Out RTC_PORT ((b2 AND 0xF0) OR 0x0F)]"
  have "init_rtc s = enable_irq 8 (s\<lparr>io := io s @ tr\<rparr>)"
    by (simp add: init_rtc_def outb_def inb_def Let_def tr_def b1_def b2_def h1_def h2_def)
  moreover have "cmos_writes i tr = [(0x0B, b1 OR 0x40), (0x0B, (b2 AND 0xF0) OR 0x0F)]"
    "written 0x8A tr = [0x71, 0x70]"
    by (simp_all add: tr_def)
  ultimately show ?thesis by blast
qed

end
