(* ===== verification/Paging.thy ===== *)
theory Paging
  imports Rtc
begin

text \<open>
  Virtual memory: the page directory and page tables of \<open>x86_desc.h\<close>, \<open>init_paging\<close> of
  \<open>paging.c\<close>, and the three routines of \<open>syscall.c\<close> that edit the directory, \<open>create_paging\<close>,
  \<open>page_switch\<close> and \<open>vidmap\<close>. An entry is the 32-bit word the processor reads; a bit field is
  a position and a width in it. The processor's page walk is the specification the
  routines are proved against.

  The byte memory \<open>mem\<close> is memory as the running code sees it. All of it but the 4 MB user
  page at 128 MB is mapped one to one; the user page shows the frame \<open>user_frame\<close>, and the
  frames that are not shown are kept in \<open>frames\<close>. Reloading the directory base (the
  \<open>mov cr3\<close> pair that flushes the TLB) makes an edited entry take effect. The addresses of the
  tables are chosen by the linker and are fields of the state.
\<close>

section \<open>Definitions\<close>

record paging = rtc +
  page_directory :: "nat \<Rightarrow> u32"
  page_table :: "nat \<Rightarrow> u32"
  vidmap_pt :: "nat \<Rightarrow> u32"
  page_directory_addr :: u32
  page_table_addr :: u32
  vidmap_pt_addr :: u32
  cr0 :: u32
  cr3 :: u32
  cr4 :: u32
  user_frame :: u32
  frames :: "u32 \<Rightarrow> u32 \<Rightarrow> u8"

abbreviation PD_NUM_ENTRIES :: nat where "PD_NUM_ENTRIES \<equiv> 1024"
abbreviation PT_NUM_ENTRIES :: nat where "PT_NUM_ENTRIES \<equiv> 1024"
abbreviation SIZE_4KB :: u32 where "SIZE_4KB \<equiv> 4096"
abbreviation SIZE_4MB :: u32 where "SIZE_4MB \<equiv> 0x400000"
abbreviation SIZE_8MB :: u32 where "SIZE_8MB \<equiv> 0x800000"
abbreviation SIZE_128MB :: u32 where "SIZE_128MB \<equiv> 0x8000000"
abbreviation SIZE_132MB :: u32 where "SIZE_132MB \<equiv> 0x8400000"
abbreviation USER_ADD :: u32 where "USER_ADD \<equiv> 0x08048000"
abbreviation VIDEO_MEMORY :: u32 where "VIDEO_MEMORY \<equiv> 0xB8000"

subsection \<open>Bit fields\<close>

definition bf_set :: "nat \<Rightarrow> nat \<Rightarrow> u32 \<Rightarrow> u32 \<Rightarrow> u32" where
  "bf_set pos width v e = (e AND NOT (push_bit pos (mask width))) OR push_bit pos (take_bit width v)"

definition bf_get :: "nat \<Rightarrow> nat \<Rightarrow> u32 \<Rightarrow> u32" where
  "bf_get pos width e = take_bit width (drop_bit pos e)"

text \<open>The fields of the three entry layouts. They share the positions of the low bits; bit 6 is
  \<open>reserved\<close> in a directory entry for a table and \<open>dirty\<close> elsewhere, bit 7 is \<open>attribute_index\<close>
  in a table entry and \<open>page_size\<close> elsewhere.\<close>

abbreviation set_present :: "u32 \<Rightarrow> u32 \<Rightarrow> u32" where "set_present \<equiv> bf_set 0 1"
abbreviation set_read_write :: "u32 \<Rightarrow> u32 \<Rightarrow> u32" where "set_read_write \<equiv> bf_set 1 1"
abbreviation set_user_supervisor :: "u32 \<Rightarrow> u32 \<Rightarrow> u32" where "set_user_supervisor \<equiv> bf_set 2 1"
abbreviation set_write_through :: "u32 \<Rightarrow> u32 \<Rightarrow> u32" where "set_write_through \<equiv> bf_set 3 1"
abbreviation set_cache_disabled :: "u32 \<Rightarrow> u32 \<Rightarrow> u32" where "set_cache_disabled \<equiv> bf_set 4 1"
abbreviation set_accessed :: "u32 \<Rightarrow> u32 \<Rightarrow> u32" where "set_accessed \<equiv> bf_set 5 1"
abbreviation set_dirty :: "u32 \<Rightarrow> u32 \<Rightarrow> u32" where "set_dirty \<equiv> bf_set 6 1"
abbreviation set_reserved6 :: "u32 \<Rightarrow> u32 \<Rightarrow> u32" where "set_reserved6 \<equiv> bf_set 6 1"
abbreviation set_page_size :: "u32 \<Rightarrow> u32 \<Rightarrow> u32" where "set_page_size \<equiv> bf_set 7 1"
abbreviation set_attribute_index7 :: "u32 \<Rightarrow> u32 \<Rightarrow> u32" where "set_attribute_index7 \<equiv> bf_set 7 1"
abbreviation set_global_page :: "u32 \<Rightarrow> u32 \<Rightarrow> u32" where "set_global_page \<equiv> bf_set 8 1"
abbreviation set_avail :: "u32 \<Rightarrow> u32 \<Rightarrow> u32" where "set_avail \<equiv> bf_set 9 3"
abbreviation set_attribute_index12 :: "u32 \<Rightarrow> u32 \<Rightarrow> u32" where "set_attribute_index12 \<equiv> bf_set 12 1"
abbreviation set_reserved13 :: "u32 \<Rightarrow> u32 \<Rightarrow> u32" where "set_reserved13 \<equiv> bf_set 13 9"
abbreviation set_bit_20_addr :: "u32 \<Rightarrow> u32 \<Rightarrow> u32" where "set_bit_20_addr \<equiv> bf_set 12 20"
abbreviation set_bit_10_addr :: "u32 \<Rightarrow> u32 \<Rightarrow> u32" where "set_bit_10_addr \<equiv> bf_set 22 10"

subsection \<open>The processor\<close>

text \<open>Reloading \<open>cr3\<close>: the frame that entry 32 of the directory names becomes visible in the
  user page; what the old frame held is kept.\<close>

definition reload_cr3 :: "'a paging_scheme \<Rightarrow> 'a paging_scheme" where
  "reload_cr3 s =
     (let e = page_directory s 32;
          fr = (frames s)(user_frame s := (\<lambda>off. mem s (SIZE_128MB + off)))
      in if bf_get 0 1 e = 1 \<and> bf_get 7 1 e = 1 then
           s\<lparr>frames := fr, user_frame := bf_get 22 10 e,
             mem := (\<lambda>a. if drop_bit 22 a = 32 then fr (bf_get 22 10 e) (take_bit 22 a) else mem s a)\<rparr>
         else s)"

subsection \<open>The routines\<close>

definition init_pte :: "nat \<Rightarrow> u32 \<Rightarrow> u32" where
  "init_pte i e =
     (let e = (if int i \<ge> 0xB8000 div 4096 \<or> int i \<le> 0xB8000 div 4096 + 3 then
                 set_bit_20_addr (drop_bit 12 VIDEO_MEMORY + word_of_int (int i - 0xB8000 div 4096))
                   (set_global_page 1 (set_present 1 e))
               else set_bit_20_addr (of_nat i * drop_bit 12 SIZE_4KB)
                   (set_global_page 0 (set_present 0 e)));
          e = set_read_write 1 e;
          e = set_user_supervisor 0 e;
          e = set_write_through 0 e;
          e = set_cache_disabled 0 e;
          e = set_accessed 0 e;
          e = set_dirty 0 e;
          e = set_attribute_index7 0 e
      in set_avail 0 e)"

definition init_pde0 :: "u32 \<Rightarrow> u32 \<Rightarrow> u32" where
  "init_pde0 pt_addr e =
     (let e = set_present 1 e;
          e = set_read_write 1 e;
          e = set_user_supervisor 0 e;
          e = set_write_through 0 e;
          e = set_cache_disabled 1 e;
          e = set_accessed 0 e;
          e = set_reserved6 0 e;
          e = set_page_size 0 e;
          e = set_global_page 1 e;
          e = set_avail 0 e
      in set_bit_20_addr (drop_bit 12 pt_addr) e)"

text \<open>The thirteen assignments to a \<open>page_directory_4mb\<close>, in the order every site makes them,
  with the values that differ between the sites.\<close>

definition set_pde_4mb :: "u32 \<Rightarrow> u32 \<Rightarrow> u32 \<Rightarrow> u32 \<Rightarrow> u32 \<Rightarrow> u32 \<Rightarrow> u32 \<Rightarrow> u32" where
  "set_pde_4mb pres user wt cd ps addr e =
     (let e = set_present pres e;
          e = set_read_write 1 e;
          e = set_user_supervisor user e;
          e = set_write_through wt e;
          e = set_cache_disabled cd e;
          e = set_accessed 0 e;
          e = set_dirty 0 e;
          e = set_page_size ps e;
          e = set_global_page 0 e;
          e = set_avail 0 e;
          e = set_attribute_index12 0 e;
          e = set_reserved13 0 e
      in set_bit_10_addr addr e)"

definition init_paging :: "'a paging_scheme \<Rightarrow> 'a paging_scheme" where
  "init_paging s =
     (let s = fold (\<lambda>i s. s\<lparr>page_table := (page_table s)(i := init_pte i (page_table s i))\<rparr>) [0..<PT_NUM_ENTRIES] s;
          s = s\<lparr>page_directory := (page_directory s)(0 := init_pde0 (page_table_addr s) (page_directory s 0))\<rparr>;
          s = s\<lparr>page_directory := (page_directory s)(1 := set_pde_4mb 1 0 0 0 1 (drop_bit 22 SIZE_4MB) (page_directory s 1))\<rparr>;
          s = fold (\<lambda>i s. s\<lparr>page_directory := (page_directory s)(i :=
                set_pde_4mb 0 0 0 0 0 (of_nat i * drop_bit 22 SIZE_4MB) (page_directory s i))\<rparr>) [2..<PD_NUM_ENTRIES] s;
          s = reload_cr3 (s\<lparr>cr3 := page_directory_addr s\<rparr>);
          s = s\<lparr>cr4 := cr4 s OR 0x10\<rparr>
      in s\<lparr>cr0 := cr0 s OR 0x80000000\<rparr>)"

definition create_paging :: "int \<Rightarrow> 'a paging_scheme \<Rightarrow> 'a paging_scheme" where
  "create_paging process_num s =
     (let program_addr = drop_bit 22 (SIZE_8MB + word_of_int process_num * SIZE_4MB);
          user_idx = unat (drop_bit 22 SIZE_128MB)
      in reload_cr3 (s\<lparr>page_directory := (page_directory s)(user_idx :=
           set_pde_4mb 1 1 1 1 1 program_addr (page_directory s user_idx))\<rparr>))"

definition page_switch :: "int \<Rightarrow> 'a paging_scheme \<Rightarrow> 'a paging_scheme" where
  "page_switch pross_id s =
     (if pross_id < 0 \<or> pross_id \<ge> 8 then s
      else
        (let addr = SIZE_8MB + word_of_int pross_id * SIZE_4MB;
             user_idx = unat (drop_bit 22 USER_ADD)
         in reload_cr3 (s\<lparr>page_directory := (page_directory s)(user_idx :=
              set_pde_4mb 1 1 0 0 1 (drop_bit 22 addr) (page_directory s user_idx))\<rparr>)))"

definition vidmap_pde :: "u32 \<Rightarrow> u32 \<Rightarrow> u32" where
  "vidmap_pde pt_addr e =
     (let e = set_present 1 e;
          e = set_read_write 1 e;
          e = set_user_supervisor 1 e;
          e = set_write_through 0 e;
          e = set_cache_disabled 0 e;
          e = set_accessed 0 e;
          e = set_reserved6 0 e;
          e = set_page_size 0 e;
          e = set_global_page 0 e;
          e = set_avail 0 e
      in set_bit_20_addr (drop_bit 12 pt_addr) e)"

definition vidmap_pte :: "u32 \<Rightarrow> u32" where
  "vidmap_pte e =
     (let e = set_present 1 e;
          e = set_global_page 0 e;
          e = set_read_write 1 e;
          e = set_user_supervisor 1 e;
          e = set_write_through 0 e;
          e = set_cache_disabled 0 e;
          e = set_accessed 0 e;
          e = set_dirty 0 e;
          e = set_attribute_index7 0 e;
          e = set_avail 0 e
      in set_bit_20_addr (drop_bit 12 VIDEO_MEMORY) e)"

definition vidmap :: "u32 \<Rightarrow> 'a paging_scheme \<Rightarrow> int \<times> 'a paging_scheme" where
  "vidmap screen_start s =
     (if screen_start = 0 then (- 1, s)
      else if sint screen_start < sint SIZE_128MB \<or> sint screen_start \<ge> sint (SIZE_128MB + SIZE_4MB) then (- 1, s)
      else
        (let user_idx = unat (drop_bit 22 SIZE_132MB);
             s = s\<lparr>page_directory := (page_directory s)(user_idx :=
                   vidmap_pde (vidmap_pt_addr s) (page_directory s user_idx))\<rparr>;
             s = s\<lparr>page_table := (page_table s)(user_idx := vidmap_pte (page_table s user_idx))\<rparr>;
             s = s\<lparr>vidmap_pt := (vidmap_pt s)(unat (drop_bit 12 SIZE_132MB AND 0x03FF) := page_table s user_idx)\<rparr>
         in (0, s\<lparr>mem := st32 (mem s) screen_start SIZE_132MB\<rparr>)))"

section \<open>The page walk\<close>

definition table_at :: "'a paging_scheme \<Rightarrow> u32 \<Rightarrow> (nat \<Rightarrow> u32) option" where
  "table_at s a = (if a = page_table_addr s then Some (page_table s)
     else if a = vidmap_pt_addr s then Some (vidmap_pt s) else None)"

text \<open>The translation of an address by the processor, for an access from user mode or from
  the kernel: \<open>None\<close> is a page fault.\<close>

definition walk :: "bool \<Rightarrow> 'a paging_scheme \<Rightarrow> u32 \<Rightarrow> u32 option" where
  "walk user s a =
     (let e = page_directory s (unat (drop_bit 22 a))
      in if \<not> bit e 0 \<or> user \<and> \<not> bit e 2 then None
         else if bit e 7 then Some (push_bit 22 (bf_get 22 10 e) OR take_bit 22 a)
         else do {
           pt \<leftarrow> table_at s (push_bit 12 (bf_get 12 20 e));
           let p = pt (unat (take_bit 10 (drop_bit 12 a)));
           if \<not> bit p 0 \<or> user \<and> \<not> bit p 2 then None
           else Some (push_bit 12 (bf_get 12 20 p) OR take_bit 12 a)
         })"

lemma bf_get_set_same [simp]: "pos + width \<le> 32 \<Longrightarrow> bf_get pos width (bf_set pos width v e) = take_bit width v"
  by (rule bit_word_eqI) (auto simp: bf_get_def bf_set_def bit_simps)

lemma bf_get_set_other [simp]:
  "p' + w' \<le> p \<or> p + w \<le> p' \<Longrightarrow> bf_get p w (bf_set p' w' v e) = bf_get p w e"
  by (rule bit_word_eqI) (auto simp: bf_get_def bf_set_def bit_simps dest: bit_imp_le_length)

lemma bit_bf_set:
  "bit (bf_set p w v e) n \<longleftrightarrow> n < 32 \<and> (if p \<le> n \<and> n < p + w then bit v (n - p) else bit e n)"
  by (auto simp: bf_set_def bit_simps dest: bit_imp_le_length)

subsection \<open>The entries the routines write\<close>

lemma set_pde_4mb_fields [simp]:
  "bit (set_pde_4mb pres user wt cd ps addr e) 0 \<longleftrightarrow> bit pres 0"
  "bit (set_pde_4mb pres user wt cd ps addr e) 2 \<longleftrightarrow> bit user 0"
  "bit (set_pde_4mb pres user wt cd ps addr e) 7 \<longleftrightarrow> bit ps 0"
  "bf_get 0 (Suc 0) (set_pde_4mb pres user wt cd ps addr e) = take_bit (Suc 0) pres"
  "bf_get 7 (Suc 0) (set_pde_4mb pres user wt cd ps addr e) = take_bit (Suc 0) ps"
  "bf_get 22 10 (set_pde_4mb pres user wt cd ps addr e) = take_bit 10 addr"
  by (simp_all add: set_pde_4mb_def bit_bf_set Let_def)

lemma init_pde0_fields [simp]:
  "bit (init_pde0 a e) 0" "\<not> bit (init_pde0 a e) 2" "\<not> bit (init_pde0 a e) 7"
  "bf_get 12 20 (init_pde0 a e) = drop_bit 12 a"
proof -
  have "take_bit 20 (drop_bit 12 a) = drop_bit 12 a"
    by (rule bit_word_eqI) (auto simp: bit_simps dest: bit_imp_le_length)
  then show "bf_get 12 20 (init_pde0 a e) = drop_bit 12 a" by (simp add: init_pde0_def Let_def)
qed (simp_all add: init_pde0_def bit_bf_set Let_def)

lemma vidmap_entry_fields [simp]:
  "bit (vidmap_pde a e) 0" "bit (vidmap_pde a e) 2" "\<not> bit (vidmap_pde a e) 7"
  "bf_get 12 20 (vidmap_pde a e) = drop_bit 12 a"
  "bit (vidmap_pte e) 0" "bit (vidmap_pte e) 2" "bf_get 12 20 (vidmap_pte e) = 0xB8"
proof -
  have "take_bit 20 (drop_bit 12 a) = drop_bit 12 a"
    by (rule bit_word_eqI) (auto simp: bit_simps dest: bit_imp_le_length)
  then show "bf_get 12 20 (vidmap_pde a e) = drop_bit 12 a" by (simp add: vidmap_pde_def Let_def)
qed (simp_all add: vidmap_pde_def vidmap_pte_def bit_bf_set Let_def)

text \<open>The first test of the loop of \<open>init_paging\<close> is true of every index.\<close>

lemma init_pte_fields:
  assumes "i < 1024"
  shows "bit (init_pte i e) 0" "\<not> bit (init_pte i e) 2" "bf_get 12 20 (init_pte i e) = of_nat i"
proof -
  have c: "int i \<ge> 0xB8000 div 4096 \<or> int i \<le> 0xB8000 div 4096 + 3" by auto
  have "drop_bit 12 VIDEO_MEMORY + word_of_int (int i - 0xB8000 div 4096) = (of_nat i :: u32)" by simp
  moreover have "take_bit 20 (of_nat i :: u32) = of_nat i"
  proof -
    have "take_bit 20 (of_nat i :: u32) = of_nat (take_bit 20 i)"
      by (simp add: take_bit_of_nat)
    then show ?thesis using assms by (simp add: take_bit_nat_eq_self)
  qed
  ultimately show "bf_get 12 20 (init_pte i e) = of_nat i"
    unfolding init_pte_def if_P [OF c] by (simp add: Let_def)
  show "bit (init_pte i e) 0" "\<not> bit (init_pte i e) 2"
    unfolding init_pte_def if_P [OF c] by (simp_all add: Let_def bit_bf_set)
qed

lemma upd_range:
  "a \<le> b \<Longrightarrow> (\<lambda>i. if a \<le> i \<and> i < b then G i else F i)(b := G b) =
     (\<lambda>i. if a \<le> i \<and> i < Suc b then G i else F (i :: nat))"
  by (auto simp: fun_eq_iff less_Suc_eq)

lemma upd_empty_range: "(\<lambda>i. if a \<le> i \<and> i < a then G i else F (i :: nat)) = F"
  by (rule ext) auto

lemma fold_page_table:
  assumes "a \<le> b"
  shows "fold (\<lambda>i s. s\<lparr>page_table := (page_table s)(i := g i (page_table s i))\<rparr>) [a..<b] s =
     s\<lparr>page_table := (\<lambda>i. if a \<le> i \<and> i < b then g i (page_table s i) else page_table s i)\<rparr>"
  using assms
proof (induction rule: dec_induct)
  case (step n)
  then show ?case using upd_range [OF step(1), of "\<lambda>i. g i (page_table s i)"] by simp
qed (simp add: upd_empty_range)

lemma fold_page_directory:
  assumes "a \<le> b"
  shows "fold (\<lambda>i s. s\<lparr>page_directory := (page_directory s)(i := g i (page_directory s i))\<rparr>) [a..<b] s =
     s\<lparr>page_directory := (\<lambda>i. if a \<le> i \<and> i < b then g i (page_directory s i) else page_directory s i)\<rparr>"
  using assms
proof (induction rule: dec_induct)
  case (step n)
  then show ?case using upd_range [OF step(1), of "\<lambda>i. g i (page_directory s i)"] by simp
qed (simp add: upd_empty_range)

lemma reload_cr3_frame [simp, frame_simps]:
  "page_directory (reload_cr3 s) = page_directory s" "page_table (reload_cr3 s) = page_table s"
  "vidmap_pt (reload_cr3 s) = vidmap_pt s" "page_table_addr (reload_cr3 s) = page_table_addr s"
  "vidmap_pt_addr (reload_cr3 s) = vidmap_pt_addr s" "cr0 (reload_cr3 s) = cr0 s"
  "cr4 (reload_cr3 s) = cr4 s" "cr3 (reload_cr3 s) = cr3 s"
  "page_directory_addr (reload_cr3 s) = page_directory_addr s" "io (reload_cr3 s) = io s"
  by (simp_all add: reload_cr3_def Let_def)

lemma table_at_frame [simp, frame_simps]:
  "table_at (reload_cr3 s) = table_at s" "table_at (s\<lparr>page_directory := x\<rparr>) = table_at s"
  by (simp_all add: table_at_def fun_eq_iff)

lemma init_paging_tables:
  "page_table (init_paging s) = (\<lambda>i. if i < 1024 then init_pte i (page_table s i) else page_table s i)"
  "page_directory (init_paging s) = (\<lambda>i. if 2 \<le> i \<and> i < 1024 then set_pde_4mb 0 0 0 0 0 (of_nat i) (page_directory s i)
     else if i = 1 then set_pde_4mb 1 0 0 0 1 1 (page_directory s 1)
     else if i = 0 then init_pde0 (page_table_addr s) (page_directory s 0) else page_directory s i)"
  "page_table_addr (init_paging s) = page_table_addr s" "vidmap_pt_addr (init_paging s) = vidmap_pt_addr s"
  by (simp_all add: init_paging_def Let_def fold_page_table
      fold_page_directory [where g = "\<lambda>i. set_pde_4mb 0 0 0 0 0 (of_nat i)"] fun_eq_iff
      del: upt_rec_numeral)

subsection \<open>Splitting an address\<close>

lemma word_split_join: "push_bit n (drop_bit n a) OR take_bit n a = (a :: u32)"
  by (rule bit_word_eqI) (auto simp: bit_simps)

lemma dir_index: "unat (drop_bit 22 (a :: u32)) = unat a div 2 ^ 22"
  by (simp add: drop_bit_eq_div unat_div)

lemma dir_index_bound: "unat (drop_bit 22 (a :: u32)) < 1024"
  using unat32_less [of a] by (simp add: dir_index)

lemma dir_index_below: "unat (drop_bit 22 (a :: u32)) = 0 \<longleftrightarrow> a < 0x400000"
  "unat (drop_bit 22 (a :: u32)) < 2 \<longleftrightarrow> a < 0x800000"
  by (auto simp: dir_index word_less_nat_alt div_eq_0_iff)

lemma drop_bit_eq_of_unat: "unat (drop_bit n (a :: u32)) = k \<Longrightarrow> drop_bit n a = of_nat k"
  by auto

lemma small_page_join:
  "drop_bit 22 (a :: u32) = 0 \<Longrightarrow>
     push_bit 12 (take_bit 10 (drop_bit 12 a)) OR take_bit 12 a = a"
proof -
  assume "drop_bit 22 a = 0"
  then have "bit (drop_bit 22 a) n = False" for n by simp
  then have h: "\<not> bit a (22 + n)" for n by (simp add: bit_drop_bit_eq)
  have "n < 22" if "bit a n" for n using that h [of "n - 22"] by (cases "n < 22") auto
  then have "take_bit 10 (drop_bit 12 a) = drop_bit 12 a"
    by (intro bit_word_eqI) (fastforce simp: bit_simps)
  then show ?thesis by (simp add: word_split_join)
qed

lemma of_nat_unat_take: "of_nat (unat (take_bit n (x :: u32))) = take_bit n x"
  by simp

lemma take_10_bound: "unat (take_bit 10 (x :: u32)) < 1024"
  using take_bit_nat_less_exp [of 10 "unat x"] by (simp add: unsigned_take_bit_eq)

section \<open>Properties\<close>

lemma init_paging_walk:
  assumes "take_bit 12 (page_table_addr s) = 0"
  shows "walk False (init_paging s) a = (if a < SIZE_8MB then Some a else None) \<and>
     walk True (init_paging s) a = None"
proof -
  have "push_bit 12 (drop_bit 12 (page_table_addr s)) = page_table_addr s"
    using word_split_join [of 12 "page_table_addr s"] assms by simp
  then have tab: "table_at (init_paging s) (push_bit 12 (drop_bit 12 (page_table_addr s))) = Some (page_table (init_paging s))"
    by (simp add: table_at_def init_paging_tables)
  consider (low) "unat (drop_bit 22 a) = 0" | (kernel) "unat (drop_bit 22 a) = 1"
    | (high) "2 \<le> unat (drop_bit 22 a)" by linarith
  then show ?thesis
  proof cases
    case low
    then have "a < SIZE_8MB" "drop_bit 22 a = 0" using dir_index_below [of a] drop_bit_eq_of_unat [OF low] by auto
    moreover have "page_directory (init_paging s) 0 = init_pde0 (page_table_addr s) (page_directory s 0)"
      by (simp add: init_paging_tables)
    ultimately show ?thesis
      using low tab take_10_bound [of "drop_bit 12 a"]
      by (simp add: walk_def init_paging_tables(1) init_pte_fields small_page_join)
  next
    case kernel
    then have k: "a < SIZE_8MB" "drop_bit 22 a = 1"
      using dir_index_below [of a] drop_bit_eq_of_unat [OF kernel] by auto
    then show ?thesis
      using word_split_join [of 22 a] kernel by (simp add: walk_def init_paging_tables(2))
  next
    case high
    then have "\<not> a < SIZE_8MB" using dir_index_below [of a] by auto
    with high show ?thesis
      using dir_index_bound [of a] by (simp add: walk_def init_paging_tables(2))
  qed
qed

text \<open>C18: After \<open>init_paging\<close> the kernel sees every address below 8 MB at its own physical address
  and nothing above, and user mode sees nothing: the page directory, the page table and the
  4 MB kernel page are set up so that the processor's walk is the identity there. All of the
  first 4 MB is mapped, page 0 included, because the test for the video pages joins its two
  bounds with \<open>||\<close> and holds of every index.\<close>

theorem init_paging_identity:
  assumes "take_bit 12 (page_table_addr s) = 0"
  shows "walk False (init_paging s) a = (if a < SIZE_8MB then Some a else None) \<and>
     walk True (init_paging s) a = None"
  using assms by (rule init_paging_walk)

definition demo_paging :: paging where
  "demo_paging = \<lparr>mem = (\<lambda>_. 0), io = [], dev = (\<lambda>h p. 0), iflag = False,
     screen_x = 0, screen_y = 0, master_mask = 0xFF, slave_mask = 0xFF, interrupt_rtc = 0, freq_value = 0,
     page_directory = (\<lambda>_. 0), page_table = (\<lambda>_. 0), vidmap_pt = (\<lambda>_. 0),
     page_directory_addr = 0x500000, page_table_addr = 0x501000, vidmap_pt_addr = 0x502000,
     cr0 = 1, cr3 = 0, cr4 = 0, user_frame = 0, frames = (\<lambda>f off. ucast f)\<rparr>"

theorem init_paging_identity_witness:
  "walk False (init_paging demo_paging) 0xB8123 = Some 0xB8123 \<and> walk False (init_paging demo_paging) 0x800000 = None"
  using init_paging_identity [where s = demo_paging and a = "0xB8123"] init_paging_identity [where s = demo_paging and a = "0x800000"]
  by (simp add: demo_paging_def)

subsection \<open>The user page\<close>

lemma page_frame_word:
  assumes "0 \<le> p" and "p < 8"
  shows "take_bit 10 (drop_bit 22 (SIZE_8MB + word_of_int p * SIZE_4MB)) = (2 + word_of_int p :: u32)"
    and "push_bit 22 (2 + word_of_int p :: u32) = SIZE_8MB + word_of_int p * SIZE_4MB"
    and "\<not> p < 0 \<and> \<not> p \<ge> 8"
proof -
  have "nat p \<in> set [0..<8]" using assms by auto
  then have "p \<in> set (map int [0..<8])" using assms by force
  then show "take_bit 10 (drop_bit 22 (SIZE_8MB + word_of_int p * SIZE_4MB)) = (2 + word_of_int p :: u32)"
    "push_bit 22 (2 + word_of_int p :: u32) = SIZE_8MB + word_of_int p * SIZE_4MB"
    by (auto simp: upt_rec)
qed (use assms in auto)

lemma page_switch_eq:
  assumes "0 \<le> p" and "p < 8"
  shows "page_switch p s = reload_cr3 (s\<lparr>page_directory := (page_directory s)(32 :=
     set_pde_4mb 1 1 0 0 1 (drop_bit 22 (SIZE_8MB + word_of_int p * SIZE_4MB)) (page_directory s 32))\<rparr>)"
  using page_frame_word(3) [OF assms] by (simp add: page_switch_def)

lemma or_eq_add_aligned: "push_bit n x OR take_bit n a = push_bit n x + take_bit n (a :: u32)"
  by (rule disjunctive_add [symmetric]) (auto simp: bit_simps)

text \<open>\<open>page_switch\<close> for a process number from 0 to 7 makes user mode and the kernel see the
  4 MB at 128 MB in the physical frame at 8 MB + 4 MB times the number, and changes the
  translation of no other address; any other number changes nothing at all.\<close>

theorem page_switch_maps:
  "(0 \<le> p \<and> p < 8 \<longrightarrow> walk user (page_switch p s) a =
      (if drop_bit 22 a = 32 then Some (SIZE_8MB + word_of_int p * SIZE_4MB + take_bit 22 a) else walk user s a)) \<and>
   (\<not> (0 \<le> p \<and> p < 8) \<longrightarrow> page_switch p s = s)"
proof (cases "0 \<le> p \<and> p < 8")
  case True
  then have p: "0 \<le> p" "p < 8" by auto
  have i: "unat (drop_bit 22 a) = 32 \<longleftrightarrow> drop_bit 22 a = 32"
    using drop_bit_eq_of_unat [of 22 a 32] by auto
  show ?thesis
  proof (cases "drop_bit 22 a = 32")
    case True
    then show ?thesis
      using p page_frame_word [OF p] or_eq_add_aligned [of 22 "2 + word_of_int p" a]
      by (simp add: page_switch_eq walk_def)
  next
    case False
    then show ?thesis using p i by (simp add: page_switch_eq walk_def Let_def)
  qed
qed (auto simp: page_switch_def)

theorem page_switch_maps_witness:
  "walk True (page_switch 3 demo_paging) 0x08048010 = Some 0x01448010"
  using page_switch_maps [where p = 3 and user = True and s = demo_paging and a = "0x08048010"] by simp

text \<open>The bytes of the user page.\<close>

definition user_page :: "'a paging_scheme \<Rightarrow> u32 \<Rightarrow> u8" where
  "user_page s off = mem s (SIZE_128MB + off)"

lemma user_address: "off < SIZE_4MB \<Longrightarrow> drop_bit 22 (SIZE_128MB + off) = 32 \<and> take_bit 22 (SIZE_128MB + off) = off"
proof -
  assume "off < SIZE_4MB"
  then have "unat off < 4194304" by (simp add: word_less_nat_alt)
  moreover from this have u: "unat (SIZE_128MB + off) = 134217728 + unat off" by (simp add: unat_word_ariths)
  ultimately have "unat (drop_bit 22 (SIZE_128MB + off)) = 32" "unat (take_bit 22 (SIZE_128MB + off)) = unat off"
    unfolding dir_index unsigned_take_bit_eq u using mod_mult_self3 [of 32 4194304 "unat off"]
    by (simp_all add: take_bit_eq_mod)
  then show ?thesis using drop_bit_eq_of_unat [of 22 "SIZE_128MB + off" 32] 
    by (auto intro: unsigned_word_eqI)
qed

lemma user_page_fun: "(\<lambda>off. mem s (SIZE_128MB + off)) = user_page s"
  by (simp add: user_page_def fun_eq_iff)

lemma reload_user_page:
  assumes "page_directory s 32 = set_pde_4mb 1 1 0 0 1 x e" and "take_bit 10 x = f"
  shows "mem (reload_cr3 s) a = (if drop_bit 22 a = 32
      then ((frames s)(user_frame s := user_page s)) f (take_bit 22 a) else mem s a)"
    and "frames (reload_cr3 s) = (frames s)(user_frame s := user_page s)"
    and "user_frame (reload_cr3 s) = f"
  using assms by (simp_all add: reload_cr3_def user_page_fun Let_def)

lemma page_switch_memory:
  assumes "0 \<le> p" and "p < 8"
  shows "mem (page_switch p s) a = (if drop_bit 22 a = 32
      then ((frames s)(user_frame s := user_page s)) (2 + word_of_int p) (take_bit 22 a) else mem s a)"
    and "frames (page_switch p s) = (frames s)(user_frame s := user_page s)"
    and "user_frame (page_switch p s) = 2 + word_of_int p"
  unfolding page_switch_eq [OF assms]
  by (subst reload_user_page [OF _ page_frame_word(1) [OF assms]]; simp add: user_page_def fun_eq_iff)+

lemma page_frame_inj:
  assumes "0 \<le> p" "p < 8" "0 \<le> q" "q < 8"
  shows "(2 + word_of_int p :: u32) = 2 + word_of_int q \<longleftrightarrow> p = q"
  using assms by (simp add: word_of_int_inj)

text \<open>C17: Processes do not see each other's memory. While process \<open>p\<close> is mapped let memory become
  anything at all (\<open>m\<close>) and switch to another process \<open>q\<close>: the user page then shows what frame \<open>q\<close>
  held before, none of the writes of \<open>p\<close>, kernel memory is as \<open>p\<close> left it, and switching back
  shows every byte of the page of \<open>p\<close> as it was left.\<close>

theorem page_switch_isolates:
  fixes s :: "'a paging_scheme"
  assumes "0 \<le> p" "p < 8" "0 \<le> q" "q < 8" "p \<noteq> q" and "off < SIZE_4MB"
  defines "s1 \<equiv> page_switch p s"
  shows "user_page (page_switch q (s1\<lparr>mem := m\<rparr>)) off = frames s1 (2 + word_of_int q) off \<and>
     (drop_bit 22 a \<noteq> 32 \<longrightarrow> mem (page_switch q (s1\<lparr>mem := m\<rparr>)) a = m a) \<and>
     user_page (page_switch p (page_switch q (s1\<lparr>mem := m\<rparr>))) off = m (SIZE_128MB + off)"
  using assms(1-5) user_address [OF assms(6)] page_frame_inj [OF assms(1-4)]
  by (simp add: user_page_def page_switch_memory s1_def)

theorem page_switch_isolates_witness:
  "user_page (page_switch 1 ((page_switch 0 demo_paging)\<lparr>mem := (\<lambda>_. 9)\<rparr>)) 5 = 3 \<and>
   user_page (page_switch 0 (page_switch 1 ((page_switch 0 demo_paging)\<lparr>mem := (\<lambda>_. 9)\<rparr>))) 5 = 9"
  using page_switch_isolates [where p = 0 and q = 1 and s = demo_paging and off = 5 and m = "\<lambda>_. 9" and a = 0]
  by (simp add: page_switch_memory demo_paging_def)

subsection \<open>Video memory for user programs\<close>

definition in_user_page :: "u32 \<Rightarrow> bool" where
  "in_user_page a \<longleftrightarrow> drop_bit 22 a = 32"

lemma in_user_page_bounds: "in_user_page a \<longleftrightarrow> 0x8000000 \<le> unat a \<and> unat a < 0x8400000"
proof -
  have "in_user_page a \<longleftrightarrow> unat a div 4194304 = 32"
    using drop_bit_eq_of_unat [of 22 a 32] dir_index [of a] by (auto simp: in_user_page_def)
  also have "\<dots> \<longleftrightarrow> 0x8000000 \<le> unat a \<and> unat a < 0x8400000" by (simp add: nat_div_eq)
  finally show ?thesis .
qed

lemma sint_small: "unat (a :: u32) < 2 ^ 31 \<Longrightarrow> sint a = int (unat a)"
  using sint_of_nat_less [of "unat a"] by simp

lemma sint_large: "2 ^ 31 \<le> unat (a :: u32) \<Longrightarrow> sint a < 0"
proof -
  assume a: "2 ^ 31 \<le> unat a"
  have "unat a < 2 ^ 32" by (rule unat32_less)
  with a have "unat a div 2 ^ 31 = 1" by (simp add: nat_div_eq)
  then have "bit (unat a) 31" by (simp add: bit_iff_odd)
  then have "bit a 31" by (simp add: bit_unsigned_iff)
  then show ?thesis using bit_last_iff [of a] by simp
qed

lemma vidmap_check:
  "(a = 0 \<or> sint a < sint SIZE_128MB \<or> sint a \<ge> sint (SIZE_128MB + SIZE_4MB)) \<longleftrightarrow> \<not> in_user_page a"
proof (cases "unat a < 2 ^ 31")
  case True
  then show ?thesis by (auto simp: in_user_page_bounds sint_small simp del: of_nat_unat)
next
  case False
  then show ?thesis using sint_large [of a] by (auto simp: in_user_page_bounds)
qed

lemma vidmap_ok:
  "in_user_page p \<Longrightarrow> vidmap p s = (0, s\<lparr>
     page_directory := (page_directory s)(33 := vidmap_pde (vidmap_pt_addr s) (page_directory s 33)),
     page_table := (page_table s)(33 := vidmap_pte (page_table s 33)),
     vidmap_pt := (vidmap_pt s)(0 := vidmap_pte (page_table s 33)),
     mem := st32 (mem s) p SIZE_132MB\<rparr>)"
  using vidmap_check [of p] by (simp add: vidmap_def Let_def)

lemma page_offset:
  assumes "off < SIZE_4KB"
  shows "take_bit 12 off = off" "drop_bit 12 off = 0"
proof -
  have "unat off < 4096" using assms by (simp add: word_less_nat_alt)
  then have "unat (drop_bit 12 off) = 0" by (simp add: drop_bit_eq_div unat_div)
  then show "drop_bit 12 off = 0" by (simp add: unat_eq_0)
  then show "take_bit 12 off = off" using word_split_join [of 12 off] by simp
qed

lemma aligned_offset:
  assumes "off < SIZE_4KB" and "take_bit 12 b = 0"
  shows "take_bit 12 (b + off) = off" "drop_bit 12 (b + off) = drop_bit 12 b" "drop_bit 22 (b + off) = drop_bit 22 b"
proof -
  have b: "push_bit 12 (drop_bit 12 b) = b" using word_split_join [of 12 b] assms(2) by simp
  have j: "b + off = b OR off"
    using or_eq_add_aligned [of 12 "drop_bit 12 b" off] b page_offset [OF assms(1)] by simp
  show "take_bit 12 (b + off) = off" "drop_bit 12 (b + off) = drop_bit 12 b"
    using page_offset [OF assms(1)] assms(2) by (simp_all add: j take_bit_or drop_bit_or)
  then have "drop_bit 10 (drop_bit 12 (b + off)) = drop_bit 10 (drop_bit 12 b)" by simp
  then show "drop_bit 22 (b + off) = drop_bit 22 b" by (simp add: drop_bit_drop_bit)
qed

text \<open>\<open>vidmap\<close> rejects, changing nothing, every pointer outside the 4 MB user page. For a pointer
  in it, the call returns 0, stores the address 132 MB through the pointer, and from then on
  user mode and the kernel see the page of video memory at 132 MB; an address in any other
  4 MB page, the user page and the kernel page among them, translates as before.\<close>

theorem vidmap_maps_video:
  assumes "take_bit 12 (vidmap_pt_addr s) = 0" and "vidmap_pt_addr s \<noteq> page_table_addr s" and "off < SIZE_4KB"
  shows "(\<not> in_user_page p \<longrightarrow> vidmap p s = (- 1, s)) \<and>
     (in_user_page p \<longrightarrow> (\<exists>s'. vidmap p s = (0, s') \<and> ld32 (mem s') p = SIZE_132MB \<and>
        walk user s' (SIZE_132MB + off) = Some (VIDEO_MEMORY + off) \<and>
        (unat (drop_bit 22 a) \<noteq> 33 \<and> bit (page_directory s (unat (drop_bit 22 a))) 7 \<longrightarrow>
           walk user s' a = walk user s a)))"
proof -
  have t: "push_bit 12 (drop_bit 12 (vidmap_pt_addr s)) = vidmap_pt_addr s"
    using word_split_join [of 12 "vidmap_pt_addr s"] assms(1) by simp
  have al: "take_bit 12 (SIZE_132MB + off) = off" "drop_bit 12 (SIZE_132MB + off) = drop_bit 12 SIZE_132MB"
    "drop_bit 22 (SIZE_132MB + off) = drop_bit 22 SIZE_132MB"
    using aligned_offset [OF assms(3), of SIZE_132MB] by simp_all
  have v: "push_bit 12 0xB8 OR take_bit 12 off = VIDEO_MEMORY + off"
    using or_eq_add_aligned [of 12 "0xB8" off] page_offset [OF assms(3)] by simp
  have "walk user (snd (vidmap p s)) (SIZE_132MB + off) = Some (VIDEO_MEMORY + off)" if "in_user_page p"
    using assms(2) v page_offset [OF assms(3)]
    by (simp add: vidmap_ok [OF that] walk_def al t table_at_def Let_def)
  moreover have "\<not> in_user_page p \<longrightarrow> vidmap p s = (- 1, s)"
    using vidmap_check [of p] by (auto simp: vidmap_def)
  ultimately show ?thesis by (auto simp: vidmap_ok walk_def Let_def)
qed

theorem vidmap_maps_video_witness:
  "fst (vidmap 0x8000100 demo_paging) = 0 \<and>
   walk True (snd (vidmap 0x8000100 demo_paging)) 0x8400010 = Some 0xB8010"
  using vidmap_maps_video [where s = demo_paging and off = "0x10" and p = "0x8000100" and user = True and a = 0]
  by (auto simp: demo_paging_def in_user_page_def)

text \<open>\<open>vidmap\<close> builds its table entry in entry 33 of the kernel's own page table, so after a
  successful call the kernel address 0x21000 no longer names the memory at 0x21000 but the
  video memory.\<close>

theorem vidmap_remaps_kernel_page:
  assumes "take_bit 12 (page_table_addr s) = 0" and "in_user_page p" and "off < SIZE_4KB"
  shows "walk False (init_paging s) (0x21000 + off) = Some (0x21000 + off) \<and>
     walk False (snd (vidmap p (init_paging s))) (0x21000 + off) = Some (VIDEO_MEMORY + off)"
proof -
  have t: "push_bit 12 (drop_bit 12 (page_table_addr s)) = page_table_addr s"
    using word_split_join [of 12 "page_table_addr s"] assms(1) by simp
  have al: "take_bit 12 (0x21000 + off) = off" "drop_bit 12 (0x21000 + off) = 0x21" "drop_bit 22 (0x21000 + off) = 0"
    using aligned_offset [OF assms(3), of "0x21000"] by simp_all
  have v: "push_bit 12 0xB8 OR take_bit 12 off = VIDEO_MEMORY + off" "push_bit 12 0x21 OR take_bit 12 off = 0x21000 + off"
    using or_eq_add_aligned [of 12 "0xB8" off] or_eq_add_aligned [of 12 "0x21" off] page_offset [OF assms(3)] by simp_all
  have d: "page_directory (init_paging s) 0 = init_pde0 (page_table_addr s) (page_directory s 0)"
    by (simp add: init_paging_tables)
  show ?thesis
    using v page_offset [OF assms(3)] init_pte_fields [of 33]
    by (simp add: vidmap_ok [OF assms(2)] walk_def al t d table_at_def init_paging_tables Let_def)
qed

theorem vidmap_remaps_kernel_page_witness:
  "walk False (snd (vidmap 0x8000100 (init_paging demo_paging))) 0x21004 = Some 0xB8004"
  using vidmap_remaps_kernel_page [where s = demo_paging and off = 4 and p = "0x8000100"]
  by (simp add: demo_paging_def in_user_page_def)

end
