(* ===== verification/Idt.thy ===== *)
theory Idt
  imports Paging
begin

text \<open>
  The interrupt descriptor table, \<open>idt.c\<close> and the \<open>idt_desc_t\<close> and \<open>SET_IDT_ENTRY\<close> of
  \<open>x86_desc.h\<close>. The addresses of the assembly entry points are the linker's and are the
  parameter \<open>addr_of\<close>. What the processor does with an entry (\<open>gate\<close>) is the specification.
\<close>

section \<open>Definitions\<close>

record idt_desc_t =
  offset_15_00 :: u16
  seg_selector :: u16
  reserved4 :: u8
  reserved3 :: "1 word"
  reserved2 :: "1 word"
  reserved1 :: "1 word"
  size :: "1 word"
  reserved0 :: "1 word"
  dpl :: "2 word"
  present :: "1 word"
  offset_31_16 :: u16

record idt = paging +
  idt_table :: "u8 \<Rightarrow> idt_desc_t"

datatype isr = handle_SIG_DE | handle_SIG_DB | handle_SIG_NMI | handle_SIG_BP | handle_SIG_OF
  | handle_SIG_BR | handle_SIG_UD | handle_SIG_NM | handle_SIG_DF | handle_SIG_SO | handle_SIG_TS
  | handle_SIG_NP | handle_SIG_SS | handle_SIG_GP | handle_SIG_PF | handle_SIG_MF | handle_SIG_AC
  | handle_SIG_MC | handle_SIG_XF | handle_SIG_KBD | handle_SIG_RTC | handle_SIG_PIT
  | handle_SIG_SYSCALL | handle_SIG_IDK

abbreviation KERNEL_CS :: u16 where "KERNEL_CS \<equiv> 0x0010"

definition SET_IDT_ENTRY :: "u32 \<Rightarrow> idt_desc_t \<Rightarrow> idt_desc_t" where
  "SET_IDT_ENTRY handler e =
     e\<lparr>offset_31_16 := ucast (drop_bit 16 (handler AND 0xFFFF0000)),
       offset_15_00 := ucast (handler AND 0xFFFF)\<rparr>"

definition set_intr_gate :: "u8 \<Rightarrow> u32 \<Rightarrow> 'a idt_scheme \<Rightarrow> 'a idt_scheme" where
  "set_intr_gate n addr s =
     (let e = idt_table s n;
          e = e\<lparr>present := 1\<rparr>;
          e = e\<lparr>dpl := 0\<rparr>;
          e = e\<lparr>reserved0 := 0\<rparr>;
          e = e\<lparr>reserved1 := 1\<rparr>;
          e = e\<lparr>reserved2 := 1\<rparr>;
          e = e\<lparr>reserved4 := 0\<rparr>;
          e = e\<lparr>reserved3 := 0\<rparr>;
          e = e\<lparr>size := 1\<rparr>;
          e = e\<lparr>seg_selector := KERNEL_CS\<rparr>
      in s\<lparr>idt_table := (idt_table s)(n := SET_IDT_ENTRY addr e)\<rparr>)"

definition set_trap_gate :: "u8 \<Rightarrow> u32 \<Rightarrow> 'a idt_scheme \<Rightarrow> 'a idt_scheme" where
  "set_trap_gate n addr s =
     (let e = idt_table s n;
          e = e\<lparr>present := 1\<rparr>;
          e = e\<lparr>dpl := 0\<rparr>;
          e = e\<lparr>reserved0 := 0\<rparr>;
          e = e\<lparr>reserved1 := 1\<rparr>;
          e = e\<lparr>reserved2 := 1\<rparr>;
          e = e\<lparr>reserved4 := 0\<rparr>;
          e = e\<lparr>reserved3 := 1\<rparr>;
          e = e\<lparr>size := 1\<rparr>;
          e = e\<lparr>seg_selector := KERNEL_CS\<rparr>
      in s\<lparr>idt_table := (idt_table s)(n := SET_IDT_ENTRY addr e)\<rparr>)"

definition set_system_gate :: "u8 \<Rightarrow> u32 \<Rightarrow> 'a idt_scheme \<Rightarrow> 'a idt_scheme" where
  "set_system_gate n addr s =
     (let e = idt_table s n;
          e = e\<lparr>present := 1\<rparr>;
          e = e\<lparr>dpl := 3\<rparr>;
          e = e\<lparr>reserved0 := 0\<rparr>;
          e = e\<lparr>reserved1 := 1\<rparr>;
          e = e\<lparr>reserved2 := 1\<rparr>;
          e = e\<lparr>reserved4 := 0\<rparr>;
          e = e\<lparr>reserved3 := 0\<rparr>;
          e = e\<lparr>size := 1\<rparr>;
          e = e\<lparr>seg_selector := KERNEL_CS\<rparr>
      in s\<lparr>idt_table := (idt_table s)(n := SET_IDT_ENTRY addr e)\<rparr>)"

definition init_idt :: "(isr \<Rightarrow> u32) \<Rightarrow> 'a idt_scheme \<Rightarrow> 'a idt_scheme" where
  "init_idt addr_of s =
     (let s = fold (\<lambda>i. set_trap_gate (of_nat i) (addr_of handle_SIG_IDK)) [0..<256] s;
          s = set_intr_gate 0 (addr_of handle_SIG_DE) s;
          s = set_intr_gate 1 (addr_of handle_SIG_DB) s;
          s = set_intr_gate 2 (addr_of handle_SIG_NMI) s;
          s = set_intr_gate 3 (addr_of handle_SIG_BP) s;
          s = set_intr_gate 4 (addr_of handle_SIG_OF) s;
          s = set_intr_gate 5 (addr_of handle_SIG_BR) s;
          s = set_intr_gate 6 (addr_of handle_SIG_UD) s;
          s = set_intr_gate 7 (addr_of handle_SIG_NM) s;
          s = set_intr_gate 8 (addr_of handle_SIG_DF) s;
          s = set_intr_gate 9 (addr_of handle_SIG_SO) s;
          s = set_intr_gate 10 (addr_of handle_SIG_TS) s;
          s = set_intr_gate 11 (addr_of handle_SIG_NP) s;
          s = set_intr_gate 12 (addr_of handle_SIG_SS) s;
          s = set_intr_gate 13 (addr_of handle_SIG_GP) s;
          s = set_intr_gate 14 (addr_of handle_SIG_PF) s;
          s = set_intr_gate 16 (addr_of handle_SIG_MF) s;
          s = set_intr_gate 17 (addr_of handle_SIG_AC) s;
          s = set_intr_gate 18 (addr_of handle_SIG_MC) s;
          s = set_intr_gate 19 (addr_of handle_SIG_XF) s;
          s = set_intr_gate 33 (addr_of handle_SIG_KBD) s;
          s = set_intr_gate 40 (addr_of handle_SIG_RTC) s;
          s = set_intr_gate 32 (addr_of handle_SIG_PIT) s
      in set_system_gate 0x80 (addr_of handle_SIG_SYSCALL) s)"

section \<open>What the processor does with an entry\<close>

text \<open>The four type bits of a 32-bit gate read 1110 for an interrupt gate, which clears the
  interrupt flag on entry, and 1111 for a trap gate, which does not.\<close>

datatype gate_kind = Interrupt_gate | Trap_gate

record gate =
  kind :: gate_kind
  target :: u32
  selector :: u16
  privilege :: nat

definition gate :: "idt_desc_t \<Rightarrow> gate option" where
  "gate e =
     (if present e = 1 \<and> reserved0 e = 0 \<and> size e = 1 \<and> reserved1 e = 1 \<and> reserved2 e = 1 then
        Some \<lparr>kind = (if reserved3 e = 1 then Trap_gate else Interrupt_gate),
          target = push_bit 16 (ucast (offset_31_16 e)) OR ucast (offset_15_00 e),
          selector = seg_selector e, privilege = unat (dpl e)\<rparr>
      else None)"

text \<open>The handler each vector is meant to reach.\<close>

definition isr_of :: "u8 \<Rightarrow> isr" where
  "isr_of n =
     (if n = 0x80 then handle_SIG_SYSCALL
      else if n = 32 then handle_SIG_PIT
      else if n = 33 then handle_SIG_KBD
      else if n = 40 then handle_SIG_RTC
      else if n = 15 \<or> n > 19 then handle_SIG_IDK
      else [handle_SIG_DE, handle_SIG_DB, handle_SIG_NMI, handle_SIG_BP, handle_SIG_OF,
        handle_SIG_BR, handle_SIG_UD, handle_SIG_NM, handle_SIG_DF, handle_SIG_SO, handle_SIG_TS,
        handle_SIG_NP, handle_SIG_SS, handle_SIG_GP, handle_SIG_PF, handle_SIG_IDK, handle_SIG_MF,
        handle_SIG_AC, handle_SIG_MC, handle_SIG_XF] ! unat n)"

lemma handler_split:
  "push_bit 16 (ucast (ucast (drop_bit 16 (h AND 0xFFFF0000)) :: u16)) OR ucast (ucast (h AND 0xFFFF) :: u16) = (h :: u32)"
proof -
  have a: "(ucast (drop_bit 16 (h AND 0xFFFF0000)) :: u16) = ucast (drop_bit 16 h)"
    by (rule bit_word_eqI) (auto simp: bit_simps bit_numeral_rec split: nat.splits)
  have b: "(ucast (h AND 0xFFFF) :: u16) = ucast h"
    by (rule bit_word_eqI) (auto simp: bit_simps bit_numeral_rec split: nat.splits)
  show ?thesis unfolding a b
    by (rule bit_word_eqI) (auto simp: bit_simps)
qed

lemma handler_split_norm:
  "push_bit 16 (ucast (ucast (drop_bit 16 h AND 65535) :: u16)) OR ucast (ucast (h AND 65535) :: u16) = (h :: u32)"
  using handler_split [of h] by simp

lemma gate_set:
  "gate (idt_table (set_intr_gate n h s) m) = (if m = n
     then Some \<lparr>kind = Interrupt_gate, target = h, selector = KERNEL_CS, privilege = 0\<rparr> else gate (idt_table s m))"
  "gate (idt_table (set_trap_gate n h s) m) = (if m = n
     then Some \<lparr>kind = Trap_gate, target = h, selector = KERNEL_CS, privilege = 0\<rparr> else gate (idt_table s m))"
  "gate (idt_table (set_system_gate n h s) m) = (if m = n
     then Some \<lparr>kind = Interrupt_gate, target = h, selector = KERNEL_CS, privilege = 3\<rparr> else gate (idt_table s m))"
  by (simp_all add: set_intr_gate_def set_trap_gate_def set_system_gate_def gate_def SET_IDT_ENTRY_def
      Let_def handler_split_norm)

lemma gate_fold_trap:
  "k \<le> 256 \<Longrightarrow> gate (idt_table (fold (\<lambda>i. set_trap_gate (of_nat i) h) [0..<k] s) m) =
     (if unat m < k then Some \<lparr>kind = Trap_gate, target = h, selector = KERNEL_CS, privilege = 0\<rparr>
      else gate (idt_table s m))"
proof (induction k)
  case (Suc k)
  then have "(m = of_nat k) = (unat m = k)" by (auto simp: unat_of_nat)
  with Suc show ?case by (auto simp: gate_set less_Suc_eq)
qed simp

lemma vector_cases:
  assumes "n \<le> (19 :: u8)"
  shows "n \<in> set (map of_nat [0..<20])"
proof -
  have "unat n \<in> set [0..<20]" using assms by (simp add: word_le_nat_alt)
  then have "of_nat (unat n) \<in> set (map of_nat [0..<20] :: u8 list)" by (metis image_eqI list.set_map)
  then show ?thesis by simp
qed

lemma init_idt_gate:
  "gate (idt_table (init_idt h s) n) =
     (if n = 0x80 then Some \<lparr>kind = Interrupt_gate, target = h handle_SIG_SYSCALL, selector = KERNEL_CS, privilege = 3\<rparr>
      else case map_of [(32, handle_SIG_PIT), (40, handle_SIG_RTC), (33, handle_SIG_KBD), (19, handle_SIG_XF),
          (18, handle_SIG_MC), (17, handle_SIG_AC), (16, handle_SIG_MF), (14, handle_SIG_PF), (13, handle_SIG_GP),
          (12, handle_SIG_SS), (11, handle_SIG_NP), (10, handle_SIG_TS), (9, handle_SIG_SO), (8, handle_SIG_DF),
          (7, handle_SIG_NM), (6, handle_SIG_UD), (5, handle_SIG_BR), (4, handle_SIG_OF), (3, handle_SIG_BP),
          (2, handle_SIG_NMI), (1, handle_SIG_DB), (0, handle_SIG_DE)] n of
        Some i \<Rightarrow> Some \<lparr>kind = Interrupt_gate, target = h i, selector = KERNEL_CS, privilege = 0\<rparr>
      | None \<Rightarrow> Some \<lparr>kind = Trap_gate, target = h handle_SIG_IDK, selector = KERNEL_CS, privilege = 0\<rparr>)"
proof -
  have "unat n < 256" using unsigned_less [of n] by simp
  then show ?thesis
    unfolding init_idt_def Let_def gate_set gate_fold_trap [OF order_refl]
    by (simp del: upt_rec_numeral)
qed

lemma init_idt_gate_of:
  "gate (idt_table (init_idt addr_of s) n) = Some \<lparr>
     kind = (if isr_of n = handle_SIG_IDK then Trap_gate else Interrupt_gate),
     target = addr_of (isr_of n), selector = KERNEL_CS,
     privilege = (if n = 0x80 then 3 else 0)\<rparr>"
proof (cases "n \<le> 19")
  case True
  have "n \<in> {0, 1, 2, 3, 4, 5, 6, 7, 8, 9, 10, 11, 12, 13, 14, 15, 16, 17, 18, 19}"
    using vector_cases [OF True] by (simp add: upt_rec)
  then show ?thesis
    unfolding init_idt_gate by (elim insertE emptyE) (simp_all add: isr_of_def)
next
  case False
  then have "n \<noteq> k" if "k \<le> 19" for k using that by auto
  then show ?thesis using False
    unfolding init_idt_gate by (simp add: isr_of_def)
qed

section \<open>Properties\<close>

text \<open>C19: After \<open>init_idt\<close> every one of the 256 vectors holds a present 32-bit gate into the kernel
  code segment whose two offset halves join to the address of the handler meant for it:
  its own for the Intel exceptions, the clock, the keyboard, the timer and the system call,
  the catch-all for the rest. The gate has user privilege for vector 0x80 alone, so no other
  vector can be raised by user code. The named vectors, exceptions included, are interrupt
  gates; only the catch-all is a trap gate.\<close>

theorem init_idt_gates:
  "gate (idt_table (init_idt addr_of s) n) = Some \<lparr>
     kind = (if isr_of n = handle_SIG_IDK then Trap_gate else Interrupt_gate),
     target = addr_of (isr_of n), selector = KERNEL_CS,
     privilege = (if n = 0x80 then 3 else 0)\<rparr>"
  by (rule init_idt_gate_of)

end
