(* ===== verification/Filesys.thy ===== *)
theory Filesys
  imports Idt
begin

text \<open>
  The read-only file system, \<open>filesys.c\<close>, over the raw bytes of the image: the boot block with
  its 63 directory entries, the inodes and the data blocks, all of 4096 bytes. A structure is
  read and written at the offsets the compiler gives its fields. The process control block
  that \<open>file_read\<close> updates is raw memory too, at the address \<open>get_pcb\<close> computes from the stack
  pointer \<open>esp\<close>. The address of a local structure is an argument (\<open>local\<close>).

  The image is specified as a directory of names (\<open>dir_name\<close>) and the bytes of each file
  (\<open>file_byte\<close>); the routines are proved to read exactly those.
\<close>

section \<open>Definitions\<close>

record filesys = idt +
  dir_count :: u32
  inode_count :: u32
  data_count :: u32
  bootblock_addr :: u32
  num_files_read :: u8
  inodes :: u32
  esp :: u32

abbreviation FILENAME_LEN :: u32 where "FILENAME_LEN \<equiv> 32"
abbreviation NUM_MAX_DENTRIES :: nat where "NUM_MAX_DENTRIES \<equiv> 63"

text \<open>The addresses of the parts of the image: field \<open>direntries[i]\<close> of the boot block, with its
  \<open>filename\<close>, \<open>filetype\<close> and \<open>inode_num\<close>, inode \<open>n\<close> and data block \<open>b\<close>.\<close>

definition direntry :: "u32 \<Rightarrow> u32 \<Rightarrow> u32" where
  "direntry bb i = bb + 64 + 64 * i"

definition dentry_filetype :: "u32 \<Rightarrow> u32" where
  "dentry_filetype d = d + 32"

definition dentry_inode_num :: "u32 \<Rightarrow> u32" where
  "dentry_inode_num d = d + 36"

definition bb_inode_count :: "memory \<Rightarrow> u32 \<Rightarrow> u32" where
  "bb_inode_count m bb = ld32 m (bb + 4)"

text \<open>The process control block: \<open>fds[fd]\<close> takes 16 bytes, \<open>args\<close> follows at 128, then the saved
  registers, the process number and the parent.\<close>

definition pcb_fops :: "u32 \<Rightarrow> int \<Rightarrow> u32" where
  "pcb_fops p fd = p + 16 * word_of_int fd"

definition pcb_inode :: "u32 \<Rightarrow> int \<Rightarrow> u32" where
  "pcb_inode p fd = p + 16 * word_of_int fd + 4"

definition pcb_file_pos :: "u32 \<Rightarrow> int \<Rightarrow> u32" where
  "pcb_file_pos p fd = p + 16 * word_of_int fd + 8"

definition pcb_flags :: "u32 \<Rightarrow> int \<Rightarrow> u32" where
  "pcb_flags p fd = p + 16 * word_of_int fd + 12"

definition get_pcb :: "'a filesys_scheme \<Rightarrow> u32" where
  "get_pcb s = esp s AND 0xffffe000"

definition init_filesys :: "u32 \<Rightarrow> 'a filesys_scheme \<Rightarrow> 'a filesys_scheme" where
  "init_filesys start s =
     (let s = s\<lparr>bootblock_addr := start\<rparr>;
          s = s\<lparr>dir_count := ld32 (mem s) (bootblock_addr s)\<rparr>;
          s = s\<lparr>inode_count := ld32 (mem s) (bootblock_addr s + 4)\<rparr>;
          s = s\<lparr>data_count := ld32 (mem s) (bootblock_addr s + 8)\<rparr>
      in s\<lparr>inodes := bootblock_addr s + 4096\<rparr>)"

text \<open>The loop of \<open>read_data\<close>. The counter \<open>i\<close> is an \<open>int\<close>: it is compared with the unsigned bound
  as unsigned, and divided as signed.\<close>

function read_data_loop :: "u32 \<Rightarrow> u32 \<Rightarrow> u32 \<Rightarrow> u32 \<Rightarrow> u32 \<Rightarrow> u32 \<Rightarrow> u32 \<Rightarrow> memory \<Rightarrow> u32 \<times> memory" where
  "read_data_loop bb dcount curr_inode offset bound i buf m =
     (if i < bound then
        (let block_idx = ld32 m (curr_inode + 4 + 4 * word_of_int (sint i sdiv 4096))
         in if block_idx \<ge> dcount then (i - offset - 1, m)
            else
              (let data = bb + 4096 * (bb_inode_count m bb + 1 + block_idx);
                   m = m(buf := m (data + word_of_int (sint i smod 4096)))
               in if i = ld32 m curr_inode then (i - offset, m)
                  else read_data_loop bb dcount curr_inode offset bound (i + 1) (buf + 1) m))
      else (i - offset, m))"
  by pat_completeness auto
termination
  by (relation "measure (\<lambda>(bb, dc, ci, off, bound, i, buf, m). unat bound - unat i)")
    (auto intro: word_Suc_measure)

declare read_data_loop.simps [simp del]

definition read_data :: "u32 \<Rightarrow> u32 \<Rightarrow> u32 \<Rightarrow> u32 \<Rightarrow> 'a filesys_scheme \<Rightarrow> int \<times> 'a filesys_scheme" where
  "read_data inode offset buf len s =
     (if inode \<ge> bb_inode_count (mem s) (bootblock_addr s) then (- 1, s)
      else
        (let curr_inode = bootblock_addr s + 4096 * (inode + 1);
             (r, m) = read_data_loop (bootblock_addr s) (data_count s) curr_inode offset (offset + len) offset buf (mem s)
         in (sint r, s\<lparr>mem := m\<rparr>)))"

definition file_open :: "u32 \<Rightarrow> 'a filesys_scheme \<Rightarrow> int \<times> 'a filesys_scheme" where
  "file_open filename s = (0, s)"

definition file_close :: "int \<Rightarrow> 'a filesys_scheme \<Rightarrow> int \<times> 'a filesys_scheme" where
  "file_close fd s = (0, s)"

definition file_read :: "int \<Rightarrow> u32 \<Rightarrow> int \<Rightarrow> 'a filesys_scheme \<Rightarrow> int \<times> 'a filesys_scheme" where
  "file_read fd buf nbytes s =
     (let pcb = get_pcb s;
          offset = ld32 (mem s) (pcb_file_pos pcb fd);
          inode = ld32 (mem s) (pcb_inode pcb fd);
          (bytes_read, s) = read_data inode offset buf (word_of_int nbytes) s;
          offset = offset + word_of_int bytes_read
      in (bytes_read, s\<lparr>mem := st32 (mem s) (pcb_file_pos pcb fd) offset\<rparr>))"

definition file_write :: "int \<Rightarrow> u32 \<Rightarrow> int \<Rightarrow> 'a filesys_scheme \<Rightarrow> int \<times> 'a filesys_scheme" where
  "file_write fd buf nbytes s = (- 1, s)"

definition directory_open :: "u32 \<Rightarrow> 'a filesys_scheme \<Rightarrow> int \<times> 'a filesys_scheme" where
  "directory_open filename s = (0, s\<lparr>num_files_read := 0\<rparr>)"

definition directory_close :: "int \<Rightarrow> 'a filesys_scheme \<Rightarrow> int \<times> 'a filesys_scheme" where
  "directory_close fd s = (0, s)"

definition directory_write :: "int \<Rightarrow> u32 \<Rightarrow> int \<Rightarrow> 'a filesys_scheme \<Rightarrow> int \<times> 'a filesys_scheme" where
  "directory_write fd buf nbytes s = (- 1, s)"

text \<open>The three assignments that fill a \<open>dentry_t\<close> from the entry at \<open>d\<close>.\<close>

definition copy_dentry :: "u32 \<Rightarrow> u32 \<Rightarrow> memory \<Rightarrow> memory" where
  "copy_dentry dentry d m =
     (let m = strncpy m dentry d FILENAME_LEN;
          m = st32 m (dentry_filetype dentry) (ld32 m (dentry_filetype d))
      in st32 m (dentry_inode_num dentry) (ld32 m (dentry_inode_num d)))"

definition read_dentry_by_index :: "u32 \<Rightarrow> u32 \<Rightarrow> 'a filesys_scheme \<Rightarrow> int \<times> 'a filesys_scheme" where
  "read_dentry_by_index index dentry s =
     (0, s\<lparr>mem := copy_dentry dentry (direntry (bootblock_addr s) index) (mem s)\<rparr>)"

fun read_dentry_loop :: "u32 \<Rightarrow> u32 \<Rightarrow> u32 \<Rightarrow> nat list \<Rightarrow> memory \<Rightarrow> int \<times> memory" where
  "read_dentry_loop bb fname dentry [] m = (- 1, m)"
| "read_dentry_loop bb fname dentry (i # is) m =
     (if strncmp m (direntry bb (of_nat i)) fname 32 = 0
      then (0, copy_dentry dentry (direntry bb (of_nat i)) m)
      else read_dentry_loop bb fname dentry is m)"

definition read_dentry_by_name :: "u32 \<Rightarrow> u32 \<Rightarrow> 'a filesys_scheme \<Rightarrow> (int \<times> 'a filesys_scheme) option" where
  "read_dentry_by_name fname dentry s = do {
     len \<leftarrow> strlen (mem s) fname;
     if len > 32 then Some (- 1, s)
     else let (r, m) = read_dentry_loop (bootblock_addr s) fname dentry [0..<NUM_MAX_DENTRIES] (mem s)
          in Some (r, s\<lparr>mem := m\<rparr>)
   }"

definition directory_read :: "u32 \<Rightarrow> int \<Rightarrow> u32 \<Rightarrow> int \<Rightarrow> 'a filesys_scheme \<Rightarrow> (int \<times> 'a filesys_scheme) option" where
  "directory_read local fd buf nbytes s =
     (if buf = 0 then Some (- 1, s)
      else
        (let (r, s) = read_dentry_by_index (ucast (num_files_read s)) local s
         in if r = 0 then
              (let s = s\<lparr>mem := strncpy (mem s) buf local FILENAME_LEN\<rparr>;
                   s = s\<lparr>mem := (mem s)(buf + 32 := 0)\<rparr>;
                   s = s\<lparr>num_files_read := num_files_read s + 1\<rparr>
               in do { n \<leftarrow> strlen (mem s) buf; Some (sint n, s) })
            else Some (- 1, s)))"

section \<open>The image as a directory and files\<close>

definition dir_name :: "memory \<Rightarrow> u32 \<Rightarrow> nat \<Rightarrow> u8 list" where
  "dir_name m bb k = name_of (rds m (direntry bb (of_nat k)) 32)"

definition file_length :: "memory \<Rightarrow> u32 \<Rightarrow> u32 \<Rightarrow> nat" where
  "file_length m bb n = unat (ld32 m (bb + 4096 * (n + 1)))"

definition file_block :: "memory \<Rightarrow> u32 \<Rightarrow> u32 \<Rightarrow> nat \<Rightarrow> u32" where
  "file_block m bb n j = ld32 m (bb + 4096 * (n + 1) + 4 + 4 * of_nat j)"

definition file_byte :: "memory \<Rightarrow> u32 \<Rightarrow> u32 \<Rightarrow> nat \<Rightarrow> u8" where
  "file_byte m bb n k =
     m (bb + 4096 * (bb_inode_count m bb + 1 + file_block m bb n (k div 4096)) + of_nat (k mod 4096))"

definition file_bytes :: "memory \<Rightarrow> u32 \<Rightarrow> u32 \<Rightarrow> u8 list" where
  "file_bytes m bb n = map (file_byte m bb n) [0..<file_length m bb n]"

definition fs_size :: "memory \<Rightarrow> u32 \<Rightarrow> nat" where
  "fs_size m bb = 4096 * (1 + unat (bb_inode_count m bb) + unat (ld32 m (bb + 8)))"

text \<open>A file is well formed when its inode exists, its length fits the 1023 block numbers of an
  inode, and the block numbers up to the one that holds the byte at the length are valid.\<close>

definition file_ok :: "memory \<Rightarrow> u32 \<Rightarrow> u32 \<Rightarrow> bool" where
  "file_ok m bb n \<longleftrightarrow> n < bb_inode_count m bb \<and> fs_size m bb \<le> 2 ^ 31 \<and>
     file_length m bb n < 1023 * 4096 \<and>
     (\<forall>j \<le> file_length m bb n div 4096. file_block m bb n j < ld32 m (bb + 8))"

lemma image_offset: "k < fs_size m bb \<Longrightarrow> bb + of_nat k \<in> span bb (fs_size m bb)"
  by (rule in_spanI)

lemma span_in_image:
  assumes "k + l \<le> fs_size m bb"
  shows "span (bb + of_nat k) l \<subseteq> span bb (fs_size m bb)"
proof
  fix x assume "x \<in> span (bb + of_nat k) l"
  then obtain i where i: "i < l" "x = bb + of_nat k + of_nat i" by (auto simp: in_span_iff)
  then have "x = bb + of_nat (k + i)" by (simp add: add.assoc)
  moreover have "k + i < fs_size m bb" using i assms by simp
  ultimately show "x \<in> span bb (fs_size m bb)" by (metis in_spanI)
qed

text \<open>Two memories that agree on the image hold the same file system.\<close>

lemma image_counts_cong:
  assumes "\<And>x. x \<in> span bb (fs_size m bb) \<Longrightarrow> m' x = m x"
  shows "bb_inode_count m' bb = bb_inode_count m bb" and "ld32 m' (bb + 8) = ld32 m (bb + 8)"
    and "fs_size m' bb = fs_size m bb"
proof -
  have sz: "4096 \<le> fs_size m bb" by (simp add: fs_size_def)
  have "span (bb + of_nat 4) 4 \<subseteq> span bb (fs_size m bb)" "span (bb + of_nat 8) 4 \<subseteq> span bb (fs_size m bb)"
    by (rule span_in_image; use sz in linarith)+
  then show "bb_inode_count m' bb = bb_inode_count m bb" "ld32 m' (bb + 8) = ld32 m (bb + 8)"
    unfolding bb_inode_count_def using assms by (auto intro!: ld32_disjoint)
  then show "fs_size m' bb = fs_size m bb" by (simp add: fs_size_def)
qed

lemma inode_span:
  assumes "n < bb_inode_count m bb" and "j + 4 \<le> 4096"
  shows "span (bb + 4096 * (n + 1) + of_nat j) 4 \<subseteq> span bb (fs_size m bb)"
proof -
  have n: "unat n < unat (bb_inode_count m bb)" using assms(1) by (simp add: word_less_nat_alt)
  have e: "bb + 4096 * (n + 1) + of_nat j = bb + of_nat (4096 * (unat n + 1) + j)" by (simp add: algebra_simps)
  have "4096 * (unat n + 1) + j + 4 \<le> fs_size m bb" using n assms(2) by (simp add: fs_size_def)
  then show ?thesis unfolding e by (rule span_in_image)
qed

lemma file_cong:
  assumes agree: "\<And>x. x \<in> span bb (fs_size m bb) \<Longrightarrow> m' x = m x" and n: "n < bb_inode_count m bb"
  shows "file_length m' bb n = file_length m bb n"
    and "j < 1023 \<Longrightarrow> file_block m' bb n j = file_block m bb n j"
proof -
  show "file_length m' bb n = file_length m bb n"
    using inode_span [OF n, of 0] agree by (auto simp: file_length_def intro!: arg_cong [of _ _ unat] ld32_disjoint)
  assume j: "j < 1023"
  have e: "bb + 4096 * (n + 1) + 4 + 4 * of_nat j = bb + 4096 * (n + 1) + of_nat (4 + 4 * j)" by simp
  have sp: "span (bb + 4096 * (n + 1) + 4 + 4 * of_nat j) 4 \<subseteq> span bb (fs_size m bb)"
    unfolding e by (rule inode_span [OF n]) (use j in simp)
  show "file_block m' bb n j = file_block m bb n j"
    unfolding file_block_def by (rule ld32_disjoint) (use sp agree in blast)
qed

lemma data_address:
  assumes "b < ld32 m (bb + 8)" and "r < 4096"
  shows "bb + 4096 * (bb_inode_count m bb + 1 + b) + of_nat r \<in> span bb (fs_size m bb)"
proof -
  have b: "unat b < unat (ld32 m (bb + 8))" using assms(1) by (simp add: word_less_nat_alt)
  have e: "bb + 4096 * (bb_inode_count m bb + 1 + b) + of_nat r =
      bb + of_nat (4096 * (unat (bb_inode_count m bb) + 1 + unat b) + r)"
    by (simp add: algebra_simps)
  have "4096 * (unat (bb_inode_count m bb) + 1 + unat b) + r < fs_size m bb"
    using b assms(2) by (simp add: fs_size_def)
  then show ?thesis unfolding e by (rule in_spanI)
qed

lemma file_byte_cong:
  assumes agree: "\<And>x. x \<in> span bb (fs_size m bb) \<Longrightarrow> m' x = m x" and n: "n < bb_inode_count m bb"
    and k: "k div 4096 < 1023" and b: "file_block m bb n (k div 4096) < ld32 m (bb + 8)"
  shows "file_byte m' bb n k = file_byte m bb n k"
  using data_address [OF b, of "k mod 4096"] agree
  by (simp add: file_byte_def file_cong(2) [OF agree n k] image_counts_cong(1) [OF agree])

lemma file_ok_cong:
  assumes agree: "\<And>x. x \<in> span bb (fs_size m bb) \<Longrightarrow> m' x = m x" and ok: "file_ok m bb n"
  shows "file_ok m' bb n"
proof -
  have n: "n < bb_inode_count m bb" using ok by (simp add: file_ok_def)
  have "j < 1023" if "j \<le> file_length m bb n div 4096" for j
    using that ok by (auto simp: file_ok_def)
  then show ?thesis
    using ok by (auto simp: file_ok_def image_counts_cong [OF agree] file_cong [OF agree n])
qed

lemma file_ok_block:
  assumes "file_ok m bb n" and "k \<le> file_length m bb n"
  shows "k div 4096 < 1023" and "file_block m bb n (k div 4096) < ld32 m (bb + 8)"
proof -
  have "k div 4096 \<le> file_length m bb n div 4096" using assms(2) by (rule div_le_mono)
  moreover have "file_length m bb n div 4096 < 1023" using assms(1) by (auto simp: file_ok_def)
  ultimately show "k div 4096 < 1023" "file_block m bb n (k div 4096) < ld32 m (bb + 8)"
    using assms(1) by (auto simp: file_ok_def)
qed

text \<open>The signed division of the counter, while it is below $2^{31}$.\<close>

lemma counter_div:
  assumes "k < 2 ^ 31"
  shows "word_of_int (sint (of_nat k :: u32) sdiv 4096) = (of_nat (k div 4096) :: u32)"
    and "word_of_int (sint (of_nat k :: u32) smod 4096) = (of_nat (k mod 4096) :: u32)"
proof -
  have "sint (of_nat k :: u32) sdiv 4096 = int (k div 4096)" "sint (of_nat k :: u32) smod 4096 = int (k mod 4096)"
    using sint_of_nat_less [OF assms]
    by (simp_all add: signed_divide_int_def signed_modulo_int_def sgn_if zdiv_int zmod_int)
  then show "word_of_int (sint (of_nat k :: u32) sdiv 4096) = (of_nat (k div 4096) :: u32)"
    "word_of_int (sint (of_nat k :: u32) smod 4096) = (of_nat (k mod 4096) :: u32)"
    by (simp_all only: of_int_of_nat_eq)
qed

text \<open>One turn of the loop on a well-formed file.\<close>

lemma read_data_loop_step:
  assumes ok: "file_ok m bb n" and k: "k \<le> file_length m bb n" and e: "k < e" "e < 2 ^ 31"
    and buf: "buf \<notin> span bb (fs_size m bb)"
  defines "m1 \<equiv> m(buf := file_byte m bb n k)"
  shows "read_data_loop bb (ld32 m (bb + 8)) (bb + 4096 * (n + 1)) off (of_nat e) (of_nat k) buf m =
     (if k = file_length m bb n then (of_nat k - off, m1)
      else read_data_loop bb (ld32 m (bb + 8)) (bb + 4096 * (n + 1)) off (of_nat e) (of_nat k + 1) (buf + 1) m1)"
proof -
  have agree: "x \<in> span bb (fs_size m bb) \<Longrightarrow> m1 x = m x" for x using buf by (auto simp: m1_def)
  have n: "n < bb_inode_count m bb" using ok by (simp add: file_ok_def)
  have lt: "(of_nat k :: u32) < of_nat e" using e by (simp add: word_less_nat_alt unat_of_nat)
  have len: "(of_nat k = ld32 m1 (bb + 4096 * (n + 1))) = (k = file_length m bb n)"
  proof -
    have "file_length m1 bb n = file_length m bb n" by (rule file_cong(1) [OF agree n])
    moreover have "(of_nat k = ld32 m1 (bb + 4096 * (n + 1))) = (k = file_length m1 bb n)"
      using e of_nat_eq_word32 [of k] by (simp add: file_length_def)
    ultimately show ?thesis by simp
  qed
  have kk: "k < 2 ^ 31" using e by simp
  have blk: "ld32 m (bb + 4096 * (n + 1) + 4 + 4 * of_nat (k div 4096)) = file_block m bb n (k div 4096)"
    by (simp add: file_block_def)
  have "\<not> ld32 m (bb + 8) \<le> file_block m bb n (k div 4096)"
    using file_ok_block(2) [OF ok k] by simp
  then show ?thesis
    using lt len unfolding m1_def file_byte_def
    by (subst read_data_loop.simps) (simp only: counter_div [OF kk] blk Let_def if_True if_False simp_thms)
qed

lemma read_data_loop_file:
  assumes "file_ok m bb n" and "k \<le> file_length m bb n" and "k \<le> e" "e < 2 ^ 31"
    and "span buf (e - k) \<inter> span bb (fs_size m bb) = {}"
  shows "read_data_loop bb (ld32 m (bb + 8)) (bb + 4096 * (n + 1)) off (of_nat e) (of_nat k) buf m =
     (of_nat (min e (file_length m bb n)) - off,
      wrs m buf (map (file_byte m bb n) [k..<min e (Suc (file_length m bb n))]))"
  using assms
proof (induction "e - k" arbitrary: k buf m)
  case 0
  then show ?case by (subst read_data_loop.simps) simp
next
  case (Suc d)
  let ?L = "file_length m bb n" and ?m = "m(buf := file_byte m bb n k)"
  have ke: "k < e" using Suc.hyps(2) by simp
  have sp: "span buf (e - k) = insert buf (span (buf + 1) (e - Suc k))"
    using Suc.hyps(2) span_Cons [of buf d] by (simp add: Suc_diff_Suc [OF ke, symmetric] del: Suc_diff_Suc)
  then have buf: "buf \<notin> span bb (fs_size m bb)" using Suc.prems(5) by auto
  then have agree: "x \<in> span bb (fs_size m bb) \<Longrightarrow> ?m x = m x" for x by auto
  have n: "n < bb_inode_count m bb" using Suc.prems(1) by (simp add: file_ok_def)
  note step = read_data_loop_step [OF Suc.prems(1,2) ke Suc.prems(4) buf, of off]
  show ?case
  proof (cases "k = ?L")
    case True
    with ke have "min e (Suc ?L) = Suc ?L" "min e ?L = ?L" by simp_all
    with True show ?thesis using step by simp
  next
    case False
    then have kL: "Suc k \<le> ?L" using Suc.prems(2) by simp
    have len: "file_length ?m bb n = ?L" by (rule file_cong(1) [OF agree n])
    have bytes: "map (file_byte ?m bb n) [Suc k..<min e (Suc ?L)] = map (file_byte m bb n) [Suc k..<min e (Suc ?L)]"
      using file_ok_block [OF Suc.prems(1)] by (auto intro!: file_byte_cong [OF agree n])
    have "read_data_loop bb (ld32 ?m (bb + 8)) (bb + 4096 * (n + 1)) off (of_nat e) (of_nat (Suc k)) (buf + 1) ?m =
       (of_nat (min e (file_length ?m bb n)) - off,
        wrs ?m (buf + 1) (map (file_byte ?m bb n) [Suc k..<min e (Suc (file_length ?m bb n))]))"
    proof (rule Suc.hyps(1))
      show "file_ok ?m bb n" by (rule file_ok_cong [OF agree Suc.prems(1)])
      show "span (buf + 1) (e - Suc k) \<inter> span bb (fs_size ?m bb) = {}"
        using Suc.prems(5) sp by (simp add: image_counts_cong(3) [OF agree])
    qed (use Suc.hyps(2) kL len ke Suc.prems(4) in auto)
    moreover have "[k..<min e (Suc ?L)] = k # [Suc k..<min e (Suc ?L)]"
      using ke Suc.prems(2) by (intro upt_conv_Cons) simp
    ultimately show ?thesis
      using step False bytes by (simp add: len image_counts_cong(2) [OF agree] add.commute)
  qed
qed

text \<open>The number of bytes a read of \<open>len\<close> bytes at \<open>off\<close> delivers.\<close>

definition read_count :: "memory \<Rightarrow> u32 \<Rightarrow> u32 \<Rightarrow> nat \<Rightarrow> nat \<Rightarrow> nat" where
  "read_count m bb n off len = min len (file_length m bb n - off)"

definition mounted :: "'a filesys_scheme \<Rightarrow> bool" where
  "mounted s \<longleftrightarrow> data_count s = ld32 (mem s) (bootblock_addr s + 8)"

lemma init_filesys_mounted: "mounted (init_filesys start s)"
  by (simp add: mounted_def init_filesys_def)

text \<open>The bytes \<open>read_data\<close> stores: the ones it reports and, at the end of the file, one more.\<close>

definition read_stores :: "memory \<Rightarrow> u32 \<Rightarrow> u32 \<Rightarrow> nat \<Rightarrow> nat \<Rightarrow> u8 list" where
  "read_stores m bb n off len = map (file_byte m bb n) [off..<min (off + len) (Suc (file_length m bb n))]"

lemma length_read_stores:
  "off \<le> file_length m bb n \<Longrightarrow> length (read_stores m bb n off len) = min len (Suc (file_length m bb n) - off)"
  by (auto simp: read_stores_def)

lemma take_read_stores:
  "off \<le> file_length m bb n \<Longrightarrow> take (read_count m bb n off len) (read_stores m bb n off len) =
     take len (drop off (file_bytes m bb n))"
  by (rule nth_equalityI) (auto simp: read_count_def read_stores_def file_bytes_def)

lemma read_data_ok:
  fixes s :: "'a filesys_scheme"
  defines "m \<equiv> mem s" and "bb \<equiv> bootblock_addr s"
  assumes ok: "file_ok m bb n" and mt: "mounted s"
    and off: "unat off \<le> file_length m bb n" and len: "unat off + unat len < 2 ^ 31"
    and disj: "span buf (unat len) \<inter> span bb (fs_size m bb) = {}"
  shows "read_data n off buf len s =
     (int (read_count m bb n (unat off) (unat len)), s\<lparr>mem := wrs m buf (read_stores m bb n (unat off) (unat len))\<rparr>)"
proof -
  let ?e = "unat off + unat len" and ?L = "file_length m bb n"
  have n: "\<not> bb_inode_count m bb \<le> n" using ok by (auto simp: file_ok_def)
  have loop: "read_data_loop bb (ld32 m (bb + 8)) (bb + 4096 * (n + 1)) off (off + len) off buf m =
     (of_nat (min ?e ?L) - off, wrs m buf (read_stores m bb n (unat off) (unat len)))"
    using read_data_loop_file [OF ok off, of ?e buf off] len disj
    unfolding read_stores_def of_nat_add of_nat_unat ucast_id by simp
  have "(of_nat (min ?e ?L) - off :: u32) = of_nat (min ?e ?L - unat off)"
    using off by (subst of_nat_diff) auto
  moreover have "sint (of_nat (min ?e ?L - unat off) :: u32) = int (read_count m bb n (unat off) (unat len))"
  proof -
    have "min ?e ?L - unat off = read_count m bb n (unat off) (unat len)"
      using off by (auto simp: read_count_def min_def)
    then show ?thesis using len by (subst sint_of_nat_less) (auto simp: read_count_def)
  qed
  ultimately have "sint (of_nat (min ?e ?L) - off :: u32) = int (read_count m bb n (unat off) (unat len))"
    by metis
  with loop show ?thesis
    using n mt unfolding read_data_def m_def [symmetric] bb_def [symmetric] mounted_def by simp
qed

section \<open>Properties of reading files\<close>

text \<open>C14: Reading a well-formed file at a position not past its end returns the number of bytes
  asked for or left, whichever is smaller, and puts exactly those bytes of the file, following
  its block list, into the buffer. Nothing outside the buffer changes, and in the buffer at
  most one byte past the reported ones.\<close>

theorem read_data_returns_file_bytes:
  fixes s :: "'a filesys_scheme"
  assumes "file_ok (mem s) (bootblock_addr s) n" and "mounted s"
    and "unat off \<le> file_length (mem s) (bootblock_addr s) n" and "unat off + unat len < 2 ^ 31"
    and "span buf (unat len) \<inter> span (bootblock_addr s) (fs_size (mem s) (bootblock_addr s)) = {}"
  defines "c \<equiv> read_count (mem s) (bootblock_addr s) n (unat off) (unat len)"
  shows "\<exists>m'. read_data n off buf len s = (int c, s\<lparr>mem := m'\<rparr>) \<and>
     rds m' buf c = take (unat len) (drop (unat off) (file_bytes (mem s) (bootblock_addr s) n)) \<and>
     (\<forall>x. x \<notin> span buf (min (unat len) (Suc c)) \<longrightarrow> m' x = mem s x)"
proof -
  let ?bs = "read_stores (mem s) (bootblock_addr s) n (unat off) (unat len)"
  have l: "length ?bs = min (unat len) (Suc (file_length (mem s) (bootblock_addr s) n) - unat off)"
    by (rule length_read_stores [OF assms(3)])
  then have cl: "c \<le> length ?bs" "length ?bs \<le> min (unat len) (Suc c)" and short: "length ?bs < 2 ^ 31"
    using assms(3,4) by (auto simp: c_def read_count_def)
  have "rds (wrs (mem s) buf ?bs) buf c = take c (rds (wrs (mem s) buf ?bs) buf (length ?bs))"
    using cl(1) by (intro nth_equalityI) auto
  also have "\<dots> = take (unat len) (drop (unat off) (file_bytes (mem s) (bootblock_addr s) n))"
    using short take_read_stores [OF assms(3), of "unat len"] by (simp add: rds_wrs c_def)
  finally have "rds (wrs (mem s) buf ?bs) buf c = \<dots>" .
  moreover have "\<forall>x. x \<notin> span buf (min (unat len) (Suc c)) \<longrightarrow> wrs (mem s) buf ?bs x = mem s x"
    using span_mono [OF cl(2)] wrs_other by blast
  ultimately show ?thesis using read_data_ok [OF assms(1-5)] by (auto simp: c_def)
qed

text \<open>A small image at 0x1000: one inode of length 5 whose only block holds \<open>hello\<close>, and the
  directory entries \<open>.\<close> (type 1) and \<open>a\<close> (type 2, inode 0).\<close>

definition demo_mem :: memory where
  "demo_mem a =
     (if a = 0x1000 then 2 else if a = 0x1004 then 1 else if a = 0x1008 then 1
      else if a = 0x1040 then 46 else if a = 0x1060 then 1
      else if a = 0x1080 then 97 else if a = 0x10A0 then 2
      else if a = 0x2000 then 5
      else if a = 0x3000 then 104 else if a = 0x3001 then 101 else if a = 0x3002 then 108
      else if a = 0x3003 then 108 else if a = 0x3004 then 111
      else if a = 0x5000 then 97 else 0)"

definition demo_fs :: filesys where
  "demo_fs = \<lparr>mem = demo_mem, io = [], dev = (\<lambda>h p. 0), iflag = False,
     screen_x = 0, screen_y = 0, master_mask = 0xFF, slave_mask = 0xFF, interrupt_rtc = 0, freq_value = 0,
     page_directory = (\<lambda>_. 0), page_table = (\<lambda>_. 0), vidmap_pt = (\<lambda>_. 0),
     page_directory_addr = 0x500000, page_table_addr = 0x501000, vidmap_pt_addr = 0x502000,
     cr0 = 1, cr3 = 0, cr4 = 0, user_frame = 0, frames = (\<lambda>f off. 0),
     idt_table = (\<lambda>_. \<lparr>offset_15_00 = 0, seg_selector = 0, reserved4 = 0, reserved3 = 0, reserved2 = 0,
       reserved1 = 0, size = 0, reserved0 = 0, dpl = 0, present = 0, offset_31_16 = 0\<rparr>),
     dir_count = 2, inode_count = 1, data_count = 1, bootblock_addr = 0x1000, num_files_read = 0,
     inodes = 0x2000, esp = 0x7FFF00\<rparr>"

lemma demo_fs_simps [simp]:
  "mem demo_fs = demo_mem" "bootblock_addr demo_fs = 0x1000" "data_count demo_fs = 1"
  "num_files_read demo_fs = 0" "esp demo_fs = 0x7FFF00"
  by (simp_all add: demo_fs_def)

lemma demo_file:
  "bb_inode_count demo_mem 0x1000 = 1" "file_length demo_mem 0x1000 0 = 5" "fs_size demo_mem 0x1000 = 12288"
  "file_block demo_mem 0x1000 0 0 = 0" "ld32 demo_mem 0x1008 = 1"
  by (simp_all add: bb_inode_count_def file_length_def fs_size_def file_block_def ld32_def demo_mem_def)

lemma demo_file_ok: "file_ok demo_mem 0x1000 0" "mounted demo_fs"
  by (simp_all add: file_ok_def mounted_def demo_file)

lemma demo_file_bytes: "file_bytes demo_mem 0x1000 0 = [104, 101, 108, 108, 111]"
  by (simp add: file_bytes_def demo_file file_byte_def upt_rec demo_mem_def)

lemma demo_disjoint: "n \<le> 1000 \<Longrightarrow> span 0x8000 n \<inter> span 0x1000 12288 = {}"
  by (rule span_disjoint_above) simp_all

theorem read_data_returns_file_bytes_witness:
  "fst (read_data 0 1 0x8000 100 demo_fs) = 4 \<and>
   rds (mem (snd (read_data 0 1 0x8000 100 demo_fs))) 0x8000 4 = [101, 108, 108, 111]"
  using read_data_returns_file_bytes [where s = demo_fs and n = 0 and off = 1 and len = 100 and buf = "0x8000"]
    demo_file_ok demo_disjoint [of 100]
  by (auto simp: demo_file demo_file_bytes read_count_def)

text \<open>When the length of a file is a multiple of the block size and the next block number in
  its inode is not a valid block, a read at the end of the file returns -1, as for an error,
  where other files report their end by 0.\<close>

theorem read_data_block_multiple_short:
  fixes s :: "'a filesys_scheme"
  assumes "n < bb_inode_count (mem s) (bootblock_addr s)"
    and "file_length (mem s) (bootblock_addr s) n = 4096 * k" and "4096 * k < 2 ^ 31"
    and "file_block (mem s) (bootblock_addr s) n k \<ge> data_count s"
    and "off = of_nat (4096 * k)" and "0 < len" and "4096 * k + unat len < 2 ^ 31"
  shows "read_data n off buf len s = (- 1, s)"
proof -
  let ?bb = "bootblock_addr s"
  have lt: "(of_nat (4096 * k) :: u32) < of_nat (4096 * k) + len"
  proof -
    have "unat (of_nat (4096 * k) :: u32) = 4096 * k" using assms(3) by (intro unat_of_nat32) simp
    moreover from this have "unat (of_nat (4096 * k) + len) = 4096 * k + unat len"
      using assms(7) by (subst unat_word_ariths) simp
    moreover have "0 < unat len" using assms(6) by (simp add: word_less_nat_alt)
    ultimately show ?thesis by (simp add: word_less_nat_alt)
  qed
  have blk: "ld32 (mem s) (?bb + 4096 * (n + 1) + 4 + 4 * of_nat (4096 * k div 4096)) \<ge> data_count s"
    using assms(4) by (simp add: file_block_def)
  have "read_data_loop ?bb (data_count s) (?bb + 4096 * (n + 1)) off (off + len) off buf (mem s) = (- 1, mem s)"
    unfolding assms(5) using lt blk
    by (subst read_data_loop.simps) (simp only: counter_div [OF assms(3)] Let_def if_True, simp)
  moreover have "\<not> bb_inode_count (mem s) ?bb \<le> n" using assms(1) by auto
  ultimately show ?thesis unfolding read_data_def by simp
qed

definition demo_fs_short :: filesys where
  "demo_fs_short = demo_fs\<lparr>mem := demo_mem(0x2000 := 0, 0x2004 := 7)\<rparr>"

theorem read_data_block_multiple_short_witness:
  "read_data 0 0 0x8000 16 demo_fs_short = (- 1, demo_fs_short)"
proof -
  have "bb_inode_count (mem demo_fs_short) (bootblock_addr demo_fs_short) = 1"
    "file_length (mem demo_fs_short) (bootblock_addr demo_fs_short) 0 = 4096 * 0"
    "file_block (mem demo_fs_short) (bootblock_addr demo_fs_short) 0 0 = 7" "data_count demo_fs_short = 1"
    by (simp_all add: demo_fs_short_def bb_inode_count_def file_length_def file_block_def ld32_def demo_mem_def demo_fs_def)
  then show ?thesis
    using read_data_block_multiple_short [where s = demo_fs_short and n = 0 and k = 0 and off = 0 and len = 16] by simp
qed

subsection \<open>Reading through a file descriptor\<close>

text \<open>What a program that reads a file in pieces relies on: each read delivers the next bytes of
  the content and moves the position past them. Then the pieces put together are the content.\<close>

fun rd_many :: "('s \<Rightarrow> u8 list \<times> 's) \<Rightarrow> nat \<Rightarrow> 's \<Rightarrow> u8 list \<times> 's" where
  "rd_many rd 0 s = ([], s)"
| "rd_many rd (Suc k) s = (let (bs, s') = rd s; (cs, s'') = rd_many rd k s' in (bs @ cs, s''))"

locale chunk_reader =
  fixes rd :: "'s \<Rightarrow> u8 list \<times> 's"
    and pos :: "'s \<Rightarrow> nat"
    and content :: "'s \<Rightarrow> u8 list"
    and inv :: "'s \<Rightarrow> bool"
    and chunk :: nat
  assumes rd_law: "inv s \<Longrightarrow> rd s = (bs, s') \<Longrightarrow>
      inv s' \<and> bs = take chunk (drop (pos s) (content s)) \<and> pos s' = pos s + length bs \<and> content s' = content s"
begin

lemma rd_many_content:
  "inv s \<Longrightarrow> rd_many rd k s = (bs, s') \<Longrightarrow> inv s' \<and> bs = take (k * chunk) (drop (pos s) (content s)) \<and>
     pos s' = pos s + length bs \<and> content s' = content s"
proof (induction k arbitrary: s bs s')
  case (Suc k)
  obtain b s1 where r: "rd s = (b, s1)" by (cases "rd s")
  obtain c s2 where r2: "rd_many rd k s1 = (c, s2)" by (cases "rd_many rd k s1")
  from Suc.prems r r2 have e: "bs = b @ c" "s' = s2" by auto
  from rd_law [OF Suc.prems(1) r] have 1: "inv s1" "b = take chunk (drop (pos s) (content s))"
    "pos s1 = pos s + length b" "content s1 = content s" by auto
  from Suc.IH [OF 1(1) r2] have 2: "inv s2" "c = take (k * chunk) (drop (pos s1) (content s1))"
    "pos s2 = pos s1 + length c" "content s2 = content s1" by auto
  have d: "drop (pos s1) (content s1) = drop (length b) (drop (pos s) (content s))" by (simp add: 1 add.commute)
  have app: "take chunk xs @ take (k * chunk) (drop (length (take chunk xs)) xs) = take (Suc k * chunk) xs" for xs :: "u8 list"
    by (simp add: min_def take_add)
  have "b @ c = take (Suc k * chunk) (drop (pos s) (content s))"
    unfolding 2(2) d unfolding 1(2) by (rule app)
  moreover have "pos s' = pos s + length bs" using e 1(3) 2(3) by simp
  ultimately show ?case using e 1(1,4) 2(1,4) by metis
qed simp

lemma rd_many_all:
  assumes "inv s" and "length (content s) \<le> pos s + k * chunk"
  shows "fst (rd_many rd k s) = drop (pos s) (content s) \<and> fst (rd (snd (rd_many rd k s))) = []"
proof -
  obtain bs s' where r: "rd_many rd k s = (bs, s')" by (cases "rd_many rd k s")
  obtain c s2 where r2: "rd s' = (c, s2)" by (cases "rd s'")
  from rd_many_content [OF assms(1) r] have 1: "inv s'" "bs = drop (pos s) (content s)"
    "pos s' = pos s + length bs" "content s' = content s" using assms(2) by auto
  then have "length (content s') \<le> pos s'" by simp
  with rd_law [OF 1(1) r2] show ?thesis by (simp add: r r2 1)
qed

end

definition file_chunk :: "int \<Rightarrow> u32 \<Rightarrow> int \<Rightarrow> 'a filesys_scheme \<Rightarrow> u8 list \<times> 'a filesys_scheme" where
  "file_chunk fd buf nbytes s = (let (r, s') = file_read fd buf nbytes s in (rds (mem s') buf (nat r), s'))"

definition fd_inode :: "int \<Rightarrow> 'a filesys_scheme \<Rightarrow> u32" where
  "fd_inode fd s = ld32 (mem s) (pcb_inode (get_pcb s) fd)"

definition fd_pos :: "int \<Rightarrow> 'a filesys_scheme \<Rightarrow> nat" where
  "fd_pos fd s = unat (ld32 (mem s) (pcb_file_pos (get_pcb s) fd))"

definition fd_content :: "int \<Rightarrow> 'a filesys_scheme \<Rightarrow> u8 list" where
  "fd_content fd s = file_bytes (mem s) (bootblock_addr s) (fd_inode fd s)"

text \<open>A descriptor open on a well-formed file, and a buffer apart from the image and from the
  descriptor table.\<close>

definition fd_reading :: "int \<Rightarrow> u32 \<Rightarrow> int \<Rightarrow> 'a filesys_scheme \<Rightarrow> bool" where
  "fd_reading fd buf nbytes s \<longleftrightarrow> 0 \<le> fd \<and> fd < 8 \<and> 0 \<le> nbytes \<and> nbytes < 2 ^ 30 \<and> mounted s \<and>
     file_ok (mem s) (bootblock_addr s) (fd_inode fd s) \<and>
     fd_pos fd s \<le> file_length (mem s) (bootblock_addr s) (fd_inode fd s) \<and>
     span buf (nat nbytes) \<inter> span (bootblock_addr s) (fs_size (mem s) (bootblock_addr s)) = {} \<and>
     span (get_pcb s) 128 \<inter> span (bootblock_addr s) (fs_size (mem s) (bootblock_addr s)) = {} \<and>
     span buf (nat nbytes) \<inter> span (get_pcb s) 128 = {}"

lemma pcb_field_span:
  assumes "0 \<le> fd" and "fd < 8" and "k \<le> 12"
  shows "span (p + 16 * word_of_int fd + of_nat k) 4 \<subseteq> span p 128"
proof
  fix x assume "x \<in> span (p + 16 * word_of_int fd + of_nat k) 4"
  then obtain i where i: "i < 4" "x = p + 16 * word_of_int fd + of_nat k + of_nat i" by (auto simp: in_span_iff)
  have "(word_of_int fd :: u32) = of_nat (nat fd)" using assms(1) by simp
  then have "x = p + of_nat (16 * nat fd + k + i)" by (simp only: i of_nat_add of_nat_mult of_nat_numeral add.assoc)
  moreover have "16 * nat fd + k + i < 128" using assms i by linarith
  ultimately show "x \<in> span p 128" by (metis in_spanI)
qed

lemma pcb_fds_spans:
  assumes "0 \<le> fd" and "fd < 8"
  shows "span (pcb_inode p fd) 4 \<subseteq> span p 128" "span (pcb_file_pos p fd) 4 \<subseteq> span p 128"
  using pcb_field_span [OF assms, of 4 p] pcb_field_span [OF assms, of 8 p]
  by (simp_all add: pcb_inode_def pcb_file_pos_def)

text \<open>A load and a store four or more bytes apart do not interfere.\<close>

lemma ld32_st32_apart [mem_simps]:
  assumes "4 \<le> x - y" and "4 \<le> y - (x :: u32)"
  shows "ld32 (st32 m x v) y = ld32 m y"
proof (rule ld32_disjoint)
  fix a assume "a \<in> span y 4"
  then have "unat (a - y) < 4" using in_span_unat [of 4 a y] by simp
  then have d: "a - y < 4" by (simp add: word_less_nat_alt)
  have "\<not> a - x < 4"
  proof
    assume "a - x < 4"
    moreover have "x - y = (a - y) - (a - x)" "y - x = (a - x) - (a - y)" by simp_all
    moreover have "u - w < 4 \<or> w - u < 4" if "u < 4" "w < 4" for u w :: u32
    proof (cases "u \<le> w")
      case True
      then have "w - u \<le> w" by (rule word_sub_le)
      with that show ?thesis by auto
    next
      case False
      then have "u - w \<le> u" by (intro word_sub_le) auto
      with that show ?thesis by auto
    qed
    ultimately show False using assms d by (metis leD)
  qed
  then have "a \<notin> span x 4" using in_span_unat [of 4 a x] by (simp add: word_less_nat_alt)
  then show "st32 m x v a = m a" by (rule st32_other)
qed

lemma file_read_ok:
  assumes inv: "fd_reading fd buf nbytes s"
  defines "c \<equiv> read_count (mem s) (bootblock_addr s) (fd_inode fd s) (fd_pos fd s) (nat nbytes)"
  shows "\<exists>m'. file_read fd buf nbytes s = (int c, s\<lparr>mem := m'\<rparr>) \<and>
     rds m' buf c = take (nat nbytes) (drop (fd_pos fd s) (fd_content fd s)) \<and>
     (\<forall>x \<in> span (bootblock_addr s) (fs_size (mem s) (bootblock_addr s)). m' x = mem s x) \<and>
     ld32 m' (pcb_inode (get_pcb s) fd) = fd_inode fd s \<and>
     ld32 m' (pcb_file_pos (get_pcb s) fd) = of_nat (fd_pos fd s + c) \<and>
     (\<forall>x. x \<notin> span buf (nat nbytes) \<and> x \<notin> span (pcb_file_pos (get_pcb s) fd) 4 \<longrightarrow> m' x = mem s x)"
proof -
  let ?p = "get_pcb s" and ?bb = "bootblock_addr s" and ?len = "word_of_int nbytes :: u32"
  let ?off = "ld32 (mem s) (pcb_file_pos ?p fd)"
  let ?bs = "read_stores (mem s) ?bb (fd_inode fd s) (fd_pos fd s) (nat nbytes)"
  let ?m1 = "wrs (mem s) buf ?bs"
  let ?m2 = "st32 ?m1 (pcb_file_pos ?p fd) (?off + of_nat c)"
  have fd: "0 \<le> fd" "fd < 8" and nb: "0 \<le> nbytes" "nbytes < 2 ^ 30" and ok: "file_ok (mem s) ?bb (fd_inode fd s)"
    and le: "unat ?off \<le> file_length (mem s) ?bb (fd_inode fd s)" and mt: "mounted s"
    and disj: "span buf (nat nbytes) \<inter> span ?bb (fs_size (mem s) ?bb) = {}"
      "span ?p 128 \<inter> span ?bb (fs_size (mem s) ?bb) = {}" "span buf (nat nbytes) \<inter> span ?p 128 = {}"
    using inv by (auto simp: fd_reading_def fd_pos_def)
  have L: "file_length (mem s) ?bb (fd_inode fd s) < 1023 * 4096" using ok by (simp add: file_ok_def)
  have ul: "unat ?len = nat nbytes" using nb unat_of_nat32 [of "nat nbytes"] by simp
  have rd: "read_data (fd_inode fd s) ?off buf ?len s = (int c, s\<lparr>mem := ?m1\<rparr>)"
    using read_data_ok [OF ok mt le, of ?len buf] le L nb disj(1) by (simp add: ul c_def fd_pos_def)
  have lbs: "length ?bs \<le> nat nbytes" "c \<le> length ?bs" "length ?bs < 2 ^ 31"
    using length_read_stores [of "fd_pos fd s" "mem s" ?bb "fd_inode fd s" "nat nbytes"] le nb
    by (auto simp: c_def read_count_def fd_pos_def)
  have sub: "span buf (length ?bs) \<subseteq> span buf (nat nbytes)" by (rule span_mono [OF lbs(1)])
  note spans = pcb_fds_spans [OF fd, of ?p]
  have "rds ?m2 buf c = rds ?m1 buf c"
    unfolding st32_wrs using spans disj(3) span_mono [of c "nat nbytes" buf] lbs
    by (intro rds_wrs_disjoint) (auto simp: c_def)
  also have "\<dots> = take c (rds ?m1 buf (length ?bs))" using lbs(2) by (intro nth_equalityI) auto
  also have "\<dots> = take (nat nbytes) (drop (fd_pos fd s) (fd_content fd s))"
    using lbs(3) take_read_stores [of "fd_pos fd s" "mem s" ?bb "fd_inode fd s" "nat nbytes"] le
    by (simp add: rds_wrs c_def fd_content_def fd_pos_def)
  finally have 1: "rds ?m2 buf c = \<dots>" .
  have 2: "?m2 x = mem s x" if "x \<in> span ?bb (fs_size (mem s) ?bb)" for x
  proof -
    have "x \<notin> span (pcb_file_pos ?p fd) 4" "x \<notin> span buf (length ?bs)"
      using that spans(2) disj(1,2) sub by blast+
    then show ?thesis by (simp add: st32_other wrs_other)
  qed
  have "ld32 ?m1 (pcb_inode ?p fd) = ld32 (mem s) (pcb_inode ?p fd)"
    using spans(1) disj(3) sub by (intro ld32_disjoint wrs_other) blast
  then have 3: "ld32 ?m2 (pcb_inode ?p fd) = fd_inode fd s"
    by (simp add: ld32_st32_apart pcb_inode_def pcb_file_pos_def fd_inode_def)
  have 4: "ld32 ?m2 (pcb_file_pos ?p fd) = of_nat (fd_pos fd s + c)" by (simp add: fd_pos_def)
  have 5: "?m2 x = mem s x" if "x \<notin> span buf (nat nbytes)" "x \<notin> span (pcb_file_pos ?p fd) 4" for x
  proof -
    have "x \<notin> span buf (length ?bs)" using that(1) sub by blast
    with that(2) show ?thesis by (simp add: st32_other wrs_other)
  qed
  have "file_read fd buf nbytes s = (int c, s\<lparr>mem := ?m2\<rparr>)"
    using rd by (simp add: file_read_def Let_def fd_inode_def)
  with 1 2 3 4 5 show ?thesis by blast
qed

lemma file_chunk_law:
  assumes inv: "fd_reading fd buf nbytes s" and rd: "file_chunk fd buf nbytes s = (bs, s')"
  shows "fd_reading fd buf nbytes s' \<and> bs = take (nat nbytes) (drop (fd_pos fd s) (fd_content fd s)) \<and>
     fd_pos fd s' = fd_pos fd s + length bs \<and> fd_content fd s' = fd_content fd s"
proof -
  let ?bb = "bootblock_addr s" and ?n = "fd_inode fd s"
  let ?c = "read_count (mem s) ?bb ?n (fd_pos fd s) (nat nbytes)"
  obtain m' where m': "file_read fd buf nbytes s = (int ?c, s\<lparr>mem := m'\<rparr>)"
    "rds m' buf ?c = take (nat nbytes) (drop (fd_pos fd s) (fd_content fd s))"
    "\<And>x. x \<in> span ?bb (fs_size (mem s) ?bb) \<Longrightarrow> m' x = mem s x"
    "ld32 m' (pcb_inode (get_pcb s) fd) = ?n" "ld32 m' (pcb_file_pos (get_pcb s) fd) = of_nat (fd_pos fd s + ?c)"
    using file_read_ok [OF inv] by blast
  from rd m'(1) have s': "s' = s\<lparr>mem := m'\<rparr>" and bs: "bs = rds m' buf ?c" by (auto simp: file_chunk_def)
  have ok: "file_ok (mem s) ?bb ?n" and le: "fd_pos fd s \<le> file_length (mem s) ?bb ?n"
    using inv by (auto simp: fd_reading_def)
  then have n: "?n < bb_inode_count (mem s) ?bb" and L: "file_length (mem s) ?bb ?n < 1023 * 4096"
    by (auto simp: file_ok_def)
  have p: "get_pcb s' = get_pcb s" "bootblock_addr s' = ?bb" "fd_inode fd s' = ?n"
    using m'(4) by (simp_all add: s' get_pcb_def fd_inode_def)
  have c: "?c \<le> file_length (mem s) ?bb ?n - fd_pos fd s" by (simp add: read_count_def)
  then have "fd_pos fd s + ?c < 2 ^ 32" using le L by simp
  then have pos: "fd_pos fd s' = fd_pos fd s + ?c"
    using m'(5) unat_of_nat32 [of "fd_pos fd s + ?c"] by (simp add: fd_pos_def p(1)) (simp add: s')
  have len: "file_length m' ?bb ?n = file_length (mem s) ?bb ?n" by (rule file_cong(1) [OF m'(3) n])
  have "file_byte m' ?bb ?n k = file_byte (mem s) ?bb ?n k" if "k < file_length (mem s) ?bb ?n" for k
    using file_ok_block [OF ok, of k] that by (intro file_byte_cong [OF m'(3) n]) auto
  then have cont: "fd_content fd s' = fd_content fd s"
    unfolding fd_content_def p by (simp add: file_bytes_def len s')
  note same = image_counts_cong [OF m'(3)]
  have "fd_reading fd buf nbytes s'"
    using inv file_ok_cong [OF m'(3) ok] c le pos unfolding fd_reading_def p
    by (simp add: s' len same mounted_def)
  moreover have "length bs = ?c" using bs by simp
  ultimately show ?thesis using pos cont m'(2) bs by metis
qed

interpretation file_rd: chunk_reader "file_chunk fd buf nbytes" "fd_pos fd" "fd_content fd" "fd_reading fd buf nbytes" "nat nbytes"
  for fd buf nbytes
  by unfold_locales (rule file_chunk_law)

text \<open>C15: A program that reads an open file in pieces of any size gets the file: after \<open>k\<close> calls of
  \<open>file_read\<close> with the same buffer, the pieces put together are the bytes of the file from the
  position where the first call found it, and once they cover the rest of the file the next
  call delivers nothing, so a loop that stops at an empty read has read the file to its end.\<close>

theorem file_read_delivers_file:
  assumes "fd_reading fd buf nbytes s"
  shows "fst (rd_many (file_chunk fd buf nbytes) k s) = take (k * nat nbytes) (drop (fd_pos fd s) (fd_content fd s)) \<and>
     (length (fd_content fd s) \<le> fd_pos fd s + k * nat nbytes \<longrightarrow>
        fst (rd_many (file_chunk fd buf nbytes) k s) = drop (fd_pos fd s) (fd_content fd s) \<and>
        fst (file_chunk fd buf nbytes (snd (rd_many (file_chunk fd buf nbytes) k s))) = [])"
  using file_rd.rd_many_content [OF assms, of k "fst (rd_many (file_chunk fd buf nbytes) k s)"
      "snd (rd_many (file_chunk fd buf nbytes) k s)"] file_rd.rd_many_all [OF assms, of k]
  by simp

theorem file_read_delivers_file_witness:
  "fst (rd_many (file_chunk 2 0x8000 2) 3 demo_fs) = [104, 101, 108, 108, 111]"
proof -
  have p: "get_pcb demo_fs = 0x7FE000" by (simp add: get_pcb_def)
  have z: "ld32 demo_mem 0x7FE024 = 0" "ld32 demo_mem 0x7FE028 = 0" by (simp_all add: ld32_def demo_mem_def)
  then have f: "fd_inode 2 demo_fs = 0" "fd_pos 2 demo_fs = 0"
    by (simp_all add: fd_inode_def fd_pos_def p pcb_inode_def pcb_file_pos_def)
  have "span (0x7FE000 :: u32) 128 \<inter> span 0x1000 12288 = {}" by (rule span_disjoint_above) simp_all
  moreover have "span (0x8000 :: u32) 2 \<inter> span 0x7FE000 128 = {}" by (rule span_disjoint_below) simp_all
  ultimately have "fd_reading 2 0x8000 2 demo_fs"
    using demo_file_ok demo_disjoint [of 2] by (simp add: fd_reading_def f p demo_file)
  from file_read_delivers_file [OF this, of 3] show ?thesis
    by (simp add: f fd_content_def demo_file_bytes)
qed

section \<open>Directory entries\<close>

lemma unat_32 [simp]: "unat (32 :: u32) = 32"
  by simp

lemma st32_outside: "x \<notin> span a n \<Longrightarrow> span (a + k) 4 \<subseteq> span a n \<Longrightarrow> st32 m (a + k) v x = m x"
  by (rule st32_other) blast

lemma sub_span:
  assumes "k + l \<le> n"
  shows "span (a + of_nat k) l \<subseteq> span a n"
proof
  fix x assume "x \<in> span (a + of_nat k) l"
  then obtain i where "i < l" "x = a + of_nat (k + i)" by (auto simp: in_span_iff add.assoc)
  moreover from this assms have "k + i < n" by simp
  ultimately show "x \<in> span a n" by (metis in_spanI)
qed

lemma span_disjoint_offset:
  assumes "n \<le> k" and "k + l \<le> 2 ^ 32"
  shows "span a n \<inter> span (a + of_nat k) l = {}"
proof -
  have "(of_nat i :: u32) \<noteq> of_nat (k + j)" if "i < n" "j < l" for i j
    using that assms by (subst word_of_nat_eq_iff) auto
  then show ?thesis by (auto simp: in_span_iff add.assoc)
qed

lemma copy_dentry_ok:
  fixes m :: memory
  assumes disj: "span dentry 40 \<inter> span d 40 = {}"
  defines "m' \<equiv> copy_dentry dentry d m"
  shows "rds m' dentry 32 = name_of (rds m d 32) @ replicate (32 - length (name_of (rds m d 32))) 0"
    and "ld32 m' (dentry_filetype dentry) = ld32 m (dentry_filetype d)"
    and "ld32 m' (dentry_inode_num dentry) = ld32 m (dentry_inode_num d)"
    and "x \<notin> span dentry 40 \<Longrightarrow> m' x = m x"
proof -
  let ?ns = "name_of (rds m d 32) @ replicate (32 - length (name_of (rds m d 32))) 0"
  let ?m1 = "wrs m dentry ?ns"
  have len: "length ?ns = 32" using length_name_of [of "rds m d 32"] by simp
  have sub: "span a 32 \<subseteq> span a 40" "span (a + 32) 4 \<subseteq> span a 40" "span (a + 36) 4 \<subseteq> span a 40" for a
    using sub_span [of 0 32 40 a] sub_span [of 32 4 40 a] sub_span [of 36 4 40 a] by simp_all
  have cp: "strncpy m dentry d 32 = ?m1"
    using strncpy_wrs [of dentry 32 d m] sub(1) [of dentry] sub(1) [of d] disj by auto
  have m': "m' = st32 (st32 ?m1 (dentry + 32) (ld32 ?m1 (d + 32))) (dentry + 36)
      (ld32 (st32 ?m1 (dentry + 32) (ld32 ?m1 (d + 32))) (d + 36))"
    by (simp add: m'_def copy_dentry_def cp dentry_filetype_def dentry_inode_num_def Let_def)
  have keep: "ld32 (st32 mm (dentry + 32) v) (d + 36) = ld32 mm (d + 36)" for mm v
    using sub(2) [of dentry] sub(3) [of d] disj by (intro ld32_disjoint st32_other) blast
  have m1: "ld32 ?m1 (d + 32) = ld32 m (d + 32)" "ld32 ?m1 (d + 36) = ld32 m (d + 36)"
  proof -
    have "?m1 x = m x" if "x \<in> span d 40" for x
    proof (rule wrs_other)
      have "x \<notin> span dentry 32" using that sub(1) [of dentry] disj by blast
      then show "x \<notin> span dentry (length ?ns)" by (simp only: len simp_thms)
    qed
    then have "\<And>x. x \<in> span (d + 32) 4 \<Longrightarrow> ?m1 x = m x" "\<And>x. x \<in> span (d + 36) 4 \<Longrightarrow> ?m1 x = m x"
      using sub(2,3) [of d] by blast+
    then show "ld32 ?m1 (d + 32) = ld32 m (d + 32)" "ld32 ?m1 (d + 36) = ld32 m (d + 36)"
      by - (rule ld32_disjoint, blast)+
  qed
  show "ld32 m' (dentry_inode_num dentry) = ld32 m (dentry_inode_num d)"
    by (simp add: m' keep m1 dentry_inode_num_def)
  show "ld32 m' (dentry_filetype dentry) = ld32 m (dentry_filetype d)"
    by (simp add: m' m1 ld32_st32_apart dentry_filetype_def)
  note low = span_disjoint_offset [of 32 _ 4 dentry]
  show "rds m' dentry 32 = ?ns"
    using low [of 32] low [of 36] rds_wrs [of ?ns m dentry] len
    by (simp add: m' st32_wrs rds_wrs_disjoint)
  show "m' x = m x" if "x \<notin> span dentry 40"
  proof -
    have "x \<notin> span dentry 32" using that sub(1) by blast
    then have "?m1 x = m x" by (intro wrs_other) (simp only: len simp_thms)
    then show ?thesis
      using st32_outside [OF that, of 32] st32_outside [OF that, of 36] sub [of dentry] by (simp add: m')
  qed
qed

lemma name_of_pad: "0 \<notin> set xs \<Longrightarrow> name_of (xs @ replicate n 0) = xs"
proof (induction xs)
  case Nil
  then show ?case by (cases n) simp_all
qed auto

lemma read_dentry_loop_find:
  assumes "cstr m fname xs" and "length xs \<le> 32"
  shows "read_dentry_loop bb fname dentry is m =
     (case find (\<lambda>i. dir_name m bb i = xs) is of None \<Rightarrow> (- 1, m)
      | Some i \<Rightarrow> (0, copy_dentry dentry (direntry bb (of_nat i)) m))"
proof -
  have "name_of (rds m fname 32) = xs" using cstr_name_of [OF assms] assms(2) by simp
  then have "strncmp m (direntry bb (of_nat i)) fname 32 = 0 \<longleftrightarrow> dir_name m bb i = xs" for i
    by (simp add: strncmp_zero dir_name_def)
  then show ?thesis by (induction "is") auto
qed

lemma read_dentry_by_name_find:
  assumes "cstr (mem s) fname xs" and "length xs < 2 ^ 32"
  shows "read_dentry_by_name fname dentry s =
     (if 32 < length xs then Some (- 1, s) else
      case find (\<lambda>i. dir_name (mem s) (bootblock_addr s) i = xs) [0..<63] of None \<Rightarrow> Some (- 1, s)
      | Some i \<Rightarrow> Some (0, s\<lparr>mem := copy_dentry dentry (direntry (bootblock_addr s) (of_nat i)) (mem s)\<rparr>))"
proof -
  have "(of_nat (length xs) > (32 :: u32)) = (32 < length xs)"
    using assms(2) by (simp add: word_less_nat_alt unat_of_nat)
  then show ?thesis
    using read_dentry_loop_find [OF assms(1)] strlen_cstr [OF assms(1)]
    by (auto simp: read_dentry_by_name_def split: option.split)
qed

lemma direntry_span: "k < 63 \<Longrightarrow> span (direntry bb (of_nat k)) 40 \<subseteq> span bb 4096"
  using sub_span [of "64 + 64 * k" 40 4096 bb] by (simp add: direntry_def algebra_simps)

text \<open>C20: Looking up a name of at most 32 characters succeeds exactly when one of the 63 directory
  entries of the boot block holds that name, and then fills the caller's entry with the type
  and inode number of the first such entry and with the name, changing no byte outside it. A
  longer name, or one no entry holds, returns -1 and changes nothing.\<close>

theorem read_dentry_by_name_finds:
  fixes s :: "'a filesys_scheme"
  defines "m \<equiv> mem s" and "bb \<equiv> bootblock_addr s"
  assumes "cstr m fname xs" and "length xs < 2 ^ 32" and "span dentry 40 \<inter> span bb 4096 = {}"
  shows "(length xs \<le> 32 \<and> (\<exists>k < 63. dir_name m bb k = xs) \<longrightarrow>
      (\<exists>k m'. k < 63 \<and> dir_name m bb k = xs \<and> (\<forall>j < k. dir_name m bb j \<noteq> xs) \<and>
        read_dentry_by_name fname dentry s = Some (0, s\<lparr>mem := m'\<rparr>) \<and>
        name_of (rds m' dentry 32) = xs \<and>
        ld32 m' (dentry_filetype dentry) = ld32 m (dentry_filetype (direntry bb (of_nat k))) \<and>
        ld32 m' (dentry_inode_num dentry) = ld32 m (dentry_inode_num (direntry bb (of_nat k))) \<and>
        (\<forall>x. x \<notin> span dentry 40 \<longrightarrow> m' x = m x))) \<and>
     (\<not> (length xs \<le> 32 \<and> (\<exists>k < 63. dir_name m bb k = xs)) \<longrightarrow>
        read_dentry_by_name fname dentry s = Some (- 1, s))"
proof (cases "find (\<lambda>i. dir_name m bb i = xs) [0..<63]")
  case None
  then have "\<not> (\<exists>k < 63. dir_name m bb k = xs)" by (auto simp: find_None_iff)
  then show ?thesis
    using None read_dentry_by_name_find [of s fname xs dentry] assms by auto
next
  case (Some k)
  then have k: "k < 63" "dir_name m bb k = xs" "\<forall>j < k. dir_name m bb j \<noteq> xs"
    by (auto simp: find_Some_iff)
  let ?m' = "copy_dentry dentry (direntry bb (of_nat k)) m"
  have "span dentry 40 \<inter> span (direntry bb (of_nat k)) 40 = {}"
    using direntry_span [OF k(1), of bb] assms(5) by blast
  note cp = copy_dentry_ok [OF this, where m = m]
  have "name_of (rds ?m' dentry 32) = xs"
    using k(2) unfolding cp(1) by (auto simp: dir_name_def name_of_pad)
  then have "length xs \<le> 32 \<longrightarrow> ?thesis"
    using Some k cp(2-4) read_dentry_by_name_find [of s fname xs dentry] assms by (auto simp: m_def bb_def)
  moreover have "32 < length xs \<longrightarrow> ?thesis"
    using read_dentry_by_name_find [of s fname xs dentry] assms by auto
  ultimately show ?thesis using linorder_not_le [of "length xs" 32] by blast
qed

theorem read_dentry_by_name_finds_witness:
  "\<exists>m'. read_dentry_by_name 0x5000 0x6000 demo_fs = Some (0, demo_fs\<lparr>mem := m'\<rparr>) \<and>
     ld32 m' (dentry_filetype 0x6000) = 2"
proof -
  have c: "cstr (mem demo_fs) 0x5000 [97]" by (simp add: demo_mem_def)
  have names: "dir_name demo_mem 0x1000 0 = [46]" "dir_name demo_mem 0x1000 1 = [97]"
    using cstr_name_of [of demo_mem "0x1040" "[46]" 32] cstr_name_of [of demo_mem "0x1080" "[97]" 32]
    by (simp_all add: dir_name_def direntry_def demo_mem_def [of "0x1040"] demo_mem_def [of "0x1041"]
        demo_mem_def [of "0x1080"] demo_mem_def [of "0x1081"])
  have t: "ld32 demo_mem (dentry_filetype (direntry 0x1000 1)) = 2"
    by (simp add: ld32_def dentry_filetype_def direntry_def demo_mem_def)
  have "span 0x6000 40 \<inter> span (bootblock_addr demo_fs) 4096 = {}"
    unfolding demo_fs_simps by (rule span_disjoint_above) simp_all
  from read_dentry_by_name_finds [OF c _ this] names(2)
  obtain k m' where k: "dir_name demo_mem 0x1000 k = [97]" "\<forall>j < k. dir_name demo_mem 0x1000 j \<noteq> [97]"
    and m': "read_dentry_by_name 0x5000 0x6000 demo_fs = Some (0, demo_fs\<lparr>mem := m'\<rparr>)"
      "ld32 m' (dentry_filetype 0x6000) = ld32 demo_mem (dentry_filetype (direntry 0x1000 (of_nat k)))"
    by (auto dest: spec [of _ 1])
  have "k \<noteq> 0" using k(1) names(1) by (cases "k = 0") auto
  moreover have "\<not> 1 < k" using k(2) names(2) by blast
  ultimately have "k = 1" by simp
  with m' t show ?thesis by auto
qed

lemma strncpy_name:
  fixes m :: memory
  assumes disj: "span buf 33 \<inter> span src 40 = {}"
  defines "m' \<equiv> (strncpy m buf src 32)(buf + 32 := 0)" and "xs \<equiv> name_of (rds m src 32)"
  shows "cstr m' buf xs" and "x \<notin> span buf 33 \<Longrightarrow> m' x = m x"
proof -
  have l: "length xs \<le> 32" using length_name_of [of "rds m src 32"] by (simp add: xs_def)
  have sub: "span buf 32 \<subseteq> span buf 33" "span src 32 \<subseteq> span src 40" by (rule span_mono; simp)+
  have "strncpy m buf src 32 = wrs m buf (xs @ replicate (32 - length xs) 0)"
    using strncpy_wrs [of buf 32 src m] sub disj by (auto simp: xs_def)
  then have m': "m' = wrs m buf (xs @ replicate (32 - length xs) 0 @ [0])"
    using l wrs_snoc [of m buf "xs @ replicate (32 - length xs) 0" 0] by (simp add: m'_def)
  also have "replicate (32 - length xs) 0 @ [0] = (0 :: u8) # replicate (32 - length xs) 0"
    by (simp add: replicate_append_same)
  finally have e: "m' = wrs (wrs m buf (xs @ [0])) (buf + of_nat (Suc (length xs))) (replicate (32 - length xs) 0)"
    using wrs_append [of m buf "xs @ [0]" "replicate (32 - length xs) 0"] by simp
  have "cstr (wrs m buf (xs @ [0])) buf xs" using l by (intro cstr_wrs_self) (simp_all add: xs_def)
  moreover have "m' y = wrs m buf (xs @ [0]) y" if "y \<in> span buf (Suc (length xs))" for y
    unfolding e using that span_disjoint_offset [of "Suc (length xs)" "Suc (length xs)" "32 - length xs" buf] l
    by (intro wrs_other) auto
  ultimately show "cstr m' buf xs" using cstr_cong by blast
  show "m' x = m x" if "x \<notin> span buf 33" unfolding m' using that l by (intro wrs_other) simp
qed

lemma directory_read_entry:
  fixes s :: "'a filesys_scheme"
  defines "m \<equiv> mem s" and "bb \<equiv> bootblock_addr s"
  assumes "buf \<noteq> 0" and "num_files_read s = of_nat k" and "k < 63"
    and "span local 40 \<inter> span bb 4096 = {}" and "span buf 33 \<inter> span local 40 = {}"
  shows "\<exists>m'. directory_read local fd buf nbytes s =
       Some (int (length (dir_name m bb k)), s\<lparr>mem := m', num_files_read := of_nat (Suc k)\<rparr>) \<and>
     cstr m' buf (dir_name m bb k) \<and> (\<forall>x. x \<notin> span local 40 \<and> x \<notin> span buf 33 \<longrightarrow> m' x = m x)"
proof -
  let ?d = "direntry bb (of_nat k)" and ?xs = "dir_name m bb k"
  let ?m1 = "copy_dentry local ?d m"
  let ?m2 = "(strncpy ?m1 buf local 32)(buf + 32 := 0)"
  have "span local 40 \<inter> span ?d 40 = {}" using direntry_span [OF assms(5), of bb] assms(6) by blast
  note cp = copy_dentry_ok [OF this, where m = m]
  have nm: "name_of (rds ?m1 local 32) = ?xs" unfolding cp(1) by (simp add: dir_name_def name_of_pad)
  note sn = strncpy_name [OF assms(7), where m = ?m1, unfolded nm]
  have len: "length ?xs \<le> 32" using length_name_of [of "rds m ?d 32"] by (simp add: dir_name_def)
  have idx: "(ucast (of_nat k :: u8) :: u32) = of_nat k"
    using assms(5) by (simp add: unsigned_of_nat take_bit_nat_eq_self)
  have "directory_read local fd buf nbytes s = Some (int (length ?xs), s\<lparr>mem := ?m2, num_files_read := of_nat (Suc k)\<rparr>)"
    using assms(3) strlen_cstr [OF sn(1)] len sint_of_nat_less [of "length ?xs"]
    by (simp add: directory_read_def read_dentry_by_index_def idx Let_def m_def [symmetric] bb_def [symmetric] assms(4) add.commute)
  moreover have "\<forall>x. x \<notin> span local 40 \<and> x \<notin> span buf 33 \<longrightarrow> ?m2 x = m x" using sn(2) cp(4) by metis
  ultimately show ?thesis using sn(1) by blast
qed

text \<open>The read of a directory whose \<open>k\<close>-th entry is next, for \<open>k\<close> below 63, leaves the name of
  entry \<open>k\<close> as a C string in the buffer, returns its length and moves on to entry \<open>k + 1\<close>; it
  writes at most 33 bytes of the buffer, whatever size is passed.\<close>

theorem directory_read_next_name:
  fixes s :: "'a filesys_scheme"
  defines "m \<equiv> mem s" and "bb \<equiv> bootblock_addr s"
  assumes "buf \<noteq> 0" and "num_files_read s = of_nat k" and "k < 63"
    and "span local 40 \<inter> span bb 4096 = {}" and "span buf 33 \<inter> span local 40 = {}"
  shows "\<exists>m'. directory_read local fd buf nbytes s =
       Some (int (length (dir_name m bb k)), s\<lparr>mem := m', num_files_read := of_nat (Suc k)\<rparr>) \<and>
     cstr m' buf (dir_name m bb k) \<and> (\<forall>x. x \<notin> span local 40 \<and> x \<notin> span buf 33 \<longrightarrow> m' x = m x)"
  unfolding assms(1,2) using assms(3-7) [unfolded assms(1,2)] by (rule directory_read_entry)

theorem directory_read_next_name_witness:
  "\<exists>s'. directory_read 0x6000 2 0x8000 32 demo_fs = Some (1, s') \<and> num_files_read s' = 1"
proof -
  have n: "dir_name demo_mem 0x1000 0 = [46]"
    using cstr_name_of [of demo_mem "0x1040" "[46]" 32]
    by (simp add: dir_name_def direntry_def demo_mem_def [of "0x1040"] demo_mem_def [of "0x1041"])
  have "span 0x6000 40 \<inter> span (bootblock_addr demo_fs) 4096 = {}"
    unfolding demo_fs_simps by (rule span_disjoint_above) simp_all
  moreover have "span 0x8000 33 \<inter> span (0x6000 :: u32) 40 = {}" by (rule span_disjoint_above) simp_all
  ultimately show ?thesis
    using directory_read_next_name [where s = demo_fs and buf = "0x8000" and k = 0 and local = "0x6000" and fd = 2 and nbytes = 32] n
    by auto
qed

end
