(* ===== verification/Keyboard.thy ===== *)
theory Keyboard
  imports Filesys
begin

text \<open>
  The keyboard driver and the terminal file operations, \<open>keyboard.c\<close>, with the array
  \<open>terminals\<close> of \<open>syscall.h\<close>. The array is raw memory at the address the linker gives it: a
  \<open>terminal_t\<close> takes 152 bytes, with the process slots at 0, the saved cursor at 8 and 12, the
  128-byte line buffer at 16, \<open>terminal_flag\<close> at 144 and \<open>buffer_enable\<close> at 148, so a store past
  either end of the line buffer lands in the neighbouring fields.

  The line a user edits is specified as a list of characters (\<open>line_of\<close>), and the handler and
  \<open>read_terminal\<close> are proved to append to it, to take back and to deliver it. The switch to another
  terminal, which starts a shell, is the argument \<open>dsw\<close> of the handler. The handlers that run
  while \<open>read_terminal\<close> waits are an explicit sequence.
\<close>

section \<open>Definitions\<close>

subsection \<open>Scan code tables\<close>

definition lower :: "u8 list" where
  "lower = [
    0, 0, 49, 50, 51, 52, 53, 54, 55, 56, 57, 48, 45, 61, 8, 32, 113, 119, 101, 114, 116,
    121, 117, 105, 111, 112, 91, 93, 10, 0, 97, 115, 100, 102, 103, 104, 106, 107, 108, 59,
    39, 96, 0, 92, 122, 120, 99, 118, 98, 110, 109, 44, 46, 47, 0, 42, 0, 32, 0, 0, 0, 32,
    0, 0, 0, 0, 0, 0, 0, 0, 0, 55, 56, 57, 45, 52, 53, 54, 43, 49, 50, 51, 48, 46] @ replicate 172 0"

definition uppershift :: "u8 list" where
  "uppershift = [
    0, 0, 33, 64, 35, 36, 37, 94, 38, 42, 40, 41, 95, 43, 8, 32, 81, 87, 69, 82, 84, 89,
    85, 73, 79, 80, 123, 125, 10, 0, 65, 83, 68, 70, 71, 72, 74, 75, 76, 58, 34, 126, 0,
    124, 90, 88, 67, 86, 66, 78, 77, 60, 62, 63, 0, 42, 0, 32, 0, 0, 0, 32, 0, 0, 0, 0, 0,
    0, 0, 0, 0, 55, 56, 57, 45, 52, 53, 54, 43, 49, 50, 51, 48, 46] @ replicate 172 0"

definition caps :: "u8 list" where
  "caps = [
    0, 0, 49, 50, 51, 52, 53, 54, 55, 56, 57, 48, 45, 61, 8, 32, 81, 87, 69, 82, 84, 89,
    85, 73, 79, 80, 91, 93, 10, 0, 65, 83, 68, 70, 71, 72, 74, 75, 76, 59, 39, 96, 0, 92,
    90, 88, 67, 86, 66, 78, 77, 44, 46, 47, 0, 42, 0, 32, 0, 0, 0, 32, 0, 0, 0, 0, 0, 0,
    0, 0, 0, 55, 56, 57, 45, 52, 53, 54, 43, 49, 50, 51, 48, 46] @ replicate 172 0"

definition lowershift :: "u8 list" where
  "lowershift = [
    0, 0, 33, 64, 35, 36, 37, 94, 38, 42, 40, 41, 95, 43, 8, 32, 113, 119, 101, 114, 116,
    121, 117, 105, 111, 112, 123, 125, 10, 0, 97, 115, 100, 102, 103, 104, 106, 107, 108,
    58, 34, 126, 0, 124, 122, 120, 99, 118, 98, 110, 109, 60, 62, 63, 0, 42, 0, 32, 0, 0,
    0, 32, 0, 0, 0, 0, 0, 0, 0, 0, 0, 55, 56, 57, 45, 52, 53, 54, 43, 49, 50, 51, 48, 46] @ replicate 172 0"

definition ascii_code :: "(u8 \<times> u8) list" where
  "ascii_code = zip
   [
    0, 0, 49, 50, 51, 52, 53, 54, 55, 56, 57, 48, 45, 61, 8, 0, 113, 119, 101, 114, 116,
    121, 117, 105, 111, 112, 91, 93, 10, 0, 97, 115, 100, 102, 103, 104, 106, 107, 108, 59,
    39, 96, 0, 92, 122, 120, 99, 118, 98, 110, 109, 44, 46, 47, 0, 0, 0, 32]
   [
    0, 0, 33, 64, 35, 36, 37, 94, 38, 42, 40, 41, 95, 43, 8, 0, 81, 87, 69, 82, 84, 89, 85,
    73, 79, 80, 123, 125, 10, 0, 65, 83, 68, 70, 71, 72, 74, 75, 76, 58, 34, 126, 0, 124,
    90, 88, 67, 86, 66, 78, 77, 60, 62, 63, 0, 0, 0, 32]"

subsection \<open>State\<close>

datatype key_table = Lower | Uppershift | Caps | Lowershift

definition table_of :: "key_table \<Rightarrow> u8 list" where
  "table_of p = (case p of Lower \<Rightarrow> lower | Uppershift \<Rightarrow> uppershift | Caps \<Rightarrow> caps | Lowershift \<Rightarrow> lowershift)"

text \<open>\<open>ascii_stray\<close> gives the bytes that follow the 58 rows of \<open>ascii_code\<close> in memory.\<close>

record keyboard = filesys +
  flag :: int
  pointer :: key_table
  case_status :: int
  control_status :: int
  alt_status :: int
  caps_enable :: int
  is_alphabet :: int
  enter_read :: "int \<Rightarrow> int"
  number_printed_line :: int
  index :: "int \<Rightarrow> int"
  disp_term_k :: int
  terminals_addr :: u32
  running_terminal :: int
  next_term :: int
  active_terminal :: int
  ascii_stray :: "u8 \<Rightarrow> u8"

definition term_base :: "'a keyboard_scheme \<Rightarrow> int \<Rightarrow> u32" where
  "term_base s t = terminals_addr s + 152 * word_of_int t"

definition term_process :: "'a keyboard_scheme \<Rightarrow> int \<Rightarrow> int \<Rightarrow> u32" where
  "term_process s t i = term_base s t + word_of_int i"

definition term_screen_x :: "'a keyboard_scheme \<Rightarrow> int \<Rightarrow> u32" where
  "term_screen_x s t = term_base s t + 8"

definition term_screen_y :: "'a keyboard_scheme \<Rightarrow> int \<Rightarrow> u32" where
  "term_screen_y s t = term_base s t + 12"

definition term_keyboard_buf :: "'a keyboard_scheme \<Rightarrow> int \<Rightarrow> int \<Rightarrow> u32" where
  "term_keyboard_buf s t i = term_base s t + 16 + word_of_int i"

definition term_flag :: "'a keyboard_scheme \<Rightarrow> int \<Rightarrow> u32" where
  "term_flag s t = term_base s t + 144"

definition term_buffer_enable :: "'a keyboard_scheme \<Rightarrow> int \<Rightarrow> u32" where
  "term_buffer_enable s t = term_base s t + 148"

abbreviation KEYBOARD_ENCODER :: u16 where "KEYBOARD_ENCODER \<equiv> 0x60"
abbreviation KEYBOARDSIZE :: int where "KEYBOARDSIZE \<equiv> 127"

subsection \<open>The driver\<close>

definition init_keyboard :: "'a keyboard_scheme \<Rightarrow> 'a keyboard_scheme" where
  "init_keyboard s =
     (let s = s\<lparr>pointer := Lower, case_status := 0, control_status := 0, caps_enable := 0, is_alphabet := 0\<rparr>;
          s = fold (\<lambda>i s. s\<lparr>mem := memset (mem s) (term_keyboard_buf s (int i) 0) 0 128\<rparr>) [0..<3] s;
          s = s\<lparr>number_printed_line := 0\<rparr>
      in enable_irq 1 s)"

definition key_status :: "u8 \<Rightarrow> 'a keyboard_scheme \<Rightarrow> 'a keyboard_scheme" where
  "key_status key_pressed s =
     (let s = (if key_pressed = 0x3A then
                 (if caps_enable s = 1 then s\<lparr>case_status := 0, caps_enable := 0, pointer := Lower, flag := 1\<rparr>
                  else s\<lparr>caps_enable := 1, case_status := 1, pointer := Caps, flag := 1\<rparr>)
               else s);
          s = (if key_pressed = 0x2A \<or> key_pressed = 0x36 then
                 (if caps_enable s = 1 then s\<lparr>case_status := 0, pointer := Lowershift, flag := 1\<rparr>
                  else s\<lparr>case_status := 1, pointer := Uppershift, flag := 1\<rparr>)
               else s);
          s = (if key_pressed = 0xAA \<or> key_pressed = 0xB6 then
                 (if caps_enable s = 1 then s\<lparr>case_status := 1, pointer := Caps, flag := 1\<rparr>
                  else s\<lparr>case_status := 0, pointer := Lower, flag := 1\<rparr>)
               else s);
          s = (if key_pressed = 0x1D then s\<lparr>control_status := 1, flag := 1\<rparr>
               else if key_pressed = 0x9D then s\<lparr>control_status := 0, flag := 1\<rparr>
               else s);
          s = (if key_pressed = 0x38 \<or> key_pressed = 0xE0 then s\<lparr>alt_status := 1, flag := 1\<rparr>
               else if key_pressed = 0xB8 \<or> key_pressed = 0xE0 then s\<lparr>alt_status := 0, flag := 1\<rparr>
               else s)
      in if flag s = 0 then s\<lparr>is_alphabet := 1\<rparr> else s)"

definition ascii_code_at :: "'a keyboard_scheme \<Rightarrow> u8 \<Rightarrow> u8" where
  "ascii_code_at s data = (if unat data < 58 then fst (ascii_code ! unat data) else ascii_stray s data)"

definition cntl_l_check :: "u8 \<Rightarrow> 'a keyboard_scheme \<Rightarrow> int \<times> 'a keyboard_scheme" where
  "cntl_l_check data s =
     (let curr_key = ascii_code_at s data
      in if control_status s \<noteq> 0 \<and> (curr_key = 108 \<or> curr_key = 76) then (1, clear s) else (0, s))"

text \<open>The test \<open>index != 0\<close> of the backspace branch compares the address of the array \<open>index\<close>,
  which is never null.\<close>

definition key_noprint :: "u8 \<Rightarrow> 'a keyboard_scheme \<Rightarrow> 'a keyboard_scheme" where
  "key_noprint key_pressed s =
     (let t = disp_term_k s
      in if key_pressed = 8 then
           (let s = (if number_printed_line s \<noteq> 0 then
                       (let s = s\<lparr>mem := (mem s)(term_keyboard_buf s t (index s t - 1) := 0)\<rparr>;
                            s = s\<lparr>index := (index s)(t := index s t - 1)\<rparr>;
                            s = s\<lparr>number_printed_line := number_printed_line s - 1\<rparr>
                        in putc 8 s)
                     else s)
            in send_eoi 1 s)
         else if key_pressed = 10 then
           (let s = s\<lparr>mem := (mem s)(term_keyboard_buf s t (index s t) := 10)\<rparr>;
                s = (if ld32 (mem s) (term_buffer_enable s t) \<noteq> 0 then s\<lparr>enter_read := (enter_read s)(t := 1)\<rparr> else s);
                s = s\<lparr>index := (index s)(t := index s t + 1)\<rparr>;
                s = s\<lparr>number_printed_line := 0\<rparr>
            in send_eoi 1 s)
         else s)"

text \<open>The handler in three parts: the store into the line buffer, everything after the modifiers
  are up to date, and the whole.\<close>

definition store_key :: "u8 \<Rightarrow> 'a keyboard_scheme \<Rightarrow> 'a keyboard_scheme" where
  "store_key print s =
     (let t = disp_term_k s
      in s\<lparr>mem := (mem s)(term_keyboard_buf s t (index s t) := print), index := (index s)(t := index s t + 1)\<rparr>)"

definition handle_key :: "(u32 \<Rightarrow> 'a keyboard_scheme \<Rightarrow> 'a keyboard_scheme option) \<Rightarrow> u8 \<Rightarrow> 'a keyboard_scheme
    \<Rightarrow> 'a keyboard_scheme option" where
  "handle_key dsw data s =
     (let (ret, s) = cntl_l_check data s;
          print = table_of (pointer s) ! unat data;
          s = key_noprint print s;
          print = table_of (pointer s) ! unat data
      in if control_status s = 1 \<and> (print = 108 \<or> print = 76) then Some (send_eoi 1 s)
         else if alt_status s = 1 then
           (let s = send_eoi 1 s
            in if data = 0x3B then dsw 0 (s\<lparr>disp_term_k := 0\<rparr>)
               else if data = 0x3C then dsw 1 (s\<lparr>disp_term_k := 1\<rparr>)
               else if data = 0x3D then dsw 2 (s\<lparr>disp_term_k := 2\<rparr>)
               else Some s)
         else if print \<noteq> 0 \<and> print \<noteq> 8 then
           (let s = store_key print s;
                s = s\<lparr>number_printed_line := number_printed_line s + 1\<rparr>;
                s = putc print s
            in Some (send_eoi 1 s))
         else Some (send_eoi 1 s))"

definition keyboard_handler ::
  "(u32 \<Rightarrow> 'a keyboard_scheme \<Rightarrow> 'a keyboard_scheme option) \<Rightarrow> 'a keyboard_scheme \<Rightarrow> 'a keyboard_scheme option" where
  "keyboard_handler dsw s =
     (let s = s\<lparr>disp_term_k := active_terminal s\<rparr>;
          s = s\<lparr>is_alphabet := 0\<rparr>;
          s = s\<lparr>enter_read := (enter_read s)(disp_term_k s := 0)\<rparr>;
          (data, s) = inb KEYBOARD_ENCODER s
      in handle_key dsw data (key_status data s))"

subsection \<open>The terminal as a file\<close>

definition open_terminal :: "u32 \<Rightarrow> 'a keyboard_scheme \<Rightarrow> int \<times> 'a keyboard_scheme" where
  "open_terminal filename s = (0, s)"

text \<open>The wait of \<open>read_terminal\<close>: each test of the flag is followed by the next interrupt handler.\<close>

fun await_enter :: "('a keyboard_scheme \<Rightarrow> 'a keyboard_scheme option) list \<Rightarrow> 'a keyboard_scheme
    \<Rightarrow> 'a keyboard_scheme option" where
  "await_enter hs s =
     (if enter_read s (disp_term_k s) = 0 then
        (case hs of [] \<Rightarrow> None | h # hs \<Rightarrow> do { s \<leftarrow> h s; await_enter hs s })
      else Some s)"

declare await_enter.simps [simp del]

function read_terminal_copy :: "u32 \<Rightarrow> int \<Rightarrow> int \<Rightarrow> 'a keyboard_scheme \<Rightarrow> int \<times> 'a keyboard_scheme" where
  "read_terminal_copy buf num i s =
     (if i < num \<and> i < KEYBOARDSIZE then
        (let t = disp_term_k s;
             s = s\<lparr>mem := (mem s)(buf + word_of_int i := mem s (term_keyboard_buf s t i))\<rparr>
         in if mem s (term_keyboard_buf s t i) = 10 then (i, s)
            else read_terminal_copy buf num (i + 1) s)
      else (i, s))"
  by pat_completeness auto
termination
  by (relation "measure (\<lambda>(buf, num, i, s). nat (KEYBOARDSIZE - i))") auto

declare read_terminal_copy.simps [simp del]

definition read_terminal :: "('a keyboard_scheme \<Rightarrow> 'a keyboard_scheme option) list \<Rightarrow> int \<Rightarrow> u32 \<Rightarrow> int
    \<Rightarrow> 'a keyboard_scheme \<Rightarrow> (int \<times> 'a keyboard_scheme) option" where
  "read_terminal hs fd buf num s =
     (if buf = 0 then Some (- 1, s)
      else do {
        s \<leftarrow> await_enter hs (s\<lparr>mem := st32 (mem s) (term_buffer_enable s (disp_term_k s)) 1\<rparr>);
        let (i, s) = read_terminal_copy buf num 0 s;
        let s = s\<lparr>mem := memset (mem s) (term_keyboard_buf s (disp_term_k s) 0) 0 128\<rparr>;
        let s = s\<lparr>index := (index s)(disp_term_k s := 0)\<rparr>;
        let s = s\<lparr>enter_read := (enter_read s)(disp_term_k s := 0)\<rparr>;
        let s = s\<lparr>mem := st32 (mem s) (term_buffer_enable s (disp_term_k s)) 0\<rparr>;
        Some (i + 1, s)
      })"

text \<open>\<open>write_terminal\<close> reads each character from the memory that \<open>putc\<close> writes.\<close>

definition write_terminal :: "int \<Rightarrow> u32 \<Rightarrow> int \<Rightarrow> 'a console_scheme \<Rightarrow> int \<times> 'a console_scheme" where
  "write_terminal fd buf num s =
     (int (nat num), fold (\<lambda>i s. putc (mem s (buf + of_nat i)) s) [0..<nat num] s)"

definition close_terminal :: "int \<Rightarrow> 'a keyboard_scheme \<Rightarrow> int \<times> 'a keyboard_scheme" where
  "close_terminal fd s = (- 1, s)"

definition read_failure :: "int \<Rightarrow> u32 \<Rightarrow> int \<Rightarrow> 'a keyboard_scheme \<Rightarrow> int \<times> 'a keyboard_scheme" where
  "read_failure fd buf num s = (- 1, s)"

definition write_failure :: "int \<Rightarrow> u32 \<Rightarrow> int \<Rightarrow> 'a keyboard_scheme \<Rightarrow> int \<times> 'a keyboard_scheme" where
  "write_failure fd buf num s = (- 1, s)"

section \<open>What the driver leaves alone\<close>

lemma putc_as_update:
  "putc c s = s\<lparr>mem := mem (putc c s), io := io (putc c s), screen_x := screen_x (putc c s), screen_y := screen_y (putc c s)\<rparr>"
  by (rule console.equality) simp_all

lemma clear_as_update:
  "clear s = s\<lparr>mem := mem (clear s), io := io (clear s), screen_x := screen_x (clear s), screen_y := screen_y (clear s)\<rparr>"
  by (rule console.equality) simp_all

lemma send_eoi_as_update: "send_eoi i s = s\<lparr>io := io (send_eoi i s)\<rparr>"
  by (simp add: send_eoi_def outb_def Let_def)

lemma kbd_putc_frame [simp, frame_simps]:
  "flag (putc c s) = flag s" "pointer (putc c s) = pointer s" "control_status (putc c s) = control_status s"
  "alt_status (putc c s) = alt_status s" "caps_enable (putc c s) = caps_enable s" "is_alphabet (putc c s) = is_alphabet s"
  "enter_read (putc c s) = enter_read s" "number_printed_line (putc c s) = number_printed_line s"
  "index (putc c s) = index s" "disp_term_k (putc c s) = disp_term_k s" "terminals_addr (putc c s) = terminals_addr s"
  "active_terminal (putc c s) = active_terminal s" "case_status (putc c s) = case_status s"
  by (subst putc_as_update; simp)+

lemma send_eoi_frame [simp, frame_simps]:
  "mem (send_eoi i s) = mem s" "screen_x (send_eoi i s) = screen_x s" "screen_y (send_eoi i s) = screen_y s"
  "dev (send_eoi i s) = dev s"
  by (subst send_eoi_as_update; simp)+

lemma kbd_send_eoi_frame [simp, frame_simps]:
  "flag (send_eoi i s) = flag s" "pointer (send_eoi i s) = pointer s" "control_status (send_eoi i s) = control_status s"
  "alt_status (send_eoi i s) = alt_status s" "caps_enable (send_eoi i s) = caps_enable s"
  "is_alphabet (send_eoi i s) = is_alphabet s" "case_status (send_eoi i s) = case_status s"
  "enter_read (send_eoi i s) = enter_read s" "number_printed_line (send_eoi i s) = number_printed_line s"
  "index (send_eoi i s) = index s" "disp_term_k (send_eoi i s) = disp_term_k s" "terminals_addr (send_eoi i s) = terminals_addr s"
  "active_terminal (send_eoi i s) = active_terminal s"
  by (subst send_eoi_as_update; simp)+

text \<open>The addresses of a terminal depend on the address of the array alone.\<close>

lemma term_addresses [simp]:
  "term_base (putc c s) = term_base s" "term_base (send_eoi i s) = term_base s"
  by (simp_all add: term_base_def fun_eq_iff)

lemmas term_addr_defs = term_base_def term_process_def term_screen_x_def term_screen_y_def
  term_keyboard_buf_def term_flag_def term_buffer_enable_def

section \<open>The line being edited\<close>

text \<open>The scan codes that set or clear a modifier.\<close>

definition modifier :: "u8 \<Rightarrow> bool" where
  "modifier d \<longleftrightarrow> d \<in> {0x3A, 0x2A, 0x36, 0xAA, 0xB6, 0x1D, 0x9D, 0x38, 0xE0, 0xB8}"

lemma key_status_plain:
  "\<not> modifier d \<Longrightarrow> key_status d s = (if flag s = 0 then s\<lparr>is_alphabet := 1\<rparr> else s)"
  by (simp add: key_status_def modifier_def)

text \<open>The line of terminal \<open>t\<close>: what its buffer holds below the index.\<close>

definition editing :: "'a keyboard_scheme \<Rightarrow> int \<Rightarrow> u8 list \<Rightarrow> bool" where
  "editing s t xs \<longleftrightarrow> index s t = int (length xs) \<and> rds (mem s) (term_keyboard_buf s t 0) (length xs) = xs"

text \<open>The array of terminals is apart from video memory.\<close>

definition terms_apart :: "'a keyboard_scheme \<Rightarrow> bool" where
  "terms_apart s \<longleftrightarrow> span (terminals_addr s) 456 \<inter> video = {}"

lemma kbuf_index: "term_keyboard_buf s t (int k) = term_keyboard_buf s t 0 + of_nat k"
  by (simp add: term_keyboard_buf_def)

lemma term_offset_span:
  assumes "t \<in> {0, 1, 2}" and "k + l \<le> 152"
  shows "span (term_base s t + of_nat k) l \<subseteq> span (terminals_addr s) 456"
proof -
  have "term_base s t + of_nat k = terminals_addr s + of_nat (152 * nat t + k)"
    using assms(1) by (auto simp: term_base_def algebra_simps)
  moreover have "152 * nat t + k + l \<le> 456" using assms by auto
  ultimately show ?thesis by (metis sub_span)
qed

lemma kbuf_span:
  assumes "t \<in> {0, 1, 2}" and "k \<le> 128"
  shows "span (term_keyboard_buf s t 0) k \<subseteq> span (terminals_addr s) 456"
  using term_offset_span [OF assms(1), of 16 k s] assms(2) by (simp add: term_keyboard_buf_def)

lemma buffer_enable_span:
  "t \<in> {0, 1, 2} \<Longrightarrow> span (term_buffer_enable s t) 4 \<subseteq> span (terminals_addr s) 456"
  using term_offset_span [of t 148 4 s] by (simp add: term_buffer_enable_def)

lemma putc_keeps_terms:
  assumes "terms_apart s" and "on_screen s" and "c \<noteq> 8" and "x \<in> span (terminals_addr s) 456"
  shows "mem (putc c s) x = mem s x"
  using assms putc_refines [of s c] by (auto simp: terms_apart_def)

text \<open>The handler on a key that is no modifier, with neither Control nor Alt held.\<close>

definition key_seen :: "'a keyboard_scheme \<Rightarrow> 'a keyboard_scheme" where
  "key_seen s = (let s = s\<lparr>disp_term_k := active_terminal s, is_alphabet := 0,
       enter_read := (enter_read s)(active_terminal s := 0), io := io s @ [In KEYBOARD_ENCODER]\<rparr>
     in if flag s = 0 then s\<lparr>is_alphabet := 1\<rparr> else s)"

lemma key_seen_simps [simp]:
  "mem (key_seen s) = mem s" "disp_term_k (key_seen s) = active_terminal s" "index (key_seen s) = index s"
  "active_terminal (key_seen s) = active_terminal s" "pointer (key_seen s) = pointer s"
  "terminals_addr (key_seen s) = terminals_addr s" "number_printed_line (key_seen s) = number_printed_line s"
  "enter_read (key_seen s) = (enter_read s)(active_terminal s := 0)" "screen_x (key_seen s) = screen_x s"
  "screen_y (key_seen s) = screen_y s" "alt_status (key_seen s) = alt_status s"
  "control_status (key_seen s) = control_status s" "dev (key_seen s) = dev s"
  by (simp_all add: key_seen_def Let_def)

lemma store_key_mem:
  "mem (store_key c s) = (mem s)(term_keyboard_buf s (disp_term_k s) (index s (disp_term_k s)) := c)"
  by (simp add: store_key_def Let_def)

lemma store_key_simps [simp]:
  "index (store_key c s) = (index s)(disp_term_k s := index s (disp_term_k s) + 1)"
  "disp_term_k (store_key c s) = disp_term_k s" "active_terminal (store_key c s) = active_terminal s"
  "pointer (store_key c s) = pointer s" "terminals_addr (store_key c s) = terminals_addr s"
  "number_printed_line (store_key c s) = number_printed_line s" "enter_read (store_key c s) = enter_read s"
  "screen_x (store_key c s) = screen_x s" "screen_y (store_key c s) = screen_y s" "dev (store_key c s) = dev s"
  "alt_status (store_key c s) = alt_status s" "control_status (store_key c s) = control_status s"
  by (simp_all add: store_key_def Let_def)

lemma keyboard_handler_plain:
  assumes "dev s (io s) KEYBOARD_ENCODER = d" and "\<not> modifier d"
  shows "keyboard_handler dsw s = handle_key dsw d (key_seen s)"
  using assms by (simp add: keyboard_handler_def inb_def key_status_plain key_seen_def Let_def)

lemma cntl_l_check_off: "control_status s = 0 \<Longrightarrow> cntl_l_check d s = (0, s)"
  by (simp add: cntl_l_check_def)

lemma handle_key_char:
  assumes "table_of (pointer s) ! unat d = c" and "c \<noteq> 0" "c \<noteq> 8" "c \<noteq> 10"
    and "alt_status s \<noteq> 1" and "control_status s = 0"
  shows "handle_key dsw d s =
    Some (send_eoi 1 (putc c ((store_key c s)\<lparr>number_printed_line := number_printed_line s + 1\<rparr>)))"
proof -
  have k: "key_noprint c s = s" using assms by (simp add: key_noprint_def Let_def)
  show ?thesis unfolding handle_key_def cntl_l_check_off [OF assms(6)] using assms k by (simp add: Let_def)
qed

text \<open>Enter stores the newline once in \<open>key_noprint\<close> and once more on the way that every printable
  key takes.\<close>

definition enter_seen :: "'a keyboard_scheme \<Rightarrow> 'a keyboard_scheme" where
  "enter_seen s = (let t = disp_term_k s;
       s = s\<lparr>mem := (mem s)(term_keyboard_buf s t (index s t) := 10)\<rparr>;
       s = (if ld32 (mem s) (term_buffer_enable s t) \<noteq> 0 then s\<lparr>enter_read := (enter_read s)(t := 1)\<rparr> else s)
     in s\<lparr>index := (index s)(t := index s t + 1), number_printed_line := 0\<rparr>)"

lemma key_noprint_enter: "key_noprint 10 s = send_eoi 1 (enter_seen s)"
  by (simp add: key_noprint_def enter_seen_def Let_def)

lemma enter_seen_simps [simp]:
  "mem (enter_seen s) = mem (store_key 10 s)" "index (enter_seen s) = index (store_key 10 s)"
  "disp_term_k (enter_seen s) = disp_term_k s" "active_terminal (enter_seen s) = active_terminal s"
  "pointer (enter_seen s) = pointer s" "terminals_addr (enter_seen s) = terminals_addr s"
  "number_printed_line (enter_seen s) = 0" "screen_x (enter_seen s) = screen_x s"
  "screen_y (enter_seen s) = screen_y s" "dev (enter_seen s) = dev s"
  "alt_status (enter_seen s) = alt_status s" "control_status (enter_seen s) = control_status s"
  by (simp_all add: enter_seen_def store_key_def Let_def)

lemma handle_key_enter:
  assumes "table_of (pointer s) ! unat d = 10" and "alt_status s \<noteq> 1" and "control_status s = 0"
  shows "handle_key dsw d s =
    Some (send_eoi 1 (putc 10 ((store_key 10 (send_eoi 1 (enter_seen s)))\<lparr>number_printed_line := 1\<rparr>)))"
  unfolding handle_key_def cntl_l_check_off [OF assms(3)] using assms by (simp add: Let_def key_noprint_enter)

text \<open>Terminal \<open>t\<close> is the one displayed, the cursor is on the screen and no modifier that diverts
  keys is held.\<close>

definition typing :: "'a keyboard_scheme \<Rightarrow> int \<Rightarrow> bool" where
  "typing s t \<longleftrightarrow> active_terminal s = t \<and> t \<in> {0, 1, 2} \<and> terms_apart s \<and> on_screen s \<and>
     alt_status s \<noteq> 1 \<and> control_status s = 0"

lemma kbuf_cell: "editing s t xs \<Longrightarrow> term_keyboard_buf s t (index s t) = term_keyboard_buf s t 0 + of_nat (length xs)"
  by (simp add: editing_def kbuf_index)

lemma kbuf_frame [simp]:
  "term_keyboard_buf (putc c s) = term_keyboard_buf s" "term_keyboard_buf (send_eoi i s) = term_keyboard_buf s"
  "term_keyboard_buf (store_key c s) = term_keyboard_buf s" "term_keyboard_buf (key_seen s) = term_keyboard_buf s"
  "term_keyboard_buf (enter_seen s) = term_keyboard_buf s" "term_keyboard_buf (s\<lparr>number_printed_line := n\<rparr>) = term_keyboard_buf s"
  "term_keyboard_buf (s\<lparr>dev := f\<rparr>) = term_keyboard_buf s" "term_buffer_enable (s\<lparr>dev := f\<rparr>) = term_buffer_enable s"
  "term_buffer_enable (putc c s) = term_buffer_enable s" "term_buffer_enable (send_eoi i s) = term_buffer_enable s"
  "term_buffer_enable (store_key c s) = term_buffer_enable s" "term_buffer_enable (key_seen s) = term_buffer_enable s"
  "term_buffer_enable (enter_seen s) = term_buffer_enable s"
  by (simp_all add: term_keyboard_buf_def term_buffer_enable_def term_base_def fun_eq_iff)

text \<open>Storing one more character, and storing and showing it.\<close>

lemma store_key_editing:
  fixes s :: "'a keyboard_scheme"
  assumes t: "disp_term_k s = t" "t \<in> {0, 1, 2}" and ed: "editing s t xs" and len: "length xs < 128"
  shows "editing (store_key c s) t (xs @ [c])"
    and "terms_apart s \<Longrightarrow> tty_of (store_key c s) = tty_of s"
    and "mem (store_key c s) = (mem s)(term_keyboard_buf s t 0 + of_nat (length xs) := c)"
proof -
  let ?b = "term_keyboard_buf s t 0"
  show m: "mem (store_key c s) = (mem s)(?b + of_nat (length xs) := c)"
    using kbuf_cell [OF ed] by (simp add: t store_key_mem)
  have "?b + of_nat (length xs) \<notin> span ?b (length xs)"
    using len by (auto simp: in_span_iff word_of_nat_eq_iff)
  then have "rds (mem (store_key c s)) ?b (Suc (length xs)) = rds (mem s) ?b (length xs) @ [c]"
    unfolding m by (simp add: rds_Suc rds_upd)
  then show "editing (store_key c s) t (xs @ [c])" using ed t by (simp add: editing_def)
  have "?b + of_nat (length xs) \<in> span (terminals_addr s) 456"
    using kbuf_span [OF t(2), of "Suc (length xs)" s] len in_spanI [of "length xs" "Suc (length xs)"] by fastforce
  then show "tty_of (store_key c s) = tty_of s" if "terms_apart s"
    using that unfolding m terms_apart_def tty_of_def
    by (subst screen_cong [of "(mem s)(?b + of_nat (length xs) := c)" "mem s"]) auto
qed

lemma store_putc:
  fixes s :: "'a keyboard_scheme" and n :: int
  assumes ap: "terms_apart s" and on: "on_screen s" and t: "disp_term_k s = t" "t \<in> {0, 1, 2}"
    and ed: "editing s t xs" and len: "length xs < 128" and c: "c \<noteq> 8"
  defines "s1 \<equiv> putc c ((store_key c s)\<lparr>number_printed_line := n\<rparr>)"
  shows "editing s1 t (xs @ [c])" and "on_screen s1" and "tty_of s1 = tty_putc c (tty_of s)"
    and "x \<notin> video \<Longrightarrow> x \<noteq> term_keyboard_buf s t 0 + of_nat (length xs) \<Longrightarrow> mem s1 x = mem s x"
proof -
  let ?s = "(store_key c s)\<lparr>number_printed_line := n\<rparr>"
  note st = store_key_editing [OF t ed len, of c]
  have on': "on_screen ?s" using on by (simp add: on_screen_def)
  have ed': "editing ?s t (xs @ [c])" and tty: "tty_of ?s = tty_of s"
    using st(1,2) ap by (simp_all add: editing_def tty_of_def)
  note pr = putc_refines [OF on', of c]
  show "on_screen s1" "tty_of s1 = tty_putc c (tty_of s)" unfolding s1_def using pr c tty by simp_all
  have out: "mem s1 x = mem ?s x" if "x \<notin> video" for x unfolding s1_def using pr(3) c that by simp
  show "mem s1 x = mem s x" if "x \<notin> video" "x \<noteq> term_keyboard_buf s t 0 + of_nat (length xs)"
    using out that st(3) by simp
  have "span (term_keyboard_buf s t 0) (length (xs @ [c])) \<subseteq> span (terminals_addr s) 456"
    using len by (intro kbuf_span [OF t(2)]) simp
  then have nv: "x \<notin> video" if "x \<in> span (term_keyboard_buf s t 0) (length (xs @ [c]))" for x
    using that ap by (auto simp: terms_apart_def)
  have "rds (mem s1) (term_keyboard_buf s t 0) (length (xs @ [c])) = rds (mem ?s) (term_keyboard_buf s t 0) (length (xs @ [c]))"
    by (rule rds_cong) (rule out, rule nv, rule in_spanI)
  then show "editing s1 t (xs @ [c])" using ed' unfolding editing_def s1_def by simp
qed

text \<open>A key press: the controller holds the scan code \<open>d\<close> when the handler reads it.\<close>

definition press :: "(u32 \<Rightarrow> 'a keyboard_scheme \<Rightarrow> 'a keyboard_scheme option) \<Rightarrow> u8 \<Rightarrow> 'a keyboard_scheme
    \<Rightarrow> 'a keyboard_scheme option" where
  "press dsw d s = keyboard_handler dsw (s\<lparr>dev := (\<lambda>h p. if p = KEYBOARD_ENCODER then d else dev s h p)\<rparr>)"

text \<open>A key that adds the character \<open>c\<close> to the line.\<close>

definition types :: "key_table \<Rightarrow> u8 \<Rightarrow> u8 \<Rightarrow> bool" where
  "types p d c \<longleftrightarrow> \<not> modifier d \<and> table_of p ! unat d = c \<and> c \<notin> {0, 8, 10}"

lemma editing_dev [simp]: "editing (s\<lparr>dev := f\<rparr>) t xs = editing s t xs" "tty_of (s\<lparr>dev := f\<rparr>) = tty_of s"
  by (simp_all add: editing_def term_keyboard_buf_def term_base_def tty_of_def)

lemma editing_key_seen [simp]: "editing (key_seen s) t xs = editing s t xs" "tty_of (key_seen s) = tty_of s"
  by (simp_all add: editing_def tty_of_def)

lemma editing_send_eoi [simp]: "editing (send_eoi i s) t xs = editing s t xs" "tty_of (send_eoi i s) = tty_of s"
  by (simp_all add: editing_def tty_of_def)

lemma on_screen_send_eoi [simp]: "on_screen (send_eoi i s) = on_screen s"
  by (simp add: on_screen_def)

lemma buffer_enable_not_kbuf:
  assumes "k < 128"
  shows "term_keyboard_buf s t 0 + of_nat k \<notin> span (term_buffer_enable s t) 4"
proof
  assume "term_keyboard_buf s t 0 + of_nat k \<in> span (term_buffer_enable s t) 4"
  then obtain i where "i < 4" "term_base s t + of_nat (16 + k) = term_base s t + of_nat (148 + i)"
    by (auto simp: in_span_iff term_keyboard_buf_def term_buffer_enable_def algebra_simps)
  then have "(of_nat (16 + k) :: u32) = of_nat (148 + i)" by (simp only: add_left_cancel)
  with \<open>i < 4\<close> assms show False by (subst (asm) word_of_nat_eq_iff) auto
qed

lemma press_char:
  assumes ty: "typing s t" and ed: "editing s t xs" and len: "length xs < 128" and key: "types (pointer s) d c"
  shows "\<exists>s'. press dsw d s = Some s' \<and> typing s' t \<and> editing s' t (xs @ [c]) \<and>
     tty_of s' = tty_putc c (tty_of s) \<and> pointer s' = pointer s \<and> terminals_addr s' = terminals_addr s \<and>
     disp_term_k s' = t \<and> enter_read s' t = 0 \<and> number_printed_line s' = number_printed_line s + 1 \<and>
     ld32 (mem s') (term_buffer_enable s t) = ld32 (mem s) (term_buffer_enable s t)"
proof -
  let ?d = "s\<lparr>dev := (\<lambda>h p. if p = KEYBOARD_ENCODER then d else dev s h p)\<rparr>"
  let ?k = "key_seen ?d"
  let ?s' = "send_eoi 1 (putc c ((store_key c ?k)\<lparr>number_printed_line := number_printed_line s + 1\<rparr>))"
  have h: "press dsw d s = Some ?s'"
    using handle_key_char [of ?k d c dsw] keyboard_handler_plain [of ?d d dsw] ty key
    by (simp add: press_def types_def typing_def)
  have k: "terms_apart ?k" "on_screen ?k" "disp_term_k ?k = t" "t \<in> {0, 1, 2}" "editing ?k t xs" "c \<noteq> 8"
    using ty ed key by (simp_all add: typing_def terms_apart_def on_screen_def types_def)
  note sp = store_putc [OF k(1-5) len k(6), where n = "number_printed_line s + 1"]
  have "ld32 (mem ?s') (term_buffer_enable s t) = ld32 (mem s) (term_buffer_enable s t)"
  proof (rule ld32_disjoint)
    fix x assume x: "x \<in> span (term_buffer_enable s t) 4"
    then have "x \<notin> video" using ty buffer_enable_span [of t s] by (auto simp: typing_def terms_apart_def)
    moreover have "x \<noteq> term_keyboard_buf s t 0 + of_nat (length xs)" using x buffer_enable_not_kbuf [OF len] by metis
    ultimately show "mem ?s' x = mem s x" using sp(4) by (simp add: term_keyboard_buf_def term_base_def)
  qed
  moreover have "typing ?s' t" using ty sp(2) by (simp add: typing_def terms_apart_def)
  ultimately show ?thesis using h sp(1,3) ty by (auto simp: typing_def)
qed

lemma press_enter:
  assumes ty: "typing s t" and ed: "editing s t xs" and len: "length xs < 127"
    and be: "ld32 (mem s) (term_buffer_enable s t) \<noteq> 0"
  shows "\<exists>s'. press dsw 0x1C s = Some s' \<and> typing s' t \<and> editing s' t (xs @ [10, 10]) \<and>
     tty_of s' = tty_putc 10 (tty_of s) \<and> terminals_addr s' = terminals_addr s \<and>
     disp_term_k s' = t \<and> enter_read s' t = 1 \<and> number_printed_line s' = 1"
proof -
  let ?d = "s\<lparr>dev := (\<lambda>h p. if p = KEYBOARD_ENCODER then 0x1C else dev s h p)\<rparr>"
  let ?k = "key_seen ?d"
  let ?e = "send_eoi 1 (enter_seen ?k)"
  let ?s' = "send_eoi 1 (putc 10 ((store_key 10 ?e)\<lparr>number_printed_line := 1\<rparr>))"
  have nl: "table_of p ! unat (0x1C :: u8) = 10" for p
    by (cases p) (simp_all add: table_of_def lower_def uppershift_def caps_def lowershift_def)
  have h: "press dsw 0x1C s = Some ?s'"
    using handle_key_enter [of ?k "0x1C" dsw] keyboard_handler_plain [of ?d "0x1C" dsw] ty nl
    by (simp add: press_def typing_def modifier_def)
  have k: "terms_apart ?k" "on_screen ?k" "disp_term_k ?k = t" "t \<in> {0, 1, 2}" "editing ?k t xs" "length xs < 128"
    using ty ed len by (simp_all add: typing_def terms_apart_def on_screen_def)
  note st = store_key_editing [OF k(3-6), of 10]
  have e: "terms_apart ?e" "on_screen ?e" "disp_term_k ?e = t" "editing ?e t (xs @ [10])" "tty_of ?e = tty_of s"
    using k(1-3) st(1) st(2) [OF k(1)] by (simp_all add: terms_apart_def on_screen_def editing_def tty_of_def)
  note sp = store_putc [OF e(1,2,3) k(4) e(4), where n = 1 and c = 10]
  have "ld32 (mem (store_key 10 ?k)) (term_buffer_enable s t) = ld32 (mem s) (term_buffer_enable s t)"
  proof (rule ld32_disjoint)
    fix x assume "x \<in> span (term_buffer_enable s t) 4"
    then have "x \<noteq> term_keyboard_buf s t 0 + of_nat (length xs)" using buffer_enable_not_kbuf [OF k(6)] by metis
    then show "mem (store_key 10 ?k) x = mem s x" unfolding st(3) by (simp add: term_keyboard_buf_def term_base_def)
  qed
  then have "enter_read (enter_seen ?k) t = 1"
    using be k(3) by (simp add: enter_seen_def store_key_mem Let_def term_addr_defs)
  moreover have "typing ?s' t" using ty sp(2) len by (simp add: typing_def terms_apart_def)
  ultimately show ?thesis using h sp(1,3) e(5) k(3) len by auto
qed

text \<open>A run of keys, while nothing has been entered.\<close>

lemma await_enter_typed:
  assumes "typing s t" and "disp_term_k s = t" and "enter_read s t = 0" and "editing s t ys"
    and "list_all2 (types (pointer s)) ds xs" and "length ys + length xs \<le> 128"
  shows "\<exists>s'. await_enter (map (press dsw) ds @ hs) s = await_enter hs s' \<and> typing s' t \<and>
     editing s' t (ys @ xs) \<and> tty_of s' = fold tty_putc xs (tty_of s) \<and> terminals_addr s' = terminals_addr s \<and>
     disp_term_k s' = t \<and> enter_read s' t = 0 \<and>
     ld32 (mem s') (term_buffer_enable s t) = ld32 (mem s) (term_buffer_enable s t)"
  using assms
proof (induction ds arbitrary: s ys xs)
  case Nil
  then show ?case by (intro exI [of _ s]) simp
next
  case (Cons d ds)
  then obtain c cs where xs: "xs = c # cs" and key: "types (pointer s) d c"
    and rest: "list_all2 (types (pointer s)) ds cs" by (auto simp: list_all2_Cons1)
  from press_char [OF Cons.prems(1,4) _ key, of dsw] Cons.prems(6) xs
  obtain s1 where s1: "press dsw d s = Some s1" "typing s1 t" "editing s1 t (ys @ [c])"
    "tty_of s1 = tty_putc c (tty_of s)" "pointer s1 = pointer s" "terminals_addr s1 = terminals_addr s"
    "disp_term_k s1 = t" "enter_read s1 t = 0"
    "ld32 (mem s1) (term_buffer_enable s t) = ld32 (mem s) (term_buffer_enable s t)" by auto
  have be: "term_buffer_enable s1 t = term_buffer_enable s t" by (simp add: term_addr_defs s1(6))
  have "await_enter (map (press dsw) (d # ds) @ hs) s = await_enter (map (press dsw) ds @ hs) s1"
    using Cons.prems(2,3) s1(1) by (subst await_enter.simps) simp
  with Cons.IH [OF s1(2,7,8,3), of cs] rest Cons.prems(6) show ?case by (auto simp: s1 xs be)
qed

lemma disjoint_left: "X \<subseteq> Y \<Longrightarrow> Y \<inter> B = {} \<Longrightarrow> X \<inter> B = {}"
  by blast

lemma read_terminal_copy_line:
  fixes s :: "'a keyboard_scheme"
  assumes "rds (mem s) (term_keyboard_buf s (disp_term_k s) (int k)) (Suc (length xs)) = xs @ [10]"
    and "10 \<notin> set xs" and "k + length xs < 127" and "int (k + length xs) < num"
    and "span (buf + of_nat k) (Suc (length xs)) \<inter> span (term_keyboard_buf s (disp_term_k s) 0) 127 = {}"
  shows "read_terminal_copy buf num (int k) s =
    (int (k + length xs), s\<lparr>mem := wrs (mem s) (buf + of_nat k) (xs @ [10])\<rparr>)"
  using assms
proof (induction xs arbitrary: k s)
  case Nil
  let ?b = "term_keyboard_buf s (disp_term_k s)"
  have v: "mem s (?b (int k)) = 10" using Nil.prems(1) by (simp add: rds_Suc)
  have "?b (int k) \<in> span (?b 0) 127" unfolding kbuf_index using Nil.prems(3) by (intro in_spanI) simp
  then have "?b (int k) \<noteq> buf + of_nat k" using Nil.prems(5) by (auto simp: span_Suc)
  then show ?case using v Nil.prems(3,4)
    by (subst read_terminal_copy.simps) (simp add: Let_def term_addr_defs)
next
  case (Cons x xs)
  let ?b = "term_keyboard_buf s (disp_term_k s)"
  let ?s1 = "s\<lparr>mem := (mem s)(buf + of_nat k := x)\<rparr>"
  have v: "mem s (?b (int k)) = x" "rds (mem s) (?b (int k) + 1) (Suc (length xs)) = xs @ [10]"
    using Cons.prems(1) rds_Cons [of "mem s" "?b (int k)" "Suc (length xs)"] by simp_all
  have nxt: "?b (int k) + 1 = ?b (int (Suc k))" by (simp add: term_keyboard_buf_def)
  have inb: "?b (int j) \<in> span (?b 0) 127" if "j < 127" for j unfolding kbuf_index using that by (intro in_spanI)
  have bk: "buf + of_nat k \<notin> span (?b 0) 127" using Cons.prems(5) span_Cons [of "buf + of_nat k"] by auto
  then have ne: "?b (int k) \<noteq> buf + of_nat k" using inb [of k] Cons.prems(3) by auto
  have sub: "span (?b (int (Suc k))) (Suc (length xs)) \<subseteq> span (?b 0) 127"
    unfolding kbuf_index using Cons.prems(3) by (intro sub_span) simp
  have "rds (mem ?s1) (?b (int (Suc k))) (Suc (length xs)) = xs @ [10]"
  proof -
    have "buf + of_nat k \<notin> span (?b (int (Suc k))) (Suc (length xs))" using bk sub by blast
    then show ?thesis using v(2) unfolding nxt by (simp add: rds_upd)
  qed
  moreover have "term_keyboard_buf ?s1 = term_keyboard_buf s" by (simp add: term_addr_defs fun_eq_iff)
  moreover have "span (buf + of_nat (Suc k)) (Suc (length xs)) \<inter> span (?b 0) 127 = {}"
  proof -
    have e: "buf + of_nat (Suc k) = buf + of_nat k + 1" by simp
    have sub: "span (buf + of_nat k + 1) (Suc (length xs)) \<subseteq> span (buf + of_nat k) (Suc (length (x # xs)))"
      using span_Cons [of "buf + of_nat k" "Suc (length xs)"] by auto
    show ?thesis unfolding e by (rule disjoint_left [OF sub Cons.prems(5)])
  qed
  ultimately have IH: "read_terminal_copy buf num (int (Suc k)) ?s1 =
      (int (Suc k + length xs), ?s1\<lparr>mem := wrs (mem ?s1) (buf + of_nat (Suc k)) (xs @ [10])\<rparr>)"
    using Cons.prems(2-4) by (intro Cons.IH) simp_all
  have e: "?s1\<lparr>mem := (mem s)(buf + of_nat k := x)\<rparr> = ?s1" by simp
  have "read_terminal_copy buf num (int k) s = read_terminal_copy buf num (int k + 1) ?s1"
    using v(1) ne Cons.prems(2-4) by (subst read_terminal_copy.simps) (simp add: Let_def term_addr_defs)
  also have "int k + 1 = int (Suc k)" by simp
  finally show ?case using IH by (simp add: ac_simps)
qed

section \<open>Properties\<close>

text \<open>C16: A program that reads from the terminal gets the line the user types. Let the displayed
  terminal be at the start of a line, and let the user type any keys that stand for characters
  (at most 126, less than the size asked for) and then Enter: the read returns the number of
  characters typed plus one, the buffer holds the characters with a newline behind them, the
  screen shows exactly what was typed, and the terminal is at the start of a line again. The
  read does not return before Enter.\<close>

theorem read_terminal_delivers_line:
  fixes s :: "'a keyboard_scheme"
  assumes ty: "typing s t" and dt: "disp_term_k s = t" and er: "enter_read s t = 0" and ix: "index s t = 0"
    and keys: "list_all2 (types (pointer s)) ds xs" and len: "length xs \<le> 126" "int (length xs) < num"
    and buf: "buf \<noteq> 0" "span buf (Suc (length xs)) \<inter> span (terminals_addr s) 456 = {}"
      "span buf (Suc (length xs)) \<inter> video = {}"
  shows "(\<exists>s'. read_terminal (map (press dsw) (ds @ [0x1C]) @ hs) fd buf num s = Some (int (length xs) + 1, s') \<and>
      rds (mem s') buf (Suc (length xs)) = xs @ [10] \<and> index s' t = 0 \<and> enter_read s' t = 0 \<and>
      tty_of s' = fold tty_putc (xs @ [10]) (tty_of s)) \<and>
     read_terminal (map (press dsw) ds) fd buf num s = None"
proof -
  let ?T = "span (terminals_addr s) 456" and ?s0 = "s\<lparr>mem := st32 (mem s) (term_buffer_enable s t) 1\<rparr>"
  have t3: "t \<in> {0, 1, 2}" and ap: "?T \<inter> video = {}" using ty by (auto simp: typing_def terms_apart_def)
  have tty0: "tty_of ?s0 = tty_of s"
    using buffer_enable_span [OF t3, of s] ap by (intro tty_of_mem st32_other) blast
  have s0: "typing ?s0 t" "disp_term_k ?s0 = t" "enter_read ?s0 t = 0" "editing ?s0 t []"
    using ty dt er ix by (simp_all add: typing_def terms_apart_def on_screen_def editing_def)
  have p0: "list_all2 (types (pointer ?s0)) ds xs" using keys by simp
  note aw = await_enter_typed [OF s0 p0, of dsw]
  obtain s1 where s1: "await_enter (map (press dsw) ds @ map (press dsw) [0x1C] @ hs) ?s0 = await_enter (map (press dsw) [0x1C] @ hs) s1"
    "typing s1 t" "editing s1 t xs" "tty_of s1 = fold tty_putc xs (tty_of s)" "terminals_addr s1 = terminals_addr s"
    "disp_term_k s1 = t" "enter_read s1 t = 0" "ld32 (mem s1) (term_buffer_enable s t) = 1"
    using aw [of "map (press dsw) [0x1C] @ hs"] len(1) tty0 by (auto simp: term_addr_defs)
  have be1: "term_buffer_enable s1 t = term_buffer_enable s t" by (simp add: term_addr_defs s1(5))
  obtain s2 where s2: "press dsw 0x1C s1 = Some s2" "editing s2 t (xs @ [10, 10])"
    "tty_of s2 = tty_putc 10 (tty_of s1)" "terminals_addr s2 = terminals_addr s" "disp_term_k s2 = t" "enter_read s2 t = 1"
    using press_enter [OF s1(2,3), of dsw] len(1) s1(5,8) be1 by auto
  have wait: "await_enter (map (press dsw) (ds @ [0x1C]) @ hs) ?s0 = Some s2"
    using s1(1,6,7) s2(1,5,6)
    by (simp add: await_enter.simps [of "press dsw 0x1C # hs"] await_enter.simps [of hs])
  let ?b = "term_keyboard_buf s2 t 0" and ?m3 = "wrs (mem s2) buf (xs @ [10])"
  let ?m4 = "wrs ?m3 ?b (replicate 128 0)" and ?e = "term_buffer_enable s2 t"
  have b: "span ?b 128 \<subseteq> ?T" "span ?b 127 \<subseteq> ?T" "span ?e 4 \<subseteq> ?T"
    using kbuf_span [OF t3, of 128 s2] kbuf_span [OF t3, of 127 s2] buffer_enable_span [OF t3, of s2] s2(4) by simp_all
  have "rds (mem s2) ?b (Suc (length xs)) = xs @ [10]"
  proof -
    have "rds (mem s2) ?b (Suc (length xs)) = take (Suc (length xs)) (rds (mem s2) ?b (length (xs @ [10, 10])))"
      by (intro nth_equalityI) auto
    also have "\<dots> = take (Suc (length xs)) (xs @ [10, 10])" using s2(2) unfolding editing_def by metis
    finally show ?thesis by simp
  qed
  then have "read_terminal_copy buf num 0 s2 = (int (length xs), s2\<lparr>mem := ?m3\<rparr>)"
    using read_terminal_copy_line [of s2 0 xs num buf] len b(2) buf(2) keys s2(5)
    by (auto simp: types_def list_all2_conv_all_nth in_set_conv_nth)
  moreover have "memset m ?b 0 128 = wrs m ?b (replicate 128 0)" for m using memset_wrs [of m ?b 0 128] by simp
  ultimately have ret: "read_terminal (map (press dsw) (ds @ [0x1C]) @ hs) fd buf num s = Some (int (length xs) + 1,
      s2\<lparr>mem := st32 ?m4 ?e 0, index := (index s2)(t := 0), enter_read := (enter_read s2)(t := 0)\<rparr>)"
    using wait buf(1) dt s2(5) by (simp add: read_terminal_def Let_def term_addr_defs)
  have keep: "st32 ?m4 ?e 0 x = ?m3 x" if "x \<notin> ?T" for x
    using that b(1,3) by (subst st32_other, blast) (intro wrs_other, auto)
  have "rds (st32 ?m4 ?e 0) buf (Suc (length xs)) = rds ?m3 buf (Suc (length xs))"
    using buf(2) by (intro rds_cong keep) (metis disjoint_iff in_spanI)
  also have "\<dots> = xs @ [10]" using rds_wrs [of "xs @ [10]" "mem s2" buf] len(1) by simp
  finally have r: "rds (st32 ?m4 ?e 0) buf (Suc (length xs)) = xs @ [10]" .
  have v: "st32 ?m4 ?e 0 x = mem s2 x" if "x \<in> video" for x
  proof -
    have "x \<notin> ?T" "x \<notin> span buf (length (xs @ [10]))" using that ap buf(3) by auto
    then show ?thesis using keep [of x] wrs_other [of x buf "xs @ [10]"] by simp
  qed
  let ?s' = "s2\<lparr>mem := st32 ?m4 ?e 0, index := (index s2)(t := 0), enter_read := (enter_read s2)(t := 0)\<rparr>"
  have "tty_of ?s' = tty_of (s2\<lparr>mem := st32 ?m4 ?e 0\<rparr>)" by (simp add: tty_of_def)
  also have "\<dots> = fold tty_putc (xs @ [10]) (tty_of s)" using tty_of_mem [of "st32 ?m4 ?e 0" s2] v s2(3) s1(4) by simp
  finally have "tty_of ?s' = fold tty_putc (xs @ [10]) (tty_of s)" .
  moreover have "await_enter (map (press dsw) ds) ?s0 = None"
    using aw [of "[]"] len(1) by (auto simp: await_enter.simps [of "[]"])
  then have "read_terminal (map (press dsw) ds) fd buf num s = None"
    using buf(1) dt by (simp add: read_terminal_def)
  ultimately show ?thesis using ret r by auto
qed

definition demo_keyboard :: keyboard where
  "demo_keyboard = \<lparr>mem = (\<lambda>_. 0), io = [], dev = (\<lambda>h p. 0), iflag = False,
     screen_x = 0, screen_y = 0, master_mask = 0xFF, slave_mask = 0xFF, interrupt_rtc = 0, freq_value = 0,
     page_directory = (\<lambda>_. 0), page_table = (\<lambda>_. 0), vidmap_pt = (\<lambda>_. 0),
     page_directory_addr = 0x500000, page_table_addr = 0x501000, vidmap_pt_addr = 0x502000,
     cr0 = 1, cr3 = 0, cr4 = 0, user_frame = 0, frames = (\<lambda>f off. 0), idt_table = idt_table demo_fs,
     dir_count = 2, inode_count = 1, data_count = 1, bootblock_addr = 0x1000, num_files_read = 0,
     inodes = 0x2000, esp = 0x7FFF00,
     flag = 1, pointer = Lower, case_status = 0, control_status = 0, alt_status = 0, caps_enable = 0,
     is_alphabet = 0, enter_read = (\<lambda>_. 0), number_printed_line = 0, index = (\<lambda>_. 0), disp_term_k = 0,
     terminals_addr = 0x400000, running_terminal = 0, next_term = 0, active_terminal = 0, ascii_stray = (\<lambda>_. 0)\<rparr>"

lemma demo_typing: "typing demo_keyboard 0"
proof -
  have "span (0x400000 :: u32) 456 \<inter> video = {}" by (rule span_disjoint_above) simp_all
  then show ?thesis by (simp add: demo_keyboard_def typing_def terms_apart_def on_screen_def)
qed

theorem read_terminal_delivers_line_witness:
  "\<exists>s'. read_terminal (map (press (\<lambda>_. Some)) ([0x26, 0x1F] @ [0x1C]) @ []) 0 0x8000 32 demo_keyboard = Some (3, s') \<and>
     rds (mem s') 0x8000 3 = [108, 115, 10]"
proof -
  have "span (0x8000 :: u32) 3 \<inter> span 0x400000 456 = {}" "span (0x8000 :: u32) 3 \<inter> video = {}"
    by (rule span_disjoint_below; simp)+
  moreover have "list_all2 (types (pointer demo_keyboard)) [0x26, 0x1F] [108, 115]"
    by (simp add: demo_keyboard_def types_def modifier_def table_of_def lower_def)
  moreover have "disp_term_k demo_keyboard = 0" "enter_read demo_keyboard 0 = 0" "index demo_keyboard 0 = 0"
    "terminals_addr demo_keyboard = 0x400000"
    by (simp_all add: demo_keyboard_def)
  ultimately show ?thesis
    using read_terminal_delivers_line [OF demo_typing, where ds = "[0x26, 0x1F]" and xs = "[108, 115]" and num = 32
        and buf = "0x8000" and dsw = "\<lambda>_. Some" and hs = "[]" and fd = 0]
    by (auto simp: numeral_3_eq_3)
qed

lemma await_enter_now: "enter_read s (disp_term_k s) \<noteq> 0 \<Longrightarrow> await_enter hs s = Some s"
  by (simp add: await_enter.simps)

lemma read_terminal_copy_full:
  fixes s :: "'a keyboard_scheme"
  assumes "10 \<notin> set (rds (mem s) (term_keyboard_buf s (disp_term_k s) (int k)) n)" and "k + n \<le> 127"
    and "span (buf + of_nat k) n \<inter> span (term_keyboard_buf s (disp_term_k s) 0) 127 = {}"
  shows "fst (read_terminal_copy buf (int (k + n)) (int k) s) = int (k + n)"
  using assms
proof (induction n arbitrary: k s)
  case 0
  then show ?case by (simp add: read_terminal_copy.simps)
next
  case (Suc n)
  let ?b = "term_keyboard_buf s (disp_term_k s)"
  let ?x = "mem s (?b (int k))"
  let ?s1 = "s\<lparr>mem := (mem s)(buf + of_nat k := ?x)\<rparr>"
  have nxt: "?b (int k) + 1 = ?b (int (Suc k))" by (simp add: term_keyboard_buf_def)
  have v: "?x \<noteq> 10" "10 \<notin> set (rds (mem s) (?b (int (Suc k))) n)"
    using Suc.prems(1) by (auto simp: rds_Cons nxt)
  have bk: "buf + of_nat k \<notin> span (?b 0) 127" using Suc.prems(3) span_Cons [of "buf + of_nat k" n] by auto
  have sub: "span (?b (int (Suc k))) n \<subseteq> span (?b 0) 127"
    unfolding kbuf_index using Suc.prems(2) by (intro sub_span) simp
  have "rds (mem ?s1) (?b (int (Suc k))) n = rds (mem s) (?b (int (Suc k))) n"
  proof -
    have "buf + of_nat k \<notin> span (?b (int (Suc k))) n" using bk sub by blast
    then show ?thesis by (simp add: rds_upd)
  qed
  moreover have tb: "term_keyboard_buf ?s1 = term_keyboard_buf s" by (simp add: term_addr_defs fun_eq_iff)
  moreover have "span (buf + of_nat (Suc k)) n \<inter> span (?b 0) 127 = {}"
  proof -
    have e: "buf + of_nat (Suc k) = buf + of_nat k + 1" by simp
    have sub: "span (buf + of_nat k + 1) n \<subseteq> span (buf + of_nat k) (Suc n)"
      using span_Cons [of "buf + of_nat k" n] by auto
    show ?thesis unfolding e by (rule disjoint_left [OF sub Suc.prems(3)])
  qed
  ultimately have IH: "fst (read_terminal_copy buf (int (Suc k + n)) (int (Suc k)) ?s1) = int (Suc k + n)"
    using Suc.prems(2) v(2) by (intro Suc.IH) simp_all
  have "?b (int k) \<in> span (?b 0) 127" unfolding kbuf_index using Suc.prems(2) by (intro in_spanI) simp
  then have ne: "?b (int k) \<noteq> buf + of_nat k" using bk by auto
  have "read_terminal_copy buf (int (k + Suc n)) (int k) s = read_terminal_copy buf (int (k + Suc n)) (int k + 1) ?s1"
    using v(1) ne Suc.prems(2) by (subst read_terminal_copy.simps) (simp add: Let_def term_addr_defs)
  then show ?case using IH by (simp add: ac_simps)
qed

text \<open>When the bytes asked for hold no newline, \<open>read_terminal\<close> stores \<open>num\<close> bytes but returns
  \<open>num + 1\<close>, one more than it stored.\<close>

theorem read_terminal_overcounts:
  fixes s :: "'a keyboard_scheme"
  assumes "disp_term_k s = t" and "t \<in> {0, 1, 2}" and "enter_read s t \<noteq> 0" and "buf \<noteq> 0" and "n \<le> 127"
    and "10 \<notin> set (rds (mem s) (term_keyboard_buf s t 0) n)"
    and "span buf n \<inter> span (term_keyboard_buf s t 0) 127 = {}"
  shows "\<exists>s'. read_terminal hs fd buf (int n) s = Some (int n + 1, s')"
proof -
  let ?s0 = "s\<lparr>mem := st32 (mem s) (term_buffer_enable s t) 1\<rparr>"
  have "rds (mem ?s0) (term_keyboard_buf s t 0) n = rds (mem s) (term_keyboard_buf s t 0) n"
  proof (rule rds_cong)
    fix i assume "i < n"
    then have "term_keyboard_buf s t 0 + of_nat i \<notin> span (term_buffer_enable s t) 4"
      using buffer_enable_not_kbuf [of i s t] assms(5) by simp
    then show "mem ?s0 (term_keyboard_buf s t 0 + of_nat i) = mem s (term_keyboard_buf s t 0 + of_nat i)"
      by (simp add: st32_other)
  qed
  then have "fst (read_terminal_copy buf (int n) 0 ?s0) = int n"
    using read_terminal_copy_full [of ?s0 0 n buf] assms by (simp add: term_addr_defs)
  moreover have "await_enter hs ?s0 = Some ?s0" using assms(1,3) by (intro await_enter_now) simp
  ultimately show ?thesis
    using assms(1,4) by (cases "read_terminal_copy buf (int n) 0 ?s0") (simp add: read_terminal_def Let_def)
qed

theorem read_terminal_overcounts_witness:
  "\<exists>s'. read_terminal [] 0 0x8000 4 (demo_keyboard\<lparr>enter_read := (\<lambda>_. 1)\<rparr>) = Some (5, s')"
proof -
  let ?s = "demo_keyboard\<lparr>enter_read := (\<lambda>_. 1)\<rparr>"
  have b: "term_keyboard_buf ?s 0 0 = 0x400010" by (simp add: term_addr_defs demo_keyboard_def)
  have "span (0x8000 :: u32) 4 \<inter> span 0x400010 127 = {}" by (rule span_disjoint_below) simp_all
  moreover have "10 \<notin> set (rds (mem ?s) 0x400010 4)" by (auto simp: rds_def demo_keyboard_def)
  moreover have "disp_term_k ?s = 0" by (simp add: demo_keyboard_def)
  ultimately show ?thesis
    using read_terminal_overcounts [where s = ?s and t = 0 and buf = "0x8000" and n = 4 and hs = "[]" and fd = 0]
    by (simp add: b)
qed

lemma table_of_backspace: "table_of p ! unat (0x0E :: u8) = 8"
  by (cases p) (simp_all add: table_of_def lower_def uppershift_def caps_def lowershift_def)

lemma handle_key_backspace:
  assumes "table_of (pointer s) ! unat d = 8" and "alt_status s \<noteq> 1" and "control_status s = 0"
    and "number_printed_line s \<noteq> 0"
  shows "handle_key dsw d s = Some (send_eoi 1 (send_eoi 1 (putc 8 (s\<lparr>
     mem := (mem s)(term_keyboard_buf s (disp_term_k s) (index s (disp_term_k s) - 1) := 0),
     index := (index s)(disp_term_k s := index s (disp_term_k s) - 1),
     number_printed_line := number_printed_line s - 1\<rparr>))))"
  unfolding handle_key_def cntl_l_check_off [OF assms(3)] using assms
  by (simp add: Let_def key_noprint_def)

text \<open>C38: Backspace takes back the last character of the line: with a non-empty line, something
  printed since the last newline and the cursor not in the top left corner, the line loses
  exactly its last character and the screen moves back by one cell, which is blanked.\<close>

theorem backspace_takes_back:
  fixes s :: "'a keyboard_scheme"
  assumes ty: "typing s t" and ed: "editing s t (xs @ [c])" and len: "length xs < 128"
    and n: "number_printed_line s \<noteq> 0" and xy: "screen_x s \<noteq> 0 \<or> screen_y s \<noteq> 0"
  shows "\<exists>s'. press dsw 0x0E s = Some s' \<and> editing s' t xs \<and> typing s' t \<and> tty_of s' = tty_back (tty_of s) \<and>
     number_printed_line s' = number_printed_line s - 1"
proof -
  let ?d = "s\<lparr>dev := (\<lambda>h p. if p = KEYBOARD_ENCODER then 0x0E else dev s h p)\<rparr>"
  let ?k = "key_seen ?d" and ?b = "term_keyboard_buf s t 0"
  let ?u = "?k\<lparr>mem := (mem s)(?b + of_nat (length xs) := 0), index := (index s)(t := int (length xs)),
     number_printed_line := number_printed_line s - 1\<rparr>"
  have t: "active_terminal s = t" "t \<in> {0, 1, 2}" using ty by (auto simp: typing_def)
  have ix: "index s t = int (length xs) + 1" and rd: "rds (mem s) ?b (Suc (length xs)) = xs @ [c]"
    using ed by (simp_all add: editing_def)
  have kb: "term_keyboard_buf ?k = term_keyboard_buf s" by (simp add: term_addr_defs fun_eq_iff)
  have h: "press dsw 0x0E s = Some (send_eoi 1 (send_eoi 1 (putc 8 ?u)))"
    using handle_key_backspace [of ?k "0x0E" dsw] keyboard_handler_plain [of ?d "0x0E" dsw] ty n table_of_backspace
    by (simp add: press_def typing_def modifier_def ix kb kbuf_index t)
  have on: "on_screen ?u" and xy': "(8 :: u8) = BACKSPACE \<longrightarrow> screen_x ?u \<noteq> 0 \<or> screen_y ?u \<noteq> 0"
    using ty xy by (simp_all add: typing_def on_screen_def)
  note pr = putc_refines [OF on xy']
  have a: "?b + of_nat (length xs) \<in> span (terminals_addr s) 456" "span ?b (length xs) \<subseteq> span (terminals_addr s) 456"
    using kbuf_span [OF t(2), of "Suc (length xs)" s] kbuf_span [OF t(2), of "length xs" s] len
      in_spanI [of "length xs" "Suc (length xs)"] by fastforce+
  have ap: "span (terminals_addr s) 456 \<inter> video = {}" using ty by (simp add: typing_def terms_apart_def)
  have "screen ((mem s)(?b + of_nat (length xs) := 0)) = screen (mem s)"
    using a(1) ap by (intro screen_cong) auto
  then have tty: "tty_of ?u = tty_of s" by (simp add: tty_of_def)
  have "rds (mem (putc 8 ?u)) ?b (length xs) = rds (mem ?u) ?b (length xs)"
  proof (rule rds_cong)
    fix i assume "i < length xs"
    then have "?b + of_nat i \<in> span ?b (length xs)" by (rule in_spanI)
    then have "?b + of_nat i \<notin> video" using a(2) ap by blast
    then show "mem (putc 8 ?u) (?b + of_nat i) = mem ?u (?b + of_nat i)" by (rule pr(3))
  qed
  also have "\<dots> = rds (mem s) ?b (length xs)"
  proof -
    have "?b + of_nat (length xs) \<notin> span ?b (length xs)" using len by (auto simp: in_span_iff word_of_nat_eq_iff)
    then show ?thesis by (simp add: rds_upd)
  qed
  also have "\<dots> = xs" using rd by (simp add: rds_Suc)
  finally have "editing (putc 8 ?u) t xs" by (simp add: editing_def term_addr_defs)
  moreover have "tty_of (putc 8 ?u) = tty_back (tty_of s)" using pr(2) tty by (simp add: tty_putc_def)
  moreover have "typing (putc 8 ?u) t" using ty pr(1) by (simp add: typing_def terms_apart_def)
  ultimately show ?thesis using h by (auto simp: typing_def terms_apart_def)
qed

theorem backspace_takes_back_witness:
  "\<exists>s'. press (\<lambda>_. Some) 0x0E (demo_keyboard\<lparr>screen_x := 1, index := (\<lambda>_. 1), number_printed_line := 1\<rparr>) = Some s' \<and>
     index s' 0 = 0"
proof -
  let ?s = "demo_keyboard\<lparr>screen_x := 1, index := (\<lambda>_. 1), number_printed_line := 1\<rparr>"
  have "typing ?s 0" using demo_typing by (simp add: typing_def terms_apart_def on_screen_def)
  moreover have "editing ?s 0 ([] @ [0])"
    by (simp add: editing_def rds_Suc) (simp add: demo_keyboard_def)
  ultimately obtain s' where "press (\<lambda>_. Some) 0x0E ?s = Some s'" "editing s' 0 []"
    using backspace_takes_back [of ?s 0 "[]" 0 "\<lambda>_. Some"] by auto
  then show ?thesis by (auto simp: editing_def)
qed

text \<open>After a line has been read the count of printed characters is 1 while the line is empty,
  and Backspace then goes below the start of the line: the index becomes -1 and the byte before
  the buffer, the top byte of the saved cursor row, is cleared.\<close>

theorem backspace_underruns_buffer:
  fixes s :: "'a keyboard_scheme"
  assumes "typing s t" and "index s t = 0" and "number_printed_line s = 1" and "screen_x s \<noteq> 0 \<or> screen_y s \<noteq> 0"
  shows "\<exists>s'. press dsw 0x0E s = Some s' \<and> index s' t = - 1 \<and> mem s' (term_screen_y s t + 3) = 0"
proof -
  let ?d = "s\<lparr>dev := (\<lambda>h p. if p = KEYBOARD_ENCODER then 0x0E else dev s h p)\<rparr>"
  let ?k = "key_seen ?d" and ?a = "term_screen_y s t + 3"
  let ?u = "?k\<lparr>mem := (mem s)(?a := 0), index := (index s)(t := - 1), number_printed_line := 0\<rparr>"
  have t: "active_terminal s = t" "t \<in> {0, 1, 2}" using assms(1) by (auto simp: typing_def)
  have kb: "term_keyboard_buf s t (- 1) = ?a" by (simp add: term_addr_defs)
  have h: "press dsw 0x0E s = Some (send_eoi 1 (send_eoi 1 (putc 8 ?u)))"
    using handle_key_backspace [of ?k "0x0E" dsw] keyboard_handler_plain [of ?d "0x0E" dsw] assms table_of_backspace
    by (simp add: press_def typing_def modifier_def kb t)
  have on: "on_screen ?u" and xy': "(8 :: u8) = BACKSPACE \<longrightarrow> screen_x ?u \<noteq> 0 \<or> screen_y ?u \<noteq> 0"
    using assms by (simp_all add: typing_def on_screen_def)
  have "?a \<in> span (term_base s t + of_nat 12) 4"
    using in_spanI [of 3 4 "term_base s t + of_nat 12"] by (simp add: term_screen_y_def)
  then have "?a \<notin> video"
    using term_offset_span [OF t(2), of 12 4 s] assms(1) by (auto simp: typing_def terms_apart_def)
  then have "mem (putc 8 ?u) ?a = 0" using putc_refines(3) [OF on xy'] by simp
  then show ?thesis using h by auto
qed

theorem backspace_underruns_buffer_witness:
  "\<exists>s'. press (\<lambda>_. Some) 0x0E (demo_keyboard\<lparr>screen_x := 1, number_printed_line := 1\<rparr>) = Some s' \<and> index s' 0 = - 1"
proof -
  let ?s = "demo_keyboard\<lparr>screen_x := 1, number_printed_line := 1\<rparr>"
  have "typing ?s 0" using demo_typing by (simp add: typing_def terms_apart_def on_screen_def)
  moreover have "index ?s 0 = 0" by (simp add: demo_keyboard_def)
  ultimately show ?thesis using backspace_underruns_buffer [of ?s 0 "\<lambda>_. Some"] by auto
qed

text \<open>The line buffer has no bound: the 129th character of a line is stored in the byte behind
  the buffer, the \<open>terminal_flag\<close> of the same terminal, whose value tells the kernel that the
  terminal has no shell yet.\<close>

theorem long_line_sets_terminal_flag:
  fixes s :: "'a keyboard_scheme"
  assumes ty: "typing s t" and ix: "index s t = 128" and key: "types (pointer s) d c"
  shows "\<exists>s'. press dsw d s = Some s' \<and> mem s' (term_flag s t) = c \<and> index s' t = 129"
proof -
  let ?d = "s\<lparr>dev := (\<lambda>h p. if p = KEYBOARD_ENCODER then d else dev s h p)\<rparr>"
  let ?k = "key_seen ?d" and ?a = "term_flag s t"
  let ?u = "(store_key c ?k)\<lparr>number_printed_line := number_printed_line s + 1\<rparr>"
  have t: "active_terminal s = t" "t \<in> {0, 1, 2}" using ty by (auto simp: typing_def)
  have h: "press dsw d s = Some (send_eoi 1 (putc c ?u))"
    using handle_key_char [of ?k d c dsw] keyboard_handler_plain [of ?d d dsw] ty key
    by (simp add: press_def types_def typing_def)
  have m: "mem ?u ?a = c" using t ix by (simp add: store_key_mem term_addr_defs)
  have "?a \<in> span (term_base s t + of_nat 144) 1"
    using in_spanI [of 0 1 "term_base s t + of_nat 144"] by (simp add: term_flag_def)
  then have nv: "?a \<notin> video" using term_offset_span [OF t(2), of 144 1 s] ty by (auto simp: typing_def terms_apart_def)
  have on: "on_screen ?u" and c: "c = BACKSPACE \<longrightarrow> screen_x ?u \<noteq> 0 \<or> screen_y ?u \<noteq> 0"
    using ty key by (simp_all add: typing_def on_screen_def types_def)
  have "mem (putc c ?u) ?a = c" using putc_refines(3) [OF on c nv] m by simp
  then show ?thesis using h t ix by auto
qed

theorem long_line_sets_terminal_flag_witness:
  "\<exists>s'. press (\<lambda>_. Some) 0x1E (demo_keyboard\<lparr>index := (\<lambda>_. 128)\<rparr>) = Some s' \<and>
     mem s' (term_flag (demo_keyboard\<lparr>index := (\<lambda>_. 128)\<rparr>) 0) = 97"
proof -
  let ?s = "demo_keyboard\<lparr>index := (\<lambda>_. 128)\<rparr>"
  have "typing ?s 0" using demo_typing by (simp add: typing_def terms_apart_def on_screen_def)
  moreover have "types (pointer ?s) 0x1E 97"
    by (simp add: demo_keyboard_def types_def modifier_def table_of_def lower_def)
  ultimately show ?thesis using long_line_sets_terminal_flag [of ?s 0 "0x1E" 97 "\<lambda>_. Some"] by auto
qed

subsection \<open>Modifiers\<close>

text \<open>The keys the user holds down, from the scan codes alone: a code below 128 presses a key, and the code
  128 above it releases that key.\<close>

definition hold :: "u8 \<Rightarrow> u8 set \<Rightarrow> u8 set" where
  "hold d K = (if d < 0x80 then insert d K else K - {d - 0x80})"

definition shift_held :: "u8 set \<Rightarrow> bool" where
  "shift_held K \<longleftrightarrow> 0x2A \<in> K \<or> 0x36 \<in> K"

text \<open>A Shift key went down and since then neither Caps Lock was pressed nor a Shift key released.\<close>

definition shift_kept :: "u8 list \<Rightarrow> bool" where
  "shift_kept ds \<longleftrightarrow> (\<exists>xs d ys. ds = xs @ d # ys \<and> d \<in> {0x2A, 0x36} \<and> set ys \<inter> {0x3A, 0xAA, 0xB6} = {})"

lemma shift_kept_Nil [simp]: "\<not> shift_kept []"
  by (simp add: shift_kept_def)

lemma shift_kept_snoc [simp]:
  "shift_kept (ds @ [d]) \<longleftrightarrow> d \<in> {0x2A, 0x36} \<or> (shift_kept ds \<and> d \<notin> {0x3A, 0xAA, 0xB6})"
proof
  assume "shift_kept (ds @ [d])"
  then obtain xs c ys where s: "ds @ [d] = xs @ c # ys" "c \<in> {0x2A, 0x36}" "set ys \<inter> {0x3A, 0xAA, 0xB6} = {}"
    unfolding shift_kept_def by (elim exE conjE) (rule that)
  show "d \<in> {0x2A, 0x36} \<or> (shift_kept ds \<and> d \<notin> {0x3A, 0xAA, 0xB6})"
  proof (cases ys rule: rev_cases)
    case Nil
    then show ?thesis using s by simp
  next
    case (snoc zs z)
    then have "ds = xs @ c # zs" "z = d" using s(1) by simp_all
    then have "shift_kept ds" unfolding shift_kept_def using s(2,3) snoc by (intro exI [of _ xs] exI [of _ c] exI [of _ zs]) simp
    then show ?thesis using s(3) snoc \<open>z = d\<close> by simp
  qed
next
  assume "d \<in> {0x2A, 0x36} \<or> (shift_kept ds \<and> d \<notin> {0x3A, 0xAA, 0xB6})"
  then show "shift_kept (ds @ [d])"
  proof
    assume "d \<in> {0x2A, 0x36}"
    then show ?thesis unfolding shift_kept_def by (intro exI [of _ ds] exI [of _ d] exI [of _ "[]"]) simp
  next
    assume h: "shift_kept ds \<and> d \<notin> {0x3A, 0xAA, 0xB6}"
    then obtain xs c ys where "ds = xs @ c # ys" "c \<in> {0x2A, 0x36}" "set ys \<inter> {0x3A, 0xAA, 0xB6} = {}"
      unfolding shift_kept_def by (elim exE conjE) (rule that)
    then show ?thesis using h unfolding shift_kept_def
      by (intro exI [of _ xs] exI [of _ c] exI [of _ "ys @ [d]"]) auto
  qed
qed

text \<open>Caps Lock is on after an odd number of presses. Those two facts are all the driver remembers.\<close>

definition table_for :: "bool \<Rightarrow> bool \<Rightarrow> key_table" where
  "table_for cl sh = (if cl then (if sh then Lowershift else Caps) else (if sh then Uppershift else Lower))"

lemma key_status_step:
  assumes "caps_enable s = (if c then 1 else 0)" and "pointer s = table_for c k"
  shows "caps_enable (key_status d s) = (if c \<noteq> (d = 0x3A) then 1 else 0)"
    and "pointer (key_status d s) = table_for (c \<noteq> (d = 0x3A)) (d \<in> {0x2A, 0x36} \<or> (k \<and> d \<notin> {0x3A, 0xAA, 0xB6}))"
proof -
  consider "d = 0x3A" | "d = 0x2A" | "d = 0x36" | "d = 0xAA" | "d = 0xB6" | "d \<notin> {0x3A, 0x2A, 0x36, 0xAA, 0xB6}"
    by blast
  then have "caps_enable (key_status d s) = (if c \<noteq> (d = 0x3A) then 1 else 0) \<and>
     pointer (key_status d s) = table_for (c \<noteq> (d = 0x3A)) (d \<in> {0x2A, 0x36} \<or> (k \<and> d \<notin> {0x3A, 0xAA, 0xB6}))"
    by cases (use assms in \<open>simp_all add: key_status_def table_for_def\<close>)
  then show "caps_enable (key_status d s) = (if c \<noteq> (d = 0x3A) then 1 else 0)"
    "pointer (key_status d s) = table_for (c \<noteq> (d = 0x3A)) (d \<in> {0x2A, 0x36} \<or> (k \<and> d \<notin> {0x3A, 0xAA, 0xB6}))"
    by blast+
qed

lemma key_status_tables:
  assumes "caps_enable s = 0" and "pointer s = Lower"
  shows "caps_enable (fold key_status ds s) = (if odd (count_list ds 0x3A) then 1 else 0) \<and>
     pointer (fold key_status ds s) = table_for (odd (count_list ds 0x3A)) (shift_kept ds)"
proof (induction ds rule: rev_induct)
  case Nil
  then show ?case using assms by (simp add: table_for_def)
next
  case (snoc d ds)
  let ?c = "odd (count_list ds 0x3A)"
  have "odd (count_list (ds @ [d]) 0x3A) = (?c \<noteq> (d = 0x3A))" by simp
  then show ?case
    unfolding shift_kept_snoc using key_status_step [of "fold key_status ds s" ?c "shift_kept ds" d] snoc by simp
qed

lemma shift_kept_held: "shift_kept ds \<Longrightarrow> shift_held (fold hold ds K)"
proof (induction ds rule: rev_induct)
  case (snoc d ds)
  then show ?case by (auto simp: shift_held_def hold_def [of d])
qed simp

text \<open>The user lets go of Shift before pressing Caps Lock, and holds at most one Shift key when releasing one.\<close>

fun one_shift :: "u8 set \<Rightarrow> u8 list \<Rightarrow> bool" where
  "one_shift K [] = True"
| "one_shift K (d # ds) \<longleftrightarrow> (d \<in> {0x3A, 0xAA, 0xB6} \<longrightarrow> \<not> shift_held (hold d K)) \<and> one_shift (hold d K) ds"

lemma one_shift_snoc [simp]:
  "one_shift K (ds @ [d]) \<longleftrightarrow> one_shift K ds \<and> (d \<in> {0x3A, 0xAA, 0xB6} \<longrightarrow> \<not> shift_held (hold d (fold hold ds K)))"
  by (induction ds arbitrary: K) auto

lemma shift_held_kept: "one_shift {} ds \<Longrightarrow> shift_held (fold hold ds {}) \<Longrightarrow> shift_kept ds"
proof (induction ds rule: rev_induct)
  case Nil
  then show ?case by (simp add: shift_held_def)
next
  case (snoc d ds)
  have "d \<in> {0x2A, 0x36} \<or> shift_held (fold hold ds {})"
    using snoc.prems(2) by (auto simp: shift_held_def hold_def [of d] split: if_splits)
  then show ?case using snoc by auto
qed

text \<open>The letters: on their 26 scan codes a table gives the capital letter when exactly one of Caps Lock and
  Shift is on, and the small letter otherwise.\<close>

definition letter_keys :: "u8 list" where
  "letter_keys = [16, 17, 18, 19, 20, 21, 22, 23, 24, 25, 30, 31, 32, 33, 34, 35, 36, 37, 38,
     44, 45, 46, 47, 48, 49, 50]"

lemma letter_case:
  assumes "d \<in> set letter_keys"
  shows "table_of (table_for cl sh) ! unat d = lower ! unat d - (if cl \<noteq> sh then 32 else 0)"
  using assms unfolding letter_keys_def
  by (auto simp: table_of_def table_for_def lower_def uppershift_def caps_def lowershift_def)

text \<open>C39: After any sequence of scan codes from the state \<open>init_keyboard\<close> sets up, a letter key gives the
  capital letter when exactly one of two things is so: Caps Lock was pressed an odd number of times,
  and the last press of Shift was followed by neither Caps Lock nor the release of a Shift key. Whenever
  the second is so a Shift key is held down; the converse holds when Shift was never held at a press of Caps Lock
  and never still held after the release of the other Shift key.\<close>

theorem letters_follow_modifiers:
  assumes "caps_enable s = 0" and "pointer s = Lower" and "d \<in> set letter_keys"
  shows "table_of (pointer (fold key_status ds s)) ! unat d =
       lower ! unat d - (if odd (count_list ds 0x3A) \<noteq> shift_kept ds then 32 else 0) \<and>
     (shift_kept ds \<longrightarrow> shift_held (fold hold ds {})) \<and>
     (one_shift {} ds \<longrightarrow> shift_kept ds = shift_held (fold hold ds {}))"
proof (intro conjI)
  show "table_of (pointer (fold key_status ds s)) ! unat d =
     lower ! unat d - (if odd (count_list ds 0x3A) \<noteq> shift_kept ds then 32 else 0)"
    using key_status_tables [OF assms(1,2), of ds] letter_case [OF assms(3)] by simp
qed (use shift_kept_held shift_held_kept in blast)+

theorem letters_follow_modifiers_witness:
  "table_of (pointer (fold key_status [0x3A, 0x2A, 0x1E, 0xAA] demo_keyboard)) ! unat (0x1E :: u8) = 65"
proof -
  let ?ds = "[0x3A, 0x2A, 0x1E, 0xAA] :: u8 list"
  have s: "caps_enable demo_keyboard = 0" "pointer demo_keyboard = Lower" by (simp_all add: demo_keyboard_def)
  have m: "(0x1E :: u8) \<in> set letter_keys" by (simp add: letter_keys_def)
  have "shift_held (fold hold ?ds {}) = False" by (simp add: shift_held_def hold_def)
  moreover have "one_shift {} ?ds" by (simp add: shift_held_def hold_def)
  ultimately show ?thesis
    using letters_follow_modifiers [OF s m, of ?ds] by (simp add: lower_def)
qed

text \<open>The two ways in which the driver forgets a Shift key that is still held: the press of Caps Lock, and
  the release of the other Shift key. The letter A is then a small letter with Shift held, or a capital
  letter with Caps Lock on and Shift held.\<close>

theorem held_shift_forgotten:
  assumes "caps_enable s = 0" and "pointer s = Lower"
  shows "shift_held (fold hold [0x2A, 0x3A] {})" and "pointer (fold key_status [0x2A, 0x3A] s) = Caps"
    and "shift_held (fold hold [0x2A, 0x36, 0xB6] {})" and "pointer (fold key_status [0x2A, 0x36, 0xB6] s) = Lower"
  using assms by (simp_all add: shift_held_def hold_def key_status_def)

theorem held_shift_forgotten_witness:
  "pointer (fold key_status [0x2A, 0x36, 0xB6] demo_keyboard) = Lower"
  by (rule held_shift_forgotten(4)) (simp_all add: demo_keyboard_def)

text \<open>The scan code for the release of the right Alt key equals the one for its press, and the
  press is tested first: 0xE0 always leaves Alt held, and then no key enters a character until the
  left Alt key is released.\<close>

theorem right_alt_stays_held: "alt_status (key_status 0xE0 (key_status 0xE0 s)) = 1"
  by (simp add: key_status_def)

end
