(* ===== verification/Descriptors.thy ===== *)
theory Descriptors
  imports Keyboard
begin

text \<open>
  Open files, \<open>syscall.c\<close>: the jump tables and the calls \<open>read\<close>, \<open>write\<close>, \<open>open\<close>, \<open>close\<close> and
  \<open>getargs\<close> (with \<open>_fd\<close> added to the names that Isabelle reserves and, for uniformity, to all
  four). A process control block is raw memory at the bottom of the process's 8 KB kernel
  stack; the jump tables are records of the routines \<open>tables_init\<close> installs, and a descriptor
  refers to one by its address. The addresses of globals and string literals are fields of the
  state, the address of a routine's local \<open>dentry_t\<close> is an argument.

  The state has the fields of the process table, the terminals and the task state segment
  too, which theory Process uses. What a driver promises to \<open>open\<close> and \<open>close\<close> is the locale
  \<open>fd_driver\<close>.
\<close>

section \<open>Definitions\<close>

subsection \<open>State\<close>

text \<open>The routines a jump table can hold; \<open>No_op\<close> is the null pointer before \<open>tables_init\<close>.\<close>

datatype fop = No_op | File_open | File_close | File_read | File_write
  | Directory_open | Directory_close | Directory_read | Directory_write
  | Open_rtc | Close_rtc | Read_rtc | Write_rtc
  | Read_terminal | Write_terminal | Read_failure | Write_failure

record file_operations_t =
  fop_open :: fop
  fop_close :: fop
  fop_read :: fop
  fop_write :: fop

record process = keyboard +
  pcb_state :: "u32 \<Rightarrow> u32"
  terminal_shell :: "int \<Rightarrow> u8"
  active_proc :: int
  temp_fd :: int
  files_table :: file_operations_t
  directory_table :: file_operations_t
  rtc_table :: file_operations_t
  stdin_table :: file_operations_t
  stdout_table :: file_operations_t
  files_table_addr :: u32
  directory_table_addr :: u32
  rtc_table_addr :: u32
  stdin_table_addr :: u32
  stdout_table_addr :: u32
  quit_str :: u32
  shell_str :: u32
  tss_ss0 :: u32
  tss_esp0 :: u32
  ebp :: u32

text \<open>The fields of a process control block behind the descriptors.\<close>

definition pcb_args :: "u32 \<Rightarrow> u32" where
  "pcb_args p = p + 128"

definition pcb_ksp :: "u32 \<Rightarrow> u32" where
  "pcb_ksp p = p + 256"

definition pcb_kbp :: "u32 \<Rightarrow> u32" where
  "pcb_kbp p = p + 260"

definition pcb_pid :: "u32 \<Rightarrow> u32" where
  "pcb_pid p = p + 264"

definition pcb_ss0 :: "u32 \<Rightarrow> u32" where
  "pcb_ss0 p = p + 272"

definition pcb_esp0 :: "u32 \<Rightarrow> u32" where
  "pcb_esp0 p = p + 276"

definition pcb_parent :: "u32 \<Rightarrow> u32" where
  "pcb_parent p = p + 288"

abbreviation put :: "u32 \<Rightarrow> u32 \<Rightarrow> 'a machine_scheme \<Rightarrow> 'a machine_scheme" where
  "put a v s \<equiv> s\<lparr>mem := st32 (mem s) a v\<rparr>"

subsection \<open>Jump tables\<close>

definition tables_init :: "'a process_scheme \<Rightarrow> 'a process_scheme" where
  "tables_init s =
     s\<lparr>files_table := \<lparr>fop_open = File_open, fop_close = File_close, fop_read = File_read, fop_write = File_write\<rparr>,
       directory_table := \<lparr>fop_open = Directory_open, fop_close = Directory_close, fop_read = Directory_read,
         fop_write = Directory_write\<rparr>,
       rtc_table := \<lparr>fop_open = Open_rtc, fop_close = Close_rtc, fop_read = Read_rtc, fop_write = Write_rtc\<rparr>,
       stdin_table := \<lparr>fop_open = Write_failure, fop_close = Write_failure, fop_read = Read_terminal,
         fop_write = Write_failure\<rparr>,
       stdout_table := \<lparr>fop_open = Read_failure, fop_close = Read_failure, fop_read = Read_failure,
         fop_write = Write_terminal\<rparr>\<rparr>"

text \<open>The table a pointer refers to. A call through any other pointer has no result.\<close>

definition fops_at :: "'a process_scheme \<Rightarrow> u32 \<Rightarrow> file_operations_t option" where
  "fops_at s a =
     (if a = files_table_addr s then Some (files_table s)
      else if a = directory_table_addr s then Some (directory_table s)
      else if a = rtc_table_addr s then Some (rtc_table s)
      else if a = stdin_table_addr s then Some (stdin_table s)
      else if a = stdout_table_addr s then Some (stdout_table s) else None)"

definition call_open :: "fop \<Rightarrow> u32 \<Rightarrow> 'a process_scheme \<Rightarrow> (int \<times> 'a process_scheme) option" where
  "call_open f filename s =
     (case f of File_open \<Rightarrow> Some (file_open filename s) | Directory_open \<Rightarrow> Some (directory_open filename s)
      | Open_rtc \<Rightarrow> Some (open_rtc filename s) | Read_failure \<Rightarrow> Some (- 1, s) | Write_failure \<Rightarrow> Some (- 1, s)
      | _ \<Rightarrow> None)"

definition call_close :: "fop \<Rightarrow> int \<Rightarrow> 'a process_scheme \<Rightarrow> (int \<times> 'a process_scheme) option" where
  "call_close f fd s =
     (case f of File_close \<Rightarrow> Some (file_close fd s) | Directory_close \<Rightarrow> Some (directory_close fd s)
      | Close_rtc \<Rightarrow> Some (close_rtc fd s) | Read_failure \<Rightarrow> Some (- 1, s) | Write_failure \<Rightarrow> Some (- 1, s)
      | _ \<Rightarrow> None)"

definition call_read :: "('a process_scheme \<Rightarrow> 'a process_scheme option) list \<Rightarrow> u32 \<Rightarrow> fop \<Rightarrow> int \<Rightarrow> u32 \<Rightarrow> int
    \<Rightarrow> 'a process_scheme \<Rightarrow> (int \<times> 'a process_scheme) option" where
  "call_read hs local f fd buf nbytes s =
     (case f of File_read \<Rightarrow> Some (file_read fd buf nbytes s) | Directory_read \<Rightarrow> directory_read local fd buf nbytes s
      | Read_rtc \<Rightarrow> read_rtc hs fd buf nbytes s | Read_terminal \<Rightarrow> read_terminal hs fd buf nbytes s
      | Read_failure \<Rightarrow> Some (read_failure fd buf nbytes s) | _ \<Rightarrow> None)"

definition call_write :: "fop \<Rightarrow> int \<Rightarrow> u32 \<Rightarrow> int \<Rightarrow> 'a process_scheme \<Rightarrow> (int \<times> 'a process_scheme) option" where
  "call_write f fd buf nbytes s =
     (case f of File_write \<Rightarrow> Some (file_write fd buf nbytes s) | Directory_write \<Rightarrow> Some (directory_write fd buf nbytes s)
      | Write_rtc \<Rightarrow> Some (write_rtc fd buf nbytes s) | Write_terminal \<Rightarrow> Some (write_terminal fd buf nbytes s)
      | Write_failure \<Rightarrow> Some (write_failure fd buf nbytes s) | _ \<Rightarrow> None)"

definition ret_active_proc :: "'a process_scheme \<Rightarrow> int" where
  "ret_active_proc s = active_proc s"

definition ret_active_term :: "'a process_scheme \<Rightarrow> int" where
  "ret_active_term s = active_terminal s"

subsection \<open>Descriptors\<close>

definition read_fd :: "('a process_scheme \<Rightarrow> 'a process_scheme option) list \<Rightarrow> u32 \<Rightarrow> int \<Rightarrow> u32 \<Rightarrow> int
    \<Rightarrow> 'a process_scheme \<Rightarrow> (int \<times> 'a process_scheme) option" where
  "read_fd hs local fd buf nbytes s =
     (let s = sti s;
          curr_pcb = get_pcb s
      in if fd < 0 \<or> fd > 7 \<or> buf = 0 \<or> fd = 1 then Some (- 1, s)
         else if ld32 (mem s) (pcb_flags curr_pcb fd) = 0 then Some (- 1, s)
         else do {
           ops \<leftarrow> fops_at s (ld32 (mem s) (pcb_fops curr_pcb fd));
           call_read hs local (fop_read ops) fd buf nbytes s
         })"

definition write_fd :: "int \<Rightarrow> u32 \<Rightarrow> int \<Rightarrow> 'a process_scheme \<Rightarrow> (int \<times> 'a process_scheme) option" where
  "write_fd fd buf nbytes s =
     (let curr_pcb = get_pcb s
      in if fd < 0 \<or> fd > 7 \<or> buf = 0 then Some (- 1, s)
         else if ld32 (mem s) (pcb_flags curr_pcb fd) = 0 then Some (- 1, s)
         else
           (let s = s\<lparr>temp_fd := fd\<rparr>
            in do {
              ops \<leftarrow> fops_at s (ld32 (mem s) (pcb_fops curr_pcb fd));
              call_write (fop_write ops) fd buf nbytes s
            }))"

text \<open>The loop of \<open>open\<close> leaves \<open>i\<close> at the first descriptor from 2 to 7 that is not in use, or at 8.\<close>

definition free_fd :: "memory \<Rightarrow> u32 \<Rightarrow> int" where
  "free_fd m p = (case find (\<lambda>i. ld32 m (pcb_flags p i) = 0) [2..7] of Some i \<Rightarrow> i | None \<Rightarrow> 8)"

definition open_fd :: "u32 \<Rightarrow> u32 \<Rightarrow> 'a process_scheme \<Rightarrow> (int \<times> 'a process_scheme) option" where
  "open_fd dentry filename s =
     (if filename = 0 \<or> mem s filename = 0 then Some (- 1, s)
      else do {
        (r, s) \<leftarrow> read_dentry_by_name filename dentry s;
        if r = - 1 then Some (- 1, s)
        else
          (let p = get_pcb s; i = free_fd (mem s) p; file_type = ld32 (mem s) (dentry_filetype dentry)
           in if i = 8 then Some (- 1, s)
              else if ld32 (mem s) (pcb_flags p i) \<noteq> 1 then
                (if file_type \<notin> {0, 1, 2} then Some (- 1, s)
                 else
                   (let s = (if file_type = 0 then
                               put (pcb_fops p i) (rtc_table_addr s) (put (pcb_flags p i) 1 (put (pcb_inode p i) 0 s))
                             else if file_type = 1 then
                               put (pcb_fops p i) (directory_table_addr s) (put (pcb_flags p i) 1 (put (pcb_inode p i) 0 s))
                             else
                               put (pcb_file_pos p i) 0 (put (pcb_fops p i) (files_table_addr s) (put (pcb_flags p i) 1
                                 (put (pcb_inode p i) (ld32 (mem s) (dentry_inode_num dentry)) s))))
                    in do {
                      ops \<leftarrow> fops_at s (ld32 (mem s) (pcb_fops p i));
                      (r, s) \<leftarrow> call_open (fop_open ops) filename s;
                      if r = - 1 then Some (- 1, s) else Some (i, s)
                    }))
              else Some (i, s))
      })"

definition close_fd :: "int \<Rightarrow> 'a process_scheme \<Rightarrow> (int \<times> 'a process_scheme) option" where
  "close_fd fd s =
     (let p = get_pcb s
      in if fd < 0 \<or> fd > 7 \<or> fd = 1 \<or> fd = 0 then Some (- 1, s)
         else if ld32 (mem s) (pcb_flags p fd) \<noteq> 0 then
           (let s = put (pcb_inode p fd) 0 (put (pcb_file_pos p fd) 0 (put (pcb_flags p fd) 0 s))
            in do {
              ops \<leftarrow> fops_at s (ld32 (mem s) (pcb_fops p fd));
              (r, s) \<leftarrow> call_close (fop_close ops) fd s;
              Some (0, s)
            })
         else Some (- 1, s))"

text \<open>\<open>nbytes\<close> is compared with the unsigned length, so it is converted to unsigned; it is positive
  there. \<open>args\<close> is an array, never null.\<close>

definition getargs :: "u32 \<Rightarrow> int \<Rightarrow> 'a process_scheme \<Rightarrow> (int \<times> 'a process_scheme) option" where
  "getargs buf nbytes s =
     (if buf = 0 \<or> nbytes \<le> 0 then Some (- 1, s)
      else
        (let args_to_copy = pcb_args (get_pcb s)
         in do {
           n \<leftarrow> strlen (mem s) args_to_copy;
           if (word_of_int nbytes :: u32) < n + 1 then Some (- 1, s)
           else do { m \<leftarrow> strcpy (mem s) buf args_to_copy; Some (0, s\<lparr>mem := m\<rparr>) }
         }))"

section \<open>What a driver promises\<close>

text \<open>\<open>open\<close> and \<open>close\<close> rely on the driver behind a descriptor to return: when opened it accepts the
  file and leaves memory, and so the descriptor table, alone, and when closed it changes nothing.\<close>

locale fd_driver =
  fixes op_open :: "u32 \<Rightarrow> 'a process_scheme \<Rightarrow> (int \<times> 'a process_scheme) option"
    and op_close :: "int \<Rightarrow> 'a process_scheme \<Rightarrow> (int \<times> 'a process_scheme) option"
  assumes open_law: "\<exists>s'. op_open f s = Some (0, s') \<and> mem s' = mem s \<and> esp s' = esp s"
    and close_law: "\<exists>r. op_close fd s = Some (r, s)"
begin

lemma opened:
  "\<exists>s'. do { (r, s) \<leftarrow> op_open f s; if r = - 1 then Some (- 1, s) else Some (i, s) } = Some (i, s') \<and>
     mem s' = mem s \<and> esp s' = esp s"
  using open_law [of f s] by auto

lemma closed:
  "do { (r, s) \<leftarrow> op_close fd s; Some (0, s) } = Some ((0 :: int), s)"
  using close_law [of fd s] by auto

end

interpretation file_driver: fd_driver "call_open File_open" "call_close File_close"
  by unfold_locales (simp_all add: call_open_def call_close_def file_open_def file_close_def)

interpretation directory_driver: fd_driver "call_open Directory_open" "call_close Directory_close"
  by unfold_locales (simp_all add: call_open_def call_close_def directory_open_def directory_close_def)

interpretation rtc_driver: fd_driver "call_open Open_rtc" "call_close Close_rtc"
  by unfold_locales
    (simp_all add: call_open_def call_close_def open_rtc_def close_rtc_def Let_def inb_def outb_def split: prod.splits)

text \<open>The tables are filled in and lie at different addresses.\<close>

definition tables_ready :: "'a process_scheme \<Rightarrow> bool" where
  "tables_ready s \<longleftrightarrow> files_table s = files_table (tables_init s) \<and> directory_table s = directory_table (tables_init s) \<and>
     rtc_table s = rtc_table (tables_init s) \<and> stdin_table s = stdin_table (tables_init s) \<and>
     stdout_table s = stdout_table (tables_init s) \<and>
     distinct [files_table_addr s, directory_table_addr s, rtc_table_addr s, stdin_table_addr s, stdout_table_addr s]"

definition fd_table_addr :: "'a process_scheme \<Rightarrow> u32 \<Rightarrow> u32" where
  "fd_table_addr s ty = (if ty = 0 then rtc_table_addr s else if ty = 1 then directory_table_addr s else files_table_addr s)"

lemma fd_table_addr_image: "fd_table_addr s ` {0, 1, 2} = {rtc_table_addr s, directory_table_addr s, files_table_addr s}"
  by (auto simp: fd_table_addr_def)

lemma tables_init_fields [simp]:
  "mem (tables_init s) = mem s" "esp (tables_init s) = esp s" "pcb_state (tables_init s) = pcb_state s"
  "fop_open (files_table (tables_init s)) = File_open" "fop_close (files_table (tables_init s)) = File_close"
  "fop_open (directory_table (tables_init s)) = Directory_open" "fop_close (directory_table (tables_init s)) = Directory_close"
  "fop_open (rtc_table (tables_init s)) = Open_rtc" "fop_close (rtc_table (tables_init s)) = Close_rtc"
  by (simp_all add: tables_init_def)

lemma tables_ready_at:
  assumes "tables_ready s" and "ty \<in> {0, 1, 2}"
  shows "\<exists>ops. fops_at s (fd_table_addr s ty) = Some ops \<and>
    (fop_open ops, fop_close ops) \<in> {(File_open, File_close), (Directory_open, Directory_close), (Open_rtc, Close_rtc)}"
  using assms by (auto simp: tables_ready_def fd_table_addr_def fops_at_def)

lemma tables_ready_update [simp]:
  "tables_ready (s\<lparr>mem := m\<rparr>) = tables_ready s" "tables_ready (s\<lparr>terminal_shell := h\<rparr>) = tables_ready s"
  by (simp_all add: tables_ready_def tables_init_def)

lemma fops_at_mem [simp]: "fops_at (s\<lparr>mem := m\<rparr>) = fops_at s"
  by (simp add: fops_at_def fun_eq_iff)

lemma driver_opened:
  assumes "(fop_open ops, fop_close ops) \<in> {(File_open, File_close), (Directory_open, Directory_close), (Open_rtc, Close_rtc)}"
  shows "\<exists>s'. do { (r, s) \<leftarrow> call_open (fop_open ops) f s; if r = - 1 then Some (- 1, s) else Some (i, s) } = Some (i, s') \<and>
     mem s' = mem s \<and> esp s' = esp s"
    and "do { (r, s) \<leftarrow> call_close (fop_close ops) fd s; Some (0, s) } = Some ((0 :: int), s)"
  using assms file_driver.opened [of f s i] directory_driver.opened [of f s i] rtc_driver.opened [of f s i]
    file_driver.closed [of fd s] directory_driver.closed [of fd s] rtc_driver.closed [of fd s]
  by auto

section \<open>The descriptor table\<close>

lemmas pcb_fd_defs = pcb_fops_def pcb_inode_def pcb_file_pos_def pcb_flags_def

lemma fd_fields_apart [simp]:
  "ld32 (st32 m (pcb_fops p i) v) (pcb_inode p i) = ld32 m (pcb_inode p i)"
  "ld32 (st32 m (pcb_fops p i) v) (pcb_file_pos p i) = ld32 m (pcb_file_pos p i)"
  "ld32 (st32 m (pcb_fops p i) v) (pcb_flags p i) = ld32 m (pcb_flags p i)"
  "ld32 (st32 m (pcb_inode p i) v) (pcb_fops p i) = ld32 m (pcb_fops p i)"
  "ld32 (st32 m (pcb_inode p i) v) (pcb_file_pos p i) = ld32 m (pcb_file_pos p i)"
  "ld32 (st32 m (pcb_inode p i) v) (pcb_flags p i) = ld32 m (pcb_flags p i)"
  "ld32 (st32 m (pcb_file_pos p i) v) (pcb_fops p i) = ld32 m (pcb_fops p i)"
  "ld32 (st32 m (pcb_file_pos p i) v) (pcb_inode p i) = ld32 m (pcb_inode p i)"
  "ld32 (st32 m (pcb_file_pos p i) v) (pcb_flags p i) = ld32 m (pcb_flags p i)"
  "ld32 (st32 m (pcb_flags p i) v) (pcb_fops p i) = ld32 m (pcb_fops p i)"
  "ld32 (st32 m (pcb_flags p i) v) (pcb_inode p i) = ld32 m (pcb_inode p i)"
  "ld32 (st32 m (pcb_flags p i) v) (pcb_file_pos p i) = ld32 m (pcb_file_pos p i)"
  by (simp_all add: ld32_st32_apart pcb_fd_defs)

text \<open>The sixteen bytes of a descriptor.\<close>

definition fd_span :: "u32 \<Rightarrow> int \<Rightarrow> u32 set" where
  "fd_span p i = span (pcb_fops p i) 16"

lemma fd_store_outside [simp]:
  assumes "x \<notin> fd_span p i"
  shows "st32 m (pcb_fops p i) v x = m x" "st32 m (pcb_inode p i) v x = m x"
    "st32 m (pcb_file_pos p i) v x = m x" "st32 m (pcb_flags p i) v x = m x"
proof -
  have "span (pcb_fops p i + of_nat k) 4 \<subseteq> fd_span p i" if "k \<le> 12" for k
    unfolding fd_span_def by (rule sub_span) (use that in simp)
  from this [of 0] this [of 4] this [of 8] this [of 12] assms
  show "st32 m (pcb_fops p i) v x = m x" "st32 m (pcb_inode p i) v x = m x"
    "st32 m (pcb_file_pos p i) v x = m x" "st32 m (pcb_flags p i) v x = m x"
    by (auto simp: pcb_fd_defs intro!: st32_other)
qed

lemma fd_span_in_table:
  assumes "0 \<le> i" and "i < 8"
  shows "fd_span p i \<subseteq> span p 128"
proof -
  have "pcb_fops p i = p + of_nat (16 * nat i)" using assms(1) by (simp add: pcb_fops_def)
  then show ?thesis unfolding fd_span_def using assms sub_span [of "16 * nat i" 16 128 p] by simp
qed

lemma fd_spans_apart:
  assumes "0 \<le> i" "i < 8" "0 \<le> j" "j < 8" "i \<noteq> j"
  shows "fd_span p i \<inter> fd_span p j = {}"
proof -
  have "(of_nat (16 * nat i + a) :: u32) \<noteq> of_nat (16 * nat j + b)" if "a < 16" "b < 16" for a b
  proof -
    have "16 * nat i + a \<noteq> 16 * nat j + b"
    proof
      assume "16 * nat i + a = 16 * nat j + b"
      then have "(16 * nat i + a) div 16 = (16 * nat j + b) div 16" by simp
      then show False using that assms by simp
    qed
    then show ?thesis using that assms by (subst word_of_nat_eq_iff) auto
  qed
  then have "pcb_fops p i + of_nat a \<noteq> pcb_fops p j + of_nat b" if "a < 16" "b < 16" for a b
    using that assms by (simp add: pcb_fops_def add.assoc)
  then show ?thesis by (auto simp: fd_span_def in_span_iff)
qed

lemma flags_in_fd_span: "span (pcb_flags p i) 4 \<subseteq> fd_span p i"
  unfolding fd_span_def using sub_span [of 12 4 16 "pcb_fops p i"] by (simp add: pcb_fd_defs)

lemma flags_cong: "(\<And>x. x \<in> fd_span p i \<Longrightarrow> m' x = m x) \<Longrightarrow> ld32 m' (pcb_flags p i) = ld32 m (pcb_flags p i)"
  using flags_in_fd_span by (intro ld32_disjoint) blast

text \<open>Descriptor \<open>i\<close> is the one \<open>open\<close> takes.\<close>

definition lowest_free :: "memory \<Rightarrow> u32 \<Rightarrow> int \<Rightarrow> bool" where
  "lowest_free m p i \<longleftrightarrow> 2 \<le> i \<and> i \<le> 7 \<and> ld32 m (pcb_flags p i) = 0 \<and>
     (\<forall>j. 2 \<le> j \<and> j < i \<longrightarrow> ld32 m (pcb_flags p j) \<noteq> 0)"

definition fds_full :: "memory \<Rightarrow> u32 \<Rightarrow> bool" where
  "fds_full m p \<longleftrightarrow> (\<forall>j. 2 \<le> j \<and> j \<le> 7 \<longrightarrow> ld32 m (pcb_flags p j) \<noteq> 0)"

lemma find_upto_None: "find P [a..b] = None \<longleftrightarrow> (\<forall>j. a \<le> j \<and> j \<le> b \<longrightarrow> \<not> P j)"
  by (auto simp: find_None_iff)

lemma find_upto_Some:
  assumes "find P [a..b] = Some i"
  shows "a \<le> i \<and> i \<le> b \<and> P i \<and> (\<forall>j. a \<le> j \<and> j < i \<longrightarrow> \<not> P j)"
proof -
  obtain k where k: "k < length [a..b]" "P ([a..b] ! k)" "i = [a..b] ! k" "\<forall>j < k. \<not> P ([a..b] ! j)"
    using assms by (auto simp: find_Some_iff)
  have i: "i = a + int k" "i \<le> b" using k(1,3) by (simp_all add: nth_upto)
  have "\<not> P j" if "a \<le> j" "j < i" for j
  proof -
    have "nat (j - a) < k" using that i by linarith
    moreover have "[a..b] ! nat (j - a) = j" using that i by (subst nth_upto) auto
    ultimately show ?thesis using k(4) by metis
  qed
  then show ?thesis using k i by auto
qed

lemma free_fd_cases: "free_fd m p = 8 \<and> fds_full m p \<or> free_fd m p \<noteq> 8 \<and> lowest_free m p (free_fd m p)"
proof (cases "find (\<lambda>i. ld32 m (pcb_flags p i) = 0) [2..7]")
  case None
  then have "free_fd m p = 8" unfolding free_fd_def by (simp only: option.case)
  then show ?thesis using None unfolding find_upto_None fds_full_def by blast
next
  case (Some i)
  then have "free_fd m p = i" unfolding free_fd_def by (simp only: option.case)
  then show ?thesis using find_upto_Some [OF Some] unfolding lowest_free_def by auto
qed

lemma lowest_free_unique: "lowest_free m p i \<Longrightarrow> lowest_free m p j \<Longrightarrow> i = j"
  by (cases i j rule: linorder_cases) (auto simp: lowest_free_def)

lemma free_fd_lowest:
  assumes "lowest_free m p i"
  shows "free_fd m p = i"
proof -
  have "\<not> fds_full m p" using assms unfolding fds_full_def lowest_free_def by blast
  then show ?thesis using free_fd_cases [of m p] lowest_free_unique [OF assms] by blast
qed

lemma free_fd_full:
  assumes "fds_full m p"
  shows "free_fd m p = 8"
proof -
  have "\<not> lowest_free m p i" for i using assms unfolding fds_full_def lowest_free_def by blast
  then show ?thesis using free_fd_cases [of m p] by blast
qed

text \<open>The name a program passes, with room for the local directory entry apart from the boot block and the
  descriptor table.\<close>

definition passed_name :: "u32 \<Rightarrow> u32 \<Rightarrow> u8 list \<Rightarrow> 'a process_scheme \<Rightarrow> bool" where
  "passed_name dentry filename xs s \<longleftrightarrow> filename \<noteq> 0 \<and> xs \<noteq> [] \<and> length xs < 2 ^ 32 \<and> cstr (mem s) filename xs \<and>
     span dentry 40 \<inter> span (bootblock_addr s) 4096 = {} \<and> span dentry 40 \<inter> span (get_pcb s) 128 = {}"

text \<open>A string that the directory holds, first in entry \<open>k\<close>.\<close>

definition first_entry :: "u8 list \<Rightarrow> nat \<Rightarrow> 'a process_scheme \<Rightarrow> bool" where
  "first_entry xs k s \<longleftrightarrow> length xs \<le> 32 \<and> k < 63 \<and> dir_name (mem s) (bootblock_addr s) k = xs \<and>
     (\<forall>j < k. dir_name (mem s) (bootblock_addr s) j \<noteq> xs)"

definition named_entry :: "u32 \<Rightarrow> u32 \<Rightarrow> u8 list \<Rightarrow> nat \<Rightarrow> 'a process_scheme \<Rightarrow> bool" where
  "named_entry dentry filename xs k s \<longleftrightarrow> filename \<noteq> 0 \<and> xs \<noteq> [] \<and> length xs \<le> 32 \<and> cstr (mem s) filename xs \<and>
     k < 63 \<and> dir_name (mem s) (bootblock_addr s) k = xs \<and> (\<forall>j < k. dir_name (mem s) (bootblock_addr s) j \<noteq> xs) \<and>
     span dentry 40 \<inter> span (bootblock_addr s) 4096 = {} \<and> span dentry 40 \<inter> span (get_pcb s) 128 = {}"

lemma named_entry_split: "passed_name dentry filename xs s \<Longrightarrow> first_entry xs k s \<Longrightarrow> named_entry dentry filename xs k s"
  by (simp add: passed_name_def first_entry_def named_entry_def)

text \<open>Either a first entry holds the name, or \<open>open\<close> fails at the lookup.\<close>

lemma open_unknown:
  assumes n: "passed_name dentry filename xs s" and "\<nexists>k. first_entry xs k s"
  shows "open_fd dentry filename s = Some (- 1, s)"
proof -
  have c: "filename \<noteq> 0" "mem s filename \<noteq> 0" "cstr (mem s) filename xs" "length xs < 2 ^ 32"
    using n by (cases xs; auto simp: passed_name_def)+
  have "find (\<lambda>i. dir_name (mem s) (bootblock_addr s) i = xs) [0..<63] = None" if "length xs \<le> 32"
  proof (rule ccontr)
    assume "\<not> ?thesis"
    then obtain k where "find (\<lambda>i. dir_name (mem s) (bootblock_addr s) i = xs) [0..<63] = Some k" by blast
    then have "first_entry xs k s" using that by (auto simp: first_entry_def find_Some_iff)
    then show False using assms(2) by blast
  qed
  then have "read_dentry_by_name filename dentry s = Some (- 1, s)"
    using read_dentry_by_name_find [OF c(3,4), of dentry] by (cases "32 < length xs") auto
  then show ?thesis using c(1,2) by (simp add: open_fd_def)
qed

lemma find_first: "k < n \<Longrightarrow> P k \<Longrightarrow> (\<forall>j < k. \<not> P j) \<Longrightarrow> find P [0..<n] = Some k"
  by (auto simp: find_Some_iff intro!: exI [of _ k])

lemma named_entry_lookup:
  fixes s :: "'a process_scheme"
  assumes ne: "named_entry dentry filename xs k s"
  defines "d \<equiv> direntry (bootblock_addr s) (of_nat k)"
  shows "\<exists>m'. read_dentry_by_name filename dentry s = Some (0, s\<lparr>mem := m'\<rparr>) \<and> mem s filename \<noteq> 0 \<and>
     ld32 m' (dentry_filetype dentry) = ld32 (mem s) (dentry_filetype d) \<and>
     ld32 m' (dentry_inode_num dentry) = ld32 (mem s) (dentry_inode_num d) \<and>
     (\<forall>x. x \<notin> span dentry 40 \<longrightarrow> m' x = mem s x)"
proof -
  have xs: "cstr (mem s) filename xs" "length xs < 2 ^ 32" "length xs \<le> 32" "xs \<noteq> []" and k: "k < 63"
    using ne by (auto simp: named_entry_def)
  have dj: "span dentry 40 \<inter> span d 40 = {}"
    using ne direntry_span [of k "bootblock_addr s"] by (auto simp: named_entry_def d_def)
  have "find (\<lambda>i. dir_name (mem s) (bootblock_addr s) i = xs) [0..<63] = Some k"
    using ne by (intro find_first) (auto simp: named_entry_def)
  then have "read_dentry_by_name filename dentry s = Some (0, s\<lparr>mem := copy_dentry dentry d (mem s)\<rparr>)"
    using read_dentry_by_name_find [OF xs(1,2), of dentry] xs(3) by (simp add: d_def)
  moreover have "mem s filename \<noteq> 0" using xs(1,4) by (cases xs) auto
  ultimately show ?thesis using copy_dentry_ok(2-4) [OF dj, where m = "mem s"] by auto
qed

lemma table_cong:
  assumes "\<And>x. x \<notin> span dentry 40 \<Longrightarrow> m' x = m x" and "span dentry 40 \<inter> span p 128 = {}" and "0 \<le> i" "i < 8"
  shows "ld32 m' (pcb_flags p i) = ld32 m (pcb_flags p i)"
  using assms fd_span_in_table [OF assms(3,4), of p] by (intro flags_cong) blast

lemma lowest_free_cong:
  assumes "\<And>x. x \<notin> span dentry 40 \<Longrightarrow> m' x = m x" and "span dentry 40 \<inter> span p 128 = {}"
  shows "lowest_free m' p i = lowest_free m p i" "fds_full m' p = fds_full m p"
  using table_cong [OF assms(1,2)] by (auto simp: lowest_free_def fds_full_def)

text \<open>What \<open>open\<close> has done when it calls the driver: descriptor \<open>i\<close> is filled in.\<close>

lemma open_entry:
  fixes s :: "'a process_scheme"
  assumes "named_entry dentry filename xs k s" and "tables_ready s" and "lowest_free (mem s) (get_pcb s) i"
  defines "p \<equiv> get_pcb s" and "d \<equiv> direntry (bootblock_addr s) (of_nat k)"
  defines "ty \<equiv> ld32 (mem s) (dentry_filetype d)"
  assumes ty: "ty \<in> {0, 1, 2}"
  shows "\<exists>m' ops. fops_at s (fd_table_addr s ty) = Some ops \<and>
     open_fd dentry filename s =
       do { (r, s) \<leftarrow> call_open (fop_open ops) filename (s\<lparr>mem := m'\<rparr>); if r = - 1 then Some (- 1, s) else Some (i, s) } \<and>
     ld32 m' (pcb_flags p i) = 1 \<and> ld32 m' (pcb_fops p i) = fd_table_addr s ty \<and>
     (ty = 2 \<longrightarrow> ld32 m' (pcb_inode p i) = ld32 (mem s) (dentry_inode_num d) \<and> ld32 m' (pcb_file_pos p i) = 0) \<and>
     (\<forall>x. x \<notin> span dentry 40 \<and> x \<notin> fd_span p i \<longrightarrow> m' x = mem s x)"
proof -
  obtain m1 where m1: "read_dentry_by_name filename dentry s = Some (0, s\<lparr>mem := m1\<rparr>)" "mem s filename \<noteq> 0"
    "ld32 m1 (dentry_filetype dentry) = ty" "ld32 m1 (dentry_inode_num dentry) = ld32 (mem s) (dentry_inode_num d)"
    "\<And>x. x \<notin> span dentry 40 \<Longrightarrow> m1 x = mem s x"
    using named_entry_lookup [OF assms(1)] unfolding ty_def d_def by blast
  have f: "filename \<noteq> 0" "span dentry 40 \<inter> span p 128 = {}" using assms(1) by (auto simp: named_entry_def p_def)
  have gp: "get_pcb (s\<lparr>mem := m\<rparr>) = p" for m by (simp add: get_pcb_def p_def)
  have "lowest_free m1 p i" using assms(3) lowest_free_cong(1) [OF m1(5) f(2)] by (simp add: p_def)
  then have i: "free_fd m1 p = i" "2 \<le> i" "i \<le> 7" "ld32 m1 (pcb_flags p i) = 0"
    using free_fd_lowest [of m1 p i] unfolding lowest_free_def by blast+
  define m2 where "m2 = (if ty = 2
     then st32 (st32 (st32 (st32 m1 (pcb_inode p i) (ld32 (mem s) (dentry_inode_num d))) (pcb_flags p i) 1)
            (pcb_fops p i) (files_table_addr s)) (pcb_file_pos p i) 0
     else st32 (st32 (st32 m1 (pcb_inode p i) 0) (pcb_flags p i) 1) (pcb_fops p i) (fd_table_addr s ty))"
  have m2: "ld32 m2 (pcb_fops p i) = fd_table_addr s ty" "ld32 m2 (pcb_flags p i) = 1"
    "ty = 2 \<Longrightarrow> ld32 m2 (pcb_inode p i) = ld32 (mem s) (dentry_inode_num d) \<and> ld32 m2 (pcb_file_pos p i) = 0"
    "x \<notin> fd_span p i \<Longrightarrow> m2 x = m1 x" for x
    by (auto simp: m2_def fd_table_addr_def)
  obtain ops where ops: "fops_at s (fd_table_addr s ty) = Some ops" using tables_ready_at [OF assms(2) ty] by blast
  have "open_fd dentry filename s =
     do { (r, s) \<leftarrow> call_open (fop_open ops) filename (s\<lparr>mem := m2\<rparr>); if r = - 1 then Some (- 1, s) else Some (i, s) }"
    using ty i m1(1-4) f(1) ops m2(1) by (auto simp: open_fd_def gp Let_def m2_def fd_table_addr_def case_prod_unfold)
  with ops m2 m1(5) show ?thesis by (intro exI [of _ m2] exI [of _ ops]) auto
qed

text \<open>With every descriptor in use, or for an entry of an unknown type, \<open>open\<close> fails.\<close>

lemma open_fails:
  fixes s :: "'a process_scheme"
  assumes "named_entry dentry filename xs k s"
    and full: "ld32 (mem s) (dentry_filetype (direntry (bootblock_addr s) (of_nat k))) \<notin> {0, 1, 2} \<or> fds_full (mem s) (get_pcb s)"
  shows "\<exists>m'. open_fd dentry filename s = Some (- 1, s\<lparr>mem := m'\<rparr>) \<and> (\<forall>x. x \<notin> span dentry 40 \<longrightarrow> m' x = mem s x)"
proof -
  let ?d = "direntry (bootblock_addr s) (of_nat k)" and ?p = "get_pcb s"
  obtain m1 where m1: "read_dentry_by_name filename dentry s = Some (0, s\<lparr>mem := m1\<rparr>)" "mem s filename \<noteq> 0"
    "ld32 m1 (dentry_filetype dentry) = ld32 (mem s) (dentry_filetype ?d)" "\<And>x. x \<notin> span dentry 40 \<Longrightarrow> m1 x = mem s x"
    using named_entry_lookup [OF assms(1)] by blast
  have f: "filename \<noteq> 0" "span dentry 40 \<inter> span ?p 128 = {}" using assms(1) by (auto simp: named_entry_def)
  have gp: "get_pcb (s\<lparr>mem := m\<rparr>) = ?p" for m by (simp add: get_pcb_def)
  have "fds_full m1 ?p = fds_full (mem s) ?p" by (rule lowest_free_cong(2) [OF m1(4) f(2)])
  then have "open_fd dentry filename s = Some (- 1, s\<lparr>mem := m1\<rparr>)"
    using full m1(1-3) f(1) free_fd_full [of m1 ?p] free_fd_cases [of m1 ?p]
    by (auto simp: open_fd_def gp Let_def lowest_free_def)
  with m1(4) show ?thesis by blast
qed

text \<open>C21: Opening a file that the directory names takes the lowest free descriptor from 2 to 7 and
  marks it in use; its operations are those of the file's type (clock, directory, regular), a
  regular file starts at position 0 of the inode the directory gives, and no byte outside
  that descriptor and the local directory entry changes. With descriptors 2 to 7 in use, or an
  unknown file type, the call returns -1 and the descriptor table stays as it is. For a name that no
  entry holds, or one longer than 32 bytes, it returns -1 and changes nothing.\<close>

theorem open_takes_lowest_descriptor:
  fixes s :: "'a process_scheme"
  assumes nm: "passed_name dentry filename xs s" and tr: "tables_ready s"
  defines "p \<equiv> get_pcb s" and "d \<equiv> \<lambda>k. direntry (bootblock_addr s) (of_nat k)"
  defines "ty \<equiv> \<lambda>k. ld32 (mem s) (dentry_filetype (d k))"
  shows "(\<forall>k. first_entry xs k s \<and> ty k \<in> {0, 1, 2} \<and> lowest_free (mem s) p i \<longrightarrow>
      (\<exists>s'. open_fd dentry filename s = Some (i, s') \<and> ld32 (mem s') (pcb_flags p i) = 1 \<and>
         ld32 (mem s') (pcb_fops p i) = fd_table_addr s (ty k) \<and>
         (ty k = 2 \<longrightarrow> ld32 (mem s') (pcb_inode p i) = ld32 (mem s) (dentry_inode_num (d k)) \<and>
            ld32 (mem s') (pcb_file_pos p i) = 0) \<and>
         (\<forall>x. x \<notin> span dentry 40 \<and> x \<notin> fd_span p i \<longrightarrow> mem s' x = mem s x))) \<and>
    (\<forall>k. first_entry xs k s \<and> (ty k \<notin> {0, 1, 2} \<or> fds_full (mem s) p) \<longrightarrow>
      (\<exists>m'. open_fd dentry filename s = Some (- 1, s\<lparr>mem := m'\<rparr>) \<and> (\<forall>x. x \<notin> span dentry 40 \<longrightarrow> m' x = mem s x))) \<and>
    ((length xs \<le> 32 \<longrightarrow> (\<forall>k < 63. dir_name (mem s) (bootblock_addr s) k \<noteq> xs)) \<longrightarrow>
      open_fd dentry filename s = Some (- 1, s))"
proof (intro conjI allI impI)
  fix k assume h: "first_entry xs k s \<and> ty k \<in> {0, 1, 2} \<and> lowest_free (mem s) p i"
  then have ne: "named_entry dentry filename xs k s" using named_entry_split [OF nm] by blast
  obtain m2 ops where m2: "fops_at s (fd_table_addr s (ty k)) = Some ops"
    "open_fd dentry filename s =
       do { (r, s) \<leftarrow> call_open (fop_open ops) filename (s\<lparr>mem := m2\<rparr>); if r = - 1 then Some (- 1, s) else Some (i, s) }"
    "ld32 m2 (pcb_flags p i) = 1" "ld32 m2 (pcb_fops p i) = fd_table_addr s (ty k)"
    "ty k = 2 \<Longrightarrow> ld32 m2 (pcb_inode p i) = ld32 (mem s) (dentry_inode_num (d k)) \<and> ld32 m2 (pcb_file_pos p i) = 0"
    "\<And>x. x \<notin> span dentry 40 \<Longrightarrow> x \<notin> fd_span p i \<Longrightarrow> m2 x = mem s x"
    using open_entry [OF ne tr, of i] h unfolding p_def d_def ty_def by blast
  have "(fop_open ops, fop_close ops) \<in> {(File_open, File_close), (Directory_open, Directory_close), (Open_rtc, Close_rtc)}"
    using tables_ready_at [OF tr, of "ty k"] h m2(1) by auto
  from driver_opened(1) [OF this, of filename "s\<lparr>mem := m2\<rparr>" i] m2(2-6)
  show "\<exists>s'. open_fd dentry filename s = Some (i, s') \<and> ld32 (mem s') (pcb_flags p i) = 1 \<and>
       ld32 (mem s') (pcb_fops p i) = fd_table_addr s (ty k) \<and>
       (ty k = 2 \<longrightarrow> ld32 (mem s') (pcb_inode p i) = ld32 (mem s) (dentry_inode_num (d k)) \<and>
          ld32 (mem s') (pcb_file_pos p i) = 0) \<and>
       (\<forall>x. x \<notin> span dentry 40 \<and> x \<notin> fd_span p i \<longrightarrow> mem s' x = mem s x)"
    by auto
next
  fix k assume h: "first_entry xs k s \<and> (ty k \<notin> {0, 1, 2} \<or> fds_full (mem s) p)"
  then have ne: "named_entry dentry filename xs k s" using named_entry_split [OF nm] by blast
  show "\<exists>m'. open_fd dentry filename s = Some (- 1, s\<lparr>mem := m'\<rparr>) \<and> (\<forall>x. x \<notin> span dentry 40 \<longrightarrow> m' x = mem s x)"
    using open_fails [OF ne] h unfolding p_def ty_def d_def by blast
next
  assume "length xs \<le> 32 \<longrightarrow> (\<forall>k < 63. dir_name (mem s) (bootblock_addr s) k \<noteq> xs)"
  then show "open_fd dentry filename s = Some (- 1, s)" by (intro open_unknown [OF nm]) (auto simp: first_entry_def)
qed

definition demo_process :: process where
  "demo_process = \<lparr>mem = demo_mem, io = [], dev = (\<lambda>h p. 0), iflag = False,
     screen_x = 0, screen_y = 0, master_mask = 0xFF, slave_mask = 0xFF, interrupt_rtc = 0, freq_value = 0,
     page_directory = (\<lambda>_. 0), page_table = (\<lambda>_. 0), vidmap_pt = (\<lambda>_. 0),
     page_directory_addr = 0x500000, page_table_addr = 0x501000, vidmap_pt_addr = 0x502000,
     cr0 = 1, cr3 = 0, cr4 = 0, user_frame = 0, frames = (\<lambda>f off. 0), idt_table = idt_table demo_fs,
     dir_count = 2, inode_count = 1, data_count = 1, bootblock_addr = 0x1000, num_files_read = 0,
     inodes = 0x2000, esp = 0x7FFF00,
     flag = 1, pointer = Lower, case_status = 0, control_status = 0, alt_status = 0, caps_enable = 0,
     is_alphabet = 0, enter_read = (\<lambda>_. 0), number_printed_line = 0, index = (\<lambda>_. 0), disp_term_k = 0,
     terminals_addr = 0x400000, running_terminal = 0, next_term = 0, active_terminal = 0, ascii_stray = (\<lambda>_. 0),
     pcb_state = (\<lambda>_. 0), terminal_shell = (\<lambda>_. 0xFF), active_proc = - 1, temp_fd = 0,
     files_table = \<lparr>fop_open = File_open, fop_close = File_close, fop_read = File_read, fop_write = File_write\<rparr>,
     directory_table = \<lparr>fop_open = Directory_open, fop_close = Directory_close, fop_read = Directory_read,
       fop_write = Directory_write\<rparr>,
     rtc_table = \<lparr>fop_open = Open_rtc, fop_close = Close_rtc, fop_read = Read_rtc, fop_write = Write_rtc\<rparr>,
     stdin_table = \<lparr>fop_open = Write_failure, fop_close = Write_failure, fop_read = Read_terminal,
       fop_write = Write_failure\<rparr>,
     stdout_table = \<lparr>fop_open = Read_failure, fop_close = Read_failure, fop_read = Read_failure,
       fop_write = Write_terminal\<rparr>,
     files_table_addr = 0x503000, directory_table_addr = 0x503010, rtc_table_addr = 0x503020,
     stdin_table_addr = 0x503030, stdout_table_addr = 0x503040, quit_str = 0x504000, shell_str = 0x504008,
     tss_ss0 = 0x18, tss_esp0 = 0x800000, ebp = 0x7FFF40\<rparr>"

lemma demo_process_simps [simp]:
  "mem demo_process = demo_mem" "bootblock_addr demo_process = 0x1000" "get_pcb demo_process = 0x7FE000"
  "esp demo_process = 0x7FFF00" "data_count demo_process = 1"
  by (simp_all add: demo_process_def get_pcb_def)

lemma demo_tables_ready: "tables_ready demo_process"
  by (simp add: tables_ready_def demo_process_def tables_init_def)

lemma demo_pcb_clear: "x \<in> span 0x7FE000 0x2000 \<Longrightarrow> demo_mem x = 0"
proof -
  assume "x \<in> span 0x7FE000 0x2000"
  then have "unat (x - 0x7FE000) < 0x2000" by (subst (asm) in_span_unat) simp_all
  then have lt: "x - 0x7FE000 < 0x2000" by (simp add: word_less_nat_alt)
  have ne: "x \<noteq> c" if "\<not> (c - 0x7FE000 < (0x2000 :: u32))" for c using that lt by auto
  show ?thesis unfolding demo_mem_def by (simp add: ne)
qed

lemma demo_flags: "0 \<le> i \<Longrightarrow> i < 8 \<Longrightarrow> ld32 demo_mem (pcb_flags 0x7FE000 i) = 0"
proof -
  assume i: "0 \<le> i" "i < 8"
  have "ld32 demo_mem (pcb_flags 0x7FE000 i) = ld32 (\<lambda>_. 0) (pcb_flags 0x7FE000 i)"
  proof (rule ld32_disjoint)
    fix x assume "x \<in> span (pcb_flags 0x7FE000 i) 4"
    then have "x \<in> span 0x7FE000 0x2000"
      using flags_in_fd_span fd_span_in_table [OF i] span_mono [of 128 "0x2000" "0x7FE000"] by fastforce
    then show "demo_mem x = 0" by (rule demo_pcb_clear)
  qed
  then show ?thesis by (simp add: ld32_def)
qed

lemma demo_names: "dir_name demo_mem 0x1000 0 = [46]" "dir_name demo_mem 0x1000 (Suc 0) = [97]"
  using cstr_name_of [of demo_mem "0x1040" "[46]" 32] cstr_name_of [of demo_mem "0x1080" "[97]" 32]
  by (simp_all add: dir_name_def direntry_def demo_mem_def [of "0x1040"] demo_mem_def [of "0x1041"]
      demo_mem_def [of "0x1080"] demo_mem_def [of "0x1081"])

lemma demo_named_entry: "named_entry 0x6000 0x5000 [97] 1 demo_process"
proof -
  have "span (0x6000 :: u32) 40 \<inter> span 0x1000 4096 = {}" by (rule span_disjoint_above) simp_all
  moreover have "span (0x6000 :: u32) 40 \<inter> span 0x7FE000 128 = {}" by (rule span_disjoint_below) simp_all
  moreover have "cstr demo_mem 0x5000 [97]" by (simp add: demo_mem_def)
  ultimately show ?thesis by (simp add: named_entry_def demo_names)
qed

lemma demo_passed_name: "passed_name 0x6000 0x5000 [97] demo_process" "first_entry [97] 1 demo_process"
  using demo_named_entry by (simp_all add: passed_name_def first_entry_def named_entry_def)

theorem open_takes_lowest_descriptor_witness:
  "\<exists>s'. open_fd 0x6000 0x5000 demo_process = Some (2, s') \<and> ld32 (mem s') (pcb_flags 0x7FE000 2) = 1 \<and>
     ld32 (mem s') (pcb_fops 0x7FE000 2) = 0x503000"
proof -
  have t: "ld32 demo_mem (dentry_filetype (direntry 0x1000 1)) = 2"
    by (simp add: dentry_filetype_def direntry_def ld32_def demo_mem_def)
  have "lowest_free demo_mem 0x7FE000 2" using demo_flags by (simp add: lowest_free_def)
  moreover have "fd_table_addr demo_process 2 = 0x503000" by (simp add: fd_table_addr_def demo_process_def)
  ultimately show ?thesis
    using open_takes_lowest_descriptor [OF demo_passed_name(1) demo_tables_ready, of 2] demo_passed_name(2) t
    by (auto dest: spec [of _ 1])
qed

text \<open>For a regular file nothing but memory changes.\<close>

lemma open_regular_file:
  fixes s :: "'a process_scheme"
  assumes "named_entry dentry filename xs k s" and "tables_ready s" and lf: "lowest_free (mem s) (get_pcb s) i"
  defines "p \<equiv> get_pcb s" and "d \<equiv> direntry (bootblock_addr s) (of_nat k)"
  assumes ty: "ld32 (mem s) (dentry_filetype d) = 2"
  shows "\<exists>m'. open_fd dentry filename s = Some (i, s\<lparr>mem := m'\<rparr>) \<and> ld32 m' (pcb_flags p i) = 1 \<and>
     ld32 m' (pcb_fops p i) = files_table_addr s \<and> ld32 m' (pcb_inode p i) = ld32 (mem s) (dentry_inode_num d) \<and>
     ld32 m' (pcb_file_pos p i) = 0 \<and> (\<forall>x. x \<notin> span dentry 40 \<and> x \<notin> fd_span p i \<longrightarrow> m' x = mem s x)"
proof -
  obtain m2 ops where m2: "fops_at s (fd_table_addr s 2) = Some ops"
    "open_fd dentry filename s =
       do { (r, s) \<leftarrow> call_open (fop_open ops) filename (s\<lparr>mem := m2\<rparr>); if r = - 1 then Some (- 1, s) else Some (i, s) }"
    "ld32 m2 (pcb_flags p i) = 1" "ld32 m2 (pcb_fops p i) = fd_table_addr s 2"
    "ld32 m2 (pcb_inode p i) = ld32 (mem s) (dentry_inode_num d)" "ld32 m2 (pcb_file_pos p i) = 0"
    "\<And>x. x \<notin> span dentry 40 \<Longrightarrow> x \<notin> fd_span p i \<Longrightarrow> m2 x = mem s x"
    using open_entry [OF assms(1-3)] ty unfolding p_def d_def by auto
  have "ops = files_table s" using m2(1) by (simp add: fd_table_addr_def fops_at_def)
  then have "fop_open ops = File_open" using assms(2) by (simp add: tables_ready_def)
  with m2(2) have "open_fd dentry filename s = Some (i, s\<lparr>mem := m2\<rparr>)" by (simp add: call_open_def file_open_def)
  then show ?thesis using m2(3-7) by (auto simp: fd_table_addr_def)
qed

text \<open>Opening a directory sets the index of the next entry back too.\<close>

lemma open_directory:
  fixes s :: "'a process_scheme"
  assumes "named_entry dentry filename xs k s" and "tables_ready s" and lf: "lowest_free (mem s) (get_pcb s) i"
  defines "p \<equiv> get_pcb s" and "d \<equiv> direntry (bootblock_addr s) (of_nat k)"
  assumes ty: "ld32 (mem s) (dentry_filetype d) = 1"
  shows "\<exists>m'. open_fd dentry filename s = Some (i, s\<lparr>mem := m', num_files_read := 0\<rparr>) \<and> ld32 m' (pcb_flags p i) = 1 \<and>
     ld32 m' (pcb_fops p i) = directory_table_addr s \<and> (\<forall>x. x \<notin> span dentry 40 \<and> x \<notin> fd_span p i \<longrightarrow> m' x = mem s x)"
proof -
  obtain m2 ops where m2: "fops_at s (fd_table_addr s 1) = Some ops"
    "open_fd dentry filename s =
       do { (r, s) \<leftarrow> call_open (fop_open ops) filename (s\<lparr>mem := m2\<rparr>); if r = - 1 then Some (- 1, s) else Some (i, s) }"
    "ld32 m2 (pcb_flags p i) = 1" "ld32 m2 (pcb_fops p i) = fd_table_addr s 1"
    "\<And>x. x \<notin> span dentry 40 \<Longrightarrow> x \<notin> fd_span p i \<Longrightarrow> m2 x = mem s x"
    using open_entry [OF assms(1-3)] ty unfolding p_def d_def by auto
  have "ops = directory_table s" using m2(1) assms(2) by (auto simp: fd_table_addr_def fops_at_def tables_ready_def split: if_splits)
  then have "fop_open ops = Directory_open" using assms(2) by (simp add: tables_ready_def)
  with m2(2) have "open_fd dentry filename s = Some (i, s\<lparr>mem := m2, num_files_read := 0\<rparr>)"
    by (simp add: call_open_def directory_open_def)
  then show ?thesis using m2(3-5) by (auto simp: fd_table_addr_def)
qed

text \<open>The memory after descriptor \<open>fd\<close> has been given back.\<close>

definition freed :: "u32 \<Rightarrow> int \<Rightarrow> memory \<Rightarrow> memory" where
  "freed p fd m = st32 (st32 (st32 m (pcb_flags p fd) 0) (pcb_file_pos p fd) 0) (pcb_inode p fd) 0"

lemma freed_flags [simp]: "ld32 (freed p fd m) (pcb_flags p fd) = 0"
  by (simp add: freed_def)

lemma freed_outside: "x \<notin> fd_span p fd \<Longrightarrow> freed p fd m x = m x"
  by (simp add: freed_def)

text \<open>A descriptor that one of the three drivers serves.\<close>

definition served :: "'a process_scheme \<Rightarrow> int \<Rightarrow> bool" where
  "served s fd \<longleftrightarrow> ld32 (mem s) (pcb_fops (get_pcb s) fd) \<in> {files_table_addr s, directory_table_addr s, rtc_table_addr s}"

lemma close_fd_served:
  assumes "tables_ready s" and "2 \<le> fd" "fd \<le> 7" and "ld32 (mem s) (pcb_flags (get_pcb s) fd) \<noteq> 0" and "served s fd"
  shows "close_fd fd s = Some (0, s\<lparr>mem := freed (get_pcb s) fd (mem s)\<rparr>)"
proof -
  let ?p = "get_pcb s"
  obtain ty where ty: "ty \<in> {0, 1, 2}" "ld32 (mem s) (pcb_fops ?p fd) = fd_table_addr s ty"
    using assms(5) fd_table_addr_image [of s] unfolding served_def
    by (metis (no_types, opaque_lifting) imageE insert_commute)
  then obtain ops where ops: "fops_at s (ld32 (mem s) (pcb_fops ?p fd)) = Some ops"
    "(fop_open ops, fop_close ops) \<in> {(File_open, File_close), (Directory_open, Directory_close), (Open_rtc, Close_rtc)}"
    using tables_ready_at [OF assms(1) ty(1)] by auto
  show ?thesis
    using assms(2-4) ops(1) driver_opened(2) [OF ops(2), of fd "s\<lparr>mem := freed ?p fd (mem s)\<rparr>"]
    by (simp add: close_fd_def Let_def freed_def)
qed

text \<open>C22: Closing gives a descriptor back. Closing a descriptor from 2 to 7 that a driver serves
  returns 0, marks it free and changes no byte outside it, so that a later \<open>open\<close> finds it: it is
  the lowest free one when no lower one is free. Closing 0, 1, a number out of range or a
  descriptor not in use returns -1 and changes nothing.\<close>

theorem close_frees_descriptor:
  fixes s :: "'a process_scheme"
  assumes "tables_ready s"
  defines "p \<equiv> get_pcb s"
  shows "(2 \<le> fd \<and> fd \<le> 7 \<and> ld32 (mem s) (pcb_flags p fd) \<noteq> 0 \<and> served s fd \<longrightarrow>
      (\<exists>s'. close_fd fd s = Some (0, s') \<and> get_pcb s' = p \<and> ld32 (mem s') (pcb_flags p fd) = 0 \<and>
         (\<forall>x. x \<notin> fd_span p fd \<longrightarrow> mem s' x = mem s x) \<and>
         ((\<forall>j. 2 \<le> j \<and> j < fd \<longrightarrow> ld32 (mem s) (pcb_flags p j) \<noteq> 0) \<longrightarrow> lowest_free (mem s') p fd))) \<and>
    (fd < 2 \<or> 7 < fd \<or> ld32 (mem s) (pcb_flags p fd) = 0 \<longrightarrow> close_fd fd s = Some (- 1, s))"
proof (intro conjI impI)
  assume h: "2 \<le> fd \<and> fd \<le> 7 \<and> ld32 (mem s) (pcb_flags p fd) \<noteq> 0 \<and> served s fd"
  let ?s = "s\<lparr>mem := freed p fd (mem s)\<rparr>"
  have "close_fd fd s = Some (0, ?s)" using close_fd_served [OF assms(1), of fd] h by (simp add: p_def)
  moreover have "ld32 (freed p fd (mem s)) (pcb_flags p j) = ld32 (mem s) (pcb_flags p j)" if "2 \<le> j" "j < fd" for j
    using that h fd_spans_apart [of fd j p] by (intro flags_cong freed_outside) auto
  moreover have "get_pcb ?s = p" by (simp add: get_pcb_def p_def)
  ultimately show "\<exists>s'. close_fd fd s = Some (0, s') \<and> get_pcb s' = p \<and> ld32 (mem s') (pcb_flags p fd) = 0 \<and>
      (\<forall>x. x \<notin> fd_span p fd \<longrightarrow> mem s' x = mem s x) \<and>
      ((\<forall>j. 2 \<le> j \<and> j < fd \<longrightarrow> ld32 (mem s) (pcb_flags p j) \<noteq> 0) \<longrightarrow> lowest_free (mem s') p fd)"
    using h by (intro exI [of _ ?s]) (simp add: lowest_free_def freed_outside)
qed (auto simp: close_fd_def p_def Let_def)

theorem close_frees_descriptor_witness:
  "\<exists>s'. close_fd 2 (demo_process\<lparr>mem := st32 (st32 demo_mem (pcb_flags 0x7FE000 2) 1) (pcb_fops 0x7FE000 2) 0x503010\<rparr>)
     = Some (0, s') \<and> lowest_free (mem s') 0x7FE000 2"
proof -
  let ?s = "demo_process\<lparr>mem := st32 (st32 demo_mem (pcb_flags 0x7FE000 2) 1) (pcb_fops 0x7FE000 2) 0x503010\<rparr>"
  have "tables_ready ?s" using demo_tables_ready by simp
  moreover have "get_pcb ?s = 0x7FE000" "directory_table_addr ?s = 0x503010"
    by (simp_all add: get_pcb_def demo_process_def)
  ultimately show ?thesis using close_frees_descriptor [of ?s 2] by (auto simp: served_def)
qed

text \<open>Reading and writing reject a bad descriptor before any driver runs: a number outside 0 to
  7, a null buffer, a descriptor that is not in use and, for reading, descriptor 1. They return
  -1 and change nothing, but that \<open>read\<close> has enabled interrupts. A descriptor in use on a table the
  kernel set up reaches exactly the routine of that table.\<close>

theorem read_write_guarded:
  fixes s :: "'a process_scheme"
  defines "used \<equiv> \<lambda>fd. 0 \<le> fd \<and> fd \<le> 7 \<and> ld32 (mem s) (pcb_flags (get_pcb s) fd) \<noteq> 0"
    and "ops \<equiv> \<lambda>fd. fops_at s (ld32 (mem s) (pcb_fops (get_pcb s) fd))"
  shows "(\<not> used fd \<or> buf = 0 \<or> fd = 1 \<longrightarrow> read_fd hs local fd buf n s = Some (- 1, sti s)) \<and>
     (\<not> used fd \<or> buf = 0 \<longrightarrow> write_fd fd buf n s = Some (- 1, s)) \<and>
     (used fd \<and> buf \<noteq> 0 \<and> fd \<noteq> 1 \<and> ops fd = Some t \<longrightarrow>
        read_fd hs local fd buf n s = call_read hs local (fop_read t) fd buf n (sti s)) \<and>
     (used fd \<and> buf \<noteq> 0 \<and> ops fd = Some t \<longrightarrow>
        write_fd fd buf n s = call_write (fop_write t) fd buf n (s\<lparr>temp_fd := fd\<rparr>))"
  by (auto simp: read_fd_def write_fd_def used_def ops_def Let_def sti_def get_pcb_def fops_at_def)

theorem read_write_guarded_witness:
  "read_fd [] 0 5 0x8000 16 demo_process = Some (- 1, sti demo_process) \<and>
   write_fd 5 0x8000 16 demo_process = Some (- 1, demo_process)"
  using read_write_guarded [where s = demo_process and fd = 5 and buf = "0x8000" and hs = "[]" and local = 0 and n = 16] demo_flags [of 5] by simp

lemma cstr_nonzero: "cstr m a xs \<Longrightarrow> 0 \<notin> set xs"
  by (induction xs arbitrary: a) auto

lemma getargs_copies:
  fixes s :: "'a process_scheme"
  assumes "cstr (mem s) (pcb_args (get_pcb s)) xs" and "length xs < 128" and "nbytes < 2 ^ 31"
    and "span buf (Suc (length xs)) \<inter> span (pcb_args (get_pcb s)) (Suc (length xs)) = {}"
  shows "(buf \<noteq> 0 \<and> int (length xs) < nbytes \<longrightarrow>
       (\<exists>m'. getargs buf nbytes s = Some (0, s\<lparr>mem := m'\<rparr>) \<and> cstr m' buf xs \<and>
          (\<forall>x. x \<notin> span buf (Suc (length xs)) \<longrightarrow> m' x = mem s x))) \<and>
     (buf = 0 \<or> nbytes \<le> int (length xs) \<longrightarrow> getargs buf nbytes s = Some (- 1, s))"
proof -
  have c: "(word_of_int nbytes :: u32) < of_nat (length xs) + 1 \<longleftrightarrow> nbytes \<le> int (length xs)" if "0 < nbytes"
  proof -
    have "unat (word_of_int nbytes :: u32) = nat nbytes"
      using that assms(3) unat_of_nat32 [of "nat nbytes"] by simp
    moreover have "unat (of_nat (length xs) + 1 :: u32) = Suc (length xs)"
      using assms(2) unat_of_nat32 [of "Suc (length xs)"] by (simp add: add.commute)
    ultimately show ?thesis using that by (simp add: word_less_nat_alt) linarith
  qed
  have len: "length xs < 2 ^ 32" "0 \<notin> set xs" using assms(2) cstr_nonzero [OF assms(1)] by simp_all
  show ?thesis
  proof (intro conjI impI)
    assume h: "buf \<noteq> 0 \<and> int (length xs) < nbytes"
    then have "getargs buf nbytes s = Some (0, s\<lparr>mem := wrs (mem s) buf (xs @ [0])\<rparr>)"
      using c strlen_cstr [OF assms(1)] strcpy_cstr [OF assms(1,4)] by (simp add: getargs_def Let_def)
    then show "\<exists>m'. getargs buf nbytes s = Some (0, s\<lparr>mem := m'\<rparr>) \<and> cstr m' buf xs \<and>
        (\<forall>x. x \<notin> span buf (Suc (length xs)) \<longrightarrow> m' x = mem s x)"
      using cstr_wrs_self [OF len] by (auto simp: wrs_other)
  next
    assume "buf = 0 \<or> nbytes \<le> int (length xs)"
    then show "getargs buf nbytes s = Some (- 1, s)"
      using c strlen_cstr [OF assms(1)] by (auto simp: getargs_def Let_def)
  qed
qed

text \<open>\<open>getargs\<close> delivers the argument string the process was started with, its terminating zero
  included, when the caller's buffer has room for both, and changes nothing else; with a
  smaller size, a size that is not positive or a null buffer it returns -1 and stores nothing.\<close>

theorem getargs_delivers:
  fixes s :: "'a process_scheme"
  assumes "cstr (mem s) (pcb_args (get_pcb s)) xs" and "length xs < 128" and "nbytes < 2 ^ 31"
    and "span buf (Suc (length xs)) \<inter> span (pcb_args (get_pcb s)) (Suc (length xs)) = {}"
  shows "(buf \<noteq> 0 \<and> int (length xs) < nbytes \<longrightarrow>
       (\<exists>m'. getargs buf nbytes s = Some (0, s\<lparr>mem := m'\<rparr>) \<and> cstr m' buf xs \<and>
          (\<forall>x. x \<notin> span buf (Suc (length xs)) \<longrightarrow> m' x = mem s x))) \<and>
     (buf = 0 \<or> nbytes \<le> int (length xs) \<longrightarrow> getargs buf nbytes s = Some (- 1, s))"
  by (rule getargs_copies [OF assms])

theorem getargs_delivers_witness:
  "\<exists>m'. getargs 0x8000 10 (demo_process\<lparr>mem := demo_mem(0x7FE080 := 104, 0x7FE081 := 105)\<rparr>) =
       Some (0, demo_process\<lparr>mem := m'\<rparr>) \<and> cstr m' 0x8000 [104, 105]"
proof -
  let ?s = "demo_process\<lparr>mem := demo_mem(0x7FE080 := 104, 0x7FE081 := 105)\<rparr>"
  have a: "pcb_args (get_pcb ?s) = 0x7FE080" by (simp add: pcb_args_def get_pcb_def)
  have "cstr (mem ?s) 0x7FE080 [104, 105]" by (simp add: demo_mem_def)
  moreover have "span (0x8000 :: u32) 3 \<inter> span 0x7FE080 3 = {}" by (rule span_disjoint_below) simp_all
  then have "span (0x8000 :: u32) (Suc (length [104 :: u8, 105])) \<inter> span 0x7FE080 (Suc (length [104 :: u8, 105])) = {}"
    by (simp add: numeral_eq_Suc)
  ultimately show ?thesis using getargs_delivers [of ?s "[104, 105]" 10 "0x8000"] unfolding a by force
qed

end
