(* ===== verification/Process.thy ===== *)
theory Process
  imports Descriptors
begin

text \<open>
  Processes and terminals, \<open>syscall.c\<close>: \<open>execute\<close>, \<open>halt\<close>, \<open>process_init\<close> and \<open>display_switch\<close>, with
  the system call entry of \<open>interrupt.S\<close>.

  A call ends in one of three ways: it returns a value (\<open>Ret\<close>), it enters user mode
  (\<open>User\<close>, with the frame of the \<open>iret\<close> of \<open>execute\<close>), or it gives a status to the \<open>execute\<close> call whose
  frame pointer it restores (\<open>Resume\<close>, the \<open>leave; ret\<close> of \<open>halt\<close>). \<open>execute\<close> and \<open>halt\<close> call each
  other; the list of stack frames \<open>execute\<close> takes has one entry for each nested call, and two
  are enough for every command as long as the literal \<open>"shell"\<close> is intact.
\<close>

section \<open>Definitions\<close>

text \<open>The frame that \<open>execute\<close> pushes for its \<open>iret\<close>, in the order of the pushes. The flags are those of the
  processor with bits of \<open>user_flags\<close> set in addition.\<close>

record iret_frame =
  user_ss :: u32
  user_esp :: u32
  user_flags :: u32
  user_cs :: u32
  user_eip :: u32

definition enter_user :: "u32 \<Rightarrow> iret_frame" where
  "enter_user entry = \<lparr>user_ss = 0x2B, user_esp = 0x083FFFFC, user_flags = 0x200, user_cs = 0x23, user_eip = entry\<rparr>"

text \<open>A call returns, or enters user mode, or resumes the \<open>execute\<close> of a parent.\<close>

datatype 's outcome = Ret int 's | User iret_frame 's | Resume u32 u32 's

text \<open>The frame of a call of \<open>execute\<close>: its local arrays, its stack pointer and its frame pointer.\<close>

record exec_frame =
  cmds :: u32
  cmds_dentry :: u32
  arg_dat :: u32
  exe_data :: u32
  frame_esp :: u32
  frame_ebp :: u32

subsection \<open>Starting a program\<close>

definition clear_locals :: "exec_frame \<Rightarrow> memory \<Rightarrow> memory" where
  "clear_locals fr m = wrs (wrs m (arg_dat fr) (replicate 128 0)) (cmds fr) (replicate 32 0)"

text \<open>The first word of the command. The loop may leave \<open>i\<close> at 32, one past the end of \<open>cmds\<close>.\<close>

function parse_name :: "u32 \<Rightarrow> u32 \<Rightarrow> nat \<Rightarrow> memory \<Rightarrow> nat \<times> memory" where
  "parse_name dst command i m =
     (if i < 32 then
        (if m (command + of_nat i) = 0 then (i, m)
         else if m (command + of_nat i) = 32 \<or> m (command + of_nat i) = 10 then (i, m)
         else parse_name dst command (i + 1) (m(dst + of_nat i := m (command + of_nat i))))
      else (i, m))"
  by pat_completeness auto
termination
  by (relation "measure (\<lambda>(dst, command, i, m). 32 - i)") auto

declare parse_name.simps [simp del]

text \<open>The arguments. The length of the name is computed anew at every turn, from the memory the
  loop writes, and nothing bounds the index by the 128 bytes of \<open>arg_dat\<close>.\<close>

partial_function (option) parse_args :: "u32 \<Rightarrow> u32 \<Rightarrow> u32 \<Rightarrow> u32 \<Rightarrow> memory \<Rightarrow> (u32 \<times> memory) option" where
  "parse_args args name command i m = do {
     n \<leftarrow> strlen m name;
     if m (command + (i + n + 1)) \<noteq> 10 \<and> m (command + (i + n + 1)) \<noteq> 0
     then parse_args args name command (i + 1) (m(args + i := m (command + (i + n + 1))))
     else Some (i, m)
   }"

definition parse_command :: "exec_frame \<Rightarrow> u32 \<Rightarrow> memory \<Rightarrow> (nat \<times> memory) option" where
  "parse_command fr command m =
     (let (i, m) = parse_name (cmds fr) command 0 m;
          m = m(cmds fr + of_nat i := 0)
      in if i = 0 then Some (0, m)
         else do {
           n \<leftarrow> strlen m (cmds fr);
           if m (command + n) = 32 then do {
             (k, m) \<leftarrow> parse_args (arg_dat fr) (cmds fr) command 0 m;
             Some (i, m(arg_dat fr + k := 0))
           }
           else Some (i, m)
         })"

definition is_elf :: "memory \<Rightarrow> u32 \<Rightarrow> bool" where
  "is_elf m a \<longleftrightarrow> m a = 0x7F \<and> m (a + 1) = 0x45 \<and> m (a + 2) = 0x4C \<and> m (a + 3) = 0x46"

definition entry_address :: "memory \<Rightarrow> u32 \<Rightarrow> u32" where
  "entry_address m a = push_bit 24 (ucast (m (a + 27))) OR push_bit 16 (ucast (m (a + 26)))
     OR push_bit 8 (ucast (m (a + 25))) OR ucast (m (a + 24))"

definition pcb_state_full :: "'a process_scheme \<Rightarrow> bool" where
  "pcb_state_full s \<longleftrightarrow> pcb_state s 0 = 1 \<and> pcb_state s 1 = 1 \<and> pcb_state s 2 = 1 \<and>
     pcb_state s 3 = 1 \<and> pcb_state s 4 = 1 \<and> pcb_state s 5 = 1"

text \<open>The loop that takes the first free slot; without one \<open>process_num\<close> stays 0.\<close>

definition take_slot :: "'a process_scheme \<Rightarrow> u32 \<times> 'a process_scheme" where
  "take_slot s =
     (case find (\<lambda>j. pcb_state s j = 0) [0, 1, 2, 3, 4, 5] of
        Some j \<Rightarrow> (j, s\<lparr>pcb_state := (pcb_state s)(j := 1)\<rparr>) | None \<Rightarrow> (0, s))"

definition task_pcb :: "u32 \<Rightarrow> u32" where
  "task_pcb n = 0x800000 - (n + 1) * 0x2000"

text \<open>The process slots of a terminal are signed bytes; a process number is stored in one.\<close>

definition assign_terminal :: "u32 \<Rightarrow> 'a process_scheme \<Rightarrow> 'a process_scheme" where
  "assign_terminal n s =
     (let t = active_terminal s
      in if mem s (term_flag s t) = 1 then
           (let s = (if t = 0 then s\<lparr>terminal_shell := (terminal_shell s)(0 := 0)\<rparr> else s);
                s = s\<lparr>running_terminal := t\<rparr>;
                s = s\<lparr>mem := (mem s)(term_process s t 0 := ucast n)\<rparr>
            in s\<lparr>mem := (mem s)(term_flag s t := 0)\<rparr>)
         else
           (case find (\<lambda>i. mem s (term_process s t i) = 0xFF) [0, 1, 2, 3] of
              Some i \<Rightarrow> s\<lparr>mem := (mem s)(term_process s t i := ucast n)\<rparr> | None \<Rightarrow> s))"

definition std_fds :: "u32 \<Rightarrow> 'a process_scheme \<Rightarrow> 'a process_scheme" where
  "std_fds p s =
     (let s = put (pcb_flags p 0) 1 s;
          s = put (pcb_fops p 0) (stdin_table_addr s) s;
          s = put (pcb_file_pos p 0) 0 s;
          s = put (pcb_flags p 1) 1 s;
          s = put (pcb_fops p 1) (stdout_table_addr s) s;
          s = put (pcb_file_pos p 1) 0 s
      in fold (\<lambda>i s. put (pcb_flags p i) 0 s) [2..7] s)"

text \<open>The descriptors of the new process, its link to the process that called \<open>execute\<close>, what that
  process needs to be resumed, and the kernel stack for the new one.\<close>

definition finish_pcb :: "exec_frame \<Rightarrow> u32 \<Rightarrow> u32 \<Rightarrow> 'a process_scheme \<Rightarrow> 'a process_scheme" where
  "finish_pcb fr p n s =
     (let s = std_fds p s;
          s = put (pcb_parent p) (get_pcb s) s;
          s = put (pcb_kbp (ld32 (mem s) (pcb_parent p))) (frame_ebp fr) s;
          s = put (pcb_ksp (ld32 (mem s) (pcb_parent p))) (frame_esp fr) s;
          s = put (pcb_ss0 (ld32 (mem s) (pcb_parent p))) (tss_ss0 s) s;
          s = put (pcb_esp0 (ld32 (mem s) (pcb_parent p))) (tss_esp0 s) s
      in s\<lparr>tss_ss0 := 0x0018, tss_esp0 := SIZE_8MB - n * 0x2000 - 4\<rparr>)"

text \<open>The part of \<open>execute\<close> after the checks. The process number of the parent is stored through the
  pointer a former owner of the control block left behind, before the pointer is set.\<close>

definition start_process :: "exec_frame \<Rightarrow> u32 \<Rightarrow> 'a process_scheme \<Rightarrow> 'a process_scheme outcome option" where
  "start_process fr entry s =
     (let (n, s) = take_slot s;
          p = task_pcb n;
          s = put (pcb_pid p) n s;
          s = assign_terminal n s;
          s = put (pcb_pid (ld32 (mem s) (pcb_parent p))) (scast (mem s (term_process s (active_terminal s) 0))) s
      in do {
        m \<leftarrow> strcpy (mem s) (pcb_args p) (arg_dat fr);
        let s = page_switch (uint n) (s\<lparr>mem := m\<rparr>);
        let (r, s) = read_data (ld32 (mem s) (dentry_inode_num (cmds_dentry fr))) 0 (SIZE_128MB + 0x48000) (1023 * 4096) s;
        Some (User (enter_user entry) (sti (finish_pcb fr p n s)))
      })"

text \<open>What \<open>execute\<close> does with a parsed command: look the name up, check the file, start it.\<close>

definition run_file :: "exec_frame \<Rightarrow> 'a process_scheme \<Rightarrow> 'a process_scheme outcome option" where
  "run_file fr s = do {
     (r, s) \<leftarrow> read_dentry_by_name (cmds fr) (cmds_dentry fr) s;
     if r = - 1 then Some (Ret (- 1) s)
     else if ld32 (mem s) (dentry_filetype (cmds_dentry fr)) \<noteq> 2 then Some (Ret (- 1) s)
     else
       (let cmds_inode = ld32 (mem s) (dentry_inode_num (cmds_dentry fr));
            (r, s) = read_data cmds_inode 0 (exe_data fr) 40 s
        in if \<not> is_elf (mem s) (exe_data fr) then Some (Ret (- 1) s)
           else
             (let entry = entry_address (mem s) (exe_data fr)
              in if pcb_state_full s then Some (Ret (- 1) s) else start_process fr entry s))
   }"

text \<open>A call that returns goes on; one that enters user mode or resumes a parent does not come back.\<close>

definition if_returns :: "'s outcome \<Rightarrow> ('s \<Rightarrow> 's outcome option) \<Rightarrow> 's outcome option" where
  "if_returns r k = (case r of Ret v s \<Rightarrow> k s | _ \<Rightarrow> Some r)"

definition execute_with :: "(u8 \<Rightarrow> 'a process_scheme \<Rightarrow> 'a process_scheme outcome option) \<Rightarrow> exec_frame \<Rightarrow> u32
    \<Rightarrow> 'a process_scheme \<Rightarrow> 'a process_scheme outcome option" where
  "execute_with hlt fr command s =
     (let s = tables_init s;
          s = s\<lparr>mem := clear_locals fr (mem s)\<rparr>
      in if command = 0 then Some (Ret (- 1) s)
         else do {
           (i, m) \<leftarrow> parse_command fr command (mem s);
           let s = s\<lparr>mem := m\<rparr>;
           if i = 0 then Some (Ret (- 1) s)
           else if strncmp (mem s) (cmds fr) (quit_str s) 4 = 0
           then do { r \<leftarrow> hlt 0 s; if_returns r (run_file fr) }
           else run_file fr s
         })"

fun close_all :: "u32 \<Rightarrow> int list \<Rightarrow> 'a process_scheme \<Rightarrow> 'a process_scheme option" where
  "close_all p [] s = Some s"
| "close_all p (i # is) s =
     (if ld32 (mem s) (pcb_flags p i) = 1 then do { (r, s) \<leftarrow> close_fd i s; close_all p is s }
      else close_all p is s)"

definition resume_parent :: "u8 \<Rightarrow> u32 \<Rightarrow> 'a process_scheme \<Rightarrow> 'a process_scheme outcome" where
  "resume_parent status p s =
     (let s = s\<lparr>pcb_state := (pcb_state s)(ld32 (mem s) (pcb_pid p) := 0)\<rparr>;
          s = page_switch (sint (ld32 (mem s) (pcb_pid (ld32 (mem s) (pcb_parent p))))) s;
          s = s\<lparr>tss_esp0 := SIZE_8MB - ld32 (mem s) (pcb_pid (ld32 (mem s) (pcb_parent p))) * 0x2000 - 4\<rparr>
      in Resume (ucast status) (ld32 (mem s) (pcb_kbp (ld32 (mem s) (pcb_parent p)))) s)"

definition drop_process :: "u32 \<Rightarrow> 'a process_scheme \<Rightarrow> 'a process_scheme" where
  "drop_process pid s =
     (let t = active_terminal s
      in case find (\<lambda>i. scast (mem s (term_process s t i)) = pid) [0, 1, 2, 3] of
           Some i \<Rightarrow> s\<lparr>mem := (mem s)(term_process s t i := 0xFF)\<rparr> | None \<Rightarrow> s)"

definition leave_shell :: "u32 \<Rightarrow> 'a process_scheme \<Rightarrow> 'a process_scheme" where
  "leave_shell p s =
     (if scast (terminal_shell s (active_terminal s)) = ld32 (mem s) (pcb_pid p) then
        s\<lparr>terminal_shell := (terminal_shell s)(active_terminal s :=
           ucast (ld32 (mem s) (pcb_pid (ld32 (mem s) (pcb_parent p)))))\<rparr> else s)"

definition halt_with :: "(u32 \<Rightarrow> 'a process_scheme \<Rightarrow> 'a process_scheme outcome option) \<Rightarrow> u8
    \<Rightarrow> 'a process_scheme \<Rightarrow> 'a process_scheme outcome option" where
  "halt_with exec status s =
     (let p = get_pcb s
      in if pcb_state s (ld32 (mem s) (pcb_pid p)) = 0 then Some (Ret (- 1) s)
         else
           (let first_shell = (scast (mem s (term_process s (active_terminal s) 0)) = ld32 (mem s) (pcb_pid p));
                s = drop_process (ld32 (mem s) (pcb_pid p)) s;
                s = leave_shell p s
            in do {
              s \<leftarrow> close_all p [0..7] s;
              if first_shell
              then do { r \<leftarrow> exec (shell_str s) s; if_returns r (\<lambda>s. Some (resume_parent status p s)) }
              else Some (resume_parent status p s)
            }))"

primrec execute :: "exec_frame list \<Rightarrow> u32 \<Rightarrow> 'a process_scheme \<Rightarrow> 'a process_scheme outcome option" where
  "execute [] = (\<lambda>command s. None)"
| "execute (fr # frs) = execute_with (halt_with (execute frs)) fr"

definition halt :: "exec_frame list \<Rightarrow> u8 \<Rightarrow> 'a process_scheme \<Rightarrow> 'a process_scheme outcome option" where
  "halt frs = halt_with (execute frs)"

subsection \<open>Terminals\<close>

definition process_init :: "'a keyboard_scheme \<Rightarrow> 'a keyboard_scheme" where
  "process_init s =
     (let s = fold (\<lambda>i s.
            (let s = s\<lparr>mem := (mem s)(term_flag s i := 1)\<rparr>;
                 s = put (term_screen_x s i) 0 s;
                 s = put (term_screen_y s i) 0 s;
                 s = put (term_buffer_enable s i) 0 s
             in fold (\<lambda>j s. s\<lparr>mem := (mem s)(term_process s i j := 0xFF)\<rparr>) [0..3] s)) [0..2] s;
          s = s\<lparr>mem := (mem s)(term_flag s 3 := 0)\<rparr>
      in s\<lparr>active_terminal := 0\<rparr>)"

abbreviation TERMINAL_SIZE :: u32 where "TERMINAL_SIZE \<equiv> 0x1000"

text \<open>The page behind video memory that keeps the screen of terminal \<open>t\<close>.\<close>

definition saved_screen :: "int \<Rightarrow> u32" where
  "saved_screen t = VIDEO_MEMORY + push_bit 12 (word_of_int t + 1)"

definition display_switch :: "exec_frame list \<Rightarrow> u32 \<Rightarrow> 'a process_scheme \<Rightarrow> 'a process_scheme outcome option" where
  "display_switch frs term_id s =
     (let p = get_pcb s;
          s = put (pcb_ksp p) (esp s) s;
          s = put (pcb_kbp p) (ebp s) s;
          s = put (term_screen_x s (active_terminal s)) (ucast (get_screenx s)) s;
          s = put (term_screen_y s (active_terminal s)) (ucast (get_screeny s)) s;
          s = s\<lparr>mem := memcpy (mem s) (saved_screen (active_terminal s)) VIDEO_MEMORY TERMINAL_SIZE\<rparr>;
          s = s\<lparr>active_terminal := sint term_id\<rparr>;
          s = page_switch (sint (ld32 (mem s) (pcb_pid (get_pcb s)))) s;
          s = s\<lparr>mem := memcpy (mem s) VIDEO_MEMORY (saved_screen (active_terminal s)) TERMINAL_SIZE\<rparr>;
          s = set_screenx (ucast (ld32 (mem s) (term_screen_x s (active_terminal s)))) s;
          s = set_screeny (ucast (ld32 (mem s) (term_screen_y s (active_terminal s)))) s;
          s = place_cursor (get_screenx s) (get_screeny s) s
      in if mem s (term_flag s (active_terminal s)) \<noteq> 0
         then do { r \<leftarrow> execute frs (shell_str s) s; if_returns r (\<lambda>s. Some (Ret 0 s)) }
         else Some (Ret 0 s))"

subsection \<open>The system call entry\<close>

abbreviation ret :: "(int \<times> 's) option \<Rightarrow> 's outcome option" where
  "ret r \<equiv> map_option (\<lambda>(v, s). Ret v s) r"

text \<open>The dispatch of \<open>handle_SIG_SYSCALL\<close>. It admits the numbers 1 to 10 and the table has the
  eight calls 1 to 8: a call of 9 or 10 jumps through whatever follows the table.\<close>

definition syscall :: "exec_frame list \<Rightarrow> ('a process_scheme \<Rightarrow> 'a process_scheme option) list \<Rightarrow> u32
    \<Rightarrow> u32 \<Rightarrow> u32 \<Rightarrow> u32 \<Rightarrow> u32 \<Rightarrow> 'a process_scheme \<Rightarrow> 'a process_scheme outcome option" where
  "syscall frs hs local eax ebx ecx edx s =
     (if sint eax \<le> 0 \<or> sint eax > 10 then Some (Ret (- 1) s)
      else if eax = 1 then halt frs (ucast ebx) s
      else if eax = 2 then execute frs ebx s
      else if eax = 3 then ret (read_fd hs local (sint ebx) ecx (sint edx) s)
      else if eax = 4 then ret (write_fd (sint ebx) ecx (sint edx) s)
      else if eax = 5 then ret (open_fd local ebx s)
      else if eax = 6 then ret (close_fd (sint ebx) s)
      else if eax = 7 then ret (getargs ebx (sint ecx) s)
      else if eax = 8 then Some (case vidmap ebx s of (v, s) \<Rightarrow> Ret v s)
      else None)"

section \<open>Parsing a command\<close>

definition word_char :: "u8 \<Rightarrow> bool" where
  "word_char c \<longleftrightarrow> c \<noteq> 0 \<and> c \<noteq> 32 \<and> c \<noteq> 10"

lemma parse_name_word:
  assumes "\<And>j. j < length xs \<Longrightarrow> m (command + of_nat (i + j)) = xs ! j" and "list_all word_char xs"
    and "\<not> word_char (m (command + of_nat (i + length xs)))" and "i + length xs < 32"
    and "span dst 32 \<inter> span command 33 = {}"
  shows "parse_name dst command i m = (i + length xs, wrs m (dst + of_nat i) xs)"
  using assms
proof (induction xs arbitrary: i m)
  case Nil
  then show ?case by (subst parse_name.simps) (auto simp: word_char_def)
next
  case (Cons x xs)
  have x: "m (command + of_nat i) = x" using Cons.prems(1) [of 0] by simp
  have ni: "dst + of_nat i \<noteq> command + of_nat j" if "j < 33" for j
  proof -
    have "dst + of_nat i \<in> span dst 32" using Cons.prems(4) by (intro in_spanI) simp
    moreover have "command + of_nat j \<in> span command 33" using that by (rule in_spanI)
    ultimately show ?thesis using Cons.prems(5) by auto
  qed
  let ?m = "m(dst + of_nat i := x)"
  have "parse_name dst command (Suc i) ?m = (Suc i + length xs, wrs ?m (dst + of_nat (Suc i)) xs)"
  proof (rule Cons.IH)
    fix j assume "j < length xs"
    then show "?m (command + of_nat (Suc i + j)) = xs ! j"
      using Cons.prems(1) [of "Suc j"] Cons.prems(4) ni [of "Suc i + j"] by simp
  next
    show "\<not> word_char (?m (command + of_nat (Suc i + length xs)))"
      using Cons.prems(3,4) ni [of "Suc i + length xs"] by simp
  qed (use Cons.prems in auto)
  moreover have "word_char x" "i < 32" using Cons.prems by simp_all
  ultimately show ?case
    using x by (subst parse_name.simps) (simp add: word_char_def add.commute add.left_commute)
qed

lemma parse_args_run:
  assumes "cstr m name xs" and "cstr m (command + (i + of_nat (length xs) + 1)) as" and "10 \<notin> set as"
    and "span (args + i) (length as) \<inter> span name (Suc (length xs)) = {}"
    and "span (args + i) (length as) \<inter> span (command + (i + of_nat (length xs) + 1)) (Suc (length as)) = {}"
  shows "parse_args args name command i m = Some (i + of_nat (length as), wrs m (args + i) as)"
  using assms
proof (induction as arbitrary: i m)
  case Nil
  then show ?case using strlen_cstr [OF Nil(1)] by (subst parse_args.simps) simp
next
  case (Cons a as)
  let ?c = "command + (i + of_nat (length xs) + 1)" and ?m = "m(args + i := a)"
  have a: "m ?c = a" "a \<noteq> 0" "a \<noteq> 10" using Cons.prems(2,3) by auto
  have ne: "args + i \<notin> span name (Suc (length xs))" "args + i \<notin> span ?c (Suc (Suc (length as)))"
    "span (args + (i + 1)) (length as) \<inter> span name (Suc (length xs)) = {}"
    "span (args + (i + 1)) (length as) \<inter> span (?c + 1) (Suc (length as)) = {}"
    using Cons.prems(4,5) span_Cons [of "args + i" "length as"] span_Cons [of ?c "Suc (length as)"]
    by (auto simp: add.assoc)
  have e: "command + (i + 1 + of_nat (length xs) + 1) = ?c + 1" by (simp add: algebra_simps)
  have n: "cstr ?m name xs" using Cons.prems(1) ne(1) by (subst cstr_cong [of _ _ _ m]) auto
  have r: "cstr ?m (?c + 1) as"
    using Cons.prems(2) ne(2) span_Cons [of ?c "Suc (length as)"] by (subst cstr_cong [of _ _ _ m]) auto
  have "parse_args args name command (i + 1) ?m = Some (i + 1 + of_nat (length as), wrs ?m (args + (i + 1)) as)"
    using Cons.IH [of ?m "i + 1"] n r ne(3,4) Cons.prems(3) unfolding e by (simp add: add.assoc)
  then show ?case using a strlen_cstr [OF Cons.prems(1)] by (subst parse_args.simps) (simp add: add.assoc)
qed

text \<open>A command line: a name of at most 31 characters and, after a blank, the arguments.\<close>

definition command_line :: "u8 list \<Rightarrow> u8 list option \<Rightarrow> u8 list" where
  "command_line name args = name @ (case args of None \<Rightarrow> [] | Some as \<Rightarrow> 32 # as)"

definition args_of :: "u8 list option \<Rightarrow> u8 list" where
  "args_of args = (case args of None \<Rightarrow> [] | Some as \<Rightarrow> as)"

definition command_ok :: "u8 list \<Rightarrow> u8 list option \<Rightarrow> bool" where
  "command_ok name args \<longleftrightarrow> name \<noteq> [] \<and> length name \<le> 31 \<and> list_all word_char name \<and>
     length (args_of args) \<le> 127 \<and> 10 \<notin> set (args_of args)"

text \<open>The local arrays of \<open>execute\<close> that the parser fills lie apart from the command and from each
  other.\<close>

definition parse_layout :: "exec_frame \<Rightarrow> u32 \<Rightarrow> bool" where
  "parse_layout fr command \<longleftrightarrow> span (cmds fr) 32 \<inter> span command 192 = {} \<and>
     span (arg_dat fr) 128 \<inter> span command 192 = {} \<and> span (arg_dat fr) 128 \<inter> span (cmds fr) 32 = {}"

lemma cstr_append: "cstr m a (xs @ ys) \<longleftrightarrow> rds m a (length xs) = xs \<and> 0 \<notin> set xs \<and> cstr m (a + of_nat (length xs)) ys"
  by (induction xs arbitrary: a) (auto simp: rds_Cons add.assoc)

lemma cstr_of_rds: "rds m a (length xs) = xs \<Longrightarrow> 0 \<notin> set xs \<Longrightarrow> m (a + of_nat (length xs)) = 0 \<Longrightarrow> cstr m a xs"
  using cstr_append [of m a xs "[]"] by simp

lemma span_sub: "n \<le> k \<Longrightarrow> x \<in> span a n \<Longrightarrow> x \<in> span a k"
  using span_mono [of n k a] by auto

lemma parse_command_line:
  fixes m :: memory
  assumes ok: "command_ok name args" and cl: "cstr m command (command_line name args)" and lay: "parse_layout fr command"
    and zero: "\<And>x. x \<in> span (arg_dat fr) 128 \<Longrightarrow> m x = 0"
  shows "\<exists>m'. parse_command fr command m = Some (length name, m') \<and> cstr m' (cmds fr) name \<and>
     cstr m' (arg_dat fr) (args_of args) \<and> (\<forall>x. x \<notin> span (cmds fr) 32 \<and> x \<notin> span (arg_dat fr) 128 \<longrightarrow> m' x = m x)"
proof -
  let ?n = "length name" and ?as = "args_of args" and ?c = "cmds fr" and ?a = "arg_dat fr"
  have n: "?n < 32" "0 < ?n" "list_all word_char name" "0 \<notin> set name" and as: "length ?as < 128" "10 \<notin> set ?as"
    using ok by (auto simp: command_ok_def list_all_iff word_char_def)
  have d: "span ?c 32 \<inter> span command 192 = {}" "span ?a 128 \<inter> span command 192 = {}" "span ?a 128 \<inter> span ?c 32 = {}"
    using lay by (simp_all add: parse_layout_def)
  have nm: "rds m command ?n = name" and rest: "cstr m (command + of_nat ?n) (case args of None \<Rightarrow> [] | Some as \<Rightarrow> 32 # as)"
    using cl by (simp_all add: command_line_def cstr_append)
  define m1 where "m1 = wrs m ?c (name @ [0])"
  have lc: "span ?c (length (name @ [0])) \<subseteq> span ?c 32" using n(1) by (intro span_mono) simp
  have m1: "m1 x = m x" if "x \<notin> span ?c 32" for x unfolding m1_def using that lc by (intro wrs_other) blast
  have c33: "span ?c 32 \<inter> span command 33 = {}" using d(1) span_mono [of 33 192 command] by auto
  have "m (command + of_nat j) = name ! j" if "j < ?n" for j using nm that by (metis nth_rds)
  moreover have "\<not> word_char (m (command + of_nat ?n))" using rest by (cases args) (auto simp: word_char_def)
  ultimately have pn: "parse_name ?c command 0 m = (?n, wrs m ?c name)"
    using parse_name_word [of name m command 0 ?c] n c33 by simp
  have nc: "cstr m1 ?c name" unfolding m1_def using n by (intro cstr_wrs_self) simp_all
  have com: "m1 x = m x" if "x \<in> span command 192" for x using m1 that d(1) by blast
  have at: "command + of_nat ?n \<in> span command 192" using n(1) by (intro in_spanI) simp
  have z: "m1 x = 0" if "x \<in> span ?a 128" for x
  proof -
    have "x \<notin> span ?c 32" using that d(3) by blast
    then show ?thesis using m1 zero [OF that] by simp
  qed
  have pc: "parse_command fr command m = (if m (command + of_nat ?n) = 32 then do {
       (k, m) \<leftarrow> parse_args ?a ?c command 0 m1; Some (?n, m(?a + k := 0)) } else Some (?n, m1))"
    using n(2) pn strlen_cstr [OF nc] com [OF at] by (simp add: parse_command_def Let_def m1_def wrs_snoc)
  show ?thesis
  proof (cases args)
    case None
    then have "parse_command fr command m = Some (?n, m1)" using pc rest by simp
    moreover have "cstr m1 ?a ?as" using None z [of ?a] span_Cons [of ?a 127] by (simp add: args_of_def)
    ultimately show ?thesis using nc m1 by blast
  next
    case (Some as)
    let ?r = "command + of_nat ?n + 1"
    have as_eq: "?as = as" using Some by (simp add: args_of_def)
    have r: "cstr m ?r as" "m (command + of_nat ?n) = 32" using rest Some by simp_all
    have re: "?r = command + of_nat (Suc ?n)" by (simp add: algebra_simps)
    have sr: "span ?r (Suc (length as)) \<subseteq> span command 192"
      unfolding re using n(1) as(1) as_eq by (intro sub_span) simp
    have sa: "span ?a (length as) \<subseteq> span ?a 128" using as(1) as_eq by (intro span_mono) simp
    have sn: "span ?c (Suc ?n) \<subseteq> span ?c 32" using n(1) by (intro span_mono) simp
    have "cstr m1 ?r as" using r(1) sr com by (subst cstr_cong [of _ _ _ m]) auto
    moreover have "span ?a (length as) \<inter> span ?c (Suc ?n) = {}" "span ?a (length as) \<inter> span ?r (Suc (length as)) = {}"
      using d sr sa sn by blast+
    ultimately have pa: "parse_args ?a ?c command 0 m1 = Some (of_nat (length as), wrs m1 ?a as)"
      using parse_args_run [of m1 ?c name command 0 as ?a] nc as as_eq by (simp add: add.assoc)
    let ?m2 = "wrs m1 ?a (as @ [0])"
    have s2: "span ?a (length (as @ [0])) \<subseteq> span ?a 128" using as(1) as_eq by (intro span_mono) simp
    have o2: "?m2 x = m1 x" if "x \<notin> span ?a 128" for x using that s2 by (intro wrs_other) blast
    have "parse_command fr command m = Some (?n, ?m2)" using pc r(2) pa by (simp add: wrs_snoc)
    moreover have "cstr ?m2 ?a ?as" unfolding as_eq using as as_eq cstr_nonzero [OF r(1)] by (intro cstr_wrs_self) simp_all
    moreover have "cstr ?m2 ?c name" using nc o2 d(3) sn by (subst cstr_cong [of _ _ _ m1]) blast+
    ultimately show ?thesis using m1 o2 by auto
  qed
qed

end
