(* ===== verification/Execute.thy ===== *)
theory Execute
  imports Process
begin

text \<open>
  What \<open>execute\<close> does: the process table (the lowest free of six slots), and the whole of a
  successful call, from the command line to the first instruction of the program. A control
  block, the local arrays and the image are regions of one memory; their layout is the list
  \<open>exec_regions\<close>, which has to be free of overlaps.
\<close>

section \<open>The process table\<close>

text \<open>The reads of the file system change memory alone.\<close>

lemma read_data_mem_only: "\<exists>r m'. read_data n off buf len s = (r, s\<lparr>mem := m'\<rparr>)"
proof (cases "n \<ge> bb_inode_count (mem s) (bootblock_addr s)")
  case True
  then show ?thesis by (intro exI [of _ "- 1"] exI [of _ "mem s"]) (simp add: read_data_def)
qed (auto simp: read_data_def Let_def split: prod.splits)

lemma read_dentry_loop_result: "fst (read_dentry_loop bb fn de is m) \<in> {0, - 1}"
  by (induction bb fn de "is" m rule: read_dentry_loop.induct) simp_all

lemma read_dentry_mem_only:
  assumes "read_dentry_by_name f d s = Some (r, s')"
  shows "\<exists>m'. s' = s\<lparr>mem := m'\<rparr>" and "r \<in> {0, - 1}"
proof -
  obtain n where n: "strlen (mem s) f = Some n" using assms by (auto simp: read_dentry_by_name_def bind_eq_Some_conv)
  obtain q m' where q: "read_dentry_loop (bootblock_addr s) f d [0..<63] (mem s) = (q, m')" by (cases "read_dentry_loop (bootblock_addr s) f d [0..<63] (mem s)")
  have e: "(r, s') = (if n > 32 then (- 1, s) else (q, s\<lparr>mem := m'\<rparr>))"
    using assms n q by (simp add: read_dentry_by_name_def split: if_splits)
  then show "\<exists>m'. s' = s\<lparr>mem := m'\<rparr>" by (cases "n > 32") (auto intro: exI [of _ "mem s"])
  show "r \<in> {0, - 1}"
    using e read_dentry_loop_result [of "bootblock_addr s" f d "[0..<63]" "mem s"] q by (cases "n > 32") auto
qed

lemma fold_put_flags:
  "fold (\<lambda>i s. put (pcb_flags p i) 0 s) is s = s\<lparr>mem := fold (\<lambda>i m. st32 m (pcb_flags p i) 0) is (mem s)\<rparr>"
  by (induction "is" arbitrary: s) simp_all

lemma std_fds_eq:
  "std_fds p s = s\<lparr>mem := fold (\<lambda>i m. st32 m (pcb_flags p i) 0) [2..7]
     (st32 (st32 (st32 (st32 (st32 (st32 (mem s) (pcb_flags p 0) 1) (pcb_fops p 0) (stdin_table_addr s))
        (pcb_file_pos p 0) 0) (pcb_flags p 1) 1) (pcb_fops p 1) (stdout_table_addr s)) (pcb_file_pos p 1) 0)\<rparr>"
  unfolding std_fds_def Let_def fold_put_flags by simp

lemma assign_terminal_fields [simp]:
  "pcb_state (assign_terminal n s) = pcb_state s" "active_terminal (assign_terminal n s) = active_terminal s"
  "tss_ss0 (assign_terminal n s) = tss_ss0 s" "tss_esp0 (assign_terminal n s) = tss_esp0 s"
  "page_directory (assign_terminal n s) = page_directory s" "esp (assign_terminal n s) = esp s"
  "bootblock_addr (assign_terminal n s) = bootblock_addr s" "data_count (assign_terminal n s) = data_count s"
  "terminals_addr (assign_terminal n s) = terminals_addr s" "user_frame (assign_terminal n s) = user_frame s"
  "frames (assign_terminal n s) = frames s" "iflag (assign_terminal n s) = iflag s"
  "stdin_table_addr (assign_terminal n s) = stdin_table_addr s" "stdout_table_addr (assign_terminal n s) = stdout_table_addr s"
  by (simp_all add: assign_terminal_def Let_def split: option.split)

lemma page_switch_as_update:
  "page_switch n s = s\<lparr>mem := mem (page_switch n s), page_directory := page_directory (page_switch n s),
     user_frame := user_frame (page_switch n s), frames := frames (page_switch n s)\<rparr>"
  by (rule paging.equality) (simp_all add: page_switch_def reload_cr3_def Let_def)

lemma page_switch_fields [simp]:
  "pcb_state (page_switch n s) = pcb_state s" "active_terminal (page_switch n s) = active_terminal s"
  "tss_ss0 (page_switch n s) = tss_ss0 s" "tss_esp0 (page_switch n s) = tss_esp0 s" "esp (page_switch n s) = esp s"
  "bootblock_addr (page_switch n s) = bootblock_addr s" "data_count (page_switch n s) = data_count s"
  "terminals_addr (page_switch n s) = terminals_addr s" "iflag (page_switch n s) = iflag s"
  "stdin_table_addr (page_switch n s) = stdin_table_addr s" "stdout_table_addr (page_switch n s) = stdout_table_addr s"
  by (subst page_switch_as_update; simp)+

text \<open>The slots are free (0) or taken (1), and slot \<open>k\<close> is the first free one.\<close>

definition slots_ok :: "'a process_scheme \<Rightarrow> bool" where
  "slots_ok s \<longleftrightarrow> (\<forall>j < 6. pcb_state s (of_nat j) \<in> {0, 1})"

definition lowest_slot :: "'a process_scheme \<Rightarrow> nat \<Rightarrow> bool" where
  "lowest_slot s k \<longleftrightarrow> k < 6 \<and> pcb_state s (of_nat k) = 0 \<and> (\<forall>j < k. pcb_state s (of_nat j) \<noteq> 0)"

lemma slot_list: "[0, 1, 2, 3, 4, 5 :: u32] = map of_nat [0..<6]"
  by (simp add: upt_rec)

lemma find_map: "find P (map f xs) = map_option f (find (P \<circ> f) xs)"
  by (induction xs) auto

lemma take_slot_lowest:
  assumes "lowest_slot s k"
  shows "take_slot s = (of_nat k, s\<lparr>pcb_state := (pcb_state s)(of_nat k := 1)\<rparr>)"
proof -
  have "find ((\<lambda>j. pcb_state s j = 0) \<circ> of_nat) [0..<6] = Some k"
    using assms by (intro find_first) (auto simp: lowest_slot_def)
  then show ?thesis unfolding take_slot_def slot_list find_map by simp
qed

lemma free_slot:
  assumes "slots_ok s" and "\<not> pcb_state_full s"
  shows "\<exists>k. lowest_slot s k"
proof -
  have "\<exists>j < 6. pcb_state s (of_nat j) = 0"
  proof (rule ccontr)
    assume "\<not> ?thesis"
    then have "\<forall>j < 6. pcb_state s (of_nat j) = 1" using assms(1) by (auto simp: slots_ok_def)
    from this [rule_format, of 0] this [rule_format, of 1] this [rule_format, of 2]
      this [rule_format, of 3] this [rule_format, of 4] this [rule_format, of 5]
    show False using assms(2) by (simp add: pcb_state_full_def)
  qed
  then obtain k where "k < 6 \<and> pcb_state s (of_nat k) = 0" "\<forall>j < k. \<not> (j < 6 \<and> pcb_state s (of_nat j) = 0)"
    using exists_least_iff [of "\<lambda>j. j < 6 \<and> pcb_state s (of_nat j) = 0"] by blast
  then show ?thesis by (intro exI [of _ k]) (auto simp: lowest_slot_def)
qed

lemma finish_pcb_shape:
  "\<exists>m'. finish_pcb fr p n s = s\<lparr>mem := m', tss_ss0 := 0x18, tss_esp0 := SIZE_8MB - n * 0x2000 - 4\<rparr>"
proof -
  obtain m1 where m1: "std_fds p s = s\<lparr>mem := m1\<rparr>" using std_fds_eq [of p s] by blast
  show ?thesis unfolding finish_pcb_def Let_def m1 by (rule exI) simp
qed

lemma start_process_slot:
  assumes "start_process fr entry s = Some r" and "lowest_slot s k"
  shows "\<exists>s'. r = User (enter_user entry) s' \<and> pcb_state s' = (pcb_state s)(of_nat k := 1) \<and> tss_ss0 s' = 0x18 \<and>
     tss_esp0 s' = SIZE_8MB - of_nat k * 0x2000 - 4 \<and> iflag s' \<and> user_frame s' = 2 + of_nat k"
proof -
  let ?n = "of_nat k :: u32"
  have k: "0 \<le> int k" "int k < 8" "uint ?n = int k"
    using assms(2) by (simp_all add: lowest_slot_def unsigned_of_nat take_bit_nat_eq_self)
  define s1 where "s1 = assign_terminal ?n (put (pcb_pid (task_pcb ?n)) ?n (s\<lparr>pcb_state := (pcb_state s)(?n := 1)\<rparr>))"
  obtain m i where r: "r = User (enter_user entry) (sti (finish_pcb fr (task_pcb ?n) ?n
      (snd (read_data i 0 (SIZE_128MB + 0x48000) (1023 * 4096) (page_switch (int k) (s1\<lparr>mem := m\<rparr>))))))"
    using assms(1) k(3) unfolding start_process_def take_slot_lowest [OF assms(2)]
    by (auto simp: Let_def bind_eq_Some_conv case_prod_unfold s1_def)
  obtain q m2 where q: "read_data i 0 (SIZE_128MB + 0x48000) (1023 * 4096) (page_switch (int k) (s1\<lparr>mem := m\<rparr>)) =
      (q, (page_switch (int k) (s1\<lparr>mem := m\<rparr>))\<lparr>mem := m2\<rparr>)"
    using read_data_mem_only by blast
  obtain m3 where f: "finish_pcb fr (task_pcb ?n) ?n ((page_switch (int k) (s1\<lparr>mem := m\<rparr>))\<lparr>mem := m2\<rparr>) =
      (page_switch (int k) (s1\<lparr>mem := m\<rparr>))\<lparr>mem := m3, tss_ss0 := 0x18, tss_esp0 := SIZE_8MB - ?n * 0x2000 - 4\<rparr>"
    using finish_pcb_shape [of fr "task_pcb ?n" ?n "(page_switch (int k) (s1\<lparr>mem := m\<rparr>))\<lparr>mem := m2\<rparr>"] by auto
  show ?thesis
    unfolding r q snd_conv f using page_switch_memory(3) [OF k(1,2), of "s1\<lparr>mem := m\<rparr>"]
    by (simp add: sti_def s1_def)
qed

text \<open>What a call that does not start a process leaves alone.\<close>

definition unstarted :: "'a process_scheme \<Rightarrow> 'a process_scheme \<Rightarrow> bool" where
  "unstarted s s' \<longleftrightarrow> pcb_state s' = pcb_state s \<and> tss_ss0 s' = tss_ss0 s \<and> tss_esp0 s' = tss_esp0 s \<and>
     page_directory s' = page_directory s \<and> user_frame s' = user_frame s \<and> active_terminal s' = active_terminal s \<and>
     terminal_shell s' = terminal_shell s"

text \<open>What a call that starts a process in slot \<open>k\<close> does to the process table and the processor.\<close>

definition started :: "'a process_scheme \<Rightarrow> nat \<Rightarrow> 'a process_scheme \<Rightarrow> bool" where
  "started s k s' \<longleftrightarrow> lowest_slot s k \<and> pcb_state s' = (pcb_state s)(of_nat k := 1) \<and> tss_ss0 s' = 0x18 \<and>
     tss_esp0 s' = SIZE_8MB - of_nat k * 0x2000 - 4 \<and> iflag s' \<and> user_frame s' = 2 + of_nat k"

lemma unstarted_mem [simp]: "unstarted s (s\<lparr>mem := m\<rparr>)" "unstarted s (tables_init (s\<lparr>mem := m\<rparr>))"
  by (simp_all add: unstarted_def tables_init_def)

lemma slots_mem [simp]:
  "slots_ok (s\<lparr>mem := m\<rparr>) = slots_ok s" "started (s\<lparr>mem := m\<rparr>) k s' = started s k s'"
  "unstarted (s\<lparr>mem := m\<rparr>) s' = unstarted s s'" "pcb_state_full (s\<lparr>mem := m\<rparr>) = pcb_state_full s"
  "slots_ok (tables_init s) = slots_ok s" "started (tables_init s) k s' = started s k s'"
  "unstarted (tables_init s) s' = unstarted s s'"
  by (simp_all add: slots_ok_def started_def unstarted_def pcb_state_full_def lowest_slot_def tables_init_def)

lemma run_file_slot:
  assumes "run_file fr s = Some r" and "slots_ok s"
  shows "(\<exists>s'. r = Ret (- 1) s' \<and> unstarted s s') \<or> (\<exists>entry s' k. r = User entry s' \<and> started s k s')"
proof -
  obtain q m1 where d: "read_dentry_by_name (cmds fr) (cmds_dentry fr) s = Some (q, s\<lparr>mem := m1\<rparr>)"
    using assms(1) read_dentry_mem_only(1) by (auto simp: run_file_def bind_eq_Some_conv) blast
  obtain n m2 where rd: "read_data (ld32 m1 (dentry_inode_num (cmds_dentry fr))) 0 (exe_data fr) 40 (s\<lparr>mem := m1\<rparr>) =
      (n, s\<lparr>mem := m2\<rparr>)"
    using read_data_mem_only [of "ld32 m1 (dentry_inode_num (cmds_dentry fr))" 0 "exe_data fr" 40 "s\<lparr>mem := m1\<rparr>"] by auto
  consider "r = Ret (- 1) (s\<lparr>mem := m1\<rparr>)" | "r = Ret (- 1) (s\<lparr>mem := m2\<rparr>)"
    | entry where "\<not> pcb_state_full s" "start_process fr entry (s\<lparr>mem := m2\<rparr>) = Some r"
    using assms(1) by (auto simp: run_file_def d rd Let_def split: if_splits)
  then show ?thesis
  proof cases
    case 3
    then obtain k where k: "lowest_slot s k" using free_slot assms(2) by blast
    then have "lowest_slot (s\<lparr>mem := m2\<rparr>) k" by (simp add: lowest_slot_def)
    from start_process_slot [OF 3(2) this] k show ?thesis by (auto simp: started_def)
  qed simp_all
qed

text \<open>The command is one that \<open>execute\<close> takes for a request to end the program.\<close>

definition quits :: "exec_frame \<Rightarrow> u32 \<Rightarrow> 'a process_scheme \<Rightarrow> bool" where
  "quits fr command s \<longleftrightarrow> (case parse_command fr command (clear_locals fr (mem s)) of None \<Rightarrow> False
     | Some (i, m) \<Rightarrow> i \<noteq> 0 \<and> strncmp m (cmds fr) (quit_str s) 4 = 0)"

lemma tables_init_quit_str [simp]: "quit_str (tables_init s) = quit_str s" "bootblock_addr (tables_init s) = bootblock_addr s"
  "shell_str (tables_init s) = shell_str s"
  by (simp_all add: tables_init_def)

text \<open>Whatever the command (other than \<open>quit\<close>) and whatever is in memory, a call that ends returns -1 and
  starts nothing, or starts a process in the lowest free slot.\<close>

lemma execute_slot:
  assumes "slots_ok s" and "\<not> quits fr command s" and "execute (fr # frs) command s = Some r"
  shows "(\<exists>s'. r = Ret (- 1) s' \<and> unstarted s s') \<or> (\<exists>entry s' k. r = User entry s' \<and> started s k s')"
proof -
  let ?s = "(tables_init s)\<lparr>mem := clear_locals fr (mem s)\<rparr>"
  have un: "unstarted s ?s" "unstarted s ((tables_init s)\<lparr>mem := m\<rparr>)" for m by (simp_all add: unstarted_def tables_init_def)
  consider "r = Ret (- 1) ?s" | m where "r = Ret (- 1) ((tables_init s)\<lparr>mem := m\<rparr>)"
    | m where "run_file fr ((tables_init s)\<lparr>mem := m\<rparr>) = Some r"
    using assms(2,3) by (auto simp: execute_with_def Let_def quits_def bind_eq_Some_conv split: if_splits)
  then show ?thesis
  proof cases
    case 3
    then show ?thesis using run_file_slot [OF 3] assms(1) by simp
  qed (use un in auto)
qed

section \<open>Starting a program, in full\<close>

text \<open>Regions of memory, pairwise disjoint, and below the user page.\<close>

fun apart :: "(u32 \<times> nat) list \<Rightarrow> bool" where
  "apart [] \<longleftrightarrow> True"
| "apart ((a, n) # rs) \<longleftrightarrow> (\<forall>(b, k) \<in> set rs. span a n \<inter> span b k = {}) \<and> apart rs"

definition kernel_side :: "(u32 \<times> nat) list \<Rightarrow> bool" where
  "kernel_side rs \<longleftrightarrow> (\<forall>(a, n) \<in> set rs. unat a + n \<le> 0x8000000)"

text \<open>The memory a call of \<open>execute\<close> works on: its local arrays, the file system image, the literal
  \<open>"quit"\<close>, the control block of the slot it takes, the terminals, and the word it stores
  through the pointer it finds in that control block.\<close>

definition exec_regions :: "exec_frame \<Rightarrow> nat \<Rightarrow> 'a process_scheme \<Rightarrow> (u32 \<times> nat) list" where
  "exec_regions fr k s =
     [(cmds fr, 32), (arg_dat fr, 128), (exe_data fr, 40), (cmds_dentry fr, 40),
      (bootblock_addr s, fs_size (mem s) (bootblock_addr s)), (quit_str s, 5),
      (task_pcb (of_nat k), 292), (terminals_addr s, 456),
      (pcb_pid (ld32 (mem s) (pcb_parent (task_pcb (of_nat k)))), 4)]"

text \<open>The caller passes a command line, and the directory names the program's file.\<close>

definition exec_call :: "exec_frame \<Rightarrow> u32 \<Rightarrow> u8 list \<Rightarrow> u8 list option \<Rightarrow> nat \<Rightarrow> 'a process_scheme \<Rightarrow> bool" where
  "exec_call fr command name args k s \<longleftrightarrow> command \<noteq> 0 \<and> command_ok name args \<and>
     cstr (mem s) command (command_line name args) \<and> parse_layout fr command \<and>
     cstr (mem s) (quit_str s) [113, 117, 105, 116] \<and> take 4 name \<noteq> [113, 117, 105, 116] \<and>
     apart (exec_regions fr k s) \<and> kernel_side (exec_regions fr k s)"

lemma cstr_name_of_take: "cstr m a xs \<Longrightarrow> name_of (rds m a n) = take n xs"
proof (induction n arbitrary: a xs)
  case (Suc n)
  then show ?case by (cases xs) (auto simp: rds_Cons)
qed simp

lemma clear_locals_outside:
  "x \<notin> span (cmds fr) 32 \<Longrightarrow> x \<notin> span (arg_dat fr) 128 \<Longrightarrow> clear_locals fr m x = m x"
  by (simp add: clear_locals_def wrs_other)

lemma clear_locals_zero:
  assumes "x \<in> span (arg_dat fr) 128" and "x \<notin> span (cmds fr) 32"
  shows "clear_locals fr m x = 0"
proof -
  obtain i where i: "i < 128" "x = arg_dat fr + of_nat i" using assms(1) by (auto simp: in_span_iff)
  have "clear_locals fr m x = wrs m (arg_dat fr) (replicate 128 0) x"
    using assms(2) by (simp add: clear_locals_def wrs_other)
  then show ?thesis using i wrs_nth [of i "replicate 128 0" m "arg_dat fr"] by simp
qed

lemma command_line_length: "command_ok name args \<Longrightarrow> Suc (length (command_line name args)) \<le> 192"
  by (cases args) (auto simp: command_ok_def command_line_def args_of_def)

lemma exec_call_parse:
  assumes call: "exec_call fr command name args k s"
  shows "\<exists>m'. parse_command fr command (clear_locals fr (mem s)) = Some (length name, m') \<and>
     strncmp m' (cmds fr) (quit_str s) 4 \<noteq> 0 \<and> cstr m' (cmds fr) name \<and>
     cstr m' (arg_dat fr) (args_of args) \<and> (\<forall>x. x \<notin> span (cmds fr) 32 \<and> x \<notin> span (arg_dat fr) 128 \<longrightarrow> m' x = mem s x)"
proof -
  let ?m = "clear_locals fr (mem s)"
  have c: "command \<noteq> 0" "command_ok name args" "cstr (mem s) command (command_line name args)" "parse_layout fr command"
    "cstr (mem s) (quit_str s) [113, 117, 105, 116]" "take 4 name \<noteq> [113, 117, 105, 116]" "apart (exec_regions fr k s)"
    using call by (simp_all add: exec_call_def)
  have d: "span (cmds fr) 32 \<inter> span command 192 = {}" "span (arg_dat fr) 128 \<inter> span command 192 = {}"
    "span (arg_dat fr) 128 \<inter> span (cmds fr) 32 = {}"
    using c(4) by (simp_all add: parse_layout_def)
  have q: "span (cmds fr) 32 \<inter> span (quit_str s) 5 = {}" "span (arg_dat fr) 128 \<inter> span (quit_str s) 5 = {}"
    using c(7) by (simp_all add: exec_regions_def)
  have "cstr ?m command (command_line name args)"
  proof (subst cstr_cong [of _ _ _ "mem s"])
    fix x assume "x \<in> span command (Suc (length (command_line name args)))"
    then have "x \<in> span command 192" using span_sub [OF command_line_length [OF c(2)]] by blast
    then show "?m x = mem s x" using d by (intro clear_locals_outside) blast+
  qed (rule c(3))
  moreover have "?m x = 0" if "x \<in> span (arg_dat fr) 128" for x
    using that d(3) by (intro clear_locals_zero) blast+
  ultimately obtain m' where m': "parse_command fr command ?m = Some (length name, m')" "cstr m' (cmds fr) name"
    "cstr m' (arg_dat fr) (args_of args)" "\<And>x. x \<notin> span (cmds fr) 32 \<Longrightarrow> x \<notin> span (arg_dat fr) 128 \<Longrightarrow> m' x = ?m x"
    using parse_command_line [OF c(2) _ c(4)] by blast
  have out: "m' x = mem s x" if "x \<notin> span (cmds fr) 32" "x \<notin> span (arg_dat fr) 128" for x
    using m'(4) that by (simp add: clear_locals_outside)
  have "cstr m' (quit_str s) [113, 117, 105, 116]"
  proof (subst cstr_cong [of _ _ _ "mem s"])
    fix x assume "x \<in> span (quit_str s) (Suc (length [113 :: u8, 117, 105, 116]))"
    then have "x \<in> span (quit_str s) 5" by (simp add: numeral_eq_Suc)
    then show "m' x = mem s x" using q by (intro out) blast+
  qed (rule c(5))
  then have "strncmp m' (cmds fr) (quit_str s) 4 \<noteq> 0"
    using c(6) cstr_name_of_take [OF m'(2), of 4] cstr_name_of_take [of m' "quit_str s" "[113, 117, 105, 116]" 4]
    by (simp add: strncmp_zero)
  then show ?thesis using m'(1,2,3) out by blast
qed

lemma exec_call_not_quits: "exec_call fr command name args k s \<Longrightarrow> \<not> quits fr command s"
  using exec_call_parse [of fr command name args k s] by (auto simp: quits_def)

lemma execute_parsed:
  assumes call: "exec_call fr command name args k s"
  shows "\<exists>m'. execute_with hlt fr command s = run_file fr ((tables_init s)\<lparr>mem := m'\<rparr>) \<and> cstr m' (cmds fr) name \<and>
     cstr m' (arg_dat fr) (args_of args) \<and> (\<forall>x. x \<notin> span (cmds fr) 32 \<and> x \<notin> span (arg_dat fr) 128 \<longrightarrow> m' x = mem s x)"
proof -
  have "command \<noteq> 0" "length name \<noteq> 0" using call by (simp_all add: exec_call_def command_ok_def)
  then show ?thesis using exec_call_parse [OF call] by (auto simp: execute_with_def Let_def)
qed

text \<open>Directory entry \<open>e\<close> is the first that holds the name; it is a well-formed regular file in inode
  \<open>n\<close>.\<close>

definition names_file :: "memory \<Rightarrow> u32 \<Rightarrow> u8 list \<Rightarrow> nat \<Rightarrow> u32 \<Rightarrow> bool" where
  "names_file m bb name e n \<longleftrightarrow> e < 63 \<and> dir_name m bb e = name \<and> (\<forall>j < e. dir_name m bb j \<noteq> name) \<and>
     ld32 m (dentry_filetype (direntry bb (of_nat e))) = 2 \<and>
     ld32 m (dentry_inode_num (direntry bb (of_nat e))) = n \<and> file_ok m bb n"

text \<open>The bytes of an executable: the magic number, a header, and no more than the user page holds
  from 0x8048000 on.\<close>

definition elf_bytes :: "u8 list \<Rightarrow> bool" where
  "elf_bytes bs \<longleftrightarrow> 40 \<le> length bs \<and> length bs < 0x3B8000 \<and> take 4 bs = [0x7F, 0x45, 0x4C, 0x46]"

lemma boot_block_in_image: "span bb 4096 \<subseteq> span bb (fs_size m bb)"
  by (rule span_mono) (simp add: fs_size_def)

lemma dir_name_cong:
  assumes "\<And>x. x \<in> span bb (fs_size m bb) \<Longrightarrow> m' x = m x" and "j < 63"
  shows "dir_name m' bb j = dir_name m bb j"
    and "ld32 m' (dentry_filetype (direntry bb (of_nat j))) = ld32 m (dentry_filetype (direntry bb (of_nat j)))"
    and "ld32 m' (dentry_inode_num (direntry bb (of_nat j))) = ld32 m (dentry_inode_num (direntry bb (of_nat j)))"
proof -
  let ?d = "direntry bb (of_nat j)"
  have sp: "span (?d + of_nat i) l \<subseteq> span bb (fs_size m bb)" if "i + l \<le> 40" for i l
    using sub_span [OF that, of ?d] direntry_span [OF assms(2), of bb] boot_block_in_image [of bb m] by blast
  have "rds m' ?d 32 = rds m ?d 32"
    using sp [of 0 32] by (intro rds_cong assms(1)) (auto intro: in_spanI)
  then show "dir_name m' bb j = dir_name m bb j" by (simp add: dir_name_def)
  show "ld32 m' (dentry_filetype ?d) = ld32 m (dentry_filetype ?d)"
    "ld32 m' (dentry_inode_num ?d) = ld32 m (dentry_inode_num ?d)"
    unfolding dentry_filetype_def dentry_inode_num_def
    using sp [of 32 4] sp [of 36 4] by (intro ld32_disjoint assms(1); simp; blast)+
qed

lemma names_file_cong:
  assumes agree: "\<And>x. x \<in> span bb (fs_size m bb) \<Longrightarrow> m' x = m x" and nf: "names_file m bb name e n"
  shows "names_file m' bb name e n" and "file_bytes m' bb n = file_bytes m bb n"
proof -
  have ok: "file_ok m bb n" and e: "e < 63" using nf by (auto simp: names_file_def)
  have "\<forall>j < e. dir_name m' bb j \<noteq> name" using nf dir_name_cong(1) [OF agree] e by (auto simp: names_file_def)
  then show "names_file m' bb name e n"
    using nf dir_name_cong [OF agree e] file_ok_cong [OF agree ok] by (simp add: names_file_def)
  have n: "n < bb_inode_count m bb" using ok by (simp add: file_ok_def)
  have "file_length m' bb n = file_length m bb n" by (rule file_cong(1) [OF agree n])
  then show "file_bytes m' bb n = file_bytes m bb n"
    unfolding file_bytes_def using file_ok_block [OF ok] by (intro map_cong file_byte_cong [OF agree n]) auto
qed

lemma names_file_lookup:
  assumes "names_file (mem s) (bootblock_addr s) name e n" and "cstr (mem s) f name" and "length name \<le> 32"
    and "span d 40 \<inter> span (bootblock_addr s) 4096 = {}"
  shows "\<exists>m'. read_dentry_by_name f d s = Some (0, s\<lparr>mem := m'\<rparr>) \<and> ld32 m' (dentry_filetype d) = 2 \<and>
     ld32 m' (dentry_inode_num d) = n \<and> (\<forall>x. x \<notin> span d 40 \<longrightarrow> m' x = mem s x)"
proof -
  let ?e = "direntry (bootblock_addr s) (of_nat e)"
  have dj: "span d 40 \<inter> span ?e 40 = {}"
    using assms(1,4) direntry_span [of e "bootblock_addr s"] by (auto simp: names_file_def)
  have "find (\<lambda>i. dir_name (mem s) (bootblock_addr s) i = name) [0..<63] = Some e"
    using assms(1) by (intro find_first) (auto simp: names_file_def)
  then have "read_dentry_by_name f d s = Some (0, s\<lparr>mem := copy_dentry d ?e (mem s)\<rparr>)"
    using read_dentry_by_name_find [OF assms(2), of d] assms(3) by simp
  then show ?thesis
    using copy_dentry_ok(2-4) [OF dj, where m = "mem s"] assms(1) by (auto simp: names_file_def)
qed

lemma entry_address_bytes: "bytes32 (entry_address m a) = rds m (a + 24) 4"
proof -
  have "entry_address m a = ld32 m (a + 24)" by (simp add: entry_address_def ld32_def add.assoc or.assoc or.commute or.left_commute)
  then show ?thesis by (simp add: bytes32_ld32)
qed

lemma is_elf_rds: "is_elf m a \<longleftrightarrow> rds m a 4 = [0x7F, 0x45, 0x4C, 0x46]"
  by (simp add: is_elf_def rds_def numeral_eq_Suc)

lemma file_header:
  assumes ok: "file_ok (mem s) (bootblock_addr s) n" and mt: "mounted s"
    and disj: "span buf 40 \<inter> span (bootblock_addr s) (fs_size (mem s) (bootblock_addr s)) = {}"
    and len: "40 \<le> length (file_bytes (mem s) (bootblock_addr s) n)"
  shows "\<exists>r m'. read_data n 0 buf 40 s = (r, s\<lparr>mem := m'\<rparr>) \<and>
     rds m' buf 40 = take 40 (file_bytes (mem s) (bootblock_addr s) n) \<and> (\<forall>x. x \<notin> span buf 40 \<longrightarrow> m' x = mem s x)"
proof -
  let ?m = "mem s" and ?bb = "bootblock_addr s"
  let ?bs = "read_stores ?m ?bb n 0 40"
  have L: "40 \<le> file_length ?m ?bb n" using len by (simp add: file_bytes_def)
  have bs: "?bs = take 40 (file_bytes ?m ?bb n)" "length ?bs = 40"
    using take_read_stores [of 0 ?m ?bb n 40] length_read_stores [of 0 ?m ?bb n 40] L by (simp_all add: read_count_def)
  have "read_data n 0 buf 40 s = (int (read_count ?m ?bb n 0 40), s\<lparr>mem := wrs ?m buf ?bs\<rparr>)"
    using read_data_ok [OF ok mt, of 0 40 buf] disj by simp
  moreover have "rds (wrs ?m buf ?bs) buf 40 = ?bs" using rds_wrs [of ?bs ?m buf] bs(2) by simp
  ultimately show ?thesis using bs by (auto simp: wrs_other)
qed

lemma run_file_ok:
  fixes s :: "'a process_scheme"
  defines "bb \<equiv> bootblock_addr s"
  assumes nf: "names_file (mem s) bb name e n" and nm: "cstr (mem s) (cmds fr) name" "length name \<le> 32"
    and mt: "mounted s" and elf: "elf_bytes (file_bytes (mem s) bb n)" and free: "\<not> pcb_state_full s"
    and ap: "span (cmds_dentry fr) 40 \<inter> span bb (fs_size (mem s) bb) = {}"
      "span (exe_data fr) 40 \<inter> span bb (fs_size (mem s) bb) = {}" "span (exe_data fr) 40 \<inter> span (cmds_dentry fr) 40 = {}"
  shows "\<exists>m' entry. run_file fr s = start_process fr entry (s\<lparr>mem := m'\<rparr>) \<and>
     bytes32 entry = take 4 (drop 24 (file_bytes (mem s) bb n)) \<and> ld32 m' (dentry_inode_num (cmds_dentry fr)) = n \<and>
     (\<forall>x. x \<notin> span (cmds_dentry fr) 40 \<and> x \<notin> span (exe_data fr) 40 \<longrightarrow> m' x = mem s x)"
proof -
  let ?d = "cmds_dentry fr" and ?x = "exe_data fr" and ?bs = "file_bytes (mem s) bb n"
  have "span ?d 40 \<inter> span bb 4096 = {}" using ap(1) boot_block_in_image [of bb "mem s"] by blast
  with names_file_lookup [OF nf [unfolded bb_def] nm, of ?d] obtain m1 where
    m1: "read_dentry_by_name (cmds fr) ?d s = Some (0, s\<lparr>mem := m1\<rparr>)" "ld32 m1 (dentry_filetype ?d) = 2"
      "ld32 m1 (dentry_inode_num ?d) = n" "\<And>x. x \<notin> span ?d 40 \<Longrightarrow> m1 x = mem s x"
    unfolding bb_def by blast
  have agree: "m1 x = mem s x" if "x \<in> span bb (fs_size (mem s) bb)" for x using m1(4) that ap(1) by blast
  note nf1 = names_file_cong [OF agree nf]
  have sz: "fs_size m1 bb = fs_size (mem s) bb" by (rule image_counts_cong(3) [OF agree])
  have "mounted (s\<lparr>mem := m1\<rparr>)" using mt image_counts_cong(2) [OF agree] by (simp add: mounted_def bb_def)
  then obtain r m2 where m2: "read_data n 0 ?x 40 (s\<lparr>mem := m1\<rparr>) = (r, s\<lparr>mem := m2\<rparr>)" "rds m2 ?x 40 = take 40 ?bs"
    "\<And>x. x \<notin> span ?x 40 \<Longrightarrow> m2 x = m1 x"
    using file_header [of "s\<lparr>mem := m1\<rparr>" n ?x] nf1 ap(2) sz elf by (auto simp: names_file_def bb_def elf_bytes_def)
  have part: "rds m2 (?x + of_nat i) 4 = take 4 (drop i ?bs)" if "i + 4 \<le> 40" for i
  proof -
    have "rds m2 ?x 40 = rds m2 ?x i @ rds m2 (?x + of_nat i) 4 @ rds m2 (?x + of_nat (i + 4)) (40 - (i + 4))"
      using rds_append [of m2 ?x "i + 4" "40 - (i + 4)"] rds_append [of m2 ?x i 4] that by simp
    then have "rds m2 (?x + of_nat i) 4 = take 4 (drop i (take 40 ?bs))" using m2(2) by simp
    then show ?thesis using that by (simp add: drop_take)
  qed
  have "is_elf m2 ?x" using part [of 0] elf by (simp add: is_elf_rds elf_bytes_def)
  moreover have "bytes32 (entry_address m2 ?x) = take 4 (drop 24 ?bs)" using part [of 24] by (simp add: entry_address_bytes)
  moreover have "ld32 m2 (dentry_inode_num ?d) = n"
  proof -
    have "span (dentry_inode_num ?d) 4 \<subseteq> span ?d 40"
      using sub_span [of 36 4 40 ?d] by (simp add: dentry_inode_num_def)
    then have "ld32 m2 (dentry_inode_num ?d) = ld32 m1 (dentry_inode_num ?d)"
      using ap(3) by (intro ld32_disjoint m2(3)) blast
    then show ?thesis by (simp add: m1(3))
  qed
  moreover have "\<forall>x. x \<notin> span ?d 40 \<and> x \<notin> span ?x 40 \<longrightarrow> m2 x = mem s x" using m1(4) m2(3) by auto
  ultimately show ?thesis
    using m1(1-3) m2(1) free
    by (intro exI [of _ m2] exI [of _ "entry_address m2 ?x"]) (simp add: run_file_def Let_def)
qed

text \<open>A name that starts nothing: no entry holds it, or the first that does is no regular file, or the
  file does not begin with the magic number.\<close>

definition no_program :: "memory \<Rightarrow> u32 \<Rightarrow> u8 list \<Rightarrow> bool" where
  "no_program m bb name \<longleftrightarrow> (\<forall>j < 63. dir_name m bb j \<noteq> name) \<or>
     (\<exists>e < 63. dir_name m bb e = name \<and> (\<forall>j < e. dir_name m bb j \<noteq> name) \<and>
        ld32 m (dentry_filetype (direntry bb (of_nat e))) \<noteq> 2) \<or>
     (\<exists>e n. names_file m bb name e n \<and> 4 \<le> length (file_bytes m bb n) \<and> take 4 (file_bytes m bb n) \<noteq> [0x7F, 0x45, 0x4C, 0x46])"

lemma no_program_cong:
  assumes eq: "\<And>x. x \<in> span bb (fs_size m bb) \<Longrightarrow> m' x = m x" and np: "no_program m bb name"
  shows "no_program m' bb name"
proof -
  note d = dir_name_cong [OF eq]
  from np consider "\<forall>j < 63. dir_name m bb j \<noteq> name"
    | e where "e < 63" "dir_name m bb e = name" "\<forall>j < e. dir_name m bb j \<noteq> name"
        "ld32 m (dentry_filetype (direntry bb (of_nat e))) \<noteq> 2"
    | e n where "names_file m bb name e n" "4 \<le> length (file_bytes m bb n)" "take 4 (file_bytes m bb n) \<noteq> [0x7F, 0x45, 0x4C, 0x46]"
    unfolding no_program_def by blast
  then show ?thesis
  proof cases
    case 1
    then show ?thesis using d(1) by (simp add: no_program_def)
  next
    case 2
    then have "\<forall>j < e. dir_name m' bb j \<noteq> name" using d(1) by simp
    then show ?thesis using 2 d(1,2) [where j = e] unfolding no_program_def by auto
  next
    case 3
    then show ?thesis using names_file_cong [OF eq 3(1)] unfolding no_program_def by metis
  qed
qed

lemma read_dentry_returns: "cstr (mem s) f name \<Longrightarrow> length name \<le> 32 \<Longrightarrow> \<exists>q m'. read_dentry_by_name f d s = Some (q, s\<lparr>mem := m'\<rparr>)"
  using read_dentry_by_name_find [of s f name d]
  by (cases "find (\<lambda>i. dir_name (mem s) (bootblock_addr s) i = name) [0..<63]") (auto intro: exI [of _ "mem s"])

lemma run_file_full:
  assumes "pcb_state_full s" and "cstr (mem s) (cmds fr) name" "length name \<le> 32"
  shows "\<exists>m'. run_file fr s = Some (Ret (- 1) (s\<lparr>mem := m'\<rparr>))"
proof -
  obtain q m1 where q: "read_dentry_by_name (cmds fr) (cmds_dentry fr) s = Some (q, s\<lparr>mem := m1\<rparr>)"
    using read_dentry_returns [OF assms(2,3)] by blast
  obtain n m2 where rd: "read_data (ld32 m1 (dentry_inode_num (cmds_dentry fr))) 0 (exe_data fr) 40 (s\<lparr>mem := m1\<rparr>) =
      (n, s\<lparr>mem := m2\<rparr>)"
    using read_data_mem_only [of "ld32 m1 (dentry_inode_num (cmds_dentry fr))" 0 "exe_data fr" 40 "s\<lparr>mem := m1\<rparr>"] by auto
  show ?thesis using assms(1) by (auto simp: run_file_def q rd Let_def)
qed

lemma file_magic:
  assumes ok: "file_ok (mem s) (bootblock_addr s) n" and mt: "mounted s"
    and disj: "span buf 40 \<inter> span (bootblock_addr s) (fs_size (mem s) (bootblock_addr s)) = {}"
    and len: "4 \<le> length (file_bytes (mem s) (bootblock_addr s) n)"
  shows "\<exists>r m'. read_data n 0 buf 40 s = (r, s\<lparr>mem := m'\<rparr>) \<and> rds m' buf 4 = take 4 (file_bytes (mem s) (bootblock_addr s) n)"
proof -
  let ?m = "mem s" and ?bb = "bootblock_addr s"
  let ?bs = "read_stores ?m ?bb n 0 40" and ?c = "read_count ?m ?bb n 0 40"
  have c: "4 \<le> ?c" using len by (simp add: file_bytes_def read_count_def)
  have bs: "take ?c ?bs = take 40 (file_bytes ?m ?bb n)" "?c \<le> length ?bs" "length ?bs \<le> 41"
    using take_read_stores [of 0 ?m ?bb n 40] length_read_stores [of 0 ?m ?bb n 40] by (simp_all add: read_count_def)
  have "read_data n 0 buf 40 s = (int ?c, s\<lparr>mem := wrs ?m buf ?bs\<rparr>)"
    using read_data_ok [OF ok mt, of 0 40 buf] disj by simp
  moreover have "rds (wrs ?m buf ?bs) buf 4 = take 4 (file_bytes ?m ?bb n)"
  proof -
    have "rds (wrs ?m buf ?bs) buf (length ?bs) = ?bs" using bs(3) by (intro rds_wrs) simp
    moreover have "4 + (length ?bs - 4) = length ?bs" using c bs(2) by linarith
    ultimately have "?bs = rds (wrs ?m buf ?bs) buf 4 @ rds (wrs ?m buf ?bs) (buf + of_nat 4) (length ?bs - 4)"
      using rds_append [of "wrs ?m buf ?bs" buf 4 "length ?bs - 4"] by argo
    then have "take 4 ?bs = take 4 (rds (wrs ?m buf ?bs) buf 4 @ rds (wrs ?m buf ?bs) (buf + of_nat 4) (length ?bs - 4))" by (rule arg_cong)
    then have "rds (wrs ?m buf ?bs) buf 4 = take 4 ?bs" by simp
    also have "\<dots> = take 4 (take ?c ?bs)" using c by (simp add: min_def)
    also have "\<dots> = take 4 (file_bytes ?m ?bb n)" unfolding bs(1) using c by (simp add: min_def)
    finally show ?thesis .
  qed
  ultimately show ?thesis by blast
qed

lemma run_file_no_program:
  fixes s :: "'a process_scheme"
  defines "bb \<equiv> bootblock_addr s"
  assumes np: "no_program (mem s) bb name" and nm: "cstr (mem s) (cmds fr) name" "length name \<le> 32" and mt: "mounted s"
    and ap: "span (cmds_dentry fr) 40 \<inter> span bb (fs_size (mem s) bb) = {}"
      "span (exe_data fr) 40 \<inter> span bb (fs_size (mem s) bb) = {}"
  shows "\<exists>m'. run_file fr s = Some (Ret (- 1) (s\<lparr>mem := m'\<rparr>))"
proof -
  let ?d = "cmds_dentry fr" and ?x = "exe_data fr"
  have db: "span ?d 40 \<inter> span bb 4096 = {}" using ap(1) boot_block_in_image [of bb "mem s"] by blast
  from np consider "\<forall>j < 63. dir_name (mem s) bb j \<noteq> name"
    | e where "e < 63" "dir_name (mem s) bb e = name" "\<forall>j < e. dir_name (mem s) bb j \<noteq> name"
        "ld32 (mem s) (dentry_filetype (direntry bb (of_nat e))) \<noteq> 2"
    | e n where "names_file (mem s) bb name e n" "4 \<le> length (file_bytes (mem s) bb n)"
        "take 4 (file_bytes (mem s) bb n) \<noteq> [0x7F, 0x45, 0x4C, 0x46]"
    unfolding no_program_def by blast
  then show ?thesis
  proof cases
    case 1
    then have "find (\<lambda>i. dir_name (mem s) bb i = name) [0..<63] = None" by (auto simp: find_None_iff)
    then have "read_dentry_by_name (cmds fr) ?d s = Some (- 1, s)"
      using read_dentry_by_name_find [OF nm(1), of ?d] nm(2) by (simp add: bb_def)
    then show ?thesis by (auto simp: run_file_def intro: exI [of _ "mem s"])
  next
    case 2
    let ?e = "direntry bb (of_nat e)"
    have "span ?d 40 \<inter> span ?e 40 = {}" using direntry_span [OF 2(1), of bb] db by blast
    note cp = copy_dentry_ok [OF this, where m = "mem s"]
    have "find (\<lambda>i. dir_name (mem s) bb i = name) [0..<63] = Some e" using 2 by (intro find_first) auto
    then have "read_dentry_by_name (cmds fr) ?d s = Some (0, s\<lparr>mem := copy_dentry ?d ?e (mem s)\<rparr>)"
      using read_dentry_by_name_find [OF nm(1), of ?d] nm(2) by (simp add: bb_def)
    then show ?thesis using cp(2) 2(4) by (auto simp: run_file_def)
  next
    case 3
    with names_file_lookup [OF 3(1) [unfolded bb_def] nm, of ?d] db obtain m1 where
      m1: "read_dentry_by_name (cmds fr) ?d s = Some (0, s\<lparr>mem := m1\<rparr>)" "ld32 m1 (dentry_filetype ?d) = 2"
        "ld32 m1 (dentry_inode_num ?d) = n" "\<And>x. x \<notin> span ?d 40 \<Longrightarrow> m1 x = mem s x"
      unfolding bb_def by blast
    have agree: "m1 x = mem s x" if "x \<in> span bb (fs_size (mem s) bb)" for x using m1(4) that ap(1) by blast
    note nf1 = names_file_cong [OF agree 3(1)]
    have "fs_size m1 bb = fs_size (mem s) bb" by (rule image_counts_cong(3) [OF agree])
    moreover have "mounted (s\<lparr>mem := m1\<rparr>)" using mt image_counts_cong(2) [OF agree] by (simp add: mounted_def bb_def)
    ultimately obtain r m2 where m2: "read_data n 0 ?x 40 (s\<lparr>mem := m1\<rparr>) = (r, s\<lparr>mem := m2\<rparr>)"
      "rds m2 ?x 4 = take 4 (file_bytes (mem s) bb n)"
      using file_magic [of "s\<lparr>mem := m1\<rparr>" n ?x] nf1 ap(2) 3(2) by (auto simp: names_file_def bb_def)
    have "\<not> is_elf m2 ?x" using m2(2) 3(3) by (simp add: is_elf_rds)
    then show ?thesis using m1(1-3) m2(1) by (auto simp: run_file_def Let_def)
  qed
qed

text \<open>The descriptors of a new process.\<close>

lemma std_fds_table:
  fixes s :: "'a process_scheme" and p :: u32
  defines "m \<equiv> mem (std_fds p s)"
  shows "ld32 m (pcb_flags p 0) = 1" "ld32 m (pcb_fops p 0) = stdin_table_addr s" "ld32 m (pcb_file_pos p 0) = 0"
    "ld32 m (pcb_flags p 1) = 1" "ld32 m (pcb_fops p 1) = stdout_table_addr s" "ld32 m (pcb_file_pos p 1) = 0"
    "2 \<le> i \<Longrightarrow> i \<le> 7 \<Longrightarrow> ld32 m (pcb_flags p i) = 0" "x \<notin> span p 128 \<Longrightarrow> m x = mem s x"
proof -
  show "ld32 m (pcb_flags p 0) = 1" "ld32 m (pcb_fops p 0) = stdin_table_addr s" "ld32 m (pcb_file_pos p 0) = 0"
    "ld32 m (pcb_flags p 1) = 1" "ld32 m (pcb_fops p 1) = stdout_table_addr s" "ld32 m (pcb_file_pos p 1) = 0"
    by (simp_all add: m_def std_fds_eq ld32_st32_apart pcb_fd_defs)
  have "ld32 m (pcb_flags p j) = 0" if "j \<in> {2, 3, 4, 5, 6, 7}" for j
    using that by (auto simp: m_def std_fds_eq ld32_st32_apart pcb_fd_defs)
  moreover assume "2 \<le> i" "i \<le> 7"
  then have "i \<in> {2, 3, 4, 5, 6, 7}" by auto
  ultimately show "ld32 m (pcb_flags p i) = 0" by blast
next
  assume x: "x \<notin> span p 128"
  have "x \<notin> fd_span p j" if "j \<in> {0, 1, 2, 3, 4, 5, 6, 7}" for j
    using x fd_span_in_table [of j p] that by auto
  then show "m x = mem s x" by (simp add: m_def std_fds_eq)
qed

text \<open>The link to the parent. The parent's control block is the new one itself (the first process,
  started on the boot stack) or apart from it.\<close>

definition pcbs_apart :: "u32 \<Rightarrow> u32 \<Rightarrow> bool" where
  "pcbs_apart p q \<longleftrightarrow> p = q \<or> span p 292 \<inter> span q 292 = {}"

lemma pcb_other_field:
  assumes "pcbs_apart p q" and "j + 4 \<le> 292" "i + 4 \<le> 292" and "j + 4 \<le> i \<or> i + 4 \<le> j"
  shows "ld32 (st32 m (q + of_nat j) v) (p + of_nat i) = ld32 m (p + of_nat i)"
proof (rule ld32_disjoint)
  fix x assume x: "x \<in> span (p + of_nat i) 4"
  have "span (p + of_nat i) 4 \<inter> span (q + of_nat j) 4 = {}"
  proof (cases "p = q")
    case True
    have "(of_nat (i + a) :: u32) \<noteq> of_nat (j + b)" if "a < 4" "b < 4" for a b
      using that assms(2-4) by (subst word_of_nat_eq_iff) auto
    then show ?thesis using True by (auto simp: in_span_iff add.assoc)
  next
    case False
    then show ?thesis using assms(1) sub_span [OF assms(2), of q] sub_span [OF assms(3), of p] by (auto simp: pcbs_apart_def)
  qed
  then show "st32 m (q + of_nat j) v x = m x" using x by (intro st32_other) blast
qed

text \<open>The memory after \<open>finish_pcb\<close>: the stores in the order the code makes them.\<close>

lemma finish_pcb_mem:
  assumes "pcbs_apart p (get_pcb s)"
  shows "mem (finish_pcb fr p n s) = st32 (st32 (st32 (st32 (st32 (mem (std_fds p s)) (pcb_parent p) (get_pcb s))
     (pcb_kbp (get_pcb s)) (frame_ebp fr)) (pcb_ksp (get_pcb s)) (frame_esp fr))
     (pcb_ss0 (get_pcb s)) (tss_ss0 s)) (pcb_esp0 (get_pcb s)) (tss_esp0 s)"
proof -
  have g: "get_pcb (std_fds p s) = get_pcb s" "tss_ss0 (std_fds p s) = tss_ss0 s" "tss_esp0 (std_fds p s) = tss_esp0 s"
    by (simp_all add: std_fds_eq get_pcb_def)
  have st: "ld32 (st32 m (pcb_kbp (get_pcb s)) v) (pcb_parent p) = ld32 m (pcb_parent p)"
    "ld32 (st32 m (pcb_ksp (get_pcb s)) v) (pcb_parent p) = ld32 m (pcb_parent p)"
    "ld32 (st32 m (pcb_ss0 (get_pcb s)) v) (pcb_parent p) = ld32 m (pcb_parent p)" for m v
    using pcb_other_field [OF assms, of 260 288] pcb_other_field [OF assms, of 256 288] pcb_other_field [OF assms, of 272 288]
    by (simp_all add: pcb_parent_def pcb_kbp_def pcb_ksp_def pcb_ss0_def)
  show ?thesis by (simp add: finish_pcb_def Let_def g st)
qed

lemmas pcb_offsets = pcb_args_def pcb_ksp_def pcb_kbp_def pcb_pid_def pcb_ss0_def pcb_esp0_def pcb_parent_def

text \<open>A word of the new control block that \<open>finish_pcb\<close> does not write as a field of the parent.\<close>

lemma finish_pcb_field:
  assumes ap: "pcbs_apart p (get_pcb s)" and i: "i \<in> set (map ((*) 4) [0..<64]) \<union> {264}"
  shows "ld32 (mem (finish_pcb fr p n s)) (p + of_nat i) = ld32 (mem (std_fds p s)) (p + of_nat i)"
proof -
  have b: "i + 4 \<le> 256 \<or> i = 264" using i by auto
  have f: "ld32 (st32 m (get_pcb s + of_nat j) v) (p + of_nat i) = ld32 m (p + of_nat i)"
    if "j \<in> {256, 260, 272, 276}" for j m v using that b by (intro pcb_other_field [OF ap]) auto
  have "ld32 (st32 m (p + of_nat 288) v) (p + of_nat i) = ld32 m (p + of_nat i)" for m v
    using b by (intro pcb_other_field) (auto simp: pcbs_apart_def)
  then show ?thesis
    using f [of 256] f [of 260] f [of 272] f [of 276] by (simp add: finish_pcb_mem [OF ap] pcb_offsets)
qed

lemma finish_pcb_parent:
  fixes s :: "'a process_scheme" and fr :: exec_frame and p n :: u32
  assumes ap: "pcbs_apart p (get_pcb s)"
  defines "m \<equiv> mem (finish_pcb fr p n s)" and "q \<equiv> get_pcb s"
  shows "ld32 m (pcb_parent p) = q" "ld32 m (pcb_kbp q) = frame_ebp fr" "ld32 m (pcb_ksp q) = frame_esp fr"
    "x \<notin> span p 292 \<Longrightarrow> x \<notin> span q 292 \<Longrightarrow> m x = mem s x"
    "x \<in> span (pcb_args p) 128 \<Longrightarrow> m x = mem s x"
    "ld32 m (pcb_ss0 q) = tss_ss0 s" "ld32 m (pcb_esp0 q) = tss_esp0 s"
proof -
  note pp = pcb_other_field [OF ap, folded q_def, where i = 288]
  have qq: "pcbs_apart q q" by (simp add: pcbs_apart_def)
  note oo = pcb_other_field [OF qq]
  note mm = finish_pcb_mem [OF ap, folded q_def, of fr n]
  show "ld32 m (pcb_parent p) = q"
    using pp [of 256] pp [of 260] pp [of 272] pp [of 276] by (simp add: m_def mm pcb_offsets)
  show "ld32 m (pcb_kbp q) = frame_ebp fr" "ld32 m (pcb_ksp q) = frame_esp fr" "ld32 m (pcb_ss0 q) = tss_ss0 s"
    "ld32 m (pcb_esp0 q) = tss_esp0 s"
    using oo [of 256 260] oo [of 272 260] oo [of 276 260] oo [of 272 256] oo [of 276 256] oo [of 276 272]
    by (simp_all add: m_def mm pcb_offsets)
  have out: "m x = mem (std_fds p s) x" if "x \<notin> span (p + of_nat 288) 4" "x \<notin> span (q + of_nat 256) 8"
    "x \<notin> span (q + of_nat 272) 8"
  proof -
    have "span (q + of_nat 256 + of_nat 4) 4 \<subseteq> span (q + of_nat 256) 8" "span (q + of_nat 256 + of_nat 0) 4 \<subseteq> span (q + of_nat 256) 8"
      "span (q + of_nat 272 + of_nat 4) 4 \<subseteq> span (q + of_nat 272) 8" "span (q + of_nat 272 + of_nat 0) 4 \<subseteq> span (q + of_nat 272) 8"
      by (rule sub_span; simp)+
    then have "x \<notin> span (pcb_kbp q) 4" "x \<notin> span (pcb_ksp q) 4" "x \<notin> span (pcb_ss0 q) 4" "x \<notin> span (pcb_esp0 q) 4"
      "x \<notin> span (pcb_parent p) 4"
      using that by (auto simp: pcb_offsets add.assoc)
    then show ?thesis by (simp add: m_def mm st32_other)
  qed
  have sub: "span (p + of_nat 288) 4 \<subseteq> span p 292" "span (q + of_nat 256) 8 \<subseteq> span q 292"
    "span (q + of_nat 272) 8 \<subseteq> span q 292" "span (p + of_nat 0) 128 \<subseteq> span p 292"
    by (rule sub_span; simp)+
  show "m x = mem s x" if "x \<notin> span p 292" "x \<notin> span q 292"
  proof -
    have "x \<notin> span (p + of_nat 288) 4" "x \<notin> span (q + of_nat 256) 8" "x \<notin> span (q + of_nat 272) 8" "x \<notin> span p 128"
      using that sub by auto
    then show ?thesis using out std_fds_table(8) [of x p s] by simp
  qed
  show "m x = mem s x" if "x \<in> span (pcb_args p) 128"
  proof -
    have x: "x \<in> span (p + of_nat 128) 128" using that by (simp add: pcb_args_def)
    have a: "span (p + of_nat 128) 128 \<subseteq> span p 292" by (rule sub_span) simp
    have d: "span p 128 \<inter> span (p + of_nat 128) 128 = {}" by (rule span_disjoint_offset) simp_all
    have e: "span (p + of_nat 128) 128 \<inter> span (p + of_nat k) l = {}" if "256 \<le> k" "k + l \<le> 292" for k l
      using span_disjoint_offset [of 128 "k - 128" l "p + of_nat 128"] that by (simp add: of_nat_diff add.assoc)
    have f: "x \<notin> span (q + of_nat k) l" if "256 \<le> k" "k + l \<le> 292" for k l
      using ap x a e [OF that] sub_span [OF that(2), of q] unfolding pcbs_apart_def q_def by blast
    have "x \<notin> span (p + of_nat 288) 4" "x \<notin> span p 128" using e [of 288 4] x d by auto
    then show ?thesis using out f [of 256 8] f [of 272 8] std_fds_table(8) [of x p s] by simp
  qed
qed

text \<open>Taking a slot of a terminal writes into the array of terminals alone.\<close>

lemma term_byte_in_array:
  assumes "t \<in> {0, 1, 2}"
  shows "term_flag s t \<in> span (terminals_addr s) 456" and "i \<in> {0, 1, 2, 3} \<Longrightarrow> term_process s t i \<in> span (terminals_addr s) 456"
proof -
  have b: "term_base s t + of_nat k \<in> span (terminals_addr s) 456" if "k < 152" for k
    using term_offset_span [OF assms, of k 1 s] that span_Cons [of "term_base s t + of_nat k" 0] by auto
  show "term_flag s t \<in> span (terminals_addr s) 456" using b [of 144] by (simp add: term_flag_def)
  assume "i \<in> {0, 1, 2, 3}"
  then show "term_process s t i \<in> span (terminals_addr s) 456"
    using b [of 0] b [of 1] b [of 2] b [of 3] by (auto simp: term_process_def)
qed

lemma find_in_set: "find P xs = Some x \<Longrightarrow> x \<in> set xs"
  by (auto simp: find_Some_iff)

lemma term_addresses_update [simp]:
  "term_process (s\<lparr>mem := m\<rparr>) = term_process s" "term_flag (s\<lparr>mem := m\<rparr>) = term_flag s"
  "term_process (s\<lparr>running_terminal := r\<rparr>) = term_process s" "term_flag (s\<lparr>running_terminal := r\<rparr>) = term_flag s"
  "term_process (s\<lparr>terminal_shell := h\<rparr>) = term_process s" "term_flag (s\<lparr>terminal_shell := h\<rparr>) = term_flag s"
  by (simp_all add: term_addr_defs fun_eq_iff)

lemma assign_terminal_outside:
  assumes "active_terminal s \<in> {0, 1, 2}" and "x \<notin> span (terminals_addr s) 456"
  shows "mem (assign_terminal n s) x = mem s x"
proof -
  let ?t = "active_terminal s"
  have ne: "x \<noteq> term_flag s ?t" "x \<noteq> term_process s ?t 0"
    using term_byte_in_array [OF assms(1)] assms(2) by auto
  show ?thesis
  proof (cases "find (\<lambda>i. mem s (term_process s ?t i) = 0xFF) [0, 1, 2, 3]")
    case None
    then show ?thesis using ne by (auto simp: assign_terminal_def Let_def simp del: find.simps)
  next
    case (Some i)
    have "x \<noteq> term_process s ?t i" using term_byte_in_array(2) [OF assms(1)] find_in_set [OF Some] assms(2) by auto
    then show ?thesis using ne Some by (auto simp: assign_terminal_def Let_def simp del: find.simps)
  qed
qed

text \<open>The user page is apart from what lies below it.\<close>

lemma below_user_page: "unat a + n \<le> 0x8000000 \<Longrightarrow> x \<in> span a n \<Longrightarrow> drop_bit 22 x \<noteq> 32 \<and> x \<notin> span 0x8048000 0x3FF001"
proof -
  assume h: "unat a + n \<le> 0x8000000" "x \<in> span a n"
  then obtain i where "i < n" "x = a + of_nat i" by (auto simp: in_span_iff)
  with h have "unat x = unat a + i" by (simp add: unat_add_of_nat32)
  then have "\<not> in_user_page x" using h \<open>i < n\<close> by (simp add: in_user_page_bounds)
  moreover have "span a n \<inter> span 0x8048000 0x3FF001 = {}" using h(1) by (intro span_disjoint_below) simp_all
  ultimately show ?thesis using h(2) by (auto simp: in_user_page_def)
qed

text \<open>The memory when the control block has its number and its arguments, before the user page is
  switched: only that block, the terminals and the word at the old parent have changed.\<close>

lemma start_process_prefix:
  fixes s :: "'a process_scheme" and k :: nat
  defines "p \<equiv> task_pcb (of_nat k)"
  assumes slot: "lowest_slot s k" and act: "active_terminal s \<in> {0, 1, 2}"
    and as: "cstr (mem s) (arg_dat fr) as" "length as \<le> 127" and ap: "apart (exec_regions fr k s)"
  shows "\<exists>s1 m'. start_process fr entry s =
       (let (r, s2) = read_data (ld32 (mem (page_switch (int k) (s1\<lparr>mem := m'\<rparr>))) (dentry_inode_num (cmds_dentry fr))) 0
          0x8048000 (1023 * 4096) (page_switch (int k) (s1\<lparr>mem := m'\<rparr>))
        in Some (User (enter_user entry) (sti (finish_pcb fr p (of_nat k) s2)))) \<and>
     (\<forall>x. x \<notin> span p 292 \<and> x \<notin> span (terminals_addr s) 456 \<and> x \<notin> span (pcb_pid (ld32 (mem s) (pcb_parent p))) 4
        \<longrightarrow> m' x = mem s x) \<and>
     cstr m' (pcb_args p) as \<and> ld32 m' (pcb_pid p) = of_nat k \<and>
     bootblock_addr s1 = bootblock_addr s \<and> data_count s1 = data_count s \<and> esp s1 = esp s \<and>
     stdin_table_addr s1 = stdin_table_addr s \<and> stdout_table_addr s1 = stdout_table_addr s \<and>
     tss_ss0 s1 = tss_ss0 s \<and> tss_esp0 s1 = tss_esp0 s"
proof -
  let ?n = "of_nat k :: u32" and ?T = "span (terminals_addr s) 456" and ?P = "span p 292" and ?A = "span (arg_dat fr) 128"
  let ?q = "ld32 (mem s) (pcb_parent p)"
  let ?Q = "span (pcb_pid ?q) 4"
  have d: "?P \<inter> ?T = {}" "?P \<inter> ?Q = {}" "?A \<inter> ?P = {}" "?A \<inter> ?T = {}" "?A \<inter> ?Q = {}"
    using ap by (auto simp: exec_regions_def p_def)
  have sub: "span (pcb_pid p) 4 \<subseteq> ?P" "span (pcb_parent p) 4 \<subseteq> ?P" "span (pcb_args p) 128 \<subseteq> ?P"
    using sub_span [of 264 4 292 p] sub_span [of 288 4 292 p] sub_span [of 128 128 292 p] by (simp_all add: pcb_offsets)
  define s0 where "s0 = s\<lparr>pcb_state := (pcb_state s)(?n := 1), mem := st32 (mem s) (pcb_pid p) ?n\<rparr>"
  define s1 where "s1 = assign_terminal ?n s0"
  define m3 where "m3 = st32 (mem s1) (pcb_pid ?q) (scast (mem s1 (term_process s1 (active_terminal s) 0)))"
  have m0: "mem s0 x = mem s x" if "x \<notin> ?P" for x
    using that sub(1) by (auto simp: s0_def intro: st32_other)
  have m1: "mem s1 x = mem s0 x" if "x \<notin> ?T" for x
    using assign_terminal_outside [of s0 x ?n] that act by (simp add: s1_def s0_def)
  have par: "ld32 (mem s1) (pcb_parent p) = ?q"
  proof -
    have "ld32 (mem s1) (pcb_parent p) = ld32 (mem s0) (pcb_parent p)"
      using sub(2) d(1) by (intro ld32_disjoint m1) blast
    then show ?thesis by (simp add: s0_def ld32_st32_apart pcb_offsets)
  qed
  have m3: "m3 x = mem s1 x" if "x \<notin> ?Q" for x using that by (simp add: m3_def st32_other)
  have A: "m3 x = mem s x" if "x \<in> ?A" for x
  proof -
    have "x \<notin> ?P" "x \<notin> ?T" "x \<notin> ?Q" using that d by blast+
    then show ?thesis using m3 m1 m0 by simp
  qed
  have la: "span (arg_dat fr) (Suc (length as)) \<subseteq> ?A" "span (pcb_args p) (Suc (length as)) \<subseteq> span (pcb_args p) 128"
    using as(2) by (intro span_mono; simp)+
  have ca: "cstr m3 (arg_dat fr) as" using as(1) la(1) A by (subst cstr_cong [of _ _ _ "mem s"]) auto
  define m4 where "m4 = wrs m3 (pcb_args p) (as @ [0])"
  have "span (pcb_args p) (Suc (length as)) \<inter> span (arg_dat fr) (Suc (length as)) = {}"
    using la sub(3) d(3) by blast
  then have cp: "strcpy m3 (pcb_args p) (arg_dat fr) = Some m4" unfolding m4_def by (rule strcpy_cstr [OF ca])
  have m4: "m4 x = m3 x" if "x \<notin> span (pcb_args p) 128" for x
    unfolding m4_def using that la(2) by (intro wrs_other) auto
  have "cstr m4 (pcb_args p) as" unfolding m4_def using as cstr_nonzero [OF as(1)] by (intro cstr_wrs_self) auto
  moreover have "ld32 m4 (pcb_pid p) = ?n"
  proof -
    have "span (pcb_args p) 128 \<inter> span (pcb_pid p) 4 = {}"
      using span_disjoint_offset [of 128 136 4 "pcb_args p"] by (simp add: pcb_offsets add.assoc)
    then have "ld32 m4 (pcb_pid p) = ld32 (mem s0) (pcb_pid p)"
      using sub(1) d(1,2) by (intro ld32_disjoint) (subst m4, blast, subst m3, blast, subst m1, blast, rule refl)
    then show ?thesis by (simp add: s0_def)
  qed
  moreover have "m4 x = mem s x" if "x \<notin> ?P" "x \<notin> ?T" "x \<notin> ?Q" for x
    using that sub(3) by (subst m4) (auto simp: m3 m1 m0)
  moreover have "uint ?n = int k"
    using slot by (simp add: lowest_slot_def unsigned_of_nat take_bit_nat_eq_self)
  then have "start_process fr entry s =
       (let (r, s2) = read_data (ld32 (mem (page_switch (int k) (s1\<lparr>mem := m4\<rparr>))) (dentry_inode_num (cmds_dentry fr))) 0
          0x8048000 (1023 * 4096) (page_switch (int k) (s1\<lparr>mem := m4\<rparr>))
        in Some (User (enter_user entry) (sti (finish_pcb fr p ?n s2))))"
    unfolding start_process_def take_slot_lowest [OF slot]
    using par cp by (simp add: Let_def s0_def [symmetric] s1_def [symmetric] p_def [symmetric] m3_def [symmetric])
  moreover have "bootblock_addr s1 = bootblock_addr s" "data_count s1 = data_count s" "esp s1 = esp s"
    "stdin_table_addr s1 = stdin_table_addr s" "stdout_table_addr s1 = stdout_table_addr s" "tss_ss0 s1 = tss_ss0 s" "tss_esp0 s1 = tss_esp0 s"
    by (simp_all add: s1_def s0_def)
  ultimately show ?thesis by blast
qed

text \<open>A process ready to run: the program in the user page, the arguments and the number in the
  control block, standard input and output open and the other descriptors free, the
  parent linked, with what it needs to be resumed (the stack \<open>stk\<close> of the task state segment
  included), and that segment set to the kernel stack of the new process.\<close>

definition task_ready :: "exec_frame \<Rightarrow> u32 \<Rightarrow> u32 \<Rightarrow> u32 \<times> u32 \<Rightarrow> nat \<Rightarrow> u8 list \<Rightarrow> u8 list \<Rightarrow> 'a process_scheme \<Rightarrow> bool" where
  "task_ready fr p q stk k as prog s \<longleftrightarrow>
     rds (mem s) 0x8048000 (length prog) = prog \<and> cstr (mem s) (pcb_args p) as \<and> ld32 (mem s) (pcb_pid p) = of_nat k \<and>
     ld32 (mem s) (pcb_flags p 0) = 1 \<and> ld32 (mem s) (pcb_fops p 0) = stdin_table_addr s \<and>
     ld32 (mem s) (pcb_flags p 1) = 1 \<and> ld32 (mem s) (pcb_fops p 1) = stdout_table_addr s \<and>
     (\<forall>i. 2 \<le> i \<and> i \<le> 7 \<longrightarrow> ld32 (mem s) (pcb_flags p i) = 0) \<and>
     ld32 (mem s) (pcb_parent p) = q \<and> ld32 (mem s) (pcb_kbp q) = frame_ebp fr \<and> ld32 (mem s) (pcb_ksp q) = frame_esp fr \<and>
     (ld32 (mem s) (pcb_ss0 q), ld32 (mem s) (pcb_esp0 q)) = stk \<and>
     tss_ss0 s = 0x18 \<and> tss_esp0 s = 0x800000 - of_nat k * 0x2000 - 4"

lemma finish_pcb_ready:
  fixes s :: "'a process_scheme"
  assumes ap: "pcbs_apart p (get_pcb s)" and pr: "rds (mem s) 0x8048000 (length prog) = prog" "length prog \<le> 0x3FF000"
    and as: "cstr (mem s) (pcb_args p) as" "length as \<le> 127" and pid: "ld32 (mem s) (pcb_pid p) = of_nat k"
    and low: "unat p + 292 \<le> 0x8000000" "unat (get_pcb s) + 292 \<le> 0x8000000"
  shows "task_ready fr p (get_pcb s) (tss_ss0 s, tss_esp0 s) k as prog (finish_pcb fr p (of_nat k) s)"
proof -
  let ?n = "of_nat k :: u32"
  let ?f = "finish_pcb fr p ?n s"
  note fp = finish_pcb_parent [OF ap, where fr = fr and n = ?n]
  have fl: "ld32 (mem ?f) (pcb_flags p i) = ld32 (mem (std_fds p s)) (pcb_flags p i)"
      "ld32 (mem ?f) (pcb_fops p i) = ld32 (mem (std_fds p s)) (pcb_fops p i)" if "0 \<le> i" "i \<le> 7" for i
  proof -
    have e: "word_of_int i = (of_nat (nat i) :: u32)" using that by simp
    have "16 * nat i + 12 \<in> set (map ((*) 4) [0..<64])" "16 * nat i \<in> set (map ((*) 4) [0..<64])"
      using that by (auto intro: image_eqI [of _ _ "4 * nat i + 3"] image_eqI [of _ _ "4 * nat i"])
    then show "ld32 (mem ?f) (pcb_flags p i) = ld32 (mem (std_fds p s)) (pcb_flags p i)"
      "ld32 (mem ?f) (pcb_fops p i) = ld32 (mem (std_fds p s)) (pcb_fops p i)"
      using finish_pcb_field [OF ap, where i = "16 * nat i + 12" and fr = fr and n = ?n] finish_pcb_field [OF ap, where i = "16 * nat i" and fr = fr and n = ?n]
      by (simp_all add: pcb_fd_defs e add.assoc)
  qed
  have "rds (mem ?f) 0x8048000 (length prog) = prog"
  proof -
    have "mem ?f (0x8048000 + of_nat i) = mem s (0x8048000 + of_nat i)" if "i < length prog" for i
    proof (rule fp(4))
      have "0x8048000 + of_nat i \<in> span 0x8048000 0x3FF001" using that pr(2) by (intro in_spanI) simp
      then show "0x8048000 + of_nat i \<notin> span p 292" "0x8048000 + of_nat i \<notin> span (get_pcb s) 292"
        using below_user_page [OF low(1)] below_user_page [OF low(2)] by blast+
    qed
    then have "rds (mem ?f) 0x8048000 (length prog) = rds (mem s) 0x8048000 (length prog)" by (rule rds_cong)
    then show ?thesis by (simp add: pr(1))
  qed
  moreover have "cstr (mem ?f) (pcb_args p) as"
    using as span_sub [of "Suc (length as)" 128] by (subst cstr_cong [of _ _ _ "mem s"]) (auto intro: fp(5))
  moreover have "ld32 (mem ?f) (pcb_pid p) = of_nat k"
  proof -
    have "span p 128 \<inter> span (p + of_nat 264) 4 = {}" by (rule span_disjoint_offset) simp_all
    then have "ld32 (mem (std_fds p s)) (p + of_nat 264) = ld32 (mem s) (p + of_nat 264)"
      by (intro ld32_disjoint std_fds_table(8)) blast
    then show ?thesis using finish_pcb_field [OF ap, where i = 264 and fr = fr and n = ?n] pid by (simp add: pcb_pid_def)
  qed
  moreover have "stdin_table_addr ?f = stdin_table_addr s" "stdout_table_addr ?f = stdout_table_addr s"
    "tss_ss0 ?f = 0x18" "tss_esp0 ?f = SIZE_8MB - ?n * 0x2000 - 4"
    using finish_pcb_shape [of fr p ?n s] by auto
  ultimately show ?thesis
    unfolding task_ready_def using fl std_fds_table [where p = p and s = s] fp(1-3,6,7) by simp
qed

text \<open>Loading a whole file into the user page.\<close>

lemma load_file:
  assumes ok: "file_ok (mem s) (bootblock_addr s) n" and mt: "mounted s"
    and low: "unat (bootblock_addr s) + fs_size (mem s) (bootblock_addr s) \<le> 0x8000000"
  defines "bs \<equiv> file_bytes (mem s) (bootblock_addr s) n"
  shows "\<exists>r m'. read_data n 0 0x8048000 (1023 * 4096) s = (r, s\<lparr>mem := m'\<rparr>) \<and> rds m' 0x8048000 (length bs) = bs \<and>
     (\<forall>x. x \<notin> span 0x8048000 0x3FF001 \<longrightarrow> m' x = mem s x)"
proof -
  let ?m = "mem s" and ?bb = "bootblock_addr s"
  let ?st = "read_stores ?m ?bb n 0 0x3FF000" and ?L = "file_length ?m ?bb n"
  have L: "?L < 0x3FF000" using ok by (simp add: file_ok_def)
  have st: "take ?L ?st = bs" "length ?st = Suc ?L"
    using take_read_stores [of 0 ?m ?bb n "0x3FF000"] length_read_stores [of 0 ?m ?bb n "0x3FF000"] L
    by (simp_all add: read_count_def bs_def file_bytes_def)
  have "span 0x8048000 0x3FF000 \<inter> span ?bb (fs_size ?m ?bb) = {}"
    using span_disjoint_below [of ?bb "fs_size ?m ?bb" "0x8048000" "0x3FF000"] low by auto
  then have "read_data n 0 0x8048000 (1023 * 4096) s = (int (read_count ?m ?bb n 0 0x3FF000), s\<lparr>mem := wrs ?m 0x8048000 ?st\<rparr>)"
    using read_data_ok [OF ok mt, of 0 "1023 * 4096" "0x8048000"] by simp
  moreover have "rds (wrs ?m 0x8048000 ?st) 0x8048000 (length bs) = bs"
  proof -
    have "rds (wrs ?m 0x8048000 ?st) 0x8048000 (Suc ?L) = ?st" using rds_wrs [of ?st ?m "0x8048000"] st(2) L by simp
    then have "take ?L (rds (wrs ?m 0x8048000 ?st) 0x8048000 (Suc ?L)) = bs" using st(1) by simp
    moreover have "length bs = ?L" by (simp add: bs_def file_bytes_def)
    ultimately show ?thesis by (simp add: rds_Suc)
  qed
  moreover have "wrs ?m 0x8048000 ?st x = ?m x" if "x \<notin> span 0x8048000 0x3FF001" for x
    using that span_mono [of "Suc ?L" "0x3FF001" "0x8048000"] L st(2) by (intro wrs_other) auto
  ultimately show ?thesis by blast
qed

lemma start_process_ok:
  fixes s :: "'a process_scheme" and k :: nat
  defines "p \<equiv> task_pcb (of_nat k)" and "bb \<equiv> bootblock_addr s"
  assumes slot: "lowest_slot s k" and act: "active_terminal s \<in> {0, 1, 2}"
    and as: "cstr (mem s) (arg_dat fr) as" "length as \<le> 127"
    and ino: "ld32 (mem s) (dentry_inode_num (cmds_dentry fr)) = n" and ok: "file_ok (mem s) bb n" and mt: "mounted s"
    and ap: "apart (exec_regions fr k s)" and low: "kernel_side (exec_regions fr k s)"
    and pa: "pcbs_apart p (get_pcb s)" "unat (get_pcb s) + 292 \<le> 0x8000000"
  shows "\<exists>s'. start_process fr entry s = Some (User (enter_user entry) s') \<and>
     task_ready fr p (get_pcb s) (tss_ss0 s, tss_esp0 s) k as (file_bytes (mem s) bb n) s'"
proof -
  let ?P = "span p 292" and ?T = "span (terminals_addr s) 456" and ?I = "span bb (fs_size (mem s) bb)"
  let ?Q = "span (pcb_pid (ld32 (mem s) (pcb_parent p))) 4" and ?D = "span (cmds_dentry fr) 40"
  let ?bs = "file_bytes (mem s) bb n"
  obtain s1 m4 where st: "start_process fr entry s =
       (let (r, s2) = read_data (ld32 (mem (page_switch (int k) (s1\<lparr>mem := m4\<rparr>))) (dentry_inode_num (cmds_dentry fr))) 0
          0x8048000 (1023 * 4096) (page_switch (int k) (s1\<lparr>mem := m4\<rparr>))
        in Some (User (enter_user entry) (sti (finish_pcb fr p (of_nat k) s2))))"
    and m4: "\<And>x. x \<notin> ?P \<Longrightarrow> x \<notin> ?T \<Longrightarrow> x \<notin> ?Q \<Longrightarrow> m4 x = mem s x"
    and pcb: "cstr m4 (pcb_args p) as" "ld32 m4 (pcb_pid p) = of_nat k"
    and fld: "bootblock_addr s1 = bb" "data_count s1 = data_count s" "esp s1 = esp s" "tss_ss0 s1 = tss_ss0 s" "tss_esp0 s1 = tss_esp0 s"
    using start_process_prefix [OF slot act as ap, of entry] unfolding p_def bb_def by auto
  define s2 where "s2 = page_switch (int k) (s1\<lparr>mem := m4\<rparr>)"
  have k: "0 \<le> int k" "int k < 8" using slot by (simp_all add: lowest_slot_def)
  have lo: "unat p + 292 \<le> 0x8000000" "unat bb + fs_size (mem s) bb \<le> 0x8000000" "unat (cmds_dentry fr) + 40 \<le> 0x8000000"
    using low by (simp_all add: kernel_side_def exec_regions_def p_def bb_def)
  have dj: "?I \<inter> ?P = {}" "?I \<inter> ?T = {}" "?I \<inter> ?Q = {}" "?D \<inter> ?P = {}" "?D \<inter> ?T = {}" "?D \<inter> ?Q = {}"
    using ap by (simp_all add: exec_regions_def p_def bb_def)
  have m2: "mem s2 x = m4 x" if "drop_bit 22 x \<noteq> 32" for x
    unfolding s2_def using that by (simp add: page_switch_memory(1) [OF k])
  have agree: "mem s2 x = mem s x" if "x \<in> ?I" for x
  proof -
    have "x \<notin> ?P" "x \<notin> ?T" "x \<notin> ?Q" using that dj(1-3) by blast+
    then show ?thesis using below_user_page [OF lo(2) that] m2 m4 by simp
  qed
  have n: "ld32 (mem s2) (dentry_inode_num (cmds_dentry fr)) = n"
  proof -
    have sub: "span (dentry_inode_num (cmds_dentry fr)) 4 \<subseteq> ?D"
      using sub_span [of 36 4 40 "cmds_dentry fr"] by (simp add: dentry_inode_num_def)
    have "mem s2 x = mem s x" if "x \<in> ?D" for x
    proof -
      have "x \<notin> ?P" "x \<notin> ?T" "x \<notin> ?Q" using that dj(4-6) by blast+
      then show ?thesis using below_user_page [OF lo(3) that] m2 m4 by simp
    qed
    then show ?thesis unfolding ino [symmetric] using sub by (intro ld32_disjoint) blast
  qed
  have f2: "bootblock_addr s2 = bb" "data_count s2 = data_count s" "get_pcb s2 = get_pcb s" "tss_ss0 s2 = tss_ss0 s" "tss_esp0 s2 = tss_esp0 s"
    using fld by (simp_all add: s2_def get_pcb_def)
  have ok2: "file_ok (mem s2) bb n" by (rule file_ok_cong [OF agree ok])
  have mt2: "mounted s2" using mt f2(1,2) image_counts_cong(2) [OF agree] by (simp add: mounted_def bb_def)
  have sz: "fs_size (mem s2) bb = fs_size (mem s) bb" by (rule image_counts_cong(3) [OF agree])
  have bs2: "file_bytes (mem s2) bb n = ?bs"
  proof -
    have "file_length (mem s2) bb n = file_length (mem s) bb n" using ok by (intro file_cong(1) [OF agree]) (auto simp: file_ok_def)
    moreover have "file_byte (mem s2) bb n j = file_byte (mem s) bb n j" if "j < file_length (mem s) bb n" for j
      using file_ok_block [OF ok] that ok by (intro file_byte_cong [OF agree]) (auto simp: file_ok_def)
    ultimately show ?thesis by (simp add: file_bytes_def)
  qed
  obtain r m6 where rd: "read_data n 0 0x8048000 (1023 * 4096) s2 = (r, s2\<lparr>mem := m6\<rparr>)"
    and m6: "rds m6 0x8048000 (length ?bs) = ?bs" "\<And>x. x \<notin> span 0x8048000 0x3FF001 \<Longrightarrow> m6 x = mem s2 x"
    using load_file [OF _ mt2, of n] ok2 f2(1) sz lo(2) bs2 by (metis (no_types, lifting))
  have P6: "m6 x = m4 x" if "x \<in> ?P" for x using that below_user_page [OF lo(1) that] m6(2) m2 by simp
  have "cstr m6 (pcb_args p) as"
  proof (subst cstr_cong [of _ _ _ m4])
    fix x assume "x \<in> span (pcb_args p) (Suc (length as))"
    then have "x \<in> span (p + of_nat 128) 128" using as(2) span_sub [of "Suc (length as)" 128] by (auto simp: pcb_args_def)
    then show "m6 x = m4 x" using sub_span [of 128 128 292 p] by (intro P6) auto
  qed (rule pcb(1))
  moreover have "ld32 m6 (pcb_pid p) = of_nat k"
    using sub_span [of 264 4 292 p] P6 pcb(2) ld32_disjoint [of "pcb_pid p" m6 m4] by (auto simp: pcb_pid_def)
  moreover have "length ?bs \<le> 0x3FF000" using ok by (simp add: file_bytes_def file_ok_def)
  ultimately have "task_ready fr p (get_pcb s) (tss_ss0 s, tss_esp0 s) k as ?bs (finish_pcb fr p (of_nat k) (s2\<lparr>mem := m6\<rparr>))"
    using finish_pcb_ready [of p "s2\<lparr>mem := m6\<rparr>" ?bs as k fr] pa m6(1) as(2) lo(1) f2(3-5)
    by (simp add: get_pcb_def)
  then show ?thesis using st n rd unfolding s2_def [symmetric] by (simp add: task_ready_def sti_def)
qed

lemma exec_regions_cong:
  fixes s s' :: "'a process_scheme"
  assumes "\<And>x. x \<in> span (bootblock_addr s) (fs_size (mem s) (bootblock_addr s)) \<Longrightarrow> mem s' x = mem s x"
    and "\<And>x. x \<in> span (task_pcb (of_nat k)) 292 \<Longrightarrow> mem s' x = mem s x"
    and "bootblock_addr s' = bootblock_addr s" "quit_str s' = quit_str s" "terminals_addr s' = terminals_addr s"
  shows "exec_regions fr k s' = exec_regions fr k s"
proof -
  let ?p = "task_pcb (of_nat k)"
  have "span (pcb_parent ?p) 4 \<subseteq> span ?p 292" using sub_span [of 288 4 292 ?p] by (simp add: pcb_parent_def)
  then have "ld32 (mem s') (pcb_parent ?p) = ld32 (mem s) (pcb_parent ?p)" using assms(2) by (intro ld32_disjoint) blast
  moreover have "fs_size (mem s') (bootblock_addr s) = fs_size (mem s) (bootblock_addr s)"
    by (rule image_counts_cong(3) [OF assms(1)])
  ultimately show ?thesis using assms(3-5) by (simp add: exec_regions_def)
qed

lemma execute_reaches_start:
  fixes s :: "'a process_scheme" and k :: nat
  assumes call: "exec_call fr command name args k s" and nf: "names_file (mem s) (bootblock_addr s) name e n"
    and mt: "mounted s" and elf: "elf_bytes (file_bytes (mem s) (bootblock_addr s) n)" and slot: "lowest_slot s k"
  shows "\<exists>entry m'. execute (fr # frs) command s = start_process fr entry ((tables_init s)\<lparr>mem := m'\<rparr>) \<and>
     bytes32 entry = take 4 (drop 24 (file_bytes (mem s) (bootblock_addr s) n)) \<and>
     ld32 m' (dentry_inode_num (cmds_dentry fr)) = n \<and> cstr m' (arg_dat fr) (args_of args) \<and>
     (\<forall>x \<in> span (bootblock_addr s) (fs_size (mem s) (bootblock_addr s)) \<union> span (task_pcb (of_nat k)) 292. m' x = mem s x)"
proof -
  let ?C = "span (cmds fr) 32" and ?A = "span (arg_dat fr) 128" and ?E = "span (exe_data fr) 40" and ?D = "span (cmds_dentry fr) 40"
  let ?bb = "bootblock_addr s" and ?p = "task_pcb (of_nat k)"
  let ?I = "span ?bb (fs_size (mem s) ?bb)" and ?P = "span ?p 292"
  have ap: "apart (exec_regions fr k s)" and ok: "command_ok name args"
    using call by (simp_all add: exec_call_def)
  have d: "?C \<inter> ?I = {}" "?A \<inter> ?I = {}" "?E \<inter> ?I = {}" "?D \<inter> ?I = {}" "?C \<inter> ?P = {}" "?A \<inter> ?P = {}" "?E \<inter> ?P = {}"
    "?D \<inter> ?P = {}" "?A \<inter> ?E = {}" "?A \<inter> ?D = {}" "?E \<inter> ?D = {}"
    using ap by (simp_all add: exec_regions_def)
  obtain m1 where m1: "execute (fr # frs) command s = run_file fr ((tables_init s)\<lparr>mem := m1\<rparr>)" "cstr m1 (cmds fr) name"
    "cstr m1 (arg_dat fr) (args_of args)" "\<And>x. x \<notin> ?C \<Longrightarrow> x \<notin> ?A \<Longrightarrow> m1 x = mem s x"
    using execute_parsed [OF call, of "halt_with (execute frs)"] by auto
  let ?s1 = "(tables_init s)\<lparr>mem := m1\<rparr>"
  have I1: "m1 x = mem s x" if "x \<in> ?I" for x using that d(1,2) by (intro m1(4)) blast+
  note nf1 = names_file_cong [OF I1 nf]
  have mt1: "mounted ?s1" using mt image_counts_cong(2) [OF I1] by (simp add: mounted_def tables_init_def)
  have sz1: "fs_size m1 ?bb = fs_size (mem s) ?bb" by (rule image_counts_cong(3) [OF I1])
  have nfull: "\<not> pcb_state_full ?s1"
  proof
    assume "pcb_state_full ?s1"
    then have "\<forall>j \<in> set (map of_nat [0..<6]). pcb_state s j = 1" by (simp add: pcb_state_full_def upt_rec)
    then show False using slot by (auto simp: lowest_slot_def)
  qed
  have "\<exists>m' entry. run_file fr ?s1 = start_process fr entry (?s1\<lparr>mem := m'\<rparr>) \<and>
     bytes32 entry = take 4 (drop 24 (file_bytes m1 ?bb n)) \<and> ld32 m' (dentry_inode_num (cmds_dentry fr)) = n \<and>
     (\<forall>x. x \<notin> ?D \<and> x \<notin> ?E \<longrightarrow> m' x = m1 x)"
    using run_file_ok [of ?s1 name e n fr] nf1 m1(2) ok mt1 elf nfull d(3,4,11) sz1 by (auto simp: command_ok_def)
  then obtain m2 entry where m2: "run_file fr ?s1 = start_process fr entry ((tables_init s)\<lparr>mem := m2\<rparr>)"
    "bytes32 entry = take 4 (drop 24 (file_bytes (mem s) ?bb n))" "ld32 m2 (dentry_inode_num (cmds_dentry fr)) = n"
    "\<And>x. x \<notin> ?D \<Longrightarrow> x \<notin> ?E \<Longrightarrow> m2 x = m1 x"
    using nf1(2) by auto
  have I2: "m2 x = mem s x" if "x \<in> ?I" for x
  proof -
    have "x \<notin> ?D" "x \<notin> ?E" using that d by blast+
    then show ?thesis using m2(4) I1 [OF that] by simp
  qed
  have P2: "m2 x = mem s x" if "x \<in> ?P" for x
  proof -
    have "x \<notin> ?D" "x \<notin> ?E" "x \<notin> ?C" "x \<notin> ?A" using that d by blast+
    then show ?thesis using m2(4) m1(4) by simp
  qed
  have A2: "cstr m2 (arg_dat fr) (args_of args)"
  proof -
    have l: "length (args_of args) \<le> 127" using ok by (simp add: command_ok_def)
    have "m2 x = m1 x" if "x \<in> span (arg_dat fr) (Suc (length (args_of args)))" for x
    proof -
      have "x \<in> ?A" using that l span_sub [of "Suc (length (args_of args))" 128] by auto
      then show ?thesis using d(9,10) by (intro m2(4)) blast+
    qed
    then show "cstr m2 (arg_dat fr) (args_of args)" using m1(3) cstr_cong [of "arg_dat fr" "args_of args" m2 m1] by simp
  qed
  show ?thesis using m1(1) m2(1-3) I2 P2 A2 by auto
qed

lemma execute_starts_task:
  fixes s :: "'a process_scheme" and k :: nat
  assumes call: "exec_call fr command name args k s" and nf: "names_file (mem s) (bootblock_addr s) name e n"
    and mt: "mounted s" and elf: "elf_bytes (file_bytes (mem s) (bootblock_addr s) n)"
    and slot: "lowest_slot s k" and act: "active_terminal s \<in> {0, 1, 2}"
    and pa: "pcbs_apart (task_pcb (of_nat k)) (get_pcb s)" "unat (get_pcb s) + 292 \<le> 0x8000000"
  defines "prog \<equiv> file_bytes (mem s) (bootblock_addr s) n"
  shows "\<exists>entry s'. execute (fr # frs) command s = Some (User (enter_user entry) s') \<and> bytes32 entry = take 4 (drop 24 prog) \<and> started s k s' \<and>
     task_ready fr (task_pcb (of_nat k)) (get_pcb s) (tss_ss0 s, tss_esp0 s) k (args_of args) prog s'"
proof -
  let ?bb = "bootblock_addr s" and ?p = "task_pcb (of_nat k)"
  obtain entry m2 where m2: "execute (fr # frs) command s = start_process fr entry ((tables_init s)\<lparr>mem := m2\<rparr>)"
    "bytes32 entry = take 4 (drop 24 prog)" "ld32 m2 (dentry_inode_num (cmds_dentry fr)) = n"
    "cstr m2 (arg_dat fr) (args_of args)"
    and I2: "\<And>x. x \<in> span ?bb (fs_size (mem s) ?bb) \<Longrightarrow> m2 x = mem s x" and P2: "\<And>x. x \<in> span ?p 292 \<Longrightarrow> m2 x = mem s x"
    using execute_reaches_start [OF call nf mt elf slot, of frs] unfolding prog_def by blast
  let ?s2 = "(tables_init s)\<lparr>mem := m2\<rparr>"
  note nf2 = names_file_cong [OF I2 nf]
  have er: "exec_regions fr k ?s2 = exec_regions fr k s"
    using I2 P2 by (intro exec_regions_cong) (simp_all add: tables_init_def)
  have "mounted ?s2" "lowest_slot ?s2 k" "active_terminal ?s2 \<in> {0, 1, 2}" "get_pcb ?s2 = get_pcb s"
    using mt slot act image_counts_cong(2) [OF I2] by (simp_all add: mounted_def lowest_slot_def tables_init_def get_pcb_def)
  moreover have "tss_ss0 ?s2 = tss_ss0 s" "tss_esp0 ?s2 = tss_esp0 s" by (simp_all add: tables_init_def)
  ultimately have "\<exists>s'. start_process fr entry ?s2 = Some (User (enter_user entry) s') \<and>
     task_ready fr ?p (get_pcb s) (tss_ss0 s, tss_esp0 s) k (args_of args) (file_bytes m2 ?bb n) s'"
    using start_process_ok [of ?s2 k fr "args_of args" n entry] m2(3,4) nf2 er call pa
    by (simp add: names_file_def exec_call_def command_ok_def)
  then obtain s' where s': "start_process fr entry ?s2 = Some (User (enter_user entry) s')"
    "task_ready fr ?p (get_pcb s) (tss_ss0 s, tss_esp0 s) k (args_of args) (file_bytes m2 ?bb n) s'" by blast
  have "started s k s'"
    using start_process_slot [OF s'(1), of k] slot by (auto simp: started_def lowest_slot_def tables_init_def)
  then show ?thesis using s' m2(1,2) nf2(2) by (auto simp: prog_def)
qed

text \<open>C1: Starting a program. Given the command line of an executable file that the directory names, a
  free slot, and memory in which the parts \<open>execute\<close> uses do not overlap, the call enters user
  mode: the frame for \<open>iret\<close> has the address in bytes 24 to 27 of the file, the user's segments, the
  stack at the top of the user page and interrupts on. The whole file is at 0x8048000 in the frame of
  the slot, which is marked taken; the arguments are in the new control block, standard input and output
  open, the other descriptors free; the task state segment has the kernel stack of the slot; and the
  caller is linked as the parent with the frame that \<open>halt\<close> returns to and its own kernel stack.\<close>

theorem execute_starts_program:
  fixes s :: "'a process_scheme" and k :: nat
  assumes call: "exec_call fr command name args k s" and nf: "names_file (mem s) (bootblock_addr s) name e n"
    and mt: "mounted s" and elf: "elf_bytes (file_bytes (mem s) (bootblock_addr s) n)"
    and slot: "lowest_slot s k" and act: "active_terminal s \<in> {0, 1, 2}"
    and pa: "pcbs_apart (task_pcb (of_nat k)) (get_pcb s)" "unat (get_pcb s) + 292 \<le> 0x8000000"
  defines "prog \<equiv> file_bytes (mem s) (bootblock_addr s) n"
  shows "\<exists>fm s'. execute (fr # frs) command s = Some (User fm s') \<and> bytes32 (user_eip fm) = take 4 (drop 24 prog) \<and>
     user_cs fm = 0x23 \<and> user_ss fm = 0x2B \<and> user_esp fm = 0x8400000 - 4 \<and> user_flags fm = 0x200 \<and>
     started s k s' \<and> task_ready fr (task_pcb (of_nat k)) (get_pcb s) (tss_ss0 s, tss_esp0 s) k (args_of args) prog s'"
proof -
  obtain entry s' where "execute (fr # frs) command s = Some (User (enter_user entry) s')" "bytes32 entry = take 4 (drop 24 prog)"
    "started s k s'" "task_ready fr (task_pcb (of_nat k)) (get_pcb s) (tss_ss0 s, tss_esp0 s) k (args_of args) prog s'"
    using execute_starts_task [OF assms(1-8)] unfolding prog_def by blast
  then show ?thesis by (intro exI [of _ "enter_user entry"] exI [of _ s']) (simp add: enter_user_def)
qed

text \<open>An empty line, or no command at all.\<close>

lemma execute_empty:
  assumes "c = 0 \<or> (c \<notin> span (cmds fr) 32 \<union> span (arg_dat fr) 128 \<and> mem s c \<in> {0, 32, 10})"
  shows "\<exists>s'. execute (fr # frs) c s = Some (Ret (- 1) s') \<and> unstarted s s'"
proof -
  let ?m = "clear_locals fr (mem s)"
  have "parse_command fr c ?m = Some (0, ?m(cmds fr := 0))" if "c \<noteq> 0"
  proof -
    have "?m c \<in> {0, 32, 10}" using that assms by (auto simp: clear_locals_outside)
    then have "parse_name (cmds fr) c 0 ?m = (0, ?m)" by (subst parse_name.simps) auto
    then show ?thesis by (simp add: parse_command_def)
  qed
  then show ?thesis by (cases "c = 0") (simp_all add: execute_with_def Let_def unstarted_def tables_init_def)
qed

lemma execute_starts_nothing:
  fixes s :: "'a process_scheme"
  assumes call: "exec_call fr command name args k s" and mt: "mounted s"
    and no: "pcb_state_full s \<or> no_program (mem s) (bootblock_addr s) name"
  shows "\<exists>s'. execute (fr # frs) command s = Some (Ret (- 1) s') \<and> unstarted s s'"
proof -
  let ?bb = "bootblock_addr s"
  let ?I = "span ?bb (fs_size (mem s) ?bb)"
  have d: "span (cmds fr) 32 \<inter> ?I = {}" "span (arg_dat fr) 128 \<inter> ?I = {}" "span (exe_data fr) 40 \<inter> ?I = {}"
    "span (cmds_dentry fr) 40 \<inter> ?I = {}"
    using call by (simp_all add: exec_call_def exec_regions_def)
  have nl: "length name \<le> 32" using call by (simp add: exec_call_def command_ok_def)
  obtain m1 where m1: "execute (fr # frs) command s = run_file fr ((tables_init s)\<lparr>mem := m1\<rparr>)" "cstr m1 (cmds fr) name"
    "\<And>x. x \<notin> span (cmds fr) 32 \<Longrightarrow> x \<notin> span (arg_dat fr) 128 \<Longrightarrow> m1 x = mem s x"
    using execute_parsed [OF call, of "halt_with (execute frs)"] by auto
  let ?s1 = "(tables_init s)\<lparr>mem := m1\<rparr>"
  have I1: "m1 x = mem s x" if "x \<in> ?I" for x using that d(1,2) by (intro m1(3)) blast+
  have mt1: "mounted ?s1" using mt image_counts_cong(2) [OF I1] by (simp add: mounted_def tables_init_def)
  have sz1: "fs_size m1 ?bb = fs_size (mem s) ?bb" by (rule image_counts_cong(3) [OF I1])
  have "\<exists>m'. run_file fr ?s1 = Some (Ret (- 1) (?s1\<lparr>mem := m'\<rparr>))"
    using no
  proof
    assume "pcb_state_full s"
    then have "pcb_state_full ?s1" by (simp add: pcb_state_full_def tables_init_def)
    then show ?thesis using m1(2) nl by (intro run_file_full) simp_all
  next
    assume "no_program (mem s) ?bb name"
    then have "no_program m1 ?bb name" using I1 by (intro no_program_cong [of ?bb "mem s" m1])
    then show ?thesis using m1(2) nl mt1 d(3,4) sz1 by (intro run_file_no_program) simp_all
  qed
  then show ?thesis using m1(1) by (auto simp: unstarted_def tables_init_def)
qed

text \<open>C23: Which calls of \<open>execute\<close> start a process, and in which slot. For a command line that is not \<open>quit\<close>, the call
  returns -1 when all six slots are taken, when no directory entry holds the name, when the first that does is not a
  regular file, or when the file does not begin with the four magic bytes; so it does for a null pointer and an
  empty line. Each time the process table, the task state segment, the page tables and the terminals' shells
  are as before. When the name is that of an executable and a slot is free the call enters user mode: the lowest
  free slot and no other is marked taken, the kernel stack is the one of that slot, interrupts are on and
  the user page shows the frame of that slot. A file of less than four bytes is not covered: the
  test then reads bytes of the stack that nothing has set.\<close>

theorem execute_takes_lowest_slot:
  fixes s :: "'a process_scheme" and k :: nat
  assumes call: "exec_call fr command name args k s" and mt: "mounted s" and act: "active_terminal s \<in> {0, 1, 2}"
    and pa: "pcbs_apart (task_pcb (of_nat k)) (get_pcb s)" "unat (get_pcb s) + 292 \<le> 0x8000000"
  defines "m \<equiv> mem s" and "bb \<equiv> bootblock_addr s"
  shows "(pcb_state_full s \<or> no_program m bb name \<longrightarrow>
       (\<exists>s'. execute (fr # frs) command s = Some (Ret (- 1) s') \<and> unstarted s s')) \<and>
     (\<forall>c. c = 0 \<or> (c \<notin> span (cmds fr) 32 \<union> span (arg_dat fr) 128 \<and> m c \<in> {0, 32, 10}) \<longrightarrow>
       (\<exists>s'. execute (fr # frs) c s = Some (Ret (- 1) s') \<and> unstarted s s')) \<and>
     (\<forall>e n. names_file m bb name e n \<and> elf_bytes (file_bytes m bb n) \<and> lowest_slot s k \<longrightarrow>
       (\<exists>fm s'. execute (fr # frs) command s = Some (User fm s') \<and> started s k s'))"
proof (intro conjI allI impI)
  assume "pcb_state_full s \<or> no_program m bb name"
  then show "\<exists>s'. execute (fr # frs) command s = Some (Ret (- 1) s') \<and> unstarted s s'"
    unfolding m_def bb_def by (rule execute_starts_nothing [OF call mt])
next
  fix c assume "c = 0 \<or> (c \<notin> span (cmds fr) 32 \<union> span (arg_dat fr) 128 \<and> m c \<in> {0, 32, 10})"
  then show "\<exists>s'. execute (fr # frs) c s = Some (Ret (- 1) s') \<and> unstarted s s'"
    unfolding m_def by (rule execute_empty)
next
  fix e n assume h: "names_file m bb name e n \<and> elf_bytes (file_bytes m bb n) \<and> lowest_slot s k"
  show "\<exists>fm s'. execute (fr # frs) command s = Some (User fm s') \<and> started s k s'"
    using execute_starts_task [OF call _ mt _ _ act pa, of e n frs] h unfolding m_def bb_def by blast
qed

lemma span_apartI:
  "unat a + n \<le> unat b \<and> unat b + k \<le> 2 ^ 32 \<or> unat b + k \<le> unat a \<and> unat a + n \<le> 2 ^ 32 \<Longrightarrow> span a n \<inter> span b k = {}"
  using span_disjoint_below [of a n b k] span_disjoint_above [of b k a n] by blast

definition demo_exec_mem :: memory where
  "demo_exec_mem a =
     (if a = 0x2000 then 40 else if a = 0x3000 then 0x7F else if a = 0x3001 then 0x45 else if a = 0x3002 then 0x4C
      else if a = 0x3003 then 0x46 else if a = 0x3004 then 0 else if a = 0x3019 then 0x80 else if a = 0x301A then 4
      else if a = 0x301B then 8 else if a = 0x5001 then 32 else if a = 0x5002 then 120
      else if a = 0x504000 then 113 else if a = 0x504001 then 117 else if a = 0x504002 then 105
      else if a = 0x504003 then 116 else demo_mem a)"

definition demo_frame :: exec_frame where
  "demo_frame = \<lparr>cmds = 0x600000, cmds_dentry = 0x600100, arg_dat = 0x600200, exe_data = 0x600300,
     frame_esp = 0x7FFF00, frame_ebp = 0x7FFF40\<rparr>"

definition demo_exec :: process where
  "demo_exec = demo_process\<lparr>mem := demo_exec_mem\<rparr>"

lemma demo_exec_simps [simp]:
  "mem demo_exec = demo_exec_mem" "bootblock_addr demo_exec = 0x1000" "get_pcb demo_exec = 0x7FE000"
  "data_count demo_exec = 1" "quit_str demo_exec = 0x504000" "terminals_addr demo_exec = 0x400000"
  "active_terminal demo_exec = 0" "pcb_state demo_exec = (\<lambda>_. 0)" "tss_ss0 demo_exec = 0x18" "tss_esp0 demo_exec = 0x800000"
  by (simp_all add: demo_exec_def demo_process_def get_pcb_def)

lemma demo_exec_file:
  "bb_inode_count demo_exec_mem 0x1000 = 1" "file_length demo_exec_mem 0x1000 0 = 40" "fs_size demo_exec_mem 0x1000 = 12288"
  "file_block demo_exec_mem 0x1000 0 0 = 0" "ld32 demo_exec_mem 0x1008 = 1"
  by (simp_all add: bb_inode_count_def file_length_def fs_size_def file_block_def ld32_def demo_exec_mem_def demo_mem_def)

lemma demo_exec_dir:
  "dir_name demo_exec_mem 0x1000 0 = [46]" "dir_name demo_exec_mem 0x1000 (Suc 0) = [97]"
  using cstr_name_of [of demo_exec_mem "0x1040" "[46]" 32] cstr_name_of [of demo_exec_mem "0x1080" "[97]" 32]
  by (simp_all add: dir_name_def direntry_def demo_exec_mem_def [of "0x1040"] demo_exec_mem_def [of "0x1041"]
      demo_exec_mem_def [of "0x1080"] demo_exec_mem_def [of "0x1081"] demo_mem_def)

lemma demo_exec_names: "names_file demo_exec_mem 0x1000 [97] 1 0"
  by (simp add: names_file_def demo_exec_dir file_ok_def demo_exec_file)
    (simp add: dentry_filetype_def dentry_inode_num_def direntry_def ld32_def demo_exec_mem_def demo_mem_def)

lemma demo_exec_bytes:
  "take 4 (file_bytes demo_exec_mem 0x1000 0) = [0x7F, 0x45, 0x4C, 0x46]"
  "take 4 (drop 24 (file_bytes demo_exec_mem 0x1000 0)) = [0, 0x80, 4, 8]" "length (file_bytes demo_exec_mem 0x1000 0) = 40"
  by (simp_all add: file_bytes_def demo_exec_file take_map drop_map take_upt file_byte_def upt_rec demo_exec_mem_def demo_mem_def)

lemma demo_exec_regions:
  "exec_regions demo_frame 0 demo_exec = [(0x600000, 32), (0x600200, 128), (0x600300, 40), (0x600100, 40), (0x1000, 12288),
     (0x504000, 5), (0x7FE000, 292), (0x400000, 456), (264, 4)]"
  by (simp add: exec_regions_def demo_frame_def task_pcb_def demo_exec_file pcb_parent_def pcb_pid_def ld32_def
      demo_exec_mem_def demo_mem_def)

lemma demo_exec_call: "exec_call demo_frame 0x5000 [97] (Some [120]) 0 demo_exec"
proof -
  have "parse_layout demo_frame 0x5000"
    by (auto simp: parse_layout_def demo_frame_def intro!: span_apartI)
  moreover have "apart (exec_regions demo_frame 0 demo_exec)" "kernel_side (exec_regions demo_frame 0 demo_exec)"
    unfolding demo_exec_regions kernel_side_def by (simp_all add: span_apartI)
  ultimately show ?thesis
    by (simp add: exec_call_def command_ok_def command_line_def args_of_def word_char_def demo_exec_mem_def demo_mem_def)
qed

lemma demo_exec_ready:
  "mounted demo_exec" "elf_bytes (file_bytes (mem demo_exec) (bootblock_addr demo_exec) 0)" "lowest_slot demo_exec 0"
  "names_file (mem demo_exec) (bootblock_addr demo_exec) [97] 1 0" "active_terminal demo_exec \<in> {0, 1, 2}"
  "pcbs_apart (task_pcb (of_nat 0)) (get_pcb demo_exec)" "unat (get_pcb demo_exec) + 292 \<le> 0x8000000"
  using demo_exec_bytes demo_exec_names
  by (simp_all add: mounted_def demo_exec_file elf_bytes_def lowest_slot_def pcbs_apart_def task_pcb_def)

lemma demo_exec_runs: "\<exists>entry s'. execute [demo_frame] 0x5000 demo_exec = Some (User entry s')"
  using execute_starts_task [OF demo_exec_call demo_exec_ready(4,1,2,3,5-7), of "[]"] by blast

theorem execute_starts_program_witness:
  "\<exists>fm s'. execute [demo_frame] 0x5000 demo_exec = Some (User fm s') \<and> bytes32 (user_eip fm) = [0, 0x80, 4, 8] \<and>
     tss_esp0 s' = 0x7FFFFC \<and> user_esp fm = 0x83FFFFC \<and>
     task_ready demo_frame 0x7FE000 0x7FE000 (0x18, 0x800000) 0 [120] (file_bytes demo_exec_mem 0x1000 0) s'"
  using execute_starts_program [OF demo_exec_call demo_exec_ready(4,1,2,3,5-7), of "[]"] demo_exec_bytes
  by (auto simp: args_of_def task_pcb_def started_def)

theorem execute_takes_lowest_slot_witness:
  "\<exists>fm s'. execute [demo_frame] 0x5000 demo_exec = Some (User fm s') \<and> started demo_exec 0 s'"
  using execute_takes_lowest_slot [OF demo_exec_call demo_exec_ready(1,5-7), of "[]"] demo_exec_ready(2-4) by auto

end
