(* ===== verification/Terminals.thy ===== *)
theory Terminals
  imports Execute
begin

text \<open>
  What \<open>halt\<close> does to a process and to its terminal, what \<open>process_init\<close> sets up, and the switch
  between terminals: \<open>display_switch\<close> keeps the screen and the cursor of each terminal.
\<close>

section \<open>Ending a process\<close>

text \<open>Closing the descriptors of the running process.\<close>

lemma close_all_frees:
  assumes "tables_ready s" and "p = get_pcb s" and "distinct is" and "set is \<subseteq> {0..7}"
    and "\<And>i. i \<in> set is \<Longrightarrow> 2 \<le> i \<Longrightarrow> ld32 (mem s) (pcb_flags p i) = 1 \<Longrightarrow> served s i"
  shows "\<exists>m'. close_all p is s = Some (s\<lparr>mem := m'\<rparr>) \<and> (\<forall>i \<in> set is. 2 \<le> i \<longrightarrow> ld32 m' (pcb_flags p i) \<noteq> 1) \<and>
     (\<forall>x. x \<notin> (\<Union>i \<in> set is. fd_span p i) \<longrightarrow> m' x = mem s x)"
  using assms
proof (induction "is" arbitrary: s)
  case Nil
  show ?case by (rule exI [of _ "mem s"]) simp
next
  case (Cons i "is")
  have i: "0 \<le> i" "i \<le> 7" "i \<notin> set is" using Cons.prems(3,4) by auto
  obtain m1 where m1: "close_all p (i # is) s = close_all p is (s\<lparr>mem := m1\<rparr>)"
    "2 \<le> i \<Longrightarrow> ld32 m1 (pcb_flags p i) \<noteq> 1" "\<And>x. x \<notin> fd_span p i \<Longrightarrow> m1 x = mem s x"
  proof (cases "ld32 (mem s) (pcb_flags p i) = 1 \<and> 2 \<le> i")
    case True
    then have "close_fd i s = Some (0, s\<lparr>mem := freed p i (mem s)\<rparr>)"
      using close_fd_served [OF Cons.prems(1), of i] Cons.prems(2,5) i by simp
    then show ?thesis using that [of "freed p i (mem s)"] True by (simp add: freed_outside)
  next
    case False
    then have "close_all p (i # is) s = close_all p is s" using i by (auto simp: close_fd_def Let_def)
    then show ?thesis using that [of "mem s"] False by auto
  qed
  have ap: "fd_span p j \<inter> fd_span p i = {}" if "j \<in> set is" for j
  proof -
    have "0 \<le> j" "j < 8" "j \<noteq> i" using that i Cons.prems(4) by auto
    then show ?thesis using i by (intro fd_spans_apart) auto
  qed
  have fops: "ld32 m1 (pcb_fops p j) = ld32 (mem s) (pcb_fops p j)"
    and flags: "ld32 m1 (pcb_flags p j) = ld32 (mem s) (pcb_flags p j)" if "j \<in> set is" for j
  proof -
    have "span (pcb_fops p j) 4 \<subseteq> fd_span p j" unfolding fd_span_def by (rule span_mono) simp
    then show "ld32 m1 (pcb_fops p j) = ld32 (mem s) (pcb_fops p j)"
      using ap [OF that] by (intro ld32_disjoint m1(3)) blast
    show "ld32 m1 (pcb_flags p j) = ld32 (mem s) (pcb_flags p j)"
      using ap [OF that] by (intro flags_cong m1(3)) blast
  qed
  have "\<exists>m'. close_all p is (s\<lparr>mem := m1\<rparr>) = Some ((s\<lparr>mem := m1\<rparr>)\<lparr>mem := m'\<rparr>) \<and>
      (\<forall>j \<in> set is. 2 \<le> j \<longrightarrow> ld32 m' (pcb_flags p j) \<noteq> 1) \<and>
      (\<forall>x. x \<notin> (\<Union>j \<in> set is. fd_span p j) \<longrightarrow> m' x = mem (s\<lparr>mem := m1\<rparr>) x)"
  proof (rule Cons.IH)
    show "tables_ready (s\<lparr>mem := m1\<rparr>)" using Cons.prems(1) by simp
    fix j assume "j \<in> set is" "2 \<le> j" "ld32 (mem (s\<lparr>mem := m1\<rparr>)) (pcb_flags p j) = 1"
    then show "served (s\<lparr>mem := m1\<rparr>) j"
      using Cons.prems(2,5) fops flags by (simp add: served_def get_pcb_def)
  qed (use Cons.prems in \<open>auto simp: get_pcb_def\<close>)
  then obtain m' where m': "close_all p is (s\<lparr>mem := m1\<rparr>) = Some (s\<lparr>mem := m'\<rparr>)"
    "\<forall>j \<in> set is. 2 \<le> j \<longrightarrow> ld32 m' (pcb_flags p j) \<noteq> 1" "\<And>x. x \<notin> (\<Union>j \<in> set is. fd_span p j) \<Longrightarrow> m' x = m1 x"
    by auto
  have "ld32 m' (pcb_flags p i) = ld32 m1 (pcb_flags p i)"
    using ap by (intro flags_cong m'(3)) blast
  then show ?case using m1 m' by auto
qed

text \<open>Leaving the terminal changes one of its process slots at most.\<close>

lemma drop_process_mem_only: "\<exists>m'. drop_process pid s = s\<lparr>mem := m'\<rparr>"
  unfolding drop_process_def Let_def
proof (split option.split, intro conjI impI allI)
  show "\<exists>m'. s = s\<lparr>mem := m'\<rparr>" by (rule exI [of _ "mem s"]) simp
qed (rule exI, rule refl)

lemma drop_process_outside:
  assumes "active_terminal s \<in> {0, 1, 2}" and "x \<notin> span (terminals_addr s) 456"
  shows "mem (drop_process pid s) x = mem s x"
proof (cases "find (\<lambda>i. scast (mem s (term_process s (active_terminal s) i)) = pid) [0, 1, 2, 3]")
  case None
  then show ?thesis by (simp add: drop_process_def Let_def del: find.simps)
next
  case (Some i)
  have "x \<noteq> term_process s (active_terminal s) i"
    using term_byte_in_array(2) [OF assms(1)] find_in_set [OF Some] assms(2) by auto
  then show ?thesis using Some by (simp add: drop_process_def Let_def del: find.simps)
qed

text \<open>A running process that may be ended: it is in the table, its control block, its parent's and
  the terminals do not overlap and lie below the user page, and its open files are served by
  the drivers.\<close>

definition endable :: "'a process_scheme \<Rightarrow> bool" where
  "endable s \<longleftrightarrow> (let p = get_pcb s; q = ld32 (mem s) (pcb_parent p) in
     pcb_state s (ld32 (mem s) (pcb_pid p)) \<noteq> 0 \<and> active_terminal s \<in> {0, 1, 2} \<and> tables_ready s \<and>
     pcbs_apart p q \<and> apart [(p, 292), (terminals_addr s, 456)] \<and> apart [(q, 292), (terminals_addr s, 456)] \<and>
     kernel_side [(p, 292), (q, 292), (terminals_addr s, 456)] \<and>
     (\<forall>i. 2 \<le> i \<and> i \<le> 7 \<and> ld32 (mem s) (pcb_flags p i) = 1 \<longrightarrow> served s i))"

definition first_shell :: "'a process_scheme \<Rightarrow> bool" where
  "first_shell s \<longleftrightarrow> scast (mem s (term_process s (active_terminal s) 0)) = ld32 (mem s) (pcb_pid (get_pcb s))"

lemma pcb_word_span: "i + 4 \<le> 292 \<Longrightarrow> span (p + of_nat i) 4 \<subseteq> span p 292"
  by (rule sub_span)

lemma leave_shell_eq: "\<exists>h. leave_shell p s = s\<lparr>terminal_shell := h\<rparr>"
proof (cases "scast (terminal_shell s (active_terminal s)) = ld32 (mem s) (pcb_pid p)")
  case True
  then show ?thesis unfolding leave_shell_def if_P [OF True] by blast
next
  case False
  show ?thesis unfolding leave_shell_def if_not_P [OF False] by (rule exI [of _ "terminal_shell s"]) simp
qed

lemma halt_cleanup:
  fixes s :: "'a process_scheme"
  assumes en: "endable s"
  defines "p \<equiv> get_pcb s"
  shows "\<exists>m' h. halt_with exec status s =
       (if first_shell s then do { r \<leftarrow> exec (shell_str s) (s\<lparr>mem := m', terminal_shell := h\<rparr>);
          if_returns r (\<lambda>s. Some (resume_parent status p s)) }
        else Some (resume_parent status p (s\<lparr>mem := m', terminal_shell := h\<rparr>))) \<and>
     (\<forall>i. 2 \<le> i \<and> i \<le> 7 \<longrightarrow> ld32 m' (pcb_flags p i) \<noteq> 1) \<and>
     (\<forall>x. x \<notin> span (terminals_addr s) 456 \<and> x \<notin> span p 128 \<longrightarrow> m' x = mem s x)"
proof -
  let ?pid = "ld32 (mem s) (pcb_pid p)" and ?T = "span (terminals_addr s) 456"
  have live: "pcb_state s ?pid \<noteq> 0" and act: "active_terminal s \<in> {0, 1, 2}" and tr: "tables_ready s" and dj: "span p 292 \<inter> ?T = {}"
    and srv: "\<And>i. 2 \<le> i \<Longrightarrow> i \<le> 7 \<Longrightarrow> ld32 (mem s) (pcb_flags p i) = 1 \<Longrightarrow> served s i"
    using en by (auto simp: endable_def Let_def p_def)
  obtain m1 where m1: "drop_process ?pid s = s\<lparr>mem := m1\<rparr>" using drop_process_mem_only by blast
  have out1: "m1 x = mem s x" if "x \<notin> ?T" for x using drop_process_outside [OF act that, of ?pid] m1 by simp
  have P1: "m1 x = mem s x" if "x \<in> span p 292" for x using that dj by (intro out1) blast
  have pid1: "ld32 m1 (pcb_pid p) = ?pid"
    using pcb_word_span [of 264 p] by (intro ld32_disjoint P1) (auto simp: pcb_pid_def)
  obtain h where h: "leave_shell p (s\<lparr>mem := m1\<rparr>) = s\<lparr>mem := m1, terminal_shell := h\<rparr>"
    using leave_shell_eq [of p "s\<lparr>mem := m1\<rparr>"] by auto
  let ?s2 = "s\<lparr>mem := m1, terminal_shell := h\<rparr>"
  have g2: "get_pcb ?s2 = p" by (simp add: get_pcb_def p_def)
  have fd: "ld32 m1 (pcb_fops p i) = ld32 (mem s) (pcb_fops p i)" "ld32 m1 (pcb_flags p i) = ld32 (mem s) (pcb_flags p i)"
    if "0 \<le> i" "i \<le> 7" for i
  proof -
    have "fd_span p i \<subseteq> span p 292" using fd_span_in_table [of i p] span_mono [of 128 292 p] that by auto
    moreover have "span (pcb_fops p i) 4 \<subseteq> fd_span p i" unfolding fd_span_def by (rule span_mono) simp
    ultimately show "ld32 m1 (pcb_fops p i) = ld32 (mem s) (pcb_fops p i)" "ld32 m1 (pcb_flags p i) = ld32 (mem s) (pcb_flags p i)"
      by (intro ld32_disjoint P1, blast, intro flags_cong P1, blast)
  qed
  have "\<exists>m'. close_all p [0..7] ?s2 = Some (?s2\<lparr>mem := m'\<rparr>) \<and> (\<forall>i \<in> set [0..7]. 2 \<le> i \<longrightarrow> ld32 m' (pcb_flags p i) \<noteq> 1) \<and>
     (\<forall>x. x \<notin> (\<Union>i \<in> set [0..7]. fd_span p i) \<longrightarrow> m' x = mem ?s2 x)"
  proof (rule close_all_frees)
    fix i :: int assume "i \<in> set [0..7]" "2 \<le> i" "ld32 (mem ?s2) (pcb_flags p i) = 1"
    then have "served s i" "0 \<le> i" "i \<le> 7" using srv [of i] fd [of i] by simp_all
    then show "served ?s2 i" using fd(1) [of i] g2 by (simp add: served_def p_def)
  qed (use tr g2 in auto)
  then obtain m2 where c: "close_all p [0..7] ?s2 = Some (?s2\<lparr>mem := m2\<rparr>)"
    and f: "\<forall>i \<in> {0..7}. 2 \<le> i \<longrightarrow> ld32 m2 (pcb_flags p i) \<noteq> 1"
    and o: "\<forall>x. x \<notin> (\<Union>i \<in> {0..7}. fd_span p i) \<longrightarrow> m2 x = mem ?s2 x"
    unfolding set_upto by blast
  have "?s2\<lparr>mem := m2\<rparr> = s\<lparr>mem := m2, terminal_shell := h\<rparr>" by simp
  then have m2: "close_all p [0..7] ?s2 = Some (s\<lparr>mem := m2, terminal_shell := h\<rparr>)"
    "\<forall>i. 2 \<le> i \<and> i \<le> 7 \<longrightarrow> ld32 m2 (pcb_flags p i) \<noteq> 1" "\<And>x. x \<notin> (\<Union>i \<in> {0..7}. fd_span p i) \<Longrightarrow> m2 x = m1 x"
    using c f o by (simp_all only: atLeastAtMost_iff machine.simps) auto
  have "m2 x = mem s x" if "x \<notin> ?T" "x \<notin> span p 128" for x
  proof -
    have "x \<notin> fd_span p i" if "i \<in> {0..7}" for i using fd_span_in_table [of i p] that \<open>x \<notin> span p 128\<close> by auto
    then have "x \<notin> (\<Union>i \<in> {0..7}. fd_span p i)" by simp
    then show ?thesis using m2(3) [of x] out1 [OF that(1)] by simp
  qed
  moreover have "halt_with exec status s =
       (if first_shell s then do { r \<leftarrow> exec (shell_str s) (s\<lparr>mem := m2, terminal_shell := h\<rparr>);
          if_returns r (\<lambda>s. Some (resume_parent status p s)) }
        else Some (resume_parent status p (s\<lparr>mem := m2, terminal_shell := h\<rparr>)))"
    using live by (simp add: halt_with_def Let_def p_def [symmetric] first_shell_def m1 h m2(1))
  ultimately show ?thesis using m2(2) by blast
qed

text \<open>C2: Ending a process that is not the first shell of its terminal gives the status to the frame
  its parent saved when it called \<open>execute\<close>. The slot of the process and no other becomes free,
  descriptors 2 to 7 are closed, the kernel stack in the task state segment is the parent's,
  and the user page shows the parent's frame.\<close>

theorem halt_resumes_parent:
  fixes s :: "'a process_scheme"
  assumes en: "endable s" and "\<not> first_shell s"
  defines "p \<equiv> get_pcb s"
  defines "q \<equiv> ld32 (mem s) (pcb_parent p)"
  defines "ppid \<equiv> ld32 (mem s) (pcb_pid q)"
  assumes "ppid < 8"
  shows "\<exists>s'. halt frs status s = Some (Resume (ucast status) (ld32 (mem s) (pcb_kbp q)) s') \<and>
     pcb_state s' = (pcb_state s)(ld32 (mem s) (pcb_pid p) := 0) \<and>
     (\<forall>i. 2 \<le> i \<and> i \<le> 7 \<longrightarrow> ld32 (mem s') (pcb_flags p i) \<noteq> 1) \<and>
     tss_esp0 s' = SIZE_8MB - ppid * 0x2000 - 4 \<and> user_frame s' = 2 + ppid"
proof -
  obtain m' h where m': "halt frs status s = Some (resume_parent status p (s\<lparr>mem := m', terminal_shell := h\<rparr>))"
    "\<forall>i. 2 \<le> i \<and> i \<le> 7 \<longrightarrow> ld32 m' (pcb_flags p i) \<noteq> 1"
    "\<And>x. x \<notin> span (terminals_addr s) 456 \<Longrightarrow> x \<notin> span p 128 \<Longrightarrow> m' x = mem s x"
    using halt_cleanup [OF en, of "execute frs" status] assms(2) unfolding halt_def p_def by auto
  have dj: "span p 292 \<inter> span (terminals_addr s) 456 = {}" "span q 292 \<inter> span (terminals_addr s) 456 = {}"
    and pq: "pcbs_apart p q" and low: "unat p + 292 \<le> 0x8000000" "unat q + 292 \<le> 0x8000000"
    using en by (auto simp: endable_def Let_def p_def q_def kernel_side_def)
  have w: "ld32 m' (a + of_nat i) = ld32 (mem s) (a + of_nat i)" if "a \<in> {p, q}" "128 \<le> i" "i + 4 \<le> 292" for a i
  proof (rule ld32_disjoint)
    fix x assume x: "x \<in> span (a + of_nat i) 4"
    then have a: "x \<in> span a 292" using pcb_word_span [OF that(3)] by blast
    have "span p 128 \<inter> span (p + of_nat i) 4 = {}" using that by (intro span_disjoint_offset) simp_all
    moreover have "span p 128 \<subseteq> span p 292" by (rule span_mono) simp
    ultimately have "x \<notin> span p 128" using x a that(1) pq by (auto simp: pcbs_apart_def)
    then show "m' x = mem s x" using a that(1) dj by (intro m'(3)) auto
  qed
  have r: "ld32 m' (pcb_pid p) = ld32 (mem s) (pcb_pid p)" "ld32 m' (pcb_parent p) = q"
    "ld32 m' (pcb_pid q) = ppid" "ld32 m' (pcb_kbp q) = ld32 (mem s) (pcb_kbp q)"
    using w [of p 264] w [of p 288] w [of q 264] w [of q 260] by (simp_all add: pcb_offsets q_def ppid_def)
  have pp: "0 \<le> sint ppid" "sint ppid < 8" "word_of_int (sint ppid) = ppid"
  proof -
    have u: "unat ppid < 8" using assms(6) by (simp add: word_less_nat_alt)
    then have "sint ppid = int (unat ppid)" by (intro sint_small) simp
    then show "0 \<le> sint ppid" "sint ppid < 8" "word_of_int (sint ppid) = ppid" using u by (linarith, linarith, simp)
  qed
  define s1 where "s1 = s\<lparr>mem := m', terminal_shell := h, pcb_state := (pcb_state s)(ld32 (mem s) (pcb_pid p) := 0)\<rparr>"
  have ms: "mem s1 = m'" by (simp add: s1_def)
  have mem2: "mem (page_switch (sint ppid) s1) x = m' x" if "x \<in> span a 292" "a \<in> {p, q}" for x a
    using below_user_page [OF _ that(1)] that(2) low by (auto simp: page_switch_memory(1) [OF pp(1,2)] s1_def)
  have ld2: "ld32 (mem (page_switch (sint ppid) s1)) (a + of_nat i) = ld32 m' (a + of_nat i)"
    if "a \<in> {p, q}" "i + 4 \<le> 292" for a i
    using pcb_word_span [OF that(2)] by (intro ld32_disjoint mem2 [OF _ that(1)]) blast
  have r2: "ld32 (mem (page_switch (sint ppid) s1)) (pcb_parent p) = q" "ld32 (mem (page_switch (sint ppid) s1)) (pcb_pid q) = ppid"
    "ld32 (mem (page_switch (sint ppid) s1)) (pcb_kbp q) = ld32 (mem s) (pcb_kbp q)"
    using ld2 [of p 288] ld2 [of q 264] ld2 [of q 260] r by (simp_all add: pcb_offsets)
  have fl: "ld32 (mem (page_switch (sint ppid) s1)) (pcb_flags p i) = ld32 m' (pcb_flags p i)" if "2 \<le> i" "i \<le> 7" for i
  proof (rule flags_cong)
    fix x assume "x \<in> fd_span p i"
    then have "x \<in> span p 292" using fd_span_in_table [of i p] span_mono [of 128 292 p] that by auto
    then show "mem (page_switch (sint ppid) s1) x = m' x" by (rule mem2) simp
  qed
  have "resume_parent status p (s\<lparr>mem := m', terminal_shell := h\<rparr>) =
      Resume (ucast status) (ld32 (mem s) (pcb_kbp q))
        ((page_switch (sint ppid) s1)\<lparr>tss_esp0 := SIZE_8MB - ppid * 0x2000 - 4\<rparr>)"
    using r r2 ms by (simp add: resume_parent_def Let_def s1_def [symmetric])
  then show ?thesis
    using m'(1,2) fl page_switch_memory(3) [OF pp(1,2), of s1] pp(3) by (simp add: s1_def)
qed

text \<open>Process 1, started by process 0 in the first terminal.\<close>

definition demo_child :: process where
  "demo_child = demo_process\<lparr>mem := st32 (st32 (st32 demo_mem 0x7FC108 1) 0x7FC120 0x7FE000) 0x7FE104 0x7FFF40,
     esp := 0x7FDF00, pcb_state := (\<lambda>_. 0)(0 := 1, 1 := 1)\<rparr>"

lemma demo_child_simps [simp]:
  "mem demo_child = st32 (st32 (st32 demo_mem 0x7FC108 1) 0x7FC120 0x7FE000) 0x7FE104 0x7FFF40"
  "get_pcb demo_child = 0x7FC000" "terminals_addr demo_child = 0x400000" "active_terminal demo_child = 0"
  "pcb_state demo_child = (\<lambda>_. 0)(0 := 1, 1 := 1)"
  by (simp_all add: demo_child_def demo_process_def get_pcb_def)

lemma demo_child_pcb:
  "ld32 (mem demo_child) (pcb_pid 0x7FC000) = 1" "ld32 (mem demo_child) (pcb_parent 0x7FC000) = 0x7FE000"
  "ld32 (mem demo_child) (pcb_pid 0x7FE000) = 0" "ld32 (mem demo_child) (pcb_kbp 0x7FE000) = 0x7FFF40"
  by (simp_all add: pcb_offsets ld32_st32_apart) (simp add: ld32_def demo_mem_def)

lemma demo_child_flags: "2 \<le> i \<Longrightarrow> i \<le> 7 \<Longrightarrow> ld32 (mem demo_child) (pcb_flags 0x7FC000 i) = 0"
proof -
  have "ld32 (mem demo_child) (pcb_flags 0x7FC000 j) = 0" if "j \<in> {2, 3, 4, 5, 6, 7}" for j
    using that by (auto simp: pcb_flags_def ld32_st32_apart) (simp_all add: ld32_def demo_mem_def)
  moreover assume "2 \<le> i" "i \<le> 7"
  then have "i \<in> {2, 3, 4, 5, 6, 7}" by auto
  ultimately show ?thesis by blast
qed

lemma demo_child_endable: "endable demo_child"
proof -
  have "tables_ready demo_child" using demo_tables_ready by (simp add: demo_child_def tables_ready_def tables_init_def)
  then show ?thesis
    using demo_child_pcb demo_child_flags
    by (auto simp: endable_def Let_def pcbs_apart_def kernel_side_def intro!: span_apartI simp del: demo_child_simps(1))
qed

theorem halt_resumes_parent_witness:
  "\<exists>s'. halt [] 3 demo_child = Some (Resume 3 0x7FFF40 s') \<and> pcb_state s' 1 = 0 \<and> pcb_state s' 0 = 1"
proof -
  have "mem demo_child 0x400000 = 0"
    by (simp add: st32_other [unfolded in_span_unat [of 4, simplified]] demo_mem_def)
  then have "\<not> first_shell demo_child"
    using demo_child_pcb by (simp add: first_shell_def term_addr_defs del: demo_child_simps(1))
  from halt_resumes_parent [OF demo_child_endable this, of "[]" 3] show ?thesis
    unfolding demo_child_simps(2-5) demo_child_pcb by auto
qed

subsection \<open>The first shell\<close>

lemma halt_without_execute: "halt_with (\<lambda>c s. None) status s = Some (Ret v s') \<Longrightarrow> s' = s"
  by (auto simp: halt_with_def resume_parent_def Let_def bind_eq_Some_conv split: if_splits)

lemma execute_one_frame_slot:
  assumes "slots_ok s" and "execute [fr] command s = Some (User entry s')"
  shows "\<exists>k. started s k s'"
proof (cases "quits fr command s")
  case False
  from execute_slot [OF assms(1) this assms(2)] show ?thesis by auto
next
  case True
  then obtain i m where im: "parse_command fr command (clear_locals fr (mem s)) = Some (i, m)" "i \<noteq> 0"
    "strncmp m (cmds fr) (quit_str s) 4 = 0" by (auto simp: quits_def split: option.splits)
  let ?s = "(tables_init s)\<lparr>mem := m\<rparr>"
  obtain r where r: "halt_with (\<lambda>c s. None) 0 ?s = Some r" "if_returns r (run_file fr) = Some (User entry s')"
    using assms(2) im by (auto simp: execute_with_def Let_def bind_eq_Some_conv split: if_splits)
  have "run_file fr ?s = Some (User entry s')"
  proof (cases r)
    case (Ret v s1)
    then show ?thesis using r halt_without_execute [of 0 ?s v s1] by (simp add: if_returns_def)
  next
    case (User e s1)
    then show ?thesis using r by (auto simp: halt_with_def resume_parent_def Let_def bind_eq_Some_conv split: if_splits)
  next
    case (Resume a b s1)
    then show ?thesis using r by (simp add: if_returns_def)
  qed
  then show ?thesis using run_file_slot [of fr ?s] assms(1) by auto
qed

lemma if_returns_resume: "if_returns r (\<lambda>s. Some (resume_parent status p s)) = Some (User entry s') \<Longrightarrow> r = User entry s'"
  by (cases r) (auto simp: if_returns_def resume_parent_def Let_def)

text \<open>C25: When the first shell of a terminal ends, a new shell is started before the slot of the old
  one is given back, and starting it does not return: the slot of the ended shell stays taken
  and the new shell has another one. After enough such exits all six slots are lost.\<close>

theorem halt_first_shell_keeps_slot:
  fixes s :: "'a process_scheme"
  assumes en: "endable s" and fs: "first_shell s" and ok: "slots_ok s" and r: "halt [fr] status s = Some (User entry s')"
  shows "\<exists>k. lowest_slot s k \<and> pcb_state s' = (pcb_state s)(of_nat k := 1) \<and>
     pcb_state s' (ld32 (mem s) (pcb_pid (get_pcb s))) \<noteq> 0"
proof -
  obtain m' h where eq: "halt [fr] status s = do { r \<leftarrow> execute [fr] (shell_str s) (s\<lparr>mem := m', terminal_shell := h\<rparr>);
      if_returns r (\<lambda>s'. Some (resume_parent status (get_pcb s) s')) }"
    using halt_cleanup [OF en, of "execute [fr]" status] fs by (auto simp: halt_def)
  have "execute [fr] (shell_str s) (s\<lparr>mem := m', terminal_shell := h\<rparr>) = Some (User entry s')"
    using eq [unfolded r, symmetric, unfolded bind_eq_Some_conv] if_returns_resume by metis
  moreover have "slots_ok (s\<lparr>mem := m', terminal_shell := h\<rparr>)" using ok by (simp add: slots_ok_def)
  ultimately obtain k where "started (s\<lparr>mem := m', terminal_shell := h\<rparr>) k s'" using execute_one_frame_slot by blast
  then have "lowest_slot s k" "pcb_state s' = (pcb_state s)(of_nat k := 1)" by (simp_all add: started_def lowest_slot_def)
  then show ?thesis using en by (auto simp: endable_def Let_def)
qed

text \<open>The first shell of terminal 0, with the name of the only program of the image as the literal.\<close>

definition demo_shell :: process where
  "demo_shell = demo_exec\<lparr>pcb_state := (\<lambda>_. 0)(0 := 1), shell_str := 0x5000\<rparr>"

lemma demo_shell_simps [simp]:
  "mem demo_shell = demo_exec_mem" "get_pcb demo_shell = 0x7FE000" "terminals_addr demo_shell = 0x400000"
  "active_terminal demo_shell = 0" "pcb_state demo_shell = (\<lambda>_. 0)(0 := 1)" "shell_str demo_shell = 0x5000"
  "bootblock_addr demo_shell = 0x1000" "quit_str demo_shell = 0x504000" "data_count demo_shell = 1"
  by (simp_all add: demo_shell_def demo_exec_def demo_process_def get_pcb_def)

lemma demo_exec_pcb:
  "ld32 demo_exec_mem (pcb_pid 0x7FE000) = 0" "ld32 demo_exec_mem (pcb_parent 0x7FE000) = 0"
  by (simp_all add: pcb_offsets ld32_def demo_exec_mem_def demo_mem_def)

lemma demo_exec_flags: "2 \<le> i \<Longrightarrow> i \<le> 7 \<Longrightarrow> ld32 demo_exec_mem (pcb_flags 0x7FE000 i) = 0"
proof -
  assume i: "2 \<le> i" "i \<le> 7"
  have "demo_exec_mem x = demo_mem x" if "x \<in> fd_span 0x7FE000 i" for x
  proof -
    have "x \<in> span 0x7FE000 128" using fd_span_in_table [of i "0x7FE000"] that i by auto
    then have "unat (x - 0x7FE000) < 128" by (subst (asm) in_span_unat) simp_all
    then have lt: "x - 0x7FE000 < 128" by (simp add: word_less_nat_alt)
    have ne: "x \<noteq> c" if "\<not> (c - 0x7FE000 < (128 :: u32))" for c using that lt by auto
    show ?thesis unfolding demo_exec_mem_def by (simp add: ne)
  qed
  then show ?thesis using flags_cong [of "0x7FE000" i demo_exec_mem demo_mem] demo_flags [of i] i by simp
qed

lemma demo_shell_endable: "endable demo_shell" "first_shell demo_shell" "slots_ok demo_shell"
proof -
  have "tables_ready demo_shell"
    using demo_tables_ready by (simp add: demo_shell_def demo_exec_def tables_ready_def tables_init_def)
  then show "endable demo_shell"
    using demo_exec_pcb demo_exec_flags
    by (auto simp: endable_def Let_def pcbs_apart_def kernel_side_def intro!: span_apartI)
  show "first_shell demo_shell" using demo_exec_pcb
    by (simp add: first_shell_def term_addr_defs demo_exec_mem_def demo_mem_def)
qed (simp add: slots_ok_def)

lemma exec_call_cong:
  fixes s s' :: "'a process_scheme"
  assumes call: "exec_call fr command name args k s"
    and agree: "\<And>x. x \<in> span command 192 \<or> x \<in> span (quit_str s) 5 \<or>
        x \<in> span (bootblock_addr s) (fs_size (mem s) (bootblock_addr s)) \<or> x \<in> span (task_pcb (of_nat k)) 292 \<Longrightarrow> mem s' x = mem s x"
    and fld: "bootblock_addr s' = bootblock_addr s" "quit_str s' = quit_str s" "terminals_addr s' = terminals_addr s"
  shows "exec_call fr command name args k s'"
proof -
  have er: "exec_regions fr k s' = exec_regions fr k s" by (rule exec_regions_cong) (use agree fld in auto)
  have "command_ok name args" using call by (simp add: exec_call_def)
  then have "cstr (mem s') command (command_line name args) = cstr (mem s) command (command_line name args)"
    using span_sub [OF command_line_length] by (intro cstr_cong agree) blast
  moreover have "cstr (mem s') (quit_str s) [113, 117, 105, 116] = cstr (mem s) (quit_str s) [113, 117, 105, 116]"
    by (intro cstr_cong agree) (simp add: numeral_eq_Suc)
  ultimately show ?thesis using call er fld by (simp add: exec_call_def)
qed

lemma demo_shell_call: "exec_call demo_frame 0x5000 [97] (Some [120]) 1 demo_shell"
proof -
  have "exec_regions demo_frame 1 demo_shell = [(0x600000, 32), (0x600200, 128), (0x600300, 40), (0x600100, 40), (0x1000, 12288),
     (0x504000, 5), (0x7FC000, 292), (0x400000, 456), (264, 4)]"
    by (simp add: exec_regions_def demo_frame_def task_pcb_def demo_exec_file pcb_parent_def pcb_pid_def ld32_def
        demo_exec_mem_def demo_mem_def)
  then have "apart (exec_regions demo_frame 1 demo_shell)" "kernel_side (exec_regions demo_frame 1 demo_shell)"
    by (simp_all add: span_apartI kernel_side_def)
  then show ?thesis using demo_exec_call by (simp add: exec_call_def)
qed

lemma demo_shell_restarts: "\<exists>entry s'. halt [demo_frame] 0 demo_shell = Some (User entry s')"
proof -
  obtain m' h where eq: "halt [demo_frame] 0 demo_shell =
      do { r \<leftarrow> execute [demo_frame] 0x5000 (demo_shell\<lparr>mem := m', terminal_shell := h\<rparr>);
           if_returns r (\<lambda>s'. Some (resume_parent 0 0x7FE000 s')) }"
    and out: "\<And>x. x \<notin> span 0x400000 456 \<Longrightarrow> x \<notin> span 0x7FE000 128 \<Longrightarrow> m' x = demo_exec_mem x"
    using halt_cleanup [OF demo_shell_endable(1), of "execute [demo_frame]" 0] demo_shell_endable(2)
    by (auto simp: halt_def simp del: execute.simps)
  let ?s = "demo_shell\<lparr>mem := m', terminal_shell := h\<rparr>"
  have agree: "m' x = demo_exec_mem x" if "x \<in> span a n" "span a n \<inter> span 0x400000 456 = {}" "span a n \<inter> span 0x7FE000 128 = {}" for x a n
    using that by (intro out) blast+
  have d: "span (a :: u32) n \<inter> span 0x400000 456 = {}" "span (a :: u32) n \<inter> span 0x7FE000 128 = {}"
    if "(a, n) \<in> {(0x5000, 192), (0x504000, 5), (0x1000, 12288), (0x7FC000, 292)}" for a n
    using that by (auto intro!: span_apartI)
  have I: "m' x = demo_exec_mem x" if "x \<in> span 0x1000 (fs_size demo_exec_mem 0x1000)" for x
    using agree [of x "0x1000" 12288] d [of "0x1000" 12288] that by (simp add: demo_exec_file)
  have "exec_call demo_frame 0x5000 [97] (Some [120]) 1 ?s"
  proof (rule exec_call_cong [OF demo_shell_call])
    fix x
    assume x: "x \<in> span 0x5000 192 \<or> x \<in> span (quit_str demo_shell) 5 \<or>
      x \<in> span (bootblock_addr demo_shell) (fs_size (mem demo_shell) (bootblock_addr demo_shell)) \<or> x \<in> span (task_pcb (of_nat 1)) 292"
    have "m' x = demo_exec_mem x"
      using x agree [of x "0x5000" 192] agree [of x "0x504000" 5] agree [of x "0x7FC000" 292] I d
      by (auto simp: task_pcb_def demo_exec_file)
    then show "mem ?s x = mem demo_shell x" by simp
  qed simp_all
  moreover note nf = names_file_cong [OF I demo_exec_names]
  moreover have "ld32 m' (0x1000 + 8) = ld32 demo_exec_mem (0x1000 + 8)" by (rule image_counts_cong(2) [OF I])
  then have "mounted ?s" by (simp add: mounted_def demo_exec_file)
  moreover have "elf_bytes (file_bytes m' 0x1000 0)" using nf(2) demo_exec_bytes by (simp add: elf_bytes_def)
  moreover have "lowest_slot ?s 1" by (simp add: lowest_slot_def)
  moreover have "pcbs_apart (task_pcb (of_nat 1)) (get_pcb ?s)" "unat (get_pcb ?s) + 292 \<le> 0x8000000"
    by (auto simp: pcbs_apart_def task_pcb_def demo_shell_def demo_exec_def get_pcb_def intro!: span_apartI)
  ultimately obtain entry s' where "execute [demo_frame] 0x5000 ?s = Some (User entry s')"
    using execute_starts_task [of demo_frame "0x5000" "[97]" "Some [120]" 1 ?s 1 0 "[]"] by auto
  then show ?thesis unfolding eq by (simp add: if_returns_def del: execute.simps)
qed

theorem halt_first_shell_keeps_slot_witness:
  "\<exists>entry s'. halt [demo_frame] 0 demo_shell = Some (User entry s') \<and> pcb_state s' 0 \<noteq> 0"
proof -
  obtain entry s' where r: "halt [demo_frame] 0 demo_shell = Some (User entry s')" using demo_shell_restarts by blast
  show ?thesis using halt_first_shell_keeps_slot [OF demo_shell_endable r] r demo_exec_pcb by auto
qed

section \<open>Terminals\<close>

subsection \<open>The array of terminals at boot\<close>

text \<open>The stores for one terminal, as one function on memory.\<close>

definition fresh_terminal :: "u32 \<Rightarrow> memory \<Rightarrow> memory" where
  "fresh_terminal b m = wrs (st32 (st32 (st32 (m(b + 144 := 1)) (b + 8) 0) (b + 12) 0) (b + 148) 0) b [0xFF, 0xFF, 0xFF, 0xFF]"

lemma term_field_update [simp]:
  fixes s :: "'a keyboard_scheme"
  shows
  "term_screen_x (s\<lparr>mem := m\<rparr>) = term_screen_x s" "term_screen_y (s\<lparr>mem := m\<rparr>) = term_screen_y s"
  "term_buffer_enable (s\<lparr>mem := m\<rparr>) = term_buffer_enable s" "term_base (s\<lparr>mem := m\<rparr>) = term_base s"
  "term_process (s\<lparr>mem := m\<rparr>) = term_process s" "term_flag (s\<lparr>mem := m\<rparr>) = term_flag s"
  by (simp_all add: term_addr_defs fun_eq_iff)

lemma fold_term_process:
  "fold (\<lambda>j s. s\<lparr>mem := (mem s)(term_process s i j := v)\<rparr>) js s =
     s\<lparr>mem := fold (\<lambda>j m. m(term_process s i j := v)) js (mem s)\<rparr>"
  by (induction js arbitrary: s) simp_all

lemma process_init_eq:
  "process_init s = s\<lparr>mem := (fresh_terminal (term_base s 2) (fresh_terminal (term_base s 1) (fresh_terminal (term_base s 0) (mem s))))
     (term_base s 3 + 144 := 0), active_terminal := 0\<rparr>"
proof -
  have l3: "[0..3] = [0, 1, 2, 3 :: int]" by (simp add: upto.simps)
  have one: "(let s = s\<lparr>mem := (mem s)(term_flag s i := 1)\<rparr>; s = put (term_screen_x s i) 0 s; s = put (term_screen_y s i) 0 s;
        s = put (term_buffer_enable s i) 0 s
      in fold (\<lambda>j s. s\<lparr>mem := (mem s)(term_process s i j := 0xFF)\<rparr>) [0..3] s) = s\<lparr>mem := fresh_terminal (term_base s i) (mem s)\<rparr>"
    for i and s :: "'a keyboard_scheme"
    unfolding Let_def fold_term_process l3
    by (simp add: fresh_terminal_def term_flag_def term_screen_x_def term_screen_y_def term_buffer_enable_def term_process_def add.assoc)
  have l: "[0..2] = [0, 1, 2 :: int]" by (simp add: upto.simps)
  show ?thesis unfolding process_init_def one l by (simp add: Let_def term_flag_def)
qed

lemma fresh_terminal_fields:
  "fresh_terminal b m (b + 144) = 1" "ld32 (fresh_terminal b m) (b + 8) = 0" "ld32 (fresh_terminal b m) (b + 12) = 0"
  "ld32 (fresh_terminal b m) (b + 148) = 0" "i < 4 \<Longrightarrow> fresh_terminal b m (b + of_nat i) = 0xFF"
  "k \<in> {16..<144} \<Longrightarrow> fresh_terminal b m (b + of_nat k) = m (b + of_nat k)"
  "x \<notin> span b 152 \<Longrightarrow> fresh_terminal b m x = m x"
proof -
  show "fresh_terminal b m (b + 144) = 1" "ld32 (fresh_terminal b m) (b + 8) = 0" "ld32 (fresh_terminal b m) (b + 12) = 0"
    "ld32 (fresh_terminal b m) (b + 148) = 0"
    by (simp_all add: fresh_terminal_def ld32_def st32_def)
  show "fresh_terminal b m (b + of_nat i) = 0xFF" if "i < 4"
  proof -
    have "[0xFF, 0xFF, 0xFF, 0xFF :: u8] = replicate 4 0xFF" by (simp add: numeral_eq_Suc)
    then show ?thesis unfolding fresh_terminal_def using that by (simp add: wrs_nth del: wrs.simps)
  qed
  have w: "b + of_nat k \<noteq> b + of_nat j" if "k \<noteq> j" "k < 1000" "j < 1000" for k j :: nat
    using that by (simp add: word_of_nat_eq_iff)
  have out: "fresh_terminal b m x = m x" if "x \<noteq> b + of_nat 144" "x \<notin> span b 4" "x \<notin> span (b + of_nat 8) 4"
    "x \<notin> span (b + of_nat 12) 4" "x \<notin> span (b + of_nat 148) 4" for x
  proof -
    have "[0xFF, 0xFF, 0xFF, 0xFF :: u8] = replicate 4 0xFF" by (simp add: numeral_eq_Suc)
    then show ?thesis unfolding fresh_terminal_def using that by (simp add: wrs_other st32_other del: wrs.simps)
  qed
  show "fresh_terminal b m (b + of_nat k) = m (b + of_nat k)" if "k \<in> {16..<144}"
  proof (rule out)
    have nin: "b + of_nat k \<notin> span (b + of_nat j) 4" if "k < j \<or> j + 4 \<le> k" "k < 900" "j < 900" for j
    proof
      assume "b + of_nat k \<in> span (b + of_nat j) 4"
      then obtain i where "i < 4" "b + of_nat k = b + of_nat (j + i)" by (auto simp: in_span_iff add.assoc)
      moreover from this have "b + of_nat k \<noteq> b + of_nat (j + i)" using that by (intro w) auto
      ultimately show False by simp
    qed
    show "b + of_nat k \<noteq> b + of_nat 144" using that by (intro w) auto
    show "b + of_nat k \<notin> span b 4" "b + of_nat k \<notin> span (b + of_nat 8) 4" "b + of_nat k \<notin> span (b + of_nat 12) 4"
      "b + of_nat k \<notin> span (b + of_nat 148) 4"
      using nin [of 0] nin [of 8] nin [of 12] nin [of 148] that by simp_all
  qed
  show "fresh_terminal b m x = m x" if "x \<notin> span b 152"
  proof (rule out)
    have s: "span (b + of_nat j) 4 \<subseteq> span b 152" if "j \<le> 148" for j by (rule sub_span) (use that in simp)
    show "x \<notin> span b 4" "x \<notin> span (b + of_nat 8) 4" "x \<notin> span (b + of_nat 12) 4" "x \<notin> span (b + of_nat 148) 4"
      using s [of 0] s [of 8] s [of 12] s [of 148] that by auto
    show "x \<noteq> b + of_nat 144" using that in_spanI [of 144 152 b] by auto
  qed
qed

text \<open>The bases of the three terminals.\<close>

lemma term_base_apart:
  assumes "t \<in> {0, 1, 2}" "u \<in> {0, 1, 2}" "t \<noteq> u"
  shows "span (term_base s t) 152 \<inter> span (term_base s u) 152 = {}"
proof -
  have b: "term_base s 1 = term_base s 0 + of_nat 152" "term_base s 2 = term_base s 0 + of_nat 304"
    by (simp_all add: term_base_def)
  have "span (term_base s 0) 152 \<inter> span (term_base s 0 + of_nat 152) 152 = {}"
    "span (term_base s 0) 152 \<inter> span (term_base s 0 + of_nat 304) 152 = {}"
    "span (term_base s 0 + of_nat 152) 152 \<inter> span (term_base s 0 + of_nat 152 + of_nat 152) 152 = {}"
    by (rule span_disjoint_offset; simp)+
  then show ?thesis using assms unfolding b by (auto simp: b add.assoc Int_commute)
qed

lemma process_init_fresh:
  fixes s :: "'a keyboard_scheme"
  assumes "t \<in> {0, 1, 2}"
  defines "s' \<equiv> process_init s"
  shows "mem s' (term_flag s t) = 1 \<and> ld32 (mem s') (term_screen_x s t) = 0 \<and> ld32 (mem s') (term_screen_y s t) = 0 \<and>
     ld32 (mem s') (term_buffer_enable s t) = 0 \<and> (\<forall>i < 4. mem s' (term_process s t (int i)) = 0xFF) \<and>
     (\<forall>i < 128. mem s' (term_keyboard_buf s t (int i)) = mem s (term_keyboard_buf s t (int i))) \<and>
     active_terminal s' = 0 \<and> mem s' (terminals_addr s + 600) = 0 \<and>
     (\<forall>x. x \<notin> span (terminals_addr s) 456 \<and> x \<noteq> terminals_addr s + 600 \<longrightarrow> mem s' x = mem s x)"
proof -
  let ?b = "term_base s"
  let ?f = "\<lambda>u. fresh_terminal (?b u)"
  let ?m = "?f 2 (?f 1 (?f 0 (mem s)))"
  have e: "term_base s 3 + 144 = terminals_addr s + 600" by (simp add: term_base_def)
  have ms: "mem s' = ?m(terminals_addr s + 600 := 0)" "active_terminal s' = 0" by (simp_all add: s'_def process_init_eq e)
  have sub: "span (?b u) 152 \<subseteq> span (terminals_addr s) 456" if "u \<in> {0, 1, 2}" for u
    using term_offset_span [OF that, of 0 152 s] by simp
  have out: "?f u m x = m x" if "u \<in> {0, 1, 2}" "x \<notin> span (?b u) 152" for u m x
    using that fresh_terminal_fields(7) by blast
  have at: "\<exists>m. (\<forall>x \<in> span (?b t) 152. ?m x = ?f t m x) \<and> (\<forall>x \<in> span (?b t) 152. m x = mem s x)"
    if t: "t \<in> {0, 1, 2}" for t
  proof -
    have n: "x \<notin> span (?b u) 152" if "x \<in> span (?b t) 152" "u \<in> {0, 1, 2}" "u \<noteq> t" for x u
      using term_base_apart [OF t that(2)] that by blast
    consider "t = 0" | "t = 1" | "t = 2" using t by blast
    then show ?thesis
    proof cases
      case 1
      then show ?thesis using n out by (intro exI [of _ "mem s"]) simp
    next
      case 2
      then show ?thesis using n out by (intro exI [of _ "?f 0 (mem s)"]) simp
    next
      case 3
      then show ?thesis using n out by (intro exI [of _ "?f 1 (?f 0 (mem s))"]) simp
    qed
  qed
  obtain m where m: "\<And>x. x \<in> span (?b t) 152 \<Longrightarrow> ?m x = ?f t m x" "\<And>x. x \<in> span (?b t) 152 \<Longrightarrow> m x = mem s x"
    using at [OF assms(1)] by blast
  have n600: "terminals_addr s + 600 \<notin> span (terminals_addr s) 456" by (simp add: in_span_unat)
  have b: "?b t + of_nat k \<in> span (?b t) 152" if "k < 152" for k using that by (rule in_spanI)
  have r: "mem s' (?b t + of_nat k) = ?f t m (?b t + of_nat k)" if "k < 152" for k
    using b [OF that] m(1) sub [OF assms(1)] n600 ms(1) by auto
  have r4: "ld32 (mem s') (?b t + of_nat k) = ld32 (?f t m) (?b t + of_nat k)" if "k \<le> 148" for k
  proof (rule ld32_cong)
    fix i :: nat assume "i < 4"
    then show "mem s' (?b t + of_nat k + of_nat i) = ?f t m (?b t + of_nat k + of_nat i)"
      using r [of "k + i"] that by (simp add: add.assoc)
  qed
  have "mem s' (?b t + of_nat 144) = 1" "ld32 (mem s') (?b t + of_nat 8) = 0" "ld32 (mem s') (?b t + of_nat 12) = 0"
    "ld32 (mem s') (?b t + of_nat 148) = 0" "\<forall>i < 4. mem s' (?b t + of_nat i) = 0xFF"
    using r [of 144] r4 [of 8] r4 [of 12] r4 [of 148] r fresh_terminal_fields(1-5) [where b = "?b t" and m = m]
    by simp_all
  moreover have "mem s' (?b t + of_nat (16 + i)) = mem s (?b t + of_nat (16 + i))" if "i < 128" for i
  proof -
    have k: "16 + i \<in> {16..<144}" "16 + i < 152" using that by simp_all
    show ?thesis unfolding r [OF k(2)] fresh_terminal_fields(6) [OF k(1)] by (rule m(2) [OF b [OF k(2)]])
  qed
  moreover have "mem s' x = mem s x" if "x \<notin> span (terminals_addr s) 456" "x \<noteq> terminals_addr s + 600" for x
  proof -
    have "x \<notin> span (?b u) 152" if "u \<in> {0, 1, 2}" for u using sub [OF that] \<open>x \<notin> span (terminals_addr s) 456\<close> by blast
    then show ?thesis using that out ms(1) by simp
  qed
  ultimately show ?thesis using ms
    by (simp add: term_flag_def term_screen_x_def term_screen_y_def term_buffer_enable_def term_process_def
        term_keyboard_buf_def add.assoc)
qed

text \<open>\<open>process_init\<close> makes each of the three terminals fresh: not started, its cursor in the top left
  corner, no reader, no process; the line buffers stay as they are and terminal 0 is the active
  one. It also stores a zero where a fourth terminal would have its flag, behind the array, and
  changes no other byte.\<close>

theorem process_init_terminals:
  fixes s :: "'a keyboard_scheme"
  assumes "t \<in> {0, 1, 2}"
  defines "s' \<equiv> process_init s"
  shows "mem s' (term_flag s t) = 1 \<and> ld32 (mem s') (term_screen_x s t) = 0 \<and> ld32 (mem s') (term_screen_y s t) = 0 \<and>
     ld32 (mem s') (term_buffer_enable s t) = 0 \<and> (\<forall>i < 4. mem s' (term_process s t (int i)) = 0xFF) \<and>
     (\<forall>i < 128. mem s' (term_keyboard_buf s t (int i)) = mem s (term_keyboard_buf s t (int i))) \<and>
     active_terminal s' = 0 \<and> mem s' (terminals_addr s + 600) = 0 \<and>
     (\<forall>x. x \<notin> span (terminals_addr s) 456 \<and> x \<noteq> terminals_addr s + 600 \<longrightarrow> mem s' x = mem s x)"
  unfolding s'_def using assms(1) by (rule process_init_fresh)

theorem process_init_terminals_witness:
  "mem (process_init demo_keyboard) 0x400090 = 1 \<and> mem (process_init demo_keyboard) 0x400258 = 0"
  using process_init_terminals [of 0 demo_keyboard] by (simp add: term_flag_def term_base_def demo_keyboard_def)

subsection \<open>Switching the display\<close>

lemma page_switch_below: "drop_bit 22 x \<noteq> 32 \<Longrightarrow> mem (page_switch n s) x = mem s x"
  by (cases "0 \<le> n \<and> n < 8") (simp add: page_switch_memory(1), auto simp: page_switch_def)

text \<open>Video memory with the three pages behind it, the terminals and the control block of the running
  process lie apart and below the user page; the cursor fits a byte.\<close>

definition display_ok :: "'a process_scheme \<Rightarrow> bool" where
  "display_ok s \<longleftrightarrow> active_terminal s \<in> {0, 1, 2} \<and> 0 \<le> screen_x s \<and> screen_x s < 80 \<and> 0 \<le> screen_y s \<and> screen_y s < 25 \<and>
     apart [(0xB8000, 0x4000), (terminals_addr s, 456), (get_pcb s, 292)] \<and>
     kernel_side [(0xB8000, 0x4000), (terminals_addr s, 456), (get_pcb s, 292)]"

lemma saved_screen_offset: "t \<in> {0, 1, 2} \<Longrightarrow> saved_screen t = 0xB8000 + of_nat (0x1000 * Suc (nat t))"
  by (auto simp: saved_screen_def)

text \<open>The pages of the four screens do not overlap.\<close>

lemma screen_pages:
  assumes "t \<in> {0, 1, 2}"
  shows "span (saved_screen t) 0x1000 \<subseteq> span 0xB8000 0x4000" "span (0xB8000 :: u32) 0x1000 \<subseteq> span 0xB8000 0x4000"
    "span (saved_screen t) 0x1000 \<inter> span 0xB8000 0x1000 = {}"
    "u \<in> {0, 1, 2} \<Longrightarrow> u \<noteq> t \<Longrightarrow> span (saved_screen t) 0x1000 \<inter> span (saved_screen u) 0x1000 = {}"
proof -
  show "span (saved_screen t) 0x1000 \<subseteq> span 0xB8000 0x4000"
    unfolding saved_screen_offset [OF assms] by (rule sub_span) (use assms in auto)
  show "span (0xB8000 :: u32) 0x1000 \<subseteq> span 0xB8000 0x4000" by (rule span_mono) simp
  show "span (saved_screen t) 0x1000 \<inter> span 0xB8000 0x1000 = {}"
    by (rule span_apartI) (use assms in \<open>auto simp: saved_screen_def\<close>)
  show "span (saved_screen t) 0x1000 \<inter> span (saved_screen u) 0x1000 = {}" if "u \<in> {0, 1, 2}" "u \<noteq> t"
    by (rule span_apartI) (use assms that in \<open>auto simp: saved_screen_def\<close>)
qed

text \<open>The memory after a switch from terminal \<open>t\<close> to terminal \<open>u\<close>, up to the control block and the user
  page.\<close>

definition switched_mem :: "'a process_scheme \<Rightarrow> int \<Rightarrow> memory \<Rightarrow> bool" where
  "switched_mem s u m' \<longleftrightarrow> (let t = active_terminal s in
     rds m' (saved_screen t) 0x1000 = rds (mem s) 0xB8000 0x1000 \<and> rds m' 0xB8000 0x1000 = rds (mem s) (saved_screen u) 0x1000 \<and>
     (\<forall>x. drop_bit 22 x \<noteq> 32 \<and> x \<notin> span (get_pcb s) 292 \<and> x \<notin> span 0xB8000 0x4000 \<and> x \<notin> span (term_base s t + of_nat 8) 8
        \<longrightarrow> m' x = mem s x) \<and>
     ld32 m' (term_screen_x s t) = word_of_int (screen_x s) \<and> ld32 m' (term_screen_y s t) = word_of_int (screen_y s))"

lemma byte_word:
  assumes "0 \<le> n" and "n < 256"
  shows "(ucast (word_of_int n :: u8) :: u32) = word_of_int n" and "uint (ucast (word_of_int n :: u32) :: u8) = n"
  using assms by (simp_all add: unsigned_of_int unsigned_ucast_eq take_bit_int_eq_self)

lemma memcpy_page:
  "span a 0x1000 \<inter> span b 0x1000 = {} \<Longrightarrow> memcpy m a b TERMINAL_SIZE = wrs m a (rds m b 0x1000)"
  using memcpy_wrs [of a TERMINAL_SIZE b m] by simp

text \<open>The state before the screens are exchanged: registers and cursor saved.\<close>

definition display_saved :: "'a process_scheme \<Rightarrow> memory" where
  "display_saved s = st32 (st32 (st32 (st32 (mem s) (pcb_ksp (get_pcb s)) (esp s)) (pcb_kbp (get_pcb s)) (ebp s))
     (term_screen_x s (active_terminal s)) (ucast (get_screenx s))) (term_screen_y s (active_terminal s)) (ucast (get_screeny s))"

lemma display_saved_mem:
  assumes ok: "display_ok s"
  defines "t \<equiv> active_terminal s"
  shows "x \<notin> span (get_pcb s) 292 \<Longrightarrow> x \<notin> span (term_base s t + of_nat 8) 8 \<Longrightarrow> display_saved s x = mem s x"
    and "ld32 (display_saved s) (term_screen_x s t) = word_of_int (screen_x s)"
    and "ld32 (display_saved s) (term_screen_y s t) = word_of_int (screen_y s)"
proof -
  have "span (get_pcb s + of_nat 256) 4 \<subseteq> span (get_pcb s) 292" "span (get_pcb s + of_nat 260) 4 \<subseteq> span (get_pcb s) 292"
    "span (term_base s t + of_nat 8 + of_nat 0) 4 \<subseteq> span (term_base s t + of_nat 8) 8"
    "span (term_base s t + of_nat 8 + of_nat 4) 4 \<subseteq> span (term_base s t + of_nat 8) 8"
    by (rule sub_span; simp)+
  show "display_saved s x = mem s x" if "x \<notin> span (get_pcb s) 292" "x \<notin> span (term_base s t + of_nat 8) 8"
  proof -
    have "x \<notin> span (pcb_ksp (get_pcb s)) 4" "x \<notin> span (pcb_kbp (get_pcb s)) 4" "x \<notin> span (term_screen_x s t) 4"
      "x \<notin> span (term_screen_y s t) 4"
      using that \<open>span (get_pcb s + of_nat 256) 4 \<subseteq> _\<close> \<open>span (get_pcb s + of_nat 260) 4 \<subseteq> _\<close>
        \<open>span (term_base s t + of_nat 8 + of_nat 0) 4 \<subseteq> _\<close> \<open>span (term_base s t + of_nat 8 + of_nat 4) 4 \<subseteq> _\<close>
      by (auto simp: pcb_offsets term_screen_x_def term_screen_y_def add.assoc)
    then show ?thesis by (simp add: display_saved_def t_def st32_other)
  qed
  show "ld32 (display_saved s) (term_screen_x s t) = word_of_int (screen_x s)"
    "ld32 (display_saved s) (term_screen_y s t) = word_of_int (screen_y s)"
    using ok by (simp_all add: display_saved_def t_def term_screen_x_def term_screen_y_def ld32_st32_apart
        get_screenx_def get_screeny_def byte_word display_ok_def)
qed

lemma cursor_frame:
  fixes s :: "'a process_scheme" and x y
  defines "s' \<equiv> place_cursor x y (set_screeny y (set_screenx x s))"
  shows "mem s' = mem s" "active_terminal s' = active_terminal s" "terminals_addr s' = terminals_addr s" "esp s' = esp s"
    "screen_x s' = uint x" "screen_y s' = uint y" "term_flag s' = term_flag s" "mem (set_screeny y (set_screenx x s)) = mem s"
    "screen_x (set_screeny y (set_screenx x s)) = uint x" "screen_y (set_screeny y (set_screenx x s)) = uint y"
  by (simp_all add: s'_def place_cursor_def outb_def set_screenx_def set_screeny_def Let_def term_flag_def term_base_def fun_eq_iff)

lemma let_step: "t = t' \<Longrightarrow> f t' = r \<Longrightarrow> Let t f = r"
  by simp

lemma rds_span_cong: "(\<And>x. x \<in> span a n \<Longrightarrow> m x = m' x) \<Longrightarrow> rds m a n = rds m' a n"
  by (rule rds_cong) auto

text \<open>The switch in three stages: the screen saved, the paging switched, the other screen shown.\<close>

lemma display_switch_stages:
  assumes "m2 = memcpy (display_saved s) (saved_screen (active_terminal s)) VIDEO_MEMORY TERMINAL_SIZE"
    and "s3 = page_switch (sint (ld32 m2 (pcb_pid (get_pcb s)))) (s\<lparr>mem := m2, active_terminal := sint term_id\<rparr>)"
    and "m4 = memcpy (mem s3) VIDEO_MEMORY (saved_screen (active_terminal s3)) TERMINAL_SIZE"
  defines "u \<equiv> active_terminal s3"
  defines "x \<equiv> ucast (ld32 m4 (term_screen_x s3 u)) :: u8" and "y \<equiv> ucast (ld32 m4 (term_screen_y s3 u)) :: u8"
  shows "display_switch frs term_id s = (let s' = place_cursor x y (set_screeny y (set_screenx x (s3\<lparr>mem := m4\<rparr>))) in
      if mem s' (term_flag s' u) \<noteq> 0 then do { r \<leftarrow> execute frs (shell_str s') s'; if_returns r (\<lambda>s. Some (Ret 0 s)) }
      else Some (Ret 0 s'))"
proof -
  have g: "get_screenx (s\<lparr>mem := m\<rparr>) = get_screenx s" "get_screeny (s\<lparr>mem := m\<rparr>) = get_screeny s"
    "term_screen_x (s\<lparr>mem := m\<rparr>) = term_screen_x s" "term_screen_y (s\<lparr>mem := m\<rparr>) = term_screen_y s"
    "get_pcb (s\<lparr>mem := m\<rparr>) = get_pcb s" "get_pcb (s\<lparr>mem := m, active_terminal := a\<rparr>) = get_pcb s" for m a and s :: "'a process_scheme"
    by (simp_all add: get_screenx_def get_screeny_def term_screen_x_def term_screen_y_def term_base_def get_pcb_def fun_eq_iff)
  have g3: "term_screen_x (s3\<lparr>mem := m4\<rparr>) = term_screen_x s3" "term_screen_y (s3\<lparr>mem := m4\<rparr>) = term_screen_y s3"
      "term_screen_y (set_screenx x (s3\<lparr>mem := m4\<rparr>)) = term_screen_y s3"
    by (simp_all add: term_screen_x_def term_screen_y_def term_base_def fun_eq_iff set_screenx_def)
  have c: "get_screenx (set_screeny y (set_screenx x s')) = x" "get_screeny (set_screeny y (set_screenx x s')) = y" for s' :: "'a process_scheme"
    by (simp_all add: get_screenx_def get_screeny_def set_screenx_def set_screeny_def)
  have m: "mem (set_screenx x s') = mem s'" "active_terminal (set_screenx x s') = active_terminal s'"
    "active_terminal (set_screeny y s') = active_terminal s'" "active_terminal (place_cursor a b s') = active_terminal s'"
    for s' :: "'a process_scheme" and a b
    by (simp_all add: set_screenx_def set_screeny_def place_cursor_def Let_def outb_def)
  define p where "p = get_pcb s"
  define sx where "sx = (ucast (get_screenx s) :: u32)"
  define sy where "sy = (ucast (get_screeny s) :: u32)"
  define ax where "ax = term_screen_x s (active_terminal s)"
  define ay where "ay = term_screen_y s (active_terminal s)"
  have saved: "display_saved s = st32 (st32 (st32 (st32 (mem s) (pcb_ksp p) (esp s)) (pcb_kbp p) (ebp s)) ax sx) ay sy"
    by (simp add: display_saved_def p_def sx_def sy_def ax_def ay_def)
  have s3: "s3 = page_switch (sint (ld32 m2 (pcb_pid p))) (s\<lparr>mem := m2, active_terminal := sint term_id\<rparr>)"
    by (simp add: assms(2) p_def)
  let ?s1 = "s\<lparr>mem := display_saved s\<rparr>"
  show ?thesis
    unfolding display_switch_def
    apply (rule let_step [where t' = p], simp add: p_def)
    apply (rule let_step, rule refl)
    apply (rule let_step [where t' = "s\<lparr>mem := st32 (st32 (mem s) (pcb_ksp p) (esp s)) (pcb_kbp p) (ebp s)\<rparr>"], simp)
    apply (rule let_step [where t' = "s\<lparr>mem := st32 (st32 (st32 (mem s) (pcb_ksp p) (esp s)) (pcb_kbp p) (ebp s)) ax sx\<rparr>"],
           simp add: g ax_def sx_def)
    apply (rule let_step [where t' = ?s1], simp add: g ay_def sy_def saved)
    apply (rule let_step [where t' = "s\<lparr>mem := m2\<rparr>"], simp add: assms(1))
    apply (rule let_step [where t' = "s\<lparr>mem := m2, active_terminal := sint term_id\<rparr>"], simp)
    apply (rule let_step [where t' = s3], simp add: s3 g p_def)
    apply (rule let_step [where t' = "s3\<lparr>mem := m4\<rparr>"], simp add: assms(3))
    apply (rule let_step [where t' = "set_screenx x (s3\<lparr>mem := m4\<rparr>)"], simp add: g3 x_def u_def)
    apply (rule let_step [where t' = "set_screeny y (set_screenx x (s3\<lparr>mem := m4\<rparr>))"], simp add: g3 y_def u_def m)
    apply (rule let_step [where t' = "place_cursor x y (set_screeny y (set_screenx x (s3\<lparr>mem := m4\<rparr>)))"], simp add: c)
    apply (simp add: Let_def m u_def)
    done
qed

lemma display_switch_to:
  fixes s :: "'a process_scheme"
  assumes ok: "display_ok s" and u: "u \<in> {0, 1, 2}" "u \<noteq> active_terminal s" and started: "mem s (term_flag s u) = 0"
  shows "\<exists>s'. display_switch frs (word_of_int u) s = Some (Ret 0 s') \<and> switched_mem s u (mem s') \<and> active_terminal s' = u \<and>
     screen_x s' = uint (ucast (ld32 (mem s) (term_screen_x s u)) :: u8) \<and>
     screen_y s' = uint (ucast (ld32 (mem s) (term_screen_y s u)) :: u8) \<and>
     terminals_addr s' = terminals_addr s \<and> esp s' = esp s"
proof -
  let ?t = "active_terminal s" and ?V = "span 0xB8000 0x4000" and ?P = "span (get_pcb s) 292" and ?T = "span (terminals_addr s) 456"
  have t: "?t \<in> {0, 1, 2}" and d: "?V \<inter> ?T = {}" "?V \<inter> ?P = {}" "?T \<inter> ?P = {}"
    and low: "\<And>x. x \<in> ?V \<Longrightarrow> drop_bit 22 x \<noteq> 32" "\<And>x. x \<in> ?T \<Longrightarrow> drop_bit 22 x \<noteq> 32"
    using ok below_user_page [of "0xB8000" "0x4000"] below_user_page [of "terminals_addr s" 456]
    by (auto simp: display_ok_def kernel_side_def)
  note sp = screen_pages [OF t] and su = screen_pages [OF u(1)]
  have cur: "span (term_base s w + of_nat 8) 8 \<subseteq> ?T" if "w \<in> {0, 1, 2}" for w
    by (rule term_offset_span [OF that]) simp
  define m1 where "m1 = display_saved s"
  have m1: "m1 x = mem s x" if "x \<notin> ?P" "x \<notin> span (term_base s ?t + of_nat 8) 8" for x
    using display_saved_mem(1) [OF ok that] by (simp add: m1_def)
  have m1V: "m1 x = mem s x" if "x \<in> ?V" for x using that d cur [OF t] by (intro m1) blast+
  define m2 where "m2 = wrs m1 (saved_screen ?t) (rds m1 0xB8000 0x1000)"
  have m2: "m2 x = m1 x" if "x \<notin> span (saved_screen ?t) 0x1000" for x unfolding m2_def using that by (simp add: wrs_other)
  define s3 where "s3 = page_switch (sint (ld32 m2 (pcb_pid (get_pcb s)))) (s\<lparr>mem := m2, active_terminal := u\<rparr>)"
  have m3: "mem s3 x = m2 x" if "drop_bit 22 x \<noteq> 32" for x unfolding s3_def using that by (simp add: page_switch_below)
  define m4 where "m4 = wrs (mem s3) 0xB8000 (rds (mem s3) (saved_screen u) 0x1000)"
  have m4: "m4 x = mem s3 x" if "x \<notin> span 0xB8000 0x1000" for x unfolding m4_def using that by (simp add: wrs_other)
  have out: "m4 x = m1 x" if "x \<notin> ?V" "drop_bit 22 x \<noteq> 32" for x
  proof -
    have "x \<notin> span (saved_screen ?t) 0x1000" "x \<notin> span 0xB8000 0x1000" using that(1) sp(1,2) by blast+
    then show ?thesis using m4 m3 [OF that(2)] m2 by simp
  qed
  have f3: "term_base s3 = term_base s" "active_terminal s3 = u" "screen_x s3 = screen_x s" "screen_y s3 = screen_y s"
    "terminals_addr s3 = terminals_addr s" "esp s3 = esp s"
    unfolding s3_def by (subst page_switch_as_update; simp add: term_base_def fun_eq_iff)+
  have cur1: "ld32 m4 (term_base s w + of_nat k) = ld32 m1 (term_base s w + of_nat k)" if "w \<in> {0, 1, 2}" "k \<in> {8, 12}" for w k
  proof (rule ld32_disjoint)
    fix x assume "x \<in> span (term_base s w + of_nat k) 4"
    moreover have "span (term_base s w + of_nat k) 4 \<subseteq> ?T" by (rule term_offset_span [OF that(1)]) (use that in auto)
    ultimately have "x \<in> ?T" by blast
    then show "m4 x = m1 x" using d(1) low(2) by (intro out) blast+
  qed
  have curu: "ld32 m1 (term_base s u + of_nat k) = ld32 (mem s) (term_base s u + of_nat k)" if "k \<in> {8, 12}" for k
  proof (rule ld32_disjoint)
    fix x assume x: "x \<in> span (term_base s u + of_nat k) 4"
    have "span (term_base s u + of_nat k) 4 \<subseteq> span (term_base s u) 152" by (rule sub_span) (use that in auto)
    moreover have "span (term_base s ?t + of_nat 8) 8 \<subseteq> span (term_base s ?t) 152" by (rule sub_span) simp
    moreover have "span (term_base s u + of_nat k) 4 \<subseteq> ?T" by (rule term_offset_span [OF u(1)]) (use that in auto)
    ultimately show "m1 x = mem s x"
      using x term_base_apart [OF t u(1) u(2) [symmetric], of s] d by (intro m1) blast+
  qed
  have scr: "rds m4 (saved_screen ?t) 0x1000 = rds (mem s) 0xB8000 0x1000" "rds m4 0xB8000 0x1000 = rds (mem s) (saved_screen u) 0x1000"
  proof -
    have "rds m4 (saved_screen ?t) 0x1000 = rds m2 (saved_screen ?t) 0x1000"
    proof (rule rds_span_cong)
      fix x assume "x \<in> span (saved_screen ?t) 0x1000"
      then have "x \<in> ?V" "x \<notin> span 0xB8000 0x1000" using sp(1,3) by blast+
      then show "m4 x = m2 x" using m3 m4 low(1) by simp
    qed
    also have "\<dots> = rds m1 0xB8000 0x1000" unfolding m2_def using rds_wrs [of "rds m1 0xB8000 0x1000" m1 "saved_screen ?t"] by simp
    also have "\<dots> = rds (mem s) 0xB8000 0x1000" using sp(2) by (intro rds_span_cong m1V) blast
    finally show "rds m4 (saved_screen ?t) 0x1000 = rds (mem s) 0xB8000 0x1000" .
    have "rds m4 0xB8000 0x1000 = rds (mem s3) (saved_screen u) 0x1000"
      unfolding m4_def using rds_wrs [of "rds (mem s3) (saved_screen u) 0x1000" "mem s3" "0xB8000"] by simp
    also have "\<dots> = rds m1 (saved_screen u) 0x1000"
    proof (rule rds_span_cong)
      fix x assume "x \<in> span (saved_screen u) 0x1000"
      then have "x \<in> ?V" "x \<notin> span (saved_screen ?t) 0x1000" using su(1) sp(4) [OF u] by blast+
      then show "mem s3 x = m1 x" using m2 m3 low(1) by simp
    qed
    also have "\<dots> = rds (mem s) (saved_screen u) 0x1000" using su(1) by (intro rds_span_cong m1V) blast
    finally show "rds m4 0xB8000 0x1000 = rds (mem s) (saved_screen u) 0x1000" .
  qed
  have fl: "m4 (term_flag s u) = 0"
  proof -
    have T: "term_flag s u \<in> ?T" by (rule term_byte_in_array(1) [OF u(1)])
    have o: "term_flag s u \<notin> ?V" "term_flag s u \<notin> ?P" using d(1,3) T by blast+
    have o3: "drop_bit 22 (term_flag s u) \<noteq> 32" by (rule low(2) [OF T])
    have o4: "term_flag s u \<notin> span (term_base s ?t + of_nat 8) 8"
    proof -
      have "term_flag s u \<in> span (term_base s u) 152" using in_spanI [of 144 152 "term_base s u"] by (simp add: term_flag_def)
      moreover have "span (term_base s ?t + of_nat 8) 8 \<subseteq> span (term_base s ?t) 152" by (rule sub_span) simp
      ultimately show ?thesis using term_base_apart [OF t u(1) u(2) [symmetric], of s] by blast
    qed
    show ?thesis unfolding out [OF o(1) o3] m1 [OF o(2) o4] by (rule started)
  qed
  let ?s4 = "s3\<lparr>mem := m4\<rparr>"
  let ?x = "ucast (ld32 m4 (term_screen_x s u)) :: u8" and ?y = "ucast (ld32 m4 (term_screen_y s u)) :: u8"
  have a3: "term_screen_x s3 = term_screen_x s" "term_screen_y s3 = term_screen_y s" "term_flag s3 = term_flag s"
    using f3(1) by (simp_all add: term_screen_x_def term_screen_y_def term_flag_def fun_eq_iff)
  have su32: "sint (word_of_int u :: u32) = u" using u(1) by auto
  have sw: "display_switch frs (word_of_int u) s =
      Some (Ret 0 (place_cursor ?x ?y (set_screeny ?y (set_screenx ?x ?s4))))"
  proof -
    have c1: "memcpy (display_saved s) (saved_screen ?t) VIDEO_MEMORY TERMINAL_SIZE = m2"
      unfolding m2_def m1_def using memcpy_page [OF sp(3)] by simp
    have c2: "memcpy (mem s3) VIDEO_MEMORY (saved_screen (active_terminal s3)) TERMINAL_SIZE = m4"
      unfolding m4_def f3(2) using memcpy_page su(3) by (simp add: Int_commute)
    have c3: "s3 = page_switch (sint (ld32 m2 (pcb_pid (get_pcb s)))) (s\<lparr>mem := m2, active_terminal := sint (word_of_int u :: u32)\<rparr>)"
      by (simp add: s3_def su32)
    note p = display_switch_stages [OF c1 [symmetric] c3 c2 [symmetric], of frs]
    show ?thesis unfolding p by (simp add: Let_def a3 f3 fl cursor_frame)
  qed
  have "switched_mem s u m4"
    using scr out m1 cur1 [OF t, of 8] cur1 [OF t, of 12] display_saved_mem(2,3) [OF ok]
    by (simp add: switched_mem_def Let_def m1_def term_screen_x_def term_screen_y_def)
  moreover have "ld32 m4 (term_screen_x s u) = ld32 (mem s) (term_screen_x s u)" "ld32 m4 (term_screen_y s u) = ld32 (mem s) (term_screen_y s u)"
    using cur1 [OF u(1), of 8] cur1 [OF u(1), of 12] curu [of 8] curu [of 12] by (simp_all add: term_screen_x_def term_screen_y_def)
  ultimately show ?thesis unfolding sw using f3
    by (simp add: cursor_frame)
qed

lemma switched_mem_flag:
  assumes "display_ok s" and "switched_mem s u m'" and "w \<in> {0, 1, 2}"
  shows "m' (term_flag s w) = mem s (term_flag s w)"
proof -
  let ?t = "active_terminal s" and ?T = "span (terminals_addr s) 456"
  have T: "term_flag s w \<in> ?T" by (rule term_byte_in_array(1) [OF assms(3)])
  have d: "span 0xB8000 0x4000 \<inter> ?T = {}" "?T \<inter> span (get_pcb s) 292 = {}" and t: "?t \<in> {0, 1, 2}"
    and low: "drop_bit 22 (term_flag s w) \<noteq> 32"
    using assms(1) below_user_page [of "terminals_addr s" 456] T by (auto simp: display_ok_def kernel_side_def)
  have "term_flag s w \<notin> span (term_base s ?t + of_nat 8) 8"
  proof (cases "w = ?t")
    case True then show ?thesis by (simp add: in_span_unat term_flag_def)
  next
    case False
    have "term_flag s w \<in> span (term_base s w) 152" using in_spanI [of 144 152 "term_base s w"] by (simp add: term_flag_def)
    moreover have "span (term_base s ?t + of_nat 8) 8 \<subseteq> span (term_base s ?t) 152" by (rule sub_span) simp
    ultimately show ?thesis using term_base_apart [OF t assms(3) False [symmetric], of s] by blast
  qed
  then show ?thesis using assms(2) d T low by (simp add: switched_mem_def Let_def) blast
qed

text \<open>C24: Switching the display to another started terminal and back shows the first terminal's screen
  again, byte by byte, with its cursor where it was; the screen shown meanwhile is the one saved for the
  other terminal.\<close>

theorem display_switch_back:
  fixes s :: "'a process_scheme"
  assumes ok: "display_ok s" and u: "u \<in> {0, 1, 2}" "u \<noteq> active_terminal s"
    and started: "mem s (term_flag s u) = 0" "mem s (term_flag s (active_terminal s)) = 0"
    and cursor: "(ucast (ld32 (mem s) (term_screen_x s u)) :: u8) < 80" "(ucast (ld32 (mem s) (term_screen_y s u)) :: u8) < 25"
  shows "\<exists>s1 s2. display_switch frs (word_of_int u) s = Some (Ret 0 s1) \<and>
     display_switch frs' (word_of_int (active_terminal s)) s1 = Some (Ret 0 s2) \<and>
     active_terminal s1 = u \<and> rds (mem s1) 0xB8000 0x1000 = rds (mem s) (saved_screen u) 0x1000 \<and>
     active_terminal s2 = active_terminal s \<and> rds (mem s2) 0xB8000 0x1000 = rds (mem s) 0xB8000 0x1000 \<and>
     screen_x s2 = screen_x s \<and> screen_y s2 = screen_y s"
proof -
  let ?t = "active_terminal s"
  obtain s1 where s1: "display_switch frs (word_of_int u) s = Some (Ret 0 s1)" "switched_mem s u (mem s1)" "active_terminal s1 = u"
      "screen_x s1 = uint (ucast (ld32 (mem s) (term_screen_x s u)) :: u8)"
      "screen_y s1 = uint (ucast (ld32 (mem s) (term_screen_y s u)) :: u8)" "terminals_addr s1 = terminals_addr s" "esp s1 = esp s"
    using display_switch_to [OF ok u started(1), of frs] by blast
  have same: "get_pcb s1 = get_pcb s" "term_base s1 = term_base s" "term_flag s1 = term_flag s"
      "term_screen_x s1 = term_screen_x s" "term_screen_y s1 = term_screen_y s"
    using s1(6,7) by (simp_all add: get_pcb_def term_base_def term_flag_def term_screen_x_def term_screen_y_def fun_eq_iff)
  have "0 \<le> screen_x s1 \<and> screen_x s1 < 80" "0 \<le> screen_y s1 \<and> screen_y s1 < 25"
    using cursor by (simp_all add: s1(4,5) word_less_def)
  then have ok1: "display_ok s1" using ok u(1) by (simp add: display_ok_def same s1(3,6))
  have t: "?t \<in> {0, 1, 2}" and cur: "0 \<le> screen_x s" "screen_x s < 256" "0 \<le> screen_y s" "screen_y s < 256"
    using ok by (auto simp: display_ok_def)
  have "mem s1 (term_flag s ?t) = mem s (term_flag s ?t)"
    by (rule switched_mem_flag [OF ok s1(2) t])
  then have fl: "mem s1 (term_flag s1 ?t) = 0" using started(2) same(3) by simp
  obtain s2 where s2: "display_switch frs' (word_of_int ?t) s1 = Some (Ret 0 s2)" "switched_mem s1 ?t (mem s2)" "active_terminal s2 = ?t"
      "screen_x s2 = uint (ucast (ld32 (mem s1) (term_screen_x s1 ?t)) :: u8)"
      "screen_y s2 = uint (ucast (ld32 (mem s1) (term_screen_y s1 ?t)) :: u8)"
    using display_switch_to [OF ok1 t _ fl, of frs'] u(2) s1(3) by auto
  show ?thesis
  proof (intro exI conjI)
    show "rds (mem s1) 0xB8000 0x1000 = rds (mem s) (saved_screen u) 0x1000"
      using s1(2) by (simp add: switched_mem_def Let_def)
    have "rds (mem s1) (saved_screen ?t) 0x1000 = rds (mem s) 0xB8000 0x1000"
      using s1(2) by (simp add: switched_mem_def Let_def)
    then show "rds (mem s2) 0xB8000 0x1000 = rds (mem s) 0xB8000 0x1000"
      using s2(2) by (simp add: switched_mem_def Let_def)
    show "screen_x s2 = screen_x s" "screen_y s2 = screen_y s"
      using s1(2) cur by (simp_all add: s2(4,5) switched_mem_def Let_def same byte_word)
  qed (fact s1(1) s2(1) s1(3) s2(3))+
qed

definition demo_screens :: process where
  "demo_screens = demo_process\<lparr>mem := (\<lambda>_. 0)(0xB8000 := 65, 0xBA000 := 66)\<rparr>"

lemma demo_screens_ok: "display_ok demo_screens" "active_terminal demo_screens = 0"
proof -
  show "display_ok demo_screens"
    by (auto simp: display_ok_def kernel_side_def demo_screens_def demo_process_def get_pcb_def intro!: span_apartI)
qed (simp add: demo_screens_def demo_process_def)

theorem display_switch_back_witness:
  "\<exists>s1 s2. display_switch [] 1 demo_screens = Some (Ret 0 s1) \<and> display_switch [] 0 s1 = Some (Ret 0 s2) \<and>
     mem s1 0xB8000 = 66 \<and> mem s2 0xB8000 = 65 \<and> active_terminal s2 = 0"
proof -
  let ?s = demo_screens
  have f: "mem ?s (term_flag ?s 1) = 0" "mem ?s (term_flag ?s (active_terminal ?s)) = 0"
    "(ucast (ld32 (mem ?s) (term_screen_x ?s 1)) :: u8) < 80" "(ucast (ld32 (mem ?s) (term_screen_y ?s 1)) :: u8) < 25"
    by (simp_all add: demo_screens_def demo_process_def term_flag_def term_screen_x_def term_screen_y_def term_base_def ld32_def)
  have r: "rds m a 0x1000 ! 0 = m a" for m a by (simp add: rds_def)
  have v: "mem ?s 0xB8000 = 65" "mem ?s (saved_screen 1) = 66" by (simp_all add: demo_screens_def saved_screen_def)
  obtain s1 s2 where s: "display_switch [] (word_of_int 1) ?s = Some (Ret 0 s1)"
      "display_switch [] (word_of_int (active_terminal ?s)) s1 = Some (Ret 0 s2)"
      "rds (mem s1) 0xB8000 0x1000 = rds (mem ?s) (saved_screen 1) 0x1000"
      "active_terminal s2 = active_terminal ?s" "rds (mem s2) 0xB8000 0x1000 = rds (mem ?s) 0xB8000 0x1000"
    using display_switch_back [OF demo_screens_ok(1) _ _ f, of "[]" "[]"] demo_screens_ok(2) by auto
  have "mem s1 0xB8000 = 66" "mem s2 0xB8000 = 65"
    using arg_cong [OF s(3), of "\<lambda>l. l ! 0"] arg_cong [OF s(5), of "\<lambda>l. l ! 0"] by (simp_all only: r v)
  then show ?thesis using s(1,2,4) demo_screens_ok(2) by auto
qed

end
