(* ===== verification/Sched.thy ===== *)
theory Sched
  imports Terminals
begin

text \<open>
  The timer and the scheduler, \<open>sched.c\<close>. The two assembly statements of \<open>context_switch\<close> name the
  registers they move, but the outputs they declare are registers the compiler chooses, and they tell it of no
  register they change. What the output registers hold, and what the compiler's own code between the
  statements makes of \<open>ebx\<close> and \<open>ecx\<close>, is the argument \<open>asm_regs\<close>; the moves are those of the code.
\<close>

section \<open>Definitions\<close>

record asm_regs =
  first_out :: "u32 \<times> u32"
  between :: "u32 \<times> u32 \<Rightarrow> u32 \<times> u32"
  second_out :: "u32 \<times> u32"

definition pit_init :: "'a pic_scheme \<Rightarrow> 'a pic_scheme" where
  "pit_init s =
     (let freq = 1193182 div 50 :: int;
          s = outb 0x36 0x43 s;
          s = outb (word_of_int freq AND 0xFF) 0x40 s;
          s = outb (word_of_int (drop_bit 8 freq)) 0x40 s
      in enable_irq 0 s)"

text \<open>\<open>get_pcb\<close> is called twice, before and after \<open>running_terminal\<close> is set. It looks only at the
  stack pointer.\<close>

definition context_switch :: "asm_regs \<Rightarrow> 'a process_scheme \<Rightarrow> 'a process_scheme" where
  "context_switch rg s =
     (let curr = get_pcb s;
          s = s\<lparr>running_terminal := next_term s\<rparr>;
          nxt = get_pcb s;
          s = page_switch (sint (ld32 (mem s) (pcb_pid nxt))) s;
          s = s\<lparr>tss_ss0 := 0x0018\<rparr>;
          s = s\<lparr>tss_esp0 := SIZE_8MB - ld32 (mem s) (pcb_pid nxt) * 0x2000 - 4\<rparr>;
          ebx = esp s;
          ecx = ebp s;
          s = put (pcb_ksp curr) (fst (first_out rg)) s;
          s = put (pcb_kbp curr) (snd (first_out rg)) s;
          (ebx, ecx) = between rg (ebx, ecx);
          s = s\<lparr>esp := ebx\<rparr>;
          s = s\<lparr>ebp := ecx\<rparr>;
          s = put (pcb_ksp nxt) (fst (second_out rg)) s
      in put (pcb_kbp nxt) (snd (second_out rg)) s)"

definition scheduler :: "asm_regs \<Rightarrow> exec_frame list \<Rightarrow> 'a process_scheme \<Rightarrow> 'a process_scheme outcome option" where
  "scheduler rg frs s =
     (let s = s\<lparr>next_term := (running_terminal s + 1) smod 3\<rparr>
      in if next_term s \<noteq> running_terminal s \<and> mem s (term_flag s (next_term s)) = 0
         then Some (Ret 0 (context_switch rg s))
         else
           (let s = put (term_screen_x s (active_terminal s)) (ucast (get_screenx s)) s;
                s = put (term_screen_y s (active_terminal s)) (ucast (get_screeny s)) s;
                s = s\<lparr>mem := memcpy (mem s) (saved_screen (active_terminal s)) VIDEO_MEMORY TERMINAL_SIZE\<rparr>;
                prev = get_pcb s;
                s = s\<lparr>active_terminal := next_term s\<rparr>;
                s = clear s;
                s = set_screenx (ucast (ld32 (mem s) (term_screen_x s (active_terminal s)))) s;
                s = set_screeny (ucast (ld32 (mem s) (term_screen_y s (active_terminal s)))) s;
                s = place_cursor (ucast (ld32 (mem s) (term_screen_x s (active_terminal s))))
                      (ucast (ld32 (mem s) (term_screen_y s (active_terminal s)))) s;
                s = s\<lparr>mem := memcpy (mem s) VIDEO_MEMORY (saved_screen (active_terminal s)) TERMINAL_SIZE\<rparr>;
                s = put (pcb_ksp prev) (esp s) s;
                s = put (pcb_kbp prev) (ebp s) s
            in do { r \<leftarrow> execute frs (shell_str s) s; if_returns r (\<lambda>s. Some (Ret 0 s)) }))"

definition pit_handler :: "asm_regs \<Rightarrow> exec_frame list \<Rightarrow> 'a process_scheme \<Rightarrow> 'a process_scheme outcome option" where
  "pit_handler rg frs s =
     (let s = send_eoi 0 s
      in if mem s (term_flag s 0) = 0 \<or> mem s (term_flag s 1) = 0 \<or> mem s (term_flag s 2) = 0
         then scheduler rg frs s else Some (Ret 0 s))"

section \<open>Timer ticks\<close>

text \<open>A sequence of timer interrupts that all return.\<close>

fun ticks :: "exec_frame list \<Rightarrow> asm_regs list \<Rightarrow> 'a process_scheme \<Rightarrow> 'a process_scheme option" where
  "ticks frs [] s = Some s"
| "ticks frs (rg # rgs) s =
     (case pit_handler rg frs s of Some (Ret v s') \<Rightarrow> ticks frs rgs s' | _ \<Rightarrow> None)"

text \<open>All terminals run a shell; the terminals and the control block of the running process lie apart and
  below the user page.\<close>

definition all_started :: "'a process_scheme \<Rightarrow> bool" where
  "all_started s \<longleftrightarrow> running_terminal s \<in> {0, 1, 2} \<and> (\<forall>t \<in> {0, 1, 2}. mem s (term_flag s t) = 0) \<and>
     apart [(terminals_addr s, 456), (get_pcb s, 292)] \<and> kernel_side [(terminals_addr s, 456), (get_pcb s, 292)]"

text \<open>The compiler's code between the two statements uses neither \<open>ebx\<close> nor \<open>ecx\<close>.\<close>

definition regs_kept :: "asm_regs \<Rightarrow> bool" where
  "regs_kept rg \<longleftrightarrow> (\<forall>r. between rg r = r)"

text \<open>Same process, same screen.\<close>

definition same_process :: "'a process_scheme \<Rightarrow> 'a process_scheme \<Rightarrow> bool" where
  "same_process s s' \<longleftrightarrow> esp s' = esp s \<and> ebp s' = ebp s \<and> active_terminal s' = active_terminal s \<and>
     terminals_addr s' = terminals_addr s \<and> pcb_state s' = pcb_state s \<and>
     (\<forall>x. drop_bit 22 x \<noteq> 32 \<and> x \<notin> span (pcb_ksp (get_pcb s)) 8 \<longrightarrow> mem s' x = mem s x)"

lemma page_switch_more_fields:
  "running_terminal (page_switch n s) = running_terminal s" "ebp (page_switch n s) = ebp s" "next_term (page_switch n s) = next_term s"
  by (subst page_switch_as_update; simp)+

lemma context_switch_as_update:
  fixes s :: "'a process_scheme"
  defines "p \<equiv> get_pcb s"
  defines "u \<equiv> page_switch (sint (ld32 (mem s) (pcb_pid p))) (s\<lparr>running_terminal := next_term s\<rparr>)"
  shows "context_switch rg s = u\<lparr>mem := st32 (st32 (st32 (st32 (mem u) (pcb_ksp p) (fst (first_out rg))) (pcb_kbp p) (snd (first_out rg)))
      (pcb_ksp p) (fst (second_out rg))) (pcb_kbp p) (snd (second_out rg)),
    tss_ss0 := 0x0018, tss_esp0 := SIZE_8MB - ld32 (mem u) (pcb_pid p) * 0x2000 - 4, esp := fst (between rg (esp s, ebp s)),
    ebp := snd (between rg (esp s, ebp s))\<rparr>"
  by (simp add: context_switch_def Let_def p_def u_def get_pcb_def page_switch_more_fields case_prod_unfold)

lemma context_switch_stays:
  fixes s :: "'a process_scheme"
  assumes "regs_kept rg"
  shows "running_terminal (context_switch rg s) = next_term s" and "same_process s (context_switch rg s)"
proof -
  let ?p = "get_pcb s"
  show "running_terminal (context_switch rg s) = next_term s"
    by (simp add: context_switch_as_update page_switch_more_fields)
  have "mem (context_switch rg s) x = mem s x" if "drop_bit 22 x \<noteq> 32" "x \<notin> span (pcb_ksp ?p) 8" for x
  proof -
    have "span (pcb_ksp ?p) 8 = span (pcb_ksp ?p) 4 \<union> span (pcb_kbp ?p) 4"
      using span_append [of "pcb_ksp ?p" 4 4] by (simp add: pcb_offsets add.assoc)
    with that have "x \<notin> span (pcb_ksp ?p) 4" "x \<notin> span (pcb_kbp ?p) 4" by blast+
    then show ?thesis by (simp add: context_switch_as_update st32_other page_switch_below [OF that(1)])
  qed
  then show "same_process s (context_switch rg s)" using assms
    by (simp add: same_process_def regs_kept_def context_switch_as_update page_switch_more_fields)
qed

lemma same_process_trans: "same_process s s1 \<Longrightarrow> same_process s1 s2 \<Longrightarrow> same_process s s2"
  by (simp add: same_process_def get_pcb_def)

lemma same_process_get_pcb: "same_process s s' \<Longrightarrow> get_pcb s' = get_pcb s"
  by (simp add: same_process_def get_pcb_def)

lemma all_started_flags:
  assumes s: "all_started s" and p: "same_process s s'" and t: "t \<in> {0, 1, 2}"
  shows "mem s' (term_flag s' t) = 0"
proof -
  let ?x = "term_flag s t"
  have x: "?x \<in> span (terminals_addr s) 456" by (rule term_byte_in_array(1) [OF t])
  have d: "span (terminals_addr s) 456 \<inter> span (get_pcb s) 292 = {}" and low: "drop_bit 22 ?x \<noteq> 32"
    using s x below_user_page [of "terminals_addr s" 456] by (auto simp: all_started_def kernel_side_def)
  have "span (get_pcb s + of_nat 256) 8 \<subseteq> span (get_pcb s) 292" by (rule sub_span) simp
  then have "?x \<notin> span (pcb_ksp (get_pcb s)) 8" using d x by (auto simp: pcb_offsets)
  then have "mem s' ?x = mem s ?x" using p low by (simp add: same_process_def)
  moreover have "term_flag s' t = ?x" using p by (simp add: same_process_def term_flag_def term_base_def)
  ultimately show ?thesis using s t by (auto simp: all_started_def)
qed

lemma tick:
  assumes s: "all_started s" and rg: "regs_kept rg"
  shows "\<exists>s'. pit_handler rg frs s = Some (Ret 0 s') \<and> running_terminal s' = (running_terminal s + 1) mod 3 \<and>
    same_process s s' \<and> all_started s'"
proof -
  let ?n = "(running_terminal s + 1) mod 3"
  let ?s = "(send_eoi 0 s)\<lparr>next_term := ?n\<rparr>"
  have r: "running_terminal s \<in> {0, 1, 2}" and f: "\<And>t. t \<in> {0, 1, 2} \<Longrightarrow> mem s (term_flag s t) = 0"
    using s by (auto simp: all_started_def)
  have sm: "(running_terminal s + 1) smod 3 = ?n" using r by (auto simp: signed_modulo_int_def signed_divide_int_def)
  have n: "?n \<in> {0, 1, 2}" "?n \<noteq> running_terminal s" using r by auto
  have fl: "term_flag ?s = term_flag s" "mem ?s = mem s" "get_pcb ?s = get_pcb s" "terminals_addr ?s = terminals_addr s"
    "esp ?s = esp s" "ebp ?s = ebp s" "running_terminal (send_eoi 0 s) = running_terminal s" "mem (send_eoi 0 s) = mem s"
    "term_flag (send_eoi 0 s) = term_flag s"
    by (simp_all add: send_eoi_def outb_def term_flag_def term_base_def get_pcb_def fun_eq_iff)
  have e: "pit_handler rg frs s = Some (Ret 0 (context_switch rg ?s))"
    using f [of 0] f [OF n(1)] n(2) by (simp add: pit_handler_def scheduler_def Let_def sm fl)
  have "same_process s ?s" by (simp add: same_process_def fl) (simp add: send_eoi_def outb_def)
  then have same: "same_process s (context_switch rg ?s)"
    by (rule same_process_trans) (rule context_switch_stays(2) [OF rg])
  have run: "running_terminal (context_switch rg ?s) = ?n" using context_switch_stays(1) [OF rg, of ?s] by simp
  have "all_started (context_switch rg ?s)"
    using s n(1) all_started_flags [OF s same] same_process_get_pcb [OF same] same run
    by (simp add: all_started_def same_process_def)
  then show ?thesis using e same run by blast
qed

section \<open>Properties\<close>

text \<open>C31: With a shell started on each terminal, and compiled code that uses neither \<open>ebx\<close> nor \<open>ecx\<close> between the two
  assembly statements, \<open>n\<close> timer interrupts all return and move \<open>running_terminal\<close> around the three terminals, one step
  for each, so that every terminal has its turn within three ticks. But the process never changes: \<open>context_switch\<close>
  takes both control blocks from the one stack pointer and its moves take that pointer and the frame pointer out
  and back, so after any number of ticks the kernel is still on the stack of the process that was
  interrupted, and nothing in memory differs but the stack fields of that process's control block (the user page apart).\<close>

theorem ticks_round_robin:
  assumes "all_started s" and "\<forall>rg \<in> set rgs. regs_kept rg"
  shows "\<exists>s'. ticks frs rgs s = Some s' \<and> running_terminal s' = (running_terminal s + int (length rgs)) mod 3 \<and>
     get_pcb s' = get_pcb s \<and> same_process s s'"
  using assms
proof (induction rgs arbitrary: s)
  case Nil
  then show ?case by (auto simp: all_started_def same_process_def)
next
  case (Cons rg rgs)
  obtain s1 where s1: "pit_handler rg frs s = Some (Ret 0 s1)" "running_terminal s1 = (running_terminal s + 1) mod 3"
      "same_process s s1" "all_started s1"
    using tick [OF Cons.prems(1), of rg frs] Cons.prems(2) by auto
  have "\<forall>rg \<in> set rgs. regs_kept rg" using Cons.prems(2) by simp
  from Cons.IH [OF s1(4) this] s1 same_process_trans [OF s1(3)] same_process_get_pcb [OF s1(3)]
  show ?case by (auto simp: mod_simps ac_simps)
qed

theorem ticks_round_robin_witness:
  "\<exists>s'. ticks [] (replicate 4 \<lparr>first_out = (0, 0), between = (\<lambda>r. r), second_out = (0, 0)\<rparr>) demo_screens = Some s' \<and>
     running_terminal s' = 1 \<and> get_pcb s' = get_pcb demo_screens"
proof -
  let ?rg = "\<lparr>first_out = (0, 0), between = (\<lambda>r. r), second_out = (0, 0)\<rparr>"
  have "all_started demo_screens"
    by (auto simp: all_started_def kernel_side_def demo_screens_def demo_process_def get_pcb_def term_flag_def term_base_def
        intro!: span_apartI)
  moreover have "\<forall>rg \<in> set (replicate 4 ?rg). regs_kept rg" by (simp add: regs_kept_def)
  moreover have "running_terminal demo_screens = 0" by (simp add: demo_screens_def demo_process_def)
  ultimately show ?thesis using ticks_round_robin [of demo_screens "replicate 4 ?rg" "[]"] by auto
qed

text \<open>\<open>pit_init\<close> programs channel 0 of the timer in mode 3 with the divisor 23863, fifty interrupts a second, low
  byte before high byte, then opens line 0 at the controller and no other line.\<close>

theorem pit_init_50_hertz:
  "\<exists>m. io (pit_init s) = io s @ [Out 0x43 0x36, Out 0x40 0x37, Out 0x40 0x5D, Out 0x21 m] \<and>
     (0x5D * 256 + 0x37 = (1193182 div 50 :: nat)) \<and>
     (\<forall>i < 16. irq_masked (pit_init s) i \<longleftrightarrow> irq_masked s i \<and> i \<noteq> 0)"
proof -
  let ?s = "outb 0x5D 0x40 (outb 0x37 0x40 (outb 0x36 0x43 s))"
  have e: "pit_init s = enable_irq 0 ?s" by (simp add: pit_init_def Let_def drop_bit_eq_div)
  have "\<exists>m. io (enable_irq 0 ?s) = io ?s @ [Out 0x21 m]"
    using enable_irq_master [of 0 ?s] by simp
  moreover have "irq_masked (pit_init s) i \<longleftrightarrow> irq_masked s i \<and> i \<noteq> 0" if "i < 16" for i
  proof -
    have "irq_masked ?s i = irq_masked s i" by (simp add: irq_masked_def outb_def)
    then show ?thesis using enable_irq_masked [of 0 i ?s] that by (simp add: e opens_def)
  qed
  ultimately show ?thesis by (auto simp: e)
qed

theorem pit_init_50_hertz_witness:
  "irq_masked (pit_init demo_pic) 1 \<longleftrightarrow> irq_masked demo_pic 1"
proof -
  have "\<forall>i < 16. irq_masked (pit_init demo_pic) i \<longleftrightarrow> irq_masked demo_pic i \<and> i \<noteq> 0"
    using pit_init_50_hertz [of demo_pic] by blast
  then show ?thesis by simp
qed

end
