(* ===== verification/Printf.thy ===== *)
theory Printf
  imports CString Console
begin

text \<open>
  \<open>printf\<close> of \<open>lib.c\<close>. The format and the variadic arguments are read from memory, the
  arguments at \<open>ap\<close>, the address behind the format parameter on the stack. \<open>conv c\<close> is the address of
  the array \<open>conv_buf\<close> in the block of the conversion \<open>c\<close>, and \<open>stray\<close> is the parameter of \<open>itoa\<close>.
  The specification \<open>format_text\<close> gives the characters a format stands for; the main lemma says that
  \<open>printf\<close> sends them to the terminal of \<open>Console\<close>.
\<close>

section \<open>Definitions\<close>

function zero_fill :: "u32 \<Rightarrow> int \<Rightarrow> memory \<Rightarrow> memory" where
  "zero_fill buf i m = (if i < 8 then zero_fill buf (i + 1) (m(buf + word_of_int i := 48)) else m)"
  by pat_completeness auto
termination
  by (relation "measure (\<lambda>(buf, i, m). nat (8 - i))") auto

declare zero_fill.simps [simp del]

definition print_hex :: "(u32 \<Rightarrow> u8) \<Rightarrow> u32 \<Rightarrow> bool \<Rightarrow> u32 \<Rightarrow> 'a console_scheme \<Rightarrow> 'a console_scheme option" where
  "print_hex stray conv_buf alternate v s =
     (if \<not> alternate then do {
        m \<leftarrow> itoa stray (mem s) v conv_buf 16;
        (n, s) \<leftarrow> puts conv_buf (s\<lparr>mem := m\<rparr>);
        Some s
      } else do {
        m \<leftarrow> itoa stray (mem s) v (conv_buf + 8) 16;
        starting_index \<leftarrow> strlen m (conv_buf + 8);
        let m = zero_fill conv_buf (sint starting_index) m;
        (n, s) \<leftarrow> puts (conv_buf + starting_index) (s\<lparr>mem := m\<rparr>);
        Some s
      })"

definition print_unsigned :: "(u32 \<Rightarrow> u8) \<Rightarrow> u32 \<Rightarrow> u32 \<Rightarrow> 'a console_scheme \<Rightarrow> 'a console_scheme option" where
  "print_unsigned stray conv_buf v s = do {
     m \<leftarrow> itoa stray (mem s) v conv_buf 10;
     (n, s) \<leftarrow> puts conv_buf (s\<lparr>mem := m\<rparr>);
     Some s
   }"

definition print_signed :: "(u32 \<Rightarrow> u8) \<Rightarrow> u32 \<Rightarrow> u32 \<Rightarrow> 'a console_scheme \<Rightarrow> 'a console_scheme option" where
  "print_signed stray conv_buf v s = do {
     m \<leftarrow> (if sint v < 0 then itoa stray ((mem s)(conv_buf := 45)) (- v) (conv_buf + 1) 10
           else itoa stray (mem s) v conv_buf 10);
     (n, s) \<leftarrow> puts conv_buf (s\<lparr>mem := m\<rparr>);
     Some s
   }"

text \<open>The conversion at \<open>buf\<close>, the label \<open>format_char_switch\<close>. The result is the place of its last
  character, the next argument and the state.\<close>

partial_function (option) printf_conv :: "(u32 \<Rightarrow> u8) \<Rightarrow> (u8 \<Rightarrow> u32) \<Rightarrow> bool \<Rightarrow> u32 \<Rightarrow> u32 \<Rightarrow> 'a console_scheme
    \<Rightarrow> (u32 \<times> u32 \<times> 'a console_scheme) option" where
  "printf_conv stray conv alternate buf ap s =
     (if mem s buf = 37 then Some (buf, ap, putc 37 s)
      else if mem s buf = 35 then printf_conv stray conv True (buf + 1) ap s
      else if mem s buf = 120 then do { s \<leftarrow> print_hex stray (conv 120) alternate (ld32 (mem s) ap) s; Some (buf, ap + 4, s) }
      else if mem s buf = 117 then do { s \<leftarrow> print_unsigned stray (conv 117) (ld32 (mem s) ap) s; Some (buf, ap + 4, s) }
      else if mem s buf = 100 then do { s \<leftarrow> print_signed stray (conv 100) (ld32 (mem s) ap) s; Some (buf, ap + 4, s) }
      else if mem s buf = 99 then Some (buf, ap + 4, putc (ucast (ld32 (mem s) ap)) s)
      else if mem s buf = 115 then do { (n, s) \<leftarrow> puts (ld32 (mem s) ap) s; Some (buf, ap + 4, s) }
      else Some (buf, ap, s))"

partial_function (option) printf_loop :: "(u32 \<Rightarrow> u8) \<Rightarrow> (u8 \<Rightarrow> u32) \<Rightarrow> u32 \<Rightarrow> u32 \<Rightarrow> 'a console_scheme
    \<Rightarrow> (u32 \<times> 'a console_scheme) option" where
  "printf_loop stray conv buf ap s =
     (if mem s buf \<noteq> 0 then
        if mem s buf = 37 then do {
          (buf, ap, s) \<leftarrow> printf_conv stray conv False (buf + 1) ap s;
          printf_loop stray conv (buf + 1) ap s
        }
        else printf_loop stray conv (buf + 1) ap (putc (mem s buf) s)
      else Some (buf, s))"

definition printf :: "(u32 \<Rightarrow> u8) \<Rightarrow> (u8 \<Rightarrow> u32) \<Rightarrow> u32 \<Rightarrow> u32 \<Rightarrow> 'a console_scheme \<Rightarrow> (u32 \<times> 'a console_scheme) option" where
  "printf stray conv format ap s = do {
     (buf, s) \<leftarrow> printf_loop stray conv format ap s;
     Some (buf - format, s)
   }"

section \<open>The text of a format\<close>

text \<open>The numerals of the conversions.\<close>

definition numeral_text :: "nat \<Rightarrow> u32 \<Rightarrow> u8 list" where
  "numeral_text r v = map digit_char (if v = 0 then [0] else rev (lsd r (unat v)))"

definition hex8_text :: "u32 \<Rightarrow> u8 list" where
  "hex8_text v = replicate (8 - length (numeral_text 16 v)) 48 @ numeral_text 16 v"

definition signed_text :: "u32 \<Rightarrow> u8 list" where
  "signed_text v = (if sint v < 0 then 45 # numeral_text 10 (- v) else numeral_text 10 v)"

text \<open>\<open>str p\<close> is the string at \<open>p\<close>.\<close>

definition conv_text :: "(u32 \<Rightarrow> u8 list) \<Rightarrow> bool \<Rightarrow> u8 \<Rightarrow> u32 \<Rightarrow> u8 list" where
  "conv_text str alt c v =
     (if c = 120 then if alt then hex8_text v else numeral_text 16 v
      else if c = 117 then numeral_text 10 v
      else if c = 100 then signed_text v
      else if c = 99 then [ucast v] else str v)"

definition takes_arg :: "u8 \<Rightarrow> bool" where
  "takes_arg c \<longleftrightarrow> c = 120 \<or> c = 117 \<or> c = 100 \<or> c = 99 \<or> c = 115"

text \<open>\<open>None\<close>: between conversions. \<open>Some alt\<close>: behind a percent sign, with or without a hash sign. A format that
  ends behind a percent sign has no text, nor has one with too few arguments or with a string
  argument that is no string.\<close>

fun format_text :: "(u32 \<Rightarrow> u8 list option) \<Rightarrow> bool option \<Rightarrow> u8 list \<Rightarrow> u32 list \<Rightarrow> u8 list option" where
  "format_text str None [] args = Some []"
| "format_text str None (c # cs) args =
     (if c = 37 then format_text str (Some False) cs args
      else map_option ((#) c) (format_text str None cs args))"
| "format_text str (Some alt) [] args = None"
| "format_text str (Some alt) (c # cs) args =
     (if c = 35 then format_text str (Some True) cs args
      else if takes_arg c then
        (case args of [] \<Rightarrow> None
         | v # args' \<Rightarrow> if c = 115 \<and> str v = None then None
             else map_option ((@) (conv_text (the \<circ> str) alt c v)) (format_text str None cs args'))
      else map_option ((@) (if c = 37 then [37] else [])) (format_text str None cs args))"

section \<open>Printing a text\<close>

text \<open>The text \<open>xs\<close> was sent to the terminal, and no byte outside \<open>W\<close> changed.\<close>

definition printed :: "u32 set \<Rightarrow> u8 list \<Rightarrow> 'a console_scheme \<Rightarrow> 'a console_scheme \<Rightarrow> bool" where
  "printed W xs s s' \<longleftrightarrow> on_screen s' \<and> tty_of s' = fold tty_putc xs (tty_of s) \<and> (\<forall>x. x \<notin> W \<longrightarrow> mem s' x = mem s x)
     \<and> console.more s' = console.more s \<and> dev s' = dev s \<and> iflag s' = iflag s"

lemma printed_Nil: "on_screen s \<Longrightarrow> printed W [] s s"
  by (simp add: printed_def)

lemma printed_append: "printed W xs s s1 \<Longrightarrow> printed W ys s1 s2 \<Longrightarrow> printed W (xs @ ys) s s2"
  by (simp add: printed_def)

lemma printed_mono: "printed V xs s s' \<Longrightarrow> V \<subseteq> W \<Longrightarrow> printed W xs s s'"
  by (auto simp: printed_def)

lemma printed_on_screen: "printed W xs s s' \<Longrightarrow> on_screen s'"
  by (simp add: printed_def)

lemma printed_putc: "on_screen s \<Longrightarrow> c \<noteq> BACKSPACE \<Longrightarrow> printed video [c] s (putc c s)"
  by (simp add: printed_def putc_refines)

text \<open>A string laid down in a buffer \<open>b\<close> outside video memory and written with \<open>puts\<close>.\<close>

lemma puts_buffer:
  assumes s: "on_screen s" and m: "cstr m p xs" "\<And>x. x \<notin> B \<Longrightarrow> m x = mem s x"
    and B: "span p (Suc (length xs)) \<inter> video = {}" "B \<inter> video = {}" and xs: "BACKSPACE \<notin> set xs"
  shows "\<exists>n s'. puts p (s\<lparr>mem := m\<rparr>) = Some (n, s') \<and> printed (B \<union> video) xs s s'"
proof -
  have o: "on_screen (s\<lparr>mem := m\<rparr>)" using s by (simp add: on_screen_def)
  have "puts p (s\<lparr>mem := m\<rparr>) = Some (0 + of_nat (length xs), fold putc xs (s\<lparr>mem := m\<rparr>))"
    unfolding puts_def using m(1) B(1) xs by (intro puts_loop_cstr o) simp_all
  moreover have t: "tty_of (s\<lparr>mem := m\<rparr>) = tty_of s" using B(2) by (intro tty_of_mem m(2)) blast
  have "printed (B \<union> video) xs s (fold putc xs (s\<lparr>mem := m\<rparr>))"
    using fold_putc_refines [OF o xs] m(2) by (simp add: printed_def t)
  ultimately show ?thesis by blast
qed

lemma puts_string:
  assumes "on_screen s" "cstr (mem s) p xs" "span p (Suc (length xs)) \<inter> video = {}" "BACKSPACE \<notin> set xs"
  shows "\<exists>n s'. puts p s = Some (n, s') \<and> printed video xs s s'"
  using puts_buffer [of s "mem s" p xs "{}"] assms by simp

subsection \<open>Numerals\<close>

lemma length_lsd_radix: "2 \<le> r \<Longrightarrow> v < r ^ k \<Longrightarrow> length (lsd r v) \<le> k"
proof (induction k arbitrary: v)
  case 0
  then show ?case by (simp add: lsd.simps)
next
  case (Suc k)
  from Suc.prems have "v div r < r ^ k" by (simp add: less_mult_imp_div_less mult.commute)
  with Suc.IH [of "v div r"] Suc.prems show ?case by (subst lsd.simps) simp
qed

lemma numeral_text_length:
  "length (numeral_text 16 v) \<le> 8" "length (numeral_text 10 v) \<le> 10" "2 \<le> r \<Longrightarrow> numeral_text r v \<noteq> []"
proof -
  have "length (lsd 16 (unat v)) \<le> 8" "length (lsd 10 (unat v)) \<le> 10"
    using unat32_less [of v] by (auto intro!: length_lsd_radix)
  then show "length (numeral_text 16 v) \<le> 8" "length (numeral_text 10 v) \<le> 10" by (auto simp: numeral_text_def)
  show "numeral_text r v \<noteq> []" if "2 \<le> r" using that lsd_last [of r "unat v"] by (auto simp: numeral_text_def unat_gt_0)
qed

lemma digit_char_printable: "d < 36 \<Longrightarrow> digit_char d \<noteq> 0 \<and> digit_char d \<noteq> BACKSPACE"
proof -
  assume "d < 36"
  then have "unat (digit_char d) = (if d < 10 then 48 + d else 55 + d)"
    by (auto simp: digit_char_def unat_of_nat simp del: of_nat_add)
  then show ?thesis by (auto split: if_splits)
qed

lemma numeral_text_chars:
  assumes "2 \<le> r" "r \<le> 36" shows "0 \<notin> set (numeral_text r v)" "BACKSPACE \<notin> set (numeral_text r v)"
proof -
  have d: "d < 36" if "d \<in> set (if v = 0 then [0] else rev (lsd r (unat v)))" for d
    using that lsd_bound [OF assms(1), of d "unat v"] assms by (auto split: if_splits)
  show "0 \<notin> set (numeral_text r v)" "BACKSPACE \<notin> set (numeral_text r v)"
    using d digit_char_printable unfolding numeral_text_def by fastforce+
qed

lemma itoa_numeral:
  assumes "r = 10 \<or> r = 16" and "unat rw = r"
  shows "itoa stray m v b rw = Some (wrs m b (numeral_text r v @ [0]))"
    and "cstr (wrs m b (numeral_text r v @ [0])) b (numeral_text r v)"
proof -
  have r: "2 \<le> unat rw" "unat rw \<le> 36" using assms by auto
  show "itoa stray m v b rw = Some (wrs m b (numeral_text r v @ [0]))"
    using itoa_wrs [OF r, of stray m v b] assms(2) by (simp add: numeral_text_def)
  show "cstr (wrs m b (numeral_text r v @ [0])) b (numeral_text r v)"
    using assms(1) numeral_text_length(1,2) [of v] numeral_text_chars(1) [of r v] by (intro cstr_wrs_self) auto
qed

lemma cstr_replicate:
  "cstr m (p + of_nat n) xs \<Longrightarrow> c \<noteq> 0 \<Longrightarrow> (\<And>i. i < n \<Longrightarrow> m (p + of_nat i) = c) \<Longrightarrow> cstr m p (replicate n c @ xs)"
proof (induction n arbitrary: p)
  case (Suc n)
  have "cstr m (p + 1) (replicate n c @ xs)"
  proof (rule Suc.IH)
    show "m (p + 1 + of_nat i) = c" if "i < n" for i using Suc.prems(3) [of "Suc i"] that by (simp add: add.assoc)
  qed (use Suc.prems in \<open>simp_all add: add.assoc\<close>)
  then show ?case using Suc.prems(2) Suc.prems(3) [of 0] by simp
qed simp

lemma zero_fill_wrs: "n \<le> 8 \<Longrightarrow> zero_fill b (int n) m = wrs m (b + of_nat n) (replicate (8 - n) 48)"
proof (induction "8 - n" arbitrary: n m)
  case 0
  then show ?case by (simp add: zero_fill.simps)
next
  case (Suc k)
  then have n: "n < 8" "8 - n = Suc (8 - Suc n)" by simp_all
  have "zero_fill b (int n) m = zero_fill b (int (Suc n)) (m(b + of_nat n := 48))"
    using n(1) by (subst zero_fill.simps) (simp add: add.commute)
  also have "\<dots> = wrs (m(b + of_nat n := 48)) (b + of_nat (Suc n)) (replicate (8 - Suc n) 48)"
    using Suc n by (intro Suc(1)) simp_all
  finally show ?case unfolding n(2) by (simp add: add.assoc add.commute [of 1])
qed

subsection \<open>The conversions\<close>

lemma span_part: "i + k \<le> n \<Longrightarrow> span (b + of_nat i) k \<subseteq> span b n"
  using span_append [of b i k] span_mono [of "i + k" n b] by blast

lemma puts_span:
  assumes "on_screen s" "cstr m p xs" "span p (Suc (length xs)) \<subseteq> span b n" "span b n \<inter> video = {}" "BACKSPACE \<notin> set xs"
    and "\<And>x. x \<notin> span b n \<Longrightarrow> m x = mem s x"
  shows "\<exists>k s'. puts p (s\<lparr>mem := m\<rparr>) = Some (k, s') \<and> printed (span b n \<union> video) xs s s'"
  by (rule puts_buffer [OF assms(1,2,6) _ assms(4,5)]) (use assms(3,4) in blast)+

lemma wrs_outside_span: "x \<notin> span b n \<Longrightarrow> i + length bs \<le> n \<Longrightarrow> wrs m (b + of_nat i) bs x = m x"
  using span_part [of i "length bs" n b] by (intro wrs_other) blast

lemma print_numeral:
  assumes "on_screen s" and B: "span b n \<inter> video = {}" and r: "r = 10 \<or> r = 16" "unat rw = r" and n: "Suc (length (numeral_text r v)) \<le> n"
  shows "\<exists>k s'. (do { m \<leftarrow> itoa stray (mem s) v b rw; puts b (s\<lparr>mem := m\<rparr>) }) = Some (k, s') \<and>
    printed (span b n \<union> video) (numeral_text r v) s s'"
  unfolding itoa_numeral(1) [OF r] bind.bind_lunit
  by (rule puts_span [OF assms(1) itoa_numeral(2) [OF r] span_mono [OF n] B])
    (use numeral_text_chars(2) [of r v] r n wrs_outside_span [of _ b n 0] in auto)

lemma print_hex_plain:
  assumes "on_screen s" and B: "span b 64 \<inter> video = {}"
  shows "\<exists>s'. print_hex stray b False v s = Some s' \<and> printed (span b 64 \<union> video) (numeral_text 16 v) s s'"
  using print_numeral [OF assms, of 16 16 v stray] numeral_text_length(1) [of v]
  by (auto simp: print_hex_def itoa_numeral(1) [of 16 16])

lemma print_unsigned_text:
  assumes "on_screen s" and B: "span b 36 \<inter> video = {}"
  shows "\<exists>s'. print_unsigned stray b v s = Some s' \<and> printed (span b 36 \<union> video) (numeral_text 10 v) s s'"
  using print_numeral [OF assms, of 10 10 v stray] numeral_text_length(2) [of v]
  by (auto simp: print_unsigned_def itoa_numeral(1) [of 10 10])

lemma print_signed_text:
  assumes "on_screen s" and B: "span b 36 \<inter> video = {}"
  shows "\<exists>s'. print_signed stray b v s = Some s' \<and> printed (span b 36 \<union> video) (signed_text v) s s'"
proof (cases "sint v < 0")
  case False
  then show ?thesis using print_numeral [OF assms, of 10 10 v stray] numeral_text_length(2) [of v]
    by (auto simp: print_signed_def signed_text_def itoa_numeral(1) [of 10 10])
next
  case True
  let ?t = "numeral_text 10 (- v)"
  let ?m = "wrs ((mem s)(b := 45)) (b + 1) (?t @ [0])"
  have n: "Suc (Suc (length ?t)) \<le> 36" using numeral_text_length(2) [of "- v"] by simp
  have b: "b \<notin> span (b + 1) (length (?t @ [0]))" using n by (simp add: in_span_unat unsigned_minus_1_eq_mask mask_eq_exp_minus_1)
  have "cstr ?m b (45 # ?t)" using itoa_numeral(2) [of 10 10 "(mem s)(b := 45)" "b + 1" "- v"] wrs_other [OF b] by simp
  moreover have "span b (Suc (length (45 # ?t))) \<subseteq> span b 36" by (rule span_mono) (use n in simp)
  moreover have "?m x = mem s x" if "x \<notin> span b 36" for x
  proof -
    have "x \<noteq> b" using that in_spanI [of 0 36 b] by auto
    then show ?thesis using wrs_outside_span [OF that, of 1 "?t @ [0]"] n by simp
  qed
  ultimately have "\<exists>k s'. puts b (s\<lparr>mem := ?m\<rparr>) = Some (k, s') \<and> printed (span b 36 \<union> video) (45 # ?t) s s'"
    using numeral_text_chars(2) [of 10 "- v"] by (intro puts_span assms) auto
  then show ?thesis using True by (auto simp: print_signed_def signed_text_def itoa_numeral(1) [of 10 10])
qed

lemma print_hex_padded:
  assumes "on_screen s" and B: "span b 64 \<inter> video = {}"
  shows "\<exists>s'. print_hex stray b True v s = Some s' \<and> printed (span b 64 \<union> video) (hex8_text v) s s'"
proof -
  let ?t = "numeral_text 16 v"
  let ?n = "length ?t" and ?m = "wrs (mem s) (b + 8) (?t @ [0])"
  let ?m' = "wrs ?m (b + of_nat ?n) (replicate (8 - ?n) 48)"
  have n: "?n \<le> 8" by (rule numeral_text_length)
  have c: "cstr ?m (b + 8) ?t" by (rule itoa_numeral(2) [of 16 16]) simp_all
  have apart: "span (b + of_nat ?n) (8 - ?n) \<inter> span (b + 8) (Suc ?n) = {}"
  proof -
    have "b + of_nat ?n + of_nat i \<noteq> b + 8 + of_nat j" if "i < 8 - ?n" "j < Suc ?n" for i j
    proof -
      have "(of_nat (?n + i) :: u32) \<noteq> of_nat (8 + j)" using that n by (subst word_of_nat_eq_iff) auto
      then show ?thesis by (simp add: add.assoc)
    qed
    then show ?thesis by (auto simp: in_span_iff)
  qed
  have "cstr ?m' (b + 8) ?t = cstr ?m (b + 8) ?t" using apart by (intro cstr_cong wrs_other) auto
  with c have "cstr ?m' (b + of_nat ?n + of_nat (8 - ?n)) ?t" using n by (simp add: of_nat_diff)
  then have c': "cstr ?m' (b + of_nat ?n) (hex8_text v)"
    unfolding hex8_text_def by (rule cstr_replicate) (use n wrs_nth [of _ "replicate (8 - ?n) 48" ?m "b + of_nat ?n"] in auto)
  have out: "?m' x = mem s x" if "x \<notin> span b 64" for x
    using wrs_outside_span [OF that, of 8 "?t @ [0]"] wrs_outside_span [OF that, of ?n "replicate (8 - ?n) 48"] n by simp
  have len: "Suc (length (hex8_text v)) = 9" using n by (simp add: hex8_text_def)
  have sub: "span (b + of_nat ?n) (Suc (length (hex8_text v))) \<subseteq> span b 64" unfolding len by (rule span_part) (use n in simp)
  have "\<exists>k s'. puts (b + of_nat ?n) (s\<lparr>mem := ?m'\<rparr>) = Some (k, s') \<and> printed (span b 64 \<union> video) (hex8_text v) s s'"
    by (rule puts_span [OF assms(1) c' sub B]) (use numeral_text_chars(2) [of 16 v] out in \<open>auto simp: hex8_text_def\<close>)
  moreover have "zero_fill b (sint (of_nat ?n :: u32)) ?m = ?m'" using n by (simp add: sint_of_nat_less zero_fill_wrs)
  ultimately show ?thesis using strlen_cstr [OF c] by (auto simp: print_hex_def itoa_numeral(1) [of 16 16])
qed

section \<open>printf prints the text of its format\<close>

definition conv_bufs :: "(u8 \<Rightarrow> u32) \<Rightarrow> u32 set" where
  "conv_bufs conv = span (conv 120) 64 \<union> span (conv 117) 36 \<union> span (conv 100) 36"

primrec words :: "memory \<Rightarrow> u32 \<Rightarrow> u32 list \<Rightarrow> bool" where
  "words m a [] \<longleftrightarrow> True"
| "words m a (v # vs) \<longleftrightarrow> ld32 m a = v \<and> words m (a + 4) vs"

text \<open>The strings of \<open>str\<close> are in memory, out of the way of what \<open>printf\<close> writes.\<close>

definition strings_at :: "memory \<Rightarrow> u32 set \<Rightarrow> (u32 \<Rightarrow> u8 list option) \<Rightarrow> bool" where
  "strings_at m W str \<longleftrightarrow> (\<forall>p xs. str p = Some xs \<longrightarrow> cstr m p xs \<and> span p (Suc (length xs)) \<inter> W = {})"

lemma printf_conv_text:
  assumes s: "on_screen s" and W: "W = conv_bufs conv \<union> video" "conv_bufs conv \<inter> video = {}"
    and c: "mem s buf = c" "takes_arg c" and v: "ld32 (mem s) ap = v"
    and str: "c = 115 \<Longrightarrow> \<exists>xs. str v = Some xs \<and> cstr (mem s) v xs \<and> span v (Suc (length xs)) \<inter> video = {}"
    and tx: "BACKSPACE \<notin> set (conv_text (the \<circ> str) alt c v)"
  shows "\<exists>s'. printf_conv stray conv alt buf ap s = Some (buf, ap + 4, s') \<and> printed W (conv_text (the \<circ> str) alt c v) s s'"
proof -
  have b: "span (conv 120) 64 \<inter> video = {}" "span (conv 117) 36 \<inter> video = {}" "span (conv 100) 36 \<inter> video = {}"
    and sub: "span (conv 120) 64 \<union> video \<subseteq> W" "span (conv 117) 36 \<union> video \<subseteq> W" "span (conv 100) 36 \<union> video \<subseteq> W" "video \<subseteq> W"
    using W by (auto simp: conv_bufs_def)
  consider "c = 120" "alt" | "c = 120" "\<not> alt" | "c = 117" | "c = 100" | "c = 99" | "c = 115"
    using c(2) by (auto simp: takes_arg_def)
  then show ?thesis
  proof cases
    case 1
    with print_hex_padded [OF s b(1), of stray v] printed_mono [OF _ sub(1)] show ?thesis
      by (subst printf_conv.simps) (auto simp: c(1) v conv_text_def)
  next
    case 2
    with print_hex_plain [OF s b(1), of stray v] printed_mono [OF _ sub(1)] show ?thesis
      by (subst printf_conv.simps) (auto simp: c(1) v conv_text_def)
  next
    case 3
    with print_unsigned_text [OF s b(2), of stray v] printed_mono [OF _ sub(2)] show ?thesis
      by (subst printf_conv.simps) (auto simp: c(1) v conv_text_def)
  next
    case 4
    with print_signed_text [OF s b(3), of stray v] printed_mono [OF _ sub(3)] show ?thesis
      by (subst printf_conv.simps) (auto simp: c(1) v conv_text_def)
  next
    case 5
    with printed_mono [OF printed_putc [OF s] sub(4)] tx show ?thesis
      by (subst printf_conv.simps) (auto simp: c(1) v conv_text_def)
  next
    case 6
    with str obtain xs where xs: "str v = Some xs" "cstr (mem s) v xs" "span v (Suc (length xs)) \<inter> video = {}" by blast
    with 6 tx have "BACKSPACE \<notin> set xs" by (simp add: conv_text_def)
    with puts_string [OF s xs(2,3)] 6 xs(1) printed_mono [OF _ sub(4)] show ?thesis
      by (subst printf_conv.simps) (auto simp: c(1) v conv_text_def)
  qed
qed

text \<open>What remains to be done inside a format: between conversions, or behind a percent sign.\<close>

definition printf_rest :: "(u32 \<Rightarrow> u8) \<Rightarrow> (u8 \<Rightarrow> u32) \<Rightarrow> bool option \<Rightarrow> u32 \<Rightarrow> u32 \<Rightarrow> 'a console_scheme
    \<Rightarrow> (u32 \<times> 'a console_scheme) option" where
  "printf_rest stray conv md buf ap s =
     (case md of None \<Rightarrow> printf_loop stray conv buf ap s
      | Some alt \<Rightarrow> do {
          (buf, ap, s) \<leftarrow> printf_conv stray conv alt buf ap s;
          printf_loop stray conv (buf + 1) ap s
        })"

lemma printf_loop_steps:
  "mem s buf = 0 \<Longrightarrow> printf_loop stray conv buf ap s = Some (buf, s)"
  "mem s buf = 37 \<Longrightarrow> printf_loop stray conv buf ap s = printf_rest stray conv (Some False) (buf + 1) ap s"
  "mem s buf \<noteq> 0 \<Longrightarrow> mem s buf \<noteq> 37 \<Longrightarrow> printf_loop stray conv buf ap s = printf_loop stray conv (buf + 1) ap (putc (mem s buf) s)"
  by (subst printf_loop.simps; simp add: printf_rest_def)+

lemma printf_conv_steps:
  "mem s buf = 35 \<Longrightarrow> printf_conv stray conv alt buf ap s = printf_conv stray conv True (buf + 1) ap s"
  "mem s buf = 37 \<Longrightarrow> printf_conv stray conv alt buf ap s = Some (buf, ap, putc 37 s)"
  "mem s buf \<noteq> 37 \<Longrightarrow> mem s buf \<noteq> 35 \<Longrightarrow> \<not> takes_arg (mem s buf) \<Longrightarrow> printf_conv stray conv alt buf ap s = Some (buf, ap, s)"
  by (subst printf_conv.simps; simp add: takes_arg_def)+

lemma printf_rest_steps:
  "mem s buf = 0 \<Longrightarrow> printf_rest stray conv None buf ap s = Some (buf, s)"
  "mem s buf = 37 \<Longrightarrow> printf_rest stray conv None buf ap s = printf_rest stray conv (Some False) (buf + 1) ap s"
  "mem s buf \<noteq> 0 \<Longrightarrow> mem s buf \<noteq> 37 \<Longrightarrow>
     printf_rest stray conv None buf ap s = printf_rest stray conv None (buf + 1) ap (putc (mem s buf) s)"
  "mem s buf = 35 \<Longrightarrow> printf_rest stray conv (Some alt) buf ap s = printf_rest stray conv (Some True) (buf + 1) ap s"
  "mem s buf = 37 \<Longrightarrow> printf_rest stray conv (Some alt) buf ap s = printf_rest stray conv None (buf + 1) ap (putc 37 s)"
  "mem s buf \<noteq> 37 \<Longrightarrow> mem s buf \<noteq> 35 \<Longrightarrow> \<not> takes_arg (mem s buf) \<Longrightarrow>
     printf_rest stray conv (Some alt) buf ap s = printf_rest stray conv None (buf + 1) ap s"
  by (simp_all add: printf_rest_def printf_loop_steps printf_conv_steps)

lemma words_cong: "words m a vs \<Longrightarrow> (\<And>x. x \<in> span a (4 * length vs) \<Longrightarrow> m' x = m x) \<Longrightarrow> words m' a vs"
proof (induction vs arbitrary: a)
  case (Cons v vs)
  have "span a (4 * length (v # vs)) = span a 4 \<union> span (a + 4) (4 * length vs)"
    using span_append [of a 4 "4 * length vs"] by simp
  with Cons show ?case by (simp add: ld32_disjoint [of a m' m])
qed simp

text \<open>What of a format is still to be read: it and its arguments are in memory, out of the way.\<close>

definition format_in :: "memory \<Rightarrow> u32 set \<Rightarrow> (u32 \<Rightarrow> u8 list option) \<Rightarrow> u32 \<Rightarrow> u8 list \<Rightarrow> u32 \<Rightarrow> u32 list \<Rightarrow> bool" where
  "format_in m W str buf cs ap args \<longleftrightarrow> cstr m buf cs \<and> words m ap args \<and> strings_at m W str \<and>
     span buf (Suc (length cs)) \<inter> W = {} \<and> span ap (4 * length args) \<inter> W = {}"

lemma format_in_char: "format_in m W str buf (c # cs) ap args \<Longrightarrow> m buf = c \<and> c \<noteq> 0 \<and> format_in m W str (buf + 1) cs ap args"
  by (auto simp: format_in_def span_Cons [of buf])

lemma format_in_arg:
  "format_in m W str buf cs ap (v # vs) \<Longrightarrow> ld32 m ap = v \<and> format_in m W str buf cs (ap + 4) vs"
  using span_append [of ap 4 "4 * length vs"] by (auto simp: format_in_def)

lemma format_in_printed:
  assumes "format_in (mem s) W str buf cs ap args" and "printed W ys s s'"
  shows "format_in (mem s') W str buf cs ap args"
proof -
  have same: "mem s' x = mem s x" if "x \<in> S" "S \<inter> W = {}" for x S using assms(2) that by (auto simp: printed_def)
  have c: "cstr (mem s') p xs" if "cstr (mem s) p xs" "span p (Suc (length xs)) \<inter> W = {}" for p xs
    using cstr_cong [of p xs "mem s'" "mem s"] same [OF _ that(2)] that(1) by simp
  have f: "cstr (mem s) buf cs" "words (mem s) ap args" "span buf (Suc (length cs)) \<inter> W = {}" "span ap (4 * length args) \<inter> W = {}"
    and str: "strings_at (mem s) W str" using assms(1) by (simp_all add: format_in_def)
  have "strings_at (mem s') W str" using str c unfolding strings_at_def by blast
  then show ?thesis unfolding format_in_def
    using c [OF f(1,3)] words_cong [OF f(2) same [OF _ f(4)]] f(3,4) by blast
qed

lemma printf_rest_text:
  assumes W: "W = conv_bufs conv \<union> video" "conv_bufs conv \<inter> video = {}"
    and f: "format_text str md cs args = Some xs" "BACKSPACE \<notin> set xs"
    and s: "on_screen s" "format_in (mem s) W str buf cs ap args"
  shows "\<exists>s'. printf_rest stray conv md buf ap s = Some (buf + of_nat (length cs), s') \<and> printed W xs s s'"
  using f s
proof (induction str md cs args arbitrary: buf ap s xs rule: format_text.induct)
  case (1 str args)
  then show ?case by (simp add: printf_rest_steps printed_Nil format_in_def)
next
  case (2 str c cs args)
  note c = format_in_char [OF 2(6)]
  show ?case
  proof (cases "c = 37")
    case True
    with 2(1) [of xs s "buf + 1" ap] 2(3-5) c show ?thesis by (simp add: printf_rest_steps add.assoc)
  next
    case False
    with 2(3) obtain ys where ys: "format_text str None cs args = Some ys" "xs = c # ys" by auto
    have p: "printed W [c] s (putc c s)"
      using printed_mono [OF printed_putc [OF 2(5)]] 2(4) W(1) ys(2) by auto
    obtain s' where "printf_rest stray conv None (buf + 1) ap (putc c s) = Some (buf + 1 + of_nat (length cs), s')"
        "printed W ys (putc c s) s'"
      using 2(2) [OF False ys(1) _ printed_on_screen [OF p] format_in_printed [OF _ p]] c 2(4) ys(2) by auto
    then show ?thesis using printf_rest_steps(3) [of s buf] c False printed_append [OF p] ys(2) by (auto simp: add.assoc)
  qed
next
  case (3 str alt args)
  then show ?case by simp
next
  case (4 str alt c cs args)
  note c = format_in_char [OF 4(7)]
  consider "c = 35" | "c \<noteq> 35" "takes_arg c" | "c \<noteq> 35" "\<not> takes_arg c" by blast
  then show ?case
  proof cases
    case 1
    with 4(1) [of xs s "buf + 1" ap] 4(4-6) c show ?thesis by (simp add: printf_rest_steps add.assoc)
  next
    case 2
    with 4(4) obtain v vs where v: "args = v # vs" "\<not> (c = 115 \<and> str v = None)" by (cases args) (auto split: if_splits)
    with 2 4(4) obtain ys where ys: "format_text str None cs vs = Some ys" "xs = conv_text (the \<circ> str) alt c v @ ys"
      by auto
    have a: "ld32 (mem s) ap = v" and rest: "format_in (mem s) W str (buf + 1) cs (ap + 4) vs"
      using format_in_arg [of "mem s" W str "buf + 1" cs ap v vs] c v(1) by auto
    have "\<exists>zs. str v = Some zs \<and> cstr (mem s) v zs \<and> span v (Suc (length zs)) \<inter> video = {}" if "c = 115"
      using that v(2) 4(7) W(1) by (auto simp: format_in_def strings_at_def)
    then obtain s1 where s1: "printf_conv stray conv alt buf ap s = Some (buf, ap + 4, s1)"
        "printed W (conv_text (the \<circ> str) alt c v) s s1"
      using printf_conv_text [OF 4(6) W _ 2(2) a, of buf str alt stray] c 4(5) ys(2) by auto
    obtain s' where "printf_rest stray conv None (buf + 1) (ap + 4) s1 = Some (buf + 1 + of_nat (length cs), s')" "printed W ys s1 s'"
      using 4(2) [OF 2 v ys(1) _ printed_on_screen [OF s1(2)] format_in_printed [OF rest s1(2)]] 4(5) ys(2) by auto
    then show ?thesis using printed_append [OF s1(2)] s1(1) ys(2) by (auto simp: printf_rest_def add.assoc)
  next
    case 3
    with 4(4) obtain ys where ys: "format_text str None cs args = Some ys" "xs = (if c = 37 then [37] else []) @ ys" by auto
    define s1 where "s1 = (if c = 37 then putc 37 s else s)"
    have p: "printed W (if c = 37 then [37] else []) s s1"
      using printed_mono [OF printed_putc [OF 4(6)]] W(1) 4(6) by (auto simp: s1_def printed_Nil)
    obtain s' where "printf_rest stray conv None (buf + 1) ap s1 = Some (buf + 1 + of_nat (length cs), s')" "printed W ys s1 s'"
      using 4(3) [OF 3 ys(1) _ printed_on_screen [OF p] format_in_printed [OF _ p]] c 4(5) ys(2) by auto
    then show ?thesis using printf_rest_steps(5,6) [of s buf] c 3 printed_append [OF p] ys(2)
      by (cases "c = 37") (auto simp: s1_def add.assoc)
  qed
qed

section \<open>Properties\<close>

text \<open>C30: \<open>printf\<close> sends to the terminal the text its format stands for (plain characters, percent
  signs, numerals in hexadecimal, eight-digit hexadecimal, unsigned and signed decimal, characters and
  strings, with one argument word consumed by each conversion that takes one), returns the length of
  the format and changes no byte but video memory and its own buffers.\<close>

theorem printf_prints_format:
  assumes "conv_bufs conv \<inter> video = {}" and "on_screen s"
    and "format_in (mem s) (conv_bufs conv \<union> video) str format cs ap args"
    and "format_text str None cs args = Some xs" and "BACKSPACE \<notin> set xs"
  shows "\<exists>s'. printf stray conv format ap s = Some (of_nat (length cs), s') \<and> on_screen s' \<and>
     tty_of s' = fold tty_putc xs (tty_of s) \<and> (\<forall>x. x \<notin> conv_bufs conv \<union> video \<longrightarrow> mem s' x = mem s x)"
proof -
  obtain s' where "printf_rest stray conv None format ap s = Some (format + of_nat (length cs), s')"
      "printed (conv_bufs conv \<union> video) xs s s'"
    using printf_rest_text [OF refl assms(1,4,5,2,3), of stray] by blast
  then show ?thesis by (auto simp: printf_def printf_rest_def printed_def)
qed

definition demo_printf :: console where
  "demo_printf = demo_console\<lparr>mem := wrs (wrs (\<lambda>_. 0) 0x1000 [37, 35, 120, 33]) 0x2000 [14], screen_x := 0, screen_y := 0\<rparr>"

theorem printf_prints_format_witness:
  "\<exists>s'. printf (\<lambda>_. 0) (\<lambda>_. 0x3000) 0x1000 0x2000 demo_printf = Some (4, s') \<and>
     tty_of s' = fold tty_putc [48, 48, 48, 48, 48, 48, 48, 69, 33] (tty_of demo_printf)"
proof -
  let ?W = "conv_bufs (\<lambda>_. 0x3000) \<union> video"
  have d: "span a n \<inter> video = {}" "span a n \<inter> conv_bufs (\<lambda>_. 0x3000) = {}" if "unat a + n \<le> 0x3000" for a n
    using that span_disjoint_below [of a n "0x3000" 64] span_disjoint_below [of a n "0x3000" 36] span_disjoint_below [of a n VIDEO 4000]
    unfolding conv_bufs_def by (simp_all add: Int_Un_distrib)
  have W: "conv_bufs (\<lambda>_. 0x3000) \<inter> video = {}"
    using span_disjoint_below [of "0x3000" 64 VIDEO 4000] span_disjoint_below [of "0x3000" 36 VIDEO 4000]
    unfolding conv_bufs_def by (simp add: Int_Un_distrib2)
  have f: "format_in (mem demo_printf) ?W (\<lambda>_. None) 0x1000 [37, 35, 120, 33] 0x2000 [14]"
    using d [of "0x1000" "Suc (Suc (Suc (Suc (Suc 0))))"] d [of "0x2000" 4]
    by (simp add: format_in_def strings_at_def demo_printf_def ld32_def Int_Un_distrib)
  have t: "hex8_text 14 = [48, 48, 48, 48, 48, 48, 48, 69]"
  proof -
    have "numeral_text 16 14 = [69]" by (simp add: numeral_text_def lsd.simps [of 16 14] lsd.simps [of 16 0] digit_char_def)
    then show ?thesis by (simp add: hex8_text_def eval_nat_numeral)
  qed
  have "format_text (\<lambda>_. None) None [37, 35, 120, 33] [14] = Some [48, 48, 48, 48, 48, 48, 48, 69, 33]"
    by (simp add: takes_arg_def conv_text_def t)
  from printf_prints_format [OF W _ f this, of "\<lambda>_. 0"] show ?thesis
    by (auto simp: on_screen_def demo_printf_def)
qed

text \<open>A format that ends in a percent sign: \<open>printf\<close> steps over the terminating zero and goes on with
  whatever bytes follow the format.\<close>

lemma printf_percent_at_end:
  assumes "mem s format = 37" and "mem s (format + 1) = 0"
  shows "printf_loop stray conv format ap s = printf_loop stray conv (format + 2) ap s"
  using assms printf_conv_steps(3) [of s "format + 1"]
  by (simp add: printf_loop_steps(2) printf_rest_def takes_arg_def add.assoc)

end
