(* ===== verification/Exceptions.thy ===== *)
theory Exceptions
  imports Printf Idt
begin

text \<open>
  The exception handler \<open>handle_exception\<close> of \<open>idt.c\<close> and what the assembly entry points of
  \<open>interrupt.S\<close> do with an interrupt. The literals a function prints are where the linker put them:
  \<open>literal t\<close> is the address of \<open>t\<close>. The arguments of a call of \<open>printf\<close> are stored on the stack before
  the call, at \<open>args_at\<close>.
\<close>

section \<open>Definitions\<close>

record printer =
  itoa_stray :: "u32 \<Rightarrow> u8"
  conv_buf :: "u8 \<Rightarrow> u32"
  literal :: "string \<Rightarrow> u32"
  args_at :: u32

primrec push_args :: "u32 \<Rightarrow> u32 list \<Rightarrow> memory \<Rightarrow> memory" where
  "push_args a [] m = m"
| "push_args a (v # vs) m = push_args (a + 4) vs (st32 m a v)"

text \<open>A call of \<open>printf\<close> with a literal format.\<close>

definition print_lit :: "printer \<Rightarrow> string \<Rightarrow> u32 list \<Rightarrow> 'a console_scheme \<Rightarrow> 'a console_scheme option" where
  "print_lit pr t args s =
     map_option snd (printf (itoa_stray pr) (conv_buf pr) (literal pr t) (args_at pr)
       (s\<lparr>mem := push_args (args_at pr) args (mem s)\<rparr>))"

text \<open>\<open>handle_exception\<close> ends in \<open>while (1);\<close>. Its value is the state in which it stays there for
  ever. \<open>cr2\<close> is the register the page fault case reads.\<close>

datatype 's endless = Endless 's

definition handle_exception :: "printer \<Rightarrow> u32 \<Rightarrow> u32 \<Rightarrow> 'a console_scheme \<Rightarrow> 'a console_scheme endless option" where
  "handle_exception pr cr2 int_vector s = map_option Endless
     (if int_vector = 0 then do {
        s \<leftarrow> print_lit pr (''[EXCEPTION] Division Error'' @ nl) [] s;
        print_lit pr (''[EXCEPTION] Debug Exception'' @ nl) [] s
      }
      else if int_vector = 1 then print_lit pr (''[EXCEPTION] Debug Exception'' @ nl) [] s
      else if int_vector = 2 then print_lit pr (''[EXCEPTION] Non-maskable Interrupt'' @ nl) [] s
      else if int_vector = 3 then print_lit pr (''[EXCEPTION] Breakpoint Exception'' @ nl) [] s
      else if int_vector = 4 then print_lit pr (''[EXCEPTION] Overflow Exception'' @ nl) [] s
      else if int_vector = 5 then print_lit pr (''[EXCEPTION] Bound Range Exceeded'' @ nl) [] s
      else if int_vector = 6 then print_lit pr (''[EXCEPTION] Invalid Opcode'' @ nl) [] s
      else if int_vector = 7 then print_lit pr (''[EXCEPTION] Device not available'' @ nl) [] s
      else if int_vector = 8 then print_lit pr (''[EXCEPTION] Double Fault'' @ nl) [] s
      else if int_vector = 9 then print_lit pr (''[EXCEPTION] Coprocessor Segment Overrun'' @ nl) [] s
      else if int_vector = 10 then print_lit pr (''[EXCEPTION] Invalid TSS'' @ nl) [] s
      else if int_vector = 11 then print_lit pr (''[EXCEPTION] Segment not present'' @ nl) [] s
      else if int_vector = 12 then print_lit pr (''[EXCEPTION] Stack Fault Error'' @ nl) [] s
      else if int_vector = 13 then print_lit pr (''[EXCEPTION] General Protection Error'' @ nl) [] s
      else if int_vector = 14 then print_lit pr (''Page fault occur at %#x'' @ nl) [cr2] s
      else if int_vector = 16 then print_lit pr (''[EXCEPTION] Floating Point Error'' @ nl) [] s
      else if int_vector = 17 then print_lit pr (''[EXCEPTION] Alignment Check Error'' @ nl) [] s
      else if int_vector = 18 then print_lit pr (''[EXCEPTION] Machine-Check Error'' @ nl) [] s
      else if int_vector = 19 then print_lit pr (''[EXCEPTION] SIMD Floating point'' @ nl) [] s
      else print_lit pr (''[EXCEPTION] Unknown Interrupt %d'' @ nl) [int_vector] s)"

text \<open>What an entry point calls: \<open>handle_exception\<close> with the vector it pushes, or a handler of its own.\<close>

datatype entry_call = Call_exception u32 | Call_keyboard | Call_rtc | Call_pit | Call_syscall

definition entry_call :: "isr \<Rightarrow> entry_call" where
  "entry_call i = (case i of
     handle_SIG_DE \<Rightarrow> Call_exception 0 | handle_SIG_DB \<Rightarrow> Call_exception 1 | handle_SIG_NMI \<Rightarrow> Call_exception 2
   | handle_SIG_BP \<Rightarrow> Call_exception 3 | handle_SIG_OF \<Rightarrow> Call_exception 4 | handle_SIG_BR \<Rightarrow> Call_exception 5
   | handle_SIG_UD \<Rightarrow> Call_exception 6 | handle_SIG_NM \<Rightarrow> Call_exception 7 | handle_SIG_DF \<Rightarrow> Call_exception 8
   | handle_SIG_SO \<Rightarrow> Call_exception 9 | handle_SIG_TS \<Rightarrow> Call_exception 10 | handle_SIG_NP \<Rightarrow> Call_exception 11
   | handle_SIG_SS \<Rightarrow> Call_exception 12 | handle_SIG_GP \<Rightarrow> Call_exception 13 | handle_SIG_PF \<Rightarrow> Call_exception 14
   | handle_SIG_MF \<Rightarrow> Call_exception 16 | handle_SIG_AC \<Rightarrow> Call_exception 17 | handle_SIG_MC \<Rightarrow> Call_exception 18
   | handle_SIG_XF \<Rightarrow> Call_exception 19 | handle_SIG_IDK \<Rightarrow> Call_exception 255
   | handle_SIG_KBD \<Rightarrow> Call_keyboard | handle_SIG_RTC \<Rightarrow> Call_rtc | handle_SIG_PIT \<Rightarrow> Call_pit
   | handle_SIG_SYSCALL \<Rightarrow> Call_syscall)"

section \<open>Printing a literal\<close>

text \<open>What a printer may write: video memory, the conversion buffers and its arguments on the stack.\<close>

definition print_area :: "printer \<Rightarrow> u32 set" where
  "print_area pr = conv_bufs (conv_buf pr) \<union> video \<union> span (args_at pr) 24"

text \<open>The parts of the area lie apart, and the literals \<open>ts\<close> are in memory outside it.\<close>

definition printer_ok :: "printer \<Rightarrow> memory \<Rightarrow> string set \<Rightarrow> bool" where
  "printer_ok pr m ts \<longleftrightarrow> conv_bufs (conv_buf pr) \<inter> video = {} \<and>
     span (args_at pr) 24 \<inter> (conv_bufs (conv_buf pr) \<union> video) = {} \<and>
     (\<forall>t \<in> ts. cstr m (literal pr t) (chars t) \<and> span (literal pr t) (Suc (length t)) \<inter> print_area pr = {})"

lemma printer_ok_printed: "printer_ok pr (mem s) ts \<Longrightarrow> printed (print_area pr) xs s s' \<Longrightarrow> printer_ok pr (mem s') ts"
proof -
  assume ok: "printer_ok pr (mem s) ts" and p: "printed (print_area pr) xs s s'"
  have "cstr (mem s') (literal pr t) (chars t)" if "t \<in> ts" for t
  proof -
    from ok that have t: "cstr (mem s) (literal pr t) (chars t)" "span (literal pr t) (Suc (length t)) \<inter> print_area pr = {}"
      by (auto simp: printer_ok_def)
    then have "mem s' x = mem s x" if "x \<in> span (literal pr t) (Suc (length (chars t)))" for x
      using that p by (auto simp: printed_def chars_def)
    from cstr_cong [OF this] t(1) show ?thesis by simp
  qed
  with ok show ?thesis by (simp add: printer_ok_def)
qed

lemma push_args_other: "x \<notin> span a (4 * length vs) \<Longrightarrow> push_args a vs m x = m x"
proof (induction vs arbitrary: a m)
  case (Cons v vs)
  have "span a (4 * length (v # vs)) = span a 4 \<union> span (a + 4) (4 * length vs)"
    using span_append [of a 4 "4 * length vs"] by simp
  with Cons show ?case by (simp add: st32_other)
qed simp

lemma words_push_args: "length vs \<le> 6 \<Longrightarrow> words (push_args a vs m) a vs"
proof (induction vs arbitrary: a m)
  case (Cons v vs)
  have "x \<notin> span (a + 4) (4 * length vs)" if "x \<in> span a 4" for x
  proof -
    have "span a 4 \<inter> span (a + of_nat 4) (4 * length vs) = {}"
        by (rule span_consecutive) (use Cons.prems in simp)
    then show ?thesis using that by auto
  qed
  then have "ld32 (push_args (a + 4) vs (st32 m a v)) a = ld32 (st32 m a v) a"
    by (intro ld32_disjoint push_args_other) blast
  then show ?case using Cons by simp
qed simp

lemma print_lit_text:
  assumes pr: "printer_ok pr (mem s) ts" "t \<in> ts" and s: "on_screen s" and n: "length args \<le> 6"
    and x: "format_text str None (chars t) args = Some xs" "BACKSPACE \<notin> set xs"
    and str: "strings_at (mem s) (print_area pr) str"
  shows "\<exists>s'. print_lit pr t args s = Some s' \<and> printed (print_area pr) xs s s'"
proof -
  let ?W = "conv_bufs (conv_buf pr) \<union> video" and ?A = "span (args_at pr) (4 * length args)"
  let ?s = "s\<lparr>mem := push_args (args_at pr) args (mem s)\<rparr>"
  have A: "?A \<subseteq> span (args_at pr) 24" by (rule span_mono) (use n in simp)
  have W: "conv_bufs (conv_buf pr) \<inter> video = {}" "?A \<inter> ?W = {}" "?A \<inter> video = {}" "?W \<subseteq> print_area pr" "?A \<subseteq> print_area pr"
    using pr(1) A by (auto simp: printer_ok_def print_area_def)
  have same: "mem ?s x = mem s x" if "x \<notin> print_area pr" for x using W(5) that by (auto intro!: push_args_other)
  have keep: "cstr (mem ?s) p ys \<and> span p (Suc (length ys)) \<inter> ?W = {}"
    if "cstr (mem s) p ys" "span p (Suc (length ys)) \<inter> print_area pr = {}" for p ys
    using that W(4) same cstr_cong [of p ys "mem ?s" "mem s"] by blast
  have lit: "cstr (mem ?s) (literal pr t) (chars t) \<and> span (literal pr t) (Suc (length (chars t))) \<inter> ?W = {}"
    by (rule keep) (use pr in \<open>auto simp: printer_ok_def chars_def\<close>)
  have "strings_at (mem ?s) ?W str" using str keep unfolding strings_at_def by blast
  then have "format_in (mem ?s) ?W str (literal pr t) (chars t) (args_at pr) args"
    using lit W(2) words_push_args [OF n] by (simp add: format_in_def)
  then obtain s' where s': "printf_rest (itoa_stray pr) (conv_buf pr) None (literal pr t) (args_at pr) ?s
      = Some (literal pr t + of_nat (length (chars t)), s')" "printed ?W xs ?s s'"
    using printf_rest_text [OF refl W(1) x, where s = ?s and stray = "itoa_stray pr" and buf = "literal pr t" and ap = "args_at pr"] s
    by (auto simp: on_screen_def)
  have "tty_of ?s = tty_of s" using W(3) by (intro tty_of_mem push_args_other) blast
  then have "printed (print_area pr) xs s s'" using s'(2) W(4) same by (auto simp: printed_def)
  then show ?thesis using s'(1) by (auto simp: print_lit_def printf_def printf_rest_def)
qed

section \<open>The messages\<close>

definition exception_table :: "(u32 \<times> string) list" where
  "exception_table = [(0, ''[EXCEPTION] Division Error'' @ nl), (1, ''[EXCEPTION] Debug Exception'' @ nl),
     (2, ''[EXCEPTION] Non-maskable Interrupt'' @ nl), (3, ''[EXCEPTION] Breakpoint Exception'' @ nl),
     (4, ''[EXCEPTION] Overflow Exception'' @ nl), (5, ''[EXCEPTION] Bound Range Exceeded'' @ nl),
     (6, ''[EXCEPTION] Invalid Opcode'' @ nl), (7, ''[EXCEPTION] Device not available'' @ nl),
     (8, ''[EXCEPTION] Double Fault'' @ nl), (9, ''[EXCEPTION] Coprocessor Segment Overrun'' @ nl),
     (10, ''[EXCEPTION] Invalid TSS'' @ nl), (11, ''[EXCEPTION] Segment not present'' @ nl),
     (12, ''[EXCEPTION] Stack Fault Error'' @ nl), (13, ''[EXCEPTION] General Protection Error'' @ nl),
     (16, ''[EXCEPTION] Floating Point Error'' @ nl), (17, ''[EXCEPTION] Alignment Check Error'' @ nl),
     (18, ''[EXCEPTION] Machine-Check Error'' @ nl), (19, ''[EXCEPTION] SIMD Floating point'' @ nl)]"

definition exception_message :: "u32 \<Rightarrow> string" where
  "exception_message v = (if v = 14 then ''Page fault occur at %#x'' @ nl
     else case map_of exception_table v of Some t \<Rightarrow> t | None \<Rightarrow> ''[EXCEPTION] Unknown Interrupt %d'' @ nl)"

definition exception_args :: "u32 \<Rightarrow> u32 \<Rightarrow> u32 list" where
  "exception_args cr2 v = (if v = 14 then [cr2] else case map_of exception_table v of Some t \<Rightarrow> [] | None \<Rightarrow> [v])"

lemma handle_exception_table:
  "handle_exception pr cr2 v s = map_option Endless
     (do { s \<leftarrow> print_lit pr (exception_message v) (exception_args cr2 v) s;
           if v = 0 then print_lit pr (exception_message 1) (exception_args cr2 1) s else Some s })"
proof -
  have "v \<in> fst ` set exception_table \<or> v = 14 \<or> map_of exception_table v = None \<and> v \<noteq> 14"
    unfolding map_of_eq_None_iff by blast
  then show ?thesis
    by (elim disjE conjE)
      (auto simp: handle_exception_def exception_message_def exception_args_def exception_table_def split: if_splits)
qed

lemma format_text_plain:
  "37 \<notin> set cs \<Longrightarrow> format_text str None (cs @ ds) args = map_option ((@) cs) (format_text str None ds args)"
  by (induction cs; cases "format_text str None ds args") auto

lemma chars_nl: "chars nl = [10]"
  by (simp add: chars_def nl_def)

definition plain :: "string \<Rightarrow> bool" where
  "plain t \<longleftrightarrow> 37 \<notin> set (chars t) \<and> BACKSPACE \<notin> set (chars t)"

lemma plain_append: "plain (xs @ ys) \<longleftrightarrow> plain xs \<and> plain ys"
  by (auto simp: plain_def chars_append)

lemma plain_nl: "plain nl"
  by (simp add: plain_def chars_nl)

lemma plain_table: "(v, t) \<in> set exception_table \<Longrightarrow> plain t"
  by (auto simp: exception_table_def plain_def chars_def nl_def)

text \<open>The text of an exception: its message, and for the divide error the one of the debug exception as
  well.\<close>

definition exception_text :: "u32 \<Rightarrow> u32 \<Rightarrow> u8 list" where
  "exception_text cr2 v =
     (if v = 14 then chars ''Page fault occur at '' @ hex8_text cr2 @ [10]
      else case map_of exception_table v of Some t \<Rightarrow> chars t @ (if v = 0 then chars (exception_message 1) else [])
      | None \<Rightarrow> chars ''[EXCEPTION] Unknown Interrupt '' @ signed_text v @ [10])"

lemma exception_message_text:
  "\<exists>xs. format_text (\<lambda>_. None) None (chars (exception_message v)) (exception_args cr2 v) = Some xs
     \<and> BACKSPACE \<notin> set xs \<and> exception_text cr2 v = xs @ (if v = 0 then chars (exception_message 1) else [])"
proof -
  consider "v = 14" | t where "v \<noteq> 14" "map_of exception_table v = Some t" | "v \<noteq> 14" "map_of exception_table v = None"
    by fastforce
  then show ?thesis
  proof cases
    case 1
    have "plain ''Page fault occur at ''" by (simp add: plain_def chars_def)
    moreover have "exception_message v = ''Page fault occur at '' @ ''%#x'' @ nl" using 1 by (simp add: exception_message_def)
    moreover have "BACKSPACE \<notin> set (hex8_text cr2)" using numeral_text_chars(2) [of 16 cr2] by (auto simp: hex8_text_def)
    ultimately show ?thesis using 1 format_text_plain [of "chars ''Page fault occur at ''" "\<lambda>_. None" "chars (''%#x'' @ nl)" "[cr2]"]
      by (simp add: exception_args_def exception_text_def chars_append plain_def)
        (simp add: chars_def nl_def takes_arg_def conv_text_def)
  next
    case 2
    then have "plain t" using plain_table map_of_SomeD by metis
    moreover have "v = 0 \<Longrightarrow> v \<noteq> 14" by simp
    ultimately show ?thesis using 2 format_text_plain [of "chars t" "\<lambda>_. None" "[]" "[]"]
      by (auto simp: exception_message_def exception_args_def exception_text_def plain_def)
  next
    case 3
    have "plain ''[EXCEPTION] Unknown Interrupt ''" by (simp add: plain_def chars_def)
    moreover have "exception_message v = ''[EXCEPTION] Unknown Interrupt '' @ ''%d'' @ nl" using 3 by (simp add: exception_message_def)
    moreover have "BACKSPACE \<notin> set (signed_text v)" using numeral_text_chars(2) [of 10] by (auto simp: signed_text_def)
    moreover have "v \<noteq> 0" using 3 by (auto simp: exception_table_def)
    ultimately show ?thesis using 3 format_text_plain [of "chars ''[EXCEPTION] Unknown Interrupt ''" "\<lambda>_. None" "chars (''%d'' @ nl)" "[v]"]
      by (simp add: exception_args_def exception_text_def chars_append plain_def)
        (simp add: chars_def nl_def takes_arg_def conv_text_def)
  qed
qed

section \<open>Properties\<close>

text \<open>C40: Every exception is reported and ends the kernel. Whatever the vector, \<open>handle_exception\<close>
  prints the message of the exception (the faulting address in eight hexadecimal digits for a page
  fault, the number of an unknown interrupt), and the debug message too for a divide error, whose case
  has no \<open>break\<close>; then it stays in its endless loop. Outside video memory and the printer's own buffers
  nothing changed: the program that caused the exception is not ended.\<close>

theorem handle_exception_reports:
  assumes "printer_ok pr (mem s) (if v = 0 then {exception_message 0, exception_message 1} else {exception_message v})"
    and "on_screen s"
  shows "\<exists>s'. handle_exception pr cr2 v s = Some (Endless s') \<and> tty_of s' = fold tty_putc (exception_text cr2 v) (tty_of s)
     \<and> (\<forall>x. x \<notin> print_area pr \<longrightarrow> mem s' x = mem s x) \<and> console.more s' = console.more s"
proof -
  let ?ts = "if v = 0 then {exception_message 0, exception_message 1} else {exception_message v}"
  have str: "strings_at m W (\<lambda>_. None)" for m W by (simp add: strings_at_def)
  have len: "length (exception_args cr2 v) \<le> 6" for v by (auto simp: exception_args_def split: option.split)
  obtain xs where xs: "format_text (\<lambda>_. None) None (chars (exception_message v)) (exception_args cr2 v) = Some xs"
      "BACKSPACE \<notin> set xs" "exception_text cr2 v = xs @ (if v = 0 then chars (exception_message 1) else [])"
    using exception_message_text by blast
  obtain s1 where s1: "print_lit pr (exception_message v) (exception_args cr2 v) s = Some s1" "printed (print_area pr) xs s s1"
  proof -
    have "exception_message v \<in> ?ts" by simp
    from print_lit_text [OF assms(1) this assms(2) len xs(1,2) str] that show ?thesis by blast
  qed
  have "\<exists>s'. (if v = 0 then print_lit pr (exception_message 1) (exception_args cr2 1) s1 else Some s1) = Some s' \<and>
      printed (print_area pr) (exception_text cr2 v) s s'"
  proof (cases "v = 0")
    case True
    have "exception_text cr2 1 = chars (exception_message 1)" by (simp add: exception_text_def exception_message_def exception_table_def)
    then obtain ys where ys: "format_text (\<lambda>_. None) None (chars (exception_message 1)) (exception_args cr2 1) = Some ys"
        "BACKSPACE \<notin> set ys" "ys = chars (exception_message 1)"
      using exception_message_text [of 1 cr2] by auto
    show ?thesis
      using print_lit_text [OF printer_ok_printed [OF assms(1) s1(2)] _ printed_on_screen [OF s1(2)] len ys(1,2) str]
        printed_append [OF s1(2)] True xs(3) ys(3) by auto
  qed (use s1(2) xs(3) in simp)
  then show ?thesis using s1(1) by (auto simp: handle_exception_table printed_def)
qed

definition demo_printer :: printer where
  "demo_printer = \<lparr>itoa_stray = (\<lambda>_. 0), conv_buf = (\<lambda>_. 0x3000), literal = (\<lambda>_. 0x1000), args_at = 0x2000\<rparr>"

lemma demo_printer_apart:
  assumes "n \<le> 100"
  shows "span 0x1000 n \<inter> print_area demo_printer = {}" "span 0x2000 24 \<inter> (conv_bufs (\<lambda>_. 0x3000) \<union> video) = {}"
    "conv_bufs (\<lambda>_. 0x3000) \<inter> video = {}"
    using assms span_disjoint_below [of "0x1000" n "0x3000" 64] span_disjoint_below [of "0x1000" n "0x3000" 36]
      span_disjoint_below [of "0x1000" n VIDEO 4000] span_disjoint_below [of "0x1000" n "0x2000" 24]
      span_disjoint_below [of "0x2000" 24 "0x3000" 64] span_disjoint_below [of "0x2000" 24 "0x3000" 36]
      span_disjoint_below [of "0x2000" 24 VIDEO 4000] span_disjoint_below [of "0x3000" 64 VIDEO 4000]
      span_disjoint_below [of "0x3000" 36 VIDEO 4000]
    unfolding print_area_def conv_bufs_def by (simp_all add: Int_Un_distrib Int_Un_distrib2 demo_printer_def)

definition demo_exception :: console where
  "demo_exception = demo_console\<lparr>mem := wrs (\<lambda>_. 0) 0x1000 (chars (exception_message 13) @ [0])\<rparr>"

theorem handle_exception_reports_witness:
  "\<exists>s'. handle_exception demo_printer 0 13 demo_exception = Some (Endless s') \<and>
     tty_of s' = fold tty_putc (chars (''[EXCEPTION] General Protection Error'' @ nl)) (tty_of demo_exception)"
proof -
  have m: "exception_message 13 = ''[EXCEPTION] General Protection Error'' @ nl"
    by (simp add: exception_message_def exception_table_def)
  have "plain (exception_message 13)" "length (exception_message 13) = 37"
    "0 \<notin> set (chars (exception_message 13))" by (simp_all add: m plain_def chars_def nl_def)
  have c: "cstr (mem demo_exception) 0x1000 (chars (exception_message 13))"
    unfolding demo_exception_def by (simp, rule cstr_wrs_self) (simp_all add: m chars_def nl_def)
  have "printer_ok demo_printer (mem demo_exception) {exception_message 13}"
    using c demo_printer_apart [of 38] \<open>length (exception_message 13) = 37\<close> by (simp add: printer_ok_def demo_printer_def)
  moreover have "on_screen demo_exception" by (simp add: on_screen_def demo_exception_def demo_console_def)
  ultimately obtain s' where "handle_exception demo_printer 0 13 demo_exception = Some (Endless s')"
      "tty_of s' = fold tty_putc (exception_text 0 13) (tty_of demo_exception)"
    using handle_exception_reports [of demo_printer demo_exception 13 0] by auto
  moreover have "exception_text 0 13 = chars (exception_message 13)"
    by (simp add: exception_text_def exception_message_def exception_table_def)
  ultimately show ?thesis by (simp only: m) blast
qed

text \<open>Interrupts reach the right code. Through the gates \<open>init_idt\<close> sets up and the entry points of
  \<open>interrupt.S\<close>, each exception vector calls \<open>handle_exception\<close> with its own number, vectors 32, 33 and
  40 the timer, keyboard and clock handlers, vector 128 the system calls, and every other vector
  \<open>handle_exception\<close> with 255.\<close>

theorem interrupts_dispatch:
  "\<exists>i. map_option target (gate (idt_table (init_idt addr_of s) n)) = Some (addr_of i) \<and>
     entry_call i = (if n = 128 then Call_syscall else if n = 32 then Call_pit else if n = 33 then Call_keyboard
       else if n = 40 then Call_rtc else if n \<le> 19 \<and> n \<noteq> 15 then Call_exception (ucast n) else Call_exception 255)"
proof (rule exI [of _ "isr_of n"], rule conjI)
  show "map_option target (gate (idt_table (init_idt addr_of s) n)) = Some (addr_of (isr_of n))"
    by (simp add: init_idt_gate_of)
  show "entry_call (isr_of n) = (if n = 128 then Call_syscall else if n = 32 then Call_pit else if n = 33 then Call_keyboard
       else if n = 40 then Call_rtc else if n \<le> 19 \<and> n \<noteq> 15 then Call_exception (ucast n) else Call_exception 255)"
  proof (cases "n \<le> 19")
    case True
    have "n \<in> {0, 1, 2, 3, 4, 5, 6, 7, 8, 9, 10, 11, 12, 13, 14, 15, 16, 17, 18, 19}"
      using vector_cases [OF True] by (simp add: upt_rec)
    then show ?thesis by (elim insertE emptyE) (simp_all add: isr_of_def entry_call_def)
  qed (auto simp: isr_of_def entry_call_def not_le)
qed

end
