(* ===== verification/Boot.thy ===== *)
theory Boot
  imports Exceptions Terminals
begin

text \<open>
  The start of the kernel: \<open>entry\<close> of \<open>kernel.c\<close> with the multiboot structures of \<open>multiboot.h\<close>, read from
  memory, and the segment descriptors of \<open>x86_desc.h\<close> it fills in. The devices are initialised by the
  functions of the other theories in the order of the code, and the first shell is started.
\<close>

section \<open>Definitions\<close>

subsection \<open>Segment descriptors\<close>

record seg_desc_t =
  seg_lim_15_00 :: u16
  base_15_00 :: u16
  base_23_16 :: u8
  seg_type :: "4 word"
  seg_sys :: "1 word"
  seg_dpl :: "2 word"
  seg_present :: "1 word"
  seg_lim_19_16 :: "4 word"
  avail :: "1 word"
  reserved :: "1 word"
  opsize :: "1 word"
  granularity :: "1 word"
  base_31_24 :: u8

definition SET_LDT_PARAMS :: "u32 \<Rightarrow> u32 \<Rightarrow> seg_desc_t \<Rightarrow> seg_desc_t" where
  "SET_LDT_PARAMS addr lim d =
     d\<lparr>base_31_24 := ucast (drop_bit 24 (addr AND 0xFF000000)),
       base_23_16 := ucast (drop_bit 16 (addr AND 0x00FF0000)),
       base_15_00 := ucast (addr AND 0x0000FFFF),
       seg_lim_19_16 := ucast (drop_bit 16 (lim AND 0x000F0000)),
       seg_lim_15_00 := ucast (lim AND 0x0000FFFF)\<rparr>"

definition SET_TSS_PARAMS :: "u32 \<Rightarrow> u32 \<Rightarrow> seg_desc_t \<Rightarrow> seg_desc_t" where
  "SET_TSS_PARAMS addr lim d =
     d\<lparr>base_31_24 := ucast (drop_bit 24 (addr AND 0xFF000000)),
       base_23_16 := ucast (drop_bit 16 (addr AND 0x00FF0000)),
       base_15_00 := ucast (addr AND 0x0000FFFF),
       seg_lim_19_16 := ucast (drop_bit 16 (lim AND 0x000F0000)),
       seg_lim_15_00 := ucast (lim AND 0x0000FFFF)\<rparr>"

abbreviation TSS_SIZE :: u32 where "TSS_SIZE \<equiv> 104"

text \<open>The two descriptors as \<open>entry\<close> builds them in an uninitialised local \<open>d\<close>.\<close>

definition the_ldt_desc :: "u32 \<Rightarrow> u32 \<Rightarrow> seg_desc_t \<Rightarrow> seg_desc_t" where
  "the_ldt_desc ldt ldt_size d =
     SET_LDT_PARAMS ldt ldt_size
       (d\<lparr>granularity := 0, opsize := 1, reserved := 0, avail := 0, seg_present := 1, seg_dpl := 0, seg_sys := 0, seg_type := 2\<rparr>)"

definition the_tss_desc :: "u32 \<Rightarrow> u32 \<Rightarrow> seg_desc_t \<Rightarrow> seg_desc_t" where
  "the_tss_desc tss tss_size d =
     SET_TSS_PARAMS tss tss_size
       (d\<lparr>granularity := 0, opsize := 0, reserved := 0, avail := 0, seg_lim_19_16 := ucast (TSS_SIZE AND 0x000F0000),
         seg_present := 1, seg_dpl := 0, seg_sys := 0, seg_type := 9, seg_lim_15_00 := ucast (TSS_SIZE AND 0x0000FFFF)\<rparr>)"

subsection \<open>The machine at boot\<close>

record boot = process +
  ldt_desc_ptr :: seg_desc_t
  tss_desc_ptr :: seg_desc_t
  tss_ldt_segment_selector :: u16
  ldtr :: u16
  task_register :: u16

text \<open>What the linker and the stack decide: where the literals, the LDT and the TSS are, what the
  uninitialised locals of \<open>entry\<close> hold.\<close>

record boot_env =
  boot_printer :: printer
  isr_addr :: "isr \<Rightarrow> u32"
  ldt_addr :: u32
  ldt_size_val :: u32
  tss_addr :: u32
  tss_size_val :: u32
  stray_desc :: seg_desc_t
  stray_bootblock :: u32

definition load_segments :: "boot_env \<Rightarrow> 'a boot_scheme \<Rightarrow> 'a boot_scheme" where
  "load_segments e s =
     (let s = s\<lparr>ldt_desc_ptr := the_ldt_desc (ldt_addr e) (ldt_size_val e) (stray_desc e)\<rparr>;
          s = s\<lparr>ldtr := 0x0038\<rparr>;
          s = s\<lparr>tss_desc_ptr := the_tss_desc (tss_addr e) (tss_size_val e) (stray_desc e)\<rparr>;
          s = s\<lparr>tss_ldt_segment_selector := 0x0038\<rparr>;
          s = s\<lparr>tss_ss0 := 0x0018\<rparr>;
          s = s\<lparr>tss_esp0 := 0x800000\<rparr>
      in s\<lparr>task_register := 0x0030\<rparr>)"

definition init_devices :: "boot_env \<Rightarrow> u32 \<Rightarrow> 'a boot_scheme \<Rightarrow> 'a boot_scheme" where
  "init_devices e bootblock s =
     (let s = i8259_init s;
          s = init_idt (isr_addr e) s;
          s = init_keyboard s;
          s = init_rtc s;
          s = init_paging s;
          s = process_init s
      in init_filesys bootblock s)"

subsection \<open>The multiboot information\<close>

text \<open>The words of \<open>multiboot_info_t\<close>; \<open>CHECK_FLAG\<close> tests a bit of the first.\<close>

definition mbi_word :: "u32 \<Rightarrow> nat \<Rightarrow> 'a machine_scheme \<Rightarrow> u32" where
  "mbi_word mbi k s = ld32 (mem s) (mbi + of_nat (4 * k))"

definition CHECK_FLAG :: "u32 \<Rightarrow> nat \<Rightarrow> bool" where
  "CHECK_FLAG flags n \<longleftrightarrow> flags AND push_bit n 1 \<noteq> 0"

text \<open>The bytes of a module are of type \<open>char\<close>, which is signed, so a byte above 127 is printed with its sign
  extended.\<close>

primrec print_module_bytes :: "printer \<Rightarrow> u32 \<Rightarrow> nat list \<Rightarrow> 'a console_scheme \<Rightarrow> 'a console_scheme option" where
  "print_module_bytes pr md [] s = Some s"
| "print_module_bytes pr md (i # is) s = do {
     s \<leftarrow> print_lit pr ''0x%x '' [scast (mem s (ld32 (mem s) md + of_nat i))] s;
     print_module_bytes pr md is s
   }"

partial_function (option) print_modules :: "printer \<Rightarrow> u32 \<Rightarrow> u32 \<Rightarrow> u32 \<Rightarrow> 'a console_scheme \<Rightarrow> 'a console_scheme option" where
  "print_modules pr mbi md mod_count s =
     (if mod_count < mbi_word mbi 5 s then do {
        s \<leftarrow> print_lit pr (''Module %d loaded at address: 0x%#x'' @ nl) [mod_count, ld32 (mem s) md] s;
        s \<leftarrow> print_lit pr (''Module %d ends at address: 0x%#x'' @ nl) [mod_count, ld32 (mem s) (md + 4)] s;
        s \<leftarrow> print_lit pr (''First few bytes of module:'' @ nl) [] s;
        s \<leftarrow> print_module_bytes pr md [0..<16] s;
        s \<leftarrow> print_lit pr nl [] s;
        print_modules pr mbi (md + 16) (mod_count + 1) s
      } else Some s)"

partial_function (option) print_mmap :: "printer \<Rightarrow> u32 \<Rightarrow> u32 \<Rightarrow> 'a console_scheme \<Rightarrow> 'a console_scheme option" where
  "print_mmap pr mbi mm s =
     (if mm < mbi_word mbi 12 s + mbi_word mbi 11 s then do {
        s \<leftarrow> print_lit pr (''    size = 0x%x, base_addr = 0x%#x%#x'' @ nl @ ''    type = 0x%x,  length    = 0x%#x%#x'' @ nl)
          [ld32 (mem s) mm, ld32 (mem s) (mm + 8), ld32 (mem s) (mm + 4), ld32 (mem s) (mm + 20),
           ld32 (mem s) (mm + 16), ld32 (mem s) (mm + 12)] s;
        print_mmap pr mbi (mm + ld32 (mem s) mm + 4) s
      } else Some s)"

text \<open>What \<open>entry\<close> prints of the information, up to the segments, and the boot block it finds. \<open>None\<close> in place
  of the boot block is the early return for two flags that exclude each other.\<close>

definition print_multiboot :: "boot_env \<Rightarrow> u32 \<Rightarrow> 'a console_scheme \<Rightarrow> (u32 option \<times> 'a console_scheme) option" where
  "print_multiboot e mbi s = (let pr = boot_printer e in do {
     s \<leftarrow> print_lit pr (''flags = 0x%#x'' @ nl) [mbi_word mbi 0 s] s;
     s \<leftarrow> (if CHECK_FLAG (mbi_word mbi 0 s) 0
          then print_lit pr (''mem_lower = %uKB, mem_upper = %uKB'' @ nl) [mbi_word mbi 1 s, mbi_word mbi 2 s] s else Some s);
     s \<leftarrow> (if CHECK_FLAG (mbi_word mbi 0 s) 1
          then print_lit pr (''boot_device = 0x%#x'' @ nl) [mbi_word mbi 3 s] s else Some s);
     s \<leftarrow> (if CHECK_FLAG (mbi_word mbi 0 s) 2
          then print_lit pr (''cmdline = %s'' @ nl) [mbi_word mbi 4 s] s else Some s);
     (bootblock, s) \<leftarrow> (if CHECK_FLAG (mbi_word mbi 0 s) 3
          then (let md = mbi_word mbi 6 s; bootblock = ld32 (mem s) md
                in do { s \<leftarrow> print_modules pr mbi md 0 s; Some (bootblock, s) })
          else Some (stray_bootblock e, s));
     if CHECK_FLAG (mbi_word mbi 0 s) 4 \<and> CHECK_FLAG (mbi_word mbi 0 s) 5
     then do { s \<leftarrow> print_lit pr (''Both bits 4 and 5 are set.'' @ nl) [] s; Some (None, s) }
     else do {
       s \<leftarrow> (if CHECK_FLAG (mbi_word mbi 0 s) 5
            then print_lit pr (''elf_sec: num = %u, size = 0x%#x, addr = 0x%#x, shndx = 0x%#x'' @ nl)
              [mbi_word mbi 7 s, mbi_word mbi 8 s, mbi_word mbi 9 s, mbi_word mbi 10 s] s else Some s);
       s \<leftarrow> (if CHECK_FLAG (mbi_word mbi 0 s) 6
            then do {
              s \<leftarrow> print_lit pr (''mmap_addr = 0x%#x, mmap_length = 0x%x'' @ nl) [mbi_word mbi 12 s, mbi_word mbi 11 s] s;
              print_mmap pr mbi (mbi_word mbi 12 s) s
            } else Some s);
       Some (Some bootblock, s)
     }
   })"

subsection \<open>The entry point\<close>

text \<open>How \<open>entry\<close> ends: it returns to \<open>boot.S\<close>, which halts; the shell could not be started and the kernel
  idles in its \<open>hlt\<close> loop; or the shell runs in user mode.\<close>

datatype 's boot_end = Boot_returned 's | Boot_idle 's | Boot_user u32 's | Boot_resumed u32 u32 's

definition start_shell :: "exec_frame list \<Rightarrow> 'a boot_scheme \<Rightarrow> 'a boot_scheme boot_end option" where
  "start_shell frs s =
     map_option (\<lambda>r. case r of Ret v s \<Rightarrow> Boot_idle s | User e s \<Rightarrow> Boot_user (user_eip e) s | Resume v b s \<Rightarrow> Boot_resumed v b s)
       (execute frs (shell_str s) s)"

definition entry :: "boot_env \<Rightarrow> exec_frame list \<Rightarrow> u32 \<Rightarrow> u32 \<Rightarrow> 'a boot_scheme \<Rightarrow> 'a boot_scheme boot_end option" where
  "entry e frs magic addr s =
     (let pr = boot_printer e; s = clear s
      in if magic \<noteq> 0x2BADB002
         then do { s \<leftarrow> print_lit pr (''Invalid magic number: 0x%#x'' @ nl) [magic] s; Some (Boot_returned s) }
         else do {
           (bootblock, s) \<leftarrow> print_multiboot e addr s;
           case bootblock of None \<Rightarrow> Some (Boot_returned s)
           | Some bootblock \<Rightarrow> do {
               let s = load_segments e s;
               let s = init_devices e bootblock s;
               s \<leftarrow> print_lit pr (''Enabling Interrupts'' @ nl) [] s;
               start_shell frs (sti (clear s))
             }
         })"

section \<open>What the processor reads in a segment descriptor\<close>

definition seg_base :: "seg_desc_t \<Rightarrow> u32" where
  "seg_base d = push_bit 24 (ucast (base_31_24 d)) OR push_bit 16 (ucast (base_23_16 d)) OR ucast (base_15_00 d)"

definition seg_limit :: "seg_desc_t \<Rightarrow> u32" where
  "seg_limit d = push_bit 16 (ucast (seg_lim_19_16 d)) OR ucast (seg_lim_15_00 d)"

text \<open>A present system descriptor of kernel privilege with a limit in bytes.\<close>

definition system_desc :: "4 word \<Rightarrow> seg_desc_t \<Rightarrow> bool" where
  "system_desc typ d \<longleftrightarrow> seg_present d = 1 \<and> seg_sys d = 0 \<and> seg_dpl d = 0 \<and> granularity d = 0 \<and> seg_type d = typ"

lemma descriptor_split:
  "push_bit 24 (ucast (ucast (drop_bit 24 (a AND 0xFF000000)) :: u8)) OR push_bit 16 (ucast (ucast (drop_bit 16 (a AND 0x00FF0000)) :: u8))
     OR ucast (ucast (a AND 0x0000FFFF) :: u16) = (a :: u32)"
  "push_bit 16 (ucast (ucast (drop_bit 16 (l AND 0x000F0000)) :: 4 word)) OR ucast (ucast (l AND 0x0000FFFF) :: u16) = take_bit 20 (l :: u32)"
proof -
  have m: "(0xFF000000 :: u32) = push_bit 24 (mask 8)" "(0x00FF0000 :: u32) = push_bit 16 (mask 8)" "(0xFFFF :: u32) = mask 16"
    "(0x000F0000 :: u32) = push_bit 16 (mask 4)" by (simp_all add: mask_eq_exp_minus_1)
  show "push_bit 24 (ucast (ucast (drop_bit 24 (a AND 0xFF000000)) :: u8)) OR push_bit 16 (ucast (ucast (drop_bit 16 (a AND 0x00FF0000)) :: u8))
     OR ucast (ucast (a AND 0x0000FFFF) :: u16) = (a :: u32)"
    unfolding m
  proof (rule bit_word_eqI)
    fix n :: nat assume "n < LENGTH(32)"
    then consider "n < 16" | "16 \<le> n" "n < 24" | "24 \<le> n" "n < 32" by fastforce
    then show "bit (push_bit 24 (ucast (ucast (drop_bit 24 (a AND push_bit 24 (mask 8))) :: u8))
       OR push_bit 16 (ucast (ucast (drop_bit 16 (a AND push_bit 16 (mask 8))) :: u8)) OR ucast (ucast (a AND mask 16) :: u16) :: u32) n = bit a n"
      by cases (auto simp: bit_simps)
  qed
  show "push_bit 16 (ucast (ucast (drop_bit 16 (l AND 0x000F0000)) :: 4 word)) OR ucast (ucast (l AND 0x0000FFFF) :: u16) = take_bit 20 (l :: u32)"
    unfolding m by (rule bit_word_eqI) (auto simp: bit_simps)
qed

section \<open>The devices after boot\<close>

lemma walk_cong:
  "page_directory s' = page_directory s \<Longrightarrow> page_table s' = page_table s \<Longrightarrow> vidmap_pt s' = vidmap_pt s \<Longrightarrow>
   page_table_addr s' = page_table_addr s \<Longrightarrow> vidmap_pt_addr s' = vidmap_pt_addr s \<Longrightarrow> walk u s' a = walk u s a"
  unfolding walk_def table_at_def by (simp only: Let_def cong: if_cong)

lemma i8259_init_as_update: "\<exists>tr. i8259_init s = s\<lparr>io := tr, master_mask := 0xFB, slave_mask := 0xFF\<rparr>"
  using i8259_init_masks_all [of s] by blast

lemma enable_irq_as_update: "\<exists>tr a b. enable_irq n s = s\<lparr>io := tr, master_mask := a, slave_mask := b\<rparr>"
proof -
  consider "n > 15" | "\<not> n > 15" "n AND SLAVE_START \<noteq> 0" | "\<not> n > 15" "n AND SLAVE_START = 0" by blast
  then show ?thesis
  proof cases
    case 1
    then show ?thesis by (intro exI [of _ "io s"] exI [of _ "master_mask s"] exI [of _ "slave_mask s"]) (simp add: enable_irq_def)
  next
    case 2
    then have "enable_irq n s = s\<lparr>io := io (enable_irq n s), master_mask := master_mask (enable_irq n s), slave_mask := slave_mask (enable_irq n s)\<rparr>"
      by (simp add: enable_irq_def Let_def outb_def)
    then show ?thesis by metis
  next
    case 3
    then have "enable_irq n s = s\<lparr>io := io (enable_irq n s), master_mask := master_mask (enable_irq n s), slave_mask := slave_mask s\<rparr>"
      by (simp add: enable_irq_def Let_def outb_def)
    then show ?thesis by metis
  qed
qed

definition only_idt :: "'a idt_scheme \<Rightarrow> 'a idt_scheme \<Rightarrow> bool" where
  "only_idt s s' \<longleftrightarrow> s' = s\<lparr>idt_table := idt_table s'\<rparr>"

lemma only_idt_gates:
  "only_idt s u \<Longrightarrow> only_idt s (set_intr_gate n a u)" "only_idt s u \<Longrightarrow> only_idt s (set_trap_gate n a u)"
  "only_idt s u \<Longrightarrow> only_idt s (set_system_gate n a u)"
  unfolding only_idt_def by (erule ssubst, simp add: set_intr_gate_def set_trap_gate_def set_system_gate_def Let_def)+

lemma only_idt_fold: "only_idt s u \<Longrightarrow> only_idt s (fold (\<lambda>i. set_trap_gate (of_nat i) a) is u)"
  by (induction "is" arbitrary: u) (simp_all add: only_idt_gates)

lemma init_idt_as_update: "init_idt h s = s\<lparr>idt_table := idt_table (init_idt h s)\<rparr>"
proof -
  have "only_idt s s" by (simp add: only_idt_def)
  then have "only_idt s (init_idt h s)"
    unfolding init_idt_def Let_def by (intro only_idt_gates only_idt_fold)
  then show ?thesis by (simp add: only_idt_def)
qed

lemma init_keyboard_as_update:
  fixes s :: "'a keyboard_scheme"
  shows "\<exists>m. init_keyboard s = enable_irq (of_nat 1) (s\<lparr>pointer := Lower, case_status := 0, control_status := 0, caps_enable := 0,
     is_alphabet := 0, mem := m, number_printed_line := 0\<rparr>) \<and> (\<forall>x. x \<notin> span (terminals_addr s) 456 \<longrightarrow> m x = mem s x)"
proof -
  let ?f = "\<lambda>i m. memset m (term_keyboard_buf s (int i) 0) 0 128"
  have "fold (\<lambda>i s. s\<lparr>mem := memset (mem s) (term_keyboard_buf s (int i) 0) 0 128\<rparr>) is u = u\<lparr>mem := fold ?f is (mem u)\<rparr>"
    if "terminals_addr u = terminals_addr s" for "is" and u :: "'a keyboard_scheme"
    using that by (induction "is" arbitrary: u) (simp_all add: term_keyboard_buf_def term_base_def)
  then have e: "init_keyboard s = enable_irq (of_nat 1) (s\<lparr>pointer := Lower, case_status := 0, control_status := 0,
     caps_enable := 0, is_alphabet := 0, mem := fold ?f [0..<3] (mem s), number_printed_line := 0\<rparr>)"
    unfolding init_keyboard_def Let_def by (simp del: upt_rec_numeral)
  have out: "fold ?f is m x = m x" if "x \<notin> span (terminals_addr s) 456" "set is \<subseteq> {0, 1, 2}" for "is" m x
    using that(2)
  proof (induction "is" arbitrary: m)
    case (Cons i "is")
    have "span (term_keyboard_buf s (int i) 0) 128 \<subseteq> span (terminals_addr s) 456"
      by (rule kbuf_span) (use Cons.prems in auto)
    then have "?f i m x = m x" using that(1) by (auto simp: memset_wrs intro!: wrs_other)
    then show ?case using Cons by simp
  qed simp
  have "fold ?f [0..<3] (mem s) x = mem s x" if "x \<notin> span (terminals_addr s) 456" for x
    by (rule out [OF that]) auto
  then show ?thesis by (intro exI [of _ "fold ?f [0..<3] (mem s)"] conjI e) simp
qed

lemma init_rtc_as_update: "\<exists>tr. init_rtc s = enable_irq (of_nat 8) (s\<lparr>io := tr\<rparr>)"
  by (auto simp: init_rtc_def Let_def inb_def outb_def split: prod.splits)

lemma init_paging_as_update:
  "init_paging s = s\<lparr>page_directory := page_directory (init_paging s), page_table := page_table (init_paging s),
     cr3 := page_directory_addr s, cr4 := cr4 s OR 0x10, cr0 := cr0 s OR 0x80000000\<rparr>"
  by (rule paging.equality) (simp_all add: init_paging_def Let_def reload_cr3_def fold_page_table
      fold_page_directory [where g = "\<lambda>i. set_pde_4mb 0 0 0 0 0 (of_nat i)"] del: upt_rec_numeral)

lemma irq_masked_update [simp]:
  "irq_masked (s\<lparr>io := tr\<rparr>) i = irq_masked s i"
  by (simp add: irq_masked_def)

text \<open>The state after the devices are initialised, with what each field comes from.\<close>

lemma init_devices_fields:
  fixes s :: "'a boot_scheme" and e :: boot_env and bootblock :: u32
  assumes "take_bit 12 (page_table_addr s) = 0"
  defines "s' \<equiv> init_devices e bootblock s"
  shows "i < 16 \<Longrightarrow> irq_masked s' i \<longleftrightarrow> i \<notin> {1, 2, 8}"
    and "idt_table s' = idt_table (init_idt (isr_addr e) (i8259_init s))"
    and "walk u s' a = (if \<not> u \<and> a < SIZE_8MB then Some a else None)"
    and "iflag s' = iflag s" "terminals_addr s' = terminals_addr s" "active_terminal s' = 0" "esp s' = esp s"
    and "t \<in> {0, 1, 2} \<Longrightarrow> mem s' (term_flag s t) = 1 \<and> ld32 (mem s') (term_screen_x s t) = 0 \<and> ld32 (mem s') (term_screen_y s t) = 0"
    and "x \<notin> span (terminals_addr s) 456 \<Longrightarrow> x \<noteq> terminals_addr s + 600 \<Longrightarrow> mem s' x = mem s x"
    and "bootblock_addr s' = bootblock" "dir_count s' = ld32 (mem s') bootblock" "mounted s'"
proof -
  define s1 where "s1 = i8259_init s"
  define s2 where "s2 = init_idt (isr_addr e) s1"
  define s3 where "s3 = init_keyboard s2"
  define s4 where "s4 = init_rtc s3"
  define s5 where "s5 = init_paging s4"
  define s6 where "s6 = process_init s5"
  have s': "s' = init_filesys bootblock s6" by (simp add: s'_def init_devices_def Let_def s1_def s2_def s3_def s4_def s5_def s6_def)
  obtain tr1 where s1: "s1 = s\<lparr>io := tr1, master_mask := 0xFB, slave_mask := 0xFF\<rparr>" using i8259_init_as_update [of s] s1_def by blast
  have s2: "s2 = s1\<lparr>idt_table := idt_table s2\<rparr>" unfolding s2_def by (rule init_idt_as_update)
  obtain m3 where s3: "s3 = enable_irq (of_nat 1) (s2\<lparr>pointer := Lower, case_status := 0, control_status := 0, caps_enable := 0,
      is_alphabet := 0, mem := m3, number_printed_line := 0\<rparr>)" and m3: "\<And>x. x \<notin> span (terminals_addr s2) 456 \<Longrightarrow> m3 x = mem s2 x"
    using init_keyboard_as_update [of s2] s3_def by blast
  obtain tr4 where s4: "s4 = enable_irq (of_nat 8) (s3\<lparr>io := tr4\<rparr>)" using init_rtc_as_update [of s3] s4_def by blast
  note s5 = init_paging_as_update [of s4, folded s5_def]
  note s6 = process_init_eq [of s5, folded s6_def]
  obtain a3 b3 c3 where u3: "s3 = s2\<lparr>pointer := Lower, case_status := 0, control_status := 0, caps_enable := 0, is_alphabet := 0,
      mem := m3, number_printed_line := 0, io := a3, master_mask := b3, slave_mask := c3\<rparr>"
    unfolding s3 using enable_irq_as_update by blast
  obtain a4 b4 c4 where u4: "s4 = s3\<lparr>io := a4, master_mask := b4, slave_mask := c4\<rparr>"
    using enable_irq_as_update [of "of_nat 8" "s3\<lparr>io := tr4\<rparr>"] unfolding s4 [symmetric] by auto
  have k2: "irq_masked s2 = irq_masked s1" "iflag s2 = iflag s1" "terminals_addr s2 = terminals_addr s1" "esp s2 = esp s1" "mem s2 = mem s1"
      "page_table_addr s2 = page_table_addr s1"
    by (subst s2; simp add: irq_masked_def fun_eq_iff)+
  have k3: "idt_table s3 = idt_table s2" "iflag s3 = iflag s2" "terminals_addr s3 = terminals_addr s2" "esp s3 = esp s2" "mem s3 = m3"
      "page_table_addr s3 = page_table_addr s2"
    by (simp_all add: u3)
  have k4: "idt_table s4 = idt_table s3" "iflag s4 = iflag s3" "terminals_addr s4 = terminals_addr s3" "esp s4 = esp s3" "mem s4 = mem s3"
      "page_table_addr s4 = page_table_addr s3"
    by (simp_all add: u4)
  have k5: "irq_masked s5 = irq_masked s4" "idt_table s5 = idt_table s4" "iflag s5 = iflag s4" "terminals_addr s5 = terminals_addr s4"
      "esp s5 = esp s4" "mem s5 = mem s4"
    by (subst s5; simp add: irq_masked_def fun_eq_iff)+
  have k6: "irq_masked s' = irq_masked s5" "idt_table s' = idt_table s5" "iflag s' = iflag s5" "terminals_addr s' = terminals_addr s5"
      "esp s' = esp s5" "mem s' = mem s6" "active_terminal s' = 0"
    unfolding s' s6 by (simp_all add: irq_masked_def fun_eq_iff init_filesys_def Let_def)
  have k1: "iflag s1 = iflag s" "terminals_addr s1 = terminals_addr s" "esp s1 = esp s" "mem s1 = mem s" "page_table_addr s1 = page_table_addr s"
    by (simp_all add: s1)
  show "irq_masked s' i \<longleftrightarrow> i \<notin> {1, 2, 8}" if i: "i < 16"
  proof -
    have "irq_masked s1 i \<longleftrightarrow> i \<noteq> 2"
    proof -
      have "i \<in> set [0..<16]" using i by simp
      then show ?thesis by (auto simp: s1 irq_masked_def upt_rec bit_numeral_rec)
    qed
    moreover have "irq_masked s3 i \<longleftrightarrow> irq_masked s2 i \<and> i \<noteq> 1"
      using enable_irq_masked [OF _ i, of 1 "s2\<lparr>pointer := Lower, case_status := 0, control_status := 0, caps_enable := 0,
        is_alphabet := 0, mem := m3, number_printed_line := 0\<rparr>"] unfolding s3 by (simp add: opens_def irq_masked_def)
    moreover have "irq_masked s4 i \<longleftrightarrow> irq_masked s3 i \<and> i \<notin> {2, 8}"
      using enable_irq_masked [OF _ i, of 8 "s3\<lparr>io := tr4\<rparr>"] unfolding s4 by (simp add: opens_def irq_masked_def)
    ultimately show ?thesis using k2 k5 k6 by auto
  qed
  show "iflag s' = iflag s" "terminals_addr s' = terminals_addr s" "active_terminal s' = 0" "esp s' = esp s"
    by (simp_all add: k1 k2 k3 k4 k5 k6)
  show "bootblock_addr s' = bootblock" "dir_count s' = ld32 (mem s') bootblock" "mounted s'"
    unfolding s' by (simp_all add: init_filesys_def Let_def mounted_def)
  show "idt_table s' = idt_table (init_idt (isr_addr e) (i8259_init s))"
    by (simp add: k3 k4 k5 k6 s2_def s1_def)
  have "walk u s' a = walk u s5 a" unfolding s' s6 by (rule walk_cong) (simp_all add: init_filesys_def Let_def)
  also have "\<dots> = (if \<not> u \<and> a < SIZE_8MB then Some a else None)"
    using init_paging_walk [of s4 a] assms(1) by (cases u) (simp_all add: s5_def k1 k2 k3 k4)
  finally show "walk u s' a = (if \<not> u \<and> a < SIZE_8MB then Some a else None)" .
  have t: "term_flag s5 = term_flag s" "term_screen_x s5 = term_screen_x s" "term_screen_y s5 = term_screen_y s" "terminals_addr s5 = terminals_addr s"
    by (simp_all add: term_addr_defs fun_eq_iff k1 k2 k3 k4 k5)
  show "mem s' (term_flag s t) = 1 \<and> ld32 (mem s') (term_screen_x s t) = 0 \<and> ld32 (mem s') (term_screen_y s t) = 0" if "t \<in> {0, 1, 2}"
    using process_init_fresh [OF that, of s5] by (simp add: k6 s6_def t)
  show "mem s' x = mem s x" if "x \<notin> span (terminals_addr s) 456" "x \<noteq> terminals_addr s + 600"
    using process_init_fresh [of 0 s5] m3 [of x] that by (simp add: k1 k2 k3 k4 k5 k6 s6_def t)
qed

section \<open>Properties\<close>

text \<open>The descriptors \<open>entry\<close> puts into the GDT are what the processor must find there, whatever the
  uninitialised locals they are built in held: the base and the 20-bit limit read back from the split fields
  are the address and the size of the table, and both are present system descriptors of kernel privilege, an LDT
  (type 2) and an available 32-bit TSS (type 9).\<close>

theorem segment_descriptors_roundtrip:
  "seg_base (the_ldt_desc a l d) = a \<and> seg_limit (the_ldt_desc a l d) = take_bit 20 l \<and> system_desc 2 (the_ldt_desc a l d) \<and>
   seg_base (the_tss_desc a l d) = a \<and> seg_limit (the_tss_desc a l d) = take_bit 20 l \<and> system_desc 9 (the_tss_desc a l d) \<and>
   the_ldt_desc a l d = the_ldt_desc a l d' \<and> the_tss_desc a l d = the_tss_desc a l d'"
  unfolding the_ldt_desc_def the_tss_desc_def SET_LDT_PARAMS_def SET_TSS_PARAMS_def seg_base_def seg_limit_def system_desc_def
  using descriptor_split(1) [of a] descriptor_split(2) [of l] by simp

text \<open>C28: After the initialisers of \<open>entry\<close> the machine is ready for the first shell: exactly the keyboard, cascade
  and clock lines are open (the timer line is not, so no process is ever preempted), every interrupt vector
  leads to its entry point, the kernel sees the first 8 MB at their own addresses and nothing else and user mode sees nothing,
  the three terminals are fresh with terminal 0 active, the file system is the one of the boot module, and the
  interrupt flag is as it was, so still off.\<close>

theorem init_devices_ready:
  fixes s :: "'a boot_scheme" and e :: boot_env and bootblock :: u32
  assumes "take_bit 12 (page_table_addr s) = 0"
    and "span bootblock 12 \<inter> insert (terminals_addr s + 600) (span (terminals_addr s) 456) = {}"
  defines "s' \<equiv> init_devices e bootblock s"
  shows "(\<forall>i < 16. irq_masked s' i \<longleftrightarrow> i \<notin> {1, 2, 8}) \<and>
     (\<forall>n. map_option target (gate (idt_table s' n)) = Some (isr_addr e (isr_of n))) \<and>
     (\<forall>u a. walk u s' a = (if \<not> u \<and> a < SIZE_8MB then Some a else None)) \<and>
     (\<forall>t \<in> {0, 1, 2}. mem s' (term_flag s t) = 1 \<and> ld32 (mem s') (term_screen_x s t) = 0 \<and> ld32 (mem s') (term_screen_y s t) = 0) \<and>
     active_terminal s' = 0 \<and> bootblock_addr s' = bootblock \<and> mounted s' \<and> dir_count s' = ld32 (mem s) bootblock \<and> iflag s' = iflag s"
proof -
  note f = init_devices_fields [OF assms(1), where e = e and bootblock = bootblock, folded s'_def]
  have "ld32 (mem s') bootblock = ld32 (mem s) bootblock"
  proof (rule ld32_disjoint)
    fix x assume "x \<in> span bootblock 4"
    then have "x \<in> span bootblock 12" using span_mono [of 4 12 bootblock] by auto
    then show "mem s' x = mem s x" using assms(2) by (intro f(9)) auto
  qed
  then show ?thesis using f by (simp add: init_idt_gate_of)
qed

definition demo_boot :: boot where
  "demo_boot = process.extend demo_process (boot.fields (the_ldt_desc 0 31 undefined) (the_tss_desc 0 103 undefined) 0 0 0)"

definition demo_env :: boot_env where
  "demo_env = \<lparr>boot_printer = demo_printer, isr_addr = (\<lambda>_. 0x410000), ldt_addr = 0x420000, ldt_size_val = 31,
     tss_addr = 0x420020, tss_size_val = 103, stray_desc = the_ldt_desc 0 0 undefined, stray_bootblock = 0\<rparr>"

theorem init_devices_ready_witness:
  "\<not> irq_masked (init_devices demo_env 0x1000 demo_boot) 8 \<and> irq_masked (init_devices demo_env 0x1000 demo_boot) 0 \<and>
   mounted (init_devices demo_env 0x1000 demo_boot) \<and> walk False (init_devices demo_env 0x1000 demo_boot) 0xB8000 = Some 0xB8000"
proof -
  have f: "page_table_addr demo_boot = 0x501000" "terminals_addr demo_boot = 0x400000"
    by (simp_all add: demo_boot_def process.defs boot.defs demo_process_def)
  have "span 0x1000 12 \<inter> span 0x400000 456 = {}" "(0x400258 :: u32) \<notin> span 0x1000 12"
    by (rule span_disjoint_below) (simp_all add: in_span_unat)
  then have d: "span 0x1000 12 \<inter> insert (terminals_addr demo_boot + 600) (span (terminals_addr demo_boot) 456) = {}"
    by (simp add: f)
  have a: "take_bit 12 (page_table_addr demo_boot) = 0" by (simp add: f)
  from init_devices_ready [OF a d, of demo_env] show ?thesis by simp
qed

lemma bad_magic_text:
  "format_text (\<lambda>_. None) None (chars (''Invalid magic number: 0x%#x'' @ nl)) [v] = Some (chars ''Invalid magic number: 0x'' @ hex8_text v @ [10])"
proof -
  have "plain ''Invalid magic number: 0x''" by (simp add: plain_def chars_def)
  then show ?thesis
    using format_text_plain [of "chars ''Invalid magic number: 0x''" "\<lambda>_. None" "chars (''%#x'' @ nl)" "[v]"]
    unfolding plain_def chars_append [symmetric] by (simp add: chars_def nl_def takes_arg_def conv_text_def)
qed

text \<open>A boot loader that is not multiboot compliant is refused: on any other magic number \<open>entry\<close> clears the
  screen, shows the number it got in eight hexadecimal digits and returns to \<open>boot.S\<close>, which halts; no device is
  touched, interrupts stay as they are and memory changes only where the screen and the printing are.\<close>

theorem entry_refuses_bad_magic:
  fixes s :: "'a boot_scheme"
  assumes "magic \<noteq> 0x2BADB002" and "printer_ok (boot_printer e) (mem s) {''Invalid magic number: 0x%#x'' @ nl}"
  shows "\<exists>s'. entry e frs magic addr s = Some (Boot_returned s') \<and>
     tty_of s' = fold tty_putc (chars ''Invalid magic number: 0x'' @ hex8_text magic @ [10]) \<lparr>cells = replicate 2000 (32, ATTRIB), cx = 0, cy = 0\<rparr> \<and>
     iflag s' = iflag s \<and> dev s' = dev s \<and> console.more s' = console.more s \<and>
     (\<forall>x. x \<notin> print_area (boot_printer e) \<longrightarrow> mem s' x = mem s x)"
proof -
  let ?pr = "boot_printer e" and ?t = "''Invalid magic number: 0x%#x'' @ nl"
  let ?xs = "chars ''Invalid magic number: 0x'' @ hex8_text magic @ [10]"
  have V: "video \<subseteq> print_area ?pr" by (auto simp: print_area_def)
  have ok: "printer_ok ?pr (mem (clear s)) {?t}"
  proof -
    have l: "cstr (mem s) (literal ?pr ?t) (chars ?t)" "span (literal ?pr ?t) (Suc (length (chars ?t))) \<inter> print_area ?pr = {}"
      using assms(2) by (auto simp: printer_ok_def chars_def)
    then have "cstr (mem (clear s)) (literal ?pr ?t) (chars ?t)"
      using cstr_cong [of "literal ?pr ?t" "chars ?t" "mem (clear s)" "mem s"] clear_screen(2) V by blast
    then show ?thesis using assms(2) by (simp add: printer_ok_def)
  qed
  have "BACKSPACE \<notin> set ?xs" using numeral_text_chars(2) [of 16 magic] by (simp add: chars_def hex8_text_def)
  then obtain s' where "print_lit ?pr ?t [magic] (clear s) = Some s'" "printed (print_area ?pr) ?xs (clear s) s'"
    using print_lit_text [OF ok _ clear_screen(3) _ bad_magic_text] by (auto simp: strings_at_def)
  then show ?thesis using assms(1) clear_screen(1) [of s] clear_screen(2) [where s = s] V
    by (auto simp: entry_def Let_def printed_def)
qed

definition demo_bad_boot :: boot where
  "demo_bad_boot = demo_boot\<lparr>mem := wrs (\<lambda>_. 0) 0x1000 (chars (''Invalid magic number: 0x%#x'' @ nl) @ [0])\<rparr>"

theorem entry_refuses_bad_magic_witness:
  "\<exists>s'. entry demo_env [] 0 0 demo_bad_boot = Some (Boot_returned s') \<and> iflag s' = iflag demo_bad_boot"
proof -
  let ?t = "''Invalid magic number: 0x%#x'' @ nl"
  have c: "cstr (mem demo_bad_boot) 0x1000 (chars ?t)"
    unfolding demo_bad_boot_def by (simp, rule cstr_wrs_self) (simp_all add: chars_def nl_def)
  have len: "length ?t = 28" by (simp add: nl_def)
  have "printer_ok demo_printer (mem demo_bad_boot) {?t}"
    using c demo_printer_apart [of "Suc (length ?t)"] len
    by (simp add: printer_ok_def demo_printer_def del: length_append length_Cons list.size)
  then have ok: "printer_ok (boot_printer demo_env) (mem demo_bad_boot) {?t}" by (simp add: demo_env_def)
  show ?thesis using entry_refuses_bad_magic [OF _ ok, of 0 "[]" 0] by auto
qed

end
