(* ===== verification/User.thy ===== *)
theory User
  imports Terminals
begin

text \<open>
  What a user program has of the kernel: the system call wrappers of \<open>ece391syscall.S\<close> and the library
  \<open>ece391support.c\<close>. A program is a function on the state of the machine, like a routine of the
  kernel; its local arrays and its string literals are at addresses that are arguments of the model.

  What a program needs from the world is the record \<open>user_env\<close>: the frames of the \<open>execute\<close> calls, the
  interrupts that arrive during a system call (a function of the state in which the call is made), the
  address of the kernel's local \<open>dentry_t\<close>, and what running another program until it halts
  does. The kernel's promise to a program that prints is the locale \<open>std_output\<close>.
\<close>

section \<open>Definitions\<close>

subsection \<open>System calls\<close>

record 's user_env =
  exec_frames :: "exec_frame list"
  irqs :: "'s \<Rightarrow> ('s \<Rightarrow> 's option) list"
  entry_local :: u32
  run_program :: "u32 \<Rightarrow> 's \<Rightarrow> (int \<times> 's) option"
  lit :: "string \<Rightarrow> u32"

text \<open>A call that enters user mode comes back when the program it entered has halted; one that resumes
  a parent does not come back to its caller.\<close>

definition do_call :: "'a process_scheme user_env \<Rightarrow> u32 \<Rightarrow> u32 \<Rightarrow> u32 \<Rightarrow> u32 \<Rightarrow> 'a process_scheme
    \<Rightarrow> (int \<times> 'a process_scheme) option" where
  "do_call e number ebx ecx edx s =
     (case syscall (exec_frames e) (irqs e s) (entry_local e) number ebx ecx edx s of
        Some (Ret v s') \<Rightarrow> Some (v, s')
      | Some (User fm s') \<Rightarrow> run_program e (user_eip fm) s'
      | _ \<Rightarrow> None)"

definition ece391_execute :: "'a process_scheme user_env \<Rightarrow> u32 \<Rightarrow> 'a process_scheme \<Rightarrow> (int \<times> 'a process_scheme) option" where
  "ece391_execute e command = do_call e 2 command 0 0"

definition ece391_read :: "'a process_scheme user_env \<Rightarrow> int \<Rightarrow> u32 \<Rightarrow> int \<Rightarrow> 'a process_scheme \<Rightarrow> (int \<times> 'a process_scheme) option" where
  "ece391_read e fd buf nbytes = do_call e 3 (word_of_int fd) buf (word_of_int nbytes)"

definition ece391_write :: "'a process_scheme user_env \<Rightarrow> int \<Rightarrow> u32 \<Rightarrow> int \<Rightarrow> 'a process_scheme \<Rightarrow> (int \<times> 'a process_scheme) option" where
  "ece391_write e fd buf nbytes = do_call e 4 (word_of_int fd) buf (word_of_int nbytes)"

definition ece391_open :: "'a process_scheme user_env \<Rightarrow> u32 \<Rightarrow> 'a process_scheme \<Rightarrow> (int \<times> 'a process_scheme) option" where
  "ece391_open e filename = do_call e 5 filename 0 0"

definition ece391_close :: "'a process_scheme user_env \<Rightarrow> int \<Rightarrow> 'a process_scheme \<Rightarrow> (int \<times> 'a process_scheme) option" where
  "ece391_close e fd = do_call e 6 (word_of_int fd) 0 0"

definition ece391_getargs :: "'a process_scheme user_env \<Rightarrow> u32 \<Rightarrow> int \<Rightarrow> 'a process_scheme \<Rightarrow> (int \<times> 'a process_scheme) option" where
  "ece391_getargs e buf nbytes = do_call e 7 buf (word_of_int nbytes) 0"

definition ece391_vidmap :: "'a process_scheme user_env \<Rightarrow> u32 \<Rightarrow> 'a process_scheme \<Rightarrow> (int \<times> 'a process_scheme) option" where
  "ece391_vidmap e screen_start = do_call e 8 screen_start 0 0"

text \<open>\<open>_start\<close> calls \<open>main\<close> and halts with its value.\<close>

definition start_main :: "'a process_scheme user_env \<Rightarrow> ('a process_scheme \<Rightarrow> (int \<times> 'a process_scheme) option)
    \<Rightarrow> 'a process_scheme \<Rightarrow> 'a process_scheme outcome option" where
  "start_main e main s = do {
     (v, s) \<leftarrow> main s;
     syscall (exec_frames e) (irqs e s) (entry_local e) 1 (word_of_int v) 0 0 s
   }"

subsection \<open>The support library\<close>

partial_function (option) ece391_strlen_loop :: "memory \<Rightarrow> u32 \<Rightarrow> u32 \<Rightarrow> u32 option" where
  "ece391_strlen_loop m s len = (if 0 \<noteq> m s then ece391_strlen_loop m (s + 1) (len + 1) else Some len)"

definition ece391_strlen :: "memory \<Rightarrow> u32 \<Rightarrow> u32 option" where
  "ece391_strlen m s = ece391_strlen_loop m s 0"

partial_function (option) ece391_strcpy :: "memory \<Rightarrow> u32 \<Rightarrow> u32 \<Rightarrow> memory option" where
  "ece391_strcpy m dst src =
     (if 0 \<noteq> m src then ece391_strcpy (m(dst := m src)) (dst + 1) (src + 1) else Some (m(dst := m src)))"

definition ece391_fdputs :: "'a process_scheme user_env \<Rightarrow> int \<Rightarrow> u32 \<Rightarrow> 'a process_scheme \<Rightarrow> 'a process_scheme option" where
  "ece391_fdputs e fd p s = do {
     n \<leftarrow> ece391_strlen (mem s) p;
     (r, s) \<leftarrow> ece391_write e fd p (sint n) s;
     Some s
   }"

text \<open>The characters are of type \<open>uint8_t\<close>. Two equal strings that never end make \<open>ece391_strcmp\<close> go on for
  ever; \<open>ece391_strncmp\<close> stops after \<open>n\<close> characters.\<close>

partial_function (option) ece391_strcmp :: "memory \<Rightarrow> u32 \<Rightarrow> u32 \<Rightarrow> int option" where
  "ece391_strcmp m s1 s2 =
     (if m s1 = m s2 then if m s1 = 0 then Some 0 else ece391_strcmp m (s1 + 1) (s2 + 1)
      else Some (uint (m s1) - uint (m s2)))"

function ece391_strncmp_loop :: "memory \<Rightarrow> u32 \<Rightarrow> u32 \<Rightarrow> u32 \<Rightarrow> int" where
  "ece391_strncmp_loop m s1 s2 n =
     (if m s1 = m s2 then
        if m s1 = 0 then 0
        else if n - 1 = 0 then 0
        else ece391_strncmp_loop m (s1 + 1) (s2 + 1) (n - 1)
      else uint (m s1) - uint (m s2))"
  by pat_completeness auto
termination
proof (relation "measure (\<lambda>(m, s1, s2, n). unat (n - 1))", goal_cases)
  case (2 m s1 s2 n)
  have "unat (n - 1 - 1) = unat (n - 1) - 1" using 2(3) by (rule unat_minus_one)
  moreover have "unat (n - 1) \<noteq> 0" using 2(3) by (simp only: unat_eq_0 not_False_eq_True)
  ultimately have "unat (n - 1 - 1) < unat (n - 1)" by linarith
  then show ?case by (simp only: in_measure case_prod_conv)
qed simp

definition ece391_strncmp :: "memory \<Rightarrow> u32 \<Rightarrow> u32 \<Rightarrow> u32 \<Rightarrow> int" where
  "ece391_strncmp m s1 s2 n = (if 0 = n then 0 else ece391_strncmp_loop m s1 s2 n)"

function ece391_strrev_loop :: "memory \<Rightarrow> u32 \<Rightarrow> int \<Rightarrow> int \<Rightarrow> memory" where
  "ece391_strrev_loop m s beg e =
     (if beg < e then
        (let tmp = m (s + word_of_int e);
             m1 = m(s + word_of_int e := m (s + word_of_int beg));
             m2 = m1(s + word_of_int beg := tmp)
         in ece391_strrev_loop m2 s (beg + 1) (e - 1))
      else m)"
  by pat_completeness auto
termination
  by (relation "measure (\<lambda>(m, s, beg, e). nat (e - beg))") auto

definition ece391_strrev :: "memory \<Rightarrow> u32 \<Rightarrow> memory option" where
  "ece391_strrev m s = do {
     len \<leftarrow> ece391_strlen m s;
     let e = sint (len - 1);
     if e \<le> 0 then Some m else Some (ece391_strrev_loop m s 0 e)
   }"

partial_function (option) ece391_itoa_loop ::
  "(u32 \<Rightarrow> u8) \<Rightarrow> memory \<Rightarrow> u32 \<Rightarrow> u32 \<Rightarrow> u32 \<Rightarrow> (memory \<times> u32) option" where
  "ece391_itoa_loop stray m newval newbuf radix =
     (if newval > 0 then
        if radix = 0 then None
        else ece391_itoa_loop stray (m(newbuf := lookup stray (newval mod radix)))
               (newval div radix) (newbuf + 1) radix
      else Some (m, newbuf))"

definition ece391_itoa :: "(u32 \<Rightarrow> u8) \<Rightarrow> memory \<Rightarrow> u32 \<Rightarrow> u32 \<Rightarrow> u32 \<Rightarrow> memory option" where
  "ece391_itoa stray m val buf radix =
     (if val = 0 then Some (m(buf := 48, buf + 1 := 0))
      else do {
        (m', newbuf) \<leftarrow> ece391_itoa_loop stray m val buf radix;
        ece391_strrev (m'(newbuf := 0)) buf
      })"

declare ece391_strncmp_loop.simps [simp del] ece391_strrev_loop.simps [simp del]

section \<open>What the library computes\<close>

lemma sint_word_of_int: "- (2 ^ 31) \<le> k \<Longrightarrow> k < 2 ^ 31 \<Longrightarrow> sint (word_of_int k :: u32) = k"
  by (simp add: signed_of_int signed_take_bit_int_eq_self)

lemma ece391_strlen_loop_cstr: "cstr m s xs \<Longrightarrow> ece391_strlen_loop m s len = Some (len + of_nat (length xs))"
proof (induction xs arbitrary: s len)
  case Nil
  then show ?case by (subst ece391_strlen_loop.simps) simp
next
  case (Cons x xs)
  then show ?case by (subst ece391_strlen_loop.simps) (simp add: add.assoc)
qed

lemma ece391_strlen_cstr: "cstr m s xs \<Longrightarrow> ece391_strlen m s = Some (of_nat (length xs))"
  by (simp add: ece391_strlen_def ece391_strlen_loop_cstr)

lemma ece391_strcmp_cstr: "cstr m a xs \<Longrightarrow> cstr m b ys \<Longrightarrow> \<exists>r. ece391_strcmp m a b = Some r \<and> (r = 0 \<longleftrightarrow> xs = ys)"
proof (induction xs arbitrary: a b ys)
  case Nil
  then show ?case by (cases ys) (auto simp: ece391_strcmp.simps [of m a b] uint_0_iff)
next
  case (Cons x xs)
  then show ?case
    by (cases ys) (auto simp: ece391_strcmp.simps [of m a b] uint_0_iff word_uint_eq_iff [symmetric])
qed

text \<open>Comparing with a string \<open>ys\<close> over its length asks whether it is a prefix.\<close>

lemma ece391_strncmp_loop_prefix:
  "cstr m a xs \<Longrightarrow> cstr m b ys \<Longrightarrow> ys \<noteq> [] \<Longrightarrow> length ys < 2 ^ 32 \<Longrightarrow>
     ece391_strncmp_loop m a b (of_nat (length ys)) = 0 \<longleftrightarrow> take (length ys) xs = ys"
proof (induction ys arbitrary: a b xs)
  case (Cons y ys)
  have n: "(of_nat (length (y # ys)) :: u32) - 1 = of_nat (length ys)" by simp
  have z: "(of_nat (length ys) :: u32) = 0 \<longleftrightarrow> ys = []"
    using Cons.prems(4) unat_of_nat32 [of "length ys"] by (auto simp: unat_eq_0 [symmetric])
  show ?case
  proof (cases xs)
    case Nil
    then show ?thesis using Cons.prems by (subst ece391_strncmp_loop.simps) (auto simp: uint_0_iff)
  next
    case (Cons x xs')
    then show ?thesis using Cons.prems Cons.IH [of "a + 1" xs' "b + 1"]
      unfolding ece391_strncmp_loop.simps [of m a b] n z by (cases "ys = []") (auto simp: word_uint_eq_iff [symmetric])
  qed
qed simp

lemma ece391_strncmp_prefix:
  assumes "cstr m a xs" "cstr m b ys" "length ys < 2 ^ 32"
  shows "ece391_strncmp m a b (of_nat (length ys)) = 0 \<longleftrightarrow> take (length ys) xs = ys"
proof (cases "ys = []")
  case False
  then have "(of_nat (length ys) :: u32) \<noteq> 0"
    using assms(3) unat_of_nat32 [of "length ys"] by (auto simp: unat_eq_0 [symmetric])
  then show ?thesis using ece391_strncmp_loop_prefix [OF assms(1,2) False assms(3)] by (auto simp: ece391_strncmp_def)
qed (simp add: ece391_strncmp_def)

lemma ece391_strcpy_cstr:
  assumes "cstr m src xs" and "span dst (Suc (length xs)) \<inter> span src (Suc (length xs)) = {}"
  shows "ece391_strcpy m dst src = Some (wrs m dst (xs @ [0]))"
  using assms
proof (induction xs arbitrary: m dst src)
  case Nil
  then show ?case by (subst ece391_strcpy.simps) simp
next
  case (Cons x xs)
  have d: "span (dst + 1) (Suc (length xs)) \<inter> span (src + 1) (Suc (length xs)) = {}"
    "dst \<notin> span (src + 1) (Suc (length xs))"
    using Cons.prems(2) by (auto simp: span_Cons [of dst] span_Cons [of src])
  have "cstr (m(dst := x)) (src + 1) xs = cstr m (src + 1) xs" using d(2) by (intro cstr_cong) auto
  with Cons.prems(1) Cons.IH [OF _ d(1), of "m(dst := x)"] show ?case
    by (subst ece391_strcpy.simps) simp
qed

section \<open>Printing\<close>

text \<open>Nothing but memory, the screen, the ports and the scratch variables of the calls changes.\<close>

definition same_kernel :: "'a process_scheme \<Rightarrow> 'a process_scheme \<Rightarrow> bool" where
  "same_kernel s s' \<longleftrightarrow> s' = s\<lparr>mem := mem s', io := io s', iflag := iflag s', screen_x := screen_x s', screen_y := screen_y s',
     num_files_read := num_files_read s', temp_fd := temp_fd s'\<rparr>"

lemma same_kernel_refl [simp]: "same_kernel s s"
  by (simp add: same_kernel_def)

lemma same_kernel_update [simp]:
  "same_kernel s (s\<lparr>temp_fd := t\<rparr>)" "same_kernel s (s\<lparr>mem := m\<rparr>)" "same_kernel s (s\<lparr>num_files_read := k\<rparr>)"
  "same_kernel s (sti s)"
  by (simp_all add: same_kernel_def sti_def)

lemma same_kernel_trans: "same_kernel s s1 \<Longrightarrow> same_kernel s1 s2 \<Longrightarrow> same_kernel s s2"
proof -
  assume a: "same_kernel s s1" and b: "same_kernel s1 s2"
  have "s2 = s1\<lparr>mem := mem s2, io := io s2, iflag := iflag s2, screen_x := screen_x s2, screen_y := screen_y s2,
     num_files_read := num_files_read s2, temp_fd := temp_fd s2\<rparr>" using b by (simp only: same_kernel_def)
  also have "\<dots> = s\<lparr>mem := mem s2, io := io s2, iflag := iflag s2, screen_x := screen_x s2, screen_y := screen_y s2,
     num_files_read := num_files_read s2, temp_fd := temp_fd s2\<rparr>"
    by (subst a [unfolded same_kernel_def]) simp
  finally show ?thesis by (simp only: same_kernel_def)
qed

lemma same_kernel_fields:
  assumes "same_kernel s s'"
  shows "get_pcb s' = get_pcb s" "tables_ready s' = tables_ready s" "bootblock_addr s' = bootblock_addr s"
    "data_count s' = data_count s" "fops_at s' = fops_at s" "fd_table_addr s' = fd_table_addr s" "pcb_state s' = pcb_state s"
    "stdout_table_addr s' = stdout_table_addr s" "stdin_table_addr s' = stdin_table_addr s" "stdout_table s' = stdout_table s"
    "files_table_addr s' = files_table_addr s" "directory_table_addr s' = directory_table_addr s"
    "rtc_table_addr s' = rtc_table_addr s" "files_table s' = files_table s" "directory_table s' = directory_table s"
    "stdin_table s' = stdin_table s" "dev s' = dev s" "esp s' = esp s"
  by (subst assms [unfolded same_kernel_def];
    simp add: get_pcb_def tables_ready_def tables_init_def fops_at_def fd_table_addr_def fun_eq_iff)+

text \<open>The program wrote \<open>xs\<close> to the terminal; no byte outside \<open>W\<close> changed.\<close>

definition prints :: "u32 set \<Rightarrow> u8 list \<Rightarrow> 'a process_scheme \<Rightarrow> 'a process_scheme \<Rightarrow> bool" where
  "prints W xs s s' \<longleftrightarrow> on_screen s' \<and> tty_of s' = fold tty_putc xs (tty_of s) \<and>
     (\<forall>x. x \<notin> W \<longrightarrow> mem s' x = mem s x) \<and> same_kernel s s'"

lemma prints_Nil: "on_screen s \<Longrightarrow> prints W [] s s"
  by (simp add: prints_def)

lemma prints_append: "prints W xs s s1 \<Longrightarrow> prints W ys s1 s2 \<Longrightarrow> prints W (xs @ ys) s s2"
  unfolding prints_def using same_kernel_trans by auto

lemma prints_mono: "prints V xs s s' \<Longrightarrow> V \<subseteq> W \<Longrightarrow> prints W xs s s'"
  by (auto simp: prints_def)

lemma prints_cstr:
  "prints W xs s s' \<Longrightarrow> cstr (mem s) p ys \<Longrightarrow> span p (Suc (length ys)) \<inter> W = {} \<Longrightarrow> cstr (mem s') p ys"
  by (subst cstr_cong [of _ _ _ "mem s"]) (auto simp: prints_def)

subsection \<open>What the kernel promises a program that prints\<close>

locale std_output =
  fixes inv :: "'s \<Rightarrow> bool"
    and memory_of :: "'s \<Rightarrow> memory"
    and wr :: "u32 \<Rightarrow> int \<Rightarrow> 's \<Rightarrow> (int \<times> 's) option"
    and out :: "u8 list \<Rightarrow> 's \<Rightarrow> 's \<Rightarrow> bool"
    and area :: "u32 set"
  assumes write_law: "inv s \<Longrightarrow> p \<noteq> 0 \<Longrightarrow> n < 2 ^ 31 \<Longrightarrow> span p n \<inter> area = {} \<Longrightarrow> BACKSPACE \<notin> set (rds (memory_of s) p n) \<Longrightarrow>
      \<exists>s'. wr p (int n) s = Some (int n, s') \<and> out (rds (memory_of s) p n) s s' \<and> inv s'"
begin

lemma fdputs_law:
  assumes "inv s" and "cstr (memory_of s) p xs" and "p \<noteq> 0" "length xs < 2 ^ 31"
    and "span p (length xs) \<inter> area = {}" and "BACKSPACE \<notin> set xs"
  shows "\<exists>s'. do { n \<leftarrow> ece391_strlen (memory_of s) p; (r, s) \<leftarrow> wr p (sint n) s; Some s } = Some s' \<and> out xs s s' \<and> inv s'"
proof -
  have "rds (memory_of s) p (length xs) = xs" by (rule cstr_rds [OF assms(2)])
  with write_law [OF assms(1,3,4,5)] assms(6)
  show ?thesis using ece391_strlen_cstr [OF assms(2)] sint_of_nat_less [OF assms(4)] by auto
qed

end

definition stdout_ready :: "'a process_scheme \<Rightarrow> bool" where
  "stdout_ready s \<longleftrightarrow> tables_ready s \<and> on_screen s \<and> ld32 (mem s) (pcb_flags (get_pcb s) 1) \<noteq> 0 \<and>
     ld32 (mem s) (pcb_fops (get_pcb s) 1) = stdout_table_addr s \<and> span (get_pcb s) 128 \<inter> video = {}"

lemma fold_putc_as_update:
  "fold putc xs s = s\<lparr>mem := mem (fold putc xs s), io := io (fold putc xs s), screen_x := screen_x (fold putc xs s),
     screen_y := screen_y (fold putc xs s)\<rparr>"
  by (rule console.equality) simp_all

lemma fold_putc_same_kernel: "same_kernel s (fold putc xs s)"
proof -
  obtain m i x y where "fold putc xs s = s\<lparr>mem := m, io := i, screen_x := x, screen_y := y\<rparr>"
    using fold_putc_as_update by blast
  then show ?thesis by (simp add: same_kernel_def)
qed

lemma write_terminal_fold:
  assumes "on_screen s" and "span p n \<inter> video = {}" and "BACKSPACE \<notin> set (rds (mem s) p n)"
  shows "fold (\<lambda>i s. putc (mem s (p + of_nat i)) s) [0..<n] s = fold putc (rds (mem s) p n) s"
  using assms(2,3)
proof (induction n)
  case (Suc n)
  have r: "rds (mem s) p (Suc n) = rds (mem s) p n @ [mem s (p + of_nat n)]" by (simp add: rds_def)
  have "p + of_nat n \<notin> video" using Suc.prems(1) by (auto simp: span_Suc)
  then have "mem (fold putc (rds (mem s) p n) s) (p + of_nat n) = mem s (p + of_nat n)"
    using Suc.prems(2) r by (intro fold_putc_refines(3) [OF assms(1)]) auto
  then show ?case using Suc r by (auto simp: span_Suc)
qed simp

lemma stdout_fops:
  assumes "stdout_ready s"
  shows "\<exists>ops. fops_at s (ld32 (mem s) (pcb_fops (get_pcb s) 1)) = Some ops \<and> fop_write ops = Write_terminal"
  using assms by (auto simp: stdout_ready_def fops_at_def tables_ready_def tables_init_def)

lemma prints_stdout_ready:
  assumes p: "prints W xs s s'" and r: "stdout_ready s" and W: "fd_span (get_pcb s) 1 \<inter> W = {}"
  shows "stdout_ready s'"
proof -
  have k: "same_kernel s s'" and o: "on_screen s'" using p by (simp_all add: prints_def)
  have same: "mem s' x = mem s x" if "x \<in> fd_span (get_pcb s) 1" for x using p W that by (auto simp: prints_def)
  have "span (pcb_fops (get_pcb s) 1) 4 \<subseteq> fd_span (get_pcb s) 1"
    unfolding fd_span_def by (rule span_mono) simp
  then have "ld32 (mem s') (pcb_fops (get_pcb s) 1) = ld32 (mem s) (pcb_fops (get_pcb s) 1)"
    using same by (intro ld32_disjoint) blast
  moreover have "ld32 (mem s') (pcb_flags (get_pcb s) 1) = ld32 (mem s) (pcb_flags (get_pcb s) 1)"
    using same by (rule flags_cong)
  ultimately show ?thesis using r o unfolding stdout_ready_def same_kernel_fields [OF k] by simp
qed

lemma write_stdout:
  assumes r: "stdout_ready s" and p: "p \<noteq> 0" "n < 2 ^ 31" "span p n \<inter> video = {}" "BACKSPACE \<notin> set (rds (mem s) p n)"
  shows "\<exists>s'. ece391_write e 1 p (int n) s = Some (int n, s') \<and> (prints video (rds (mem s) p n) s s' \<and> num_files_read s' = num_files_read s) \<and>
     stdout_ready s'"
proof -
  let ?s = "s\<lparr>temp_fd := 1\<rparr>" and ?xs = "rds (mem s) p n"
  let ?s' = "fold putc ?xs ?s"
  obtain ops where ops: "fops_at s (ld32 (mem s) (pcb_fops (get_pcb s) 1)) = Some ops" "fop_write ops = Write_terminal"
    using stdout_fops [OF r] by blast
  have "fops_at ?s = fops_at s" by (simp add: fops_at_def fun_eq_iff)
  moreover have "sint (of_nat n :: u32) = int n" "on_screen ?s"
    using p(2) r sint_of_nat_less by (simp_all add: stdout_ready_def on_screen_def)
  moreover have "fold (\<lambda>i s. putc (mem s (p + of_nat i)) s) [0..<n] ?s = ?s'"
    using write_terminal_fold [of ?s p n] p(3,4) \<open>on_screen ?s\<close> by simp
  ultimately have "ece391_write e 1 p (int n) s = Some (int n, ?s')"
    using r p(1) ops
    by (simp add: ece391_write_def do_call_def syscall_def write_fd_def stdout_ready_def call_write_def write_terminal_def)
  moreover have "prints video ?xs s ?s'"
  proof -
    have "same_kernel s ?s'" by (rule same_kernel_trans [OF same_kernel_update(1) fold_putc_same_kernel])
    moreover have "tty_of ?s = tty_of s" by (simp add: tty_of_def)
    ultimately show ?thesis using fold_putc_refines [OF \<open>on_screen ?s\<close> p(4)] by (simp add: prints_def)
  qed
  moreover have "fd_span (get_pcb s) 1 \<inter> video = {}"
    using r fd_span_in_table [of 1 "get_pcb s"] unfolding stdout_ready_def by auto
  moreover have "num_files_read ?s' = num_files_read s" by (subst fold_putc_as_update) simp
  ultimately show ?thesis using prints_stdout_ready [OF _ r] by blast
qed

interpretation std_out: std_output stdout_ready mem "ece391_write e 1"
    "\<lambda>xs s s'. prints video xs s s' \<and> num_files_read s' = num_files_read s" video
  for e :: "'a process_scheme user_env"
  by unfold_locales (rule write_stdout)

lemma fdputs_stdout:
  assumes "stdout_ready s" and "cstr (mem s) p xs" and "p \<noteq> 0" "length xs < 2 ^ 31"
    and "span p (length xs) \<inter> video = {}" and "BACKSPACE \<notin> set xs"
  shows "\<exists>s'. ece391_fdputs e 1 p s = Some s' \<and> (prints video xs s s' \<and> num_files_read s' = num_files_read s) \<and> stdout_ready s'"
  using std_out.fdputs_law [OF assms] by (simp add: ece391_fdputs_def)

section \<open>A program to evaluate\<close>

text \<open>The process of the earlier examples with its standard descriptors open.\<close>

definition demo_user_mem :: memory where
  "demo_user_mem = st32 (st32 (st32 (st32 demo_mem (pcb_flags 0x7FE000 0) 1) (pcb_fops 0x7FE000 0) 0x503030)
     (pcb_flags 0x7FE000 1) 1) (pcb_fops 0x7FE000 1) 0x503040"

definition demo_user :: process where
  "demo_user = demo_process\<lparr>mem := demo_user_mem\<rparr>"

definition demo_env :: "process user_env" where
  "demo_env = \<lparr>exec_frames = [], irqs = (\<lambda>_. []), entry_local = 0x6000, run_program = (\<lambda>_ _. None), lit = (\<lambda>_. 0x5000)\<rparr>"

lemma demo_user_same: "x \<notin> span 0x7FE000 32 \<Longrightarrow> demo_user_mem x = demo_mem x"
proof -
  assume x: "x \<notin> span 0x7FE000 32"
  have "span (0x7FE000 + of_nat 0) 16 \<subseteq> span 0x7FE000 32" "span (0x7FE000 + of_nat 16) 16 \<subseteq> span 0x7FE000 32"
    by (rule sub_span; simp)+
  then have "x \<notin> fd_span 0x7FE000 0" "x \<notin> fd_span 0x7FE000 1" using x by (auto simp: fd_span_def pcb_fops_def)
  then show ?thesis by (simp add: demo_user_mem_def)
qed

lemma demo_user_image: "x \<in> span 0x1000 (fs_size demo_mem 0x1000) \<Longrightarrow> demo_user_mem x = demo_mem x"
proof -
  assume "x \<in> span 0x1000 (fs_size demo_mem 0x1000)"
  moreover have "span (0x1000 :: u32) 12288 \<inter> span 0x7FE000 32 = {}" by (rule span_disjoint_below) simp_all
  ultimately show ?thesis by (intro demo_user_same) (auto simp: demo_file)
qed

lemma demo_user_simps [simp]:
  "mem demo_user = demo_user_mem" "bootblock_addr demo_user = 0x1000" "get_pcb demo_user = 0x7FE000" "stdout_table_addr demo_user = 0x503040"
  "stdin_table_addr demo_user = 0x503030" "entry_local demo_env = 0x6000"
  by (simp_all add: demo_user_def demo_process_def get_pcb_def demo_env_def)

lemma demo_user_flags:
  "ld32 demo_user_mem (pcb_flags 0x7FE000 1) = 1" "ld32 demo_user_mem (pcb_fops 0x7FE000 1) = 0x503040"
  "ld32 demo_user_mem (pcb_flags 0x7FE000 0) = 1" "ld32 demo_user_mem (pcb_fops 0x7FE000 0) = 0x503030"
  by (simp_all add: demo_user_mem_def pcb_fd_defs mem_simps)

lemma demo_user_free:
  assumes "2 \<le> i" "i < 8"
  shows "ld32 demo_user_mem (pcb_flags 0x7FE000 i) = 0"
proof -
  have "span (0x7FE000 + of_nat (16 * nat i)) 16 \<inter> span 0x7FE000 32 = {}"
    using span_disjoint_offset [of 32 "16 * nat i" 16 "0x7FE000"] assms by (simp add: Int_commute)
  then have "fd_span 0x7FE000 i \<inter> span 0x7FE000 32 = {}" using assms by (simp add: fd_span_def pcb_fops_def)
  then have "ld32 demo_user_mem (pcb_flags 0x7FE000 i) = ld32 demo_mem (pcb_flags 0x7FE000 i)"
    by (intro flags_cong demo_user_same) blast
  then show ?thesis using demo_flags [of i] assms by simp
qed

lemma demo_user_lowest: "lowest_free demo_user_mem 0x7FE000 2"
  using demo_user_free [of 2] by (auto simp: lowest_free_def)

lemma demo_user_stdout: "stdout_ready demo_user"
proof -
  have "span (0x7FE000 :: u32) 128 \<inter> video = {}" by (rule span_disjoint_above) simp_all
  moreover have "tables_ready demo_user" by (simp add: demo_user_def demo_tables_ready)
  moreover have "on_screen demo_user" by (simp add: demo_user_def on_screen_def demo_process_def)
  ultimately show ?thesis by (simp add: stdout_ready_def demo_user_flags)
qed

section \<open>String literals in memory\<close>

text \<open>A memory that holds the literals \<open>ts\<close> of a program from 0x10000 on, one every 256 bytes.\<close>

definition lit_index :: "string list \<Rightarrow> string \<Rightarrow> nat" where
  "lit_index ts t = length (takeWhile (\<lambda>u. u \<noteq> t) ts)"

definition lit_addr :: "string list \<Rightarrow> string \<Rightarrow> u32" where
  "lit_addr ts t = 0x10000 + of_nat (256 * lit_index ts t)"

definition lit_mem :: "string list \<Rightarrow> memory \<Rightarrow> memory" where
  "lit_mem ts m a = (let k = unat (a - 0x10000); cs = chars (ts ! (k div 256))
     in if k < 256 * length ts then (if k mod 256 < length cs then cs ! (k mod 256) else 0) else m a)"

lemma lit_index_nth: "t \<in> set ts \<Longrightarrow> lit_index ts t < length ts \<and> ts ! lit_index ts t = t"
  by (induction ts) (auto simp: lit_index_def)

lemma lit_mem_outside: "256 * length ts \<le> 2 ^ 32 \<Longrightarrow> a \<notin> span 0x10000 (256 * length ts) \<Longrightarrow> lit_mem ts m a = m a"
  by (simp add: lit_mem_def in_span_unat)

lemma lit_addr_span: "t \<in> set ts \<Longrightarrow> k \<le> 256 \<Longrightarrow> span (lit_addr ts t) k \<subseteq> span 0x10000 (256 * length ts)"
  unfolding lit_addr_def by (rule sub_span) (use lit_index_nth [of t ts] in auto)

lemma lit_mem_cstr:
  assumes t: "t \<in> set ts" and n: "length t < 256" "0 \<notin> set (chars t)" and l: "256 * length ts \<le> 2 ^ 32"
  shows "cstr (lit_mem ts m) (lit_addr ts t) (chars t)"
proof -
  have at: "lit_mem ts m (lit_addr ts t + of_nat i) = (if i < length t then chars t ! i else 0)" if "i \<le> length t" for i
  proof -
    have k: "256 * lit_index ts t + i < 256 * length ts" using lit_index_nth [OF t] that n(1) by simp
    have "lit_addr ts t + of_nat i - 0x10000 = of_nat (256 * lit_index ts t + i)" by (simp add: lit_addr_def)
    then have "unat (lit_addr ts t + of_nat i - 0x10000) = 256 * lit_index ts t + i"
      using k l by (simp only: unsigned_of_nat) (simp add: take_bit_nat_eq_self)
    moreover have "(256 * lit_index ts t + i) div 256 = lit_index ts t" "(256 * lit_index ts t + i) mod 256 = i"
      using that n(1) by simp_all
    ultimately show ?thesis using k lit_index_nth [OF t] unfolding lit_mem_def Let_def by (simp add: length_chars)
  qed
  have "rds (lit_mem ts m) (lit_addr ts t) (length (chars t)) = chars t"
    by (rule nth_equalityI) (simp_all add: rds_def at length_chars)
  then show ?thesis by (rule cstr_of_rds) (use n(2) at [of "length t"] in \<open>simp_all add: length_chars\<close>)
qed

end
