(* ===== verification/Programs.thy ===== *)
theory Programs
  imports User
begin

text \<open>
  The user programs \<open>testprint\<close>, \<open>hello\<close>, \<open>cat\<close>, \<open>ls\<close>, \<open>counter\<close> and \<open>shell\<close>, with their
  local buffers at an address \<open>buf\<close>. The locale \<open>copy_program\<close> is what \<open>cat\<close> and \<open>ls\<close> share.
\<close>

section \<open>Definitions\<close>

definition testprint_main :: "'a process_scheme user_env \<Rightarrow> 'a process_scheme \<Rightarrow> (int \<times> 'a process_scheme) option" where
  "testprint_main e s = do {
     s \<leftarrow> ece391_fdputs e 1 (lit e (''Hello, if this ran, the program was correct. Yay!'' @ nl)) s;
     Some (0, s)
   }"

definition hello_main :: "'a process_scheme user_env \<Rightarrow> u32 \<Rightarrow> 'a process_scheme \<Rightarrow> (int \<times> 'a process_scheme) option" where
  "hello_main e buf s = do {
     s \<leftarrow> ece391_fdputs e 1 (lit e ''Hi, what's your name? '') s;
     (cnt, s) \<leftarrow> ece391_read e 0 buf 1023 s;
     if cnt = - 1 then do {
       s \<leftarrow> ece391_fdputs e 1 (lit e (''Can't read name from keyboard.'' @ nl)) s;
       Some (3, s)
     }
     else do {
       let s = s\<lparr>mem := (mem s)(buf + word_of_int cnt := 0)\<rparr>;
       s \<leftarrow> ece391_fdputs e 1 (lit e ''Hello, '') s;
       s \<leftarrow> ece391_fdputs e 1 buf s;
       Some (0, s)
     }
   }"

partial_function (option) cat_loop :: "'a process_scheme user_env \<Rightarrow> int \<Rightarrow> u32 \<Rightarrow> 'a process_scheme
    \<Rightarrow> (int \<times> 'a process_scheme) option" where
  "cat_loop e fd buf s = do {
     (cnt, s) \<leftarrow> ece391_read e fd buf 1024 s;
     if cnt = 0 then Some (0, s)
     else if cnt = - 1 then do {
       s \<leftarrow> ece391_fdputs e 1 (lit e (''file read failed'' @ nl)) s;
       Some (3, s)
     }
     else do {
       (r, s) \<leftarrow> ece391_write e 1 buf cnt s;
       if r = - 1 then Some (3, s) else cat_loop e fd buf s
     }
   }"

definition cat_main :: "'a process_scheme user_env \<Rightarrow> u32 \<Rightarrow> 'a process_scheme \<Rightarrow> (int \<times> 'a process_scheme) option" where
  "cat_main e buf s = do {
     (r, s) \<leftarrow> ece391_getargs e buf 1024 s;
     if r \<noteq> 0 then do {
       s \<leftarrow> ece391_fdputs e 1 (lit e (''could not read arguments'' @ nl)) s;
       Some (3, s)
     }
     else do {
       (fd, s) \<leftarrow> ece391_open e buf s;
       if fd = - 1 then do {
         s \<leftarrow> ece391_fdputs e 1 (lit e (''file not found'' @ nl)) s;
         Some (2, s)
       }
       else cat_loop e fd buf s
     }
   }"

partial_function (option) ls_loop :: "'a process_scheme user_env \<Rightarrow> int \<Rightarrow> u32 \<Rightarrow> 'a process_scheme
    \<Rightarrow> (int \<times> 'a process_scheme) option" where
  "ls_loop e fd buf s = do {
     (cnt, s) \<leftarrow> ece391_read e fd buf 32 s;
     if cnt = 0 then Some (0, s)
     else if cnt = - 1 then do {
       s \<leftarrow> ece391_fdputs e 1 (lit e (''directory entry read failed'' @ nl)) s;
       Some (3, s)
     }
     else do {
       let s = s\<lparr>mem := (mem s)(buf + word_of_int cnt := 10)\<rparr>;
       (r, s) \<leftarrow> ece391_write e 1 buf (cnt + 1) s;
       if r = - 1 then Some (3, s) else ls_loop e fd buf s
     }
   }"

definition ls_main :: "'a process_scheme user_env \<Rightarrow> u32 \<Rightarrow> 'a process_scheme \<Rightarrow> (int \<times> 'a process_scheme) option" where
  "ls_main e buf s = do {
     (fd, s) \<leftarrow> ece391_open e (lit e ''.'') s;
     if fd = - 1 then do {
       s \<leftarrow> ece391_fdputs e 1 (lit e (''directory open failed'' @ nl)) s;
       Some (2, s)
     }
     else ls_loop e fd buf s
   }"

partial_function (option) counter_loop :: "'a process_scheme user_env \<Rightarrow> (u32 \<Rightarrow> u8) \<Rightarrow> u32 \<Rightarrow> u32 \<Rightarrow> u32 \<Rightarrow> 'a process_scheme
    \<Rightarrow> 'a process_scheme option" where
  "counter_loop e stray buf mx i s =
     (if i < mx then do {
        m \<leftarrow> ece391_itoa stray (mem s) (i + 1) buf 10;
        s \<leftarrow> ece391_fdputs e 1 buf (s\<lparr>mem := m\<rparr>);
        s \<leftarrow> ece391_fdputs e 1 (lit e nl) s;
        counter_loop e stray buf mx (i + 1) s
      }
      else Some s)"

definition counter_main :: "'a process_scheme user_env \<Rightarrow> (u32 \<Rightarrow> u8) \<Rightarrow> u32 \<Rightarrow> 'a process_scheme
    \<Rightarrow> (int \<times> 'a process_scheme) option" where
  "counter_main e stray buf s = do {
     s \<leftarrow> ece391_fdputs e 1 (lit e (''Enter the Test Number: (0): 100, (1): 10000, (2): 100000'' @ nl)) s;
     (cnt, s) \<leftarrow> ece391_read e 0 buf 1023 s;
     if cnt = - 1 then do {
       s \<leftarrow> ece391_fdputs e 1 (lit e (''Can't read the number from keyboard.'' @ nl)) s;
       Some (3, s)
     }
     else do {
       let s = s\<lparr>mem := (mem s)(buf + word_of_int cnt := 0)\<rparr>;
       n \<leftarrow> ece391_strlen (mem s) buf;
       if n > 2 \<or> n = 2 \<and> (mem s buf < 48 \<or> mem s buf > 50) then do {
         s \<leftarrow> ece391_fdputs e 1 (lit e (''Wrong Choice!'' @ nl)) s;
         Some (0, s)
       }
       else do {
         let mx = (if mem s buf = 48 then 100 else if mem s buf = 49 then 10000 else if mem s buf = 50 then 100000 else 0);
         s \<leftarrow> counter_loop e stray buf mx 0 s;
         Some (0, s)
       }
     }
   }"

text \<open>The shell. The value of \<open>execute\<close> is that of the program, which comes back as its status.\<close>

partial_function (option) shell_loop :: "'a process_scheme user_env \<Rightarrow> u32 \<Rightarrow> 'a process_scheme
    \<Rightarrow> (int \<times> 'a process_scheme) option" where
  "shell_loop e buf s = do {
     s \<leftarrow> ece391_fdputs e 1 (lit e ''391OS> '') s;
     (cnt, s) \<leftarrow> ece391_read e 0 buf 1023 s;
     if cnt = - 1 then do {
       s \<leftarrow> ece391_fdputs e 1 (lit e (''read from keyboard failed'' @ nl)) s;
       Some (3, s)
     }
     else do {
       let cnt = (if cnt > 0 \<and> mem s (buf + word_of_int (cnt - 1)) = 10 then cnt - 1 else cnt);
       let s = s\<lparr>mem := (mem s)(buf + word_of_int cnt := 0)\<rparr>;
       r \<leftarrow> ece391_strcmp (mem s) buf (lit e ''exit'');
       if r = 0 then Some (0, s)
       else if mem s buf = 0 then shell_loop e buf s
       else do {
         (rval, s) \<leftarrow> ece391_execute e buf s;
         if rval = - 1 then do { s \<leftarrow> ece391_fdputs e 1 (lit e (''no such command'' @ nl)) s; shell_loop e buf s }
         else if rval = 256 then
           do { s \<leftarrow> ece391_fdputs e 1 (lit e (''program terminated by exception'' @ nl)) s; shell_loop e buf s }
         else if rval \<noteq> 0 then
           do { s \<leftarrow> ece391_fdputs e 1 (lit e (''program terminated abnormally'' @ nl)) s; shell_loop e buf s }
         else shell_loop e buf s
       }
     }
   }"

definition shell_main :: "'a process_scheme user_env \<Rightarrow> u32 \<Rightarrow> 'a process_scheme \<Rightarrow> (int \<times> 'a process_scheme) option" where
  "shell_main e buf s = do {
     s \<leftarrow> ece391_fdputs e 1 (lit e (''Starting 391 Shell'' @ nl)) s;
     shell_loop e buf s
   }"

section \<open>Copying what a descriptor delivers to the screen\<close>

text \<open>\<open>cat\<close> and \<open>ls\<close> read until a read delivers nothing and write each piece. What is left to deliver is
  \<open>rest\<close>, a list of bytes or of names, and \<open>render\<close> is how it looks on the screen.\<close>

locale copy_program =
  fixes loop :: "'s \<Rightarrow> (int \<times> 's) option"
    and rd :: "'s \<Rightarrow> (int \<times> 's) option"
    and wr :: "int \<Rightarrow> 's \<Rightarrow> (int \<times> 's) option"
    and failed :: "'s \<Rightarrow> (int \<times> 's) option"
    and inv :: "'s \<Rightarrow> bool"
    and rest :: "'s \<Rightarrow> 'b list"
    and render :: "'b list \<Rightarrow> u8 list"
    and out :: "u8 list \<Rightarrow> 's \<Rightarrow> 's \<Rightarrow> bool"
  assumes loop_eq: "loop s = do {
      (cnt, s) \<leftarrow> rd s;
      if cnt = 0 then Some (0, s) else if cnt = - 1 then failed s
      else do { (r, s) \<leftarrow> wr cnt s; if r = - 1 then Some (3, s) else loop s } }"
    and end_law: "inv s \<Longrightarrow> rest s = [] \<Longrightarrow> \<exists>s'. rd s = Some (0, s') \<and> out (render []) s s'"
    and step_law: "inv s \<Longrightarrow> rest s \<noteq> [] \<Longrightarrow> \<exists>k cnt s1 r s2. 0 < k \<and> cnt \<noteq> 0 \<and> cnt \<noteq> - 1 \<and> rd s = Some (cnt, s1) \<and>
      wr cnt s1 = Some (r, s2) \<and> r \<noteq> - 1 \<and> inv s2 \<and> rest s2 = drop k (rest s) \<and> out (render (take k (rest s))) s s2"
    and render_append: "render (xs @ ys) = render xs @ render ys"
    and out_append: "out a s s1 \<Longrightarrow> out b s1 s2 \<Longrightarrow> out (a @ b) s s2"
begin

lemma copies: "inv s \<Longrightarrow> \<exists>s'. loop s = Some (0, s') \<and> out (render (rest s)) s s'"
proof (induction "length (rest s)" arbitrary: s rule: less_induct)
  case less
  show ?case
  proof (cases "rest s = []")
    case True
    then show ?thesis using end_law [OF less.prems] by (subst loop_eq) auto
  next
    case False
    then obtain k cnt s1 r s2 where k: "0 < k" and st: "cnt \<noteq> 0" "cnt \<noteq> - 1" "rd s = Some (cnt, s1)" "wr cnt s1 = Some (r, s2)"
        "r \<noteq> - 1" and inv: "inv s2" and rest: "rest s2 = drop k (rest s)" and out: "out (render (take k (rest s))) s s2"
      using step_law [OF less.prems] by blast
    have "length (rest s2) < length (rest s)" using rest k False by simp
    then obtain s' where s': "loop s2 = Some (0, s')" "out (render (rest s2)) s2 s'" using less.hyps inv by blast
    have "loop s = Some (0, s')" using st s'(1) by (subst loop_eq) simp
    moreover have "render (take k (rest s)) @ render (rest s2) = render (rest s)"
      by (simp add: rest render_append [symmetric])
    ultimately show ?thesis using out_append [OF out s'(2)] by auto
  qed
qed

end

subsection \<open>Regular files\<close>

text \<open>A descriptor stays as it is when neither the image nor the descriptor table changes.\<close>

lemma file_bytes_cong:
  assumes agree: "\<And>x. x \<in> span bb (fs_size m bb) \<Longrightarrow> m' x = m x" and ok: "file_ok m bb n"
  shows "file_bytes m' bb n = file_bytes m bb n"
proof -
  have n: "n < bb_inode_count m bb" using ok by (simp add: file_ok_def)
  have "file_length m' bb n = file_length m bb n" by (rule file_cong(1) [OF agree n])
  then show ?thesis
    unfolding file_bytes_def using file_ok_block [OF ok] by (intro map_cong file_byte_cong [OF agree n]) auto
qed

lemma pcb_file_pos_in_fd_span: "span (pcb_file_pos p i) 4 \<subseteq> fd_span p i"
  unfolding fd_span_def using sub_span [of 8 4 16 "pcb_fops p i"] by (simp add: pcb_fd_defs)

lemma pcb_inode_in_fd_span: "span (pcb_inode p i) 4 \<subseteq> fd_span p i"
  unfolding fd_span_def using sub_span [of 4 4 16 "pcb_fops p i"] by (simp add: pcb_fd_defs)

lemma fd_reading_frame:
  assumes fd: "fd_reading fd buf n s" and k: "same_kernel s s'"
    and same: "\<And>x. x \<in> fd_span (get_pcb s) fd \<union> span (bootblock_addr s) (fs_size (mem s) (bootblock_addr s)) \<Longrightarrow> mem s' x = mem s x"
  shows "fd_reading fd buf n s'" "fd_pos fd s' = fd_pos fd s" "fd_content fd s' = fd_content fd s"
proof -
  note f = same_kernel_fields [OF k]
  have agree: "mem s' x = mem s x" if "x \<in> span (bootblock_addr s) (fs_size (mem s) (bootblock_addr s))" for x
    using same that by blast
  have fd8: "0 \<le> fd" "fd < 8" and ok: "file_ok (mem s) (bootblock_addr s) (fd_inode fd s)"
    using fd by (simp_all add: fd_reading_def)
  have l: "ld32 (mem s') (pcb_inode (get_pcb s) fd) = ld32 (mem s) (pcb_inode (get_pcb s) fd)"
    "ld32 (mem s') (pcb_file_pos (get_pcb s) fd) = ld32 (mem s) (pcb_file_pos (get_pcb s) fd)"
    using pcb_inode_in_fd_span pcb_file_pos_in_fd_span same by (intro ld32_disjoint; blast)+
  have i: "fd_inode fd s' = fd_inode fd s" and p: "fd_pos fd s' = fd_pos fd s"
    by (simp_all add: fd_inode_def fd_pos_def f l)
  note c = image_counts_cong [of "bootblock_addr s" "mem s" "mem s'", OF agree]
  have n: "fd_inode fd s < bb_inode_count (mem s) (bootblock_addr s)" using ok by (simp add: file_ok_def)
  have len: "file_length (mem s') (bootblock_addr s) (fd_inode fd s) = file_length (mem s) (bootblock_addr s) (fd_inode fd s)"
    by (rule file_cong(1) [OF agree n])
  show "fd_pos fd s' = fd_pos fd s" by (rule p)
  show "fd_content fd s' = fd_content fd s"
    using file_bytes_cong [OF agree ok] by (simp add: fd_content_def i f)
  show "fd_reading fd buf n s'"
    using fd file_ok_cong [OF agree ok] by (simp add: fd_reading_def mounted_def i p f c len)
qed

lemma read_regular:
  assumes "tables_ready s" and "2 \<le> fd" "fd \<le> 7" "buf \<noteq> 0" "0 \<le> n" "n < 2 ^ 31"
    and "ld32 (mem s) (pcb_flags (get_pcb s) fd) \<noteq> 0" "ld32 (mem s) (pcb_fops (get_pcb s) fd) = files_table_addr s"
  shows "ece391_read e fd buf n s = Some (file_read fd buf n (sti s))"
proof -
  have "sint (word_of_int fd :: u32) = fd" "sint (word_of_int n :: u32) = n"
    using assms(2-6) sint_of_nat_less [of "nat fd"] sint_of_nat_less [of "nat n"] by simp_all
  moreover have "fops_at (sti s) (files_table_addr s) = Some (files_table s)" "mem (sti s) = mem s" "get_pcb (sti s) = get_pcb s"
    by (simp_all add: fops_at_def sti_def get_pcb_def)
  moreover have "fop_read (files_table s) = File_read" using assms(1) by (simp add: tables_ready_def tables_init_def)
  ultimately show ?thesis
    using assms by (simp add: ece391_read_def do_call_def syscall_def read_fd_def call_read_def case_prod_beta)
qed

lemma pcb_words_apart:
  "span (pcb_flags p i) 4 \<inter> span (pcb_file_pos p i) 4 = {}" "span (pcb_fops p i) 4 \<inter> span (pcb_file_pos p i) 4 = {}"
  using span_disjoint_offset [of 4 4 4 "pcb_file_pos p i"] span_disjoint_offset [of 4 8 4 "pcb_fops p i"]
  by (simp_all add: pcb_fd_defs Int_commute add.commute add.left_commute)

text \<open>A program with a file open and a buffer of \<open>sz\<close> bytes.\<close>

definition file_ready :: "u32 \<Rightarrow> int \<Rightarrow> u32 \<Rightarrow> int \<Rightarrow> 'a process_scheme \<Rightarrow> bool" where
  "file_ready p fd buf sz s \<longleftrightarrow> get_pcb s = p \<and> stdout_ready s \<and> fd_reading fd buf sz s \<and> 2 \<le> fd \<and> buf \<noteq> 0 \<and>
     ld32 (mem s) (pcb_flags p fd) \<noteq> 0 \<and> ld32 (mem s) (pcb_fops p fd) = files_table_addr s \<and>
     span buf (nat sz) \<inter> video = {} \<and> span (bootblock_addr s) (fs_size (mem s) (bootblock_addr s)) \<inter> video = {} \<and>
     BACKSPACE \<notin> set (fd_content fd s)"

definition cat_area :: "u32 \<Rightarrow> u32 \<Rightarrow> u32 set" where
  "cat_area p buf = span buf 1024 \<union> span p 128 \<union> video"

text \<open>One read: the next \<open>sz\<close> bytes of the file, or what is left of it.\<close>

lemma file_ready_read:
  assumes r: "file_ready p fd buf sz s"
  defines "xs \<equiv> take (nat sz) (drop (fd_pos fd s) (fd_content fd s))"
  shows "\<exists>s1. ece391_read e fd buf sz s = Some (int (length xs), s1) \<and> file_ready p fd buf sz s1 \<and> rds (mem s1) buf (length xs) = xs \<and>
     fd_pos fd s1 = fd_pos fd s + length xs \<and> fd_content fd s1 = fd_content fd s \<and> num_files_read s1 = num_files_read s \<and>
     fs_size (mem s1) (bootblock_addr s1) = fs_size (mem s) (bootblock_addr s) \<and> prints (span buf (nat sz) \<union> fd_span p fd) [] s s1"
proof -
  have fd: "fd_reading fd buf sz s" "2 \<le> fd" "fd \<le> 7" "get_pcb s = p" and so: "stdout_ready s"
    using r by (auto simp: file_ready_def fd_reading_def)
  have sz: "0 \<le> sz" "sz < 2 ^ 31" using fd(1) by (simp_all add: fd_reading_def)
  have fds: "fd_reading fd buf sz (sti s)" "fd_pos fd (sti s) = fd_pos fd s" "fd_content fd (sti s) = fd_content fd s"
    by (rule fd_reading_frame [OF fd(1) same_kernel_update(4)]; simp add: sti_def)+
  let ?bb = "bootblock_addr s" and ?I = "span (bootblock_addr s) (fs_size (mem s) (bootblock_addr s))"
  obtain c m' where m': "file_read fd buf sz (sti s) = (int c, (sti s)\<lparr>mem := m'\<rparr>)" "rds m' buf c = xs"
      "\<And>x. x \<in> ?I \<Longrightarrow> m' x = mem s x" "\<And>x. x \<notin> span buf (nat sz) \<Longrightarrow> x \<notin> span (pcb_file_pos p fd) 4 \<Longrightarrow> m' x = mem s x"
    using file_read_ok [OF fds(1)] fd(4) unfolding fds xs_def by (auto simp: sti_def get_pcb_def)
  define s1 where "s1 = (sti s)\<lparr>mem := m'\<rparr>"
  have c: "c = length xs" using m'(2) by (metis length_rds)
  have k: "same_kernel s s1" unfolding s1_def by (rule same_kernel_trans [OF same_kernel_update(4) same_kernel_update(2)])
  have p128: "span (pcb_file_pos p fd) 4 \<subseteq> span p 128" using pcb_fds_spans(2) [of fd p] fd by simp
  have d: "span buf (nat sz) \<inter> video = {}" "span buf (nat sz) \<inter> span p 128 = {}" "span p 128 \<inter> video = {}" "?I \<inter> video = {}"
    using r so by (auto simp: file_ready_def fd_reading_def stdout_ready_def)
  have "file_chunk fd buf sz (sti s) = (xs, s1)" using m'(1,2) by (simp add: file_chunk_def s1_def)
  note law = file_chunk_law [OF fds(1) this, unfolded fds]
  have "tty_of s1 = tty_of s" "on_screen s1"
    using so d(1,3) p128 m'(4) by (auto simp: s1_def stdout_ready_def on_screen_def sti_def tty_of_def intro!: screen_cong)
  then have pr: "prints (span buf (nat sz) \<union> span (pcb_file_pos p fd) 4) [] s s1" using k m'(4) by (simp add: prints_def s1_def)
  have t: "fd_span p fd \<inter> fd_span p 1 = {}" "fd_span p 1 \<subseteq> span p 128"
    using fd_spans_apart [of fd 1 p] fd_span_in_table [of 1 p] fd by simp_all
  then have so1: "stdout_ready s1" using prints_stdout_ready [OF pr so] pcb_file_pos_in_fd_span [of p fd] d(2) fd(4) by blast
  have f128: "span (pcb_flags p fd) 4 \<subseteq> span p 128" "span (pcb_fops p fd) 4 \<subseteq> span p 128"
    using fd_span_in_table [of fd p] flags_in_fd_span [of p fd] span_mono [of 4 16 "pcb_fops p fd"] fd by (auto simp: fd_span_def)
  have "ld32 m' (pcb_flags p fd) = ld32 (mem s) (pcb_flags p fd)" "ld32 m' (pcb_fops p fd) = ld32 (mem s) (pcb_fops p fd)"
    using m'(4) pcb_words_apart [of p fd] f128 d(2) by (intro ld32_disjoint; blast)+
  moreover have "fs_size m' ?bb = fs_size (mem s) ?bb" by (rule image_counts_cong(3) [OF m'(3)])
  ultimately have "file_ready p fd buf sz s1"
    using r so1 law unfolding file_ready_def same_kernel_fields [OF k] by (simp add: s1_def)
  moreover have "prints (span buf (nat sz) \<union> fd_span p fd) [] s s1"
    by (rule prints_mono [OF pr]) (use pcb_file_pos_in_fd_span [of p fd] in blast)
  moreover have "fs_size (mem s1) (bootblock_addr s1) = fs_size (mem s) (bootblock_addr s)"
    using image_counts_cong(3) [OF m'(3)] by (simp add: s1_def sti_def)
  moreover have "ece391_read e fd buf sz s = Some (int (length xs), s1)"
    using read_regular [of s fd buf sz e] r m'(1) c fd so sz by (simp add: file_ready_def stdout_ready_def s1_def)
  moreover have "num_files_read s1 = num_files_read s" by (simp add: s1_def sti_def)
  ultimately show ?thesis using law m'(2) c by (auto simp: s1_def)
qed

lemma file_ready_apart:
  assumes r: "file_ready p fd buf sz s" and pr: "prints W xs s s'"
    and W: "W \<inter> (fd_span p fd \<union> fd_span p 1 \<union> span (bootblock_addr s) (fs_size (mem s) (bootblock_addr s))) = {}"
  shows "file_ready p fd buf sz s'" "fd_pos fd s' = fd_pos fd s" "fd_content fd s' = fd_content fd s"
    "fs_size (mem s') (bootblock_addr s') = fs_size (mem s) (bootblock_addr s)"
proof -
  have k: "same_kernel s s'" and same: "\<And>x. x \<notin> W \<Longrightarrow> mem s' x = mem s x" using pr by (auto simp: prints_def)
  have fd: "fd_reading fd buf sz s" and p: "get_pcb s = p" using r by (auto simp: file_ready_def)
  have so: "stdout_ready s'"
    by (rule prints_stdout_ready [OF pr]) (use r W p in \<open>auto simp: file_ready_def\<close>)
  have agree: "mem s' x = mem s x" if "x \<in> fd_span (get_pcb s) fd \<union> span (bootblock_addr s) (fs_size (mem s) (bootblock_addr s))" for x
    using that W p by (intro same) blast
  note fr = fd_reading_frame [OF fd k agree]
  have "span (pcb_fops p fd) 4 \<subseteq> fd_span p fd" using span_mono [of 4 16 "pcb_fops p fd"] by (auto simp: fd_span_def)
  then have "ld32 (mem s') (pcb_flags p fd) = ld32 (mem s) (pcb_flags p fd)" "ld32 (mem s') (pcb_fops p fd) = ld32 (mem s) (pcb_fops p fd)"
    using flags_in_fd_span [of p fd] agree p by (intro ld32_disjoint; blast)+
  moreover have c: "fs_size (mem s') (bootblock_addr s) = fs_size (mem s) (bootblock_addr s)" by (rule image_counts_cong(3)) (use agree in blast)
  ultimately show "file_ready p fd buf sz s'" using r so fr unfolding file_ready_def same_kernel_fields [OF k] by simp
  show "fd_pos fd s' = fd_pos fd s" "fd_content fd s' = fd_content fd s" using fr by simp_all
  show "fs_size (mem s') (bootblock_addr s') = fs_size (mem s) (bootblock_addr s)" using c by (simp add: same_kernel_fields [OF k])
qed

lemma file_ready_prints:
  assumes r: "file_ready p fd buf sz s" and pr: "prints W xs s s'"
    and W: "W \<inter> (span p 128 \<union> span (bootblock_addr s) (fs_size (mem s) (bootblock_addr s))) = {}"
  shows "file_ready p fd buf sz s'" "fd_pos fd s' = fd_pos fd s" "fd_content fd s' = fd_content fd s"
    "fs_size (mem s') (bootblock_addr s') = fs_size (mem s) (bootblock_addr s)"
proof -
  have "fd_span p fd \<subseteq> span p 128" "fd_span p 1 \<subseteq> span p 128"
    using r fd_span_in_table [of fd p] fd_span_in_table [of 1 p] by (auto simp: file_ready_def fd_reading_def)
  then have "W \<inter> (fd_span p fd \<union> fd_span p 1 \<union> span (bootblock_addr s) (fs_size (mem s) (bootblock_addr s))) = {}" using W by blast
  note a = file_ready_apart [OF r pr this]
  show "file_ready p fd buf sz s'" "fd_pos fd s' = fd_pos fd s" "fd_content fd s' = fd_content fd s"
    "fs_size (mem s') (bootblock_addr s') = fs_size (mem s) (bootblock_addr s)" by (rule a)+
qed

text \<open>A part of the buffer, and the whole one again.\<close>

lemma file_ready_buffer:
  assumes r: "file_ready p fd buf sz s" and b: "buf' \<noteq> 0" "0 \<le> sz'" "sz' < 2 ^ 30"
    and sub: "span buf' (nat sz') \<inter> (span (bootblock_addr s) (fs_size (mem s) (bootblock_addr s)) \<union> span p 128 \<union> video) = {}"
  shows "file_ready p fd buf' sz' s"
  using assms unfolding file_ready_def fd_reading_def by auto

lemma take_length_take: "take (length (take n ys)) ys = take n ys"
  by (simp add: min_def)

lemma take_append_rest: "take n ys @ drop (length (take n ys)) ys = ys"
  by (metis append_take_drop_id take_length_take)

lemma cat_step:
  assumes r: "file_ready p fd buf 1024 s" and rest: "drop (fd_pos fd s) (fd_content fd s) \<noteq> []"
  shows "\<exists>k cnt s1 r s2. 0 < k \<and> cnt \<noteq> 0 \<and> cnt \<noteq> - 1 \<and> ece391_read e fd buf 1024 s = Some (cnt, s1) \<and>
     ece391_write e 1 buf cnt s1 = Some (r, s2) \<and> r \<noteq> - 1 \<and> file_ready p fd buf 1024 s2 \<and>
     drop (fd_pos fd s2) (fd_content fd s2) = drop k (drop (fd_pos fd s) (fd_content fd s)) \<and>
     prints (cat_area p buf) (take k (drop (fd_pos fd s) (fd_content fd s))) s s2"
proof -
  define xs where "xs = take 1024 (drop (fd_pos fd s) (fd_content fd s))"
  obtain s1 where s1: "ece391_read e fd buf 1024 s = Some (int (length xs), s1)" "file_ready p fd buf 1024 s1" "rds (mem s1) buf (length xs) = xs"
      "fd_pos fd s1 = fd_pos fd s + length xs" "fd_content fd s1 = fd_content fd s" "prints (span buf 1024 \<union> fd_span p fd) [] s s1"
    using file_ready_read [OF r, of e, unfolded nat_numeral, folded xs_def] by blast
  have n: "0 < length xs" "length xs \<le> 1024" using rest by (auto simp: xs_def)
  have "span buf 1024 \<inter> video = {}" using s1(2) by (simp add: file_ready_def)
  then have "span buf (length xs) \<inter> video = {}" using span_mono [OF n(2), of buf] by blast
  moreover have "BACKSPACE \<notin> set (rds (mem s1) buf (length xs))"
    using r unfolding s1(3) by (auto simp: xs_def file_ready_def dest: in_set_takeD in_set_dropD)
  ultimately obtain s2 where s2: "ece391_write e 1 buf (int (length xs)) s1 = Some (int (length xs), s2)" "prints video xs s1 s2" "stdout_ready s2"
    using write_stdout [of s1 buf "length xs" e] s1(2,3) n(2) by (auto simp: file_ready_def)
  have "video \<inter> (span p 128 \<union> span (bootblock_addr s1) (fs_size (mem s1) (bootblock_addr s1))) = {}"
    using s1(2) by (auto simp: file_ready_def stdout_ready_def)
  note c2 = file_ready_prints [OF s1(2) s2(2) this]
  have "fd_span p fd \<subseteq> span p 128" by (rule fd_span_in_table) (use r in \<open>auto simp: file_ready_def fd_reading_def\<close>)
  then have "prints (cat_area p buf) ([] @ xs) s s2"
    by (intro prints_append [OF prints_mono [OF s1(6)] prints_mono [OF s2(2)]]) (auto simp: cat_area_def)
  moreover have "take (length xs) (drop (fd_pos fd s) (fd_content fd s)) = xs"
    unfolding xs_def by (rule take_length_take)
  ultimately show ?thesis using n(1) s1 s2(1) c2
    by (intro exI [of _ "length xs"] exI [of _ "int (length xs)"] exI [of _ s1] exI [of _ s2]) (simp add: add.commute)
qed

lemma cat_end:
  assumes r: "file_ready p fd buf 1024 s" and rest: "drop (fd_pos fd s) (fd_content fd s) = []"
  shows "\<exists>s'. ece391_read e fd buf 1024 s = Some (0, s') \<and> prints (cat_area p buf) [] s s'"
proof -
  obtain s1 where s1: "ece391_read e fd buf 1024 s = Some (0, s1)" "prints (span buf 1024 \<union> fd_span p fd) [] s s1"
    using file_ready_read [OF r, of e] rest by auto
  have "fd_span p fd \<subseteq> span p 128" by (rule fd_span_in_table) (use r in \<open>auto simp: file_ready_def fd_reading_def\<close>)
  then have "prints (cat_area p buf) [] s s1" by (intro prints_mono [OF s1(2)]) (auto simp: cat_area_def)
  with s1(1) show ?thesis by blast
qed

interpretation cat: copy_program "cat_loop e fd buf" "ece391_read e fd buf 1024" "ece391_write e 1 buf"
    "\<lambda>s. do { s \<leftarrow> ece391_fdputs e 1 (lit e (''file read failed'' @ nl)) s; Some (3, s) }"
    "file_ready p fd buf 1024" "\<lambda>s. drop (fd_pos fd s) (fd_content fd s)" "\<lambda>xs. xs" "prints (cat_area p buf)"
  for e fd buf p
proof unfold_locales
  show "cat_loop e fd buf s = do {
      (cnt, s) \<leftarrow> ece391_read e fd buf 1024 s;
      if cnt = 0 then Some (0, s) else if cnt = - 1 then do { s \<leftarrow> ece391_fdputs e 1 (lit e (''file read failed'' @ nl)) s; Some (3, s) }
      else do { (r, s) \<leftarrow> ece391_write e 1 buf cnt s; if r = - 1 then Some (3, s) else cat_loop e fd buf s } }" for s
    by (rule cat_loop.simps)
qed (rule cat_end cat_step prints_append refl; assumption)+

text \<open>The argument of a program reaches its buffer.\<close>

lemma args_copied:
  assumes a: "cstr (mem s) (pcb_args (get_pcb s)) name" "length name < 128" "buf \<noteq> 0" "span buf 1024 \<inter> span (get_pcb s) 256 = {}"
  shows "\<exists>m1. ece391_getargs e buf 1024 s = Some (0, s\<lparr>mem := m1\<rparr>) \<and> cstr m1 buf name \<and> (\<forall>x. x \<notin> span buf 1024 \<longrightarrow> m1 x = mem s x)"
proof -
  let ?p = "get_pcb s"
  have sub: "span buf (Suc (length name)) \<subseteq> span buf 1024" by (rule span_mono) (use a in simp)
  moreover have "span (pcb_args ?p) (Suc (length name)) \<subseteq> span ?p 256"
    using sub_span [of 128 "Suc (length name)" 256 ?p] a(2) by (simp add: pcb_args_def)
  ultimately have "span buf (Suc (length name)) \<inter> span (pcb_args ?p) (Suc (length name)) = {}" using a(4) by blast
  from getargs_copies [OF a(1) _ _ this, of 1024] a obtain m1 where "getargs buf 1024 s = Some (0, s\<lparr>mem := m1\<rparr>)" "cstr m1 buf name"
      "\<And>x. x \<notin> span buf (Suc (length name)) \<Longrightarrow> m1 x = mem s x" by auto
  then show ?thesis using sub by (auto simp: ece391_getargs_def do_call_def syscall_def)
qed

text \<open>The memory \<open>cat\<close> works on, and a file it can show.\<close>

definition cat_call :: "'a process_scheme user_env \<Rightarrow> u32 \<Rightarrow> u8 list \<Rightarrow> nat \<Rightarrow> u32 \<Rightarrow> 'a process_scheme \<Rightarrow> bool" where
  "cat_call e buf name x n s \<longleftrightarrow> names_file (mem s) (bootblock_addr s) name x n \<and> mounted s \<and> stdout_ready s \<and>
     cstr (mem s) (pcb_args (get_pcb s)) name \<and> name \<noteq> [] \<and> length name \<le> 32 \<and> buf \<noteq> 0 \<and>
     apart [(entry_local e, 40), (bootblock_addr s, fs_size (mem s) (bootblock_addr s)), (get_pcb s, 256), (buf, 1024), (VIDEO, 4000)] \<and>
     BACKSPACE \<notin> set (file_bytes (mem s) (bootblock_addr s) n)"

lemma cat_args:
  assumes "cat_call e buf name x n s"
  shows "\<exists>m1. ece391_getargs e buf 1024 s = Some (0, s\<lparr>mem := m1\<rparr>) \<and> cstr m1 buf name \<and> (\<forall>x. x \<notin> span buf 1024 \<longrightarrow> m1 x = mem s x)"
  by (rule args_copied) (use assms in \<open>auto simp: cat_call_def\<close>)

text \<open>Opening a regular file for reading.\<close>

lemma file_opens:
  fixes s :: "'a process_scheme"
  defines "p \<equiv> get_pcb s" and "I \<equiv> span (bootblock_addr s) (fs_size (mem s) (bootblock_addr s))"
  assumes nf: "names_file (mem s) (bootblock_addr s) name x n" and mt: "mounted s" and so: "stdout_ready s"
    and nm: "cstr (mem s) fname name" "fname \<noteq> 0" "name \<noteq> []" "length name \<le> 32" and lf: "lowest_free (mem s) p fd"
    and d: "span (entry_local e) 40 \<inter> I = {}" "span (entry_local e) 40 \<inter> span p 128 = {}" "I \<inter> span p 128 = {}"
      "span (entry_local e) 40 \<inter> video = {}" "I \<inter> video = {}"
    and buf: "buf \<noteq> 0" "0 \<le> sz" "sz < 2 ^ 30" "span buf (nat sz) \<inter> (I \<union> span p 128 \<union> video) = {}"
    and bs: "BACKSPACE \<notin> set (file_bytes (mem s) (bootblock_addr s) n)"
  shows "\<exists>s'. ece391_open e fname s = Some (fd, s') \<and> file_ready p fd buf sz s' \<and> fd_pos fd s' = 0 \<and>
     fd_content fd s' = file_bytes (mem s) (bootblock_addr s) n \<and> num_files_read s' = num_files_read s \<and>
     prints (span (entry_local e) 40 \<union> fd_span p fd) [] s s'"
proof -
  let ?bb = "bootblock_addr s" and ?W = "span (entry_local e) 40 \<union> fd_span p fd"
  have i: "2 \<le> fd" "fd \<le> 7" using lf by (simp_all add: lowest_free_def)
  have fp: "fd_span p fd \<subseteq> span p 128" "fd_span p 1 \<subseteq> span p 128" "fd_span p fd \<inter> fd_span p 1 = {}"
    using fd_span_in_table [of fd p] fd_span_in_table [of 1 p] fd_spans_apart [of fd 1 p] i by simp_all
  have v: "span p 128 \<inter> video = {}" "tables_ready s" "on_screen s" using so by (simp_all add: stdout_ready_def p_def)
  have ne: "named_entry (entry_local e) fname name x s"
    using nf nm d(1,2) boot_block_in_image [of ?bb "mem s"] by (auto simp: named_entry_def names_file_def p_def I_def)
  from open_regular_file [OF ne v(2), of fd] lf nf obtain m2 where m2: "open_fd (entry_local e) fname s = Some (fd, s\<lparr>mem := m2\<rparr>)"
      "ld32 m2 (pcb_flags p fd) = 1" "ld32 m2 (pcb_fops p fd) = files_table_addr s" "ld32 m2 (pcb_inode p fd) = n"
      "ld32 m2 (pcb_file_pos p fd) = 0" "\<And>x. x \<notin> ?W \<Longrightarrow> m2 x = mem s x"
    unfolding names_file_def p_def by auto
  let ?s2 = "s\<lparr>mem := m2\<rparr>"
  have agree: "m2 x = mem s x" if "x \<in> I" for x
    by (rule m2(6)) (use that d(1,3) fp(1) in blast)
  have "tty_of ?s2 = tty_of s" using m2(6) d(4) v(1) fp(1) by (intro tty_of_mem) blast
  moreover have "on_screen ?s2" using v(3) by (simp add: on_screen_def)
  ultimately have pr: "prints ?W [] s ?s2" using m2(6) by (simp add: prints_def)
  have so2: "stdout_ready ?s2" using prints_stdout_ready [OF pr so] d(2) fp unfolding p_def by blast
  have f: "fd_inode fd ?s2 = n" "fd_pos fd ?s2 = 0" "get_pcb ?s2 = p"
    using m2(4,5) by (simp_all add: fd_inode_def fd_pos_def get_pcb_def p_def)
  note nf2 = names_file_cong [of ?bb "mem s" m2, OF agree [unfolded I_def] nf] and im2 = image_counts_cong [of ?bb "mem s" m2, OF agree [unfolded I_def]]
  have cont: "fd_content fd ?s2 = file_bytes (mem s) ?bb n" using nf2(2) by (simp add: fd_content_def f)
  have "fd_reading fd buf sz ?s2"
    using i mt nf2(1) d(3) buf unfolding fd_reading_def f mounted_def names_file_def I_def by (auto simp: im2)
  then have "file_ready p fd buf sz ?s2"
    using so2 i buf m2(2,3) d(5) bs unfolding file_ready_def f cont I_def by (auto simp: im2)
  then show ?thesis using m2(1) f(2) cont pr
    by (intro exI [of _ ?s2]) (simp add: ece391_open_def do_call_def syscall_def)
qed

lemma cat_opens:
  assumes c: "cat_call e buf name x n s" and lf: "lowest_free (mem s) (get_pcb s) fd"
  defines "W \<equiv> span (entry_local e) 40 \<union> span buf 1024 \<union> fd_span (get_pcb s) fd"
  shows "\<exists>s1 s2. ece391_getargs e buf 1024 s = Some (0, s1) \<and> ece391_open e buf s1 = Some (fd, s2) \<and> file_ready (get_pcb s) fd buf 1024 s2 \<and>
     fd_pos fd s2 = 0 \<and> fd_content fd s2 = file_bytes (mem s) (bootblock_addr s) n \<and> prints W [] s s2"
proof -
  let ?p = "get_pcb s" and ?bb = "bootblock_addr s" and ?I = "span (bootblock_addr s) (fs_size (mem s) (bootblock_addr s))"
  have a: "names_file (mem s) ?bb name x n" "stdout_ready s" "name \<noteq> []" "length name \<le> 32" "buf \<noteq> 0" and mt: "mounted s"
    using c by (simp_all add: cat_call_def)
  have p: "span ?p 128 \<subseteq> span ?p 256" by (rule span_mono) simp
  have d: "span (entry_local e) 40 \<inter> ?I = {}" "span (entry_local e) 40 \<inter> span ?p 128 = {}" "?I \<inter> span ?p 128 = {}"
      "span (entry_local e) 40 \<inter> video = {}" "?I \<inter> video = {}" "span buf 1024 \<inter> (?I \<union> span ?p 128 \<union> video) = {}"
    using c p by (auto simp: cat_call_def)
  have bs: "BACKSPACE \<notin> set (file_bytes (mem s) ?bb n)" using c by (simp add: cat_call_def)
  obtain m1 where m1: "ece391_getargs e buf 1024 s = Some (0, s\<lparr>mem := m1\<rparr>)" "cstr m1 buf name" "\<And>x. x \<notin> span buf 1024 \<Longrightarrow> m1 x = mem s x"
    using cat_args [OF c] by blast
  let ?s1 = "s\<lparr>mem := m1\<rparr>"
  have agree: "m1 x = mem s x" if "x \<in> ?I" for x by (rule m1(3)) (use that d(6) in blast)
  note nf = names_file_cong [of ?bb "mem s" m1, OF agree a(1)] and im = image_counts_cong [of ?bb "mem s" m1, OF agree]
  have g: "get_pcb ?s1 = ?p" by (simp add: get_pcb_def)
  have "tty_of ?s1 = tty_of s" using d(6) by (intro tty_of_mem m1(3)) blast
  moreover have "on_screen ?s1" using a(2) by (simp add: stdout_ready_def on_screen_def)
  ultimately have pr1: "prints (span buf 1024) [] s ?s1" using m1(3) by (simp add: prints_def)
  have "fd_span ?p 1 \<subseteq> span ?p 128" by (rule fd_span_in_table) auto
  then have so: "stdout_ready ?s1" using prints_stdout_ready [OF pr1 a(2)] d(6) by blast
  have "ld32 m1 (pcb_flags ?p j) = ld32 (mem s) (pcb_flags ?p j)" if "0 \<le> j" "j < 8" for j
    using fd_span_in_table [OF that] d(6) by (intro flags_cong m1(3)) blast
  then have "lowest_free m1 ?p fd" using lf by (simp add: lowest_free_def)
  moreover have "mounted ?s1" using mt by (simp add: mounted_def im)
  ultimately have "\<exists>s2. ece391_open e buf ?s1 = Some (fd, s2) \<and> file_ready (get_pcb ?s1) fd buf 1024 s2 \<and> fd_pos fd s2 = 0 \<and>
      fd_content fd s2 = file_bytes (mem ?s1) (bootblock_addr ?s1) n \<and> num_files_read s2 = num_files_read ?s1 \<and>
      prints (span (entry_local e) 40 \<union> fd_span (get_pcb ?s1) fd) [] ?s1 s2"
    by (intro file_opens [where name = name and x = x]) (simp_all add: g im nf so m1(2) a d bs)
  then obtain s2 where s2: "ece391_open e buf ?s1 = Some (fd, s2)" "file_ready ?p fd buf 1024 s2" "fd_pos fd s2 = 0"
      "fd_content fd s2 = file_bytes (mem s) ?bb n" "prints (span (entry_local e) 40 \<union> fd_span ?p fd) [] ?s1 s2"
    unfolding g by (elim exE conjE) (rule that; simp add: nf(2))
  have "prints W ([] @ []) s s2"
    by (rule prints_append [OF prints_mono [OF pr1] prints_mono [OF s2(5)]]) (auto simp: W_def)
  then show ?thesis using m1(1) s2 by (intro exI [of _ ?s1] exI [of _ s2]) simp
qed

text \<open>C4: \<open>cat\<close> shows a file. Started with the name of a regular file as its argument and with a free
  descriptor, its \<open>main\<close> returns 0 and has sent exactly the bytes of the file to the terminal, in order, whatever
  the length of the file; outside its buffer, the descriptor table, the kernel's local directory
  entry and video memory no byte has changed.\<close>

theorem cat_prints_file:
  fixes s :: "'a process_scheme"
  assumes "cat_call e buf name x n s" and "lowest_free (mem s) (get_pcb s) fd"
  shows "\<exists>s'. cat_main e buf s = Some (0, s') \<and>
     tty_of s' = fold tty_putc (file_bytes (mem s) (bootblock_addr s) n) (tty_of s) \<and>
     (\<forall>x. x \<notin> span (entry_local e) 40 \<union> cat_area (get_pcb s) buf \<longrightarrow> mem s' x = mem s x)"
proof -
  let ?W = "span (entry_local e) 40 \<union> cat_area (get_pcb s) buf"
  have fd: "2 \<le> fd" "fd \<le> 7" using assms(2) by (simp_all add: lowest_free_def)
  obtain s1 s2 where s2: "ece391_getargs e buf 1024 s = Some (0, s1)" "ece391_open e buf s1 = Some (fd, s2)"
      "file_ready (get_pcb s) fd buf 1024 s2" "fd_pos fd s2 = 0" "fd_content fd s2 = file_bytes (mem s) (bootblock_addr s) n"
      "prints (span (entry_local e) 40 \<union> span buf 1024 \<union> fd_span (get_pcb s) fd) [] s s2"
    using cat_opens [OF assms] by blast
  obtain s' where s': "cat_loop e fd buf s2 = Some (0, s')" "prints (cat_area (get_pcb s) buf) (file_bytes (mem s) (bootblock_addr s) n) s2 s'"
    using cat.copies [OF s2(3), of e] unfolding s2(4,5) by auto
  have "fd_span (get_pcb s) fd \<subseteq> span (get_pcb s) 128" using fd_span_in_table fd by simp
  then have "prints ?W ([] @ file_bytes (mem s) (bootblock_addr s) n) s s'"
    by (intro prints_append [OF prints_mono [OF s2(6)] prints_mono [OF s'(2)]]) (auto simp: cat_area_def)
  moreover have "cat_main e buf s = Some (0, s')" using s2(1,2) s'(1) fd by (simp add: cat_main_def)
  ultimately show ?thesis by (auto simp: prints_def)
qed

definition demo_cat :: process where
  "demo_cat = demo_user\<lparr>mem := demo_user_mem(0x7FE080 := 97)\<rparr>"

theorem cat_prints_file_witness:
  "\<exists>s'. cat_main demo_env 0x8000 demo_cat = Some (0, s') \<and> tty_of s' = fold tty_putc [104, 101, 108, 108, 111] (tty_of demo_cat)"
proof -
  have g: "get_pcb demo_cat = 0x7FE000" "bootblock_addr demo_cat = 0x1000" "mem demo_cat = demo_user_mem(0x7FE080 := 97)"
    by (simp_all add: demo_cat_def get_pcb_def demo_user_def)
  have same: "(demo_user_mem(0x7FE080 := 97)) x = demo_mem x" if "x \<in> span 0x1000 (fs_size demo_mem 0x1000)" for x
  proof -
    have "(0x7FE080 :: u32) \<notin> span 0x1000 12288" by (subst in_span_unat) simp_all
    then show ?thesis using that demo_user_image [OF that] by (auto simp: demo_file)
  qed
  have pr: "prints {0x7FE080} [] demo_user demo_cat"
  proof -
    have "(0x7FE080 :: u32) \<notin> video" by (subst in_span_unat) simp_all
    then have "tty_of demo_cat = tty_of demo_user" unfolding demo_cat_def by (intro tty_of_mem) auto
    moreover have "on_screen demo_cat" using demo_user_stdout by (simp add: stdout_ready_def on_screen_def demo_cat_def)
    moreover have "same_kernel demo_user demo_cat" unfolding demo_cat_def by (rule same_kernel_update)
    ultimately show ?thesis by (simp add: prints_def g(3))
  qed
  have arg: "(0x7FE080 :: u32) \<notin> span 0x7FE000 128" by (subst in_span_unat) simp_all
  then have "fd_span 0x7FE000 1 \<inter> {0x7FE080} = {}" using fd_span_in_table [of 1 "0x7FE000"] by auto
  then have so: "stdout_ready demo_cat" using prints_stdout_ready [OF pr demo_user_stdout] by simp
  have nf: "names_file demo_mem 0x1000 [97] 1 0" using demo_names demo_file_ok(1)
    by (simp add: names_file_def dentry_filetype_def dentry_inode_num_def direntry_def ld32_def demo_mem_def)
  note cong = names_file_cong [of "0x1000" demo_mem "demo_user_mem(0x7FE080 := 97)", OF same nf]
    image_counts_cong [of "0x1000" demo_mem "demo_user_mem(0x7FE080 := 97)", OF same]
  have args: "cstr (demo_user_mem(0x7FE080 := 97)) (pcb_args 0x7FE000) [97]"
  proof -
    have "(0x7FE081 :: u32) \<notin> span 0x7FE000 32" by (subst in_span_unat) simp_all
    then show ?thesis by (simp add: pcb_args_def demo_user_same demo_mem_def)
  qed
  have ap: "apart [(entry_local demo_env, 40), (0x1000, 12288), (0x7FE000, 256), (0x8000, 1024), (VIDEO, 4000)]"
    by simp (intro conjI span_apartI; simp)
  have "mounted demo_cat" using cong(4) by (simp add: mounted_def demo_cat_def demo_user_def demo_file)
  then have call: "cat_call demo_env 0x8000 [97] 1 0 demo_cat"
    using cong(1,2,5) so args ap by (simp add: cat_call_def g demo_file demo_file_bytes)
  have "ld32 (demo_user_mem(0x7FE080 := 97)) (pcb_flags 0x7FE000 2) = 0"
  proof -
    have "(0x7FE080 :: u32) \<notin> fd_span 0x7FE000 2" using arg fd_span_in_table [of 2 "0x7FE000"] by auto
    then have "ld32 (demo_user_mem(0x7FE080 := 97)) (pcb_flags 0x7FE000 2) = ld32 demo_user_mem (pcb_flags 0x7FE000 2)"
      by (intro flags_cong) auto
    then show ?thesis using demo_user_free [of 2] by simp
  qed
  then have "lowest_free (mem demo_cat) (get_pcb demo_cat) 2" by (auto simp: lowest_free_def g)
  from cat_prints_file [OF call this] show ?thesis using cong(2) by (auto simp: g demo_file_bytes)
qed

subsection \<open>The directory\<close>

text \<open>The names \<open>ls\<close> shows: those from entry \<open>k\<close> to the first empty one.\<close>

definition dir_listing :: "memory \<Rightarrow> u32 \<Rightarrow> nat \<Rightarrow> u8 list list" where
  "dir_listing m bb k = takeWhile (\<lambda>n. n \<noteq> []) (map (dir_name m bb) [k..<63])"

definition listing_text :: "u8 list list \<Rightarrow> u8 list" where
  "listing_text ns = concat (map (\<lambda>n. n @ [10]) ns)"

definition ls_ready :: "'a process_scheme user_env \<Rightarrow> u32 \<Rightarrow> int \<Rightarrow> u32 \<Rightarrow> 'a process_scheme \<Rightarrow> bool" where
  "ls_ready e p fd buf s \<longleftrightarrow> get_pcb s = p \<and> stdout_ready s \<and> 2 \<le> fd \<and> fd \<le> 7 \<and> buf \<noteq> 0 \<and>
     ld32 (mem s) (pcb_flags p fd) \<noteq> 0 \<and> ld32 (mem s) (pcb_fops p fd) = directory_table_addr s \<and>
     apart [(entry_local e, 40), (bootblock_addr s, 4096), (p, 128), (buf, 33), (VIDEO, 4000)] \<and>
     (\<exists>j. unat (num_files_read s) \<le> j \<and> j < 63 \<and> dir_name (mem s) (bootblock_addr s) j = []) \<and>
     (\<forall>j < 63. BACKSPACE \<notin> set (dir_name (mem s) (bootblock_addr s) j))"

definition ls_area :: "'a process_scheme user_env \<Rightarrow> u32 \<Rightarrow> u32 set" where
  "ls_area e buf = span (entry_local e) 40 \<union> span buf 33 \<union> video"

lemma dir_listing_unfold:
  "k < 63 \<Longrightarrow> dir_listing m bb k = (if dir_name m bb k = [] then [] else dir_name m bb k # dir_listing m bb (Suc k))"
  by (simp add: dir_listing_def upt_conv_Cons)

lemma dir_name_boot_block:
  assumes "\<And>x. x \<in> span bb 4096 \<Longrightarrow> m' x = m x" and "j < 63"
  shows "dir_name m' bb j = dir_name m bb j"
proof -
  have "span (direntry bb (of_nat j)) 32 \<subseteq> span bb 4096"
    using direntry_span [OF assms(2), of bb] span_mono [of 32 40 "direntry bb (of_nat j)"] by auto
  then have "rds m' (direntry bb (of_nat j)) 32 = rds m (direntry bb (of_nat j)) 32"
    using assms(1) by (intro rds_span_cong) blast
  then show ?thesis by (simp add: dir_name_def)
qed

lemma read_directory:
  assumes "tables_ready s" and "2 \<le> fd" "fd \<le> 7" "buf \<noteq> 0" "0 \<le> n" "n < 2 ^ 31"
    and "ld32 (mem s) (pcb_flags (get_pcb s) fd) \<noteq> 0" "ld32 (mem s) (pcb_fops (get_pcb s) fd) = directory_table_addr s"
  shows "ece391_read e fd buf n s = directory_read (entry_local e) fd buf n (sti s)"
proof -
  have "sint (word_of_int fd :: u32) = fd" "sint (word_of_int n :: u32) = n"
    using assms(2-6) sint_of_nat_less [of "nat fd"] sint_of_nat_less [of "nat n"] by simp_all
  moreover have "fops_at (sti s) (directory_table_addr s) = Some (directory_table s)" "mem (sti s) = mem s" "get_pcb (sti s) = get_pcb s"
    using assms(1) by (auto simp: fops_at_def sti_def get_pcb_def tables_ready_def)
  moreover have "fop_read (directory_table s) = Directory_read" using assms(1) by (simp add: tables_ready_def tables_init_def)
  ultimately show ?thesis
    using assms by (cases "directory_read (entry_local e) fd buf n (sti s)")
      (auto simp: ece391_read_def do_call_def syscall_def read_fd_def call_read_def)
qed

text \<open>One read of \<open>ls\<close>.\<close>

lemma ls_read:
  assumes r: "ls_ready e p fd buf s" and k: "unat (num_files_read s) < 63"
  defines "xs \<equiv> dir_name (mem s) (bootblock_addr s) (unat (num_files_read s))"
  shows "\<exists>s1. ece391_read e fd buf 32 s = Some (int (length xs), s1) \<and> cstr (mem s1) buf xs \<and> stdout_ready s1 \<and>
     unat (num_files_read s1) = Suc (unat (num_files_read s)) \<and> prints (span (entry_local e) 40 \<union> span buf 33) [] s s1"
proof -
  let ?k = "unat (num_files_read s)"
  have a: "get_pcb s = p" "stdout_ready s" "buf \<noteq> 0" and d: "span (entry_local e) 40 \<inter> span (bootblock_addr s) 4096 = {}" "span buf 33 \<inter> span (entry_local e) 40 = {}"
    "span (entry_local e) 40 \<inter> span p 128 = {}" "span buf 33 \<inter> span p 128 = {}" "span (entry_local e) 40 \<inter> video = {}" "span buf 33 \<inter> video = {}"
    using r by (auto simp: ls_ready_def)
  have "num_files_read (sti s) = of_nat ?k" by (simp add: sti_def)
  from directory_read_entry [OF a(3) this k, of "entry_local e" fd 32] d(1,2)
  obtain m' where m': "directory_read (entry_local e) fd buf 32 (sti s) = Some (int (length xs), (sti s)\<lparr>mem := m', num_files_read := of_nat (Suc ?k)\<rparr>)"
      "cstr m' buf xs" "\<And>x. x \<notin> span (entry_local e) 40 \<Longrightarrow> x \<notin> span buf 33 \<Longrightarrow> m' x = mem s x"
    by (auto simp: sti_def xs_def)
  let ?s1 = "(sti s)\<lparr>mem := m', num_files_read := of_nat (Suc ?k)\<rparr>"
  have "same_kernel s ?s1" by (simp add: same_kernel_def sti_def)
  moreover have "tty_of ?s1 = tty_of s" using m'(3) d(5,6) by (simp add: tty_of_def sti_def) (rule screen_cong; blast)
  moreover have "on_screen ?s1" using a(2) by (simp add: stdout_ready_def on_screen_def sti_def)
  ultimately have pr: "prints (span (entry_local e) 40 \<union> span buf 33) [] s ?s1" using m'(3) by (simp add: prints_def)
  have "fd_span p 1 \<subseteq> span p 128" by (rule fd_span_in_table) auto
  then have "stdout_ready ?s1" using prints_stdout_ready [OF pr a(2)] d(3,4) a(1) by blast
  moreover have "ece391_read e fd buf 32 s = Some (int (length xs), ?s1)"
    using read_directory [of s fd buf 32 e] r m'(1) by (simp add: ls_ready_def stdout_ready_def)
  moreover have "unat (of_nat (Suc ?k) :: u8) = Suc ?k" by (rule unat_of_nat_less) (use k in simp)
  ultimately show ?thesis using pr m'(2) by (intro exI [of _ ?s1]) simp
qed

lemma ls_ready_prints:
  assumes r: "ls_ready e p fd buf s" and pr: "prints (ls_area e buf) xs s s'" and so: "stdout_ready s'"
    and ex: "\<exists>j. unat (num_files_read s') \<le> j \<and> j < 63 \<and> dir_name (mem s) (bootblock_addr s) j = []"
  shows "ls_ready e p fd buf s'" and "j < 63 \<Longrightarrow> dir_name (mem s') (bootblock_addr s') j = dir_name (mem s) (bootblock_addr s) j"
proof -
  have k: "same_kernel s s'" and same: "\<And>x. x \<notin> ls_area e buf \<Longrightarrow> mem s' x = mem s x" using pr by (auto simp: prints_def)
  note f = same_kernel_fields [OF k]
  have d: "span (entry_local e) 40 \<inter> span (bootblock_addr s) 4096 = {}" "span (bootblock_addr s) 4096 \<inter> span buf 33 = {}"
    "span (bootblock_addr s) 4096 \<inter> video = {}" "span (entry_local e) 40 \<inter> span p 128 = {}" "span p 128 \<inter> span buf 33 = {}" "span p 128 \<inter> video = {}"
    using r by (auto simp: ls_ready_def)
  have names: "dir_name (mem s') (bootblock_addr s) j = dir_name (mem s) (bootblock_addr s) j" if "j < 63" for j
    by (rule dir_name_boot_block [OF same that]) (use d(1-3) in \<open>unfold ls_area_def; blast\<close>)
  have fd: "0 \<le> fd" "fd < 8" using r by (auto simp: ls_ready_def)
  have "fd_span p fd \<subseteq> span p 128" "span (pcb_fops p fd) 4 \<subseteq> fd_span p fd"
    using fd_span_in_table [OF fd, of p] span_mono [of 4 16 "pcb_fops p fd"] by (auto simp: fd_span_def)
  moreover have "mem s' x = mem s x" if "x \<in> span p 128" for x
    by (rule same) (use d(4-6) that in \<open>unfold ls_area_def; blast\<close>)
  ultimately have "ld32 (mem s') (pcb_flags p fd) = ld32 (mem s) (pcb_flags p fd)" "ld32 (mem s') (pcb_fops p fd) = ld32 (mem s) (pcb_fops p fd)"
    using flags_in_fd_span [of p fd] by (intro ld32_disjoint; blast)+
  then show "ls_ready e p fd buf s'" using r so ex names unfolding ls_ready_def f by auto
  show "j < 63 \<Longrightarrow> dir_name (mem s') (bootblock_addr s') j = dir_name (mem s) (bootblock_addr s) j" using names by (simp add: f)
qed

definition ls_rest :: "'a process_scheme \<Rightarrow> u8 list list" where
  "ls_rest s = dir_listing (mem s) (bootblock_addr s) (unat (num_files_read s))"

definition ls_write :: "'a process_scheme user_env \<Rightarrow> u32 \<Rightarrow> int \<Rightarrow> 'a process_scheme \<Rightarrow> (int \<times> 'a process_scheme) option" where
  "ls_write e buf cnt s = ece391_write e 1 buf (cnt + 1) (s\<lparr>mem := (mem s)(buf + word_of_int cnt := 10)\<rparr>)"

lemma end_not_in_span: "n < 2 ^ 32 \<Longrightarrow> (a :: u32) + of_nat n \<notin> span a n"
  by (subst in_span_unat) (simp_all add: unat_of_nat32)

lemma ls_writes_name:
  assumes so: "stdout_ready s" and c: "cstr (mem s) buf xs" "length xs \<le> 32" and buf: "buf \<noteq> 0" "span buf 33 \<inter> video = {}"
    and p: "span (get_pcb s) 128 \<inter> span buf 33 = {}" and x: "BACKSPACE \<notin> set xs"
  shows "\<exists>s'. ls_write e buf (int (length xs)) s = Some (int (length xs) + 1, s') \<and> stdout_ready s' \<and>
     num_files_read s' = num_files_read s \<and> prints (span buf 33 \<union> video) (xs @ [10]) s s'"
proof -
  let ?s = "s\<lparr>mem := (mem s)(buf + of_nat (length xs) := 10)\<rparr>" and ?n = "Suc (length xs)"
  have i: "buf + of_nat (length xs) \<in> span buf 33" by (rule in_spanI) (use c(2) in simp)
  have "tty_of ?s = tty_of s" using i buf(2) by (intro tty_of_mem) auto
  then have pr: "prints (span buf 33) [] s ?s" using so i by (auto simp: prints_def stdout_ready_def on_screen_def)
  have "fd_span (get_pcb s) 1 \<subseteq> span (get_pcb s) 128" by (rule fd_span_in_table) auto
  then have so1: "stdout_ready ?s" using prints_stdout_ready [OF pr so] p by blast
  have "rds (mem ?s) buf (length xs) = xs"
    using cstr_rds [OF c(1)] rds_upd [OF end_not_in_span [of "length xs" buf]] c(2) by simp
  then have r: "rds (mem ?s) buf ?n = xs @ [10]" by (simp add: rds_Suc)
  have "span buf ?n \<inter> video = {}" using span_mono [of ?n 33 buf] c(2) buf(2) by auto
  with write_stdout [OF so1 buf(1), of ?n e] c(2) r x obtain s' where s': "ece391_write e 1 buf (int ?n) ?s = Some (int ?n, s')"
      "prints video (xs @ [10]) ?s s'" "stdout_ready s'" "num_files_read s' = num_files_read s" by auto
  have "prints (span buf 33 \<union> video) ([] @ xs @ [10]) s s'"
    by (rule prints_append [OF prints_mono [OF pr] prints_mono [OF s'(2)]]) auto
  then show ?thesis using s' by (auto simp: ls_write_def add.commute)
qed

lemma ls_ready_bound: "ls_ready e p fd buf s \<Longrightarrow> unat (num_files_read s) < 63"
  unfolding ls_ready_def by auto

lemma ls_step:
  assumes r: "ls_ready e p fd buf s" and rest: "ls_rest s \<noteq> []"
  shows "\<exists>k cnt s1 r s2. 0 < k \<and> cnt \<noteq> 0 \<and> cnt \<noteq> - 1 \<and> ece391_read e fd buf 32 s = Some (cnt, s1) \<and>
     ls_write e buf cnt s1 = Some (r, s2) \<and> r \<noteq> - 1 \<and> ls_ready e p fd buf s2 \<and> ls_rest s2 = drop k (ls_rest s) \<and>
     prints (ls_area e buf) (listing_text (take k (ls_rest s))) s s2"
proof -
  let ?k = "unat (num_files_read s)" and ?m = "mem s" and ?bb = "bootblock_addr s"
  define xs where "xs = dir_name ?m ?bb ?k"
  have k: "?k < 63" using ls_ready_bound [OF r] .
  have ls: "xs \<noteq> []" "ls_rest s = xs # dir_listing ?m ?bb (Suc ?k)"
    using rest dir_listing_unfold [OF k, of ?m ?bb] by (auto simp: ls_rest_def xs_def split: if_splits)
  obtain s1 where s1: "ece391_read e fd buf 32 s = Some (int (length xs), s1)" "cstr (mem s1) buf xs" "stdout_ready s1"
      "unat (num_files_read s1) = Suc ?k" "prints (span (entry_local e) 40 \<union> span buf 33) [] s s1"
    using ls_read [OF r k] unfolding xs_def by blast
  have xs: "length xs \<le> 32" "BACKSPACE \<notin> set xs"
    using length_name_of [of "rds ?m (direntry ?bb (of_nat ?k)) 32"] r k by (auto simp: xs_def dir_name_def ls_ready_def)
  have "get_pcb s1 = p" using s1(5) r same_kernel_fields(1) by (auto simp: prints_def ls_ready_def)
  then obtain s2 where s2: "ls_write e buf (int (length xs)) s1 = Some (int (length xs) + 1, s2)" "stdout_ready s2"
      "num_files_read s2 = num_files_read s1" "prints (span buf 33 \<union> video) (xs @ [10]) s1 s2"
    using ls_writes_name [OF s1(3,2) xs(1), of e] r xs(2) by (auto simp: ls_ready_def)
  have pr: "prints (ls_area e buf) ([] @ xs @ [10]) s s2"
    by (rule prints_append [OF prints_mono [OF s1(5)] prints_mono [OF s2(4)]]) (auto simp: ls_area_def)
  have num: "unat (num_files_read s2) = Suc ?k" using s1(4) s2(3) by simp
  have "\<exists>j. unat (num_files_read s2) \<le> j \<and> j < 63 \<and> dir_name ?m ?bb j = []"
  proof -
    obtain j where j: "?k \<le> j" "j < 63" "dir_name ?m ?bb j = []" using r by (auto simp: ls_ready_def)
    moreover have "j \<noteq> ?k" using j(3) ls(1) by (auto simp: xs_def)
    ultimately have "Suc ?k \<le> j" by simp
    with j show ?thesis unfolding num by blast
  qed
  note rd2 = ls_ready_prints [OF r pr s2(2) this]
  have "dir_listing (mem s2) (bootblock_addr s2) (Suc ?k) = dir_listing ?m ?bb (Suc ?k)"
    unfolding dir_listing_def using rd2(2) by (intro arg_cong [of _ _ "takeWhile _"] map_cong) auto
  then have "ls_rest s2 = drop 1 (ls_rest s)" by (simp add: ls_rest_def num ls(2) [unfolded ls_rest_def])
  moreover have "listing_text (take 1 (ls_rest s)) = xs @ [10]" by (simp add: ls(2) listing_text_def)
  ultimately show ?thesis using ls(1) s1(1) s2(1) rd2(1) pr
    by (intro exI [of _ 1] exI [of _ "int (length xs)"] exI [of _ s1] exI [of _ "int (length xs) + 1"] exI [of _ s2]) auto
qed

lemma ls_end:
  assumes r: "ls_ready e p fd buf s" and rest: "ls_rest s = []"
  shows "\<exists>s'. ece391_read e fd buf 32 s = Some (0, s') \<and> prints (ls_area e buf) (listing_text []) s s'"
proof -
  have k: "unat (num_files_read s) < 63" using ls_ready_bound [OF r] .
  then have "dir_name (mem s) (bootblock_addr s) (unat (num_files_read s)) = []"
    using rest dir_listing_unfold [OF k] by (auto simp: ls_rest_def split: if_splits)
  with ls_read [OF r k] obtain s1 where "ece391_read e fd buf 32 s = Some (0, s1)" "prints (span (entry_local e) 40 \<union> span buf 33) [] s s1"
    by auto
  moreover from this(2) have "prints (ls_area e buf) (listing_text []) s s1"
    unfolding listing_text_def list.map concat.simps by (rule prints_mono) (auto simp: ls_area_def)
  ultimately show ?thesis by blast
qed

interpretation ls: copy_program "ls_loop e fd buf" "ece391_read e fd buf 32" "ls_write e buf"
    "\<lambda>s. do { s \<leftarrow> ece391_fdputs e 1 (lit e (''directory entry read failed'' @ nl)) s; Some (3, s) }"
    "ls_ready e p fd buf" ls_rest listing_text "prints (ls_area e buf)"
  for e fd buf p
proof unfold_locales
  show "ls_loop e fd buf s = do {
      (cnt, s) \<leftarrow> ece391_read e fd buf 32 s;
      if cnt = 0 then Some (0, s)
      else if cnt = - 1 then do { s \<leftarrow> ece391_fdputs e 1 (lit e (''directory entry read failed'' @ nl)) s; Some (3, s) }
      else do { (r, s) \<leftarrow> ls_write e buf cnt s; if r = - 1 then Some (3, s) else ls_loop e fd buf s } }" for s
    unfolding ls_write_def by (rule ls_loop.simps [unfolded Let_def])
  show "listing_text (xs @ ys) = listing_text xs @ listing_text ys" for xs ys by (simp add: listing_text_def)
qed (rule ls_end ls_step prints_append; assumption)+

text \<open>The memory \<open>ls\<close> works on, and a directory it can show: the entry \<open>.\<close> is there, an unused entry comes
  behind the used ones, and no name holds a backspace.\<close>

definition ls_call :: "'a process_scheme user_env \<Rightarrow> u32 \<Rightarrow> nat \<Rightarrow> 'a process_scheme \<Rightarrow> bool" where
  "ls_call e buf x s \<longleftrightarrow> stdout_ready s \<and> buf \<noteq> 0 \<and> lit e ''.'' \<noteq> 0 \<and> cstr (mem s) (lit e ''.'') (chars ''.'') \<and>
     x < 63 \<and> dir_name (mem s) (bootblock_addr s) x = chars ''.'' \<and>
     (\<forall>j < x. dir_name (mem s) (bootblock_addr s) j \<noteq> chars ''.'') \<and>
     ld32 (mem s) (dentry_filetype (direntry (bootblock_addr s) (of_nat x))) = 1 \<and>
     apart [(entry_local e, 40), (bootblock_addr s, 4096), (get_pcb s, 128), (buf, 33), (VIDEO, 4000)] \<and>
     (\<exists>j < 63. dir_name (mem s) (bootblock_addr s) j = []) \<and> (\<forall>j < 63. BACKSPACE \<notin> set (dir_name (mem s) (bootblock_addr s) j))"

lemma ls_opens:
  assumes c: "ls_call e buf x s" and lf: "lowest_free (mem s) (get_pcb s) fd"
  defines "W \<equiv> span (entry_local e) 40 \<union> fd_span (get_pcb s) fd"
  shows "\<exists>s1. ece391_open e (lit e ''.'') s = Some (fd, s1) \<and> ls_ready e (get_pcb s) fd buf s1 \<and>
     ls_rest s1 = dir_listing (mem s) (bootblock_addr s) 0 \<and> num_files_read s1 = 0 \<and> prints W [] s s1"
proof -
  let ?p = "get_pcb s" and ?bb = "bootblock_addr s"
  have a: "stdout_ready s" "buf \<noteq> 0" and d: "span (entry_local e) 40 \<inter> span ?bb 4096 = {}" "span ?bb 4096 \<inter> span ?p 128 = {}"
      "span (entry_local e) 40 \<inter> span ?p 128 = {}" "span (entry_local e) 40 \<inter> video = {}" "span ?p 128 \<inter> video = {}"
    using c by (auto simp: ls_call_def)
  have i: "2 \<le> fd" "fd \<le> 7" using lf by (simp_all add: lowest_free_def)
  have fp: "fd_span ?p fd \<subseteq> span ?p 128" "fd_span ?p 1 \<subseteq> span ?p 128" "fd_span ?p fd \<inter> fd_span ?p 1 = {}"
    using fd_span_in_table [of fd ?p] fd_span_in_table [of 1 ?p] fd_spans_apart [of fd 1 ?p] i by simp_all
  have ne: "named_entry (entry_local e) (lit e ''.'') (chars ''.'') x s"
    using c d(1,3) by (simp add: ls_call_def named_entry_def chars_def)
  obtain m1 where m1: "open_fd (entry_local e) (lit e ''.'') s = Some (fd, s\<lparr>mem := m1, num_files_read := 0\<rparr>)"
      "ld32 m1 (pcb_flags ?p fd) = 1" "ld32 m1 (pcb_fops ?p fd) = directory_table_addr s" "\<And>x. x \<notin> W \<Longrightarrow> m1 x = mem s x"
    using open_directory [OF ne _ lf] c by (auto simp: ls_call_def stdout_ready_def W_def)
  let ?s1 = "s\<lparr>mem := m1, num_files_read := 0\<rparr>"
  have names: "dir_name m1 ?bb j = dir_name (mem s) ?bb j" if "j < 63" for j
    by (rule dir_name_boot_block [OF m1(4) that]) (use d(1,2) fp(1) in \<open>unfold W_def; blast\<close>)
  have "tty_of ?s1 = tty_of s"
    using m1(4) d(4,5) fp(1) unfolding W_def tty_of_def by (simp, intro screen_cong) blast
  moreover have "on_screen ?s1" using a(1) by (simp add: stdout_ready_def on_screen_def)
  ultimately have pr: "prints W [] s ?s1" using m1(4) by (simp add: prints_def same_kernel_def)
  have so: "stdout_ready ?s1" using prints_stdout_ready [OF pr a(1)] d(3) fp(2,3) unfolding W_def by blast
  have g: "get_pcb ?s1 = ?p" by (simp add: get_pcb_def)
  have "ls_ready e ?p fd buf ?s1"
    using c i so m1(2,3) names unfolding ls_ready_def g by (auto simp: ls_call_def)
  moreover have "ls_rest ?s1 = dir_listing (mem s) ?bb 0"
    unfolding ls_rest_def dir_listing_def using names by (intro arg_cong [of _ _ "takeWhile _"]) simp
  ultimately show ?thesis using m1(1) pr
    by (intro exI [of _ ?s1]) (simp add: ece391_open_def do_call_def syscall_def)
qed

text \<open>C11: \<open>ls\<close> shows the directory. With a free descriptor its \<open>main\<close> returns 0 and has sent to the
  terminal the names of the directory entries, each on a line of its own, in the order of the
  directory and up to the first unused entry; outside its buffer, the descriptor table, the kernel's local
  directory entry and video memory no byte has changed.\<close>

theorem ls_lists_directory:
  fixes s :: "'a process_scheme"
  assumes "ls_call e buf x s" and "lowest_free (mem s) (get_pcb s) fd"
  shows "\<exists>s'. ls_main e buf s = Some (0, s') \<and>
     tty_of s' = fold tty_putc (listing_text (dir_listing (mem s) (bootblock_addr s) 0)) (tty_of s) \<and>
     (\<forall>x. x \<notin> ls_area e buf \<union> span (get_pcb s) 128 \<longrightarrow> mem s' x = mem s x)"
proof -
  let ?W = "ls_area e buf \<union> span (get_pcb s) 128"
  have fd: "2 \<le> fd" "fd \<le> 7" using assms(2) by (simp_all add: lowest_free_def)
  obtain s1 where s1: "ece391_open e (lit e ''.'') s = Some (fd, s1)" "ls_ready e (get_pcb s) fd buf s1"
      "ls_rest s1 = dir_listing (mem s) (bootblock_addr s) 0" "prints (span (entry_local e) 40 \<union> fd_span (get_pcb s) fd) [] s s1"
    using ls_opens [OF assms] by blast
  obtain s' where s': "ls_loop e fd buf s1 = Some (0, s')" "prints (ls_area e buf) (listing_text (ls_rest s1)) s1 s'"
    using ls.copies [OF s1(2)] by blast
  have "fd_span (get_pcb s) fd \<subseteq> span (get_pcb s) 128" using fd_span_in_table fd by simp
  then have "prints ?W ([] @ listing_text (ls_rest s1)) s s'"
    by (intro prints_append [OF prints_mono [OF s1(4)] prints_mono [OF s'(2)]]) (auto simp: ls_area_def)
  moreover have "ls_main e buf s = Some (0, s')" using s1(1) s'(1) fd by (simp add: ls_main_def)
  ultimately show ?thesis by (auto simp: prints_def s1(3))
qed

lemma demo_user_boot_block: "x \<in> span 0x1000 4096 \<Longrightarrow> demo_user_mem x = demo_mem x"
  using boot_block_in_image [of "0x1000" demo_mem] by (intro demo_user_image) blast

lemma demo_dir_names:
  "dir_name demo_user_mem 0x1000 0 = [46]" "dir_name demo_user_mem 0x1000 (Suc 0) = [97]" "dir_name demo_user_mem 0x1000 2 = []"
  "j < 63 \<Longrightarrow> BACKSPACE \<notin> set (dir_name demo_user_mem 0x1000 j)"
proof -
  note u = dir_name_boot_block [OF demo_user_boot_block]
  have "demo_mem 0x10C0 = 0" by (simp add: demo_mem_def)
  then have "dir_name demo_mem 0x1000 2 = []" using cstr_name_of [of demo_mem "0x10C0" "[]" 32] by (simp add: dir_name_def direntry_def)
  then show "dir_name demo_user_mem 0x1000 0 = [46]" "dir_name demo_user_mem 0x1000 (Suc 0) = [97]" "dir_name demo_user_mem 0x1000 2 = []"
    using demo_names by (simp_all add: u)
  have "demo_mem x \<noteq> BACKSPACE" for x by (simp add: demo_mem_def)
  then have "BACKSPACE \<notin> set (rds demo_mem a n)" for a n by (auto simp: rds_def)
  then show "j < 63 \<Longrightarrow> BACKSPACE \<notin> set (dir_name demo_user_mem 0x1000 j)"
    by (auto simp: u simp del: not_less dest!: set_takeWhileD simp: dir_name_def [of demo_mem] name_of_def)
qed

lemma demo_names_beyond:
  assumes "2 \<le> j" "j < 63"
  shows "dir_name demo_user_mem 0x1000 j = []"
proof -
  let ?a = "direntry 0x1000 (of_nat j) :: u32"
  have a: "?a = of_nat (4160 + 64 * j)" by (simp add: direntry_def)
  have u: "unat ?a = 4160 + 64 * j" unfolding a by (rule unat_of_nat32) (use assms in simp)
  have "?a \<in> span ?a 40" by (auto simp: in_span_iff intro: exI [of _ 0])
  then have "demo_user_mem ?a = demo_mem ?a" using direntry_span [OF assms(2), of "0x1000"] by (intro demo_user_boot_block) blast
  also have "demo_mem ?a = 0"
  proof -
    have "?a \<noteq> k" if "unat k \<noteq> 4160 + 64 * j" for k using u that by auto
    then show ?thesis using assms unfolding demo_mem_def by simp
  qed
  finally show ?thesis by (simp add: dir_name_def rds_Cons name_of_def numeral_eq_Suc)
qed

lemma demo_dir_type: "ld32 demo_user_mem (dentry_filetype (direntry 0x1000 0)) = 1"
proof -
  have "span (dentry_filetype (direntry 0x1000 0)) 4 \<subseteq> span 0x1000 4096"
    using sub_span [of 96 4 4096 "0x1000"] by (simp add: dentry_filetype_def direntry_def)
  then have "ld32 demo_user_mem (dentry_filetype (direntry 0x1000 0)) = ld32 demo_mem (dentry_filetype (direntry 0x1000 0))"
    by (intro ld32_disjoint demo_user_boot_block) blast
  then show ?thesis by (simp add: dentry_filetype_def direntry_def ld32_def demo_mem_def)
qed

theorem ls_lists_directory_witness:
  "\<exists>s'. ls_main (demo_env\<lparr>lit := \<lambda>_. 0x1040\<rparr>) 0x8000 demo_user = Some (0, s') \<and>
     tty_of s' = fold tty_putc [46, 10, 97, 10] (tty_of demo_user)"
proof -
  have m: "demo_user_mem 0x1040 = 46" "demo_user_mem 0x1041 = 0" "(0x1040 :: u32) \<in> span 0x1000 4096" "(0x1041 :: u32) \<in> span 0x1000 4096"
  proof -
    show i: "(0x1040 :: u32) \<in> span 0x1000 4096" "(0x1041 :: u32) \<in> span 0x1000 4096" by (subst in_span_unat; simp)+
    show "demo_user_mem 0x1040 = 46" "demo_user_mem 0x1041 = 0" by (simp_all add: demo_user_boot_block i demo_mem_def)
  qed
  have ap: "apart [(0x6000, 40), (0x1000, 4096), (0x7FE000, 128), (0x8000, 33), (VIDEO, 4000)]"
    by simp (intro conjI span_apartI; simp)
  have ex: "\<exists>j < 63. dir_name demo_user_mem 0x1000 j = []" using demo_dir_names(3) by (intro exI [of _ 2]) simp
  have call: "ls_call (demo_env\<lparr>lit := \<lambda>_. 0x1040\<rparr>) 0x8000 0 demo_user"
    using m(1,2) demo_dir_type ap ex demo_user_stdout demo_dir_names(1,4) by (simp add: ls_call_def chars_def)
  have "dir_listing demo_user_mem 0x1000 0 = [[46], [97]]"
    using demo_dir_names(1-3) by (simp add: dir_listing_unfold numeral_2_eq_2)
  with ls_lists_directory [OF call, of 2] demo_user_lowest show ?thesis by (auto simp: listing_text_def)
qed

end
