(* ===== verification/Syserr.thy ===== *)
theory Syserr
  imports Programs
begin

text \<open>
  The program \<open>syserr\<close>, which tests that the kernel rejects bad system calls, and the proof that this kernel
  passes all of its tests.
\<close>

section \<open>Definitions\<close>

abbreviation NEG_FD :: int where "NEG_FD \<equiv> - 1073741823"
abbreviation BIG_FD :: int where "BIG_FD \<equiv> 1073741823"
abbreviation BIG_NUM :: int where "BIG_NUM \<equiv> 1073741823"
abbreviation NEG_NUM :: int where "NEG_NUM \<equiv> - 1073741823"

text \<open>The assembly of \<open>call_sys\<close> sets \<open>%eax\<close> alone; the other registers hold what they happen to hold.\<close>

definition call_sys :: "'a process_scheme user_env \<Rightarrow> u32 \<times> u32 \<times> u32 \<Rightarrow> int \<Rightarrow> 'a process_scheme \<Rightarrow> (int \<times> 'a process_scheme) option" where
  "call_sys e regs num = (case regs of (ebx, ecx, edx) \<Rightarrow> do_call e (word_of_int num) ebx ecx edx)"

text \<open>The two statements every test repeats: complain about a call that did not return -1, and report.\<close>

definition expect_error :: "'a process_scheme user_env \<Rightarrow> string \<Rightarrow> int \<Rightarrow> int \<times> 'a process_scheme \<Rightarrow> (int \<times> 'a process_scheme) option" where
  "expect_error e t failed res = (case res of (r, s) \<Rightarrow>
     if - 1 \<noteq> r then do { s \<leftarrow> ece391_fdputs e 1 (lit e t) s; Some (2, s) } else Some (failed, s))"

definition verdict :: "'a process_scheme user_env \<Rightarrow> string \<Rightarrow> int \<Rightarrow> 'a process_scheme \<Rightarrow> (int \<times> 'a process_scheme) option" where
  "verdict e name failed s =
     (if failed \<noteq> 0 then do { s \<leftarrow> ece391_fdputs e 1 (lit e (name @ '': FAIL'' @ nl)) s; Some (failed, s) }
      else do { s \<leftarrow> ece391_fdputs e 1 (lit e (name @ '': PASS'' @ nl)) s; Some (failed, s) })"

definition err_neg_fd :: "'a process_scheme user_env \<Rightarrow> u32 \<Rightarrow> 'a process_scheme \<Rightarrow> (int \<times> 'a process_scheme) option" where
  "err_neg_fd e buf s = do {
     res \<leftarrow> ece391_read e NEG_FD buf 31 s;
     (failed, s) \<leftarrow> expect_error e (''read fail'' @ nl) 0 res;
     res \<leftarrow> ece391_write e NEG_FD buf 31 s;
     (failed, s) \<leftarrow> expect_error e (''write fail'' @ nl) failed res;
     res \<leftarrow> ece391_close e NEG_FD s;
     (failed, s) \<leftarrow> expect_error e (''close fail'' @ nl) failed res;
     verdict e ''err_neg_fd'' failed s
   }"

definition err_big_fd :: "'a process_scheme user_env \<Rightarrow> u32 \<Rightarrow> 'a process_scheme \<Rightarrow> (int \<times> 'a process_scheme) option" where
  "err_big_fd e buf s = do {
     res \<leftarrow> ece391_read e BIG_FD buf 31 s;
     (failed, s) \<leftarrow> expect_error e (''read fail'' @ nl) 0 res;
     res \<leftarrow> ece391_write e BIG_FD buf 31 s;
     (failed, s) \<leftarrow> expect_error e (''write fail'' @ nl) failed res;
     res \<leftarrow> ece391_close e BIG_FD s;
     (failed, s) \<leftarrow> expect_error e (''close fail'' @ nl) failed res;
     verdict e ''err_big_fd'' failed s
   }"

text \<open>The two loops of \<open>err_open_lots\<close>, over the values of \<open>i\<close>.\<close>

fun open_lots :: "'a process_scheme user_env \<Rightarrow> int list \<Rightarrow> int \<Rightarrow> 'a process_scheme \<Rightarrow> (int \<times> 'a process_scheme) option" where
  "open_lots e [] cnt s = Some (cnt, s)"
| "open_lots e (i # is) cnt s = do {
     (r, s) \<leftarrow> ece391_open e (lit e ''.'') s;
     open_lots e is (if - 1 = r then cnt + 1 else cnt) s
   }"

fun close_lots :: "'a process_scheme user_env \<Rightarrow> int list \<Rightarrow> 'a process_scheme \<Rightarrow> 'a process_scheme option" where
  "close_lots e [] s = Some s"
| "close_lots e (i # is) s = do { (r, s) \<leftarrow> ece391_close e i s; close_lots e is s }"

definition err_open_lots :: "'a process_scheme user_env \<Rightarrow> 'a process_scheme \<Rightarrow> (int \<times> 'a process_scheme) option" where
  "err_open_lots e s = do {
     (cnt, s) \<leftarrow> open_lots e [0..6] 0 s;
     s \<leftarrow> close_lots e [2..7] s;
     if cnt = 1 then do { s \<leftarrow> ece391_fdputs e 1 (lit e (''err_open_lots: PASS'' @ nl)) s; Some (0, s) }
     else do { s \<leftarrow> ece391_fdputs e 1 (lit e (''err_open_lots: FAIL'' @ nl)) s; Some (2, s) }
   }"

definition quoted :: "string \<Rightarrow> string" where
  "quoted t = [CHR 0x27] @ t @ [CHR 0x27]"

definition err_open :: "'a process_scheme user_env \<Rightarrow> 'a process_scheme \<Rightarrow> (int \<times> 'a process_scheme) option" where
  "err_open e s = do {
     res \<leftarrow> ece391_open e (lit e ''helloo'') s;
     (failed, s) \<leftarrow> expect_error e (quoted ''helloo'' @ '' fail'' @ nl) 0 res;
     res \<leftarrow> ece391_open e (lit e ''shel'') s;
     (failed, s) \<leftarrow> expect_error e (quoted ''shel'' @ '' fail'' @ nl) failed res;
     res \<leftarrow> ece391_open e (lit e '''') s;
     (failed, s) \<leftarrow> expect_error e (''empty string fail'' @ nl) failed res;
     verdict e ''err_open'' failed s
   }"

text \<open>The loops of \<open>err_unopened\<close>; \<open>failed\<close> goes through all three.\<close>

fun close_each :: "'a process_scheme user_env \<Rightarrow> int list \<Rightarrow> int \<Rightarrow> 'a process_scheme \<Rightarrow> (int \<times> 'a process_scheme) option" where
  "close_each e [] failed s = Some (failed, s)"
| "close_each e (i # is) failed s = do {
     res \<leftarrow> ece391_close e i s;
     (failed, s) \<leftarrow> expect_error e (''close unopened or invalid fd fail'' @ nl) failed res;
     close_each e is failed s
   }"

fun read_each :: "'a process_scheme user_env \<Rightarrow> u32 \<Rightarrow> int list \<Rightarrow> int \<Rightarrow> 'a process_scheme \<Rightarrow> (int \<times> 'a process_scheme) option" where
  "read_each e buf [] failed s = Some (failed, s)"
| "read_each e buf (i # is) failed s = do {
     res \<leftarrow> ece391_read e i buf 31 s;
     (failed, s) \<leftarrow> expect_error e (''read from unopened fd fail'' @ nl) failed res;
     read_each e buf is failed s
   }"

fun write_each :: "'a process_scheme user_env \<Rightarrow> u32 \<Rightarrow> int list \<Rightarrow> int \<Rightarrow> 'a process_scheme \<Rightarrow> (int \<times> 'a process_scheme) option" where
  "write_each e buf [] failed s = Some (failed, s)"
| "write_each e buf (i # is) failed s = do {
     res \<leftarrow> ece391_write e i buf 31 s;
     (failed, s) \<leftarrow> expect_error e (''write to unopened fd fail'' @ nl) failed res;
     write_each e buf is failed s
   }"

definition err_unopened :: "'a process_scheme user_env \<Rightarrow> u32 \<Rightarrow> 'a process_scheme \<Rightarrow> (int \<times> 'a process_scheme) option" where
  "err_unopened e buf s = do {
     (failed, s) \<leftarrow> close_each e [0..7] 0 s;
     (failed, s) \<leftarrow> read_each e buf [2..7] failed s;
     (failed, s) \<leftarrow> write_each e buf [2..7] failed s;
     verdict e ''err_unopened'' failed s
   }"

definition err_vidmap :: "'a process_scheme user_env \<Rightarrow> 'a process_scheme \<Rightarrow> (int \<times> 'a process_scheme) option" where
  "err_vidmap e s = do {
     res \<leftarrow> ece391_vidmap e 0 s;
     (failed, s) \<leftarrow> expect_error e (''Null pointer fail'' @ nl) 0 res;
     res \<leftarrow> ece391_vidmap e 0x400000 s;
     (failed, s) \<leftarrow> expect_error e (''Kernel pointer fail fail'' @ nl) failed res;
     verdict e ''err_vidmap'' failed s
   }"

definition err_stdin_out :: "'a process_scheme user_env \<Rightarrow> u32 \<Rightarrow> 'a process_scheme \<Rightarrow> (int \<times> 'a process_scheme) option" where
  "err_stdin_out e buf s = do {
     res \<leftarrow> ece391_write e 0 buf 31 s;
     (failed, s) \<leftarrow> expect_error e (''write to stdin fail'' @ nl) 0 res;
     res \<leftarrow> ece391_read e 1 buf 31 s;
     (failed, s) \<leftarrow> expect_error e (''read from stdout fail'' @ nl) failed res;
     verdict e ''err_stdin_out'' failed s
   }"

definition err_syscall_num :: "'a process_scheme user_env \<Rightarrow> u32 \<times> u32 \<times> u32 \<Rightarrow> 'a process_scheme \<Rightarrow> (int \<times> 'a process_scheme) option" where
  "err_syscall_num e regs s = do {
     res \<leftarrow> call_sys e regs BIG_NUM s;
     (failed, s) \<leftarrow> expect_error e (''syscall 0 fail'' @ nl) 0 res;
     res \<leftarrow> call_sys e regs NEG_NUM s;
     (failed, s) \<leftarrow> expect_error e (''big num syscall fail'' @ nl) failed res;
     res \<leftarrow> call_sys e regs 0 s;
     (failed, s) \<leftarrow> expect_error e (''neg num syscall fail'' @ nl) failed res;
     verdict e ''err_syscall_num'' failed s
   }"

text \<open>What \<open>main\<close> does for test 0: all of them.\<close>

definition run_all_tests :: "'a process_scheme user_env \<Rightarrow> u32 \<Rightarrow> u32 \<times> u32 \<times> u32 \<Rightarrow> 'a process_scheme \<Rightarrow> (int \<times> 'a process_scheme) option" where
  "run_all_tests e buf regs s = do {
     let failed = 0;
     (r, s) \<leftarrow> err_neg_fd e buf s; let failed = failed + r;
     (r, s) \<leftarrow> err_big_fd e buf s; let failed = failed + r;
     (r, s) \<leftarrow> err_open_lots e s; let failed = failed + r;
     (r, s) \<leftarrow> err_open e s; let failed = failed + r;
     (r, s) \<leftarrow> err_unopened e buf s; let failed = failed + r;
     (r, s) \<leftarrow> err_vidmap e s; let failed = failed + r;
     (r, s) \<leftarrow> err_stdin_out e buf s; let failed = failed + r;
     (r, s) \<leftarrow> err_syscall_num e regs s; let failed = failed + r;
     if failed \<noteq> 0 then do { s \<leftarrow> ece391_fdputs e 1 (lit e (nl @ ''Overall Tests: FAIL'' @ nl)) s; Some (failed, s) }
     else do { s \<leftarrow> ece391_fdputs e 1 (lit e (nl @ ''Overall Tests: PASS'' @ nl)) s; Some (failed, s) }
   }"

definition syserr_main :: "'a process_scheme user_env \<Rightarrow> u32 \<Rightarrow> u32 \<Rightarrow> u32 \<times> u32 \<times> u32 \<Rightarrow> 'a process_scheme \<Rightarrow> (int \<times> 'a process_scheme) option" where
  "syserr_main e buf test_buf regs s = do {
     s \<leftarrow> ece391_fdputs e 1 (lit e ''Choose from tests 1-8. 0 to run all: '') s;
     (cnt, s) \<leftarrow> ece391_read e 0 buf 127 s;
     if cnt = - 1 then do { s \<leftarrow> ece391_fdputs e 1 (lit e (''Can't read test #'' @ nl)) s; Some (2, s) }
     else
       (let select = uint (mem s buf) - 48
        in if select = 0 then run_all_tests e test_buf regs s
           else if select = 1 then err_neg_fd e test_buf s
           else if select = 2 then err_big_fd e test_buf s
           else if select = 3 then err_open_lots e s
           else if select = 4 then err_open e s
           else if select = 5 then err_unopened e test_buf s
           else if select = 6 then err_vidmap e s
           else if select = 7 then err_stdin_out e test_buf s
           else if select = 8 then err_syscall_num e regs s
           else do { s \<leftarrow> ece391_fdputs e 1 (lit e ''Invalid test number. Choose from tests 1-8 or 0'') s; Some (0, s) })
   }"

section \<open>Calls that fail\<close>

text \<open>A call that changes nothing a program can see.\<close>

definition quiet :: "'a process_scheme \<Rightarrow> 'a process_scheme \<Rightarrow> bool" where
  "quiet s s' \<longleftrightarrow> mem s' = mem s \<and> tty_of s' = tty_of s \<and> on_screen s' = on_screen s \<and> same_kernel s s'"

lemma quiet_refl [simp]: "quiet s s"
  by (simp add: quiet_def)

lemma quiet_trans: "quiet s s1 \<Longrightarrow> quiet s1 s2 \<Longrightarrow> quiet s s2"
  unfolding quiet_def using same_kernel_trans by auto

lemma quiet_sti: "quiet s (sti s)" and quiet_temp_fd: "quiet s (s\<lparr>temp_fd := k\<rparr>)"
  by (simp_all add: quiet_def sti_def tty_of_def on_screen_def same_kernel_def)

lemma quiet_prints: "quiet s s' \<Longrightarrow> on_screen s \<Longrightarrow> prints W [] s s'"
  by (simp add: quiet_def prints_def)

lemma bad_read:
  assumes "- (2 ^ 31) \<le> fd" "fd < 2 ^ 31"
    and "fd < 0 \<or> 7 < fd \<or> fd = 1 \<or> ld32 (mem s) (pcb_flags (get_pcb s) fd) = 0"
  shows "ece391_read e fd buf n s = Some (- 1, sti s)"
proof -
  have "mem (sti s) = mem s" "get_pcb (sti s) = get_pcb s" by (simp_all add: sti_def get_pcb_def)
  then have "read_fd hs l fd buf n' s = Some (- 1, sti s)" for hs l n' using assms(3) by (auto simp: read_fd_def Let_def)
  then show ?thesis using assms(1,2) by (simp add: ece391_read_def do_call_def syscall_def sint_word_of_int)
qed

lemma bad_write:
  assumes "- (2 ^ 31) \<le> fd" "fd < 2 ^ 31"
    and "fd < 0 \<or> 7 < fd \<or> ld32 (mem s) (pcb_flags (get_pcb s) fd) = 0"
  shows "ece391_write e fd buf n s = Some (- 1, s)"
proof -
  have "write_fd fd buf n' s = Some (- 1, s)" for n' using assms(3) by (auto simp: write_fd_def Let_def)
  then show ?thesis using assms(1,2) by (simp add: ece391_write_def do_call_def syscall_def sint_word_of_int)
qed

lemma bad_close:
  assumes "- (2 ^ 31) \<le> fd" "fd < 2 ^ 31"
    and "fd < 2 \<or> 7 < fd \<or> ld32 (mem s) (pcb_flags (get_pcb s) fd) = 0"
  shows "ece391_close e fd s = Some (- 1, s)"
proof -
  have "close_fd fd s = Some (- 1, s)" using assms(3) by (auto simp: close_fd_def Let_def)
  then show ?thesis using assms(1,2) by (simp add: ece391_close_def do_call_def syscall_def sint_word_of_int)
qed

lemma bad_open:
  assumes "cstr (mem s) f xs" "length xs \<le> 32" "xs = [] \<or> (\<forall>j < 63. dir_name (mem s) (bootblock_addr s) j \<noteq> xs)"
  shows "ece391_open e f s = Some (- 1, s)"
proof -
  have "open_fd d f s = Some (- 1, s)" for d
  proof (cases "xs = []")
    case True
    then show ?thesis using assms(1) by (simp add: open_fd_def)
  next
    case False
    then have "find (\<lambda>i. dir_name (mem s) (bootblock_addr s) i = xs) [0..<63] = None"
      using assms(3) by (simp add: find_None_iff)
    then show ?thesis using read_dentry_by_name_find [OF assms(1), of d] assms(2) by (simp add: open_fd_def)
  qed
  then show ?thesis by (simp add: ece391_open_def do_call_def syscall_def)
qed

lemma bad_vidmap: "\<not> in_user_page a \<Longrightarrow> ece391_vidmap e a s = Some (- 1, s)"
  using vidmap_check [of a] by (auto simp: ece391_vidmap_def do_call_def syscall_def vidmap_def)

lemma bad_call: "sint (word_of_int num :: u32) \<le> 0 \<or> 10 < sint (word_of_int num :: u32) \<Longrightarrow> call_sys e regs num s = Some (- 1, s)"
  by (auto simp: call_sys_def do_call_def syscall_def split: prod.splits)

lemma expect_error_ok [simp]: "expect_error e t failed (- 1, s) = Some (failed, s)"
  by (simp add: expect_error_def)

section \<open>The state the tests run in\<close>

definition test_names :: "string list" where
  "test_names = [''err_neg_fd'', ''err_big_fd'', ''err_open_lots'', ''err_open'', ''err_unopened'', ''err_vidmap'',
     ''err_stdin_out'', ''err_syscall_num'']"

definition pass_line :: "string \<Rightarrow> string" where
  "pass_line name = name @ '': PASS'' @ nl"

text \<open>The literals of the tests that are used when they pass.\<close>

definition syserr_literals :: "string list" where
  "syserr_literals = [''.'', ''helloo'', ''shel'', '''', nl @ ''Overall Tests: PASS'' @ nl] @ map pass_line test_names"

definition sys_change :: "'a process_scheme user_env \<Rightarrow> u32 \<Rightarrow> u32 set" where
  "sys_change e p = span (entry_local e) 40 \<union> (\<Union>i \<in> {2..7}. fd_span p i) \<union> video"

text \<open>The descriptors from 2 to 7 in \<open>U\<close> are open on the directory, the others are free.\<close>

definition sys_fds :: "int set \<Rightarrow> 'a process_scheme \<Rightarrow> bool" where
  "sys_fds U s \<longleftrightarrow> (\<forall>i. 2 \<le> i \<and> i \<le> 7 \<longrightarrow>
     (if i \<in> U then ld32 (mem s) (pcb_flags (get_pcb s) i) = 1 \<and> ld32 (mem s) (pcb_fops (get_pcb s) i) = directory_table_addr s
      else ld32 (mem s) (pcb_flags (get_pcb s) i) = 0))"

definition sys_dir :: "nat \<Rightarrow> memory \<Rightarrow> u32 \<Rightarrow> bool" where
  "sys_dir x m bb \<longleftrightarrow> x < 63 \<and> dir_name m bb x = chars ''.'' \<and> (\<forall>j < x. dir_name m bb j \<noteq> chars ''.'') \<and>
     ld32 m (dentry_filetype (direntry bb (of_nat x))) = 1 \<and>
     (\<forall>j < 63. dir_name m bb j \<noteq> chars ''helloo'' \<and> dir_name m bb j \<noteq> chars ''shel'')"

definition sys_lits :: "'a process_scheme user_env \<Rightarrow> u32 \<Rightarrow> memory \<Rightarrow> bool" where
  "sys_lits e p m \<longleftrightarrow> (\<forall>t \<in> set syserr_literals. lit e t \<noteq> 0 \<and> cstr m (lit e t) (chars t) \<and>
     span (lit e t) (Suc (length t)) \<inter> (span (entry_local e) 40 \<union> span p 128 \<union> video) = {})"

definition sys_ready :: "'a process_scheme user_env \<Rightarrow> u32 \<Rightarrow> nat \<Rightarrow> int set \<Rightarrow> 'a process_scheme \<Rightarrow> bool" where
  "sys_ready e p x U s \<longleftrightarrow> get_pcb s = p \<and> stdout_ready s \<and> ld32 (mem s) (pcb_flags p 0) \<noteq> 0 \<and>
     ld32 (mem s) (pcb_fops p 0) = stdin_table_addr s \<and> sys_fds U s \<and> sys_dir x (mem s) (bootblock_addr s) \<and> sys_lits e p (mem s) \<and>
     apart [(entry_local e, 40), (bootblock_addr s, 4096), (p, 128), (VIDEO, 4000)]"

text \<open>The state is kept by what changes only video memory, the kernel's local directory entry and the
  descriptors from 2 on.\<close>

lemma sys_dir_cong:
  assumes same: "\<And>x. x \<in> span bb 4096 \<Longrightarrow> m' x = m x" and d: "sys_dir x m bb"
  shows "sys_dir x m' bb"
proof -
  have x: "x < 63" using d by (simp add: sys_dir_def)
  have "span (dentry_filetype (direntry bb (of_nat x))) 4 \<subseteq> span (direntry bb (of_nat x)) 40"
    using sub_span [of 32 4 40 "direntry bb (of_nat x)"] by (simp add: dentry_filetype_def)
  then have "ld32 m' (dentry_filetype (direntry bb (of_nat x))) = ld32 m (dentry_filetype (direntry bb (of_nat x)))"
    using direntry_span [OF x, of bb] same by (intro ld32_disjoint) blast
  moreover note dir_name_boot_block [of bb m' m, OF same]
  ultimately show ?thesis using d unfolding sys_dir_def by auto
qed

lemma sys_lits_cong:
  assumes same: "\<And>x. x \<notin> span (entry_local e) 40 \<union> span p 128 \<union> video \<Longrightarrow> m' x = m x" and l: "sys_lits e p m"
  shows "sys_lits e p m'"
  unfolding sys_lits_def
proof (intro ballI conjI)
  fix t assume t: "t \<in> set syserr_literals"
  let ?A = "span (entry_local e) 40 \<union> span p 128 \<union> video"
  have a: "lit e t \<noteq> 0" "cstr m (lit e t) (chars t)" "span (lit e t) (Suc (length t)) \<inter> ?A = {}" using l t by (simp_all add: sys_lits_def)
  show "lit e t \<noteq> 0" "span (lit e t) (Suc (length t)) \<inter> ?A = {}" by (rule a)+
  have "m' x = m x" if "x \<in> span (lit e t) (Suc (length (chars t)))" for x
    by (rule same) (use that a(3) in \<open>unfold length_chars; blast\<close>)
  with a(2) show "cstr m' (lit e t) (chars t)" by (subst cstr_cong [of "lit e t" "chars t" m' m])
qed

lemma fd_words_cong:
  assumes "\<And>x. x \<in> fd_span p i \<Longrightarrow> m' x = m x"
  shows "ld32 m' (pcb_flags p i) = ld32 m (pcb_flags p i)" "ld32 m' (pcb_fops p i) = ld32 m (pcb_fops p i)"
proof -
  show "ld32 m' (pcb_flags p i) = ld32 m (pcb_flags p i)" by (rule flags_cong [OF assms])
  have "span (pcb_fops p i) 4 \<subseteq> fd_span p i" unfolding fd_span_def by (rule span_mono) simp
  then show "ld32 m' (pcb_fops p i) = ld32 m (pcb_fops p i)" using assms by (intro ld32_disjoint) blast
qed

lemma sys_change_within: "sys_change e p \<subseteq> span (entry_local e) 40 \<union> span p 128 \<union> video"
proof -
  have "fd_span p i \<subseteq> span p 128" if "i \<in> {2..7}" for i by (rule fd_span_in_table) (use that in auto)
  then show ?thesis unfolding sys_change_def by blast
qed

lemma fd_0_1_untouched:
  assumes "i \<in> {0, 1}" and "span (entry_local e) 40 \<inter> span p 128 = {}" "span p 128 \<inter> video = {}"
  shows "fd_span p i \<inter> sys_change e p = {}"
proof -
  have "fd_span p i \<subseteq> span p 128" by (rule fd_span_in_table) (use assms(1) in auto)
  moreover have "fd_span p i \<inter> fd_span p j = {}" if "j \<in> {2..7}" for j
    by (rule fd_spans_apart) (use assms(1) that in auto)
  ultimately show ?thesis using assms(2,3) unfolding sys_change_def by blast
qed

lemma sys_ready_prints:
  assumes r: "sys_ready e p x U s" and pr: "prints (sys_change e p) xs s s'" and fds: "sys_fds V s'"
  shows "sys_ready e p x V s'"
proof -
  have k: "same_kernel s s'" and same: "\<And>a. a \<notin> sys_change e p \<Longrightarrow> mem s' a = mem s a" using pr by (auto simp: prints_def)
  note f = same_kernel_fields [OF k]
  have d: "span (entry_local e) 40 \<inter> span p 128 = {}" "span p 128 \<inter> video = {}" "span (entry_local e) 40 \<inter> span (bootblock_addr s) 4096 = {}"
    "span (bootblock_addr s) 4096 \<inter> span p 128 = {}" "span (bootblock_addr s) 4096 \<inter> video = {}" and p: "get_pcb s = p"
    using r by (auto simp: sys_ready_def)
  have so: "stdout_ready s'"
    by (rule prints_stdout_ready [OF pr]) (use r p fd_0_1_untouched [OF _ d(1,2), of 1] in \<open>auto simp: sys_ready_def\<close>)
  have "mem s' a = mem s a" if "a \<in> fd_span p 0" for a
    by (rule same) (use fd_0_1_untouched [OF _ d(1,2), of 0] that in blast)
  note z = fd_words_cong [of p 0 "mem s'" "mem s", OF this]
  have "mem s' a = mem s a" if "a \<in> span (bootblock_addr s) 4096" for a
    by (rule same) (use d(3-5) sys_change_within [of e p] that in blast)
  then have "sys_dir x (mem s') (bootblock_addr s)" using sys_dir_cong r unfolding sys_ready_def by blast
  moreover have "mem s' a = mem s a" if "a \<notin> span (entry_local e) 40 \<union> span p 128 \<union> video" for a
    by (rule same) (use sys_change_within [of e p] that in blast)
  then have "sys_lits e p (mem s')" using sys_lits_cong r unfolding sys_ready_def by blast
  ultimately show ?thesis using r so z fds unfolding sys_ready_def f by simp
qed

lemma sys_ready_quiet: "sys_ready e p x U s \<Longrightarrow> quiet s s' \<Longrightarrow> sys_ready e p x U s'"
proof -
  assume r: "sys_ready e p x U s" and q: "quiet s s'"
  then have "prints (sys_change e p) [] s s'" by (intro quiet_prints) (simp_all add: sys_ready_def stdout_ready_def)
  moreover have "sys_fds U s'" using r q unfolding sys_fds_def quiet_def sys_ready_def by (auto simp: same_kernel_fields)
  ultimately show ?thesis by (rule sys_ready_prints [OF r])
qed

lemma sys_literal_print:
  assumes r: "sys_ready e p x U s" and t: "t \<in> set syserr_literals" "BACKSPACE \<notin> set (chars t)"
  shows "\<exists>s'. ece391_fdputs e 1 (lit e t) s = Some s' \<and> sys_ready e p x U s' \<and> prints (sys_change e p) (chars t) s s'"
proof -
  have so: "stdout_ready s" and l: "lit e t \<noteq> 0" "cstr (mem s) (lit e t) (chars t)" "span (lit e t) (Suc (length t)) \<inter> video = {}"
    and d: "span p 128 \<inter> video = {}" and p: "get_pcb s = p"
    using r t by (auto simp: sys_ready_def sys_lits_def)
  have "length (chars t) < 2 ^ 31"
    using t(1) by (auto simp: syserr_literals_def test_names_def pass_line_def chars_def nl_def)
  moreover have "span (lit e t) (length (chars t)) \<inter> video = {}"
    using l(3) span_mono [of "length t" "Suc (length t)" "lit e t"] by (auto simp: length_chars)
  ultimately obtain s' where s': "ece391_fdputs e 1 (lit e t) s = Some s'" "prints video (chars t) s s'"
    using fdputs_stdout [OF so l(2,1) _ _ t(2), of e] by blast
  then have pr: "prints (sys_change e p) (chars t) s s'" by (intro prints_mono [OF s'(2)]) (auto simp: sys_change_def)
  have k: "same_kernel s s'" and same: "\<And>a. a \<notin> video \<Longrightarrow> mem s' a = mem s a" using s'(2) by (auto simp: prints_def)
  have "ld32 (mem s') (pcb_flags p i) = ld32 (mem s) (pcb_flags p i) \<and> ld32 (mem s') (pcb_fops p i) = ld32 (mem s) (pcb_fops p i)"
    if "2 \<le> i" "i \<le> 7" for i
  proof -
    have i: "fd_span p i \<subseteq> span p 128" by (rule fd_span_in_table) (use that in auto)
    have "mem s' a = mem s a" if "a \<in> fd_span p i" for a by (rule same) (use that d i in blast)
    from fd_words_cong [of p i "mem s'" "mem s", OF this] show ?thesis by blast
  qed
  then have "sys_fds U s'" using r unfolding sys_fds_def sys_ready_def same_kernel_fields [OF k] by (auto simp: p)
  then show ?thesis using sys_ready_prints [OF r pr] s'(1) pr by blast
qed

section \<open>The tests\<close>

text \<open>A test passes: it returns 0, has printed its line, and leaves the state as it found it.\<close>

definition passes :: "'a process_scheme user_env \<Rightarrow> u32 \<Rightarrow> nat \<Rightarrow> string \<Rightarrow> 'a process_scheme \<Rightarrow> (int \<times> 'a process_scheme) option \<Rightarrow> bool" where
  "passes e p x name s r \<longleftrightarrow> (\<exists>s'. r = Some (0, s') \<and> sys_ready e p x {} s' \<and> prints (sys_change e p) (chars (pass_line name)) s s')"

lemma pass_line_literal:
  assumes "name \<in> set test_names"
  shows "pass_line name \<in> set syserr_literals" "BACKSPACE \<notin> set (chars (pass_line name))"
  using assms by (auto simp: syserr_literals_def test_names_def pass_line_def chars_def nl_def)

lemma verdict_passes:
  assumes r: "sys_ready e p x {} s" and q: "quiet s s1" and n: "name \<in> set test_names"
  shows "passes e p x name s (verdict e name 0 s1)"
proof -
  obtain s' where s': "ece391_fdputs e 1 (lit e (pass_line name)) s1 = Some s'" "sys_ready e p x {} s'"
      "prints (sys_change e p) (chars (pass_line name)) s1 s'"
    using sys_literal_print [OF sys_ready_quiet [OF r q] pass_line_literal [OF n]] by blast
  have "prints (sys_change e p) ([] @ chars (pass_line name)) s s'"
    by (rule prints_append [OF quiet_prints [OF q] s'(3)]) (use r in \<open>simp add: sys_ready_def stdout_ready_def\<close>)
  then show ?thesis using s'(1,2) by (simp add: passes_def verdict_def pass_line_def)
qed

lemma err_neg_fd_passes: "sys_ready e p x {} s \<Longrightarrow> passes e p x ''err_neg_fd'' s (err_neg_fd e buf s)"
  using verdict_passes [of e p x s "sti s" "''err_neg_fd''"]
  by (simp add: quiet_sti err_neg_fd_def bad_read bad_write bad_close test_names_def)

lemma err_big_fd_passes: "sys_ready e p x {} s \<Longrightarrow> passes e p x ''err_big_fd'' s (err_big_fd e buf s)"
  using verdict_passes [of e p x s "sti s" "''err_big_fd''"]
  by (simp add: quiet_sti err_big_fd_def bad_read bad_write bad_close test_names_def)

lemma err_vidmap_passes: "sys_ready e p x {} s \<Longrightarrow> passes e p x ''err_vidmap'' s (err_vidmap e s)"
  using verdict_passes [of e p x s s "''err_vidmap''"]
  by (simp add: err_vidmap_def bad_vidmap in_user_page_bounds test_names_def)

lemma err_syscall_num_passes: "sys_ready e p x {} s \<Longrightarrow> passes e p x ''err_syscall_num'' s (err_syscall_num e regs s)"
  using verdict_passes [of e p x s s "''err_syscall_num''"]
  by (simp add: err_syscall_num_def bad_call sint_word_of_int test_names_def)

lemma err_open_passes:
  assumes r: "sys_ready e p x {} s"
  shows "passes e p x ''err_open'' s (err_open e s)"
proof -
  have l: "cstr (mem s) (lit e t) (chars t)" if "t \<in> set syserr_literals" for t
    using r that by (simp add: sys_ready_def sys_lits_def)
  have d: "dir_name (mem s) (bootblock_addr s) j \<noteq> chars ''helloo'' \<and> dir_name (mem s) (bootblock_addr s) j \<noteq> chars ''shel''" if "j < 63" for j
    using r that by (simp add: sys_ready_def sys_dir_def)
  have "ece391_open e (lit e ''helloo'') s = Some (- 1, s)" "ece391_open e (lit e ''shel'') s = Some (- 1, s)"
      "ece391_open e (lit e '''') s = Some (- 1, s)"
    by (rule bad_open [OF l]; use d in \<open>auto simp: syserr_literals_def length_chars\<close>; simp add: chars_def)+
  then show ?thesis using verdict_passes [OF r quiet_refl, of "''err_open''"] by (simp add: err_open_def test_names_def)
qed

lemma err_stdin_out_passes:
  assumes r: "sys_ready e p x {} s" and buf: "buf \<noteq> 0"
  shows "passes e p x ''err_stdin_out'' s (err_stdin_out e buf s)"
proof -
  have t: "tables_ready s" "ld32 (mem s) (pcb_flags (get_pcb s) 0) \<noteq> 0" "ld32 (mem s) (pcb_fops (get_pcb s) 0) = stdin_table_addr s"
    using r by (simp_all add: sys_ready_def stdout_ready_def)
  have "fops_at (s\<lparr>temp_fd := 0\<rparr>) (stdin_table_addr s) = Some (stdin_table s)" "fop_write (stdin_table s) = Write_failure"
    using t(1) by (auto simp: fops_at_def tables_ready_def tables_init_def)
  then have "ece391_write e 0 buf 31 s = Some (- 1, s\<lparr>temp_fd := 0\<rparr>)"
    using t buf by (simp add: ece391_write_def do_call_def syscall_def write_fd_def call_write_def write_failure_def)
  moreover have "quiet s (sti (s\<lparr>temp_fd := 0\<rparr>))" by (rule quiet_trans [OF quiet_temp_fd quiet_sti])
  ultimately show ?thesis using verdict_passes [OF r, of _ "''err_stdin_out''"]
    by (simp add: err_stdin_out_def bad_read test_names_def)
qed

lemma close_each_fail: "\<forall>i \<in> set is. 0 \<le> i \<and> i \<le> 7 \<and> (i < 2 \<or> ld32 (mem s) (pcb_flags (get_pcb s) i) = 0) \<Longrightarrow>
    close_each e is 0 s = Some (0, s)"
  by (induction "is") (auto simp: bad_close)

lemma write_each_fail: "\<forall>i \<in> set is. 0 \<le> i \<and> i \<le> 7 \<and> ld32 (mem s) (pcb_flags (get_pcb s) i) = 0 \<Longrightarrow>
    write_each e buf is 0 s = Some (0, s)"
  by (induction "is") (auto simp: bad_write)

lemma read_each_fail: "\<forall>i \<in> set is. 0 \<le> i \<and> i \<le> 7 \<and> ld32 (mem s) (pcb_flags (get_pcb s) i) = 0 \<Longrightarrow>
    \<exists>s'. read_each e buf is 0 s = Some (0, s') \<and> quiet s s'"
proof (induction "is" arbitrary: s)
  case (Cons i "is")
  have q: "quiet s (sti s)" by (rule quiet_sti)
  have "\<forall>j \<in> set is. 0 \<le> j \<and> j \<le> 7 \<and> ld32 (mem (sti s)) (pcb_flags (get_pcb (sti s)) j) = 0"
    using Cons.prems by (simp add: sti_def get_pcb_def)
  from Cons.IH [OF this] obtain s' where s': "read_each e buf is 0 (sti s) = Some (0, s')" "quiet (sti s) s'" by blast
  have "ece391_read e i buf 31 s = Some (- 1, sti s)" by (rule bad_read) (use Cons.prems in auto)
  then show ?case using s'(1) quiet_trans [OF q s'(2)] by auto
qed simp

lemma err_unopened_passes:
  assumes r: "sys_ready e p x {} s"
  shows "passes e p x ''err_unopened'' s (err_unopened e buf s)"
proof -
  have z: "ld32 (mem s) (pcb_flags (get_pcb s) i) = 0" if "2 \<le> i" "i \<le> 7" for i
    using r that by (auto simp: sys_ready_def sys_fds_def)
  have c: "close_each e [0..7] 0 s = Some (0, s)" by (rule close_each_fail) (auto simp: z not_less [symmetric] intro: z ccontr)
  obtain s1 where s1: "read_each e buf [2..7] 0 s = Some (0, s1)" "quiet s s1"
  proof -
    have "\<forall>i \<in> set [2..7]. 0 \<le> i \<and> i \<le> 7 \<and> ld32 (mem s) (pcb_flags (get_pcb s) i) = 0" using z by auto
    from read_each_fail [OF this] show thesis using that by blast
  qed
  then have "get_pcb s1 = get_pcb s" "mem s1 = mem s" using same_kernel_fields(1) unfolding quiet_def by blast+
  then have "write_each e buf [2..7] 0 s1 = Some (0, s1)" using z by (intro write_each_fail) auto
  then show ?thesis using verdict_passes [OF r s1(2), of "''err_unopened''"] c s1(1)
    unfolding err_unopened_def by (simp only: bind.bind_lunit split) (simp add: test_names_def)
qed

subsection \<open>Opening too many files\<close>

lemma sys_named_entry:
  assumes "sys_ready e p x U s"
  shows "named_entry (entry_local e) (lit e ''.'') (chars ''.'') x s" "ld32 (mem s) (dentry_filetype (direntry (bootblock_addr s) (of_nat x))) = 1"
  using assms by (auto simp: sys_ready_def named_entry_def sys_dir_def sys_lits_def syserr_literals_def chars_def)

text \<open>A step that changes no more than descriptor \<open>i\<close> and the local directory entry.\<close>

lemma sys_ready_fd_step:
  assumes r: "sys_ready e p x U s" and i: "2 \<le> i" "i \<le> 7" and k: "same_kernel s s'" "tty_of s' = tty_of s" "on_screen s'"
    and same: "\<And>a. a \<notin> span (entry_local e) 40 \<Longrightarrow> a \<notin> fd_span p i \<Longrightarrow> mem s' a = mem s a"
    and fd: "if i \<in> V then ld32 (mem s') (pcb_flags p i) = 1 \<and> ld32 (mem s') (pcb_fops p i) = directory_table_addr s
      else ld32 (mem s') (pcb_flags p i) = 0" and V: "\<And>j. j \<noteq> i \<Longrightarrow> j \<in> V \<longleftrightarrow> j \<in> U"
  shows "sys_ready e p x V s' \<and> prints (sys_change e p) [] s s'"
proof -
  have p: "get_pcb s = p" and d: "span (entry_local e) 40 \<inter> span p 128 = {}" using r by (auto simp: sys_ready_def)
  have pr: "prints (sys_change e p) [] s s'" using k same i by (auto simp: prints_def sys_change_def)
  have other: "ld32 (mem s') (pcb_flags p j) = ld32 (mem s) (pcb_flags p j) \<and> ld32 (mem s') (pcb_fops p j) = ld32 (mem s) (pcb_fops p j)"
    if "2 \<le> j" "j \<le> 7" "j \<noteq> i" for j
  proof -
    have "fd_span p j \<inter> fd_span p i = {}" "fd_span p j \<subseteq> span p 128"
      using fd_spans_apart [of j i p] fd_span_in_table [of j p] that i by simp_all
    then have "mem s' a = mem s a" if "a \<in> fd_span p j" for a by (intro same) (use that d in blast)+
    from fd_words_cong [of p j "mem s'" "mem s", OF this] show ?thesis by blast
  qed
  have "sys_fds V s'" unfolding sys_fds_def
  proof (intro allI impI)
    fix j :: int assume j: "2 \<le> j \<and> j \<le> 7"
    have "sys_fds U s" using r by (simp add: sys_ready_def)
    with j fd V other show "if j \<in> V then ld32 (mem s') (pcb_flags (get_pcb s') j) = 1 \<and> ld32 (mem s') (pcb_fops (get_pcb s') j) = directory_table_addr s'
      else ld32 (mem s') (pcb_flags (get_pcb s') j) = 0"
      unfolding sys_fds_def same_kernel_fields [OF k(1)] p by (cases "j = i") auto
  qed
  with pr show ?thesis using sys_ready_prints [OF r pr] by blast
qed

lemma open_one:
  assumes r: "sys_ready e p x {2..<i} s" and i: "2 \<le> i" "i \<le> 7"
  shows "\<exists>s'. ece391_open e (lit e ''.'') s = Some (i, s') \<and> sys_ready e p x {2..<i + 1} s' \<and> prints (sys_change e p) [] s s'"
proof -
  have p: "get_pcb s = p" and t: "tables_ready s" "on_screen s" and f: "sys_fds {2..<i} s" and d: "span (entry_local e) 40 \<inter> video = {}" "span p 128 \<inter> video = {}"
    using r by (auto simp: sys_ready_def stdout_ready_def)
  have lf: "lowest_free (mem s) (get_pcb s) i" using f i unfolding lowest_free_def sys_fds_def by auto
  obtain m' where m': "open_fd (entry_local e) (lit e ''.'') s = Some (i, s\<lparr>mem := m', num_files_read := 0\<rparr>)" "ld32 m' (pcb_flags p i) = 1"
      "ld32 m' (pcb_fops p i) = directory_table_addr s" "\<And>x. x \<notin> span (entry_local e) 40 \<Longrightarrow> x \<notin> fd_span p i \<Longrightarrow> m' x = mem s x"
    using open_directory [OF sys_named_entry(1) [OF r] t(1) lf sys_named_entry(2) [OF r]] unfolding p by blast
  let ?s = "s\<lparr>mem := m', num_files_read := 0\<rparr>"
  have fp: "fd_span p i \<subseteq> span p 128" by (rule fd_span_in_table) (use i in auto)
  have "screen m' = screen (mem s)" by (rule screen_cong, rule m'(4)) (use d fp in blast)+
  then have "tty_of ?s = tty_of s" "on_screen ?s" using t(2) by (simp_all add: tty_of_def on_screen_def)
  moreover have "same_kernel s ?s" by (simp add: same_kernel_def)
  ultimately have "sys_ready e p x {2..<i + 1} ?s \<and> prints (sys_change e p) [] s ?s"
    using m'(2-4) i by (intro sys_ready_fd_step [OF r i]) auto
  then show ?thesis using m'(1) by (auto simp: ece391_open_def do_call_def syscall_def)
qed

lemma open_none:
  assumes r: "sys_ready e p x {2..<8} s"
  shows "\<exists>s'. ece391_open e (lit e ''.'') s = Some (- 1, s') \<and> sys_ready e p x {2..<8} s' \<and> prints (sys_change e p) [] s s'"
proof -
  have p: "get_pcb s = p" and t: "on_screen s" and f: "sys_fds {2..<8} s" and d: "span (entry_local e) 40 \<inter> video = {}" "span (entry_local e) 40 \<inter> span p 128 = {}"
    using r by (auto simp: sys_ready_def stdout_ready_def)
  have "fds_full (mem s) (get_pcb s)" using f unfolding fds_full_def sys_fds_def by auto
  then obtain m' where m': "open_fd (entry_local e) (lit e ''.'') s = Some (- 1, s\<lparr>mem := m'\<rparr>)" "\<And>x. x \<notin> span (entry_local e) 40 \<Longrightarrow> m' x = mem s x"
    using open_fails [OF sys_named_entry(1) [OF r]] by blast
  have "tty_of (s\<lparr>mem := m'\<rparr>) = tty_of s" by (rule tty_of_mem, rule m'(2)) (use d in blast)
  moreover have "on_screen (s\<lparr>mem := m'\<rparr>)" using t by (simp add: on_screen_def)
  moreover have "m' a = mem s a" if "a \<in> fd_span p 2" for a
    by (rule m'(2)) (use d(2) that fd_span_in_table [of 2 p] in auto)
  note w = fd_words_cong [of p 2 m' "mem s", OF this]
  have two: "ld32 (mem s) (pcb_flags p 2) = 1" "ld32 (mem s) (pcb_fops p 2) = directory_table_addr s"
    using f by (auto simp: sys_fds_def p)
  ultimately have "sys_ready e p x {2..<8} (s\<lparr>mem := m'\<rparr>) \<and> prints (sys_change e p) [] s (s\<lparr>mem := m'\<rparr>)"
    using m'(2) w two by (intro sys_ready_fd_step [OF r, of 2]) auto
  then show ?thesis using m'(1) by (auto simp: ece391_open_def do_call_def syscall_def)
qed

text \<open>With \<open>i - 2\<close> descriptors taken, \<open>n\<close> calls of \<open>open\<close> take as many as there are and the rest fail.\<close>

lemma open_lots_counts:
  "sys_ready e p x {2..<i} s \<Longrightarrow> 2 \<le> i \<Longrightarrow> i \<le> 8 \<Longrightarrow> \<exists>s'. open_lots e is cnt s = Some (cnt + max 0 (i + int (length is) - 8), s') \<and>
     sys_ready e p x {2..<min 8 (i + int (length is))} s' \<and> prints (sys_change e p) [] s s'"
proof (induction "is" arbitrary: i cnt s)
  case Nil
  then show ?case using prints_Nil by (auto simp: sys_ready_def stdout_ready_def min_def)
next
  case (Cons a "is")
  show ?case
  proof (cases "i = 8")
    case True
    then obtain s1 where s1: "ece391_open e (lit e ''.'') s = Some (- 1, s1)" "sys_ready e p x {2..<8} s1" "prints (sys_change e p) [] s s1"
      using open_none [of e p x s] Cons.prems(1) by blast
    with Cons.IH [of 8 s1 "cnt + 1"] True obtain s' where "open_lots e is (cnt + 1) s1 = Some (cnt + 1 + max 0 (int (length is)), s')"
        "sys_ready e p x {2..<8} s'" "prints (sys_change e p) [] s1 s'" by auto
    then show ?thesis using s1(1) True prints_append [OF s1(3), of "[]" s'] by (intro exI [of _ s']) simp
  next
    case False
    then have i: "2 \<le> i" "i \<le> 7" using Cons.prems by auto
    obtain s1 where s1: "ece391_open e (lit e ''.'') s = Some (i, s1)" "sys_ready e p x {2..<i + 1} s1" "prints (sys_change e p) [] s s1"
      using open_one [OF Cons.prems(1) i] by blast
    with Cons.IH [of "i + 1" s1 cnt] i obtain s' where "open_lots e is cnt s1 = Some (cnt + max 0 (i + 1 + int (length is) - 8), s')"
        "sys_ready e p x {2..<min 8 (i + 1 + int (length is))} s'" "prints (sys_change e p) [] s1 s'" by auto
    then show ?thesis using s1(1) i prints_append [OF s1(3), of "[]" s'] by (intro exI [of _ s']) (simp add: add.assoc)
  qed
qed

lemma close_one:
  assumes r: "sys_ready e p x U s" and i: "2 \<le> i" "i \<le> 7" "i \<in> U"
  shows "\<exists>s'. ece391_close e i s = Some (0, s') \<and> sys_ready e p x (U - {i}) s' \<and> prints (sys_change e p) [] s s'"
proof -
  have p: "get_pcb s = p" and t: "tables_ready s" "on_screen s" and d: "span p 128 \<inter> video = {}"
    using r by (auto simp: sys_ready_def stdout_ready_def)
  have f: "ld32 (mem s) (pcb_flags (get_pcb s) i) \<noteq> 0" "served s i"
    using r i unfolding sys_ready_def sys_fds_def served_def by auto
  let ?s = "s\<lparr>mem := freed p i (mem s)\<rparr>"
  have c: "close_fd i s = Some (0, ?s)" using close_fd_served [OF t(1) i(1,2) f] p by simp
  have fp: "fd_span p i \<subseteq> span p 128" by (rule fd_span_in_table) (use i in auto)
  have "tty_of ?s = tty_of s" by (rule tty_of_mem, rule freed_outside) (use d fp in blast)
  moreover have "on_screen ?s" using t(2) by (simp add: on_screen_def)
  ultimately have "sys_ready e p x (U - {i}) ?s \<and> prints (sys_change e p) [] s ?s"
    by (intro sys_ready_fd_step [OF r i(1,2)]) (auto simp: freed_outside)
  moreover have "ece391_close e i s = Some (0, ?s)"
    using c i by (simp add: ece391_close_def do_call_def syscall_def sint_word_of_int)
  ultimately show ?thesis by blast
qed

lemma close_lots_frees:
  "sys_ready e p x U s \<Longrightarrow> set is \<subseteq> U \<Longrightarrow> set is \<subseteq> {2..7} \<Longrightarrow> distinct is \<Longrightarrow>
     \<exists>s'. close_lots e is s = Some s' \<and> sys_ready e p x (U - set is) s' \<and> prints (sys_change e p) [] s s'"
proof (induction "is" arbitrary: U s)
  case Nil
  then show ?case using prints_Nil by (auto simp: sys_ready_def stdout_ready_def)
next
  case (Cons i "is")
  then obtain s1 where s1: "ece391_close e i s = Some (0, s1)" "sys_ready e p x (U - {i}) s1" "prints (sys_change e p) [] s s1"
    using close_one [OF Cons.prems(1), of i] by auto
  with Cons.IH [of "U - {i}" s1] Cons.prems obtain s' where s': "close_lots e is s1 = Some s'" "sys_ready e p x (U - {i} - set is) s'"
      "prints (sys_change e p) [] s1 s'" by auto
  have "U - {i} - set is = U - set (i # is)" by auto
  then show ?case using s1(1) s'(1,2) prints_append [OF s1(3) s'(3)] by (intro exI [of _ s']) simp
qed

lemma err_open_lots_passes:
  assumes r: "sys_ready e p x {} s"
  shows "passes e p x ''err_open_lots'' s (err_open_lots e s)"
proof -
  have "sys_ready e p x {2..<2} s" using r by simp
  from open_lots_counts [OF this, of "[0..6]" 0] obtain s1 where s1: "open_lots e [0..6] 0 s = Some (1, s1)" "sys_ready e p x {2..<8} s1"
      "prints (sys_change e p) [] s s1"
    by (auto simp: length_upto simp del: open_lots.simps)
  have "set [2..7] \<subseteq> {2..<8 :: int}" "set [2..7] \<subseteq> {2..7 :: int}" "{2..<8} - set [2..7] = ({} :: int set)" by auto
  with close_lots_frees [OF s1(2), of "[2..7]"] obtain s2 where s2: "close_lots e [2..7] s1 = Some s2" "sys_ready e p x {} s2"
      "prints (sys_change e p) [] s1 s2" by (metis distinct_upto)
  obtain s3 where s3: "ece391_fdputs e 1 (lit e (pass_line ''err_open_lots'')) s2 = Some s3" "sys_ready e p x {} s3"
      "prints (sys_change e p) (chars (pass_line ''err_open_lots'')) s2 s3"
    using sys_literal_print [OF s2(2) pass_line_literal, of "''err_open_lots''"] by (auto simp: test_names_def)
  have "err_open_lots e s = Some (0, s3)"
    unfolding err_open_lots_def s1(1) bind.bind_lunit split s2(1) using s3(1) by (simp add: pass_line_def)
  then show ?thesis using s3(2) prints_append [OF prints_append [OF s1(3) s2(3)] s3(3)] by (simp add: passes_def)
qed

section \<open>All tests\<close>

definition syserr_report :: "u8 list" where
  "syserr_report = concat (map (\<lambda>n. chars (pass_line n)) test_names) @ chars (nl @ ''Overall Tests: PASS'' @ nl)"

lemma passes_step: "passes e p x name s r \<Longrightarrow> prints (sys_change e p) xs s0 s \<Longrightarrow>
    \<exists>s'. r = Some (0, s') \<and> sys_ready e p x {} s' \<and> prints (sys_change e p) (xs @ chars (pass_line name)) s0 s'"
  using prints_append by (fastforce simp: passes_def)

lemma all_tests_pass:
  assumes r: "sys_ready e p x {} s" and buf: "buf \<noteq> 0"
  shows "\<exists>s'. run_all_tests e buf regs s = Some (0, s') \<and> sys_ready e p x {} s' \<and> prints (sys_change e p) syserr_report s s'"
proof -
  have "prints (sys_change e p) [] s s" using r by (intro prints_Nil) (simp add: sys_ready_def stdout_ready_def)
  with r obtain s1 where 1: "err_neg_fd e buf s = Some (0, s1)" "sys_ready e p x {} s1"
      "prints (sys_change e p) ([] @ chars (pass_line ''err_neg_fd'')) s s1" using passes_step [OF err_neg_fd_passes] by blast
  obtain s2 where 2: "err_big_fd e buf s1 = Some (0, s2)" "sys_ready e p x {} s2"
      "prints (sys_change e p) (([] @ chars (pass_line ''err_neg_fd'')) @ chars (pass_line ''err_big_fd'')) s s2"
    using passes_step [OF err_big_fd_passes [OF 1(2)] 1(3)] by blast
  obtain s3 where 3: "err_open_lots e s2 = Some (0, s3)" "sys_ready e p x {} s3"
      "prints (sys_change e p) ((([] @ chars (pass_line ''err_neg_fd'')) @ chars (pass_line ''err_big_fd'')) @ chars (pass_line ''err_open_lots'')) s s3"
    using passes_step [OF err_open_lots_passes [OF 2(2)] 2(3)] by blast
  obtain s4 where 4: "err_open e s3 = Some (0, s4)" "sys_ready e p x {} s4"
      "prints (sys_change e p) (concat (map (\<lambda>n. chars (pass_line n)) (take 4 test_names))) s s4"
    using passes_step [OF err_open_passes [OF 3(2)] 3(3)] by (auto simp: test_names_def)
  obtain s5 where 5: "err_unopened e buf s4 = Some (0, s5)" "sys_ready e p x {} s5"
      "prints (sys_change e p) (concat (map (\<lambda>n. chars (pass_line n)) (take 5 test_names))) s s5"
    using passes_step [OF err_unopened_passes [OF 4(2)] 4(3), of buf] by (auto simp: test_names_def)
  obtain s6 where 6: "err_vidmap e s5 = Some (0, s6)" "sys_ready e p x {} s6"
      "prints (sys_change e p) (concat (map (\<lambda>n. chars (pass_line n)) (take 6 test_names))) s s6"
    using passes_step [OF err_vidmap_passes [OF 5(2)] 5(3)] by (auto simp: test_names_def)
  obtain s7 where 7: "err_stdin_out e buf s6 = Some (0, s7)" "sys_ready e p x {} s7"
      "prints (sys_change e p) (concat (map (\<lambda>n. chars (pass_line n)) (take 7 test_names))) s s7"
    using passes_step [OF err_stdin_out_passes [OF 6(2) buf] 6(3)] by (auto simp: test_names_def)
  obtain s8 where 8: "err_syscall_num e regs s7 = Some (0, s8)" "sys_ready e p x {} s8"
      "prints (sys_change e p) (concat (map (\<lambda>n. chars (pass_line n)) test_names)) s s8"
    using passes_step [OF err_syscall_num_passes [OF 7(2)] 7(3), of regs] by (auto simp: test_names_def)
  let ?t = "nl @ ''Overall Tests: PASS'' @ nl"
  have "?t \<in> set syserr_literals" "BACKSPACE \<notin> set (chars ?t)" by (simp_all add: syserr_literals_def chars_def nl_def)
  then obtain s9 where 9: "ece391_fdputs e 1 (lit e ?t) s8 = Some s9" "sys_ready e p x {} s9" "prints (sys_change e p) (chars ?t) s8 s9"
    using sys_literal_print [OF 8(2)] by blast
  have "run_all_tests e buf regs s = Some (0, s9)"
    unfolding run_all_tests_def 1(1) 2(1) 3(1) 4(1) 5(1) 6(1) 7(1) 8(1) bind.bind_lunit split Let_def using 9(1) by simp
  moreover have "prints (sys_change e p) syserr_report s s9" unfolding syserr_report_def by (rule prints_append [OF 8(3) 9(3)])
  ultimately show ?thesis using 9(2) by blast
qed


text \<open>C5: the kernel passes the error tests. Started with standard input and output open and no other
  descriptor in use, \<open>run_all_tests\<close> of the program \<open>syserr\<close>, which gives the system calls descriptors that are negative,
  too large or not open, more files than there are descriptors, names that do not exist, bad screen pointers, the wrong
  direction of a terminal, and numbers that are no system call, returns 0: every test sees the errors it
  expects, and the terminal shows the eight \<open>PASS\<close> lines and the overall one.\<close>

theorem syserr_passes:
  fixes s :: "'a process_scheme"
  assumes "sys_ready e p x {} s" and "buf \<noteq> 0"
  shows "\<exists>s'. run_all_tests e buf regs s = Some (0, s') \<and> tty_of s' = fold tty_putc syserr_report (tty_of s)"
  using all_tests_pass [OF assms, of regs] unfolding prints_def by blast

definition demo_tests :: process where
  "demo_tests = demo_user\<lparr>mem := lit_mem syserr_literals demo_user_mem\<rparr>"

lemma demo_test_literals:
  "length syserr_literals = 13" "\<forall>t \<in> set syserr_literals. length t < 255 \<and> 0 \<notin> set (chars t)"
  by (auto simp: syserr_literals_def test_names_def pass_line_def nl_def chars_def)

lemma demo_tests_mem: "x \<notin> span 0x10000 3328 \<Longrightarrow> lit_mem syserr_literals demo_user_mem x = demo_user_mem x"
  by (rule lit_mem_outside) (simp_all add: demo_test_literals)

lemma demo_tests_apart:
  "span 0x10000 3328 \<inter> span 0x7FE000 128 = {}" "span 0x10000 3328 \<inter> span 0x1000 4096 = {}" "span 0x10000 3328 \<inter> video = {}"
  "span 0x10000 3328 \<inter> span 0x6000 40 = {}"
  by (rule span_apartI; simp)+

lemma demo_tests_lits: "sys_lits (demo_env\<lparr>lit := lit_addr syserr_literals\<rparr>) 0x7FE000 (lit_mem syserr_literals demo_user_mem)"
  unfolding sys_lits_def
proof (intro ballI conjI)
  fix t assume t: "t \<in> set syserr_literals"
  then have n: "length t < 255" "0 \<notin> set (chars t)" using demo_test_literals(2) by auto
  have "lit_addr syserr_literals t \<in> span (lit_addr syserr_literals t) 1" by (simp add: in_span_iff)
  also have "\<dots> \<subseteq> span 0x10000 3328" using lit_addr_span [OF t, of 1] demo_test_literals(1) by simp
  finally have a: "lit_addr syserr_literals t \<in> span 0x10000 3328" .
  have "(0 :: u32) \<notin> span 0x10000 3328" by (subst in_span_unat) simp_all
  with a show "lit (demo_env\<lparr>lit := lit_addr syserr_literals\<rparr>) t \<noteq> 0" by auto
  show "cstr (lit_mem syserr_literals demo_user_mem) (lit (demo_env\<lparr>lit := lit_addr syserr_literals\<rparr>) t) (chars t)"
    using lit_mem_cstr [OF t, of demo_user_mem] n demo_test_literals(1) by simp
  have "span (lit_addr syserr_literals t) (Suc (length t)) \<subseteq> span 0x10000 3328"
    using lit_addr_span [OF t, of "Suc (length t)"] n(1) demo_test_literals(1) by simp
  then show "span (lit (demo_env\<lparr>lit := lit_addr syserr_literals\<rparr>) t) (Suc (length t)) \<inter>
      (span (entry_local (demo_env\<lparr>lit := lit_addr syserr_literals\<rparr>)) 40 \<union> span 0x7FE000 128 \<union> video) = {}"
    using demo_tests_apart by auto
qed

lemma demo_tests_dir: "sys_dir 0 demo_user_mem 0x1000"
proof -
  have "dir_name demo_user_mem 0x1000 j \<noteq> chars ''helloo'' \<and> dir_name demo_user_mem 0x1000 j \<noteq> chars ''shel''" if "j < 63" for j
  proof (cases "2 \<le> j")
    case True
    then show ?thesis using demo_names_beyond [OF True that] by (simp add: chars_def)
  next
    case False
    then have "j = 0 \<or> j = Suc 0" by auto
    then show ?thesis using demo_dir_names(1,2) by (auto simp: chars_def)
  qed
  then show ?thesis using demo_dir_names(1) demo_dir_type by (simp add: sys_dir_def chars_def)
qed

lemma demo_tests_ready: "sys_ready (demo_env\<lparr>lit := lit_addr syserr_literals\<rparr>) 0x7FE000 0 {} demo_tests"
proof -
  note d = demo_tests_apart
  have g: "get_pcb demo_tests = 0x7FE000" "bootblock_addr demo_tests = 0x1000" "mem demo_tests = lit_mem syserr_literals demo_user_mem"
      "stdin_table_addr demo_tests = 0x503030"
    by (simp_all add: demo_tests_def get_pcb_def demo_user_def demo_process_def)
  have "prints (span 0x10000 3328) [] demo_user demo_tests"
  proof -
    have "tty_of demo_tests = tty_of demo_user"
      unfolding demo_tests_def by (rule tty_of_mem) (use d(3) in \<open>auto intro: demo_tests_mem\<close>)
    moreover have "on_screen demo_tests" using demo_user_stdout by (simp add: stdout_ready_def on_screen_def demo_tests_def)
    moreover have "same_kernel demo_user demo_tests" unfolding demo_tests_def by (rule same_kernel_update)
    ultimately show ?thesis by (simp add: prints_def g(3) demo_tests_mem)
  qed
  moreover have fp: "fd_span 0x7FE000 i \<inter> span 0x10000 3328 = {}" if "0 \<le> i" "i \<le> 7" for i
    using fd_span_in_table [of i "0x7FE000"] that d(1) by auto
  ultimately have so: "stdout_ready demo_tests" using prints_stdout_ready [OF _ demo_user_stdout] by simp
  have w: "ld32 (lit_mem syserr_literals demo_user_mem) (pcb_flags 0x7FE000 i) = ld32 demo_user_mem (pcb_flags 0x7FE000 i)"
      "ld32 (lit_mem syserr_literals demo_user_mem) (pcb_fops 0x7FE000 i) = ld32 demo_user_mem (pcb_fops 0x7FE000 i)"
    if "0 \<le> i" "i \<le> 7" for i
    using fp [OF that] by (auto intro!: fd_words_cong demo_tests_mem)
  have "sys_fds {} demo_tests" using demo_user_free w by (simp add: sys_fds_def g)
  moreover have "sys_dir 0 (lit_mem syserr_literals demo_user_mem) 0x1000"
    by (rule sys_dir_cong [OF demo_tests_mem demo_tests_dir]) (use d(2) in auto)
  moreover have "apart [(0x6000, 40), (0x1000, 4096), (0x7FE000, 128), (VIDEO, 4000)]"
    by simp (intro conjI span_apartI; simp)
  ultimately show ?thesis using so demo_tests_lits w [of 0] by (simp add: sys_ready_def g demo_user_flags)
qed

theorem syserr_passes_witness:
  "\<exists>s'. run_all_tests (demo_env\<lparr>lit := lit_addr syserr_literals\<rparr>) 0x8000 (0, 0, 0) demo_tests = Some (0, s') \<and>
     tty_of s' = fold tty_putc syserr_report (tty_of demo_tests)"
  by (rule syserr_passes [OF demo_tests_ready]) simp

end
