(* ===== verification/Blink.thy ===== *)
theory Blink
  imports User
begin

text \<open>
  The blinking characters of the \<open>fish\<close> program: \<open>blink.S\<close>, with the memory routines of \<open>fish.c\<close> it
  calls. The characters are kept in a linked list of 16-byte structures, taken from the array
  \<open>blink_array\<close>, in raw memory; the addresses of the three globals are the record \<open>blink_env\<close>. The
  loops over the list do not end when the list is not terminated, so they are partial functions.
  \<open>bp\<close> is the frame pointer of the routine, below which its local structure lies.
\<close>

section \<open>Definitions\<close>

subsection \<open>Halfwords\<close>

definition ld16 :: "memory \<Rightarrow> u32 \<Rightarrow> u16" where
  "ld16 m a = ucast (m a) OR push_bit 8 (ucast (m (a + 1)))"

definition st16 :: "memory \<Rightarrow> u32 \<Rightarrow> u16 \<Rightarrow> memory" where
  "st16 m a v = m(a := ucast v, a + 1 := ucast (drop_bit 8 v))"

subsection \<open>The structure\<close>

text \<open>The location is at offset 0.\<close>

abbreviation ON_CHAR :: "u32 \<Rightarrow> u32" where "ON_CHAR p \<equiv> p + 2"
abbreviation OFF_CHAR :: "u32 \<Rightarrow> u32" where "OFF_CHAR p \<equiv> p + 3"
abbreviation ON_LENGTH :: "u32 \<Rightarrow> u32" where "ON_LENGTH p \<equiv> p + 4"
abbreviation OFF_LENGTH :: "u32 \<Rightarrow> u32" where "OFF_LENGTH p \<equiv> p + 6"
abbreviation COUNTDOWN :: "u32 \<Rightarrow> u32" where "COUNTDOWN p \<equiv> p + 8"
abbreviation STATUS :: "u32 \<Rightarrow> u32" where "STATUS p \<equiv> p + 10"
abbreviation NEXT :: "u32 \<Rightarrow> u32" where "NEXT p \<equiv> p + 12"

record blink_env =
  blink_array :: u32
  mp1_list_head :: u32
  vmem_base_addr :: u32

subsection \<open>Memory\<close>

definition ece391_memset :: "u32 \<Rightarrow> u8 \<Rightarrow> int \<Rightarrow> memory \<Rightarrow> memory" where
  "ece391_memset dst c n m = fold (\<lambda>i m. m(dst + of_nat i := c)) [0..<nat n] m"

definition ece391_memcpy :: "u32 \<Rightarrow> u32 \<Rightarrow> int \<Rightarrow> memory \<Rightarrow> int \<times> memory" where
  "ece391_memcpy dest src n m = (0, fold (\<lambda>i m. m(dest + of_nat i := m (src + of_nat i))) [0..<nat n] m)"

text \<open>The first structure whose location is 0; the size is not looked at.\<close>

definition mp1_malloc :: "blink_env \<Rightarrow> int \<Rightarrow> memory \<Rightarrow> u32" where
  "mp1_malloc g sz m =
     (case find (\<lambda>i. ld16 m (blink_array g + 16 * of_nat i) = 0) [0..<2000] of
        Some i \<Rightarrow> blink_array g + 16 * of_nat i | None \<Rightarrow> 0)"

definition mp1_free :: "u32 \<Rightarrow> memory \<Rightarrow> memory" where
  "mp1_free p m = ece391_memset p 0 16 m"

definition mp1_poke :: "blink_env \<Rightarrow> u8 \<Rightarrow> u32 \<Rightarrow> memory \<Rightarrow> memory" where
  "mp1_poke g cl eax m = m(ld32 m (vmem_base_addr g) + eax := cl)"

definition cell_offset :: "memory \<Rightarrow> u32 \<Rightarrow> u32" where
  "cell_offset m p = push_bit 1 (ucast (ld16 m p))"

subsection \<open>The list\<close>

partial_function (option) find_helper_loop :: "memory \<Rightarrow> u16 \<Rightarrow> u32 \<Rightarrow> u32 option" where
  "find_helper_loop m ax ebx =
     (if ebx = 0 then Some 0
      else if ld16 m ebx = ax then Some ebx
      else find_helper_loop m ax (ld32 m (NEXT ebx)))"

definition mp1_find_helper :: "blink_env \<Rightarrow> u32 \<Rightarrow> memory \<Rightarrow> u32 option" where
  "mp1_find_helper g arg m = find_helper_loop m (ucast arg) (ld32 m (mp1_list_head g))"

definition mp1_ioctl_add :: "blink_env \<Rightarrow> u32 \<Rightarrow> u32 \<Rightarrow> memory \<Rightarrow> int \<times> memory" where
  "mp1_ioctl_add g bp arg m =
     (let tmp = bp - 16;
          (r, m) = ece391_memcpy tmp arg 16 m
      in if r \<noteq> 0 then (- 1, m)
         else if ld16 m tmp \<ge> 80 * 25 then (- 1, m)
         else
           (let m = st16 m (STATUS tmp) 1;
                m = st16 m (COUNTDOWN tmp) (ld16 m (ON_LENGTH tmp));
                p = mp1_malloc g 16 m
            in if p = 0 then (- 1, m)
               else
                 (let (r, m) = ece391_memcpy p tmp 16 m;
                      m = st32 m (NEXT p) (ld32 m (mp1_list_head g));
                      m = st32 m (mp1_list_head g) p
                  in (0, mp1_poke g (m (ON_CHAR p)) (cell_offset m p) m))))"

partial_function (option) remove_find_prev :: "memory \<Rightarrow> u32 \<Rightarrow> u32 \<Rightarrow> u32 option" where
  "remove_find_prev m eax edx =
     (if ld32 m edx = eax then Some edx else remove_find_prev m eax (NEXT (ld32 m edx)))"

definition mp1_ioctl_remove :: "blink_env \<Rightarrow> u32 \<Rightarrow> memory \<Rightarrow> (int \<times> memory) option" where
  "mp1_ioctl_remove g arg m = do {
     p \<leftarrow> mp1_find_helper g arg m;
     if p = 0 then Some (- 1, m)
     else do {
       prev \<leftarrow> remove_find_prev m p (mp1_list_head g);
       let m = st32 m prev (ld32 m (NEXT p));
       Some (0, mp1_free p m)
     }
   }"

text \<open>The conditional move is on "less", the sign flag against the overflow flag. The \<open>testb\<close> before it
  clears the overflow flag and sets the sign flag to the top bit of its result.\<close>

definition mp1_ioctl_sync :: "blink_env \<Rightarrow> u32 \<Rightarrow> memory \<Rightarrow> (int \<times> memory) option" where
  "mp1_ioctl_sync g arg m = do {
     esi \<leftarrow> mp1_find_helper g (drop_bit 16 arg) m;
     if esi = 0 then Some (- 1, m)
     else do {
       edi \<leftarrow> mp1_find_helper g (arg AND 0xFFFF) m;
       if edi = 0 then Some (- 1, m)
       else do {
         let m = st16 m (ON_LENGTH edi) (ld16 m (ON_LENGTH esi));
         let m = st16 m (OFF_LENGTH edi) (ld16 m (OFF_LENGTH esi));
         let m = st16 m (COUNTDOWN edi) (ld16 m (COUNTDOWN esi));
         let m = st16 m (STATUS edi) (ld16 m (STATUS esi));
         let sign_flag = bit (1 AND m (STATUS edi)) 7;
         let cl = (if sign_flag then m (ON_CHAR edi) else m (OFF_CHAR edi));
         Some (0, mp1_poke g cl (cell_offset m edi) m)
       }
     }
   }"

definition mp1_ioctl_find :: "blink_env \<Rightarrow> u32 \<Rightarrow> u32 \<Rightarrow> memory \<Rightarrow> (int \<times> memory) option" where
  "mp1_ioctl_find g bp arg m =
     (let (r, m) = ece391_memcpy (bp - 2) arg 2 m
      in if r \<noteq> 0 then Some (- 1, m)
         else do {
           p \<leftarrow> mp1_find_helper g (ucast (ld16 m (bp - 2))) m;
           if p = 0 then Some (- 1, m)
           else (let (r, m) = ece391_memcpy arg p 16 m in Some (if r = 0 then 0 else - 1, m))
         })"

text \<open>The jump through the table of the four calls; any other command has no target.\<close>

definition mp1_ioctl :: "blink_env \<Rightarrow> u32 \<Rightarrow> u32 \<Rightarrow> u32 \<Rightarrow> memory \<Rightarrow> (int \<times> memory) option" where
  "mp1_ioctl g bp arg cmd m =
     (if cmd = 0 then Some (mp1_ioctl_add g bp arg m)
      else if cmd = 1 then mp1_ioctl_remove g arg m
      else if cmd = 2 then mp1_ioctl_find g bp arg m
      else if cmd = 3 then mp1_ioctl_sync g arg m
      else None)"

subsection \<open>The clock tick\<close>

definition end_blink :: "blink_env \<Rightarrow> u32 \<Rightarrow> memory \<Rightarrow> memory" where
  "end_blink g ebx m =
     (let on = (ld16 m (STATUS ebx) AND 1 \<noteq> 0);
          m = mp1_poke g (m (if on then OFF_CHAR ebx else ON_CHAR ebx)) (cell_offset m ebx) m;
          m = st16 m (COUNTDOWN ebx) (ld16 m (if on then OFF_LENGTH ebx else ON_LENGTH ebx))
      in st16 m (STATUS ebx) (ld16 m (STATUS ebx) XOR 1))"

partial_function (option) tasklet_loop :: "blink_env \<Rightarrow> u32 \<Rightarrow> memory \<Rightarrow> memory option" where
  "tasklet_loop g ebx m =
     (if ebx = 0 then Some m
      else
        (let m = st16 m (COUNTDOWN ebx) (ld16 m (COUNTDOWN ebx) - 1);
             m = (if 0 < sint (ld16 m (COUNTDOWN ebx)) then m else end_blink g ebx m)
         in tasklet_loop g (ld32 m (NEXT ebx)) m))"

definition mp1_rtc_tasklet :: "blink_env \<Rightarrow> memory \<Rightarrow> memory option" where
  "mp1_rtc_tasklet g m = tasklet_loop g (ld32 m (mp1_list_head g)) m"

section \<open>Halfwords and runs of bytes\<close>

lemma ld16_cong: "(\<And>x. x \<in> span a 2 \<Longrightarrow> m' x = m x) \<Longrightarrow> ld16 m' a = ld16 m a"
proof -
  assume h: "\<And>x. x \<in> span a 2 \<Longrightarrow> m' x = m x"
  have "m' (a + of_nat 0) = m (a + of_nat 0)" "m' (a + of_nat 1) = m (a + of_nat 1)" by (rule h, rule in_spanI, simp)+
  then show ?thesis by (simp add: ld16_def)
qed

lemma ld16_st16 [simp]: "ld16 (st16 m a v) a = v"
proof -
  have "(ucast (ucast v :: u8) OR push_bit 8 (ucast (ucast (drop_bit 8 v) :: u8))) = (v :: u16)"
    by (rule bit_word_eqI) (auto simp: bit_simps)
  then show ?thesis by (simp add: ld16_def st16_def)
qed

lemma st16_other: "x \<notin> span a 2 \<Longrightarrow> st16 m a v x = m x"
  by (auto simp: st16_def in_span_iff dest: spec [of _ 0] spec [of _ 1])

lemma ece391_memset_wrs: "ece391_memset dst c n m = wrs m dst (replicate (nat n) c)"
proof -
  have "fold (\<lambda>i m. m(dst + of_nat i := c)) [0..<k] m = wrs m dst (replicate k c)" for k
    by (induction k) (simp_all add: replicate_append_same [symmetric] wrs_snoc)
  then show ?thesis by (simp add: ece391_memset_def)
qed

lemma ece391_memcpy_wrs:
  assumes "span dest (nat n) \<inter> span src (nat n) = {}"
  shows "ece391_memcpy dest src n m = (0, wrs m dest (rds m src (nat n)))"
proof -
  have "fold (\<lambda>i m. m(dest + of_nat i := m (src + of_nat i))) [0..<k] m = wrs m dest (rds m src k)" if "k \<le> nat n" for k
    using that
  proof (induction k)
    case (Suc k)
    have "src + of_nat k \<in> span src (nat n)" using Suc.prems by (intro in_spanI) simp
    then have "src + of_nat k \<notin> span dest k" using assms span_mono [of k "nat n" dest] Suc.prems by auto
    then show ?case using Suc by (simp add: rds_Suc wrs_snoc wrs_other)
  qed simp
  then show ?thesis by (simp add: ece391_memcpy_def)
qed

section \<open>The abstract list\<close>

text \<open>A blinking character, and the one that a structure holds.\<close>

record blink =
  location :: u16
  on_char :: u8
  off_char :: u8
  on_length :: u16
  off_length :: u16
  countdown :: u16
  status :: u16

definition blink_at :: "memory \<Rightarrow> u32 \<Rightarrow> blink" where
  "blink_at m p = \<lparr>location = ld16 m p, on_char = m (ON_CHAR p), off_char = m (OFF_CHAR p),
     on_length = ld16 m (ON_LENGTH p), off_length = ld16 m (OFF_LENGTH p), countdown = ld16 m (COUNTDOWN p),
     status = ld16 m (STATUS p)\<rparr>"

lemma in_node:
  "k < n \<Longrightarrow> p + of_nat k \<in> span p n" "k + l \<le> n \<Longrightarrow> x \<in> span (p + of_nat k) l \<Longrightarrow> x \<in> span p n"
  using sub_span [of k l n p] by auto

lemma blink_at_cong:
  assumes "\<And>x. x \<in> span p 12 \<Longrightarrow> m' x = m x"
  shows "blink_at m' p = blink_at m p"
proof -
  have h: "ld16 m' (p + of_nat k) = ld16 m (p + of_nat k)" if "k + 2 \<le> 12" for k
    using in_node(2) [OF that] by (intro ld16_cong assms)
  have b: "m' (p + of_nat k) = m (p + of_nat k)" if "k < 12" for k using in_node(1) [OF that] by (rule assms)
  show ?thesis
    using h [of 0] h [of 4] h [of 6] h [of 8] h [of 10] b [of 2] b [of 3] by (simp add: blink_at_def)
qed

text \<open>The structures on the list that starts at \<open>p\<close>.\<close>

primrec linked :: "memory \<Rightarrow> u32 \<Rightarrow> u32 list \<Rightarrow> bool" where
  "linked m p [] \<longleftrightarrow> p = 0"
| "linked m p (q # qs) \<longleftrightarrow> p = q \<and> q \<noteq> 0 \<and> linked m (ld32 m (NEXT q)) qs"

lemma linked_cong:
  assumes "\<And>q. q \<in> set qs \<Longrightarrow> ld32 m' (NEXT q) = ld32 m (NEXT q)"
  shows "linked m' p qs = linked m p qs"
  using assms by (induction qs arbitrary: p) auto

lemma find_helper_linked:
  "linked m p qs \<Longrightarrow> find_helper_loop m ax p = Some (case find (\<lambda>q. ld16 m q = ax) qs of Some q \<Rightarrow> q | None \<Rightarrow> 0)"
proof (induction qs arbitrary: p)
  case Nil
  then show ?case by (subst find_helper_loop.simps) simp
next
  case (Cons q qs)
  then show ?case by (subst find_helper_loop.simps) auto
qed

subsection \<open>Stores into a structure\<close>

lemma blink_fields:
  "ld16 m p = location (blink_at m p)" "m (ON_CHAR p) = on_char (blink_at m p)" "m (OFF_CHAR p) = off_char (blink_at m p)"
  "ld16 m (ON_LENGTH p) = on_length (blink_at m p)" "ld16 m (OFF_LENGTH p) = off_length (blink_at m p)"
  "ld16 m (COUNTDOWN p) = countdown (blink_at m p)" "ld16 m (STATUS p) = status (blink_at m p)"
  by (simp_all add: blink_at_def)

lemma ld16_st16_field: "b \<noteq> a \<Longrightarrow> b \<noteq> a + 1 \<Longrightarrow> b + 1 \<noteq> a \<Longrightarrow> ld16 (st16 m a v) b = ld16 m b"
  by (simp add: ld16_def st16_def)

lemma st16_field:
  "x \<noteq> a \<Longrightarrow> x \<noteq> a + 1 \<Longrightarrow> st16 m a v x = m x"
  by (simp add: st16_def)

lemma blink_at_st16 [simp]:
  "blink_at (st16 m (ON_LENGTH p) v) p = (blink_at m p)\<lparr>on_length := v\<rparr>"
  "blink_at (st16 m (OFF_LENGTH p) v) p = (blink_at m p)\<lparr>off_length := v\<rparr>"
  "blink_at (st16 m (COUNTDOWN p) v) p = (blink_at m p)\<lparr>countdown := v\<rparr>"
  "blink_at (st16 m (STATUS p) v) p = (blink_at m p)\<lparr>status := v\<rparr>"
  by (simp_all add: blink_at_def ld16_st16_field st16_field add.assoc)

lemma next_st16 [simp]:
  "ld32 (st16 m (ON_LENGTH p) v) (NEXT p) = ld32 m (NEXT p)" "ld32 (st16 m (OFF_LENGTH p) v) (NEXT p) = ld32 m (NEXT p)"
  "ld32 (st16 m (COUNTDOWN p) v) (NEXT p) = ld32 m (NEXT p)" "ld32 (st16 m (STATUS p) v) (NEXT p) = ld32 m (NEXT p)"
  by (simp_all add: ld32_def st16_field add.assoc)

lemma st16_outside:
  assumes "x \<notin> span p 16"
  shows "st16 m (ON_LENGTH p) v x = m x" "st16 m (OFF_LENGTH p) v x = m x" "st16 m (COUNTDOWN p) v x = m x" "st16 m (STATUS p) v x = m x"
  using in_node(2) [of 4 2 16 x p] in_node(2) [of 6 2 16 x p] in_node(2) [of 8 2 16 x p] in_node(2) [of 10 2 16 x p] assms
  by (auto intro!: st16_other)

lemma blink_at_upd: "a \<notin> span p 16 \<Longrightarrow> blink_at (m(a := c)) p = blink_at m p"
  using span_mono [of 12 16 p] by (intro blink_at_cong) auto

lemma next_upd: "a \<notin> span p 16 \<Longrightarrow> ld32 (m(a := c)) (NEXT p) = ld32 m (NEXT p)"
  using in_node(2) [of 12 4 16 _ p] by (intro ld32_disjoint) auto

subsection \<open>The array and the invariant\<close>

definition slots :: "blink_env \<Rightarrow> u32 set" where
  "slots g = (\<lambda>i. blink_array g + 16 * of_nat i) ` {..<2000}"

text \<open>The globals and the screen at \<open>v\<close> do not overlap, and the array does not wrap around.\<close>

definition blink_layout :: "blink_env \<Rightarrow> u32 \<Rightarrow> bool" where
  "blink_layout g v \<longleftrightarrow> apart [(blink_array g, 32000), (v, 4000), (mp1_list_head g, 4), (vmem_base_addr g, 4)] \<and>
     blink_array g \<noteq> 0 \<and> unat (blink_array g) + 32000 \<le> 2 ^ 32"

definition blinks_ok :: "blink_env \<Rightarrow> u32 \<Rightarrow> u32 list \<Rightarrow> memory \<Rightarrow> bool" where
  "blinks_ok g v ns m \<longleftrightarrow> blink_layout g v \<and> ld32 m (vmem_base_addr g) = v \<and> linked m (ld32 m (mp1_list_head g)) ns \<and>
     distinct ns \<and> set ns = {p \<in> slots g. ld16 m p \<noteq> 0} \<and> (\<forall>p \<in> set ns. ld16 m p < 2000)"

lemma slot_span:
  assumes "p \<in> slots g"
  shows "span p 16 \<subseteq> span (blink_array g) 32000"
proof -
  obtain i where "i < 2000" "p = blink_array g + of_nat (16 * i)" using assms by (auto simp: slots_def)
  then show ?thesis using sub_span [of "16 * i" 16 32000 "blink_array g"] by simp
qed

lemma slots_apart:
  assumes "p \<in> slots g" "q \<in> slots g" "p \<noteq> q"
  shows "span p 16 \<inter> span q 16 = {}"
proof -
  obtain i j where i: "i < 2000" "p = blink_array g + of_nat (16 * i)" and j: "j < 2000" "q = blink_array g + of_nat (16 * j)"
    using assms by (auto simp: slots_def)
  have *: "span (blink_array g + of_nat (16 * i)) 16 \<inter> span (blink_array g + of_nat (16 * j)) 16 = {}" if "i < j" "j < 2000" for i j
  proof -
    have e: "blink_array g + of_nat (16 * j) = blink_array g + of_nat (16 * i) + of_nat (16 * (j - i))"
      using that by (simp add: of_nat_diff right_diff_distrib)
    show ?thesis unfolding e using that by (intro span_disjoint_offset) simp_all
  qed
  have "i \<noteq> j" using assms(3) i j by auto
  then show ?thesis using * [of i j] * [of j i] i j by (metis Int_commute linorder_neqE_nat)
qed

lemma slot_nonzero:
  assumes "p \<in> slots g" and "blink_layout g v"
  shows "p \<noteq> 0"
proof -
  obtain i where i: "i < 2000" "p = blink_array g + of_nat (16 * i)" using assms(1) by (auto simp: slots_def)
  have "unat (blink_array g) + 16 * i < 2 ^ 32" using i(1) assms(2) by (simp add: blink_layout_def)
  then have "unat p = unat (blink_array g) + 16 * i" unfolding i(2) by (rule unat_add_of_nat32)
  moreover have "unat (blink_array g) \<noteq> 0" using assms(2) by (simp add: blink_layout_def unat_eq_0)
  ultimately show ?thesis by auto
qed

lemma cell_in_screen:
  assumes "l < (2000 :: u16)"
  shows "v + push_bit 1 (ucast l) \<in> span v 4000"
proof -
  have l: "unat l < 2000" using assms by (simp add: word_less_nat_alt)
  have "push_bit 1 (ucast l :: u32) = of_nat (2 * unat l)"
    by (simp add: push_bit_eq_mult of_nat_unat mult.commute)
  then show ?thesis using l by (simp only: in_spanI)
qed

lemma layout_disjoint:
  assumes "blink_layout g v"
  shows "span (blink_array g) 32000 \<inter> span v 4000 = {}" "span (mp1_list_head g) 4 \<inter> span (blink_array g) 32000 = {}"
    "span (mp1_list_head g) 4 \<inter> span v 4000 = {}" "span (vmem_base_addr g) 4 \<inter> span (blink_array g) 32000 = {}"
    "span (vmem_base_addr g) 4 \<inter> span v 4000 = {}" "span (mp1_list_head g) 4 \<inter> span (vmem_base_addr g) 4 = {}"
  using assms by (auto simp: blink_layout_def)

text \<open>The list stays the list when the memory keeps the links, the locations and the globals.\<close>

lemma blinks_ok_cong:
  assumes ok: "blinks_ok g v ns m"
    and "\<And>x. x \<in> span (vmem_base_addr g) 4 \<Longrightarrow> m' x = m x" "\<And>x. x \<in> span (mp1_list_head g) 4 \<Longrightarrow> m' x = m x"
    and "\<And>p. p \<in> slots g \<Longrightarrow> ld16 m' p = ld16 m p" "\<And>p. p \<in> set ns \<Longrightarrow> ld32 m' (NEXT p) = ld32 m (NEXT p)"
  shows "blinks_ok g v ns m'"
proof -
  have "ld32 m' (vmem_base_addr g) = ld32 m (vmem_base_addr g)" "ld32 m' (mp1_list_head g) = ld32 m (mp1_list_head g)"
    using assms(2,3) by (auto intro: ld32_disjoint)
  moreover have "{p \<in> slots g. ld16 m' p \<noteq> 0} = {p \<in> slots g. ld16 m p \<noteq> 0}" using assms(4) by auto
  moreover have "\<forall>p \<in> set ns. ld16 m' p < 2000" using ok assms(4) by (auto simp: blinks_ok_def)
  moreover have "linked m' (ld32 m (mp1_list_head g)) ns" using ok linked_cong [of ns m' m] assms(5) by (simp add: blinks_ok_def)
  ultimately show ?thesis using ok by (simp add: blinks_ok_def)
qed

section \<open>The clock tick\<close>

text \<open>A tick counts down; at the end the character changes between its two forms.\<close>

definition turns :: "blink \<Rightarrow> bool" where
  "turns b \<longleftrightarrow> sint (countdown b - 1) \<le> 0"

definition shown_on :: "blink \<Rightarrow> bool" where
  "shown_on b \<longleftrightarrow> status b AND 1 \<noteq> 0"

definition tick :: "blink \<Rightarrow> blink" where
  "tick b =
     (if turns b then b\<lparr>countdown := (if shown_on b then off_length b else on_length b), status := status b XOR 1\<rparr>
      else b\<lparr>countdown := countdown b - 1\<rparr>)"

definition cell_at :: "u32 \<Rightarrow> blink \<Rightarrow> u32" where
  "cell_at v b = v + push_bit 1 (ucast (location b))"

definition tick_screen :: "u32 \<Rightarrow> blink \<Rightarrow> memory \<Rightarrow> memory" where
  "tick_screen v b m = (if turns b then m(cell_at v b := if shown_on b then off_char b else on_char b) else m)"

lemma tick_location [simp]: "location (tick b) = location b"
  by (simp add: tick_def)

text \<open>What the loop does to one structure.\<close>

definition tick_node :: "blink_env \<Rightarrow> u32 \<Rightarrow> memory \<Rightarrow> memory" where
  "tick_node g p m =
     (let m = st16 m (COUNTDOWN p) (ld16 m (COUNTDOWN p) - 1)
      in if 0 < sint (ld16 m (COUNTDOWN p)) then m else end_blink g p m)"

lemma tick_node_effect:
  assumes "ld32 m (vmem_base_addr g) = v" and "span (vmem_base_addr g) 4 \<inter> span p 16 = {}"
    and "span p 16 \<inter> span v 4000 = {}" and loc: "location (blink_at m p) < 2000"
  defines "m' \<equiv> tick_node g p m"
  shows "blink_at m' p = tick (blink_at m p)" and "ld32 m' (NEXT p) = ld32 m (NEXT p)"
    and "x \<notin> span p 16 \<Longrightarrow> m' x = tick_screen v (blink_at m p) m x"
proof -
  define m1 where "m1 = st16 m (COUNTDOWN p) (ld16 m (COUNTDOWN p) - 1)"
  let ?b = "blink_at m p" and ?a = "cell_at v (blink_at m p)"
  define c where "c = (if shown_on ?b then off_char ?b else on_char ?b)"
  define m2 where "m2 = m1(?a := c)"
  have a: "?a \<notin> span p 16" using cell_in_screen [OF loc, of v] assms(3) by (auto simp: cell_at_def)
  have b1: "blink_at m1 p = ?b\<lparr>countdown := countdown ?b - 1\<rparr>" by (simp add: m1_def blink_fields(6))
  have v: "ld32 m1 (vmem_base_addr g) = v"
    unfolding assms(1) [symmetric] m1_def by (rule ld32_disjoint) (use assms(2) st16_outside(3) in blast)
  have b2: "blink_at m2 p = blink_at m1 p" "ld32 m2 (NEXT p) = ld32 m1 (NEXT p)"
    unfolding m2_def by (rule blink_at_upd [OF a], rule next_upd [OF a])
  have f: "ld16 m1 (STATUS p) = status ?b" "m1 (ON_CHAR p) = on_char ?b" "m1 (OFF_CHAR p) = off_char ?b"
    "cell_offset m1 p = push_bit 1 (ucast (location ?b))"
    by (simp_all add: blink_fields(2,3,7) b1 cell_offset_def blink_fields(1) [of m1 p])
  have f2: "ld16 m2 (ON_LENGTH p) = on_length ?b" "ld16 m2 (OFF_LENGTH p) = off_length ?b" "ld16 m2 (STATUS p) = status ?b"
    by (simp_all add: blink_fields(4,5,7) b1 b2)
  have k: "mp1_poke g c (push_bit 1 (ucast (location ?b))) m1 = m2" by (simp add: mp1_poke_def v m2_def cell_at_def)
  have f3: "ld16 (st16 m2 (COUNTDOWN p) w) (STATUS p) = status ?b" for w by (simp add: blink_fields(7) b1 b2)
  have e: "end_blink g p m1 = st16 (st16 m2 (COUNTDOWN p) (if shown_on ?b then off_length ?b else on_length ?b)) (STATUS p) (status ?b XOR 1)"
    using k by (cases "shown_on ?b") (simp_all add: end_blink_def f f2 f3 c_def shown_on_def)
  have m': "m' = (if turns ?b then end_blink g p m1 else m1)"
    by (simp add: m'_def tick_node_def m1_def [symmetric] turns_def blink_fields(6) [of m1] b1 not_less)
  show "blink_at m' p = tick ?b" by (simp add: m' e tick_def b1 b2)
  show "ld32 m' (NEXT p) = ld32 m (NEXT p)" by (simp add: m' e b2) (simp add: m1_def)
  show "m' x = tick_screen v ?b m x" if "x \<notin> span p 16"
    using that by (simp add: m' e st16_outside tick_screen_def m2_def c_def) (auto simp: m1_def st16_outside)
qed

lemma fold_tick_cong: "m1 x = m2 x \<Longrightarrow> fold (tick_screen v) bs m1 x = fold (tick_screen v) bs m2 x"
proof (induction bs arbitrary: m1 m2)
  case (Cons b bs)
  have "tick_screen v b m1 x = tick_screen v b m2 x" using Cons.prems by (simp add: tick_screen_def)
  from Cons.IH [of "tick_screen v b m1" "tick_screen v b m2", OF this] show ?case by simp
qed simp

lemma tick_screen_outside: "location b < 2000 \<Longrightarrow> x \<notin> span v 4000 \<Longrightarrow> tick_screen v b m x = m x"
  using cell_in_screen [of "location b" v] by (auto simp: tick_screen_def cell_at_def)

lemma fold_tick_outside:
  "\<forall>b \<in> set bs. location b < 2000 \<Longrightarrow> x \<notin> span v 4000 \<Longrightarrow> fold (tick_screen v) bs m x = m x"
  by (induction bs arbitrary: m) (simp_all add: tick_screen_outside)

text \<open>A part of the list that the loop has still to do.\<close>

definition rest_ok :: "blink_env \<Rightarrow> u32 \<Rightarrow> u32 list \<Rightarrow> memory \<Rightarrow> bool" where
  "rest_ok g v ns m \<longleftrightarrow> blink_layout g v \<and> ld32 m (vmem_base_addr g) = v \<and> distinct ns \<and> set ns \<subseteq> slots g \<and>
     (\<forall>p \<in> set ns. location (blink_at m p) < 2000)"

lemma node_apart:
  assumes "blink_layout g v" "p \<in> slots g" "x \<in> span p 16"
  shows "x \<notin> span v 4000" "x \<notin> span (vmem_base_addr g) 4" "x \<notin> span (mp1_list_head g) 4"
  using slot_span [OF assms(2)] assms(3) layout_disjoint [OF assms(1)] by auto

lemma tick_node_rest:
  assumes ok: "rest_ok g v (q # ns) m"
  defines "m' \<equiv> tick_node g q m"
  shows "rest_ok g v ns m'" and "blink_at m' q = tick (blink_at m q)" and "\<forall>p \<in> set (q # ns). ld32 m' (NEXT p) = ld32 m (NEXT p)"
    and "\<forall>p \<in> set ns. blink_at m' p = blink_at m p" and "\<And>x. x \<notin> span q 16 \<Longrightarrow> m' x = tick_screen v (blink_at m q) m x"
proof -
  have q: "blink_layout g v" "q \<in> slots g" "location (blink_at m q) < 2000" "ld32 m (vmem_base_addr g) = v"
    using ok by (auto simp: rest_ok_def)
  have d: "span (vmem_base_addr g) 4 \<inter> span q 16 = {}" "span q 16 \<inter> span v 4000 = {}"
    using node_apart [OF q(1,2)] by auto
  note e = tick_node_effect [OF q(4) d q(3), folded m'_def]
  show "blink_at m' q = tick (blink_at m q)" by (rule e(1))
  show scr: "m' x = tick_screen v (blink_at m q) m x" if "x \<notin> span q 16" for x using that by (rule e(3))
  have out: "m' x = m x" if "x \<notin> span q 16" "x \<notin> span v 4000" for x
    using scr [OF that(1)] tick_screen_outside [OF q(3) that(2)] by simp
  have other: "m' x = m x" if "p \<in> set ns" "x \<in> span p 16" for p x
  proof (rule out)
    have p: "p \<in> slots g" "p \<noteq> q" using that(1) ok by (auto simp: rest_ok_def)
    then show "x \<notin> span q 16" using slots_apart [OF p(1) q(2) p(2)] that(2) by auto
    show "x \<notin> span v 4000" using node_apart(1) [OF q(1) p(1) that(2)] .
  qed
  have nx: "ld32 m' (NEXT p) = ld32 m (NEXT p)" if "p \<in> set ns" for p
    using in_node(2) [of 12 4 16 _ p] by (intro ld32_disjoint other [OF that]) simp
  then show "\<forall>p \<in> set (q # ns). ld32 m' (NEXT p) = ld32 m (NEXT p)" using e(2) by simp
  have bl: "blink_at m' p = blink_at m p" if "p \<in> set ns" for p
    using span_mono [of 12 16 p] by (intro blink_at_cong other [OF that]) auto
  then show "\<forall>p \<in> set ns. blink_at m' p = blink_at m p" by simp
  have "ld32 m' (vmem_base_addr g) = v"
    unfolding q(4) [symmetric] by (rule ld32_disjoint, rule out) (use d layout_disjoint(5) [OF q(1)] q(4) in auto)
  then show "rest_ok g v ns m'" using ok bl by (simp add: rest_ok_def)
qed

lemma tasklet_loop_ticks:
  assumes "rest_ok g v ns m" and "linked m p ns"
  shows "\<exists>m'. tasklet_loop g p m = Some m' \<and> map (blink_at m') ns = map (\<lambda>q. tick (blink_at m q)) ns \<and>
     (\<forall>q \<in> set ns. ld32 m' (NEXT q) = ld32 m (NEXT q)) \<and>
     (\<forall>x. (\<forall>q \<in> set ns. x \<notin> span q 16) \<longrightarrow> m' x = fold (tick_screen v) (map (blink_at m) ns) m x)"
  using assms
proof (induction ns arbitrary: p m)
  case Nil
  then show ?case by (subst tasklet_loop.simps) simp
next
  case (Cons q ns)
  let ?m1 = "tick_node g q m"
  note t = tick_node_rest [OF Cons.prems(1)]
  have p: "p = q" "q \<noteq> 0" "linked m (ld32 m (NEXT q)) ns" using Cons.prems(2) by simp_all
  have "linked ?m1 (ld32 ?m1 (NEXT q)) ns" using p(3) t(3) linked_cong [of ns ?m1 m] by simp
  from Cons.IH [OF t(1) this] obtain m' where m': "tasklet_loop g (ld32 ?m1 (NEXT q)) ?m1 = Some m'"
    "map (blink_at m') ns = map (\<lambda>q. tick (blink_at ?m1 q)) ns" "\<forall>q \<in> set ns. ld32 m' (NEXT q) = ld32 ?m1 (NEXT q)"
    "\<And>x. (\<forall>q \<in> set ns. x \<notin> span q 16) \<Longrightarrow> m' x = fold (tick_screen v) (map (blink_at ?m1) ns) ?m1 x"
    by blast
  have bs: "map (blink_at ?m1) ns = map (blink_at m) ns" using t(4) by simp
  have step: "tasklet_loop g q m = tasklet_loop g (ld32 ?m1 (NEXT q)) ?m1"
    by (subst tasklet_loop.simps) (simp only: tick_node_def Let_def p(2) if_False)
  have ok: "blink_layout g v" "q \<in> slots g" "\<forall>r \<in> set ns. r \<in> slots g \<and> r \<noteq> q" "\<forall>b \<in> set (map (blink_at m) ns). location b < 2000"
    using Cons.prems(1) by (auto simp: rest_ok_def)
  have same: "m' x = ?m1 x" if x: "x \<in> span q 16" for x
  proof -
    have "\<forall>r \<in> set ns. x \<notin> span r 16" using ok(2,3) slots_apart [of _ g q] x by blast
    then have "m' x = fold (tick_screen v) (map (blink_at m) ns) ?m1 x" using m'(4) [of x] bs by simp
    also have "\<dots> = ?m1 x" by (rule fold_tick_outside [OF ok(4)]) (rule node_apart(1) [OF ok(1,2) x])
    finally show ?thesis .
  qed
  have "blink_at m' q = tick (blink_at m q)"
    using span_mono [of 12 16 q] t(2) blink_at_cong [of q m' ?m1] same by auto
  moreover have "ld32 m' (NEXT q) = ld32 ?m1 (NEXT q)"
    using in_node(2) [of 12 4 16 _ q] same by (intro ld32_disjoint) simp
  moreover have "m' x = fold (tick_screen v) (map (blink_at m) (q # ns)) m x" if "\<forall>r \<in> set (q # ns). x \<notin> span r 16" for x
    using that m'(4) [of x] t(5) [of x] fold_tick_cong [of ?m1 x "tick_screen v (blink_at m q) m"] bs by simp
  ultimately show ?case
    using step m'(1-3) p(1) t(3) t(4) by (intro exI [of _ m']) simp
qed

lemma blinks_ok_rest: "blinks_ok g v ns m \<Longrightarrow> rest_ok g v ns m \<and> linked m (ld32 m (mp1_list_head g)) ns"
  unfolding blinks_ok_def rest_ok_def blink_fields(1) by auto

text \<open>A free slot and the bytes outside the nodes.\<close>

lemma outside_nodes:
  assumes "set ns \<subseteq> slots g" and "x \<notin> span (blink_array g) 32000"
  shows "\<forall>q \<in> set ns. x \<notin> span q 16"
  using slot_span [of _ g] assms by blast

lemma tasklet_refines:
  assumes ok: "blinks_ok g v ns m"
  shows "\<exists>m'. mp1_rtc_tasklet g m = Some m' \<and> blinks_ok g v ns m' \<and> map (blink_at m') ns = map tick (map (blink_at m) ns) \<and>
     (\<forall>x. x \<notin> span (blink_array g) 32000 \<longrightarrow> m' x = fold (tick_screen v) (map (blink_at m) ns) m x) \<and>
     (\<forall>x. x \<notin> span (blink_array g) 32000 \<and> x \<notin> span v 4000 \<longrightarrow> m' x = m x)"
proof -
  have r: "rest_ok g v ns m" "linked m (ld32 m (mp1_list_head g)) ns" using blinks_ok_rest [OF ok] by simp_all
  have s: "set ns \<subseteq> slots g" and lay: "blink_layout g v" using r(1) by (simp_all add: rest_ok_def)
  have l: "\<forall>b \<in> set (map (blink_at m) ns). location b < 2000" using r(1) by (simp add: rest_ok_def)
  from tasklet_loop_ticks [OF r] obtain m' where m': "mp1_rtc_tasklet g m = Some m'"
    "map (blink_at m') ns = map (\<lambda>q. tick (blink_at m q)) ns" "\<forall>q \<in> set ns. ld32 m' (NEXT q) = ld32 m (NEXT q)"
    "\<And>x. (\<forall>q \<in> set ns. x \<notin> span q 16) \<Longrightarrow> m' x = fold (tick_screen v) (map (blink_at m) ns) m x"
    by (auto simp: mp1_rtc_tasklet_def)
  have out: "m' x = m x" if "\<forall>q \<in> set ns. x \<notin> span q 16" "x \<notin> span v 4000" for x
    using m'(4) [OF that(1)] fold_tick_outside [OF l that(2)] by simp
  have "blinks_ok g v ns m'"
  proof (rule blinks_ok_cong [OF ok])
    show "m' x = m x" if "x \<in> span (vmem_base_addr g) 4" for x
      using outside_nodes [OF s, of x] that layout_disjoint [OF lay] by (intro out) auto
    show "m' x = m x" if "x \<in> span (mp1_list_head g) 4" for x
      using outside_nodes [OF s, of x] that layout_disjoint [OF lay] by (intro out) auto
    show "ld32 m' (NEXT p) = ld32 m (NEXT p)" if "p \<in> set ns" for p using m'(3) that by simp
    show "ld16 m' p = ld16 m p" if p: "p \<in> slots g" for p
    proof (cases "p \<in> set ns")
      case True
      then have "blink_at m' p = tick (blink_at m p)" using m'(2) by simp
      then show ?thesis unfolding blink_fields(1) by simp
    next
      case False
      have x: "x \<in> span p 16" if "x \<in> span p 2" for x using span_mono [of 2 16 p] that by auto
      show ?thesis
      proof (rule ld16_cong, rule out)
        fix x assume "x \<in> span p 2"
        then show "\<forall>q \<in> set ns. x \<notin> span q 16" using slots_apart [OF p, of _ ] False s x by blast
        show "x \<notin> span v 4000" using node_apart(1) [OF lay p x] \<open>x \<in> span p 2\<close> by blast
      qed
    qed
  qed
  then show ?thesis using m' out outside_nodes [OF s] by (intro exI [of _ m']) auto
qed

section \<open>Adding a character\<close>

lemma blink_at_copy:
  assumes "\<And>k. k < 12 \<Longrightarrow> m' (p + of_nat k) = m (q + of_nat k)"
  shows "blink_at m' p = blink_at m q"
proof -
  have h: "ld16 m' (p + of_nat k) = ld16 m (q + of_nat k)" if "Suc k < 12" for k
    using assms [of k] assms [of "Suc k"] that by (simp add: ld16_def add.commute add.left_commute)
  show ?thesis
    using h [of 0] h [of 4] h [of 6] h [of 8] h [of 10] assms [of 2] assms [of 3] by (simp add: blink_at_def)
qed

lemma wrs_copy: "k < n \<Longrightarrow> n \<le> 2 ^ 32 \<Longrightarrow> wrs m p (rds m' q n) (p + of_nat k) = m' (q + of_nat k)"
  using wrs_nth [of k "rds m' q n" m p] by simp

lemma malloc_cases:
  assumes "\<And>p. p \<in> slots g \<Longrightarrow> ld16 m' p = ld16 m p" and "blinks_ok g v ns m"
  shows "mp1_malloc g 16 m' = 0 \<and> set ns = slots g \<or> mp1_malloc g 16 m' \<in> slots g - set ns \<and> mp1_malloc g 16 m' \<noteq> 0"
proof (cases "find (\<lambda>i. ld16 m' (blink_array g + 16 * of_nat i) = 0) [0..<2000]")
  case None
  then have "ld16 m' p \<noteq> 0" if "p \<in> slots g" for p using that by (auto simp: find_None_iff slots_def)
  then have "set ns = slots g" using assms by (auto simp: blinks_ok_def)
  then show ?thesis using None by (simp add: mp1_malloc_def)
next
  case (Some i)
  let ?p = "blink_array g + 16 * of_nat i"
  have p: "?p \<in> slots g" "ld16 m' ?p = 0" using Some by (auto simp: find_Some_iff slots_def)
  then have "?p \<notin> set ns" "?p \<noteq> 0" using assms slot_nonzero [OF p(1)] by (auto simp: blinks_ok_def)
  then show ?thesis using Some p(1) by (simp add: mp1_malloc_def)
qed

text \<open>The local copy of the caller's structure, as a turned-on character.\<close>

definition fresh :: "blink \<Rightarrow> blink" where
  "fresh b = b\<lparr>countdown := on_length b, status := 1\<rparr>"

definition fresh_copy :: "u32 \<Rightarrow> u32 \<Rightarrow> memory \<Rightarrow> memory" where
  "fresh_copy tmp arg m =
     (let m = wrs m tmp (rds m arg 16); m = st16 m (STATUS tmp) 1 in st16 m (COUNTDOWN tmp) (ld16 m (ON_LENGTH tmp)))"

lemma fresh_copy_blink: "blink_at (fresh_copy tmp arg m) tmp = fresh (blink_at m arg)"
proof -
  have "blink_at (wrs m tmp (rds m arg 16)) tmp = blink_at m arg" by (rule blink_at_copy) (simp add: wrs_copy)
  then show ?thesis by (simp add: fresh_copy_def Let_def blink_fields(4) fresh_def)
qed

lemma fresh_copy_outside: "x \<notin> span tmp 16 \<Longrightarrow> fresh_copy tmp arg m x = m x"
  by (simp add: fresh_copy_def Let_def st16_outside wrs_other)

text \<open>What the call needs of the memory: its local structure overlaps neither the globals, the screen nor
  the caller's structure.\<close>

definition add_room :: "blink_env \<Rightarrow> u32 \<Rightarrow> u32 \<Rightarrow> u32 \<Rightarrow> bool" where
  "add_room g v tmp arg \<longleftrightarrow> span tmp 16 \<inter> span arg 16 = {} \<and> span tmp 16 \<inter> span (blink_array g) 32000 = {} \<and>
     span tmp 16 \<inter> span v 4000 = {} \<and> span tmp 16 \<inter> span (mp1_list_head g) 4 = {} \<and> span tmp 16 \<inter> span (vmem_base_addr g) 4 = {}"

lemma outside_tmp_ok:
  assumes ok: "blinks_ok g v ns m" and tmp: "add_room g v tmp arg" and same: "\<And>x. x \<notin> span tmp 16 \<Longrightarrow> m' x = m x"
  shows "blinks_ok g v ns m'" and "map (blink_at m') ns = map (blink_at m) ns"
proof -
  have sl: "m' x = m x" if "x \<in> span p 16" "p \<in> slots g" for x p
    using slot_span [OF that(2)] that(1) tmp by (intro same) (auto simp: add_room_def)
  have ns: "set ns \<subseteq> slots g" using ok by (auto simp: blinks_ok_def)
  show "blinks_ok g v ns m'"
  proof (rule blinks_ok_cong [OF ok])
    show "m' x = m x" if "x \<in> span (vmem_base_addr g) 4" for x using that tmp by (intro same) (auto simp: add_room_def)
    show "m' x = m x" if "x \<in> span (mp1_list_head g) 4" for x using that tmp by (intro same) (auto simp: add_room_def)
    show "ld16 m' p = ld16 m p" if "p \<in> slots g" for p
      using sl that span_mono [of 2 16 p] by (intro ld16_cong) auto
    show "ld32 m' (NEXT p) = ld32 m (NEXT p)" if "p \<in> set ns" for p
      using sl that ns in_node(2) [of 12 4 16 _ p] by (intro ld32_disjoint) auto
  qed
  have "blink_at m' p = blink_at m p" if "p \<in> set ns" for p
    using sl [of _ p] ns that in_node(2) [of 0 12 16 _ p] by (intro blink_at_cong) auto
  then show "map (blink_at m') ns = map (blink_at m) ns" by simp
qed

text \<open>The structure is copied into the slot and put in front of the list.\<close>

definition linked_in :: "blink_env \<Rightarrow> u32 \<Rightarrow> u32 \<Rightarrow> memory \<Rightarrow> memory" where
  "linked_in g p tmp m =
     (let m = wrs m p (rds m tmp 16); m = st32 m (NEXT p) (ld32 m (mp1_list_head g)) in st32 m (mp1_list_head g) p)"

lemma linked_in_effect:
  fixes tmp :: u32 and m :: memory
  assumes lay: "blink_layout g v" and p: "p \<in> slots g"
  defines "m' \<equiv> linked_in g p tmp m"
  shows "blink_at m' p = blink_at m tmp" and "ld32 m' (NEXT p) = ld32 m (mp1_list_head g)" and "ld32 m' (mp1_list_head g) = p"
    and "x \<notin> span p 16 \<Longrightarrow> x \<notin> span (mp1_list_head g) 4 \<Longrightarrow> m' x = m x"
proof -
  let ?h = "mp1_list_head g"
  define m1 where "m1 = wrs m p (rds m tmp 16)"
  define m2 where "m2 = st32 m1 (NEXT p) (ld32 m ?h)"
  have d: "x \<notin> span ?h 4" if "x \<in> span p 16" for x by (rule node_apart(3) [OF lay p that])
  have h: "ld32 m1 ?h = ld32 m ?h" unfolding m1_def by (rule ld32_disjoint, rule wrs_other) (use d in auto)
  have m': "m' = st32 m2 ?h p" by (simp add: m'_def linked_in_def m1_def [symmetric] m2_def h Let_def)
  have n: "x \<notin> span (NEXT p) 4 \<or> x \<in> span p 16" for x using in_node(2) [of 12 4 16 x p] by auto
  show "x \<notin> span p 16 \<Longrightarrow> x \<notin> span ?h 4 \<Longrightarrow> m' x = m x"
    using n [of x] by (simp add: m' m2_def st32_other) (simp add: m1_def wrs_other)
  show "ld32 m' ?h = p" by (simp add: m')
  have "ld32 m' (NEXT p) = ld32 m2 (NEXT p)"
    unfolding m' by (rule ld32_disjoint, rule st32_other) (use d n in blast)
  then show "ld32 m' (NEXT p) = ld32 m ?h" by (simp add: m2_def)
  show "blink_at m' p = blink_at m tmp"
  proof (rule blink_at_copy)
    fix k :: nat assume k: "k < 12"
    have "p + of_nat k \<notin> span ?h 4" using d in_node(1) [of k 16 p] k by simp
    moreover have "p + of_nat k \<notin> span (NEXT p) 4"
      using span_disjoint_offset [of 12 12 4 p] in_spanI [OF k, of p] by auto
    ultimately have "m' (p + of_nat k) = m1 (p + of_nat k)" by (simp add: m' m2_def st32_other)
    then show "m' (p + of_nat k) = m (tmp + of_nat k)" using k by (simp add: m1_def wrs_copy)
  qed
qed

lemma poke_effect:
  fixes tmp :: u32
  assumes lay: "blink_layout g v" and vm: "ld32 m (vmem_base_addr g) = v" and p: "p \<in> slots g"
    and b: "location (blink_at m tmp) < 2000"
  defines "m1 \<equiv> linked_in g p tmp m" and "b \<equiv> blink_at m tmp"
  shows "mp1_poke g (m1 (ON_CHAR p)) (cell_offset m1 p) m1 = m1(cell_at v b := on_char b)"
    and "ld32 m1 (vmem_base_addr g) = v" and "cell_at v b \<in> span v 4000"
proof -
  note l = linked_in_effect [OF lay p, where m = m and tmp = tmp, folded m1_def]
  show v: "ld32 m1 (vmem_base_addr g) = v"
    unfolding vm [symmetric] by (rule ld32_disjoint, rule l(4)) (use node_apart(2) [OF lay p] layout_disjoint(6) [OF lay] in auto)
  show "mp1_poke g (m1 (ON_CHAR p)) (cell_offset m1 p) m1 = m1(cell_at v b := on_char b)"
    using l(1) by (simp add: mp1_poke_def v cell_offset_def cell_at_def b_def blink_fields(1,2))
  show "cell_at v b \<in> span v 4000" using cell_in_screen b by (simp add: cell_at_def b_def)
qed

lemma insert_effect:
  assumes ok: "blinks_ok g v ns m" and p: "p \<in> slots g" "p \<notin> set ns"
    and b: "0 < location (blink_at m tmp)" "location (blink_at m tmp) < 2000"
  defines "m1 \<equiv> linked_in g p tmp m" and "b \<equiv> blink_at m tmp"
  defines "m' \<equiv> mp1_poke g (m1 (ON_CHAR p)) (cell_offset m1 p) m1"
  shows "blinks_ok g v (p # ns) m'" and "map (blink_at m') (p # ns) = b # map (blink_at m) ns" and "m' (cell_at v b) = on_char b"
    and "x \<notin> span p 16 \<Longrightarrow> x \<notin> span (mp1_list_head g) 4 \<Longrightarrow> x \<noteq> cell_at v b \<Longrightarrow> m' x = m x"
proof -
  have lay: "blink_layout g v" and vm: "ld32 m (vmem_base_addr g) = v" and sub: "set ns \<subseteq> slots g"
    using ok by (auto simp: blinks_ok_def)
  note l = linked_in_effect [OF lay p(1), where m = m and tmp = tmp, folded m1_def]
  note pk = poke_effect [OF lay vm p(1), where tmp = tmp, folded m1_def b_def]
  have m': "m' = m1(cell_at v b := on_char b)" and v: "ld32 m1 (vmem_base_addr g) = v" and a: "cell_at v b \<in> span v 4000"
    using pk b by (simp_all add: m'_def b_def)
  show "m' (cell_at v b) = on_char b" by (simp add: m')
  show out: "m' x = m x" if "x \<notin> span p 16" "x \<notin> span (mp1_list_head g) 4" "x \<noteq> cell_at v b" for x
    using that by (simp add: m' l(4))
  have a16: "cell_at v b \<notin> span q 16" if "q \<in> slots g" for q using node_apart(1) [OF lay that] a by auto
  have other: "m' x = m x" if "q \<in> slots g" "q \<noteq> p" "x \<in> span q 16" for q x
    using slots_apart [OF that(1) p(1) that(2)] node_apart(3) [OF lay that(1,3)] a16 [OF that(1)] that(3) by (intro out) auto
  have bp: "blink_at m' p = b" unfolding m' using blink_at_upd [OF a16 [OF p(1)]] l(1) by (simp add: b_def)
  have bq: "blink_at m' q = blink_at m q" if "q \<in> slots g" "q \<noteq> p" for q
    using other [OF that] in_node(2) [of 0 12 16 _ q] by (intro blink_at_cong) simp
  then show "map (blink_at m') (p # ns) = b # map (blink_at m) ns" using bp p(2) sub by auto
  have nx: "ld32 m' (NEXT q) = ld32 m (NEXT q)" if "q \<in> set ns" for q
    using other [of q] that sub p(2) in_node(2) [of 12 4 16 _ q] by (intro ld32_disjoint) auto
  have loc: "ld16 m' q = (if q = p then location b else ld16 m q)" if "q \<in> slots g" for q
    using bp bq [OF that] unfolding blink_fields(1) by simp
  have "0 < location b" "location b < 2000" using b by (simp_all add: b_def)
  then have s: "set (p # ns) = {q \<in> slots g. ld16 m' q \<noteq> 0}" "\<forall>q \<in> set (p # ns). ld16 m' q < 2000"
    using ok p by (auto simp: blinks_ok_def loc split: if_splits)
  have "ld32 m' (mp1_list_head g) = p"
    unfolding l(3) [symmetric] m' by (rule ld32_disjoint) (use a layout_disjoint(3) [OF lay] in auto)
  moreover have "ld32 m' (vmem_base_addr g) = ld32 m1 (vmem_base_addr g)"
    unfolding m' by (rule ld32_disjoint) (use a layout_disjoint(5) [OF lay] in auto)
  moreover have "linked m' (ld32 m (mp1_list_head g)) ns" using linked_cong [of ns m' m, OF nx] ok by (simp add: blinks_ok_def)
  moreover have "ld32 m' (NEXT p) = ld32 m (mp1_list_head g)" unfolding m' next_upd [OF a16 [OF p(1)]] by (rule l(2))
  ultimately show "blinks_ok g v (p # ns) m'"
    using s ok p v slot_nonzero [OF p(1) lay] by (simp add: blinks_ok_def)
qed

text \<open>The three outcomes of the call.\<close>

lemma mp1_ioctl_add_eq:
  fixes m :: memory
  assumes room: "add_room g v (bp - 16) arg"
  defines "t \<equiv> bp - 16" and "b \<equiv> blink_at m arg"
  defines "m1 \<equiv> fresh_copy t arg m"
  defines "p \<equiv> mp1_malloc g 16 m1"
  assumes p: "p \<noteq> 0 \<Longrightarrow> p \<in> slots g"
  shows "mp1_ioctl_add g bp arg m =
     (if location b \<ge> 2000 then (- 1, wrs m t (rds m arg 16)) else if p = 0 then (- 1, m1)
      else (let m2 = linked_in g p t m1 in (0, mp1_poke g (m2 (ON_CHAR p)) (cell_offset m2 p) m2)))"
proof -
  define m0 where "m0 = wrs m t (rds m arg 16)"
  have room: "add_room g v t arg" using room by (simp add: t_def)
  have m0: "ece391_memcpy t arg 16 m = (0, m0)"
    using room by (simp add: ece391_memcpy_wrs add_room_def m0_def)
  have b0: "blink_at m0 t = b" unfolding m0_def b_def by (rule blink_at_copy) (simp add: wrs_copy)
  have m1: "st16 (st16 m0 (STATUS t) 1) (COUNTDOWN t) (ld16 (st16 m0 (STATUS t) 1) (ON_LENGTH t)) = m1"
    by (simp add: m1_def fresh_copy_def m0_def Let_def)
  have "ece391_memcpy p t 16 m1 = (0, wrs m1 p (rds m1 t 16))" if "p \<noteq> 0"
    using slot_span [OF p [OF that]] room by (intro ece391_memcpy_wrs [of _ 16, simplified]) (auto simp: add_room_def)
  then show ?thesis
    unfolding mp1_ioctl_add_def t_def [symmetric] m0_def [symmetric]
    by (simp add: Let_def m0 m1 blink_fields(1) [of m0 t] b0 p_def [symmetric] linked_in_def)
qed

lemma mp1_ioctl_add_inserts:
  assumes ok: "blinks_ok g v ns m" and room: "add_room g v (bp - 16) arg"
  defines "t \<equiv> bp - 16" and "b \<equiv> blink_at m arg"
  shows "2000 \<le> location b \<or> set ns = slots g \<Longrightarrow>
      \<exists>m'. mp1_ioctl_add g bp arg m = (- 1, m') \<and> (\<forall>x. x \<notin> span t 16 \<longrightarrow> m' x = m x)"
    and "0 < location b \<and> location b < 2000 \<and> set ns \<noteq> slots g \<Longrightarrow>
      \<exists>p m'. mp1_ioctl_add g bp arg m = (0, m') \<and> p \<in> slots g - set ns \<and> blinks_ok g v (p # ns) m' \<and>
        map (blink_at m') (p # ns) = fresh b # map (blink_at m) ns \<and> m' (cell_at v b) = on_char b \<and>
        (\<forall>x. x \<notin> span t 16 \<and> x \<notin> span (blink_array g) 32000 \<and> x \<notin> span (mp1_list_head g) 4 \<and> x \<noteq> cell_at v b
           \<longrightarrow> m' x = m x)"
proof -
  have room: "add_room g v t arg" using room by (simp add: t_def)
  define m0 where "m0 = wrs m t (rds m arg 16)"
  define m1 where "m1 = fresh_copy t arg m"
  define p where "p = mp1_malloc g 16 m1"
  have lay: "blink_layout g v" using ok by (simp add: blinks_ok_def)
  have m0x: "m0 x = m x" if "x \<notin> span t 16" for x using that by (simp add: m0_def wrs_other)
  have b1: "blink_at m1 t = fresh b" by (simp add: m1_def b_def fresh_copy_blink)
  have m1x: "m1 x = m x" if "x \<notin> span t 16" for x using that by (simp add: m1_def fresh_copy_outside)
  note ok1 = outside_tmp_ok [OF ok room m1x]
  have sl: "m1 x = m x" if "x \<in> span p 16" "p \<in> slots g" for x p
    using slot_span [OF that(2)] that(1) room by (intro m1x) (auto simp: add_room_def)
  have "ld16 m1 p = ld16 m p" if "p \<in> slots g" for p
    using sl [OF _ that] in_node(2) [of 0 2 16 _ p] by (intro ld16_cong) simp
  note mc = malloc_cases [OF this ok, folded p_def]
  then have "p \<noteq> 0 \<Longrightarrow> p \<in> slots g" by auto
  then have add: "mp1_ioctl_add g bp arg m =
     (if location b \<ge> 2000 then (- 1, m0) else if p = 0 then (- 1, m1)
      else (let m2 = linked_in g p t m1 in (0, mp1_poke g (m2 (ON_CHAR p)) (cell_offset m2 p) m2)))"
    using mp1_ioctl_add_eq [OF assms(2), of m] unfolding b_def m0_def p_def m1_def t_def by blast
  show "\<exists>m'. mp1_ioctl_add g bp arg m = (- 1, m') \<and> (\<forall>x. x \<notin> span t 16 \<longrightarrow> m' x = m x)"
    if "2000 \<le> location b \<or> set ns = slots g"
    using that mc m0x m1x unfolding add by (cases "2000 \<le> location b") auto
  assume h: "0 < location b \<and> location b < 2000 \<and> set ns \<noteq> slots g"
  have p: "p \<in> slots g" "p \<notin> set ns" "p \<noteq> 0" using mc h by auto
  let ?m2 = "linked_in g p t m1"
  have r: "mp1_ioctl_add g bp arg m = (0, mp1_poke g (?m2 (ON_CHAR p)) (cell_offset ?m2 p) ?m2)"
    using h p(3) by (simp add: add Let_def not_le)
  have l: "0 < location (blink_at m1 t)" "location (blink_at m1 t) < 2000" using h by (simp_all add: b1 fresh_def)
  note e = insert_effect [OF ok1(1) p(1,2) l]
  have c: "cell_at v (fresh b) = cell_at v b" by (simp add: cell_at_def fresh_def)
  have "x \<notin> span p 16" if "x \<notin> span (blink_array g) 32000" for x using slot_span [OF p(1)] that by auto
  then show "\<exists>p m'. mp1_ioctl_add g bp arg m = (0, m') \<and> p \<in> slots g - set ns \<and> blinks_ok g v (p # ns) m' \<and>
      map (blink_at m') (p # ns) = fresh b # map (blink_at m) ns \<and> m' (cell_at v b) = on_char b \<and>
      (\<forall>x. x \<notin> span t 16 \<and> x \<notin> span (blink_array g) 32000 \<and> x \<notin> span (mp1_list_head g) 4 \<and> x \<noteq> cell_at v b
         \<longrightarrow> m' x = m x)"
    using r p e m1x ok1(2) unfolding b1 c
    by (intro exI [of _ p] exI [of _ "mp1_poke g (?m2 (ON_CHAR p)) (cell_offset ?m2 p) ?m2"]) (auto simp: fresh_def)
qed

section \<open>Removing a character\<close>

text \<open>The word that points to the structure behind the list part \<open>as\<close>.\<close>

definition pred_link :: "u32 \<Rightarrow> u32 list \<Rightarrow> u32" where
  "pred_link e as = (if as = [] then e else NEXT (last as))"

lemma pred_link_Cons: "pred_link e (a # as) = pred_link (NEXT a) as"
  by (simp add: pred_link_def)

lemma remove_find_prev_linked:
  "linked m (ld32 m e) (as @ p # bs) \<Longrightarrow> p \<notin> set as \<Longrightarrow> remove_find_prev m p e = Some (pred_link e as)"
proof (induction as arbitrary: e)
  case Nil
  then show ?case by (subst remove_find_prev.simps) (simp add: pred_link_def)
next
  case (Cons a as)
  have a: "ld32 m e = a" "a \<noteq> p" using Cons.prems by auto
  have "remove_find_prev m p (NEXT a) = Some (pred_link (NEXT a) as)" using Cons by auto
  then show ?case using a by (subst remove_find_prev.simps) (simp add: pred_link_Cons)
qed

lemma unlink:
  assumes "linked m (ld32 m e) (as @ p # bs)" and "distinct (as @ p # bs)"
    and "ld32 m' (pred_link e as) = ld32 m (NEXT p)" and "as \<noteq> [] \<Longrightarrow> ld32 m' e = ld32 m e"
    and "\<And>q. q \<in> set (as @ bs) \<Longrightarrow> NEXT q \<noteq> pred_link e as \<Longrightarrow> ld32 m' (NEXT q) = ld32 m (NEXT q)"
    and "\<And>q. q \<in> set bs \<Longrightarrow> NEXT q \<noteq> pred_link e as"
  shows "linked m' (ld32 m' e) (as @ bs)"
  using assms
proof (induction as arbitrary: e)
  case Nil
  then show ?case using linked_cong [of bs m' m] by (auto simp: pred_link_def)
next
  case (Cons a as)
  have a: "ld32 m e = a" "a \<noteq> 0" "linked m (ld32 m (NEXT a)) (as @ p # bs)" using Cons.prems(1) by auto
  have "linked m' (ld32 m' (NEXT a)) (as @ bs)"
  proof (rule Cons.IH [OF a(3)])
    show "ld32 m' (NEXT a) = ld32 m (NEXT a)" if "as \<noteq> []"
      using Cons.prems(2,5) that by (intro Cons.prems(5)) (auto simp: pred_link_def)
  qed (use Cons.prems in \<open>auto simp: pred_link_Cons\<close>)
  then show ?case using Cons.prems(4) a by auto
qed

text \<open>The pointer to a listed structure lies in the list head or in another listed structure.\<close>

lemma remove_memory:
  assumes ok: "blinks_ok g v (as @ p # bs) m"
  defines "e \<equiv> pred_link (mp1_list_head g) as"
  defines "m' \<equiv> mp1_free p (st32 m e (ld32 m (NEXT p)))"
  shows "blinks_ok g v (as @ bs) m'" and "map (blink_at m') (as @ bs) = map (blink_at m) (as @ bs)"
    and "x \<notin> span (blink_array g) 32000 \<Longrightarrow> x \<notin> span (mp1_list_head g) 4 \<Longrightarrow> m' x = m x"
proof -
  let ?h = "mp1_list_head g"
  have lay: "blink_layout g v" and ln: "linked m (ld32 m ?h) (as @ p # bs)" and d: "distinct (as @ p # bs)"
    and sub: "set (as @ p # bs) \<subseteq> slots g"
    using ok by (auto simp: blinks_ok_def)
  have p: "p \<in> slots g" using sub by simp
  have la: "last as \<in> slots g \<and> last as \<noteq> p \<and> last as \<in> set as" if "as \<noteq> []"
    using last_in_set [OF that] sub d by auto
  have e4: "x \<in> (if as = [] then span ?h 4 else span (last as) 16)" if "x \<in> span e 4" for x
    using that in_node(2) [of 12 4 16 x "last as"] by (auto simp: e_def pred_link_def)
  have m': "m' x = st32 m e (ld32 m (NEXT p)) x" if "x \<notin> span p 16" for x
    using that by (simp add: m'_def mp1_free_def ece391_memset_wrs wrs_other)
  have out: "m' x = m x" if "x \<notin> span p 16" "x \<notin> span e 4" for x using m' [OF that(1)] that(2) by (simp add: st32_other)
  have pe: "x \<notin> span p 16" if "x \<in> span e 4" for x
    using e4 [OF that] la slots_apart [of "last as" g p] p node_apart(3) [OF lay p, of x] by (auto split: if_splits)
  have "ld32 m' e = ld32 (st32 m e (ld32 m (NEXT p))) e" by (rule ld32_disjoint) (rule m', rule pe)
  then have me: "ld32 m' e = ld32 m (NEXT p)" by simp
  have hd: "ld32 m' ?h = ld32 m ?h" if "as \<noteq> []"
    using that e4 la node_apart(3) [OF lay, of "last as"] node_apart(3) [OF lay p] by (intro ld32_disjoint out) force+
  have ne: "x \<notin> span e 4" if "q \<in> slots g" "x \<in> span q 16" "as = [] \<or> q \<noteq> last as" for q x
    using e4 [of x] that la slots_apart [of q g "last as"] node_apart(3) [OF lay that(1,2)] by (auto split: if_splits)
  have ne12: "x \<notin> span e 4" if "q \<in> slots g" "x \<in> span q 12" for q x
  proof (cases "as = [] \<or> q \<noteq> last as")
    case True
    then show ?thesis using ne [OF that(1)] in_node(2) [of 0 12 16 x q] that(2) by simp
  next
    case False
    then show ?thesis using span_disjoint_offset [of 12 12 4 q] that(2) by (auto simp: e_def pred_link_def)
  qed
  have np: "x \<notin> span p 16" if "q \<in> slots g" "q \<noteq> p" "x \<in> span q 16" for q x
    using slots_apart [OF that(1) p that(2)] that(3) by auto
  have bl: "blink_at m' q = blink_at m q" if "q \<in> slots g" "q \<noteq> p" for q
    using np [OF that] ne12 [OF that(1)] in_node(2) [of 0 12 16 _ q] by (intro blink_at_cong out) auto
  have nx: "ld32 m' (NEXT q) = ld32 m (NEXT q)" if "q \<in> slots g" "q \<noteq> p" "as = [] \<or> q \<noteq> last as" for q
    using np [OF that(1,2)] ne [OF that(1) _ that(3)] in_node(2) [of 12 4 16 _ q] by (intro ld32_disjoint out) auto
  have nh: "NEXT q \<noteq> ?h" if "q \<in> slots g" for q
    using node_apart(3) [OF lay that, of "NEXT q"] in_node(1) [of 12 16 q] in_spanI [of 0 4 ?h] by auto
  have "set as \<inter> set bs = {}" using d by simp
  then have lb: "last as \<notin> set bs" if "as \<noteq> []" using last_in_set [OF that] by blast
  have "linked m' (ld32 m' ?h) (as @ bs)"
  proof (rule unlink [OF ln d], fold e_def)
    show "ld32 m' e = ld32 m (NEXT p)" "as \<noteq> [] \<Longrightarrow> ld32 m' ?h = ld32 m ?h" by (rule me, rule hd)
    show "ld32 m' (NEXT q) = ld32 m (NEXT q)" if "q \<in> set (as @ bs)" "NEXT q \<noteq> e" for q
      using that sub d by (intro nx) (auto simp: e_def pred_link_def)
    show "NEXT q \<noteq> e" if "q \<in> set bs" for q
      using that sub lb nh [of q] by (auto simp: e_def pred_link_def)
  qed
  moreover have loc: "ld16 m' q = (if q = p then 0 else ld16 m q)" if "q \<in> slots g" for q
  proof (cases "q = p")
    case True
    have "m' (p + of_nat k) = 0" if "k < 16" for k
      using that by (simp add: m'_def mp1_free_def ece391_memset_wrs wrs_nth)
    from this [of 0] this [of 1] show ?thesis using True by (simp add: ld16_def)
  qed (use bl [OF that] in \<open>simp add: blink_fields(1)\<close>)
  moreover have "ld32 m' (vmem_base_addr g) = ld32 m (vmem_base_addr g)"
    using node_apart(2) [OF lay p] e4 la node_apart(2) [OF lay, of "last as"] layout_disjoint(6) [OF lay]
    by (intro ld32_disjoint out) (force split: if_splits)+
  moreover have "{q \<in> slots g. ld16 m' q \<noteq> 0} = {q \<in> slots g. ld16 m q \<noteq> 0} - {p}" using loc by (auto split: if_splits)
  moreover have "ld16 m' q < 2000" if "q \<in> set (as @ bs)" for q
  proof -
    have "q \<in> slots g" "q \<noteq> p" using that sub d by auto
    then show ?thesis using loc [of q] ok that by (auto simp: blinks_ok_def)
  qed
  ultimately show "blinks_ok g v (as @ bs) m'" using ok d by (auto simp: blinks_ok_def)
  show "map (blink_at m') (as @ bs) = map (blink_at m) (as @ bs)" using bl sub d by auto
  show "m' x = m x" if "x \<notin> span (blink_array g) 32000" "x \<notin> span ?h 4"
    using that slot_span [OF p] e4 [of x] la slot_span [of "last as" g] by (intro out) (auto split: if_splits)
qed

primrec drop_location :: "u16 \<Rightarrow> blink list \<Rightarrow> blink list" where
  "drop_location l [] = []"
| "drop_location l (b # bs) = (if location b = l then bs else b # drop_location l bs)"

lemma drop_location_split:
  "\<forall>a \<in> set as. location a \<noteq> l \<Longrightarrow> location b = l \<Longrightarrow> drop_location l (as @ b # bs) = as @ bs"
  by (induction as) auto

lemma find_split: "\<forall>a \<in> set as. \<not> P a \<Longrightarrow> P p \<Longrightarrow> find P (as @ p # bs) = Some p"
  by (induction as) auto

text \<open>The first structure with a location.\<close>

lemma find_helper_cases:
  assumes "blinks_ok g v ns m"
  shows "(\<forall>q \<in> set ns. ld16 m q \<noteq> ucast arg) \<and> mp1_find_helper g arg m = Some 0 \<or>
     (\<exists>as p bs. ns = as @ p # bs \<and> (\<forall>q \<in> set as. ld16 m q \<noteq> ucast arg) \<and> ld16 m p = ucast arg \<and>
        p \<noteq> 0 \<and> p \<in> slots g \<and> mp1_find_helper g arg m = Some p)"
proof (cases "\<forall>q \<in> set ns. ld16 m q \<noteq> ucast arg")
  case True
  then have "find (\<lambda>q. ld16 m q = ucast arg) ns = None" by (simp add: find_None_iff)
  then show ?thesis using True find_helper_linked [of m _ ns "ucast arg"] assms by (auto simp: mp1_find_helper_def blinks_ok_def)
next
  case False
  then obtain as p bs where s: "ns = as @ p # bs" "ld16 m p = ucast arg" "\<forall>q \<in> set as. ld16 m q \<noteq> ucast arg"
    using split_list_first_prop [of ns "\<lambda>q. ld16 m q = ucast arg"] by blast
  then have "find (\<lambda>q. ld16 m q = ucast arg) ns = Some p"
    by (simp add: find_split)
  moreover have p: "p \<in> slots g" using s(1) assms by (auto simp: blinks_ok_def)
  moreover have "p \<noteq> 0" using slot_nonzero [OF p] assms unfolding blinks_ok_def by blast
  ultimately show ?thesis
    using s find_helper_linked [of m _ ns "ucast arg"] assms by (auto simp: mp1_find_helper_def blinks_ok_def)
qed

lemma mp1_ioctl_remove_drops:
  fixes arg :: u32
  assumes ok: "blinks_ok g v ns m"
  defines "l \<equiv> ucast arg :: u16" and "bs \<equiv> map (blink_at m) ns"
  shows "l \<notin> location ` set bs \<Longrightarrow> mp1_ioctl_remove g arg m = Some (- 1, m)"
    and "l \<in> location ` set bs \<Longrightarrow> \<exists>ns' m'. mp1_ioctl_remove g arg m = Some (0, m') \<and> blinks_ok g v ns' m' \<and>
      map (blink_at m') ns' = drop_location l bs \<and>
      (\<forall>x. x \<notin> span (blink_array g) 32000 \<and> x \<notin> span (mp1_list_head g) 4 \<longrightarrow> m' x = m x)"
proof -
  have loc: "location ` set bs = ld16 m ` set ns" by (auto simp: bs_def blink_fields(1))
  show "mp1_ioctl_remove g arg m = Some (- 1, m)" if "l \<notin> location ` set bs"
    using that find_helper_cases [OF ok, of arg] unfolding loc l_def by (auto simp: mp1_ioctl_remove_def)
  assume "l \<in> location ` set bs"
  then obtain as p cs where s: "ns = as @ p # cs" "\<forall>q \<in> set as. ld16 m q \<noteq> l" "ld16 m p = l" "p \<noteq> 0"
    and f: "mp1_find_helper g arg m = Some p"
    using find_helper_cases [OF ok, of arg] unfolding loc l_def by auto
  have "linked m (ld32 m (mp1_list_head g)) (as @ p # cs)" "p \<notin> set as" using ok s(1) by (auto simp: blinks_ok_def)
  from remove_find_prev_linked [OF this]
  have r: "mp1_ioctl_remove g arg m = Some (0, mp1_free p (st32 m (pred_link (mp1_list_head g) as) (ld32 m (NEXT p))))"
    using f s(4) by (simp add: mp1_ioctl_remove_def)
  have "drop_location l bs = map (blink_at m) (as @ cs)"
    unfolding bs_def s(1) map_append list.map using s(2,3) unfolding blink_fields(1) by (intro drop_location_split) auto
  then show "\<exists>ns' m'. mp1_ioctl_remove g arg m = Some (0, m') \<and> blinks_ok g v ns' m' \<and>
      map (blink_at m') ns' = drop_location l bs \<and>
      (\<forall>x. x \<notin> span (blink_array g) 32000 \<and> x \<notin> span (mp1_list_head g) 4 \<longrightarrow> m' x = m x)"
    using r remove_memory [OF ok [unfolded s(1)]] by auto
qed

section \<open>Putting two characters in step\<close>

definition synced :: "blink \<Rightarrow> blink \<Rightarrow> blink" where
  "synced b c = c\<lparr>on_length := on_length b, off_length := off_length b, countdown := countdown b, status := status b\<rparr>"

definition sync_copy :: "u32 \<Rightarrow> u32 \<Rightarrow> memory \<Rightarrow> memory" where
  "sync_copy p q m =
     (let m = st16 m (ON_LENGTH q) (ld16 m (ON_LENGTH p)); m = st16 m (OFF_LENGTH q) (ld16 m (OFF_LENGTH p));
          m = st16 m (COUNTDOWN q) (ld16 m (COUNTDOWN p))
      in st16 m (STATUS q) (ld16 m (STATUS p)))"

lemma sync_copy_effect:
  assumes "p \<in> slots g" "q \<in> slots g"
  shows "blink_at (sync_copy p q m) q = synced (blink_at m p) (blink_at m q)" and "ld32 (sync_copy p q m) (NEXT q) = ld32 m (NEXT q)"
    and "x \<notin> span q 16 \<Longrightarrow> sync_copy p q m x = m x"
proof -
  have other: "blink_at (st16 m (ON_LENGTH q) w) p = blink_at m p" "blink_at (st16 m (OFF_LENGTH q) w) p = blink_at m p"
    "blink_at (st16 m (COUNTDOWN q) w) p = blink_at m p" "blink_at (st16 m (STATUS q) w) p = blink_at m p" if "p \<noteq> q" for m w
    using slots_apart [OF assms that] in_node(2) [of 0 12 16 _ p]
    by (auto intro!: blink_at_cong st16_outside)
  show "blink_at (sync_copy p q m) q = synced (blink_at m p) (blink_at m q)"
    using other by (cases "p = q") (simp_all add: sync_copy_def Let_def blink_fields(4-7) synced_def)
  show "ld32 (sync_copy p q m) (NEXT q) = ld32 m (NEXT q)" by (simp add: sync_copy_def Let_def)
  show "x \<notin> span q 16 \<Longrightarrow> sync_copy p q m x = m x" by (simp add: sync_copy_def Let_def st16_outside)
qed

lemma mp1_ioctl_sync_copies:
  assumes ok: "blinks_ok g v ns m" and p: "mp1_find_helper g (drop_bit 16 arg) m = Some p" "p \<in> set ns"
    and q: "mp1_find_helper g (arg AND 0xFFFF) m = Some q" "q \<in> set ns"
  shows "\<exists>m'. mp1_ioctl_sync g arg m = Some (0, m') \<and> blinks_ok g v ns m' \<and>
     map (blink_at m') ns = map (\<lambda>r. if r = q then synced (blink_at m p) (blink_at m q) else blink_at m r) ns \<and>
     m' (cell_at v (blink_at m q)) = off_char (blink_at m q)"
proof -
  have lay: "blink_layout g v" and vm: "ld32 m (vmem_base_addr g) = v" and sub: "set ns \<subseteq> slots g"
    and loc: "location (blink_at m q) < 2000"
    using ok q(2) unfolding blinks_ok_def blink_fields(1) by auto
  have s: "p \<in> slots g" "q \<in> slots g" "p \<noteq> 0" "q \<noteq> 0" using p(2) q(2) sub slot_nonzero [OF _ lay] by auto
  define m1 where "m1 = sync_copy p q m"
  note c = sync_copy_effect [OF s(1,2), where m = m, folded m1_def]
  let ?a = "cell_at v (blink_at m q)"
  define m' where "m' = m1(?a := off_char (blink_at m q))"
  have a: "?a \<in> span v 4000" using cell_in_screen [OF loc] by (simp add: cell_at_def)
  have v: "ld32 m1 (vmem_base_addr g) = v"
    unfolding vm [symmetric] by (rule ld32_disjoint, rule c(3)) (use node_apart(2) [OF lay s(2)] in auto)
  have "\<not> bit (1 AND m1 (STATUS q)) 7" by (simp add: bit_simps)
  moreover have "m1 (OFF_CHAR q) = off_char (blink_at m q)" "cell_offset m1 q = push_bit 1 (ucast (location (blink_at m q)))"
    unfolding cell_offset_def blink_fields(1,3) [of m1 q] c(1) by (simp_all add: synced_def)
  ultimately have r: "mp1_ioctl_sync g arg m = Some (0, m')"
    using p(1) q(1) s(3,4) v c(1)
    by (simp add: mp1_ioctl_sync_def m1_def [unfolded sync_copy_def Let_def, symmetric] mp1_poke_def m'_def cell_at_def)
  have a16: "?a \<notin> span r 16" if "r \<in> slots g" for r using node_apart(1) [OF lay that] a by auto
  have bq: "blink_at m' q = synced (blink_at m p) (blink_at m q)"
    unfolding m'_def blink_at_upd [OF a16 [OF s(2)]] by (rule c(1))
  have other: "m' x = m x" if "r \<in> slots g" "r \<noteq> q" "x \<in> span r 16" for r x
    using slots_apart [OF that(1) s(2) that(2)] that(3) a16 [OF that(1)] c(3) by (auto simp: m'_def)
  have br: "blink_at m' r = blink_at m r" if "r \<in> slots g" "r \<noteq> q" for r
    using other [OF that] in_node(2) [of 0 12 16 _ r] by (intro blink_at_cong) simp
  have "blinks_ok g v ns m'"
  proof (rule blinks_ok_cong [OF ok])
    show "m' x = m x" if "x \<in> span (vmem_base_addr g) 4" for x
      using that a layout_disjoint(5) [OF lay] node_apart(2) [OF lay s(2), of x] c(3) by (auto simp: m'_def)
    show "m' x = m x" if "x \<in> span (mp1_list_head g) 4" for x
      using that a layout_disjoint(3) [OF lay] node_apart(3) [OF lay s(2), of x] c(3) by (auto simp: m'_def)
    show "ld16 m' r = ld16 m r" if "r \<in> slots g" for r
      using br [OF that] bq unfolding blink_fields(1) by (cases "r = q") (simp_all add: synced_def)
    show "ld32 m' (NEXT r) = ld32 m (NEXT r)" if "r \<in> set ns" for r
    proof (cases "r = q")
      case True
      then show ?thesis unfolding m'_def using next_upd [OF a16 [OF s(2)]] c(2) by simp
    next
      case False
      then show ?thesis using other [of r] that sub in_node(2) [of 12 4 16 _ r] by (intro ld32_disjoint) auto
    qed
  qed
  moreover have "map (blink_at m') ns = map (\<lambda>r. if r = q then synced (blink_at m p) (blink_at m q) else blink_at m r) ns"
    using bq br sub by auto
  moreover have "m' ?a = off_char (blink_at m q)" by (simp add: m'_def)
  ultimately show ?thesis using r by blast
qed

section \<open>A character in the top left corner\<close>

text \<open>A structure that is linked to itself: the loop of the clock tick does not end.\<close>

lemma self_loop:
  assumes "rest_ok g v [p] m" and "ld32 m (NEXT p) = p"
  shows "tasklet_loop g p m = None"
proof -
  let ?P = "\<lambda>g' q m. rest_ok g v [p] m \<and> ld32 m (NEXT p) = p \<and> q = p \<and> g' = g"
  have "\<not> ?P g' q m" if "tasklet_loop g' q m = Some m'" for g' q m m'
  proof (rule tasklet_loop.raw_induct [OF _ that])
    fix loop :: "blink_env \<Rightarrow> u32 \<Rightarrow> memory \<Rightarrow> memory option" and g' q m m'
    assume ih: "\<And>g' q m m'. loop g' q m = Some m' \<Longrightarrow> \<not> ?P g' q m"
      and b: "(if q = 0 then Some m
        else let m = st16 m (COUNTDOWN q) (ld16 m (COUNTDOWN q) - 1);
                 m = if 0 < sint (ld16 m (COUNTDOWN q)) then m else end_blink g' q m
             in loop g' (ld32 m (NEXT q)) m) = Some m'"
    show "\<not> ?P g' q m"
    proof
      assume h: "?P g' q m"
      let ?m1 = "tick_node g p m"
      have ok: "rest_ok g v [p] m" "p \<in> slots g" "blink_layout g v" using h by (simp_all add: rest_ok_def)
      have q: "q = p" "g' = g" "(p = 0) = False" using h slot_nonzero [OF ok(2,3)] by simp_all
      note t = tick_node_rest [OF ok(1)]
      have "rest_ok g v [p] ?m1" using t(1,2) ok(1) by (simp add: rest_ok_def)
      moreover have "ld32 ?m1 (NEXT p) = p" using t(3) h by simp
      moreover have "loop g (ld32 (tick_node g p m) (NEXT p)) (tick_node g p m) = Some m'"
        using b unfolding q tick_node_def Let_def by (simp only: if_False)
      ultimately show False using ih [of g p ?m1 m'] by simp
    qed
  qed
  then show ?thesis using assms by (cases "tasklet_loop g p m") auto
qed

lemma malloc_first: "ld16 m (blink_array g) = 0 \<Longrightarrow> mp1_malloc g 16 m = blink_array g"
  by (simp add: mp1_malloc_def upt_rec [of 0 2000])

lemma first_slot: "blink_array g \<in> slots g"
  unfolding slots_def by (rule image_eqI [of _ _ 0]) simp_all

text \<open>An addition when the first slot of the array looks free: that slot is taken.\<close>

lemma add_first_slot:
  assumes lay: "blink_layout g v" and vm: "ld32 m (vmem_base_addr g) = v" and room: "add_room g v (bp - 16) arg"
    and free: "ld16 m (blink_array g) = 0" and loc: "location (blink_at m arg) < 2000"
  defines "p \<equiv> blink_array g" and "b \<equiv> blink_at m arg"
  shows "\<exists>m'. mp1_ioctl_add g bp arg m = (0, m') \<and> blink_at m' p = fresh b \<and> ld32 m' (mp1_list_head g) = p \<and>
     ld32 m' (NEXT p) = ld32 m (mp1_list_head g) \<and> ld32 m' (vmem_base_addr g) = v \<and>
     (\<forall>x. x \<notin> span (bp - 16) 16 \<and> x \<notin> span p 16 \<and> x \<notin> span (mp1_list_head g) 4 \<and> x \<noteq> cell_at v b \<longrightarrow> m' x = m x)"
proof -
  define t where "t = bp - 16"
  define m1 where "m1 = fresh_copy t arg m"
  have room: "add_room g v t arg" using room by (simp add: t_def)
  have p: "p \<in> slots g" "p \<noteq> 0" using first_slot lay by (simp_all add: p_def blink_layout_def)
  have m1x: "m1 x = m x" if "x \<notin> span t 16" for x using that by (simp add: m1_def fresh_copy_outside)
  have b1: "blink_at m1 t = fresh b" by (simp add: m1_def b_def fresh_copy_blink)
  have "ld16 m1 p = ld16 m p"
    using slot_span [OF p(1)] room in_node(2) [of 0 2 16 _ p] by (intro ld16_cong m1x) (auto simp: add_room_def)
  then have mp: "mp1_malloc g 16 m1 = p" using free malloc_first by (simp add: p_def)
  have vm1: "ld32 m1 (vmem_base_addr g) = v" and h1: "ld32 m1 (mp1_list_head g) = ld32 m (mp1_list_head g)"
    unfolding vm [symmetric] by (rule ld32_disjoint, rule m1x, use room vm in \<open>auto simp: add_room_def\<close>)+
  define m2 where "m2 = linked_in g p t m1"
  have add: "mp1_ioctl_add g bp arg m = (0, mp1_poke g (m2 (ON_CHAR p)) (cell_offset m2 p) m2)"
    using mp1_ioctl_add_eq [of g v bp arg m] room p mp loc unfolding t_def m1_def m2_def by (simp add: Let_def not_le)
  have l1: "location (blink_at m1 t) < 2000" using loc by (simp add: b1 b_def fresh_def)
  note k = poke_effect [OF lay vm1 p(1) l1, folded m2_def, unfolded b1]
  note l = linked_in_effect [OF lay p(1), where m = m1 and tmp = t, folded m2_def, unfolded b1]
  have c: "cell_at v (fresh b) = cell_at v b" by (simp add: cell_at_def fresh_def)
  define m' where "m' = m2(cell_at v b := on_char (fresh b))"
  have a: "cell_at v b \<in> span v 4000" using k(3) by (simp add: c)
  have a16: "cell_at v b \<notin> span p 16" using node_apart(1) [OF lay p(1)] a by auto
  have "ld32 m' (mp1_list_head g) = ld32 m2 (mp1_list_head g)" "ld32 m' (vmem_base_addr g) = ld32 m2 (vmem_base_addr g)"
    unfolding m'_def using a layout_disjoint(3,5) [OF lay] by (auto intro!: ld32_disjoint)
  moreover have "blink_at m' p = blink_at m2 p" "ld32 m' (NEXT p) = ld32 m2 (NEXT p)"
    unfolding m'_def by (rule blink_at_upd [OF a16], rule next_upd [OF a16])
  moreover have "mp1_ioctl_add g bp arg m = (0, m')" using add k(1) by (simp add: m'_def c)
  moreover have "m' x = m x" if "x \<notin> span t 16" "x \<notin> span p 16" "x \<notin> span (mp1_list_head g) 4" "x \<noteq> cell_at v b" for x
    using that l(4) m1x by (simp add: m'_def)
  ultimately show ?thesis using l(1-3) k(2) h1 unfolding t_def by (intro exI [of _ m']) simp
qed

section \<open>Properties\<close>

lemma card_slots: "card (slots g) = 2000"
proof -
  have "inj_on (\<lambda>i. blink_array g + 16 * of_nat i) {..<2000}"
  proof (rule inj_onI)
    fix i j :: nat assume h: "i \<in> {..<2000}" "j \<in> {..<2000}" "blink_array g + 16 * of_nat i = blink_array g + 16 * of_nat j"
    then have "(of_nat (16 * i) :: u32) = of_nat (16 * j)" by simp
    then have "16 * i = 16 * j" using h(1,2) by (subst (asm) word_of_nat_eq_iff) simp_all
    then show "i = j" by simp
  qed
  then show ?thesis unfolding slots_def by (simp add: card_image)
qed

lemma full_list:
  assumes "blinks_ok g v ns m"
  shows "length ns \<le> 2000" and "set ns = slots g \<longleftrightarrow> length ns = 2000"
proof -
  have s: "set ns \<subseteq> slots g" "distinct ns" "finite (slots g)" using assms by (auto simp: blinks_ok_def slots_def)
  then have "card (set ns) = length ns" by (simp add: distinct_card)
  then show "length ns \<le> 2000" "set ns = slots g \<longleftrightarrow> length ns = 2000"
    using card_mono [OF s(3,1)] card_subset_eq [OF s(3,1)] card_slots [of g] by auto
qed

text \<open>C8: The blinking characters are a list. On a well-formed list the calls return and refine list
  operations: adding a character at a location from 1 to 1999 puts it, turned on, in front and
  shows it; a bad location or a full array gives -1 and keeps the list; removing a location drops
  the first character there, or gives -1 and changes nothing; and a clock tick, which is a loop
  over the list, ends, counts every character down, and draws the other form of those that are due.\<close>

theorem blink_calls_refine_list:
  assumes ok: "blinks_ok g v ns m"
  defines "bs \<equiv> map (blink_at m) ns"
  shows "(\<forall>bp arg. let b = blink_at m arg in add_room g v (bp - 16) arg \<longrightarrow>
        (if 2000 \<le> location b \<or> length ns = 2000
         then \<exists>m'. mp1_ioctl g bp arg 0 m = Some (- 1, m') \<and> blinks_ok g v ns m' \<and> map (blink_at m') ns = bs
         else 0 < location b \<longrightarrow> (\<exists>ns' m'. mp1_ioctl g bp arg 0 m = Some (0, m') \<and> blinks_ok g v ns' m' \<and>
           map (blink_at m') ns' = fresh b # bs \<and> m' (cell_at v b) = on_char b))) \<and>
     (\<forall>bp arg. if ucast arg \<in> location ` set bs
        then \<exists>ns' m'. mp1_ioctl g bp arg 1 m = Some (0, m') \<and> blinks_ok g v ns' m' \<and>
          map (blink_at m') ns' = drop_location (ucast arg) bs
        else mp1_ioctl g bp arg 1 m = Some (- 1, m)) \<and>
     (\<exists>m'. mp1_rtc_tasklet g m = Some m' \<and> blinks_ok g v ns m' \<and> map (blink_at m') ns = map tick bs \<and>
        (\<forall>x \<in> span v 4000. m' x = fold (tick_screen v) bs m x))"
proof (intro conjI allI)
  fix bp arg
  show "let b = blink_at m arg in add_room g v (bp - 16) arg \<longrightarrow>
        (if 2000 \<le> location b \<or> length ns = 2000
         then \<exists>m'. mp1_ioctl g bp arg 0 m = Some (- 1, m') \<and> blinks_ok g v ns m' \<and> map (blink_at m') ns = bs
         else 0 < location b \<longrightarrow> (\<exists>ns' m'. mp1_ioctl g bp arg 0 m = Some (0, m') \<and> blinks_ok g v ns' m' \<and>
           map (blink_at m') ns' = fresh b # bs \<and> m' (cell_at v b) = on_char b))"
    unfolding Let_def
  proof (intro impI)
    assume room: "add_room g v (bp - 16) arg"
    note ins = mp1_ioctl_add_inserts [OF ok room]
    show "if 2000 \<le> location (blink_at m arg) \<or> length ns = 2000
         then \<exists>m'. mp1_ioctl g bp arg 0 m = Some (- 1, m') \<and> blinks_ok g v ns m' \<and> map (blink_at m') ns = bs
         else 0 < location (blink_at m arg) \<longrightarrow> (\<exists>ns' m'. mp1_ioctl g bp arg 0 m = Some (0, m') \<and> blinks_ok g v ns' m' \<and>
           map (blink_at m') ns' = fresh (blink_at m arg) # bs \<and> m' (cell_at v (blink_at m arg)) = on_char (blink_at m arg))"
    proof (cases "2000 \<le> location (blink_at m arg) \<or> length ns = 2000")
      case True
      then obtain m' where "mp1_ioctl_add g bp arg m = (- 1, m')" "\<And>x. x \<notin> span (bp - 16) 16 \<Longrightarrow> m' x = m x"
        using ins(1) full_list(2) [OF ok] by blast
      then show ?thesis using True outside_tmp_ok [OF ok room, of m'] by (simp add: mp1_ioctl_def bs_def)
    next
      case False
      then show ?thesis using ins(2) full_list(2) [OF ok] unfolding mp1_ioctl_def bs_def by force
    qed
  qed
next
  fix bp arg :: u32
  show "if ucast arg \<in> location ` set bs
        then \<exists>ns' m'. mp1_ioctl g bp arg 1 m = Some (0, m') \<and> blinks_ok g v ns' m' \<and>
          map (blink_at m') ns' = drop_location (ucast arg) bs
        else mp1_ioctl g bp arg 1 m = Some (- 1, m)"
    using mp1_ioctl_remove_drops [OF ok, of arg] by (auto simp: mp1_ioctl_def bs_def)
next
  have "x \<notin> span (blink_array g) 32000" if "x \<in> span v 4000" for x
    using ok that layout_disjoint(1) [of g v] by (auto simp: blinks_ok_def)
  then show "\<exists>m'. mp1_rtc_tasklet g m = Some m' \<and> blinks_ok g v ns m' \<and> map (blink_at m') ns = map tick bs \<and>
        (\<forall>x \<in> span v 4000. m' x = fold (tick_screen v) bs m x)"
    using tasklet_refines [OF ok] unfolding bs_def by blast
qed

text \<open>C27: A character at location 0 makes the program hang. The allocator takes a structure with location
  0 for free, so the next addition overwrites the one in the top left corner and links it to
  itself: both calls return 0, and after them the clock tick does not return.\<close>

theorem origin_character_hangs:
  assumes ok: "blinks_ok g v ns m" and free: "blink_array g \<notin> set ns"
    and room: "add_room g v (bp - 16) arg" "add_room g v (bp - 16) arg'"
    and origin: "location (blink_at m arg) = 0" and loc: "location (blink_at m arg') < 2000"
    and apart': "span arg' 16 \<inter> span (blink_array g) 32000 = {}" "span arg' 16 \<inter> span (mp1_list_head g) 4 = {}"
      "span arg' 16 \<inter> span v 4000 = {}"
  shows "\<exists>m1 m2. mp1_ioctl g bp arg 0 m = Some (0, m1) \<and> mp1_ioctl g bp arg' 0 m1 = Some (0, m2) \<and>
     mp1_rtc_tasklet g m2 = None"
proof -
  let ?p = "blink_array g" and ?t = "bp - 16" and ?b = "blink_at m arg" and ?c = "blink_at m arg'"
  have lay: "blink_layout g v" and vm: "ld32 m (vmem_base_addr g) = v" and z: "ld16 m ?p = 0"
    using ok free first_slot [of g] by (auto simp: blinks_ok_def)
  obtain m1 where m1: "mp1_ioctl_add g bp arg m = (0, m1)" "blink_at m1 ?p = fresh ?b" "ld32 m1 (mp1_list_head g) = ?p"
    "ld32 m1 (vmem_base_addr g) = v"
    and out: "\<And>x. x \<notin> span ?t 16 \<Longrightarrow> x \<notin> span ?p 16 \<Longrightarrow> x \<notin> span (mp1_list_head g) 4 \<Longrightarrow> x \<noteq> cell_at v ?b \<Longrightarrow> m1 x = m x"
    using add_first_slot [OF lay vm room(1) z] origin by auto
  have z1: "ld16 m1 ?p = 0" unfolding blink_fields(1) m1(2) using origin by (simp add: fresh_def)
  have cell: "cell_at v ?b \<in> span v 4000" using cell_in_screen [of "location ?b" v] origin by (simp add: cell_at_def)
  have "m1 x = m x" if "x \<in> span arg' 12" for x
  proof (rule out)
    have x: "x \<in> span arg' 16" using in_node(2) [of 0 12 16 x arg'] that by simp
    then show "x \<notin> span ?t 16" using room(2) by (auto simp: add_room_def)
    show "x \<notin> span ?p 16" "x \<notin> span (mp1_list_head g) 4" "x \<noteq> cell_at v ?b"
      using x apart' slot_span [OF first_slot [of g]] cell by auto
  qed
  then have c: "blink_at m1 arg' = ?c" by (rule blink_at_cong)
  obtain m2 where m2: "mp1_ioctl_add g bp arg' m1 = (0, m2)" "blink_at m2 ?p = fresh ?c" "ld32 m2 (mp1_list_head g) = ?p"
    "ld32 m2 (NEXT ?p) = ?p" "ld32 m2 (vmem_base_addr g) = v"
    using add_first_slot [OF lay m1(4) room(2) z1] loc m1(3) unfolding c by auto
  have "rest_ok g v [?p] m2" using lay m2(2,5) first_slot loc by (simp add: rest_ok_def fresh_def)
  from self_loop [OF this m2(4)] have "mp1_rtc_tasklet g m2 = None" by (simp add: mp1_rtc_tasklet_def m2(3))
  then show ?thesis using m1(1) m2(1) by (simp add: mp1_ioctl_def)
qed

section \<open>An example\<close>

definition demo_blink :: blink_env where
  "demo_blink = \<lparr>blink_array = 0x8050000, mp1_list_head = 0x8060000, vmem_base_addr = 0x8060004\<rparr>"

text \<open>An empty list, the screen at 132 MB, and the letter I for the locations 100 and 0.\<close>

definition demo_blink_mem :: memory where
  "demo_blink_mem a = (if a = 0x8060006 then 0x40 else if a = 0x8060007 then 8 else if a = 0x8070100 then 100
     else if a = 0x8070102 then 73 else if a = 0x8070202 then 73 else 0)"

lemma demo_blinks_ok: "blinks_ok demo_blink 0x8400000 [] demo_blink_mem"
proof -
  have "apart [(0x8050000, 32000), (0x8400000, 4000), (0x8060000, 4), (0x8060004, 4)]"
    by (simp add: span_apartI)
  then have "blink_layout demo_blink 0x8400000" by (simp add: blink_layout_def demo_blink_def)
  moreover have "ld16 demo_blink_mem p = 0" if "p \<in> slots demo_blink" for p
  proof -
    have "x \<notin> span (0x8050000 :: u32) 32000" if "x \<in> {0x8060006, 0x8060007, 0x8070100, 0x8070102, 0x8070202}" for x
      using that by (auto simp: in_span_unat)
    moreover have "span p 16 \<subseteq> span 0x8050000 32000" using slot_span [OF that] by (simp add: demo_blink_def)
    ultimately have "demo_blink_mem x = 0" if "x \<in> span p 16" for x using that unfolding demo_blink_mem_def by auto
    from this [of p] this [of "p + 1"] in_node(1) [of 0 16 p] in_node(1) [of 1 16 p] show ?thesis by (simp add: ld16_def)
  qed
  ultimately show ?thesis by (auto simp: blinks_ok_def demo_blink_def ld32_def demo_blink_mem_def)
qed

lemma demo_add_room:
  "add_room demo_blink 0x8400000 (0x8070010 - 16) 0x8070100" "add_room demo_blink 0x8400000 (0x8070010 - 16) 0x8070200"
  by (simp_all add: add_room_def demo_blink_def span_apartI)

theorem blink_calls_refine_list_witness:
  "(\<exists>m'. mp1_ioctl demo_blink 0x8070010 0x8070100 0 demo_blink_mem = Some (0, m') \<and> m' (0x8400000 + 200) = 73) \<and>
   mp1_ioctl demo_blink 0x8070010 100 1 demo_blink_mem = Some (- 1, demo_blink_mem)"
proof -
  have b: "location (blink_at demo_blink_mem 0x8070100) = 100" "on_char (blink_at demo_blink_mem 0x8070100) = 73"
    by (simp_all add: blink_at_def ld16_def demo_blink_mem_def)
  have c: "cell_at 0x8400000 (blink_at demo_blink_mem 0x8070100) = 0x8400000 + 200"
    by (simp add: cell_at_def b push_bit_eq_mult)
  note t = blink_calls_refine_list [OF demo_blinks_ok]
  from t [THEN conjunct1, rule_format, of "0x8070100" "0x8070010"] demo_add_room(1)
  have "\<exists>m'. mp1_ioctl demo_blink 0x8070010 0x8070100 0 demo_blink_mem = Some (0, m') \<and> m' (0x8400000 + 200) = 73"
    by (auto simp: b c Let_def)
  moreover from t [THEN conjunct2, THEN conjunct1, rule_format, of 100 "0x8070010"]
  have "mp1_ioctl demo_blink 0x8070010 100 1 demo_blink_mem = Some (- 1, demo_blink_mem)" by simp
  ultimately show ?thesis by blast
qed

theorem origin_character_hangs_witness:
  "\<exists>m1 m2. mp1_ioctl demo_blink 0x8070010 0x8070200 0 demo_blink_mem = Some (0, m1) \<and>
     mp1_ioctl demo_blink 0x8070010 0x8070100 0 m1 = Some (0, m2) \<and> mp1_rtc_tasklet demo_blink m2 = None"
proof -
  have "location (blink_at demo_blink_mem 0x8070200) = 0" "location (blink_at demo_blink_mem 0x8070100) < 2000"
    by (simp_all add: blink_at_def ld16_def demo_blink_mem_def)
  moreover have "span (0x8070100 :: u32) 16 \<inter> span 0x8050000 32000 = {}" "span (0x8070100 :: u32) 16 \<inter> span 0x8060000 4 = {}"
    "span (0x8070100 :: u32) 16 \<inter> span 0x8400000 4000 = {}" by (simp_all add: span_apartI)
  ultimately show ?thesis
    using origin_character_hangs [OF demo_blinks_ok _ demo_add_room(2,1)] by (simp add: demo_blink_def)
qed

end
