(* ===== verification/Fdtype.thy ===== *)
theory Fdtype
  imports User
begin

text \<open>
  A type system for the descriptor table. A descriptor has a type that says which of the five
  jump tables of \<open>syscall.c\<close> its entry refers to, and a table is well typed when every descriptor
  has one. The table that \<open>execute\<close> sets up is well typed, the calls that do not wait for a device
  keep it so whatever their arguments are, and in a well-typed table no call is stuck: the
  routine that a call dispatches to is the one of the type.
\<close>

section \<open>Types\<close>

datatype fd_type = Unused | Keyboard_in | Screen_out | Clock | Folder | Regular

primrec type_table :: "fd_type \<Rightarrow> 'a process_scheme \<Rightarrow> u32" where
  "type_table Unused s = 0"
| "type_table Keyboard_in s = stdin_table_addr s"
| "type_table Screen_out s = stdout_table_addr s"
| "type_table Clock s = rtc_table_addr s"
| "type_table Folder s = directory_table_addr s"
| "type_table Regular s = files_table_addr s"

primrec reader :: "fd_type \<Rightarrow> fop" where
  "reader Unused = No_op"
| "reader Keyboard_in = Read_terminal"
| "reader Screen_out = Read_failure"
| "reader Clock = Read_rtc"
| "reader Folder = Directory_read"
| "reader Regular = File_read"

primrec writer :: "fd_type \<Rightarrow> fop" where
  "writer Unused = No_op"
| "writer Keyboard_in = Write_failure"
| "writer Screen_out = Write_terminal"
| "writer Clock = Write_rtc"
| "writer Folder = Directory_write"
| "writer Regular = File_write"

primrec opener :: "fd_type \<Rightarrow> fop" where
  "opener Unused = No_op"
| "opener Keyboard_in = Write_failure"
| "opener Screen_out = Read_failure"
| "opener Clock = Open_rtc"
| "opener Folder = Directory_open"
| "opener Regular = File_open"

primrec closer :: "fd_type \<Rightarrow> fop" where
  "closer Unused = No_op"
| "closer Keyboard_in = Write_failure"
| "closer Screen_out = Read_failure"
| "closer Clock = Close_rtc"
| "closer Folder = Directory_close"
| "closer Regular = File_close"

inductive fd_typed :: "'a process_scheme \<Rightarrow> u32 \<Rightarrow> int \<Rightarrow> fd_type \<Rightarrow> bool" for s p where
  unused: "2 \<le> fd \<Longrightarrow> fd \<le> 7 \<Longrightarrow> ld32 (mem s) (pcb_flags p fd) = 0 \<Longrightarrow> fd_typed s p fd Unused"
| keyboard_in: "ld32 (mem s) (pcb_flags p 0) \<noteq> 0 \<Longrightarrow> ld32 (mem s) (pcb_fops p 0) = stdin_table_addr s \<Longrightarrow>
    fd_typed s p 0 Keyboard_in"
| screen_out: "ld32 (mem s) (pcb_flags p 1) \<noteq> 0 \<Longrightarrow> ld32 (mem s) (pcb_fops p 1) = stdout_table_addr s \<Longrightarrow>
    fd_typed s p 1 Screen_out"
| opened: "2 \<le> fd \<Longrightarrow> fd \<le> 7 \<Longrightarrow> ld32 (mem s) (pcb_flags p fd) \<noteq> 0 \<Longrightarrow> t \<in> {Clock, Folder, Regular} \<Longrightarrow>
    ld32 (mem s) (pcb_fops p fd) = type_table t s \<Longrightarrow> fd_typed s p fd t"

inductive_cases unused_cases: "fd_typed s p fd Unused"

definition table_typed :: "'a process_scheme \<Rightarrow> u32 \<Rightarrow> bool" where
  "table_typed s p \<longleftrightarrow> tables_ready s \<and> (\<forall>fd. 0 \<le> fd \<and> fd \<le> 7 \<longrightarrow> (\<exists>t. fd_typed s p fd t))"

lemma table_typedD: "table_typed s p \<Longrightarrow> 0 \<le> fd \<Longrightarrow> fd \<le> 7 \<Longrightarrow> \<exists>t. fd_typed s p fd t"
  by (simp add: table_typed_def)

lemma typed_range: "fd_typed s p fd t \<Longrightarrow> 0 \<le> fd \<and> fd \<le> 7"
  by (induction rule: fd_typed.induct) simp_all

lemma typed_used: "fd_typed s p fd t \<Longrightarrow> ld32 (mem s) (pcb_flags p fd) = 0 \<longleftrightarrow> t = Unused"
  by (induction rule: fd_typed.induct) auto

lemma typed_table: "fd_typed s p fd t \<Longrightarrow> t \<noteq> Unused \<Longrightarrow> ld32 (mem s) (pcb_fops p fd) = type_table t s"
  by (induction rule: fd_typed.induct) simp_all

lemma typed_ops:
  assumes "fd_typed s p fd t" and "tables_ready s" and "t \<noteq> Unused"
  shows "\<exists>ops. fops_at s (ld32 (mem s) (pcb_fops p fd)) = Some ops \<and> fop_read ops = reader t \<and> fop_write ops = writer t \<and>
     fop_open ops = opener t \<and> fop_close ops = closer t"
  using typed_table [OF assms(1,3)] assms(2,3)
  by (cases t) (auto simp: fops_at_def tables_ready_def tables_init_def)

text \<open>A descriptor has one type.\<close>

lemma typed_unique:
  assumes "fd_typed s p fd t" and "fd_typed s p fd t'" and "tables_ready s"
  shows "t = t'"
proof (cases "t = Unused")
  case True
  then show ?thesis using typed_used [OF assms(1)] typed_used [OF assms(2)] by simp
next
  case False
  then have "t' \<noteq> Unused" using typed_used [OF assms(1)] typed_used [OF assms(2)] by simp
  then have "type_table t s = type_table t' s"
    using False typed_table [OF assms(1)] typed_table [OF assms(2)] by simp
  then show ?thesis using False \<open>t' \<noteq> Unused\<close> assms(3) by (cases t; cases t') (auto simp: tables_ready_def)
qed

section \<open>What the calls leave alone\<close>

text \<open>The addresses and contents of the jump tables and the kernel stack.\<close>

definition same_tables :: "'a process_scheme \<Rightarrow> 'a process_scheme \<Rightarrow> bool" where
  "same_tables s s' \<longleftrightarrow> get_pcb s' = get_pcb s \<and> tables_ready s' = tables_ready s \<and> (\<forall>t. type_table t s' = type_table t s)"

lemma same_tables_kernel: "same_kernel s s' \<Longrightarrow> same_tables s s'"
  unfolding same_tables_def by (auto simp: same_kernel_fields intro: fd_type.induct)

lemma same_tables_refl [simp]: "same_tables s s"
  by (simp add: same_tables_def)

lemma same_tables_trans: "same_tables s s1 \<Longrightarrow> same_tables s1 s2 \<Longrightarrow> same_tables s s2"
  by (simp add: same_tables_def)

text \<open>A descriptor keeps its type when its in-use mark and table pointer keep their values.\<close>

lemma typed_cong:
  assumes "fd_typed s p fd t" and "same_tables s s'"
    and "ld32 (mem s') (pcb_flags p fd) = ld32 (mem s) (pcb_flags p fd)"
    and "ld32 (mem s') (pcb_fops p fd) = ld32 (mem s) (pcb_fops p fd)"
  shows "fd_typed s' p fd t"
proof -
  have ty: "type_table t s' = type_table t s" for t using assms(2) by (simp add: same_tables_def)
  show ?thesis
    using assms(1)
  proof cases
    case unused
    then show ?thesis using assms(3) by (auto intro: fd_typed.unused)
  next
    case keyboard_in
    then show ?thesis using assms(3,4) ty [of Keyboard_in] by (auto intro: fd_typed.keyboard_in)
  next
    case screen_out
    then show ?thesis using assms(3,4) ty [of Screen_out] by (auto intro: fd_typed.screen_out)
  next
    case opened
    then show ?thesis using assms(3,4) ty [of t] by (auto intro: fd_typed.opened)
  qed
qed

lemma fops_in_fd_span: "span (pcb_fops p i) 4 \<subseteq> fd_span p i"
  unfolding fd_span_def by (rule span_mono) simp

lemma typed_same_bytes:
  assumes "fd_typed s p fd t" and "same_tables s s'" and same: "\<And>x. x \<in> fd_span p fd \<Longrightarrow> mem s' x = mem s x"
  shows "fd_typed s' p fd t"
proof (rule typed_cong [OF assms(1,2)])
  show "ld32 (mem s') (pcb_flags p fd) = ld32 (mem s) (pcb_flags p fd)" using same by (rule flags_cong)
  show "ld32 (mem s') (pcb_fops p fd) = ld32 (mem s) (pcb_fops p fd)"
    using same fops_in_fd_span [of p fd] by (intro ld32_disjoint) blast
qed

lemma table_typed_outside:
  assumes "table_typed s p" and "same_tables s s'" and "\<And>x. x \<in> span p 128 \<Longrightarrow> mem s' x = mem s x"
  shows "table_typed s' p"
proof -
  have "\<exists>t. fd_typed s' p fd t" if fd: "0 \<le> fd" "fd \<le> 7" for fd
  proof -
    obtain t where "fd_typed s p fd t" using table_typedD [OF assms(1) fd(1,2)] by blast
    moreover have "mem s' x = mem s x" if "x \<in> fd_span p fd" for x
      using assms(3) that fd_span_in_table [of fd p] fd by auto
    ultimately show ?thesis using typed_same_bytes assms(2) by blast
  qed
  then show ?thesis using assms(1,2) by (auto simp: table_typed_def same_tables_def)
qed

text \<open>Only descriptor \<open>i\<close> changes, and it has a type afterwards.\<close>

lemma table_typed_at:
  assumes "table_typed s p" and "same_tables s s'" and "\<And>x. x \<in> span p 128 \<Longrightarrow> x \<notin> fd_span p i \<Longrightarrow> mem s' x = mem s x"
    and "0 \<le> i" "i \<le> 7" and i: "fd_typed s' p i t"
  shows "table_typed s' p"
proof -
  have "\<exists>t. fd_typed s' p fd t" if fd: "0 \<le> fd" "fd \<le> 7" "fd \<noteq> i" for fd
  proof -
    obtain t where "fd_typed s p fd t" using table_typedD [OF assms(1) fd(1,2)] by blast
    moreover have "mem s' x = mem s x" if "x \<in> fd_span p fd" for x
      using assms(3-5) that fd fd_span_in_table [of fd p] fd_spans_apart [of fd i p] by auto
    ultimately show ?thesis using typed_same_bytes assms(2) by blast
  qed
  then show ?thesis using assms(1,2) i by (auto simp: table_typed_def same_tables_def)
qed

subsection \<open>The file system\<close>

lemma strncpy_pad_frame: "x \<notin> span dest (unat n) \<Longrightarrow> strncpy_pad m dest n i x = m x"
proof (induction m dest n i rule: strncpy_pad.induct)
  case (1 m dest n i)
  have "x \<noteq> dest + i" if "i < n"
  proof -
    have "dest + of_nat (unat i) \<in> span dest (unat n)" using that by (intro in_spanI) (simp add: word_less_nat_alt)
    then show ?thesis using 1(2) by auto
  qed
  then show ?case using 1 by (subst strncpy_pad.simps) auto
qed

lemma strncpy_copy_frame: "x \<notin> span dest (unat n) \<Longrightarrow> fst (strncpy_copy m dest src n i) x = m x"
proof (induction m dest src n i rule: strncpy_copy.induct)
  case (1 m dest src n i)
  have "x \<noteq> dest + i" if "i < n"
  proof -
    have "dest + of_nat (unat i) \<in> span dest (unat n)" using that by (intro in_spanI) (simp add: word_less_nat_alt)
    then show ?thesis using 1(2) by auto
  qed
  then show ?case using 1 by (subst strncpy_copy.simps) auto
qed

lemma strncpy_frame: "x \<notin> span dest (unat n) \<Longrightarrow> strncpy m dest src n x = m x"
  by (simp add: strncpy_def Let_def case_prod_unfold strncpy_pad_frame strncpy_copy_frame)

lemma copy_dentry_frame:
  assumes "x \<notin> span dentry 40"
  shows "copy_dentry dentry d m x = m x"
proof -
  have "span (dentry + of_nat 32) 4 \<subseteq> span dentry 40" "span (dentry + of_nat 36) 4 \<subseteq> span dentry 40" "span dentry 32 \<subseteq> span dentry 40"
    using sub_span [of 32 4 40 dentry] sub_span [of 36 4 40 dentry] span_mono [of 32 40 dentry] by simp_all
  then have "x \<notin> span (dentry + 32) 4" "x \<notin> span (dentry + 36) 4" "x \<notin> span dentry (unat (32 :: u32))" using assms by auto
  then show ?thesis
    by (simp add: copy_dentry_def Let_def dentry_filetype_def dentry_inode_num_def st32_other strncpy_frame)
qed

lemma read_dentry_loop_frame: "x \<notin> span dentry 40 \<Longrightarrow> snd (read_dentry_loop bb f dentry is m) x = m x"
  by (induction bb f dentry "is" m rule: read_dentry_loop.induct) (simp_all add: copy_dentry_frame)

lemma read_dentry_by_name_frame:
  assumes "read_dentry_by_name f d s = Some (r, s')" and "x \<notin> span d 40"
  shows "mem s' x = mem s x"
  using assms read_dentry_loop_frame [OF assms(2), of "bootblock_addr s" f "[0..<63]" "mem s"]
  by (auto simp: read_dentry_by_name_def bind_eq_Some_conv case_prod_unfold Let_def split: if_splits)

text \<open>The loop of \<open>read_data\<close> stores at most as many bytes as it was asked for, whatever the image holds.\<close>

lemma read_data_loop_frame:
  "x \<notin> span buf (unat bound - unat i) \<Longrightarrow> snd (read_data_loop bb dc ci off bound i buf m) x = m x"
proof (induction bb dc ci off bound i buf m rule: read_data_loop.induct)
  case (1 bb dc ci off bound i buf m)
  show ?case
  proof (cases "i < bound")
    case True
    then have n: "unat bound - unat i = Suc (unat bound - unat (i + 1))"
      by (simp add: word_less_nat_alt unat_Suc_less)
    have x: "x \<noteq> buf" "x \<notin> span (buf + 1) (unat bound - unat (i + 1))"
      using 1(2) unfolding n span_Cons by auto
    show ?thesis
      using True x 1(1) by (subst read_data_loop.simps) (auto simp: Let_def)
  qed (subst read_data_loop.simps, simp)
qed

lemma read_data_frame:
  assumes "x \<notin> span buf (unat len)"
  shows "mem (snd (read_data n off buf len s)) x = mem s x"
proof -
  have "unat (off + len) - unat off \<le> unat len"
    by (simp add: unat_word_ariths)
  then have "x \<notin> span buf (unat (off + len) - unat off)"
    using assms span_mono [of "unat (off + len) - unat off" "unat len" buf] by auto
  from read_data_loop_frame [OF this]
  show ?thesis by (auto simp: read_data_def Let_def case_prod_unfold)
qed

text \<open>Reading a file changes the buffer and the position of the descriptor.\<close>

lemma file_read_frame:
  assumes "x \<notin> span buf (unat (word_of_int n :: u32))" and "x \<notin> fd_span (get_pcb s) fd"
  shows "mem (snd (file_read fd buf n s)) x = mem s x"
  using assms(2) read_data_frame [OF assms(1)] by (auto simp: file_read_def Let_def case_prod_unfold)

lemma file_read_mem_only: "\<exists>r m'. file_read fd buf n s = (r, s\<lparr>mem := m'\<rparr>)"
proof -
  obtain r m' where "read_data (ld32 (mem s) (pcb_inode (get_pcb s) fd)) (ld32 (mem s) (pcb_file_pos (get_pcb s) fd)) buf (word_of_int n) s
      = (r, s\<lparr>mem := m'\<rparr>)" using read_data_mem_only by blast
  then show ?thesis by (auto simp: file_read_def Let_def)
qed

lemma file_read_keeps:
  assumes "span buf (unat (word_of_int n :: u32)) \<inter> span (get_pcb s) 128 = {}" and fd: "0 \<le> fd" "fd < 8"
  defines "m' \<equiv> mem (snd (file_read fd buf n s))"
  shows "ld32 m' (pcb_flags (get_pcb s) fd) = ld32 (mem s) (pcb_flags (get_pcb s) fd)"
    and "ld32 m' (pcb_fops (get_pcb s) fd) = ld32 (mem s) (pcb_fops (get_pcb s) fd)"
proof -
  let ?p = "get_pcb s"
  define q where "q = read_data (ld32 (mem s) (pcb_inode ?p fd)) (ld32 (mem s) (pcb_file_pos ?p fd)) buf (word_of_int n) s"
  have m': "m' = st32 (mem (snd q)) (pcb_file_pos ?p fd) (ld32 (mem s) (pcb_file_pos ?p fd) + word_of_int (fst q))"
    by (simp add: m'_def file_read_def Let_def case_prod_unfold q_def)
  have same: "mem (snd q) x = mem s x" if "x \<in> fd_span ?p fd" for x
    unfolding q_def by (rule read_data_frame) (use that assms(1) fd_span_in_table [OF fd, of ?p] in blast)
  from flags_cong [OF this]
  show "ld32 m' (pcb_flags ?p fd) = ld32 (mem s) (pcb_flags ?p fd)" unfolding m' by simp
  have "ld32 (mem (snd q)) (pcb_fops ?p fd) = ld32 (mem s) (pcb_fops ?p fd)"
    using same fops_in_fd_span [of ?p fd] by (intro ld32_disjoint) blast
  then show "ld32 m' (pcb_fops ?p fd) = ld32 (mem s) (pcb_fops ?p fd)" unfolding m' by simp
qed

text \<open>Reading a directory changes its local entry and 33 bytes of the buffer, whatever size is asked for.\<close>

lemma directory_read_frame:
  assumes "directory_read local fd buf n s = Some (r, s')" and "x \<notin> span local 40" "x \<notin> span buf 33"
  shows "mem s' x = mem s x"
proof -
  have b: "x \<notin> span buf (unat (32 :: u32))" "x \<noteq> buf + 32"
    using assms(3) span_mono [of 32 33 buf] in_spanI [of 32 33 buf] by auto
  define m1 where "m1 = copy_dentry local (direntry (bootblock_addr s) (ucast (num_files_read s))) (mem s)"
  have "mem s' = mem s \<or> mem s' = (strncpy m1 buf local 32)(buf + 32 := 0)"
    using assms(1) unfolding directory_read_def read_dentry_by_index_def Let_def m1_def [symmetric]
    by (auto simp: bind_eq_Some_conv split: if_splits)
  moreover have "m1 x = mem s x" unfolding m1_def by (rule copy_dentry_frame [OF assms(2)])
  ultimately show "mem s' x = mem s x" using b strncpy_frame [of x buf 32 m1 local] by auto
qed

lemma directory_read_kernel: "directory_read local fd buf n s = Some (r, s') \<Longrightarrow> same_kernel s s'"
  by (auto simp: directory_read_def Let_def read_dentry_by_index_def bind_eq_Some_conv same_kernel_def split: if_splits)

section \<open>Preservation\<close>

lemma type_table_update [simp]:
  "type_table t (s\<lparr>mem := m\<rparr>) = type_table t s" "type_table t (s\<lparr>io := i\<rparr>) = type_table t s"
  "type_table t (s\<lparr>temp_fd := fd\<rparr>) = type_table t s" "type_table t (s\<lparr>num_files_read := k\<rparr>) = type_table t s"
  "type_table t (s\<lparr>freq_value := v\<rparr>) = type_table t s" "type_table t (s\<lparr>iflag := b\<rparr>) = type_table t s"
  "type_table t (s\<lparr>dev := d\<rparr>) = type_table t s"
  by (cases t; simp)+

lemma same_tables_update [simp]:
  "same_tables s (s\<lparr>mem := m\<rparr>)" "same_tables s (s\<lparr>io := i\<rparr>)" "same_tables s (s\<lparr>temp_fd := fd\<rparr>)"
  "same_tables s (s\<lparr>num_files_read := k\<rparr>)" "same_tables s (s\<lparr>freq_value := v\<rparr>)" "same_tables s (s\<lparr>iflag := b\<rparr>)"
  "same_tables s (s\<lparr>dev := d\<rparr>)"
  by (simp_all add: same_tables_def get_pcb_def tables_ready_def tables_init_def)

lemma same_tables_ports [simp]:
  "same_tables s (outb v p s)" "same_tables s (snd (inb p s))" "same_tables s (sti s)"
  by (simp_all add: outb_def inb_def sti_def case_prod_unfold)

lemma rtc_calls_keep:
  "mem (snd (open_rtc f s)) = mem s" "same_tables s (snd (open_rtc f s))"
  "mem (snd (write_rtc fd b n s)) = mem s" "same_tables s (snd (write_rtc fd b n s))"
  by (simp_all add: open_rtc_def write_rtc_def Let_def outb_def inb_def same_tables_def get_pcb_def tables_ready_def tables_init_def)

lemma call_open_keeps:
  assumes "call_open f fn s = Some (r, s')"
  shows "mem s' = mem s" and "same_tables s s'"
  using assms rtc_calls_keep(1,2) [where f = fn and s = s]
  by (auto simp: call_open_def file_open_def directory_open_def split: fop.splits)

lemma call_close_keeps: "call_close f fd s = Some (r, s') \<Longrightarrow> s' = s"
  by (auto simp: call_close_def file_close_def directory_close_def close_rtc_def split: fop.splits)

lemma free_fd_range: "free_fd m p \<noteq> 8 \<Longrightarrow> 2 \<le> free_fd m p \<and> free_fd m p \<le> 7 \<and> ld32 m (pcb_flags p (free_fd m p)) = 0"
  using free_fd_cases [of m p] by (auto simp: lowest_free_def)

text \<open>The descriptor that \<open>open\<close> fills in, for each type of file.\<close>

definition filled :: "u32 \<Rightarrow> u32 \<Rightarrow> int \<Rightarrow> u32 \<Rightarrow> 'a process_scheme \<Rightarrow> memory" where
  "filled dentry p i ty s =
     (if ty = 0 then st32 (st32 (st32 (mem s) (pcb_inode p i) 0) (pcb_flags p i) 1) (pcb_fops p i) (rtc_table_addr s)
      else if ty = 1 then st32 (st32 (st32 (mem s) (pcb_inode p i) 0) (pcb_flags p i) 1) (pcb_fops p i) (directory_table_addr s)
      else st32 (st32 (st32 (st32 (mem s) (pcb_inode p i) (ld32 (mem s) (dentry_inode_num dentry))) (pcb_flags p i) 1)
             (pcb_fops p i) (files_table_addr s)) (pcb_file_pos p i) 0)"

lemma filled_descriptor:
  "ld32 (filled d p i ty s) (pcb_flags p i) = 1" "x \<notin> fd_span p i \<Longrightarrow> filled d p i ty s x = mem s x"
  "ty \<in> {0, 1, 2} \<Longrightarrow> ld32 (filled d p i ty s) (pcb_fops p i) = fd_table_addr s ty"
  by (auto simp: filled_def fd_table_addr_def)

definition type_of_file :: "u32 \<Rightarrow> fd_type" where
  "type_of_file ty = (if ty = 0 then Clock else if ty = 1 then Folder else Regular)"

lemma filled_typed:
  assumes "2 \<le> i" "i \<le> 7" and "ty \<in> {0, 1, 2}"
  shows "fd_typed (s\<lparr>mem := filled d p i ty s\<rparr>) p i (type_of_file ty)"
  using assms filled_descriptor [where d = d and p = p and i = i and ty = ty and s = s]
  by (intro fd_typed.opened) (auto simp: type_of_file_def fd_table_addr_def)

text \<open>\<open>open\<close> after the lookup.\<close>

lemma open_after_lookup:
  assumes "read_dentry_by_name f d s = Some (q, s1)" and "f \<noteq> 0" "mem s f \<noteq> 0"
  defines "p \<equiv> get_pcb s" and "ty \<equiv> ld32 (mem s1) (dentry_filetype d)"
  defines "i \<equiv> free_fd (mem s1) p"
  shows "open_fd d f s =
     (if q = - 1 \<or> i = 8 \<or> ty \<notin> {0, 1, 2} then Some (- 1, s1)
      else do {
        ops \<leftarrow> fops_at s1 (fd_table_addr s1 ty);
        (r, s) \<leftarrow> call_open (fop_open ops) f (s1\<lparr>mem := filled d p i ty s1\<rparr>);
        if r = - 1 then Some (- 1, s) else Some (i, s)
      })"
proof -
  obtain m1 where s1: "s1 = s\<lparr>mem := m1\<rparr>" using read_dentry_mem_only(1) [OF assms(1)] by blast
  have gp: "get_pcb s = p" "get_pcb (s\<lparr>mem := m\<rparr>) = p" for m by (simp_all add: get_pcb_def p_def)
  have i: "free_fd m1 p = i" "ld32 m1 (dentry_filetype d) = ty" by (simp_all add: i_def ty_def s1)
  have "ld32 m1 (pcb_flags p i) = 0" if "i \<noteq> 8" using free_fd_range [of m1 p] that unfolding i by simp
  then show ?thesis
    using assms(1-3) unfolding s1
    by (auto simp: open_fd_def Let_def gp i filled_def fd_table_addr_def fops_at_def cong: if_cong)
qed

lemma open_typed:
  assumes t: "table_typed s (get_pcb s)" and o: "open_fd d f s = Some (r, s')"
    and d: "span d 40 \<inter> span (get_pcb s) 128 = {}"
  shows "table_typed s' (get_pcb s) \<and> same_tables s s'"
proof (cases "f = 0 \<or> mem s f = 0")
  case True
  then have "s' = s" using o by (auto simp: open_fd_def)
  then show ?thesis using t by simp
next
  case False
  let ?p = "get_pcb s"
  obtain q s1 where rd: "read_dentry_by_name f d s = Some (q, s1)"
    using o False by (auto simp: open_fd_def bind_eq_Some_conv)
  define ty where "ty = ld32 (mem s1) (dentry_filetype d)"
  define i where "i = free_fd (mem s1) ?p"
  have s1: "mem s1 x = mem s x" if "x \<in> span ?p 128" for x
    using read_dentry_by_name_frame [OF rd, of x] that d by auto
  have k1: "same_tables s s1" using read_dentry_mem_only(1) [OF rd] by auto
  have t1: "table_typed s1 ?p" by (rule table_typed_outside [OF t k1]) (rule s1)
  have "f \<noteq> 0" "mem s f \<noteq> 0" using False by simp_all
  note af = open_after_lookup [OF rd this, folded ty_def i_def]
  show ?thesis
  proof (cases "q = - 1 \<or> i = 8 \<or> ty \<notin> {0, 1, 2}")
    case True
    then have "s' = s1" using o unfolding af by auto
    then show ?thesis using t1 k1 by simp
  next
    case ok: False
    let ?s2 = "s1\<lparr>mem := filled d ?p i ty s1\<rparr>"
    have "\<exists>(ops :: file_operations_t) v. call_open (fop_open ops) f ?s2 = Some (v, s')"
      using o ok unfolding af by (auto simp: bind_eq_Some_conv split: if_splits)
    then obtain ops :: file_operations_t and v where co: "call_open (fop_open ops) f ?s2 = Some (v, s')" by blast
    have i: "2 \<le> i" "i \<le> 7" using ok free_fd_range [of "mem s1" ?p] by (simp_all add: i_def)
    obtain t where ty: "fd_typed ?s2 ?p i t" using filled_typed [OF i] ok by blast
    have "table_typed ?s2 ?p"
      by (rule table_typed_at [OF t1 _ _ _ _ ty]) (use i in \<open>simp_all add: filled_descriptor(2)\<close>)
    then have "table_typed s' ?p"
      by (rule table_typed_outside) (simp_all add: call_open_keeps [OF co])
    moreover have "same_tables s s'"
      using k1 call_open_keeps(2) [OF co] same_tables_update(1) [of s1] by (blast intro: same_tables_trans)
    ultimately show ?thesis by blast
  qed
qed

lemma close_typed:
  assumes t: "table_typed s (get_pcb s)" and c: "close_fd fd s = Some (r, s')"
  shows "table_typed s' (get_pcb s) \<and> same_tables s s'"
proof (cases "fd < 2 \<or> fd > 7 \<or> ld32 (mem s) (pcb_flags (get_pcb s) fd) = 0")
  case True
  then have "s' = s" using c by (auto simp: close_fd_def Let_def split: if_splits)
  then show ?thesis using t by simp
next
  case False
  let ?p = "get_pcb s" and ?s1 = "s\<lparr>mem := freed (get_pcb s) fd (mem s)\<rparr>"
  have s': "s' = ?s1"
    using c False call_close_keeps by (auto simp: close_fd_def Let_def bind_eq_Some_conv freed_def)
  have "fd_typed ?s1 ?p fd Unused" using False by (intro fd_typed.unused) simp_all
  then have "table_typed ?s1 ?p"
    by (rule table_typed_at [OF t, rotated -1]) (use False in \<open>simp_all add: freed_outside\<close>)
  then show ?thesis by (simp add: s')
qed

lemma write_drivers_keep:
  assumes "call_write f fd buf n s = Some (r, s')" and "f = Write_terminal \<Longrightarrow> on_screen s \<and> span buf (nat n) \<inter> video = {} \<and> BACKSPACE \<notin> set (rds (mem s) buf (nat n))"
  shows "x \<notin> video \<Longrightarrow> mem s' x = mem s x" and "same_tables s s'"
proof -
  let ?xs = "rds (mem s) buf (nat n)"
  have w: "x \<notin> video \<Longrightarrow> mem (snd (write_terminal fd buf n s)) x = mem s x" "same_tables s (snd (write_terminal fd buf n s))"
    if "f = Write_terminal"
    using assms(2) [OF that] fold_putc_refines(3) [of s ?xs x] same_tables_kernel [OF fold_putc_same_kernel [of s ?xs]]
    by (simp_all add: write_terminal_def write_terminal_fold)
  show "x \<notin> video \<Longrightarrow> mem s' x = mem s x" "same_tables s s'"
    using assms(1) w rtc_calls_keep(3,4) [where s = s and fd = fd and b = buf and n = n]
    by (auto simp: call_write_def file_write_def directory_write_def write_failure_def split: fop.splits)
qed

lemma write_typed:
  assumes t: "table_typed s (get_pcb s)" and w: "write_fd fd buf n s = Some (r, s')"
    and scr: "fd = 1 \<Longrightarrow> on_screen s \<and> span buf (nat n) \<inter> video = {} \<and> BACKSPACE \<notin> set (rds (mem s) buf (nat n))"
    and v: "span (get_pcb s) 128 \<inter> video = {}"
  shows "table_typed s' (get_pcb s) \<and> same_tables s s'"
proof (cases "fd < 0 \<or> fd > 7 \<or> buf = 0 \<or> ld32 (mem s) (pcb_flags (get_pcb s) fd) = 0")
  case True
  then have "s' = s" using w by (auto simp: write_fd_def Let_def split: if_splits)
  then show ?thesis using t by simp
next
  case False
  let ?p = "get_pcb s" and ?s1 = "s\<lparr>temp_fd := fd\<rparr>"
  obtain ty where ty: "fd_typed s ?p fd ty" using table_typedD [OF t, of fd] False by auto
  then have used: "ty \<noteq> Unused" using typed_used False by blast
  then obtain ops where ops: "fops_at s (ld32 (mem s) (pcb_fops ?p fd)) = Some ops" "fop_write ops = writer ty"
    using typed_ops [OF ty _ used] t by (auto simp: table_typed_def)
  have f: "fops_at ?s1 = fops_at s" by (simp add: fops_at_def fun_eq_iff)
  have c: "call_write (writer ty) fd buf n ?s1 = Some (r, s')"
    using w False ops by (simp add: write_fd_def Let_def f)
  have "fd = 1" if "writer ty = Write_terminal" using ty that by cases auto
  then have "on_screen ?s1 \<and> span buf (nat n) \<inter> video = {} \<and> BACKSPACE \<notin> set (rds (mem ?s1) buf (nat n))"
    if "writer ty = Write_terminal" using that scr by (simp add: on_screen_def)
  note k = write_drivers_keep [OF c this]
  have st: "same_tables s s'" using same_tables_trans [OF same_tables_update(3) k(2)] by simp
  show ?thesis
    using table_typed_outside [OF t st] k(1) v st by auto
qed

lemma read_folder_typed:
  assumes "table_typed s p" and "directory_read loc fd buf n s = Some (r, s')"
    and "span loc 40 \<inter> span p 128 = {}" "span buf 33 \<inter> span p 128 = {}"
  shows "table_typed s' p"
proof (rule table_typed_outside [OF assms(1) same_tables_kernel [OF directory_read_kernel [OF assms(2)]]])
  fix x assume "x \<in> span p 128"
  then show "mem s' x = mem s x" using assms(3,4) by (intro directory_read_frame [OF assms(2)]) auto
qed

lemma read_regular_typed:
  assumes t: "table_typed s (get_pcb s)" and ty: "fd_typed s (get_pcb s) fd Regular"
    and room: "span buf (unat (word_of_int n :: u32)) \<inter> span (get_pcb s) 128 = {}"
  shows "table_typed (snd (file_read fd buf n s)) (get_pcb s)"
proof -
  have fd: "0 \<le> fd" "fd \<le> 7" "fd < 8" using typed_range [OF ty] by simp_all
  obtain q m where "file_read fd buf n s = (q, s\<lparr>mem := m\<rparr>)" using file_read_mem_only by blast
  then have st: "same_tables s (snd (file_read fd buf n s))" by simp
  have ft: "fd_typed (snd (file_read fd buf n s)) (get_pcb s) fd Regular"
    by (rule typed_cong [OF ty st]) (rule file_read_keeps [OF room fd(1,3)])+
  show ?thesis
    by (rule table_typed_at [OF t st _ fd(1,2) ft]) (use room in \<open>auto intro!: file_read_frame\<close>)
qed

lemma read_typed:
  assumes t: "table_typed s (get_pcb s)" and r: "read_fd hs loc fd buf n s = Some (r, s')"
    and nowait: "\<not> fd_typed s (get_pcb s) fd Keyboard_in" "\<not> fd_typed s (get_pcb s) fd Clock"
    and room: "span loc 40 \<inter> span (get_pcb s) 128 = {}" "span buf 33 \<inter> span (get_pcb s) 128 = {}"
      "span buf (unat (word_of_int n :: u32)) \<inter> span (get_pcb s) 128 = {}"
  shows "table_typed s' (get_pcb s) \<and> same_tables s s'"
proof (cases "fd < 0 \<or> fd > 7 \<or> buf = 0 \<or> fd = 1 \<or> ld32 (mem s) (pcb_flags (get_pcb s) fd) = 0")
  case True
  then have "s' = sti s" using r by (auto simp: read_fd_def Let_def get_pcb_def sti_def split: if_splits)
  then show ?thesis using table_typed_outside [OF t same_tables_ports(3)] by (simp add: sti_def)
next
  case False
  let ?p = "get_pcb s" and ?s1 = "sti s"
  obtain ty where ty: "fd_typed s ?p fd ty" using table_typedD [OF t, of fd] False by auto
  then have used: "ty \<noteq> Unused" using typed_used False by blast
  then obtain ops where ops: "fops_at s (ld32 (mem s) (pcb_fops ?p fd)) = Some ops" "fop_read ops = reader ty"
    using typed_ops [OF ty _ used] t by (auto simp: table_typed_def)
  have m: "mem ?s1 = mem s" "get_pcb ?s1 = ?p" "fops_at ?s1 = fops_at s"
    by (simp_all add: sti_def get_pcb_def fops_at_def fun_eq_iff)
  have c: "call_read hs loc (reader ty) fd buf n ?s1 = Some (r, s')"
    using r False ops by (simp add: read_fd_def Let_def m)
  have t1: "table_typed ?s1 ?p" by (rule table_typed_outside [OF t same_tables_ports(3)]) (simp add: m)
  have fd: "0 \<le> fd" "fd \<le> 7" "fd < 8" using False by auto
  have "ty = Folder \<or> ty = Regular" using nowait ty used False by (cases ty) (auto elim: fd_typed.cases)
  then show ?thesis
  proof
    assume "ty = Folder"
    then have d: "directory_read loc fd buf n ?s1 = Some (r, s')" using c by (simp add: call_read_def)
    show ?thesis
      using read_folder_typed [OF t1 d room(1,2)]
        same_tables_trans [OF same_tables_ports(3) same_tables_kernel [OF directory_read_kernel [OF d]]] by simp
  next
    assume "ty = Regular"
    then have s': "s' = snd (file_read fd buf n ?s1)" using c by (simp add: call_read_def)
    obtain q m' where m': "file_read fd buf n ?s1 = (q, ?s1\<lparr>mem := m'\<rparr>)" using file_read_mem_only by blast
    have "fd_typed ?s1 ?p fd Regular"
      using \<open>ty = Regular\<close> by (intro typed_cong [OF _ same_tables_ports(3)]) (use ty in \<open>simp_all add: m\<close>)
    from read_regular_typed [of ?s1, unfolded m, OF t1 this room(3)]
    show ?thesis using same_tables_trans [OF same_tables_ports(3) same_tables_update(1)] by (simp add: s' m')
  qed
qed

section \<open>Calls\<close>

text \<open>One call on descriptors that does not wait for a device. \<open>loc\<close> is the kernel's local directory
  entry. A program's buffer does not reach into the control block or, where it is printed, into
  video memory; what is printed holds no backspace, which in the corner of the screen would
  write in front of video memory.\<close>

inductive fd_step :: "u32 \<Rightarrow> 'a process_scheme \<Rightarrow> 'a process_scheme \<Rightarrow> bool" for loc where
  open_step: "open_fd loc f s = Some (r, s') \<Longrightarrow> span loc 40 \<inter> span (get_pcb s) 128 = {} \<Longrightarrow> fd_step loc s s'"
| close_step: "close_fd fd s = Some (r, s') \<Longrightarrow> fd_step loc s s'"
| write_step: "write_fd fd buf n s = Some (r, s') \<Longrightarrow> span (get_pcb s) 128 \<inter> video = {} \<Longrightarrow>
    (fd = 1 \<Longrightarrow> on_screen s \<and> span buf (nat n) \<inter> video = {} \<and> BACKSPACE \<notin> set (rds (mem s) buf (nat n))) \<Longrightarrow>
    fd_step loc s s'"
| read_step: "read_fd hs loc fd buf n s = Some (r, s') \<Longrightarrow> \<not> fd_typed s (get_pcb s) fd Keyboard_in \<Longrightarrow>
    \<not> fd_typed s (get_pcb s) fd Clock \<Longrightarrow> span loc 40 \<inter> span (get_pcb s) 128 = {} \<Longrightarrow>
    span buf 33 \<inter> span (get_pcb s) 128 = {} \<Longrightarrow> span buf (unat (word_of_int n :: u32)) \<inter> span (get_pcb s) 128 = {} \<Longrightarrow>
    fd_step loc s s'"

lemma fd_step_typed: "fd_step loc s s' \<Longrightarrow> table_typed s (get_pcb s) \<Longrightarrow> table_typed s' (get_pcb s) \<and> same_tables s s'"
  by (induction rule: fd_step.induct) (rule open_typed close_typed write_typed read_typed; assumption)+

lemma fd_steps_typed:
  assumes "(fd_step loc)\<^sup>*\<^sup>* s s'" and "table_typed s (get_pcb s)"
  shows "table_typed s' (get_pcb s) \<and> same_tables s s'"
  using assms(1)
proof (induction rule: rtranclp_induct)
  case base
  then show ?case using assms(2) by simp
next
  case (step s1 s2)
  then have "get_pcb s1 = get_pcb s" by (simp add: same_tables_def)
  then show ?case using step fd_step_typed [OF step(2)] same_tables_trans by metis
qed

text \<open>No call is stuck on a typed descriptor.\<close>

lemma typed_read:
  assumes "tables_ready s" and ty: "fd_typed s (get_pcb s) fd t"
  shows "read_fd hs loc fd buf n s =
     (if buf = 0 \<or> t \<in> {Unused, Screen_out} then Some (- 1, sti s) else call_read hs loc (reader t) fd buf n (sti s))"
proof (cases "buf = 0 \<or> t \<in> {Unused, Screen_out}")
  case True
  have "t = Screen_out \<Longrightarrow> fd = 1" using ty by (auto elim: fd_typed.cases)
  then show ?thesis
    using True typed_used [OF ty] by (auto simp: read_fd_def Let_def get_pcb_def sti_def)
next
  case False
  have "fd \<noteq> 1" using ty False by cases auto
  moreover obtain ops where "fops_at s (ld32 (mem s) (pcb_fops (get_pcb s) fd)) = Some ops" "fop_read ops = reader t"
    using typed_ops [OF ty assms(1)] False by auto
  moreover have "mem (sti s) = mem s" "get_pcb (sti s) = get_pcb s" "fops_at (sti s) = fops_at s"
    by (simp_all add: sti_def get_pcb_def fops_at_def fun_eq_iff)
  ultimately show ?thesis
    using False typed_used [OF ty] typed_range [OF ty] by (simp add: read_fd_def Let_def)
qed

text \<open>A read that does not wait returns; the directory's for the zero byte it stores behind the name.\<close>

lemma cstr_exists: "m (a + of_nat n) = 0 \<Longrightarrow> \<exists>xs. cstr m a xs"
proof (induction n arbitrary: a)
  case 0
  then show ?case by (intro exI [of _ "[]"]) simp
next
  case (Suc n)
  show ?case
  proof (cases "m a = 0")
    case True
    then show ?thesis by (intro exI [of _ "[]"]) simp
  next
    case False
    have "m (a + 1 + of_nat n) = 0" using Suc.prems by (simp add: algebra_simps)
    then obtain xs where "cstr m (a + 1) xs" using Suc.IH by blast
    then show ?thesis using False by (intro exI [of _ "m a # xs"]) simp
  qed
qed

lemma typed_read_returns:
  assumes "t \<in> {Folder, Regular}" and "buf \<noteq> 0"
  shows "\<exists>r s'. call_read hs loc (reader t) fd buf n s = Some (r, s')"
proof (cases "t = Regular")
  case True
  then show ?thesis by (simp add: call_read_def)
next
  case False
  define m where "m = (strncpy (copy_dentry loc (direntry (bootblock_addr s) (ucast (num_files_read s))) (mem s)) buf loc FILENAME_LEN)(buf + 32 := 0)"
  have "m (buf + of_nat 32) = 0" by (simp add: m_def)
  then obtain xs where "cstr m buf xs" using cstr_exists by blast
  then have "strlen m buf = Some (of_nat (length xs))" by (rule strlen_cstr)
  then show ?thesis
    using False assms by (auto simp: call_read_def directory_read_def read_dentry_by_index_def Let_def m_def)
qed

lemma typed_write:
  assumes "tables_ready s" and ty: "fd_typed s (get_pcb s) fd t"
  shows "write_fd fd buf n s = (if buf = 0 \<or> t = Unused then Some (- 1, s) else call_write (writer t) fd buf n (s\<lparr>temp_fd := fd\<rparr>))"
    and "t \<noteq> Unused \<Longrightarrow> \<exists>r s'. call_write (writer t) fd buf n (s\<lparr>temp_fd := fd\<rparr>) = Some (r, s')"
proof -
  show "\<exists>r s'. call_write (writer t) fd buf n (s\<lparr>temp_fd := fd\<rparr>) = Some (r, s')" if "t \<noteq> Unused"
    using that by (cases t) (simp_all add: call_write_def)
  show "write_fd fd buf n s = (if buf = 0 \<or> t = Unused then Some (- 1, s) else call_write (writer t) fd buf n (s\<lparr>temp_fd := fd\<rparr>))"
  proof (cases "t = Unused")
    case True
    then show ?thesis using typed_used [OF ty] by (simp add: write_fd_def Let_def)
  next
    case False
    obtain ops where "fops_at s (ld32 (mem s) (pcb_fops (get_pcb s) fd)) = Some ops" "fop_write ops = writer t"
      using typed_ops [OF ty assms(1) False] by auto
    moreover have "fops_at (s\<lparr>temp_fd := fd\<rparr>) = fops_at s" by (simp add: fops_at_def fun_eq_iff)
    ultimately show ?thesis using False typed_used [OF ty] typed_range [OF ty] by (simp add: write_fd_def Let_def)
  qed
qed

lemma typed_close:
  assumes "tables_ready s" and ty: "fd_typed s (get_pcb s) fd t"
  defines "c \<equiv> call_close (closer t) fd (s\<lparr>mem := freed (get_pcb s) fd (mem s)\<rparr>)"
  shows "close_fd fd s = (if fd < 2 \<or> t = Unused then Some (- 1, s) else map_option (\<lambda>(r, s). (0, s)) c)"
    and "2 \<le> fd \<Longrightarrow> t \<noteq> Unused \<Longrightarrow> \<exists>r. c = Some (r, s\<lparr>mem := freed (get_pcb s) fd (mem s)\<rparr>)"
proof -
  let ?p = "get_pcb s"
  have r: "\<exists>r. c = Some (r, s\<lparr>mem := freed ?p fd (mem s)\<rparr>)" if "2 \<le> fd" "t \<noteq> Unused"
    using ty that
    by cases (auto simp: c_def call_close_def file_close_def directory_close_def close_rtc_def)
  then show "2 \<le> fd \<Longrightarrow> t \<noteq> Unused \<Longrightarrow> \<exists>r. c = Some (r, s\<lparr>mem := freed ?p fd (mem s)\<rparr>)" .
  show "close_fd fd s = (if fd < 2 \<or> t = Unused then Some (- 1, s) else map_option (\<lambda>(r, s). (0, s)) c)"
  proof (cases "2 \<le> fd \<and> t \<noteq> Unused")
    case True
    then have u: "ld32 (mem s) (pcb_flags ?p fd) \<noteq> 0" using typed_used [OF ty] by simp
    have "ld32 (mem (s\<lparr>mem := freed ?p fd (mem s)\<rparr>)) (pcb_fops ?p fd) = ld32 (mem s) (pcb_fops ?p fd)"
      by (simp add: freed_def)
    moreover obtain ops where "fops_at s (ld32 (mem s) (pcb_fops ?p fd)) = Some ops" "fop_close ops = closer t"
      using typed_ops [OF ty assms(1)] True by auto
    ultimately show ?thesis
      using True u typed_range [OF ty] r
      by (auto simp: close_fd_def Let_def freed_def c_def)
  next
    case False
    then show ?thesis using typed_used [OF ty] typed_range [OF ty] by (auto simp: close_fd_def Let_def)
  qed
qed

text \<open>A successful \<open>open\<close> ends in the open routine of the type that the new descriptor has.\<close>

lemma typed_open:
  assumes "tables_ready s" and n: "strlen (mem s) f = Some k"
  shows "\<exists>r s'. open_fd loc f s = Some (r, s') \<and> (r \<noteq> - 1 \<longrightarrow> 2 \<le> r \<and> r \<le> 7 \<and>
     (\<exists>t m. t \<in> {Clock, Folder, Regular} \<and> fd_typed s' (get_pcb s) r t \<and> call_open (opener t) f (s\<lparr>mem := m\<rparr>) = Some (0, s')))"
proof (cases "f = 0 \<or> mem s f = 0")
  case False
  then have nz: "f \<noteq> 0" "mem s f \<noteq> 0" by simp_all
  let ?p = "get_pcb s"
  have "\<exists>q s1. read_dentry_by_name f loc s = Some (q, s1)"
    using n by (simp add: read_dentry_by_name_def Let_def case_prod_unfold)
  then obtain q s1 m1 where rd: "read_dentry_by_name f loc s = Some (q, s1)" and s1: "s1 = s\<lparr>mem := m1\<rparr>"
    using read_dentry_mem_only(1) by blast
  define ty where "ty = ld32 (mem s1) (dentry_filetype loc)"
  define i where "i = free_fd (mem s1) ?p"
  note af = open_after_lookup [OF rd nz, folded ty_def i_def]
  show ?thesis
  proof (cases "q = - 1 \<or> i = 8 \<or> ty \<notin> {0, 1, 2}")
    case True
    then show ?thesis using af by auto
  next
    case ok: False
    define t where "t = type_of_file ty"
    define m2 where "m2 = filled loc ?p i ty s1"
    have m2: "s1\<lparr>mem := m2\<rparr> = s\<lparr>mem := m2\<rparr>" by (simp add: s1)
    have i: "2 \<le> i" "i \<le> 7" using ok free_fd_range [of "mem s1" ?p] by (simp_all add: i_def)
    have t: "t \<in> {Clock, Folder, Regular}" by (simp add: t_def type_of_file_def)
    have ft: "fd_typed (s\<lparr>mem := m2\<rparr>) ?p i t" using filled_typed [OF i, where ty = ty and s = s1 and d = loc and p = ?p] ok by (simp add: m2_def [symmetric] m2 t_def)
    obtain ops where ops: "fops_at s1 (fd_table_addr s1 ty) = Some ops" "fop_open ops = opener t"
      using tables_ready_at [OF assms(1), of ty] ok assms(1)
      by (auto simp: s1 t_def type_of_file_def fd_table_addr_def fops_at_def tables_ready_def tables_init_def)
    obtain s' where co: "call_open (opener t) f (s\<lparr>mem := m2\<rparr>) = Some (0, s')"
      using t by (auto simp: call_open_def file_open_def directory_open_def open_rtc_def Let_def case_prod_unfold)
    then have "open_fd loc f s = Some (i, s')" using ok unfolding af m2_def [symmetric] m2 by (simp add: ops)
    moreover have "fd_typed s' ?p i t"
    proof (rule fd_typed.opened [OF i])
      have nu: "t \<noteq> Unused" using t by auto
      have m: "mem s' = m2" using call_open_keeps(1) [OF co] by simp
      show "ld32 (mem s') (pcb_flags ?p i) \<noteq> 0" using typed_used [OF ft] nu by (simp add: m)
      have "type_table t s' = type_table t s" using call_open_keeps(2) [OF co] by (simp add: same_tables_def)
      then show "ld32 (mem s') (pcb_fops ?p i) = type_table t s'" using typed_table [OF ft nu] by (simp add: m)
    qed (rule t)
    ultimately show ?thesis using i t co by blast
  qed
qed (simp add: open_fd_def)

section \<open>The table of a new process\<close>

lemma tables_ready_update_shell [simp]:
  "tables_ready (s\<lparr>running_terminal := t\<rparr>) = tables_ready s" "tables_ready (s\<lparr>terminal_shell := h\<rparr>) = tables_ready s"
  by (simp_all add: tables_ready_def tables_init_def)

lemma tables_ready_same [simp]:
  "tables_ready (assign_terminal n s) = tables_ready s" "tables_ready (page_switch i s) = tables_ready s"
  "tables_ready (finish_pcb fr p n s) = tables_ready s" "tables_ready (sti s) = tables_ready s"
  "tables_ready (s\<lparr>pcb_state := ps\<rparr>) = tables_ready s"
proof -
  show "tables_ready (assign_terminal n s) = tables_ready s"
    unfolding assign_terminal_def Let_def by (auto simp: tables_ready_update_shell split: option.splits)
  show "tables_ready (page_switch i s) = tables_ready s"
    by (subst page_switch_as_update) (simp add: tables_ready_def tables_init_def)
  show "tables_ready (finish_pcb fr p n s) = tables_ready s"
    using finish_pcb_shape [of fr p n s] by (auto simp: tables_ready_def tables_init_def)
qed (simp_all add: sti_def tables_ready_def tables_init_def)

lemma tables_ready_read_data [simp]: "tables_ready (snd (read_data i off buf len s)) = tables_ready s"
proof -
  obtain r m where "read_data i off buf len s = (r, s\<lparr>mem := m\<rparr>)" using read_data_mem_only by blast
  then show ?thesis by simp
qed

lemma start_process_tables:
  assumes "start_process fr entry s = Some (User e s')" and "lowest_slot s k"
  shows "tables_ready s' = tables_ready s"
  using assms unfolding start_process_def take_slot_lowest [OF assms(2)]
  by (auto simp: Let_def bind_eq_Some_conv case_prod_unfold)

lemma task_table_typed:
  assumes "task_ready fr p q stk k as prog s" and "tables_ready s"
  shows "table_typed s p"
proof -
  have "\<exists>t. fd_typed s p fd t" if "0 \<le> fd" "fd \<le> 7" for fd
  proof -
    consider "fd = 0" | "fd = 1" | "2 \<le> fd" using \<open>0 \<le> fd\<close> by linarith
    moreover have "fd_typed s p 0 Keyboard_in" "fd_typed s p 1 Screen_out"
      using assms(1) by (simp_all add: task_ready_def fd_typed.keyboard_in fd_typed.screen_out)
    moreover have "fd_typed s p fd Unused" if "2 \<le> fd"
      using assms(1) \<open>fd \<le> 7\<close> that by (simp add: task_ready_def fd_typed.unused)
    ultimately show ?thesis by metis
  qed
  then show ?thesis using assms(2) by (auto simp: table_typed_def)
qed

lemma table_typed_esp [simp]: "table_typed (s\<lparr>esp := v\<rparr>) p = table_typed s p"
proof -
  have ty: "type_table t (s\<lparr>esp := v\<rparr>) = type_table t s" for t by (cases t) simp_all
  have "fd_typed (s\<lparr>esp := v\<rparr>) p fd t = fd_typed s p fd t" for fd t
    unfolding fd_typed.simps [of _ _ fd] using ty by simp
  then show ?thesis by (simp add: table_typed_def tables_ready_def tables_init_def)
qed

text \<open>The table of a program that \<open>execute\<close> has started is well typed; its calls enter the kernel on
  the stack whose bottom is the new control block.\<close>

lemma execute_starts_typed:
  fixes s :: "'a process_scheme"
  assumes call: "exec_call fr command name args k s" and nf: "names_file (mem s) (bootblock_addr s) name e n"
    and mt: "mounted s" and elf: "elf_bytes (file_bytes (mem s) (bootblock_addr s) n)"
    and slot: "lowest_slot s k" and act: "active_terminal s \<in> {0, 1, 2}"
    and pa: "pcbs_apart (task_pcb (of_nat k)) (get_pcb s)" "unat (get_pcb s) + 292 \<le> 0x8000000"
    and tr: "tables_ready (tables_init s)"
  shows "\<exists>entry s'. execute (fr # frs) command s = Some (User entry s') \<and> table_typed s' (task_pcb (of_nat k))"
proof -
  obtain entry s' where ex: "execute (fr # frs) command s = Some (User (enter_user entry) s')"
    and rd: "task_ready fr (task_pcb (of_nat k)) (get_pcb s) (tss_ss0 s, tss_esp0 s) k (args_of args) (file_bytes (mem s) (bootblock_addr s) n) s'"
    using execute_starts_task [OF call nf mt elf slot act pa] by blast
  obtain entry2 m2 where "execute (fr # frs) command s = start_process fr entry2 ((tables_init s)\<lparr>mem := m2\<rparr>)"
    using execute_reaches_start [OF call nf mt elf slot, of frs] by blast
  then have "start_process fr entry2 ((tables_init s)\<lparr>mem := m2\<rparr>) = Some (User (enter_user entry) s')" using ex by simp
  moreover have "lowest_slot ((tables_init s)\<lparr>mem := m2\<rparr>) k" using slot by (simp add: lowest_slot_def)
  ultimately have "tables_ready s'" using start_process_tables tr by fastforce
  then show ?thesis using ex task_table_typed [OF rd] by blast
qed

section \<open>Type safety\<close>


lemma demo_user_typed: "table_typed demo_user (get_pcb demo_user)"
proof -
  have "\<exists>t. fd_typed demo_user 0x7FE000 fd t" if "0 \<le> fd" "fd \<le> 7" for fd
  proof -
    consider "fd = 0" | "fd = 1" | "2 \<le> fd" using \<open>0 \<le> fd\<close> by linarith
    moreover have "fd_typed demo_user 0x7FE000 0 Keyboard_in" "fd_typed demo_user 0x7FE000 1 Screen_out"
      by (simp_all add: demo_user_flags fd_typed.keyboard_in fd_typed.screen_out)
    moreover have "fd_typed demo_user 0x7FE000 fd Unused" if "2 \<le> fd"
      using demo_user_free [of fd] \<open>fd \<le> 7\<close> that by (simp add: fd_typed.unused)
    ultimately show ?thesis by metis
  qed
  moreover have "tables_ready demo_user" by (simp add: demo_user_def demo_tables_ready)
  ultimately show ?thesis by (simp add: table_typed_def)
qed

lemma demo_user_named: "named_entry 0x6000 0x5000 [97] 1 demo_user"
proof -
  have "span (0x5000 :: u32) 2 \<inter> span 0x7FE000 32 = {}" by (rule span_disjoint_below) simp_all
  then have "cstr demo_user_mem 0x5000 [97] = cstr demo_mem 0x5000 [97]"
    by (intro cstr_cong demo_user_same) (auto simp: numeral_2_eq_2)
  moreover have "dir_name demo_user_mem 0x1000 k = dir_name demo_mem 0x1000 k" if "k < 63" for k
    using that demo_user_image boot_block_in_image [of "0x1000" demo_mem] by (intro dir_name_cong) auto
  ultimately show ?thesis using demo_named_entry by (simp add: named_entry_def demo_names)
qed


end
