(* ===== verification/Fish.thy ===== *)
theory Fish
  imports Blink Fdtype
begin

text \<open>
  The \<open>fish\<close> program, \<open>fish.c\<close>: two text files are read side by side, every position where one of
  them has a character becomes a blinking character of theory Blink, and the program then makes
  the characters blink on four hundred ticks of the clock. Its globals and locals are at the
  addresses of the record \<open>fish_env\<close>; a byte that \<open>read\<close> stores is memory, the counters are not.
\<close>

section \<open>Definitions\<close>

record fish_env =
  globals :: blink_env
  file0 :: u32
  file1 :: u32
  blink_struct :: u32
  ret_val :: u32
  garbage :: u32
  frame_struct :: u32
  char0 :: u32
  char1 :: u32
  ioctl_bp :: u32

abbreviation RTC_ADD :: u32 where "RTC_ADD \<equiv> 0"
abbreviation RTC_REMOVE :: u32 where "RTC_REMOVE \<equiv> 1"
abbreviation RTC_SYNC :: u32 where "RTC_SYNC \<equiv> 3"

definition ece391_halt :: "'a process_scheme user_env \<Rightarrow> u32 \<Rightarrow> 'a process_scheme \<Rightarrow> (int \<times> 'a process_scheme) option" where
  "ece391_halt e code = do_call e 1 code 0 0"

definition fish_ioctl :: "fish_env \<Rightarrow> u32 \<Rightarrow> u32 \<Rightarrow> 'a machine_scheme \<Rightarrow> 'a machine_scheme option" where
  "fish_ioctl h arg cmd s = do {
     (r, m) \<leftarrow> mp1_ioctl (globals h) (ioctl_bp h) arg cmd (mem s);
     Some (s\<lparr>mem := m\<rparr>)
   }"

definition fish_tasklet :: "fish_env \<Rightarrow> 'a machine_scheme \<Rightarrow> 'a machine_scheme option" where
  "fish_tasklet h s = do { m \<leftarrow> mp1_rtc_tasklet (globals h) (mem s); Some (s\<lparr>mem := m\<rparr>) }"

text \<open>The null pointer is 0.\<close>

definition mp1_set_video_mode :: "'a process_scheme user_env \<Rightarrow> fish_env \<Rightarrow> 'a process_scheme \<Rightarrow> (u32 \<times> 'a process_scheme) option" where
  "mp1_set_video_mode e h s = do {
     (r, s) \<leftarrow> ece391_vidmap e (vmem_base_addr (globals h)) s;
     Some (if r = - 1 then 0 else ld32 (mem s) (vmem_base_addr (globals h)), s)
   }"

subsection \<open>The two files\<close>

text \<open>The next character of one of the files, unless its line is at an end already.\<close>

definition next_char :: "'a process_scheme user_env \<Rightarrow> int \<Rightarrow> u32 \<Rightarrow> bool \<Rightarrow> 'a process_scheme
    \<Rightarrow> (bool \<times> 'a process_scheme) option" where
  "next_char e fd c eof s =
     (if mem s c \<noteq> 10 then do {
        (num_bytes, s) \<leftarrow> ece391_read e fd c 1 s;
        Some (if num_bytes = 0 then (True, s\<lparr>mem := (mem s)(c := 10)\<rparr>) else (eof, s))
      }
      else Some (eof, s))"

definition add_char :: "fish_env \<Rightarrow> int \<Rightarrow> int \<Rightarrow> 'a machine_scheme \<Rightarrow> 'a machine_scheme option" where
  "add_char h row col s =
     (let c0 = mem s (char0 h); c1 = mem s (char1 h); b = frame_struct h
      in if (c0 \<noteq> 32 \<and> c0 \<noteq> 10) \<or> (c1 \<noteq> 32 \<and> c1 \<noteq> 10) then
           (let m = (mem s)(ON_CHAR b := if c0 = 10 then 32 else c0);
                m = m(OFF_CHAR b := if c1 = 10 then 32 else c1);
                m = st16 m b (word_of_int (row * 80 + col + 40))
            in fish_ioctl h b RTC_ADD (s\<lparr>mem := m\<rparr>))
         else Some s)"

partial_function (option) add_row :: "'a process_scheme user_env \<Rightarrow> fish_env \<Rightarrow> int \<Rightarrow> int \<Rightarrow> int \<Rightarrow> int \<Rightarrow> bool \<Rightarrow> bool
    \<Rightarrow> 'a process_scheme \<Rightarrow> (bool \<times> bool \<times> 'a process_scheme) option" where
  "add_row e h fd0 fd1 row col eof0 eof1 s = do {
     (eof0, s) \<leftarrow> next_char e fd0 (char0 h) eof0 s;
     (eof1, s) \<leftarrow> next_char e fd1 (char1 h) eof1 s;
     if mem s (char0 h) = 10 \<and> mem s (char1 h) = 10 then Some (eof0, eof1, s)
     else do {
       s \<leftarrow> add_char h row col s;
       add_row e h fd0 fd1 row (col + 1) eof0 eof1 s
     }
   }"

text \<open>At the end of a row a finished file is closed, again at every further row.\<close>

definition end_row :: "'a process_scheme user_env \<Rightarrow> int \<Rightarrow> u32 \<Rightarrow> bool \<Rightarrow> 'a process_scheme \<Rightarrow> 'a process_scheme option" where
  "end_row e fd c eof s =
     (if eof then do {
        (r, s) \<leftarrow> ece391_close e fd (s\<lparr>mem := (mem s)(c := 10)\<rparr>);
        Some s
      }
      else Some (s\<lparr>mem := (mem s)(c := 48)\<rparr>))"

partial_function (option) add_rows :: "'a process_scheme user_env \<Rightarrow> fish_env \<Rightarrow> int \<Rightarrow> int \<Rightarrow> int \<Rightarrow> bool \<Rightarrow> bool
    \<Rightarrow> 'a process_scheme \<Rightarrow> 'a process_scheme option" where
  "add_rows e h fd0 fd1 row eof0 eof1 s =
     (if \<not> eof0 \<or> \<not> eof1 then do {
        (eof0, eof1, s) \<leftarrow> add_row e h fd0 fd1 row 0 eof0 eof1 s;
        s \<leftarrow> end_row e fd0 (char0 h) eof0 s;
        s \<leftarrow> end_row e fd1 (char1 h) eof1 s;
        add_rows e h fd0 fd1 (row + 1) eof0 eof1 s
      }
      else Some s)"

definition or_halt :: "'a process_scheme user_env \<Rightarrow> int \<times> 'a process_scheme \<Rightarrow> (int \<times> 'a process_scheme) option" where
  "or_halt e r = (case r of (fd, s) \<Rightarrow>
     if fd < 0 then do { (v, s) \<leftarrow> ece391_halt e (- 1) s; Some (fd, s) } else Some (fd, s))"

definition add_frames :: "'a process_scheme user_env \<Rightarrow> fish_env \<Rightarrow> u32 \<Rightarrow> u32 \<Rightarrow> 'a process_scheme \<Rightarrow> 'a process_scheme option" where
  "add_frames e h f0 f1 s = do {
     let m = (mem s)(char0 h := 48, char1 h := 48);
     let m = st16 m (ON_LENGTH (frame_struct h)) 15;
     let s = s\<lparr>mem := st16 m (OFF_LENGTH (frame_struct h)) 15\<rparr>;
     r \<leftarrow> ece391_open e f0 s;
     (fd0, s) \<leftarrow> or_halt e r;
     r \<leftarrow> ece391_open e f1 s;
     (fd1, s) \<leftarrow> or_halt e r;
     add_rows e h fd0 fd1 0 False False s
   }"

subsection \<open>The main program\<close>

primrec wait_ticks :: "'a process_scheme user_env \<Rightarrow> fish_env \<Rightarrow> int \<Rightarrow> nat \<Rightarrow> 'a process_scheme \<Rightarrow> 'a process_scheme option" where
  "wait_ticks e h rtc_fd 0 s = Some s"
| "wait_ticks e h rtc_fd (Suc n) s = do {
     (r, s) \<leftarrow> ece391_read e rtc_fd (garbage h) 4 s;
     s \<leftarrow> fish_tasklet h s;
     wait_ticks e h rtc_fd n s
   }"

definition eye :: "fish_env \<Rightarrow> 'a machine_scheme \<Rightarrow> 'a machine_scheme" where
  "eye h s =
     (let b = blink_struct h;
          m = (mem s)(ON_CHAR b := 73);
          m = m(OFF_CHAR b := 77);
          m = st16 m (ON_LENGTH b) 7;
          m = st16 m (OFF_LENGTH b) 6
      in s\<lparr>mem := st16 m b (6 * 80 + 60)\<rparr>)"

definition fish_main :: "'a process_scheme user_env \<Rightarrow> fish_env \<Rightarrow> 'a process_scheme \<Rightarrow> (int \<times> 'a process_scheme) option" where
  "fish_main e h s = do {
     let s = s\<lparr>mem := ece391_memset (blink_array (globals h)) 0 (16 * 80 * 25) (mem s)\<rparr>;
     (v, s) \<leftarrow> mp1_set_video_mode e h s;
     if v = 0 then Some (- 1, s)
     else do {
       (rtc_fd, s) \<leftarrow> ece391_open e (lit e ''rtc'') s;
       s \<leftarrow> add_frames e h (file0 h) (file1 h) s;
       (r, s) \<leftarrow> ece391_write e rtc_fd (ret_val h) 4 (put (ret_val h) 32 s);
       s \<leftarrow> wait_ticks e h rtc_fd 100 (put (ret_val h) (word_of_int r) s);
       s \<leftarrow> fish_ioctl h (blink_struct h) RTC_ADD (eye h s);
       s \<leftarrow> wait_ticks e h rtc_fd 100 s;
       s \<leftarrow> fish_ioctl h (push_bit 16 40 OR (6 * 80 + 60)) RTC_SYNC s;
       s \<leftarrow> wait_ticks e h rtc_fd 100 s;
       s \<leftarrow> fish_ioctl h (6 * 80 + 60) RTC_REMOVE s;
       s \<leftarrow> wait_ticks e h rtc_fd 100 s;
       (r, s) \<leftarrow> ece391_close e rtc_fd s;
       Some (0, s)
     }
   }"

section \<open>Waiting for the clock\<close>

lemma type_table_rtc [simp]: "type_table t (s\<lparr>interrupt_rtc := i\<rparr>) = type_table t s"
  by (cases t) simp_all

lemma same_tables_interrupt [simp]: "same_tables s (s\<lparr>interrupt_rtc := i\<rparr>)" "same_tables s (cli s)"
  by (simp_all add: same_tables_def get_pcb_def tables_ready_def tables_init_def cli_def)

lemma mem_ports [simp]: "mem (outb v p s) = mem s" "mem (snd (inb p s)) = mem s" "mem (send_eoi i s) = mem s"
  "mem (sti s) = mem s" "mem (cli s) = mem s"
  by (simp_all add: outb_def inb_def send_eoi_def sti_def cli_def)

lemma same_tables_eoi [simp]: "same_tables s (send_eoi i s)"
  by (simp add: send_eoi_def outb_def same_tables_def get_pcb_def tables_ready_def tables_init_def)

lemma rtc_handler_keeps: "mem (rtc_handler s) = mem s" "same_tables s (rtc_handler s)"
  by (simp_all add: rtc_handler_def send_eoi_def Let_def case_prod_unfold outb_def inb_def same_tables_def get_pcb_def
      tables_ready_def tables_init_def)

text \<open>The clock interrupts every read first.\<close>

definition clock_runs :: "'a process_scheme user_env \<Rightarrow> bool" where
  "clock_runs e \<longleftrightarrow> (\<forall>s. \<exists>gs. irqs e s = (\<lambda>s. Some (rtc_handler s)) # gs)"

lemma read_rtc_at_once:
  "read_rtc ((\<lambda>s. Some (rtc_handler s)) # gs) fd b n s = Some (0, cli (rtc_handler (sti (s\<lparr>interrupt_rtc := 0\<rparr>))))"
proof -
  have "interrupt_rtc (rtc_handler s) = 1" for s :: "'a rtc_scheme"
    by (simp add: rtc_handler_def Let_def case_prod_unfold send_eoi_def outb_def)
  then show ?thesis
    unfolding read_rtc_def by (simp add: read_rtc_loop.simps [of "_ # _"] read_rtc_loop.simps [of gs] sti_def)
qed

text \<open>A program that has the clock open and a well-formed list, apart from its control block.\<close>

definition clock_ready :: "fish_env \<Rightarrow> int \<Rightarrow> u32 \<Rightarrow> u32 list \<Rightarrow> 'a process_scheme \<Rightarrow> bool" where
  "clock_ready h fd v ns s \<longleftrightarrow> blinks_ok (globals h) v ns (mem s) \<and> tables_ready s \<and> fd_typed s (get_pcb s) fd Clock \<and>
     garbage h \<noteq> 0 \<and> span (get_pcb s) 128 \<inter> span (blink_array (globals h)) 32000 = {} \<and> span (get_pcb s) 128 \<inter> span v 4000 = {}"

lemma clock_ready_keep:
  assumes r: "clock_ready h fd v ns s" and st: "same_tables s s'" and b: "blinks_ok (globals h) v ns (mem s')"
    and same: "\<And>x. x \<in> span (get_pcb s) 128 \<Longrightarrow> mem s' x = mem s x"
  shows "clock_ready h fd v ns s'"
proof -
  have ty: "fd_typed s (get_pcb s) fd Clock" using r by (simp add: clock_ready_def)
  have p: "get_pcb s' = get_pcb s" "tables_ready s' = tables_ready s" using st by (simp_all add: same_tables_def)
  have "fd_typed s' (get_pcb s) fd Clock"
    using typed_same_bytes [OF ty st] same fd_span_in_table [of fd "get_pcb s"] typed_range [OF ty] by force
  then show ?thesis using r b p by (simp add: clock_ready_def)
qed

lemma read_clock_fd:
  assumes tr: "tables_ready s" and ty: "fd_typed s (get_pcb s) fd Clock" and "buf \<noteq> 0" and e: "clock_runs e"
  shows "\<exists>s'. ece391_read e fd buf 4 s = Some (0, s') \<and> mem s' = mem s \<and> same_tables s s' \<and> screen_x s' = screen_x s \<and>
     screen_y s' = screen_y s \<and> stdout_table_addr s' = stdout_table_addr s"
proof -
  have fd: "sint (word_of_int fd :: u32) = fd" using typed_range [OF ty] by (intro sint_word_of_int) simp_all
  obtain gs where i: "irqs e s = (\<lambda>s. Some (rtc_handler s)) # gs" using e by (auto simp: clock_runs_def)
  let ?s1 = "(sti s)\<lparr>interrupt_rtc := 0\<rparr>"
  let ?s' = "cli (rtc_handler (sti ?s1))"
  have "read_fd (irqs e s) (entry_local e) fd buf 4 s = Some (0, ?s')"
    using typed_read [OF tr ty, of "irqs e s" "entry_local e" buf 4] assms(3)
    by (simp add: call_read_def i read_rtc_at_once)
  then have "ece391_read e fd buf 4 s = Some (0, ?s')"
    by (simp add: ece391_read_def do_call_def syscall_def fd)
  moreover have "same_tables s ?s'"
    using same_tables_trans [OF same_tables_ports(3) same_tables_trans [OF same_tables_interrupt(1)
      same_tables_trans [OF same_tables_ports(3) same_tables_trans [OF rtc_handler_keeps(2) same_tables_interrupt(2)]]]] .
  moreover have "screen_x ?s' = screen_x s" "screen_y ?s' = screen_y s" "stdout_table_addr ?s' = stdout_table_addr s"
    by (simp_all add: rtc_handler_def send_eoi_def Let_def case_prod_unfold outb_def inb_def sti_def cli_def)
  ultimately show ?thesis by (intro exI [of _ ?s']) (simp add: rtc_handler_keeps)
qed

lemma read_clock:
  assumes r: "clock_ready h fd v ns s" and e: "clock_runs e"
  shows "\<exists>s'. ece391_read e fd (garbage h) 4 s = Some (0, s') \<and> mem s' = mem s \<and> clock_ready h fd v ns s'"
proof -
  obtain s' where "ece391_read e fd (garbage h) 4 s = Some (0, s')" "mem s' = mem s" "same_tables s s'"
    using read_clock_fd [of s fd "garbage h" e] r e by (auto simp: clock_ready_def)
  then show ?thesis using clock_ready_keep [OF r, of s'] r by (auto simp: clock_ready_def)
qed

text \<open>The screen after \<open>n\<close> ticks of the characters \<open>bs\<close>.\<close>

primrec screen_after :: "u32 \<Rightarrow> nat \<Rightarrow> blink list \<Rightarrow> memory \<Rightarrow> memory" where
  "screen_after v 0 bs m = m"
| "screen_after v (Suc n) bs m = screen_after v n (map tick bs) (fold (tick_screen v) bs m)"

lemma screen_after_cong: "m1 x = m2 x \<Longrightarrow> screen_after v n bs m1 x = screen_after v n bs m2 x"
proof (induction n arbitrary: bs m1 m2)
  case (Suc n)
  have "fold (tick_screen v) bs m1 x = fold (tick_screen v) bs m2 x" using Suc.prems by (rule fold_tick_cong)
  then have "screen_after v n (map tick bs) (fold (tick_screen v) bs m1) x =
    screen_after v n (map tick bs) (fold (tick_screen v) bs m2) x" by (rule Suc.IH)
  then show ?case by simp
qed simp

lemma fish_tasklet_ticks:
  assumes r: "clock_ready h fd v ns s"
  shows "\<exists>s'. fish_tasklet h s = Some s' \<and> clock_ready h fd v ns s' \<and>
     map (blink_at (mem s')) ns = map tick (map (blink_at (mem s)) ns) \<and>
     (\<forall>x \<in> span v 4000. mem s' x = fold (tick_screen v) (map (blink_at (mem s)) ns) (mem s) x)"
proof -
  have ok: "blinks_ok (globals h) v ns (mem s)" using r by (simp add: clock_ready_def)
  then have lay: "blink_layout (globals h) v" by (simp add: blinks_ok_def)
  obtain m where m: "mp1_rtc_tasklet (globals h) (mem s) = Some m" "blinks_ok (globals h) v ns m"
    "map (blink_at m) ns = map tick (map (blink_at (mem s)) ns)"
    "\<And>x. x \<notin> span (blink_array (globals h)) 32000 \<Longrightarrow> m x = fold (tick_screen v) (map (blink_at (mem s)) ns) (mem s) x"
    "\<And>x. x \<notin> span (blink_array (globals h)) 32000 \<Longrightarrow> x \<notin> span v 4000 \<Longrightarrow> m x = mem s x"
    using tasklet_refines [OF ok] by blast
  have "clock_ready h fd v ns (s\<lparr>mem := m\<rparr>)"
    by (rule clock_ready_keep [OF r]) (use r m(2,5) in \<open>auto simp: clock_ready_def\<close>)
  then show ?thesis using m layout_disjoint(1) [OF lay] by (intro exI [of _ "s\<lparr>mem := m\<rparr>"]) (auto simp: fish_tasklet_def)
qed

lemma wait_ticks_run:
  assumes "clock_runs e" and "clock_ready h fd v ns s"
  shows "\<exists>s'. wait_ticks e h fd n s = Some s' \<and> clock_ready h fd v ns s' \<and>
     map (blink_at (mem s')) ns = map (tick ^^ n) (map (blink_at (mem s)) ns) \<and>
     (\<forall>x \<in> span v 4000. mem s' x = screen_after v n (map (blink_at (mem s)) ns) (mem s) x)"
  using assms(2)
proof (induction n arbitrary: s)
  case (Suc n)
  obtain s1 where s1: "ece391_read e fd (garbage h) 4 s = Some (0, s1)" "mem s1 = mem s" "clock_ready h fd v ns s1"
    using read_clock [OF Suc.prems assms(1)] by blast
  obtain s2 where s2: "fish_tasklet h s1 = Some s2" "clock_ready h fd v ns s2"
    "map (blink_at (mem s2)) ns = map tick (map (blink_at (mem s)) ns)"
    "\<And>x. x \<in> span v 4000 \<Longrightarrow> mem s2 x = fold (tick_screen v) (map (blink_at (mem s)) ns) (mem s) x"
    using fish_tasklet_ticks [OF s1(3)] unfolding s1(2) by blast
  obtain s' where s': "wait_ticks e h fd n s2 = Some s'" "clock_ready h fd v ns s'"
    "map (blink_at (mem s')) ns = map (tick ^^ n) (map (blink_at (mem s2)) ns)"
    "\<And>x. x \<in> span v 4000 \<Longrightarrow> mem s' x = screen_after v n (map (blink_at (mem s2)) ns) (mem s2) x"
    using Suc.IH [OF s2(2)] by blast
  have "map (blink_at (mem s')) ns = map (tick ^^ Suc n) (map (blink_at (mem s)) ns)"
    unfolding s'(3) s2(3) by (simp add: funpow_swap1)
  moreover have "mem s' x = screen_after v (Suc n) (map (blink_at (mem s)) ns) (mem s) x" if "x \<in> span v 4000" for x
  proof -
    have "screen_after v n bs (mem s2) x = screen_after v n bs (fold (tick_screen v) (map (blink_at (mem s)) ns) (mem s)) x" for bs
      by (rule screen_after_cong) (rule s2(4) [OF that])
    then show ?thesis using s'(4) [OF that] unfolding s2(3) by simp
  qed
  moreover have "wait_ticks e h fd (Suc n) s = Some s'" using s1(1) s2(1) s'(1) by simp
  ultimately show ?case using s'(2) by blast
qed simp

text \<open>C10: The fish blinks with the clock. With the clock open and the clock interrupt coming while each
  read waits, the loop of \<open>main\<close> that reads the clock \<open>n\<close> times ends; the list is still
  well-formed, every character has made \<open>n\<close> ticks, and the screen shows what the ticks drew.\<close>

theorem fish_blinks_with_clock:
  fixes s :: "'a process_scheme"
  assumes "clock_runs e" and "clock_ready h fd v ns s"
  shows "\<exists>s'. wait_ticks e h fd n s = Some s' \<and> clock_ready h fd v ns s' \<and>
     map (blink_at (mem s')) ns = map (tick ^^ n) (map (blink_at (mem s)) ns) \<and>
     (\<forall>x \<in> span v 4000. mem s' x = screen_after v n (map (blink_at (mem s)) ns) (mem s) x)"
  by (rule wait_ticks_run [OF assms])

section \<open>An example\<close>

definition demo_fish :: fish_env where
  "demo_fish = \<lparr>globals = demo_blink, file0 = 0x8060100, file1 = 0x8060200, blink_struct = 0x8070100, ret_val = 0x8070300,
     garbage = 0x8070304, frame_struct = 0x8070400, char0 = 0x8070500, char1 = 0x8070501, ioctl_bp = 0x8070010\<rparr>"

definition demo_fish_env :: "process user_env" where
  "demo_fish_env = demo_env\<lparr>irqs := (\<lambda>_. [\<lambda>s. Some (rtc_handler s)])\<rparr>"

text \<open>The example process with the clock as descriptor 2 and the program's memory \<open>m\<close>.\<close>

definition demo_clock :: "memory \<Rightarrow> process" where
  "demo_clock m = demo_user\<lparr>mem := (\<lambda>a. if 0x8000000 \<le> a then m a
     else st32 (st32 demo_user_mem (pcb_flags 0x7FE000 2) 1) (pcb_fops 0x7FE000 2) (rtc_table_addr demo_user) a)\<rparr>"

lemma demo_clock_runs: "clock_runs demo_fish_env"
  by (simp add: clock_runs_def demo_fish_env_def)

lemma demo_clock_typed: "tables_ready (demo_clock m) \<and> fd_typed (demo_clock m) 0x7FE000 2 Clock"
proof -
  let ?m = "st32 (st32 demo_user_mem (pcb_flags 0x7FE000 2) 1) (pcb_fops 0x7FE000 2) (rtc_table_addr demo_user)"
  have "mem (demo_clock m) x = ?m x" if "x \<in> span 0x7FE000 128" for x
  proof -
    have "unat (x - 0x7FE000) < 128" using that by (simp add: in_span_unat)
    then have "x < 0x8000000" by unat_arith
    then show ?thesis by (auto simp: demo_clock_def dest: leD)
  qed
  moreover have "fd_span 0x7FE000 2 \<subseteq> span 0x7FE000 128" by (rule fd_span_in_table) simp_all
  ultimately have "ld32 (mem (demo_clock m)) (pcb_flags 0x7FE000 2) = ld32 ?m (pcb_flags 0x7FE000 2)"
    "ld32 (mem (demo_clock m)) (pcb_fops 0x7FE000 2) = ld32 ?m (pcb_fops 0x7FE000 2)"
    using flags_in_fd_span [of "0x7FE000" 2] fops_in_fd_span [of "0x7FE000" 2] by (intro ld32_disjoint; blast)+
  then have "fd_typed (demo_clock m) 0x7FE000 2 Clock"
    by (intro fd_typed.opened) (simp_all add: demo_clock_def)
  then show ?thesis by (simp add: demo_clock_def demo_user_def demo_tables_ready)
qed

lemma demo_clock_high: "0x8000000 \<le> x \<Longrightarrow> mem (demo_clock m) x = m x"
  by (simp add: demo_clock_def)

lemma high_span: "0x8000000 \<le> unat a \<Longrightarrow> unat a + n \<le> 2 ^ 32 \<Longrightarrow> x \<in> span a n \<Longrightarrow> 0x8000000 \<le> x"
proof -
  assume a: "0x8000000 \<le> unat a" "unat a + n \<le> 2 ^ 32" "x \<in> span a n"
  then obtain i where "i < n" "x = a + of_nat i" by (auto simp: in_span_iff)
  then have "unat x = unat a + i" using a(2) unat_add_of_nat32 [of a i] by simp
  then show ?thesis using a(1) by (simp add: word_le_nat_alt)
qed

lemma demo_clock_blinks:
  assumes "blinks_ok demo_blink 0x8400000 ns m"
  shows "blinks_ok demo_blink 0x8400000 ns (mem (demo_clock m))"
proof (rule blinks_ok_cong [OF assms])
  have hi: "mem (demo_clock m) x = m x" if "x \<in> span 0x8060004 4 \<or> x \<in> span 0x8060000 4 \<or> x \<in> span 0x8050000 32000" for x
    using that high_span [of "0x8060004" 4 x] high_span [of "0x8060000" 4 x] high_span [of "0x8050000" 32000 x]
    by (intro demo_clock_high) auto
  show "mem (demo_clock m) x = m x" if "x \<in> span (vmem_base_addr demo_blink) 4" for x using that by (intro hi) (simp add: demo_blink_def)
  show "mem (demo_clock m) x = m x" if "x \<in> span (mp1_list_head demo_blink) 4" for x using that by (intro hi) (simp add: demo_blink_def)
  have sl: "mem (demo_clock m) x = m x" if "p \<in> slots demo_blink" "x \<in> span p 16" for p x
    using slot_span [OF that(1)] that(2) by (intro hi) (auto simp: demo_blink_def)
  show "ld16 (mem (demo_clock m)) p = ld16 m p" if "p \<in> slots demo_blink" for p
    using sl [OF that] in_node(2) [of 0 2 16 _ p] by (intro ld16_cong) simp
  show "ld32 (mem (demo_clock m)) (NEXT p) = ld32 m (NEXT p)" if "p \<in> set ns" for p
    using sl [of p] that assms in_node(2) [of 12 4 16 _ p] by (intro ld32_disjoint) (auto simp: blinks_ok_def)
qed

theorem fish_blinks_with_clock_witness:
  "\<exists>p (s :: process) s'. clock_ready demo_fish 2 0x8400000 [p] s \<and> location (blink_at (mem s) p) = 100 \<and>
     wait_ticks demo_fish_env demo_fish 2 100 s = Some s' \<and> blink_at (mem s') p = (tick ^^ 100) (blink_at (mem s) p)"
proof -
  have b: "location (blink_at demo_blink_mem 0x8070100) = 100" by (simp add: blink_at_def ld16_def demo_blink_mem_def)
  have "slots demo_blink \<noteq> {}" using first_slot by blast
  then obtain p m where p: "blinks_ok demo_blink 0x8400000 [p] m" "blink_at m p = fresh (blink_at demo_blink_mem 0x8070100)"
    using mp1_ioctl_add_inserts(2) [OF demo_blinks_ok demo_add_room(1)] b by auto
  let ?s = "demo_clock m"
  have "span (0x7FE000 :: u32) 128 \<inter> span 0x8050000 32000 = {}" "span (0x7FE000 :: u32) 128 \<inter> span 0x8400000 4000 = {}"
    by (simp_all add: span_apartI)
  moreover have "get_pcb ?s = 0x7FE000" by (simp add: demo_clock_def get_pcb_def demo_user_def demo_process_def)
  ultimately have r: "clock_ready demo_fish 2 0x8400000 [p] ?s"
    using demo_clock_blinks [OF p(1)] demo_clock_typed [of m] by (simp add: clock_ready_def demo_fish_def demo_blink_def)
  have ps: "p \<in> slots demo_blink" using p(1) by (auto simp: blinks_ok_def)
  have "blink_at (mem ?s) p = blink_at m p"
    using slot_span [OF ps] in_node(2) [of 0 12 16 _ p] high_span [of "0x8050000" 32000]
    by (intro blink_at_cong demo_clock_high) (auto simp: demo_blink_def)
  then have "location (blink_at (mem ?s) p) = 100" using p(2) b by (simp add: fresh_def)
  then show ?thesis using fish_blinks_with_clock [OF demo_clock_runs r, of 100] r by auto
qed

end
