(* ===== verification/Grep.thy ===== *)
theory Grep
  imports Programs "HOL-Library.Sublist"
begin

text \<open>
  The program \<open>grep\<close>: for every file of the directory, the lines that hold the argument. A file is read in
  pieces of up to 1024 bytes, and a line that a piece cuts off is moved to the front of the buffer
  before the next piece is read behind it.
\<close>

section \<open>Definitions\<close>

text \<open>The inner loops of \<open>do_one_file\<close>: the end of the line, and the search for the first match in a line.\<close>

function find_line_end :: "memory \<Rightarrow> u32 \<Rightarrow> int \<Rightarrow> int \<Rightarrow> int" where
  "find_line_end m data last' line_end =
     (if line_end < last' \<and> m (data + word_of_int line_end) \<noteq> 10 then find_line_end m data last' (line_end + 1) else line_end)"
  by pat_completeness auto
termination
  by (relation "measure (\<lambda>(m, data, last', i). nat (last' - i))") auto

partial_function (option) search_line :: "'a process_scheme user_env \<Rightarrow> u32 \<Rightarrow> u32 \<Rightarrow> int \<Rightarrow> u32 \<Rightarrow> int \<Rightarrow> int \<Rightarrow> int
    \<Rightarrow> 'a process_scheme \<Rightarrow> 'a process_scheme option" where
  "search_line e pat fname s_len data line_start line_end check s =
     (if check < line_end then
        if mem s pat = mem s (data + word_of_int check) \<and>
           ece391_strncmp (mem s) (data + word_of_int check) pat (word_of_int s_len) = 0 then do {
          s \<leftarrow> ece391_fdputs e 1 fname s;
          s \<leftarrow> ece391_fdputs e 1 (lit e '':'') s;
          s \<leftarrow> ece391_fdputs e 1 (data + word_of_int line_start) s;
          s \<leftarrow> ece391_fdputs e 1 (lit e nl) s;
          Some s
        }
        else search_line e pat fname s_len data line_start line_end (check + 1) s
      else Some s)"

text \<open>The lines of the buffer. The result is the number of bytes that stay for the next piece.\<close>

partial_function (option) scan_lines :: "'a process_scheme user_env \<Rightarrow> u32 \<Rightarrow> u32 \<Rightarrow> int \<Rightarrow> u32 \<Rightarrow> int \<Rightarrow> int \<Rightarrow> int
    \<Rightarrow> 'a process_scheme \<Rightarrow> (int \<times> 'a process_scheme) option" where
  "scan_lines e pat fname s_len data cnt last' line_start s =
     (let line_end = find_line_end (mem s) data last' line_start in
      if mem s (data + word_of_int line_end) \<noteq> 10 \<and> 0 \<noteq> cnt \<and> line_start \<noteq> 0 then do {
        let m = (mem s)(data + word_of_int line_end := 0);
        m \<leftarrow> ece391_strcpy m data (data + word_of_int line_start);
        Some (last' - line_start, s\<lparr>mem := m\<rparr>)
      }
      else do {
        let s = s\<lparr>mem := (mem s)(data + word_of_int line_end := 0)\<rparr>;
        s \<leftarrow> search_line e pat fname s_len data line_start line_end line_start s;
        let line_start = line_end + 1;
        if line_start \<ge> last' then Some (0, s) else scan_lines e pat fname s_len data cnt last' line_start s
      })"

partial_function (option) grep_loop :: "'a process_scheme user_env \<Rightarrow> u32 \<Rightarrow> u32 \<Rightarrow> int \<Rightarrow> u32 \<Rightarrow> int \<Rightarrow> int
    \<Rightarrow> 'a process_scheme \<Rightarrow> (int \<times> 'a process_scheme) option" where
  "grep_loop e pat fname s_len data fd last' s = do {
     (cnt, s) \<leftarrow> ece391_read e fd (data + word_of_int last') (1024 - last') s;
     if cnt = - 1 then do {
       s \<leftarrow> ece391_fdputs e 1 (lit e (''file read failed'' @ nl)) s;
       Some (- 1, s)
     }
     else do {
       let last' = last' + cnt;
       (last', s) \<leftarrow> scan_lines e pat fname s_len data cnt last' 0 s;
       if cnt = 0 then do {
         (r, s) \<leftarrow> ece391_close e fd s;
         if r = - 1 then do {
           s \<leftarrow> ece391_fdputs e 1 (lit e (''file close failed'' @ nl)) s;
           Some (- 1, s)
         }
         else Some (0, s)
       }
       else grep_loop e pat fname s_len data fd last' s
     }
   }"

definition do_one_file :: "'a process_scheme user_env \<Rightarrow> u32 \<Rightarrow> u32 \<Rightarrow> u32 \<Rightarrow> 'a process_scheme \<Rightarrow> (int \<times> 'a process_scheme) option" where
  "do_one_file e data pat fname s = do {
     n \<leftarrow> ece391_strlen (mem s) pat;
     let s_len = sint n;
     (fd, s) \<leftarrow> ece391_open e fname s;
     if fd = - 1 then do {
       s \<leftarrow> ece391_fdputs e 1 (lit e (''file open failed'' @ nl)) s;
       Some (- 1, s)
     }
     else grep_loop e pat fname s_len data fd 0 s
   }"

text \<open>The loop of \<open>main\<close> over the directory; \<open>buf\<close> holds the name of the file.\<close>

partial_function (option) grep_files :: "'a process_scheme user_env \<Rightarrow> u32 \<Rightarrow> u32 \<Rightarrow> u32 \<Rightarrow> int
    \<Rightarrow> 'a process_scheme \<Rightarrow> (int \<times> 'a process_scheme) option" where
  "grep_files e data search buf fd s = do {
     (cnt, s) \<leftarrow> ece391_read e fd buf 32 s;
     if cnt = 0 then Some (0, s)
     else if cnt = - 1 then do {
       s \<leftarrow> ece391_fdputs e 1 (lit e (''directory entry read failed'' @ nl)) s;
       Some (3, s)
     }
     else if mem s buf = 46 then grep_files e data search buf fd s
     else do {
       let s = s\<lparr>mem := (mem s)(buf + word_of_int cnt := 0)\<rparr>;
       (r, s) \<leftarrow> do_one_file e data search buf s;
       if r \<noteq> 0 then Some (3, s) else grep_files e data search buf fd s
     }
   }"

definition grep_main :: "'a process_scheme user_env \<Rightarrow> u32 \<Rightarrow> u32 \<Rightarrow> u32 \<Rightarrow> 'a process_scheme \<Rightarrow> (int \<times> 'a process_scheme) option" where
  "grep_main e data search buf s = do {
     (r, s) \<leftarrow> ece391_getargs e search 1024 s;
     if r \<noteq> 0 then do {
       s \<leftarrow> ece391_fdputs e 1 (lit e (''could not read argument'' @ nl)) s;
       Some (3, s)
     }
     else do {
       (fd, s) \<leftarrow> ece391_open e (lit e ''.'') s;
       if fd = - 1 then do {
         s \<leftarrow> ece391_fdputs e 1 (lit e (''directory open failed'' @ nl)) s;
         Some (2, s)
       }
       else grep_files e data search buf fd s
     }
   }"

declare find_line_end.simps [simp del]

section \<open>What grep prints\<close>

fun text_lines :: "u8 list \<Rightarrow> u8 list list" where
  "text_lines [] = [[]]"
| "text_lines (x # xs) = (if x = 10 then [] # text_lines xs else (case text_lines xs of l # ls \<Rightarrow> (x # l) # ls))"

text \<open>A line matches when it holds the pattern; the empty pattern matches nothing.\<close>

definition line_matches :: "u8 list \<Rightarrow> u8 list \<Rightarrow> bool" where
  "line_matches pat l \<longleftrightarrow> pat \<noteq> [] \<and> sublist pat l"

definition line_report :: "u8 list \<Rightarrow> u8 list \<Rightarrow> u8 list \<Rightarrow> u8 list" where
  "line_report name pat l = (if line_matches pat l then name @ [58] @ l @ [10] else [])"

definition grep_report :: "u8 list \<Rightarrow> u8 list \<Rightarrow> u8 list \<Rightarrow> u8 list" where
  "grep_report name pat bs = concat (map (line_report name pat) (text_lines bs))"

lemma text_lines_nonempty: "text_lines xs \<noteq> []"
  by (induction xs) (auto split: list.splits)

lemma text_lines_one: "10 \<notin> set l \<Longrightarrow> text_lines l = [l]"
  by (induction l) auto

lemma text_lines_step: "10 \<notin> set l \<Longrightarrow> text_lines (l @ 10 # ys) = l # text_lines ys"
  by (induction l) auto

lemma line_report_Nil [simp]: "line_report name pat [] = []"
  by (simp add: line_report_def line_matches_def)

lemma grep_report_one: "10 \<notin> set l \<Longrightarrow> grep_report name pat l = line_report name pat l"
  by (simp add: grep_report_def text_lines_one)

lemma grep_report_step: "10 \<notin> set l \<Longrightarrow> grep_report name pat (l @ 10 # ys) = line_report name pat l @ grep_report name pat ys"
  by (simp add: grep_report_def text_lines_step)

lemma grep_report_Nil [simp]: "grep_report name pat [] = []"
  by (simp add: grep_report_one)

text \<open>No line of a text is as long as the buffer.\<close>

definition short_lines :: "u8 list \<Rightarrow> bool" where
  "short_lines bs \<longleftrightarrow> (\<forall>l \<in> set (text_lines bs). length l < 1024)"

lemma short_lines_step: "10 \<notin> set l \<Longrightarrow> short_lines (l @ 10 # ys) \<Longrightarrow> length l < 1024 \<and> short_lines ys"
  by (simp add: short_lines_def text_lines_step)

lemma short_lines_bound:
  "10 \<notin> set xs \<Longrightarrow> 1024 \<le> length xs \<Longrightarrow> short_lines (xs @ ys) \<Longrightarrow> False"
proof -
  assume a: "10 \<notin> set xs" "1024 \<le> length xs" "short_lines (xs @ ys)"
  have "\<exists>l ls. text_lines (xs @ ys) = l # ls \<and> length xs \<le> length l" using a(1)
  proof (induction xs)
    case Nil
    then show ?case using text_lines_nonempty [of ys] by (cases "text_lines ys") auto
  qed auto
  then show False using a(2,3) by (auto simp: short_lines_def)
qed


section \<open>Searching the buffer\<close>

text \<open>The program printed and the position in the directory stayed.\<close>

definition emits :: "u32 set \<Rightarrow> u8 list \<Rightarrow> 'a process_scheme \<Rightarrow> 'a process_scheme \<Rightarrow> bool" where
  "emits W xs s s' \<longleftrightarrow> prints W xs s s' \<and> num_files_read s' = num_files_read s"

lemma emits_append: "emits W xs s s1 \<Longrightarrow> emits W ys s1 s2 \<Longrightarrow> emits W (xs @ ys) s s2"
  unfolding emits_def using prints_append by auto

lemma emits_mono: "emits V xs s s' \<Longrightarrow> V \<subseteq> W \<Longrightarrow> emits W xs s s'"
  unfolding emits_def using prints_mono by auto

definition grep_area :: "'a process_scheme user_env \<Rightarrow> u32 \<Rightarrow> u32 \<Rightarrow> u32 set" where
  "grep_area e p data = span (entry_local e) 40 \<union> span p 128 \<union> span data 1025 \<union> video"

text \<open>The strings \<open>grep\<close> works with are in memory, apart from what changes while it runs.\<close>

definition grep_string :: "'a process_scheme user_env \<Rightarrow> u32 \<Rightarrow> u32 \<Rightarrow> u8 list \<Rightarrow> 'a process_scheme \<Rightarrow> bool" where
  "grep_string e data a xs s \<longleftrightarrow> cstr (mem s) a xs \<and> a \<noteq> 0 \<and> length xs < 2 ^ 31 \<and>
     span a (Suc (length xs)) \<inter> grep_area e (get_pcb s) data = {}"

definition grep_ready :: "'a process_scheme user_env \<Rightarrow> u32 \<Rightarrow> u8 list \<Rightarrow> u32 \<Rightarrow> u8 list \<Rightarrow> u32 \<Rightarrow> 'a process_scheme \<Rightarrow> bool" where
  "grep_ready e pat ps fname ns data s \<longleftrightarrow> stdout_ready s \<and> grep_string e data pat ps s \<and> grep_string e data fname ns s \<and>
     grep_string e data (lit e '':'') [58] s \<and> grep_string e data (lit e nl) [10] s \<and> BACKSPACE \<notin> set ns \<and>
     0 \<notin> span data 1025 \<and> span data 1025 \<inter> (span (get_pcb s) 128 \<union> video) = {}"

lemma grep_string_step:
  assumes "grep_string e data a xs s" and pr: "prints W out s s'" and W: "W \<subseteq> grep_area e (get_pcb s) data"
  shows "grep_string e data a xs s'"
proof -
  have k: "same_kernel s s'" using pr by (simp add: prints_def)
  have "span a (Suc (length xs)) \<inter> W = {}" using assms(1) W by (auto simp: grep_string_def)
  then have "cstr (mem s') a xs" using prints_cstr [OF pr] assms(1) by (simp add: grep_string_def)
  then show ?thesis using assms(1) by (simp add: grep_string_def same_kernel_fields [OF k])
qed

lemma grep_ready_step:
  assumes r: "grep_ready e pat ps fname ns data s" and pr: "prints W out s s'"
    and W: "W \<subseteq> grep_area e (get_pcb s) data" "W \<inter> fd_span (get_pcb s) 1 = {}"
  shows "grep_ready e pat ps fname ns data s'"
proof -
  have k: "same_kernel s s'" using pr by (simp add: prints_def)
  have "stdout_ready s'" using prints_stdout_ready [OF pr] r W(2) by (auto simp: grep_ready_def)
  then show ?thesis using r grep_string_step [OF _ pr W(1)] by (simp add: grep_ready_def same_kernel_fields [OF k])
qed

lemma fd_1_apart: "grep_ready e pat ps fname ns data s \<Longrightarrow> (span data 1025 \<union> video) \<inter> fd_span (get_pcb s) 1 = {}"
  using fd_span_in_table [of 1 "get_pcb s"] by (auto simp: grep_ready_def stdout_ready_def)

text \<open>A store into the buffer.\<close>

lemma buffer_store:
  assumes r: "grep_ready e pat ps fname ns data s" and m: "\<And>x. x \<notin> span data 1025 \<Longrightarrow> m x = mem s x"
  shows "emits (span data 1025) [] s (s\<lparr>mem := m\<rparr>)" "grep_ready e pat ps fname ns data (s\<lparr>mem := m\<rparr>)"
proof -
  have "span data 1025 \<inter> video = {}" "on_screen s" using r by (auto simp: grep_ready_def stdout_ready_def)
  moreover from this have "tty_of (s\<lparr>mem := m\<rparr>) = tty_of s" by (intro tty_of_mem m) blast
  ultimately have p: "prints (span data 1025) [] s (s\<lparr>mem := m\<rparr>)" using m by (simp add: prints_def on_screen_def)
  then show "emits (span data 1025) [] s (s\<lparr>mem := m\<rparr>)" by (simp add: emits_def)
  show "grep_ready e pat ps fname ns data (s\<lparr>mem := m\<rparr>)"
    by (rule grep_ready_step [OF r p]) (use fd_1_apart [OF r] in \<open>auto simp: grep_area_def\<close>)
qed

text \<open>Printing a string.\<close>

lemma grep_puts:
  assumes r: "grep_ready e pat ps fname ns data s" and c: "cstr (mem s) a xs" "a \<noteq> 0" "length xs < 2 ^ 31"
    "span a (length xs) \<inter> video = {}" "BACKSPACE \<notin> set xs"
  shows "\<exists>s'. ece391_fdputs e 1 a s = Some s' \<and> emits video xs s s' \<and> grep_ready e pat ps fname ns data s'"
proof -
  have "stdout_ready s" using r by (simp add: grep_ready_def)
  from fdputs_stdout [OF this c] obtain s' where "ece391_fdputs e 1 a s = Some s'" "emits video xs s s'"
    by (auto simp: emits_def)
  moreover from this have "grep_ready e pat ps fname ns data s'"
    using grep_ready_step [OF r, of video] fd_1_apart [OF r] by (auto simp: emits_def grep_area_def)
  ultimately show ?thesis by blast
qed

lemma grep_puts_string:
  assumes r: "grep_ready e pat ps fname ns data s" and a: "grep_string e data a xs s" "BACKSPACE \<notin> set xs"
  shows "\<exists>s'. ece391_fdputs e 1 a s = Some s' \<and> emits video xs s s' \<and> grep_ready e pat ps fname ns data s'"
proof (rule grep_puts [OF r])
  show "span a (length xs) \<inter> video = {}"
    using a(1) span_mono [of "length xs" "Suc (length xs)" a] by (auto simp: grep_string_def grep_area_def)
qed (use a in \<open>auto simp: grep_string_def\<close>)

lemma buffer_index: "0 \<notin> span data 1025 \<Longrightarrow> i \<le> 1024 \<Longrightarrow> data + of_nat i \<noteq> 0"
  by (metis in_spanI less_Suc_eq_le numeral_eq_Suc Suc_numeral semiring_norm(5) add_One)

lemma emits_buffer_cstr:
  assumes "emits video out s s'" and "cstr (mem s) (data + of_nat i) l" and "i + length l \<le> 1024" and "span data 1025 \<inter> video = {}"
  shows "cstr (mem s') (data + of_nat i) l"
proof -
  have "span (data + of_nat i) (Suc (length l)) \<subseteq> span data 1025" by (rule sub_span) (use assms(3) in simp)
  then show ?thesis using prints_cstr [of video out s s' "data + of_nat i" l] assms by (auto simp: emits_def)
qed


lemma find_line_end_offset:
  "i \<le> n \<Longrightarrow> find_line_end m data (int n) (int i) = int (i + length (takeWhile (\<lambda>b. b \<noteq> 10) (drop i (rds m data n))))"
proof (induction "n - i" arbitrary: i)
  case 0
  then show ?case by (subst find_line_end.simps) simp
next
  case (Suc k)
  then have i: "i < n" by simp
  then have d: "drop i (rds m data n) = m (data + of_nat i) # drop (Suc i) (rds m data n)"
    by (simp add: Cons_nth_drop_Suc [symmetric])
  have "find_line_end m data (int n) (int i + 1) = int (Suc i + length (takeWhile (\<lambda>b. b \<noteq> 10) (drop (Suc i) (rds m data n))))"
    using Suc.hyps(1) [of "Suc i"] Suc.hyps(2) i by (simp add: add.commute)
  then show ?case using i by (subst find_line_end.simps) (simp add: d)
qed

text \<open>The search of a line prints it once if the pattern is somewhere in it.\<close>

definition match_from :: "u8 list \<Rightarrow> u8 list \<Rightarrow> nat \<Rightarrow> bool" where
  "match_from ps l k \<longleftrightarrow> ps \<noteq> [] \<and> (\<exists>j. k \<le> j \<and> j < length l \<and> take (length ps) (drop j l) = ps)"

lemma match_from_0: "match_from ps l 0 = line_matches ps l"
proof -
  have "(\<exists>j < length l. take (length ps) (drop j l) = ps) \<longleftrightarrow> sublist ps l" if "ps \<noteq> []"
  proof
    assume "\<exists>j < length l. take (length ps) (drop j l) = ps"
    then obtain j where "take (length ps) (drop j l) = ps" by blast
    then have "l = take j l @ ps @ drop (length ps) (drop j l)" by (metis append_take_drop_id)
    then show "sublist ps l" unfolding sublist_def by blast
  next
    assume "sublist ps l"
    then obtain as bs where "l = as @ ps @ bs" by (auto simp: sublist_def)
    then show "\<exists>j < length l. take (length ps) (drop j l) = ps" using that by (intro exI [of _ "length as"]) simp
  qed
  then show ?thesis by (auto simp: match_from_def line_matches_def)
qed

lemma match_from_step:
  assumes "k < length l"
  shows "match_from ps l k \<longleftrightarrow> ps \<noteq> [] \<and> take (length ps) (drop k l) = ps \<or> match_from ps l (Suc k)"
proof -
  have "(\<exists>j. k \<le> j \<and> P j) \<longleftrightarrow> P k \<or> (\<exists>j. Suc k \<le> j \<and> P j)" for P by (metis Suc_le_eq le_less)
  from this [of "\<lambda>j. j < length l \<and> take (length ps) (drop j l) = ps"] show ?thesis
    using assms by (auto simp: match_from_def)
qed

lemma cstr_drop: "cstr m a l \<Longrightarrow> k \<le> length l \<Longrightarrow> cstr m (a + of_nat k) (drop k l)"
  using cstr_append [of m a "take k l" "drop k l"] by (simp add: min.absorb2)

lemma line_check:
  assumes c: "cstr m a l" and p: "cstr m pat ps" "length ps < 2 ^ 31" and k: "k < length l"
  shows "m pat = m (a + of_nat k) \<and> ece391_strncmp m (a + of_nat k) pat (of_nat (length ps)) = 0 \<longleftrightarrow>
     ps \<noteq> [] \<and> take (length ps) (drop k l) = ps"
proof -
  have d: "cstr m (a + of_nat k) (drop k l)" using cstr_drop [OF c] k by simp
  have x: "m (a + of_nat k) = l ! k" "l ! k \<noteq> 0"
    using d k cstr_nonzero [OF c] by (auto simp: Cons_nth_drop_Suc [symmetric] nth_mem)
  have n: "ece391_strncmp m (a + of_nat k) pat (of_nat (length ps)) = 0 \<longleftrightarrow> take (length ps) (drop k l) = ps"
    by (rule ece391_strncmp_prefix [OF d p(1)]) (use p(2) in simp)
  show ?thesis
  proof (cases ps)
    case Nil
    then show ?thesis using p(1) x by auto
  next
    case (Cons y ys)
    then have "m pat = y" using p(1) by simp
    then show ?thesis using n x(1) k Cons by (auto simp: Cons_nth_drop_Suc [symmetric])
  qed
qed

lemma search_line_reports:
  assumes r: "grep_ready e pat ps fname ns data s" and c: "cstr (mem s) (data + of_nat ls) l" "ls + length l \<le> 1024"
    and bs: "BACKSPACE \<notin> set l" and k: "k \<le> length l"
  shows "\<exists>s'. search_line e pat fname (int (length ps)) data (int ls) (int (ls + length l)) (int (ls + k)) s = Some s' \<and>
     emits video (if match_from ps l k then ns @ [58] @ l @ [10] else []) s s' \<and> grep_ready e pat ps fname ns data s'"
  using k
proof (induction "length l - k" arbitrary: k)
  case 0
  then have "\<not> match_from ps l k" by (auto simp: match_from_def)
  moreover have "emits video [] s s" using r by (simp add: emits_def prints_Nil grep_ready_def stdout_ready_def)
  ultimately show ?case using 0 r by (subst search_line.simps) auto
next
  case (Suc n)
  then have k: "k < length l" by simp
  have p: "cstr (mem s) pat ps" "length ps < 2 ^ 31" using r by (simp_all add: grep_ready_def grep_string_def)
  have a: "data + of_nat ls + of_nat k = data + word_of_int (int (ls + k))" by simp
  note chk = line_check [OF c(1) p k, unfolded a]
  have d: "span data 1025 \<inter> video = {}" "0 \<notin> span data 1025" using r by (auto simp: grep_ready_def)
  show ?case
  proof (cases "ps \<noteq> [] \<and> take (length ps) (drop k l) = ps")
    case True
    then have m: "match_from ps l k" using match_from_step [OF k] by blast
    obtain s1 where s1: "ece391_fdputs e 1 fname s = Some s1" "emits video ns s s1" "grep_ready e pat ps fname ns data s1"
      using grep_puts_string [OF r, of fname ns] r by (auto simp: grep_ready_def)
    obtain s2 where s2: "ece391_fdputs e 1 (lit e '':'') s1 = Some s2" "emits video [58] s1 s2" "grep_ready e pat ps fname ns data s2"
      using grep_puts_string [OF s1(3), of "lit e '':''" "[58]"] s1(3) by (auto simp: grep_ready_def)
    have "cstr (mem s2) (data + of_nat ls) l"
      by (rule emits_buffer_cstr [OF emits_append [OF s1(2) s2(2)] c d(1)])
    moreover have "span (data + of_nat ls) (length l) \<inter> video = {}"
      using sub_span [of ls "length l" 1025 data] c(2) d(1) by auto
    moreover have "data + of_nat ls \<noteq> 0" by (rule buffer_index [OF d(2)]) (use c(2) in simp)
    ultimately obtain s3 where s3: "ece391_fdputs e 1 (data + of_nat ls) s2 = Some s3" "emits video l s2 s3" "grep_ready e pat ps fname ns data s3"
      using grep_puts [OF s2(3), of "data + of_nat ls" l] bs c(2) by auto
    obtain s4 where s4: "ece391_fdputs e 1 (lit e nl) s3 = Some s4" "emits video [10] s3 s4" "grep_ready e pat ps fname ns data s4"
      using grep_puts_string [OF s3(3), of "lit e nl" "[10]"] s3(3) by (auto simp: grep_ready_def)
    have "emits video (ns @ [58] @ l @ [10]) s s4"
      using emits_append [OF s1(2) emits_append [OF s2(2) emits_append [OF s3(2) s4(2)]]] by simp
    moreover have "search_line e pat fname (int (length ps)) data (int ls) (int (ls + length l)) (int (ls + k)) s = Some s4"
      using True chk k s1(1) s2(1) s3(1) s4(1) by (subst search_line.simps) simp
    ultimately show ?thesis using m s4(3) by auto
  next
    case False
    then have "(mem s pat = mem s (data + word_of_int (int (ls + k))) \<and>
        ece391_strncmp (mem s) (data + word_of_int (int (ls + k))) pat (word_of_int (int (length ps))) = 0) = False"
      using chk by simp
    moreover have "(int (ls + k) < int (ls + length l)) = True" "int (ls + k) + 1 = int (ls + Suc k)" using k by simp_all
    ultimately have "search_line e pat fname (int (length ps)) data (int ls) (int (ls + length l)) (int (ls + k)) s =
        search_line e pat fname (int (length ps)) data (int ls) (int (ls + length l)) (int (ls + Suc k)) s"
      by (subst search_line.simps) (simp only: if_True if_False)
    moreover have "match_from ps l k = match_from ps l (Suc k)" using match_from_step [OF k, of ps] False by blast
    moreover have "n = length l - Suc k" "Suc k \<le> length l" using Suc.hyps(2) k by simp_all
    ultimately show ?thesis using Suc.hyps(1) [of "Suc k"] by (simp only:)
  qed
qed

text \<open>The copy to a lower address may overlap its source.\<close>

lemma ece391_strcpy_down:
  assumes "cstr m (dst + of_nat k) xs" and "0 < k" and "k + length xs < 2 ^ 32"
  shows "ece391_strcpy m dst (dst + of_nat k) = Some (wrs m dst (xs @ [0]))"
  using assms
proof (induction xs arbitrary: m dst)
  case Nil
  then show ?case by (subst ece391_strcpy.simps) simp
next
  case (Cons x xs)
  have "span dst 1 \<inter> span (dst + of_nat (Suc k)) (Suc (length xs)) = {}"
    by (rule span_disjoint_offset) (use Cons.prems in auto)
  then have "dst \<notin> span (dst + of_nat k + 1) (Suc (length xs))" by (auto simp: span_Cons add.commute add.left_commute)
  then have "cstr (m(dst := x)) (dst + of_nat k + 1) xs = cstr m (dst + of_nat k + 1) xs" by (intro cstr_cong) auto
  with Cons.prems Cons.IH [of "m(dst := x)" "dst + 1"] show ?case
    by (subst ece391_strcpy.simps) (simp add: add.commute add.left_commute)
qed


section \<open>Scanning the buffer\<close>

text \<open>The buffer holds the bytes \<open>B\<close>, of which the first \<open>ls\<close> are done, and no newline in its last byte, which no read reaches.\<close>

definition buffer_holds :: "memory \<Rightarrow> u32 \<Rightarrow> nat \<Rightarrow> u8 list \<Rightarrow> bool" where
  "buffer_holds m data ls B \<longleftrightarrow> length B \<le> 1024 \<and> ls \<le> length B \<and> rds m data (length B) = B \<and> 0 \<notin> set (drop ls B) \<and>
     BACKSPACE \<notin> set (drop ls B) \<and> m (data + 1024) \<noteq> 10"

lemma buffer_byte: "buffer_holds m data ls B \<Longrightarrow> i < length B \<Longrightarrow> m (data + of_nat i) = B ! i"
  by (metis buffer_holds_def nth_rds)

lemma buffer_slots: "i \<le> 1024 \<Longrightarrow> j \<le> 1024 \<Longrightarrow> (data :: u32) + of_nat i = data + of_nat j \<longleftrightarrow> i = j"
  by (simp add: word_of_nat_eq_iff)

text \<open>A line of the buffer, once a zero byte is stored behind it, is a string.\<close>

lemma line_string:
  assumes b: "buffer_holds m data ls B" and l: "ls + length l \<le> length B" "take (length l) (drop ls B) = l"
  shows "cstr (m(data + of_nat (ls + length l) := 0)) (data + of_nat ls) l"
proof (rule cstr_of_rds)
  let ?m = "m(data + of_nat (ls + length l) := 0)"
  have n: "length B \<le> 1024" using b by (simp add: buffer_holds_def)
  show "rds ?m (data + of_nat ls) (length l) = l"
  proof (rule nth_equalityI)
    fix i assume i: "i < length (rds ?m (data + of_nat ls) (length l))"
    then have "m (data + of_nat (ls + i)) = B ! (ls + i)" using b l(1) by (intro buffer_byte) auto
    also have "\<dots> = l ! i" using i l by (metis length_rds nth_drop nth_take add_leD1)
    finally have "m (data + of_nat (ls + i)) = l ! i" .
    moreover have "data + of_nat (ls + i) \<noteq> data + of_nat (ls + length l)" using buffer_slots [of "ls + i" "ls + length l" data] i l(1) n by simp
    ultimately show "rds ?m (data + of_nat ls) (length l) ! i = l ! i" using i by (simp add: add.assoc)
  qed simp
  have "set l \<subseteq> set (drop ls B)" using l(2) by (metis set_take_subset)
  then show "0 \<notin> set l" using b by (auto simp: buffer_holds_def)
  show "?m (data + of_nat ls + of_nat (length l)) = 0" by (simp add: add.assoc)
qed

text \<open>One line is searched and the zero byte behind it stored.\<close>

lemma line_done:
  assumes r: "grep_ready e pat ps fname ns data s" and b: "buffer_holds (mem s) data ls B"
    and l: "ls + length l \<le> length B" "take (length l) (drop ls B) = l"
  shows "\<exists>s'. search_line e pat fname (int (length ps)) data (int ls) (int (ls + length l)) (int ls)
       (s\<lparr>mem := (mem s)(data + of_nat (ls + length l) := 0)\<rparr>) = Some s' \<and>
     emits (span data 1025 \<union> video) (line_report ns ps l) s s' \<and> grep_ready e pat ps fname ns data s' \<and>
     (\<forall>i \<le> 1024. mem s' (data + of_nat i) = (if i = ls + length l then 0 else mem s (data + of_nat i)))"
proof -
  let ?m = "(mem s)(data + of_nat (ls + length l) := 0)"
  have n: "ls + length l \<le> 1024" using b l(1) by (simp add: buffer_holds_def)
  have d: "span data 1025 \<inter> video = {}" using r by (auto simp: grep_ready_def)
  have "data + of_nat (ls + length l) \<in> span data 1025" by (rule in_spanI) (use n in simp)
  then have "?m x = mem s x" if "x \<notin> span data 1025" for x using that by auto
  note st = buffer_store [OF r this]
  have bs: "BACKSPACE \<notin> set l" using b l(2) by (metis buffer_holds_def in_set_takeD)
  have c: "cstr (mem (s\<lparr>mem := ?m\<rparr>)) (data + of_nat ls) l" using line_string [OF b l] by simp
  obtain s' where s': "search_line e pat fname (int (length ps)) data (int ls) (int (ls + length l)) (int (ls + 0)) (s\<lparr>mem := ?m\<rparr>) = Some s'"
      "emits video (if match_from ps l 0 then ns @ [58] @ l @ [10] else []) (s\<lparr>mem := ?m\<rparr>) s'" "grep_ready e pat ps fname ns data s'"
    using search_line_reports [OF st(2) c n bs le0] by blast
  have "(if match_from ps l 0 then ns @ [58] @ l @ [10] else []) = line_report ns ps l"
    by (simp add: match_from_0 line_report_def)
  with s'(2) have e: "emits video (line_report ns ps l) (s\<lparr>mem := ?m\<rparr>) s'" by simp
  have "emits (span data 1025 \<union> video) ([] @ line_report ns ps l) s s'"
    by (rule emits_append [OF emits_mono [OF st(1)] emits_mono [OF e]]) auto
  moreover have "mem s' (data + of_nat i) = (if i = ls + length l then 0 else mem s (data + of_nat i))" if "i \<le> 1024" for i
  proof -
    have "data + of_nat i \<in> span data 1025" by (rule in_spanI) (use that in simp)
    then have "mem s' (data + of_nat i) = ?m (data + of_nat i)" using e d by (auto simp: emits_def prints_def)
    then show ?thesis using buffer_slots [OF that n, of data] by (simp del: of_nat_add)
  qed
  ultimately show ?thesis using s'(1,3) by auto
qed


text \<open>The line that the piece cuts off moves to the front.\<close>

lemma line_moves:
  assumes b: "buffer_holds m data ls B" and ls: "0 < ls"
  defines "T \<equiv> drop ls B" and "m1 \<equiv> m(data + of_nat (length B) := 0)"
  shows "ece391_strcpy m1 data (data + of_nat ls) = Some (wrs m1 data (T @ [0]))" "buffer_holds (wrs m1 data (T @ [0])) data 0 T"
proof -
  have lb: "length B \<le> 1024" "ls \<le> length B" and z: "0 \<notin> set T" "BACKSPACE \<notin> set T" using b by (simp_all add: buffer_holds_def T_def)
  have l: "ls + length T = length B" using lb by (simp add: T_def)
  have "cstr m1 (data + of_nat ls) T"
    using line_string [OF b, of T] l unfolding m1_def by (simp add: T_def)
  then show "ece391_strcpy m1 data (data + of_nat ls) = Some (wrs m1 data (T @ [0]))"
    by (rule ece391_strcpy_down) (use ls lb l in auto)
  let ?m = "wrs m1 data (T @ [0])"
  have n: "Suc (length T) \<le> 1024" using ls lb l by simp
  have "rds ?m data (length (T @ [0])) = T @ [0]" using n by (intro rds_wrs) simp
  then have "rds ?m data (length T) = T" using rds_append [of ?m data "length T" 1] by simp
  moreover have "?m (data + 1024) \<noteq> 10"
  proof -
    have "data + of_nat 1024 \<noteq> data + of_nat j" if "j < length (T @ [0])" for j
      using buffer_slots [of 1024 j data] that n by auto
    then have "data + 1024 \<notin> span data (length (T @ [0]))" by (auto simp: in_span_iff)
    then show ?thesis using b by (simp add: wrs_other m1_def buffer_holds_def)
  qed
  ultimately show "buffer_holds ?m data 0 T" using z n by (simp add: buffer_holds_def)
qed

lemma buffer_empty: "m (data + 1024) \<noteq> 10 \<Longrightarrow> buffer_holds m data 0 []"
  by (simp add: buffer_holds_def)

lemma drop_behind:
  assumes "drop k xs = l @ x # r"
  shows "drop (Suc (k + length l)) (xs[k + length l := y]) = r"
proof -
  have "drop (Suc (k + length l)) xs = drop (Suc (length l)) (drop k xs)" by (simp add: add.commute)
  then show ?thesis using assms by (simp add: drop_update_cancel)
qed

lemma buffer_advance:
  assumes b: "buffer_holds m data ls B" and T: "drop ls B = l @ 10 # r"
    and m': "\<And>i. i \<le> 1024 \<Longrightarrow> m' (data + of_nat i) = (if i = ls + length l then 0 else m (data + of_nat i))"
  defines "B' \<equiv> B[ls + length l := 0]"
  shows "buffer_holds m' data (Suc (ls + length l)) B'"
proof -
  have r: "drop (Suc (ls + length l)) B' = r" unfolding B'_def by (rule drop_behind [OF T])
  have n: "length B \<le> 1024" "ls \<le> length B" using b by (simp_all add: buffer_holds_def)
  then have len: "length B = ls + length l + Suc (length r)" using T by (metis add.assoc le_add_diff_inverse length_Cons length_append length_drop)
  have "rds m' data (length B') = B'"
  proof (rule nth_equalityI)
    fix i assume "i < length (rds m' data (length B'))"
    then have i: "i < length B" by (simp add: B'_def)
    then show "rds m' data (length B') ! i = B' ! i"
      using m' [of i] buffer_byte [OF b i] n len by (simp add: B'_def nth_list_update)
  qed (simp add: B'_def)
  moreover have "m' (data + 1024) \<noteq> 10" using m' [of 1024] b by (simp add: buffer_holds_def)
  moreover have "set r \<subseteq> set (drop ls B)" by (auto simp: T)
  ultimately show "buffer_holds m' data (Suc (ls + length l)) B'"
    using b n len unfolding buffer_holds_def r by (auto simp: B'_def)
qed


lemma scan_lines_last:
  assumes r: "grep_ready e pat ps fname ns data s" and b: "buffer_holds (mem s) data ls B" and n: "10 \<notin> set (drop ls B)"
    and c: "cnt = 0 \<or> ls = 0 \<or> mem s (data + of_nat (length B)) = 10"
  shows "\<exists>s'. scan_lines e pat fname (int (length ps)) data cnt (int (length B)) (int ls) s = Some (0, s') \<and>
     emits (span data 1025 \<union> video) (line_report ns ps (drop ls B)) s s' \<and> grep_ready e pat ps fname ns data s' \<and> buffer_holds (mem s') data 0 []"
proof -
  let ?l = "drop ls B"
  have ls: "ls \<le> length B" "ls + length ?l = length B" using b by (auto simp: buffer_holds_def)
  have tw: "takeWhile (\<lambda>b. b \<noteq> 10) ?l = ?l" using n by (auto simp: takeWhile_eq_all_conv)
  have rd: "rds (mem s) data (length B) = B" using b by (simp add: buffer_holds_def)
  have le: "find_line_end (mem s) data (int (length B)) (int ls) = int (ls + length ?l)"
    using find_line_end_offset [OF ls(1), of "mem s" data] tw rd by simp
  obtain s' where s': "search_line e pat fname (int (length ps)) data (int ls) (int (ls + length ?l)) (int ls)
       (s\<lparr>mem := (mem s)(data + of_nat (ls + length ?l) := 0)\<rparr>) = Some s'"
     "emits (span data 1025 \<union> video) (line_report ns ps ?l) s s'" "grep_ready e pat ps fname ns data s'"
     "\<And>i. i \<le> 1024 \<Longrightarrow> mem s' (data + of_nat i) = (if i = ls + length ?l then 0 else mem s (data + of_nat i))"
    using line_done [OF r b, of ?l] ls by auto
  have "buffer_holds (mem s') data 0 []" by (rule buffer_empty) (use s'(4) [of 1024] b in \<open>simp add: buffer_holds_def\<close>)
  moreover have "scan_lines e pat fname (int (length ps)) data cnt (int (length B)) (int ls) s = Some (0, s')"
    using s'(1) c ls(2) by (subst scan_lines.simps) (auto simp: le Let_def)
  ultimately show ?thesis using s'(2,3) by blast
qed

lemma scan_lines_cut:
  assumes r: "grep_ready e pat ps fname ns data s" and b: "buffer_holds (mem s) data ls B" and n: "10 \<notin> set (drop ls B)"
    and c: "cnt \<noteq> 0" "0 < ls" and ne: "mem s (data + of_nat (length B)) \<noteq> 10"
  shows "\<exists>s'. scan_lines e pat fname (int (length ps)) data cnt (int (length B)) (int ls) s = Some (int (length (drop ls B)), s') \<and>
     emits (span data 1025 \<union> video) [] s s' \<and> grep_ready e pat ps fname ns data s' \<and> buffer_holds (mem s') data 0 (drop ls B)"
proof -
  let ?l = "drop ls B" and ?m1 = "(mem s)(data + of_nat (length B) := 0)"
  let ?m = "wrs ?m1 data (?l @ [0])"
  have ls: "ls \<le> length B" "length B \<le> 1024" using b by (auto simp: buffer_holds_def)
  have tw: "takeWhile (\<lambda>b. b \<noteq> 10) ?l = ?l" using n by (auto simp: takeWhile_eq_all_conv)
  have rd: "rds (mem s) data (length B) = B" using b by (simp add: buffer_holds_def)
  have le: "find_line_end (mem s) data (int (length B)) (int ls) = int (length B)"
    using find_line_end_offset [OF ls(1), of "mem s" data] tw rd ls(1) by simp
  have sub: "span data (length (?l @ [0])) \<subseteq> span data 1025" by (rule span_mono) (use ls in simp)
  have i: "data + of_nat (length B) \<in> span data 1025" by (rule in_spanI) (use ls in simp)
  have out: "?m x = mem s x" if "x \<notin> span data 1025" for x
  proof -
    have "x \<notin> span data (length (?l @ [0]))" "x \<noteq> data + of_nat (length B)" using that sub i by blast+
    then show ?thesis by (simp add: wrs_other)
  qed
  note st = buffer_store [OF r out] and mv = line_moves [OF b c(2)]
  have "scan_lines e pat fname (int (length ps)) data cnt (int (length B)) (int ls) s = Some (int (length ?l), s\<lparr>mem := ?m\<rparr>)"
    using mv(1) ne c ls(1) by (subst scan_lines.simps) (simp add: le Let_def)
  moreover have "emits (span data 1025 \<union> video) [] s (s\<lparr>mem := ?m\<rparr>)" by (rule emits_mono [OF st(1)]) auto
  moreover have "buffer_holds (mem (s\<lparr>mem := ?m\<rparr>)) data 0 ?l" using mv(2) by simp
  ultimately show ?thesis using st(2) by blast
qed

lemma scan_lines_newline:
  assumes r: "grep_ready e pat ps fname ns data s" and b: "buffer_holds (mem s) data ls B" and T: "drop ls B = l @ 10 # r'" and l: "10 \<notin> set l"
  shows "\<exists>s'. scan_lines e pat fname (int (length ps)) data cnt (int (length B)) (int ls) s =
       (if r' = [] then Some (0, s') else scan_lines e pat fname (int (length ps)) data cnt (int (length B)) (int (Suc (ls + length l))) s') \<and>
     emits (span data 1025 \<union> video) (line_report ns ps l) s s' \<and> grep_ready e pat ps fname ns data s' \<and>
     buffer_holds (mem s') data (Suc (ls + length l)) (B[ls + length l := 0])"
proof -
  have ls: "ls \<le> length B" "length B \<le> 1024" using b by (auto simp: buffer_holds_def)
  then have len: "length B = ls + length l + Suc (length r')"
    using T by (metis add.assoc le_add_diff_inverse length_Cons length_append length_drop)
  have tw: "takeWhile (\<lambda>b. b \<noteq> 10) (drop ls B) = l" unfolding T using l by (simp add: takeWhile_append takeWhile_eq_all_conv)
  have rd: "rds (mem s) data (length B) = B" using b by (simp add: buffer_holds_def)
  have le: "find_line_end (mem s) data (int (length B)) (int ls) = int (ls + length l)"
    using find_line_end_offset [OF ls(1), of "mem s" data] tw rd by simp
  have "B ! (ls + length l) = 10" using T ls(1) by (metis nth_append_length nth_drop)
  then have nlb: "mem s (data + of_nat (ls + length l)) = 10" using buffer_byte [OF b, of "ls + length l"] len by simp
  obtain s' where s': "search_line e pat fname (int (length ps)) data (int ls) (int (ls + length l)) (int ls)
       (s\<lparr>mem := (mem s)(data + of_nat (ls + length l) := 0)\<rparr>) = Some s'"
     "emits (span data 1025 \<union> video) (line_report ns ps l) s s'" "grep_ready e pat ps fname ns data s'"
     "\<And>i. i \<le> 1024 \<Longrightarrow> mem s' (data + of_nat i) = (if i = ls + length l then 0 else mem s (data + of_nat i))"
    using line_done [OF r b, of l] len T by auto
  have "buffer_holds (mem s') data (Suc (ls + length l)) (B[ls + length l := 0])"
    by (rule buffer_advance [OF b T s'(4)])
  moreover have "scan_lines e pat fname (int (length ps)) data cnt (int (length B)) (int ls) s =
       (if r' = [] then Some (0, s') else scan_lines e pat fname (int (length ps)) data cnt (int (length B)) (int (Suc (ls + length l))) s')"
  proof -
    have "(int (length B) \<le> int (ls + length l) + 1) = (r' = [])" "int (Suc (ls + length l)) = int (ls + length l) + 1" using len by auto
    then show ?thesis
      by (subst scan_lines.simps) (simp only: le Let_def of_int_of_nat_eq nlb simp_thms if_False s'(1) bind.bind_lunit)
  qed
  ultimately show ?thesis using s'(2,3) by blast
qed

text \<open>Scanning the buffer: what was printed and what is left make up the report on the bytes seen so far and the \<open>rest\<close> of the file.\<close>

lemma scan_lines_scans:
  assumes "grep_ready e pat ps fname ns data s" and "buffer_holds (mem s) data ls B" and "rest \<noteq> [] \<Longrightarrow> cnt \<noteq> 0 \<and> length B = 1024"
    and "short_lines (drop ls B @ rest)"
  shows "\<exists>P s' out. scan_lines e pat fname (int (length ps)) data cnt (int (length B)) (int ls) s = Some (int (length P), s') \<and>
     emits (span data 1025 \<union> video) out s s' \<and> grep_ready e pat ps fname ns data s' \<and> buffer_holds (mem s') data 0 P \<and>
     10 \<notin> set P \<and> length P < 1024 \<and> (cnt = 0 \<longrightarrow> P = []) \<and> set P \<subseteq> set (drop ls B) \<and>
     grep_report ns ps (drop ls B @ rest) = out @ grep_report ns ps (P @ rest) \<and> short_lines (P @ rest)"
  using assms
proof (induction "length B - ls" arbitrary: ls B s rule: less_induct)
  case less
  note r = less.prems(1) and b = less.prems(2)
  let ?T = "drop ls B"
  show ?case
  proof (cases "10 \<in> set ?T")
    case False
    show ?thesis
    proof (cases "cnt = 0 \<or> ls = 0 \<or> mem s (data + of_nat (length B)) = 10")
      case True
      have "rest = []"
      proof (rule ccontr)
        assume ne: "rest \<noteq> []"
        then have c: "cnt \<noteq> 0" "length B = 1024" using less.prems(3) by simp_all
        then have "ls = 0" using True b by (auto simp: buffer_holds_def)
        then show False using short_lines_bound [OF False] c(2) less.prems(4) by simp
      qed
      then show ?thesis using scan_lines_last [OF r b False True] grep_report_one [OF False, of ns ps]
        by (intro exI [of _ "[]"]) (auto simp: short_lines_def)
    next
      case f: False
      then have "length ?T < 1024" using b by (auto simp: buffer_holds_def)
      then show ?thesis using scan_lines_cut [OF r b False, of cnt] f False less.prems(4)
        by (intro exI [of _ ?T]) auto
    qed
  next
    case True
    then obtain l r' where T: "?T = l @ 10 # r'" "10 \<notin> set l" by (metis split_list_first)
    let ?B = "B[ls + length l := 0]" and ?ls = "Suc (ls + length l)"
    obtain s1 where s1: "scan_lines e pat fname (int (length ps)) data cnt (int (length B)) (int ls) s =
         (if r' = [] then Some (0, s1) else scan_lines e pat fname (int (length ps)) data cnt (int (length B)) (int ?ls) s1)"
       "emits (span data 1025 \<union> video) (line_report ns ps l) s s1" "grep_ready e pat ps fname ns data s1" "buffer_holds (mem s1) data ?ls ?B"
      using scan_lines_newline [OF r b T] by blast
    have rep: "grep_report ns ps (?T @ rest) = line_report ns ps l @ grep_report ns ps (r' @ rest)"
      using grep_report_step [OF T(2)] by (simp add: T(1))
    have sh: "short_lines (r' @ rest)" using short_lines_step [OF T(2)] less.prems(4) by (simp add: T(1))
    have d: "drop ?ls ?B = r'" by (rule drop_behind [OF T(1)])
    show ?thesis
    proof (cases "r' = []")
      case True
      then have "drop ?ls ?B = []" using d by simp
      then have "buffer_holds (mem s1) data 0 []"
        using s1(4) by (intro buffer_empty) (simp add: buffer_holds_def)
      then show ?thesis using s1 True rep sh by (intro exI [of _ "[]"] exI [of _ s1] exI [of _ "line_report ns ps l"]) auto
    next
      case False
      have "length B - ls = length l + Suc (length r')" using T(1) by (metis length_drop length_append length_Cons)
      then have dec: "length ?B - ?ls < length B - ls" by simp
      obtain P s' out where s': "scan_lines e pat fname (int (length ps)) data cnt (int (length ?B)) (int ?ls) s1 = Some (int (length P), s')"
         "emits (span data 1025 \<union> video) out s1 s'" "grep_ready e pat ps fname ns data s'" "buffer_holds (mem s') data 0 P"
         "10 \<notin> set P" "length P < 1024" "cnt = 0 \<longrightarrow> P = []" "set P \<subseteq> set r'"
         "grep_report ns ps (r' @ rest) = out @ grep_report ns ps (P @ rest)" "short_lines (P @ rest)"
        using less.hyps [OF dec s1(3,4)] less.prems(3) sh unfolding d length_list_update by blast
      then show ?thesis using s1(1) False rep sh emits_append [OF s1(2) s'(2)] T(1)
        by (intro exI [of _ P] exI [of _ s'] exI [of _ "line_report ns ps l @ out"]) auto
    qed
  qed
qed


section \<open>Reading the file\<close>

lemma close_served:
  assumes so: "stdout_ready s" and fd: "2 \<le> fd" "fd \<le> 7" and f: "ld32 (mem s) (pcb_flags (get_pcb s) fd) \<noteq> 0" "served s fd"
  shows "\<exists>s'. ece391_close e fd s = Some (0, s') \<and> emits (fd_span (get_pcb s) fd) [] s s' \<and> ld32 (mem s') (pcb_flags (get_pcb s) fd) = 0"
proof -
  let ?p = "get_pcb s"
  let ?s = "s\<lparr>mem := freed ?p fd (mem s)\<rparr>"
  have t: "tables_ready s" "on_screen s" "span ?p 128 \<inter> video = {}" using so by (simp_all add: stdout_ready_def)
  have "fd_span ?p fd \<subseteq> span ?p 128" by (rule fd_span_in_table) (use fd in auto)
  then have "tty_of ?s = tty_of s" by (intro tty_of_mem freed_outside) (use t(3) in blast)
  then have "emits (fd_span ?p fd) [] s ?s" using t(2) by (simp add: emits_def prints_def on_screen_def freed_outside)
  moreover have "ece391_close e fd s = Some (0, ?s)"
    using close_fd_served [OF t(1) fd f] fd by (simp add: ece391_close_def do_call_def syscall_def sint_word_of_int)
  ultimately show ?thesis by (intro exI [of _ ?s]) simp
qed

text \<open>The program between two reads: \<open>P\<close> is the line that the last piece cut off.\<close>

definition grep_reading :: "'a process_scheme user_env \<Rightarrow> u32 \<Rightarrow> u8 list \<Rightarrow> u32 \<Rightarrow> u8 list \<Rightarrow> u32 \<Rightarrow> u32 \<Rightarrow> int \<Rightarrow> u8 list
    \<Rightarrow> 'a process_scheme \<Rightarrow> bool" where
  "grep_reading e pat ps fname ns data p fd P s \<longleftrightarrow> grep_ready e pat ps fname ns data s \<and> file_ready p fd data 1024 s \<and>
     buffer_holds (mem s) data 0 P \<and> 10 \<notin> set P \<and> length P < 1024 \<and> 0 \<notin> set (fd_content fd s) \<and>
     short_lines (P @ drop (fd_pos fd s) (fd_content fd s)) \<and>
     span data 1025 \<inter> span (bootblock_addr s) (fs_size (mem s) (bootblock_addr s)) = {}"

lemma grep_reads:
  assumes r: "grep_reading e pat ps fname ns data p fd P s"
  defines "xs \<equiv> take (1024 - length P) (drop (fd_pos fd s) (fd_content fd s))"
  shows "\<exists>s1. ece391_read e fd (data + of_nat (length P)) (1024 - int (length P)) s = Some (int (length xs), s1) \<and>
     emits (span data 1025 \<union> fd_span p fd) [] s s1 \<and> grep_ready e pat ps fname ns data s1 \<and> file_ready p fd data 1024 s1 \<and>
     buffer_holds (mem s1) data 0 (P @ xs) \<and> fd_pos fd s1 = fd_pos fd s + length xs \<and> fd_content fd s1 = fd_content fd s \<and>
     fs_size (mem s1) (bootblock_addr s1) = fs_size (mem s) (bootblock_addr s)"
proof -
  let ?k = "length P" and ?b = "data + of_nat (length P)" and ?z = "1024 - int (length P)"
    and ?I = "span (bootblock_addr s) (fs_size (mem s) (bootblock_addr s))"
  have g: "grep_ready e pat ps fname ns data s" and f: "file_ready p fd data 1024 s" and b: "buffer_holds (mem s) data 0 P" "?k < 1024"
    and I: "span data 1025 \<inter> ?I = {}" and z: "0 \<notin> set (fd_content fd s)"
    using r by (simp_all add: grep_reading_def)
  have p: "get_pcb s = p" "2 \<le> fd" "fd \<le> 7" "BACKSPACE \<notin> set (fd_content fd s)" using f by (auto simp: file_ready_def fd_reading_def)
  have d: "span data 1025 \<inter> span p 128 = {}" "span data 1025 \<inter> video = {}" "0 \<notin> span data 1025"
    using g p(1) by (auto simp: grep_ready_def)
  have nz: "nat ?z = 1024 - ?k" using b(2) by simp
  have sub: "span ?b (1024 - ?k) \<subseteq> span data 1025" "span data 1024 \<subseteq> span data 1025" by (rule sub_span span_mono; use b(2) in simp)+
  have "file_ready p fd ?b ?z s"
  proof (rule file_ready_buffer [OF f])
    show "?b \<noteq> 0" by (rule buffer_index [OF d(3)]) (use b(2) in simp)
    show "span ?b (nat ?z) \<inter> (?I \<union> span p 128 \<union> video) = {}" unfolding nz using sub(1) I d(1,2) by blast
  qed (use b(2) in auto)
  from file_ready_read [OF this, of e, unfolded nz, folded xs_def]
  obtain s1 where s1: "ece391_read e fd ?b ?z s = Some (int (length xs), s1)" "file_ready p fd ?b ?z s1" "rds (mem s1) ?b (length xs) = xs"
      "fd_pos fd s1 = fd_pos fd s + length xs" "fd_content fd s1 = fd_content fd s" "num_files_read s1 = num_files_read s"
      "fs_size (mem s1) (bootblock_addr s1) = fs_size (mem s) (bootblock_addr s)" "prints (span ?b (1024 - ?k) \<union> fd_span p fd) [] s s1" by blast
  have fp: "fd_span p fd \<subseteq> span p 128" "fd_span p 1 \<subseteq> span p 128" "fd_span p fd \<inter> fd_span p 1 = {}"
    using fd_span_in_table [of fd p] fd_span_in_table [of 1 p] fd_spans_apart [of fd 1 p] p by simp_all
  have em: "emits (span data 1025 \<union> fd_span p fd) [] s s1"
    using prints_mono [OF s1(8), of "span data 1025 \<union> fd_span p fd"] sub(1) s1(6) by (auto simp: emits_def)
  have k: "same_kernel s s1" using s1(8) by (simp add: prints_def)
  have same: "mem s1 x = mem s x" if "x \<in> span data 1025" "x \<notin> span ?b (1024 - ?k)" for x
    using s1(8) that d(1) fp(1) by (auto simp: prints_def)
  have len: "length xs \<le> 1024 - ?k" by (simp add: xs_def)
  have "grep_ready e pat ps fname ns data s1"
    by (rule grep_ready_step [OF g s1(8)]) (use sub(1) fp d(1) in \<open>auto simp: grep_area_def p(1)\<close>)
  moreover have "file_ready p fd data 1024 s1"
  proof (rule file_ready_buffer [OF s1(2)])
    show "data \<noteq> 0" using f by (simp add: file_ready_def)
    show "span data (nat 1024) \<inter> (span (bootblock_addr s1) (fs_size (mem s1) (bootblock_addr s1)) \<union> span p 128 \<union> video) = {}"
      unfolding same_kernel_fields(3) [OF k] s1(7) [unfolded same_kernel_fields(3) [OF k]] using sub(2) I d(1,2) by auto
  qed simp_all
  moreover have "buffer_holds (mem s1) data 0 (P @ xs)"
  proof -
    have "rds (mem s1) data ?k = rds (mem s) data ?k"
    proof (rule rds_cong)
      fix i assume i: "i < ?k"
      have "data + of_nat i \<in> span data 1025" by (rule in_spanI) (use i b(2) in simp)
      moreover have "span data ?k \<inter> span ?b (1024 - ?k) = {}" by (rule span_disjoint_offset) (use b(2) in auto)
      then have "data + of_nat i \<notin> span ?b (1024 - ?k)" using in_spanI [OF i] by blast
      ultimately show "mem s1 (data + of_nat i) = mem s (data + of_nat i)" by (rule same)
    qed
    then have "rds (mem s1) data (length (P @ xs)) = P @ xs" using b(1) s1(3) by (simp add: rds_append buffer_holds_def)
    moreover have "mem s1 (data + 1024) \<noteq> 10"
    proof -
      have e: "data + 1024 = data + of_nat 1024" by simp
      have "data + of_nat 1024 \<in> span data 1025" by (rule in_spanI) simp
      moreover have "data + of_nat 1024 \<noteq> ?b + of_nat j" if "j < 1024 - ?k" for j
        using buffer_slots [of 1024 "?k + j" data] that b(2) by (simp add: add.assoc)
      then have "data + of_nat 1024 \<notin> span ?b (1024 - ?k)" by (auto simp: in_span_iff)
      ultimately have "mem s1 (data + of_nat 1024) = mem s (data + of_nat 1024)" by (rule same)
      then show ?thesis using b(1) unfolding e by (simp add: buffer_holds_def)
    qed
    moreover have "set xs \<subseteq> set (fd_content fd s)" unfolding xs_def by (meson set_take_subset set_drop_subset subset_trans)
    ultimately show ?thesis using b p(4) z len by (auto simp: buffer_holds_def)
  qed
  ultimately show ?thesis using s1(1,4,5,7) em by blast
qed


text \<open>One round: a piece is read and its lines searched.\<close>

lemma grep_round:
  assumes r: "grep_reading e pat ps fname ns data p fd P s"
  defines "rest \<equiv> drop (fd_pos fd s) (fd_content fd s)"
  defines "xs \<equiv> take (1024 - length P) rest"
  shows "\<exists>s1 P' s2 out. ece391_read e fd (data + of_nat (length P)) (1024 - int (length P)) s = Some (int (length xs), s1) \<and>
     scan_lines e pat fname (int (length ps)) data (int (length xs)) (int (length P + length xs)) 0 s1 = Some (int (length P'), s2) \<and>
     emits (span data 1025 \<union> fd_span p fd \<union> video) out s s2 \<and> grep_reading e pat ps fname ns data p fd P' s2 \<and> (xs = [] \<longrightarrow> P' = []) \<and>
     drop (fd_pos fd s2) (fd_content fd s2) = drop (length xs) rest \<and> grep_report ns ps (P @ rest) = out @ grep_report ns ps (P' @ drop (length xs) rest)"
proof -
  let ?A = "span data 1025 \<union> fd_span p fd \<union> video" and ?rest1 = "drop (length xs) rest"
  have P: "10 \<notin> set P" "length P < 1024" "short_lines (P @ rest)" "0 \<notin> set (fd_content fd s)"
    and I: "span data 1025 \<inter> span (bootblock_addr s) (fs_size (mem s) (bootblock_addr s)) = {}"
    using r by (simp_all add: grep_reading_def rest_def)
  obtain s1 where s1: "ece391_read e fd (data + of_nat (length P)) (1024 - int (length P)) s = Some (int (length xs), s1)"
      "emits (span data 1025 \<union> fd_span p fd) [] s s1" "grep_ready e pat ps fname ns data s1" "file_ready p fd data 1024 s1"
      "buffer_holds (mem s1) data 0 (P @ xs)" "fd_pos fd s1 = fd_pos fd s + length xs" "fd_content fd s1 = fd_content fd s"
      "fs_size (mem s1) (bootblock_addr s1) = fs_size (mem s) (bootblock_addr s)"
    using grep_reads [OF r] unfolding xs_def rest_def by blast
  have split: "rest = xs @ ?rest1" unfolding xs_def by (rule take_append_rest [symmetric])
  have full: "int (length xs) \<noteq> 0 \<and> length (P @ xs) = 1024" if "?rest1 \<noteq> []"
    using that P(2) by (auto simp: xs_def)
  have "short_lines (drop 0 (P @ xs) @ ?rest1)" using P(3) split by simp
  from scan_lines_scans [OF s1(3,5) full this]
  obtain P' s2 out where s2: "scan_lines e pat fname (int (length ps)) data (int (length xs)) (int (length P + length xs)) 0 s1 = Some (int (length P'), s2)"
     "emits (span data 1025 \<union> video) out s1 s2" "grep_ready e pat ps fname ns data s2" "buffer_holds (mem s2) data 0 P'" "10 \<notin> set P'" "length P' < 1024"
     "int (length xs) = 0 \<longrightarrow> P' = []" "grep_report ns ps ((P @ xs) @ ?rest1) = out @ grep_report ns ps (P' @ ?rest1)" "short_lines (P' @ ?rest1)"
    by auto
  have "emits ?A ([] @ out) s s2" by (rule emits_append [OF emits_mono [OF s1(2)] emits_mono [OF s2(2)]]) auto
  moreover have "grep_report ns ps (P @ rest) = out @ grep_report ns ps (P' @ ?rest1)" using s2(8) split by simp
  moreover have I1: "span data 1025 \<inter> span (bootblock_addr s1) (fs_size (mem s1) (bootblock_addr s1)) = {}"
    using I s1(8) same_kernel_fields(3) [of s s1] s1(2) by (simp add: emits_def prints_def)
  have W: "(span data 1025 \<union> video) \<inter> (span p 128 \<union> span (bootblock_addr s1) (fs_size (mem s1) (bootblock_addr s1))) = {}"
    using I1 s1(3,4) by (auto simp: grep_ready_def file_ready_def stdout_ready_def)
  have pr2: "prints (span data 1025 \<union> video) out s1 s2" using s2(2) by (simp add: emits_def)
  note f2 = file_ready_prints [OF s1(4) pr2 W]
  have d2: "drop (fd_pos fd s2) (fd_content fd s2) = ?rest1" by (simp add: f2 s1(6,7) add.commute rest_def)
  have "bootblock_addr s2 = bootblock_addr s1" using pr2 by (simp add: prints_def same_kernel_fields)
  then have "span data 1025 \<inter> span (bootblock_addr s2) (fs_size (mem s2) (bootblock_addr s2)) = {}" using I1 f2(4) by simp
  then have "grep_reading e pat ps fname ns data p fd P' s2"
    using s2 f2 P(4) s1(7) unfolding grep_reading_def d2 by simp
  ultimately show ?thesis using s1(1) s2(1,7) d2
    by (intro exI [of _ s1] exI [of _ P'] exI [of _ s2] exI [of _ out]) simp
qed

text \<open>At the end the file is closed.\<close>

lemma grep_closes:
  assumes r: "grep_reading e pat ps fname ns data p fd P s"
  shows "\<exists>s'. ece391_close e fd s = Some (0, s') \<and> emits (fd_span p fd) [] s s' \<and> grep_ready e pat ps fname ns data s' \<and>
     ld32 (mem s') (pcb_flags p fd) = 0 \<and> mem s' (data + 1024) \<noteq> 10"
proof -
  have g: "grep_ready e pat ps fname ns data s" and f: "file_ready p fd data 1024 s" and b: "buffer_holds (mem s) data 0 P"
    using r by (simp_all add: grep_reading_def)
  have p: "get_pcb s = p" "2 \<le> fd" "fd \<le> 7" "served s fd" "ld32 (mem s) (pcb_flags p fd) \<noteq> 0" "stdout_ready s"
    using f by (auto simp: file_ready_def fd_reading_def served_def)
  then obtain s' where s': "ece391_close e fd s = Some (0, s')" "emits (fd_span p fd) [] s s'" "ld32 (mem s') (pcb_flags p fd) = 0"
    using close_served [of s fd e] by auto
  have fp: "fd_span p fd \<subseteq> span p 128" "fd_span p fd \<inter> fd_span p 1 = {}"
    using fd_span_in_table [of fd p] fd_spans_apart [of fd 1 p] p by simp_all
  have "grep_ready e pat ps fname ns data s'"
    by (rule grep_ready_step [OF g]) (use s'(2) fp p(1) in \<open>auto simp: emits_def grep_area_def\<close>)
  moreover have "data + of_nat 1024 \<in> span data 1025" by (rule in_spanI) simp
  then have "data + 1024 \<notin> fd_span p fd" using fp(1) g p(1) by (auto simp: grep_ready_def)
  then have "mem s' (data + 1024) \<noteq> 10" using s'(2) b by (simp add: emits_def prints_def buffer_holds_def)
  ultimately show ?thesis using s' by blast
qed

text \<open>The loop of \<open>do_one_file\<close>: the pieces of the file, until it is read and closed.\<close>

lemma grep_loop_reports:
  "grep_reading e pat ps fname ns data p fd P s \<Longrightarrow>
     \<exists>s'. grep_loop e pat fname (int (length ps)) data fd (int (length P)) s = Some (0, s') \<and>
       emits (span data 1025 \<union> fd_span p fd \<union> video) (grep_report ns ps (P @ drop (fd_pos fd s) (fd_content fd s))) s s' \<and>
       grep_ready e pat ps fname ns data s' \<and> ld32 (mem s') (pcb_flags p fd) = 0 \<and> mem s' (data + 1024) \<noteq> 10"
proof (induction "length (drop (fd_pos fd s) (fd_content fd s))" arbitrary: P s rule: less_induct)
  case less
  let ?rest = "drop (fd_pos fd s) (fd_content fd s)" and ?A = "span data 1025 \<union> fd_span p fd \<union> video"
  let ?xs = "take (1024 - length P) ?rest"
  let ?rest1 = "drop (length ?xs) ?rest"
  have P: "length P < 1024" using less.prems by (simp add: grep_reading_def)
  obtain s1 P' s2 out where s2: "ece391_read e fd (data + of_nat (length P)) (1024 - int (length P)) s = Some (int (length ?xs), s1)"
      "scan_lines e pat fname (int (length ps)) data (int (length ?xs)) (int (length P + length ?xs)) 0 s1 = Some (int (length P'), s2)"
      "emits ?A out s s2" "grep_reading e pat ps fname ns data p fd P' s2" "?xs = [] \<longrightarrow> P' = []"
      "drop (fd_pos fd s2) (fd_content fd s2) = ?rest1" "grep_report ns ps (P @ ?rest) = out @ grep_report ns ps (P' @ ?rest1)"
    using grep_round [OF less.prems] by blast
  show ?case
  proof (cases "?xs = []")
    case True
    then have rest: "P' = []" "?rest = []" "length ?xs = 0" using s2(5) P by auto
    obtain s' where s': "ece391_close e fd s2 = Some (0, s')" "emits (fd_span p fd) [] s2 s'" "grep_ready e pat ps fname ns data s'"
        "ld32 (mem s') (pcb_flags p fd) = 0" "mem s' (data + 1024) \<noteq> 10" using grep_closes [OF s2(4)] by blast
    have "emits ?A (out @ []) s s'" by (rule emits_append [OF s2(3) emits_mono [OF s'(2)]]) auto
    moreover have "grep_report ns ps (P @ ?rest) = out" using s2(7) rest by simp
    moreover have "grep_loop e pat fname (int (length ps)) data fd (int (length P)) s = Some (0, s')"
      using s2(1,2) s'(1) unfolding rest(3) by (subst grep_loop.simps) (simp add: rest(1))
    ultimately show ?thesis using s'(3-5) by auto
  next
    case False
    then have dec: "length (drop (fd_pos fd s2) (fd_content fd s2)) < length ?rest"
      unfolding s2(6) length_drop [of "length ?xs"] by (intro diff_less) auto
    from less.hyps [OF this s2(4)] obtain s' where s': "grep_loop e pat fname (int (length ps)) data fd (int (length P')) s2 = Some (0, s')"
       "emits ?A (grep_report ns ps (P' @ ?rest1)) s2 s'" "grep_ready e pat ps fname ns data s'" "ld32 (mem s') (pcb_flags p fd) = 0"
       "mem s' (data + 1024) \<noteq> 10" unfolding s2(6) by blast
    have "emits ?A (grep_report ns ps (P @ ?rest)) s s'" using emits_append [OF s2(3) s'(2)] unfolding s2(7) .
    moreover have "int (length ?xs) \<noteq> 0" "int (length ?xs) \<noteq> - 1" "int (length P) + int (length ?xs) = int (length P + length ?xs)" using False by simp_all
    then have "grep_loop e pat fname (int (length ps)) data fd (int (length P)) s = Some (0, s')"
      using s2(1,2) s'(1) by (subst grep_loop.simps) (simp only: Let_def bind.bind_lunit split of_int_of_nat_eq if_False)
    ultimately show ?thesis using s'(3-5) by blast
  qed
qed

text \<open>A file \<open>grep\<close> can read: what it reads holds no zero byte, and its lines fit the buffer.\<close>

definition greppable :: "u8 list \<Rightarrow> bool" where
  "greppable bs \<longleftrightarrow> 0 \<notin> set bs \<and> BACKSPACE \<notin> set bs \<and> short_lines bs"

definition grep_regions :: "'a process_scheme user_env \<Rightarrow> u32 \<Rightarrow> 'a process_scheme \<Rightarrow> bool" where
  "grep_regions e data s \<longleftrightarrow> apart [(entry_local e, 40), (bootblock_addr s, fs_size (mem s) (bootblock_addr s)), (get_pcb s, 128), (data, 1025), (VIDEO, 4000)]"

lemma do_one_file_reports:
  fixes s :: "'a process_scheme"
  defines "p \<equiv> get_pcb s"
  assumes g: "grep_ready e pat ps fname ns data s" and nf: "names_file (mem s) (bootblock_addr s) ns x n" and mt: "mounted s"
    and ns: "ns \<noteq> []" "length ns \<le> 32" and lf: "lowest_free (mem s) p fd" and re: "grep_regions e data s"
    and fl: "greppable (file_bytes (mem s) (bootblock_addr s) n)" and st: "mem s (data + 1024) \<noteq> 10"
  shows "\<exists>s'. do_one_file e data pat fname s = Some (0, s') \<and>
     emits (span (entry_local e) 40 \<union> span data 1025 \<union> fd_span p fd \<union> video) (grep_report ns ps (file_bytes (mem s) (bootblock_addr s) n)) s s' \<and>
     grep_ready e pat ps fname ns data s' \<and> ld32 (mem s') (pcb_flags p fd) = 0 \<and> mem s' (data + 1024) \<noteq> 10"
proof -
  let ?bb = "bootblock_addr s" and ?L = "span (entry_local e) 40" and ?I = "span (bootblock_addr s) (fs_size (mem s) (bootblock_addr s))"
  let ?bs = "file_bytes (mem s) ?bb n"
  have so: "stdout_ready s" and nm: "cstr (mem s) fname ns" "fname \<noteq> 0" and z: "0 \<notin> span data 1025"
    using g by (simp_all add: grep_ready_def grep_string_def)
  have d: "?L \<inter> ?I = {}" "?L \<inter> span p 128 = {}" "?I \<inter> span p 128 = {}" "?L \<inter> video = {}" "?I \<inter> video = {}"
      "span data 1025 \<inter> (?I \<union> span p 128 \<union> video) = {}" "?L \<inter> span data 1025 = {}"
    using re by (auto simp: grep_regions_def p_def)
  have sub: "span data 1024 \<subseteq> span data 1025" by (rule span_mono) simp
  have i: "2 \<le> fd" "fd \<le> 7" using lf by (simp_all add: lowest_free_def)
  have data: "data \<noteq> 0" using buffer_index [OF z, of 0] by simp
  have "span data (nat 1024) \<inter> (?I \<union> span p 128 \<union> video) = {}" using sub d(6) by auto
  moreover have "BACKSPACE \<notin> set ?bs" using fl by (simp add: greppable_def)
  ultimately obtain s1 where s1: "ece391_open e fname s = Some (fd, s1)" "file_ready p fd data 1024 s1" "fd_pos fd s1 = 0"
      "fd_content fd s1 = ?bs" "num_files_read s1 = num_files_read s" "prints (?L \<union> fd_span p fd) [] s s1"
    using file_opens [of s ns x n fname fd e data 1024] nf mt so nm ns lf d(1-5) data unfolding p_def by auto
  have fp: "fd_span p fd \<subseteq> span p 128" "fd_span p fd \<inter> fd_span p 1 = {}" "fd_span p 1 \<subseteq> span p 128"
    using fd_span_in_table [of fd p] fd_span_in_table [of 1 p] fd_spans_apart [of fd 1 p] i by simp_all
  have g1: "grep_ready e pat ps fname ns data s1"
    by (rule grep_ready_step [OF g s1(6)]) (use fp d(2) in \<open>auto simp: grep_area_def p_def\<close>)
  have k: "same_kernel s s1" and same: "\<And>x. x \<notin> ?L \<union> fd_span p fd \<Longrightarrow> mem s1 x = mem s x" using s1(6) by (auto simp: prints_def)
  have "data + of_nat 1024 \<in> span data 1025" by (rule in_spanI) simp
  then have "data + of_nat 1024 \<notin> ?L \<union> fd_span p fd" using d(6,7) fp(1) by blast
  from same [OF this] have st1: "mem s1 (data + 1024) \<noteq> 10" using st by simp
  have "mem s1 y = mem s y" if "y \<in> ?I" for y by (rule same) (use that d(1,3) fp(1) in blast)
  from image_counts_cong(3) [OF this] have "fs_size (mem s1) (bootblock_addr s1) = fs_size (mem s) ?bb"
    by (simp add: same_kernel_fields [OF k])
  then have "grep_reading e pat ps fname ns data p fd [] s1"
    using g1 s1 st1 fl d(6) by (auto simp: grep_reading_def greppable_def buffer_empty same_kernel_fields [OF k])
  from grep_loop_reports [OF this] s1(3,4) obtain s' where s': "grep_loop e pat fname (int (length ps)) data fd 0 s1 = Some (0, s')"
     "emits (span data 1025 \<union> fd_span p fd \<union> video) (grep_report ns ps ?bs) s1 s'" "grep_ready e pat ps fname ns data s'"
     "ld32 (mem s') (pcb_flags p fd) = 0" "mem s' (data + 1024) \<noteq> 10" by auto
  have "emits (?L \<union> fd_span p fd) [] s s1" using s1(5,6) by (simp add: emits_def)
  then have "emits (?L \<union> span data 1025 \<union> fd_span p fd \<union> video) ([] @ grep_report ns ps ?bs) s s'"
    by (rule emits_append [OF emits_mono emits_mono [OF s'(2)]]) auto
  moreover have "do_one_file e data pat fname s = Some (0, s')"
  proof -
    have "cstr (mem s) pat ps" "length ps < 2 ^ 31" using g by (simp_all add: grep_ready_def grep_string_def)
    then show ?thesis using ece391_strlen_cstr sint_of_nat_less s1(1) s'(1) i by (simp add: do_one_file_def)
  qed
  ultimately show ?thesis using s'(3-5) by auto
qed


section \<open>The directory\<close>

definition entry_inode :: "memory \<Rightarrow> u32 \<Rightarrow> nat \<Rightarrow> u32" where
  "entry_inode m bb j = ld32 m (dentry_inode_num (direntry bb (of_nat j)))"

text \<open>The report on one directory entry, and on the entries from \<open>k\<close> up to the first unused one.\<close>

definition entry_report :: "memory \<Rightarrow> u32 \<Rightarrow> u8 list \<Rightarrow> nat \<Rightarrow> u8 list" where
  "entry_report m bb ps j = (if hd (dir_name m bb j) = 46 then []
     else grep_report (dir_name m bb j) ps (file_bytes m bb (entry_inode m bb j)))"

definition directory_report :: "memory \<Rightarrow> u32 \<Rightarrow> u8 list \<Rightarrow> nat \<Rightarrow> u8 list" where
  "directory_report m bb ps k = concat (map (entry_report m bb ps) (takeWhile (\<lambda>j. dir_name m bb j \<noteq> []) [k..<63]))"

lemma directory_report_unfold:
  "k < 63 \<Longrightarrow> directory_report m bb ps k = (if dir_name m bb k = [] then [] else entry_report m bb ps k @ directory_report m bb ps (Suc k))"
  by (simp add: directory_report_def upt_conv_Cons)

text \<open>Every entry that does not begin with a dot is the first of its name and a file \<open>grep\<close> can read.\<close>

definition entries_ok :: "memory \<Rightarrow> u32 \<Rightarrow> bool" where
  "entries_ok m bb \<longleftrightarrow> (\<forall>j < 63. BACKSPACE \<notin> set (dir_name m bb j) \<and> (dir_name m bb j \<noteq> [] \<and> hd (dir_name m bb j) \<noteq> 46 \<longrightarrow>
     names_file m bb (dir_name m bb j) j (entry_inode m bb j) \<and> greppable (file_bytes m bb (entry_inode m bb j))))"

lemma image_names:
  assumes "\<And>x. x \<in> span bb (fs_size m bb) \<Longrightarrow> m' x = m x" and "j < 63"
  shows "dir_name m' bb j = dir_name m bb j" "entry_inode m' bb j = entry_inode m bb j"
proof -
  have b: "m' x = m x" if "x \<in> span bb 4096" for x using assms(1) boot_block_in_image [of bb m] that by blast
  show "dir_name m' bb j = dir_name m bb j" by (rule dir_name_boot_block [OF b assms(2)])
  have "span (dentry_inode_num (direntry bb (of_nat j))) 4 \<subseteq> span (direntry bb (of_nat j)) 40"
    using sub_span [of 36 4 40 "direntry bb (of_nat j)"] by (simp add: dentry_inode_num_def)
  then show "entry_inode m' bb j = entry_inode m bb j"
    unfolding entry_inode_def using direntry_span [OF assms(2), of bb] b by (intro ld32_disjoint) blast
qed

lemma entries_cong:
  assumes agree: "\<And>x. x \<in> span bb (fs_size m bb) \<Longrightarrow> m' x = m x" and ok: "entries_ok m bb"
  shows "entries_ok m' bb" "directory_report m' bb ps k = directory_report m bb ps k"
    "j < 63 \<Longrightarrow> dir_name m bb j \<noteq> [] \<Longrightarrow> entry_report m' bb ps j = entry_report m bb ps j"
proof -
  have nm: "dir_name m' bb j = dir_name m bb j" "entry_inode m' bb j = entry_inode m bb j" if "j < 63" for j
    using image_names [of bb m m' j] agree that by blast+
  have f: "names_file m' bb (dir_name m bb j) j (entry_inode m bb j) \<and> file_bytes m' bb (entry_inode m bb j) = file_bytes m bb (entry_inode m bb j)"
    if "j < 63" "dir_name m bb j \<noteq> []" "hd (dir_name m bb j) \<noteq> 46" for j
    using names_file_cong [of bb m m' "dir_name m bb j" j "entry_inode m bb j"] agree ok that by (auto simp: entries_ok_def)
  show "entries_ok m' bb" using ok f nm unfolding entries_ok_def by simp
  have e: "entry_report m' bb ps j = entry_report m bb ps j" if "j < 63" "dir_name m bb j \<noteq> []" for j
    using f [OF that] nm [OF that(1)] by (simp add: entry_report_def)
  then show "j < 63 \<Longrightarrow> dir_name m bb j \<noteq> [] \<Longrightarrow> entry_report m' bb ps j = entry_report m bb ps j" .
  have "takeWhile (\<lambda>j. dir_name m' bb j \<noteq> []) [k..<63] = takeWhile (\<lambda>j. dir_name m bb j \<noteq> []) [k..<63]"
    by (rule takeWhile_cong) (use nm(1) in auto)
  moreover have "entry_report m' bb ps j = entry_report m bb ps j" if "j \<in> set (takeWhile (\<lambda>j. dir_name m bb j \<noteq> []) [k..<63])" for j
    using set_takeWhileD [OF that] by (intro e) auto
  ultimately show "directory_report m' bb ps k = directory_report m bb ps k"
    unfolding directory_report_def by (simp cong: map_cong)
qed

text \<open>The program in the loop over the directory: \<open>d\<close> is the descriptor of the directory and \<open>f\<close> the one the next file gets.\<close>

definition grep_walk :: "'a process_scheme user_env \<Rightarrow> u32 \<Rightarrow> u8 list \<Rightarrow> u32 \<Rightarrow> u32 \<Rightarrow> u32 \<Rightarrow> int \<Rightarrow> int \<Rightarrow> 'a process_scheme \<Rightarrow> bool" where
  "grep_walk e pat ps data buf p d f s \<longleftrightarrow> grep_ready e pat ps (lit e nl) [10] data s \<and> get_pcb s = p \<and> mounted s \<and> grep_regions e data s \<and>
     mem s (data + 1024) \<noteq> 10 \<and> 2 \<le> d \<and> d \<le> 7 \<and> f \<noteq> d \<and> lowest_free (mem s) p f \<and> ld32 (mem s) (pcb_flags p d) \<noteq> 0 \<and>
     ld32 (mem s) (pcb_fops p d) = directory_table_addr s \<and> buf \<noteq> 0 \<and>
     span buf 33 \<inter> (grep_area e p data \<union> span (bootblock_addr s) (fs_size (mem s) (bootblock_addr s)) \<union> span pat (Suc (length ps)) \<union>
       span (lit e '':'') 2 \<union> span (lit e nl) 2) = {} \<and>
     entries_ok (mem s) (bootblock_addr s) \<and>
     (\<exists>j. unat (num_files_read s) \<le> j \<and> j < 63 \<and> dir_name (mem s) (bootblock_addr s) j = [])"

definition walk_area :: "'a process_scheme user_env \<Rightarrow> u32 \<Rightarrow> u32 \<Rightarrow> u32 \<Rightarrow> int \<Rightarrow> u32 set" where
  "walk_area e data buf p f = span (entry_local e) 40 \<union> span buf 33 \<union> span data 1025 \<union> fd_span p f \<union> video"


lemma string_apart_step:
  assumes "grep_string e data a xs s" and pr: "prints W out s s'" and W: "span a (Suc (length xs)) \<inter> W = {}"
  shows "grep_string e data a xs s'"
proof -
  have k: "same_kernel s s'" using pr by (simp add: prints_def)
  have "cstr (mem s') a xs" using prints_cstr [OF pr] assms(1) W by (simp add: grep_string_def)
  then show ?thesis using assms(1) by (simp add: grep_string_def same_kernel_fields [OF k])
qed

lemma grep_walk_step:
  assumes w: "grep_walk e pat ps data buf p d f s" and pr: "prints W out s s'" and W: "W \<subseteq> walk_area e data buf p f"
    and f: "ld32 (mem s') (pcb_flags p f) = 0" and st: "mem s' (data + 1024) \<noteq> 10"
    and ex: "\<exists>j. unat (num_files_read s') \<le> j \<and> j < 63 \<and> dir_name (mem s) (bootblock_addr s) j = []"
  shows "grep_walk e pat ps data buf p d f s'" "directory_report (mem s') (bootblock_addr s') ps k = directory_report (mem s) (bootblock_addr s) ps k"
    "j < 63 \<Longrightarrow> dir_name (mem s') (bootblock_addr s') j = dir_name (mem s) (bootblock_addr s) j"
    "j < 63 \<Longrightarrow> dir_name (mem s) (bootblock_addr s) j \<noteq> [] \<Longrightarrow> entry_report (mem s') (bootblock_addr s') ps j = entry_report (mem s) (bootblock_addr s) ps j"
proof -
  let ?I = "span (bootblock_addr s) (fs_size (mem s) (bootblock_addr s))" and ?L = "span (entry_local e) 40"
  have k: "same_kernel s s'" and same: "\<And>x. x \<notin> W \<Longrightarrow> mem s' x = mem s x" using pr by (auto simp: prints_def)
  note kf = same_kernel_fields [OF k]
  have p: "get_pcb s = p" and g: "grep_ready e pat ps (lit e nl) [10] data s" and lf: "lowest_free (mem s) p f"
    and dd: "2 \<le> d" "d \<le> 7" "f \<noteq> d" using w by (simp_all add: grep_walk_def)
  have i: "2 \<le> f" "f \<le> 7" using lf by (simp_all add: lowest_free_def)
  have r: "?L \<inter> ?I = {}" "?L \<inter> span p 128 = {}" "?I \<inter> span p 128 = {}" "?L \<inter> video = {}" "?I \<inter> video = {}"
      "span data 1025 \<inter> (?I \<union> span p 128 \<union> video) = {}" "?L \<inter> span data 1025 = {}" "span p 128 \<inter> video = {}"
    using w by (auto simp: grep_walk_def grep_regions_def)
  have b: "span buf 33 \<inter> (grep_area e p data \<union> ?I) = {}" "span buf 33 \<inter> span pat (Suc (length ps)) = {}"
      "span buf 33 \<inter> span (lit e '':'') 2 = {}" "span buf 33 \<inter> span (lit e nl) 2 = {}"
    using w by (auto simp: grep_walk_def)
  have fp: "fd_span p f \<subseteq> span p 128" using fd_span_in_table [of f p] i by simp
  have area: "walk_area e data buf p f \<subseteq> span buf 33 \<union> grep_area e p data" using fp by (auto simp: walk_area_def grep_area_def)
  have other: "fd_span p j \<inter> W = {}" if "0 \<le> j" "j < 8" "j \<noteq> f" for j
  proof -
    have "fd_span p j \<subseteq> span p 128" "fd_span p j \<inter> fd_span p f = {}" using fd_span_in_table [of j p] fd_spans_apart [of j f p] that i by simp_all
    moreover have "span buf 33 \<inter> span p 128 = {}" using b(1) by (auto simp: grep_area_def)
    ultimately show ?thesis using W r(2,6,8) unfolding walk_area_def by blast
  qed
  have I: "mem s' x = mem s x" if "x \<in> ?I" for x
  proof (rule same)
    have "span buf 33 \<inter> ?I = {}" using b(1) by blast
    then show "x \<notin> W" using that W r(1,3,5,6) fp unfolding walk_area_def by blast
  qed
  have str: "grep_string e data a xs s'" if "grep_string e data a xs s" "span buf 33 \<inter> span a (Suc (length xs)) = {}" for a xs
  proof (rule string_apart_step [OF that(1) pr])
    show "span a (Suc (length xs)) \<inter> W = {}" using that W area by (auto simp: grep_string_def p)
  qed
  have so: "stdout_ready s'"
    by (rule prints_stdout_ready [OF pr]) (use g other [of 1] i p in \<open>auto simp: grep_ready_def\<close>)
  have one: "Suc (length [x]) = 2" for x :: u8 by simp
  have g': "grep_ready e pat ps (lit e nl) [10] data s'"
    using g so str [of pat ps] str [of "lit e '':''" "[58]", unfolded one] str [of "lit e nl" "[10]", unfolded one] b(2-4)
    unfolding grep_ready_def kf by blast
  note im = image_counts_cong [of "bootblock_addr s" "mem s" "mem s'", OF I] 
  have nm: "dir_name (mem s') (bootblock_addr s) j = dir_name (mem s) (bootblock_addr s) j" if "j < 63" for j
    by (rule image_names(1) [OF I that])
  have eo: "entries_ok (mem s) (bootblock_addr s)" using w by (simp add: grep_walk_def)
  note en = entries_cong [of "bootblock_addr s" "mem s" "mem s'", OF I eo]
  have fl: "ld32 (mem s') (pcb_flags p j) = ld32 (mem s) (pcb_flags p j)" if "0 \<le> j" "j < 8" "j \<noteq> f" for j
    using other [OF that] by (intro flags_cong same) blast
  have "lowest_free (mem s') p f" using lf f fl by (auto simp: lowest_free_def)
  moreover have "ld32 (mem s') (pcb_fops p d) = ld32 (mem s) (pcb_fops p d)"
  proof -
    have "span (pcb_fops p d) 4 \<subseteq> fd_span p d" unfolding fd_span_def by (rule span_mono) simp
    then show ?thesis using other [of d] dd by (intro ld32_disjoint same) auto
  qed
  ultimately show "grep_walk e pat ps data buf p d f s'"
    using w g' st fl [of d] im en(1) ex nm(1) unfolding grep_walk_def grep_regions_def mounted_def kf by auto
  show "directory_report (mem s') (bootblock_addr s') ps k = directory_report (mem s) (bootblock_addr s) ps k" using en(2) by (simp add: kf)
  show "j < 63 \<Longrightarrow> dir_name (mem s') (bootblock_addr s') j = dir_name (mem s) (bootblock_addr s) j" using nm(1) by (simp add: kf)
  show "j < 63 \<Longrightarrow> dir_name (mem s) (bootblock_addr s) j \<noteq> [] \<Longrightarrow> entry_report (mem s') (bootblock_addr s') ps j = entry_report (mem s) (bootblock_addr s) ps j"
    using en(3) by (simp add: kf)
qed

lemma walk_ls_ready: "grep_walk e pat ps data buf p d f s \<Longrightarrow> ls_ready e p d buf s"
proof -
  assume w: "grep_walk e pat ps data buf p d f s"
  let ?I = "span (bootblock_addr s) (fs_size (mem s) (bootblock_addr s))" and ?L = "span (entry_local e) 40"
  have i: "span (bootblock_addr s) 4096 \<subseteq> ?I" by (rule boot_block_in_image)
  have r: "?L \<inter> ?I = {}" "?L \<inter> span p 128 = {}" "?I \<inter> span p 128 = {}" "?L \<inter> video = {}" "?I \<inter> video = {}" "span p 128 \<inter> video = {}"
    using w by (auto simp: grep_walk_def grep_regions_def)
  have b: "span buf 33 \<inter> ?L = {}" "span buf 33 \<inter> span p 128 = {}" "span buf 33 \<inter> video = {}" "span buf 33 \<inter> ?I = {}"
    using w by (auto simp: grep_walk_def grep_area_def)
  have "apart [(entry_local e, 40), (bootblock_addr s, 4096), (p, 128), (buf, 33), (VIDEO, 4000)]"
    using r b i by auto
  moreover have "stdout_ready s" using w by (simp add: grep_walk_def grep_ready_def)
  ultimately show ?thesis using w unfolding ls_ready_def grep_walk_def entries_ok_def by blast
qed

text \<open>The file whose name is in the buffer is searched.\<close>

lemma walk_file:
  assumes w: "grep_walk e pat ps data buf p d f s" and c: "cstr (mem s) buf name" and k: "k < 63" "dir_name (mem s) (bootblock_addr s) k = name"
    and nm: "name \<noteq> []" "hd name \<noteq> 46"
  shows "\<exists>s'. do_one_file e data pat buf s = Some (0, s') \<and> prints (walk_area e data buf p f) (entry_report (mem s) (bootblock_addr s) ps k) s s' \<and>
     num_files_read s' = num_files_read s \<and> ld32 (mem s') (pcb_flags p f) = 0 \<and> mem s' (data + 1024) \<noteq> 10"
proof -
  let ?bb = "bootblock_addr s" and ?n = "entry_inode (mem s) (bootblock_addr s) k"
  have h: "lowest_free (mem s) (get_pcb s) f" "grep_regions e data s" "mounted s" "get_pcb s = p" "mem s (data + 1024) \<noteq> 10" "buf \<noteq> 0"
    "entries_ok (mem s) ?bb" using w by (simp_all add: grep_walk_def)
  have nf: "names_file (mem s) ?bb name k ?n" "greppable (file_bytes (mem s) ?bb ?n)" "BACKSPACE \<notin> set name"
    using h(7) k nm by (auto simp: entries_ok_def)
  have len: "length name \<le> 32" using length_name_of [of "rds (mem s) (direntry ?bb (of_nat k)) 32"] k(2) by (auto simp: dir_name_def)
  have "span buf (Suc (length name)) \<subseteq> span buf 33" by (rule span_mono) (use len in simp)
  moreover have "span buf 33 \<inter> grep_area e p data = {}" using w by (auto simp: grep_walk_def)
  ultimately have "grep_string e data buf name s" using c h(4,6) len by (auto simp: grep_string_def)
  then have "grep_ready e pat ps buf name data s" using w nf(3) unfolding grep_walk_def grep_ready_def by blast
  from do_one_file_reports [OF this nf(1) h(3) nm(1) len h(1,2) nf(2) h(5)]
  obtain s' where s': "do_one_file e data pat buf s = Some (0, s')" "ld32 (mem s') (pcb_flags p f) = 0" "mem s' (data + 1024) \<noteq> 10"
    "emits (span (entry_local e) 40 \<union> span data 1025 \<union> fd_span p f \<union> video) (grep_report name ps (file_bytes (mem s) ?bb ?n)) s s'"
    unfolding h(4) by blast
  have "entry_report (mem s) ?bb ps k = grep_report name ps (file_bytes (mem s) ?bb ?n)" using k(2) nm(2) by (simp add: entry_report_def)
  moreover have "emits (walk_area e data buf p f) (grep_report name ps (file_bytes (mem s) ?bb ?n)) s s'"
    by (rule emits_mono [OF s'(4)]) (auto simp: walk_area_def)
  ultimately have "emits (walk_area e data buf p f) (entry_report (mem s) ?bb ps k) s s'" by simp
  then show ?thesis using s'(1-3) by (auto simp: emits_def)
qed

text \<open>One entry of the directory: its name is read \<dots>\<close>

lemma walk_name:
  assumes w: "grep_walk e pat ps data buf p d f s"
  defines "k \<equiv> unat (num_files_read s)"
  defines "name \<equiv> dir_name (mem s) (bootblock_addr s) k"
  shows "\<exists>s1. ece391_read e d buf 32 s = Some (int (length name), s1) \<and> cstr (mem s1) buf name \<and> unat (num_files_read s1) = Suc k \<and>
     prints (walk_area e data buf p f) [] s s1 \<and> (name \<noteq> [] \<longrightarrow> ld32 (mem s1) (pcb_flags p f) = 0 \<and> mem s1 (data + 1024) \<noteq> 10 \<and>
       (\<exists>j. unat (num_files_read s1) \<le> j \<and> j < 63 \<and> dir_name (mem s) (bootblock_addr s) j = []))"
proof -
  have ex: "\<exists>j. k \<le> j \<and> j < 63 \<and> dir_name (mem s) (bootblock_addr s) j = []" and lf: "lowest_free (mem s) p f"
    and st: "mem s (data + 1024) \<noteq> 10" using w by (simp_all add: grep_walk_def k_def)
  then have k: "k < 63" by auto
  obtain s1 where s1: "ece391_read e d buf 32 s = Some (int (length name), s1)" "cstr (mem s1) buf name"
      "unat (num_files_read s1) = Suc k" "prints (span (entry_local e) 40 \<union> span buf 33) [] s s1"
    using ls_read [OF walk_ls_ready [OF w]] k unfolding name_def k_def by blast
  have same: "mem s1 x = mem s x" if "x \<notin> span (entry_local e) 40" "x \<notin> span buf 33" for x using s1(4) that by (auto simp: prints_def)
  have d: "span (entry_local e) 40 \<inter> span data 1025 = {}" "span buf 33 \<inter> span data 1025 = {}" "span (entry_local e) 40 \<inter> span p 128 = {}"
      "span buf 33 \<inter> span p 128 = {}"
    using w by (auto simp: grep_walk_def grep_regions_def grep_area_def)
  have "data + of_nat 1024 \<in> span data 1025" by (rule in_spanI) simp
  then have "data + of_nat 1024 \<notin> span (entry_local e) 40" "data + of_nat 1024 \<notin> span buf 33" using d(1,2) by blast+
  from same [OF this] have "mem s1 (data + 1024) \<noteq> 10" using st by simp
  moreover have "fd_span p f \<subseteq> span p 128" using fd_span_in_table [of f p] lf by (auto simp: lowest_free_def)
  then have "ld32 (mem s1) (pcb_flags p f) = ld32 (mem s) (pcb_flags p f)" by (intro flags_cong same) (use d(3,4) in blast)+
  then have "ld32 (mem s1) (pcb_flags p f) = 0" using lf by (simp add: lowest_free_def)
  moreover have "\<exists>j. unat (num_files_read s1) \<le> j \<and> j < 63 \<and> dir_name (mem s) (bootblock_addr s) j = []" if "name \<noteq> []"
    using ex that unfolding s1(3) name_def by (metis Suc_leI le_neq_implies_less)
  moreover have "prints (walk_area e data buf p f) [] s s1" by (rule prints_mono [OF s1(4)]) (auto simp: walk_area_def)
  ultimately show ?thesis using s1(1-3) by blast
qed

text \<open>\<dots> and its file searched unless the name begins with a dot.\<close>

lemma grep_entry:
  assumes w: "grep_walk e pat ps data buf p d f s"
  defines "k \<equiv> unat (num_files_read s)"
  defines "name \<equiv> dir_name (mem s) (bootblock_addr s) k"
  shows "\<exists>s'. grep_files e data pat buf d s = (if name = [] then Some (0, s') else grep_files e data pat buf d s') \<and>
     (name \<noteq> [] \<longrightarrow> grep_walk e pat ps data buf p d f s' \<and> unat (num_files_read s') = Suc k \<and>
        directory_report (mem s') (bootblock_addr s') ps (Suc k) = directory_report (mem s) (bootblock_addr s) ps (Suc k)) \<and>
     prints (walk_area e data buf p f) (if name = [] then [] else entry_report (mem s) (bootblock_addr s) ps k) s s'"
proof -
  let ?A = "walk_area e data buf p f"
  have k: "k < 63" using w by (auto simp: grep_walk_def k_def)
  obtain s1 where s1: "ece391_read e d buf 32 s = Some (int (length name), s1)" "cstr (mem s1) buf name" "unat (num_files_read s1) = Suc k"
      "prints ?A [] s s1" "name \<noteq> [] \<Longrightarrow> ld32 (mem s1) (pcb_flags p f) = 0" "name \<noteq> [] \<Longrightarrow> mem s1 (data + 1024) \<noteq> 10"
      "name \<noteq> [] \<Longrightarrow> \<exists>j. unat (num_files_read s1) \<le> j \<and> j < 63 \<and> dir_name (mem s) (bootblock_addr s) j = []"
    using walk_name [OF w] unfolding name_def k_def by blast
  show ?thesis
  proof (cases "name = []")
    case True
    then have "grep_files e data pat buf d s = Some (0, s1)" using s1(1) by (subst grep_files.simps) simp
    then show ?thesis using True s1(4) by auto
  next
    case False
    note w1 = grep_walk_step [OF w s1(4) order_refl s1(5-7) [OF False]]
    have c: "mem s1 buf = hd name" "int (length name) \<noteq> 0" "int (length name) \<noteq> - 1" using s1(2) False by (cases name; simp)+
    show ?thesis
    proof (cases "hd name = 46")
      case True
      then have "grep_files e data pat buf d s = grep_files e data pat buf d s1"
        using s1(1) c by (subst grep_files.simps) simp
      then show ?thesis using False True w1(1,2) s1(3,4) by (auto simp: entry_report_def name_def)
    next
      case nd: False
      have "dir_name (mem s1) (bootblock_addr s1) k = name" using w1(3) [OF k] by (simp add: name_def)
      from walk_file [OF w1(1) s1(2) k this False nd] obtain s2 where s2: "do_one_file e data pat buf s1 = Some (0, s2)"
          "prints ?A (entry_report (mem s1) (bootblock_addr s1) ps k) s1 s2" "num_files_read s2 = num_files_read s1"
          "ld32 (mem s2) (pcb_flags p f) = 0" "mem s2 (data + 1024) \<noteq> 10" by blast
      have "\<exists>j. unat (num_files_read s2) \<le> j \<and> j < 63 \<and> dir_name (mem s1) (bootblock_addr s1) j = []"
        using w1(1) unfolding s2(3) grep_walk_def by blast
      note w2 = grep_walk_step [OF w1(1) s2(2) order_refl s2(4,5) this]
      have "mem s1 (buf + word_of_int (int (length name))) = 0" using s1(2) cstr_append [of "mem s1" buf name "[]"] by simp
      then have upd: "(mem s1)(buf + word_of_int (int (length name)) := 0) = mem s1" by (rule fun_upd_idem)
      have "grep_files e data pat buf d s = grep_files e data pat buf d s2"
        using s1(1) c nd s2(1) by (subst grep_files.simps) (simp add: Let_def upd [simplified])
      moreover have "entry_report (mem s1) (bootblock_addr s1) ps k = entry_report (mem s) (bootblock_addr s) ps k"
        using w1(4) [OF k] False by (simp add: name_def)
      ultimately show ?thesis using False w2 w1(2) s1(3) s2(3) prints_append [OF s1(4) s2(2)] by (intro exI [of _ s2]) simp
    qed
  qed
qed

lemma grep_files_reports:
  "grep_walk e pat ps data buf p d f s \<Longrightarrow> \<exists>s'. grep_files e data pat buf d s = Some (0, s') \<and>
     prints (walk_area e data buf p f) (directory_report (mem s) (bootblock_addr s) ps (unat (num_files_read s))) s s'"
proof (induction "63 - unat (num_files_read s)" arbitrary: s rule: less_induct)
  case less
  let ?k = "unat (num_files_read s)" and ?r = "directory_report (mem s) (bootblock_addr s) ps" and ?A = "walk_area e data buf p f"
  let ?name = "dir_name (mem s) (bootblock_addr s) ?k" and ?e = "entry_report (mem s) (bootblock_addr s) ps ?k"
  have k: "?k < 63" using less.prems by (auto simp: grep_walk_def)
  have u: "?r ?k = (if ?name = [] then [] else ?e @ ?r (Suc ?k))" by (rule directory_report_unfold [OF k])
  obtain s1 where s1: "grep_files e data pat buf d s = (if ?name = [] then Some (0, s1) else grep_files e data pat buf d s1)"
      "?name \<noteq> [] \<longrightarrow> grep_walk e pat ps data buf p d f s1 \<and> unat (num_files_read s1) = Suc ?k \<and>
        directory_report (mem s1) (bootblock_addr s1) ps (Suc ?k) = ?r (Suc ?k)"
      "prints ?A (if ?name = [] then [] else ?e) s s1"
    using grep_entry [OF less.prems] by blast
  show ?case
  proof (cases "?name = []")
    case True
    then show ?thesis using s1(1,3) u by auto
  next
    case False
    then have n: "unat (num_files_read s1) = Suc ?k" "grep_walk e pat ps data buf p d f s1" using s1(2) by auto
    have "63 - unat (num_files_read s1) < 63 - ?k" using n(1) k by simp
    from less.hyps [OF this n(2)] obtain s' where s': "grep_files e data pat buf d s1 = Some (0, s')" "prints ?A (?r (Suc ?k)) s1 s'"
      using s1(2) False n(1) by auto
    then show ?thesis using s1(1,3) u False prints_append [of ?A ?e s s1 "?r (Suc ?k)" s'] by auto
  qed
qed

text \<open>The memory \<open>grep\<close> works on, and a file system it can search.\<close>

definition grep_call :: "'a process_scheme user_env \<Rightarrow> u32 \<Rightarrow> u32 \<Rightarrow> u32 \<Rightarrow> u8 list \<Rightarrow> nat \<Rightarrow> 'a process_scheme \<Rightarrow> bool" where
  "grep_call e data search buf ps x s \<longleftrightarrow> stdout_ready s \<and> mounted s \<and> search \<noteq> 0 \<and> buf \<noteq> 0 \<and> lit e ''.'' \<noteq> 0 \<and> lit e '':'' \<noteq> 0 \<and> lit e nl \<noteq> 0 \<and>
     0 \<notin> span data 1025 \<and> mem s (data + 1024) \<noteq> 10 \<and> cstr (mem s) (pcb_args (get_pcb s)) ps \<and> length ps < 128 \<and>
     cstr (mem s) (lit e ''.'') [46] \<and> cstr (mem s) (lit e '':'') [58] \<and> cstr (mem s) (lit e nl) [10] \<and>
     apart [(entry_local e, 40), (bootblock_addr s, fs_size (mem s) (bootblock_addr s)), (get_pcb s, 256), (data, 1025), (search, 1024), (buf, 33),
       (VIDEO, 4000)] \<and>
     apart [(lit e '':'', 2), (entry_local e, 40), (get_pcb s, 128), (data, 1025), (search, 1024), (buf, 33), (VIDEO, 4000)] \<and>
     apart [(lit e nl, 2), (entry_local e, 40), (get_pcb s, 128), (data, 1025), (search, 1024), (buf, 33), (VIDEO, 4000)] \<and>
     span (lit e ''.'') 2 \<inter> span search 1024 = {} \<and>
     x < 63 \<and> dir_name (mem s) (bootblock_addr s) x = [46] \<and> (\<forall>j < x. dir_name (mem s) (bootblock_addr s) j \<noteq> [46]) \<and>
     ld32 (mem s) (dentry_filetype (direntry (bootblock_addr s) (of_nat x))) = 1 \<and> entries_ok (mem s) (bootblock_addr s) \<and>
     (\<exists>j < 63. dir_name (mem s) (bootblock_addr s) j = [])"


lemma grep_call_apart:
  fixes s :: "'a process_scheme"
  assumes c: "grep_call e data search buf ps x s"
  defines "p \<equiv> get_pcb s" and "I \<equiv> span (bootblock_addr s) (fs_size (mem s) (bootblock_addr s))" and "L \<equiv> span (entry_local e) 40"
  shows "L \<inter> I = {}" "L \<inter> span p 128 = {}" "L \<inter> span data 1025 = {}" "L \<inter> span search 1024 = {}" "L \<inter> span buf 33 = {}" "L \<inter> video = {}"
    "I \<inter> span p 128 = {}" "I \<inter> span data 1025 = {}" "I \<inter> span search 1024 = {}" "I \<inter> span buf 33 = {}" "I \<inter> video = {}"
    "span p 128 \<inter> span data 1025 = {}" "span search 1024 \<inter> span p 256 = {}" "span p 128 \<inter> span buf 33 = {}" "span p 128 \<inter> video = {}"
    "span data 1025 \<inter> span search 1024 = {}" "span data 1025 \<inter> span buf 33 = {}" "span data 1025 \<inter> video = {}"
    "span search 1024 \<inter> span buf 33 = {}" "span search 1024 \<inter> video = {}" "span buf 33 \<inter> video = {}" "span search 1024 \<inter> span p 128 = {}"
proof -
  have p128: "span p 128 \<subseteq> span p 256" by (rule span_mono) simp
  have ap: "apart [(entry_local e, 40), (bootblock_addr s, fs_size (mem s) (bootblock_addr s)), (p, 256), (data, 1025), (search, 1024), (buf, 33), (VIDEO, 4000)]"
    using c by (simp only: grep_call_def p_def)
  then have q: "L \<inter> span p 256 = {}" "I \<inter> span p 256 = {}" "span data 1025 \<inter> span p 256 = {}" "span search 1024 \<inter> span p 256 = {}"
      "span buf 33 \<inter> span p 256 = {}" "video \<inter> span p 256 = {}"
    by (simp_all add: Int_commute L_def I_def)
  have sub: "A \<inter> span p 256 = {} \<Longrightarrow> A \<inter> span p 128 = {}" for A using p128 by blast
  show "L \<inter> span p 128 = {}" "I \<inter> span p 128 = {}" "span p 128 \<inter> span data 1025 = {}" "span search 1024 \<inter> span p 128 = {}"
      "span p 128 \<inter> span buf 33 = {}" "span p 128 \<inter> video = {}"
    using sub [OF q(1)] sub [OF q(2)] sub [OF q(3)] sub [OF q(4)] sub [OF q(5)] sub [OF q(6)] by (simp_all add: Int_commute)
qed (use c in \<open>simp_all add: grep_call_def p_def I_def L_def Int_commute\<close>)

text \<open>The argument is fetched.\<close>

lemma grep_argument:
  fixes s :: "'a process_scheme"
  assumes c: "grep_call e data search buf ps x s"
  shows "\<exists>m1. ece391_getargs e search 1024 s = Some (0, s\<lparr>mem := m1\<rparr>) \<and> cstr m1 search ps \<and> prints (span search 1024) [] s (s\<lparr>mem := m1\<rparr>) \<and>
     ls_call e buf x (s\<lparr>mem := m1\<rparr>)"
proof -
  let ?p = "get_pcb s" and ?bb = "bootblock_addr s" and ?S = "span search 1024"
  note r = grep_call_apart [OF c]
  have so: "stdout_ready s" using c by (simp add: grep_call_def)
  obtain m1 where m1: "ece391_getargs e search 1024 s = Some (0, s\<lparr>mem := m1\<rparr>)" "cstr m1 search ps" "\<And>x. x \<notin> ?S \<Longrightarrow> m1 x = mem s x"
    using args_copied [of s ps search e] c r(13) by (auto simp: grep_call_def)
  let ?s1 = "s\<lparr>mem := m1\<rparr>"
  have g: "get_pcb ?s1 = ?p" by (simp add: get_pcb_def)
  have "tty_of ?s1 = tty_of s" using r(20) by (intro tty_of_mem m1(3)) blast
  moreover have "on_screen ?s1" using so by (simp add: stdout_ready_def on_screen_def)
  ultimately have pr1: "prints ?S [] s ?s1" using m1(3) by (simp add: prints_def)
  have "fd_span ?p 1 \<subseteq> span ?p 128" by (rule fd_span_in_table) auto
  then have so1: "stdout_ready ?s1" using prints_stdout_ready [OF pr1 so] r(22) by blast
  have b1: "m1 y = mem s y" if "y \<in> span ?bb 4096" for y
    by (rule m1(3)) (use r(9) boot_block_in_image [of ?bb "mem s"] that in blast)
  have nm1: "dir_name m1 ?bb j = dir_name (mem s) ?bb j" if "j < 63" for j by (rule dir_name_boot_block [OF b1 that])
  have dot: "cstr m1 (lit e ''.'') [46]"
    using prints_cstr [OF pr1, of "lit e ''.''" "[46]"] c by (simp add: grep_call_def numeral_2_eq_2)
  have x: "x < 63" "dir_name (mem s) ?bb x = [46]" "\<forall>j < x. dir_name (mem s) ?bb j \<noteq> [46]" "ld32 (mem s) (dentry_filetype (direntry ?bb (of_nat x))) = 1"
      and eo: "entries_ok (mem s) ?bb" and ex: "\<exists>j < 63. dir_name (mem s) ?bb j = []"
    using c by (simp_all add: grep_call_def)
  have "span (dentry_filetype (direntry ?bb (of_nat x))) 4 \<subseteq> span ?bb 4096"
    using sub_span [of 32 4 40 "direntry ?bb (of_nat x)"] direntry_span [OF x(1), of ?bb] by (simp add: dentry_filetype_def)
  then have "ld32 m1 (dentry_filetype (direntry ?bb (of_nat x))) = ld32 (mem s) (dentry_filetype (direntry ?bb (of_nat x)))"
    using b1 by (intro ld32_disjoint) blast
  moreover have "apart [(entry_local e, 40), (?bb, 4096), (?p, 128), (buf, 33), (VIDEO, 4000)]"
    using r boot_block_in_image [of ?bb "mem s"] by auto
  moreover have "\<forall>j < 63. BACKSPACE \<notin> set (dir_name m1 ?bb j)" using eo nm1 by (simp add: entries_ok_def)
  moreover have "\<exists>j < 63. dir_name m1 ?bb j = []" using ex nm1 by auto
  ultimately have "ls_call e buf x ?s1" using so1 c dot x nm1 unfolding ls_call_def g by (simp add: grep_call_def chars_def)
  then show ?thesis using m1(1,2) pr1 by blast
qed

text \<open>Then the directory is opened; nothing but the buffer, the kernel's local entry and descriptor \<open>d\<close> has changed.\<close>

definition start_area :: "'a process_scheme user_env \<Rightarrow> u32 \<Rightarrow> u32 \<Rightarrow> int \<Rightarrow> u32 set" where
  "start_area e search p d = span (entry_local e) 40 \<union> span search 1024 \<union> fd_span p d"

lemma grep_opens:
  fixes s :: "'a process_scheme"
  defines "p \<equiv> get_pcb s"
  assumes c: "grep_call e data search buf ps x s" and lf: "lowest_free (mem s) p d"
  shows "\<exists>s1 s2. ece391_getargs e search 1024 s = Some (0, s1) \<and> ece391_open e (lit e ''.'') s1 = Some (d, s2) \<and> ls_ready e p d buf s2 \<and>
     num_files_read s2 = 0 \<and> cstr (mem s2) search ps \<and> prints (start_area e search p d) [] s s2"
proof -
  let ?S = "span search 1024" and ?W = "start_area e search p d"
  note r = grep_call_apart [OF c, folded p_def]
  have i: "2 \<le> d" "d \<le> 7" using lf by (simp_all add: lowest_free_def)
  have fp: "fd_span p d \<subseteq> span p 128" using fd_span_in_table [of d p] i by simp
  obtain m1 where m1: "ece391_getargs e search 1024 s = Some (0, s\<lparr>mem := m1\<rparr>)" "cstr m1 search ps" "prints ?S [] s (s\<lparr>mem := m1\<rparr>)"
      "ls_call e buf x (s\<lparr>mem := m1\<rparr>)" using grep_argument [OF c] by blast
  let ?s1 = "s\<lparr>mem := m1\<rparr>"
  have g: "get_pcb ?s1 = p" by (simp add: get_pcb_def p_def)
  have "ld32 m1 (pcb_flags p j) = ld32 (mem s) (pcb_flags p j)" if "0 \<le> j" "j < 8" for j
    using fd_span_in_table [OF that, of p] r(22) m1(3) by (intro flags_cong) (auto simp: prints_def)
  then have "lowest_free (mem ?s1) (get_pcb ?s1) d" using lf unfolding g by (simp add: lowest_free_def)
  then obtain s2 where s2: "ece391_open e (lit e ''.'') ?s1 = Some (d, s2)" "ls_ready e p d buf s2" "num_files_read s2 = 0"
      "prints (span (entry_local e) 40 \<union> fd_span p d) [] ?s1 s2" using ls_opens [OF m1(4), of d] unfolding g by blast
  have "prints ?W ([] @ []) s s2" by (rule prints_append [OF prints_mono [OF m1(3)] prints_mono [OF s2(4)]]) (auto simp: start_area_def)
  moreover have "cstr (mem s2) search ps"
  proof -
    have "span search (Suc (length ps)) \<subseteq> ?S" by (rule span_mono) (use c in \<open>simp add: grep_call_def\<close>)
    moreover have "?S \<inter> (span (entry_local e) 40 \<union> fd_span p d) = {}" using r(4,22) fp by blast
    ultimately have "span search (Suc (length ps)) \<inter> (span (entry_local e) 40 \<union> fd_span p d) = {}" by blast
    then show ?thesis using prints_cstr [OF s2(4)] m1(2) by simp
  qed
  ultimately show ?thesis using m1(1) s2(1-3) by (intro exI [of _ ?s1] exI [of _ s2]) simp
qed

lemma grep_opened_strings:
  fixes s :: "'a process_scheme"
  defines "p \<equiv> get_pcb s"
  assumes c: "grep_call e data search buf ps x s" and pr: "prints (start_area e search p d) [] s s2" and i: "2 \<le> d" "d \<le> 7"
    and ps: "cstr (mem s2) search ps" and so: "stdout_ready s2"
  shows "grep_ready e search ps (lit e nl) [10] data s2" "mem s2 (data + 1024) \<noteq> 10"
proof -
  let ?S = "span search 1024" and ?W = "start_area e search p d" and ?G = "grep_area e p data"
  note r = grep_call_apart [OF c, folded p_def]
  have fp: "fd_span p d \<subseteq> span p 128" using fd_span_in_table [of d p] i by simp
  have k: "same_kernel s s2" and same: "\<And>y. y \<notin> ?W \<Longrightarrow> mem s2 y = mem s y" using pr by (auto simp: prints_def)
  have g: "get_pcb s2 = p" by (simp add: same_kernel_fields [OF k] p_def)
  have area: "?W \<subseteq> ?S \<union> ?G" using fp by (auto simp: grep_area_def start_area_def)
  have one: "Suc (length [y]) = 2" for y :: u8 by simp
  have lit: "grep_string e data a [y] s2" if a: "cstr (mem s) a [y]" "a \<noteq> 0" "span a 2 \<inter> (?S \<union> ?G) = {}" for a y
  proof -
    have "span a (Suc (length [y])) \<inter> ?W = {}" unfolding one using a(3) area by blast
    then have "cstr (mem s2) a [y]" by (rule prints_cstr [OF pr a(1)])
    then show ?thesis using a(2,3) g unfolding grep_string_def one by auto
  qed
  have "apart [(lit e '':'', 2), (entry_local e, 40), (p, 128), (data, 1025), (search, 1024), (buf, 33), (VIDEO, 4000)]"
      "apart [(lit e nl, 2), (entry_local e, 40), (p, 128), (data, 1025), (search, 1024), (buf, 33), (VIDEO, 4000)]"
    using c by (simp_all only: grep_call_def p_def)
  then have "span (lit e '':'') 2 \<inter> (?S \<union> ?G) = {}" "span (lit e nl) 2 \<inter> (?S \<union> ?G) = {}"
    by (simp_all add: grep_area_def Int_Un_distrib)
  moreover have "cstr (mem s) (lit e '':'') [58]" "cstr (mem s) (lit e nl) [10]" "lit e '':'' \<noteq> 0" "lit e nl \<noteq> 0"
    using c by (simp_all add: grep_call_def)
  ultimately have "grep_string e data (lit e '':'') [58] s2" "grep_string e data (lit e nl) [10] s2" by (blast intro: lit)+
  moreover have "span search (Suc (length ps)) \<subseteq> ?S" by (rule span_mono) (use c in \<open>simp add: grep_call_def\<close>)
  moreover have "?S \<inter> ?G = {}" using r(4,16,20,22) by (auto simp: grep_area_def)
  ultimately show "grep_ready e search ps (lit e nl) [10] data s2"
    using c so ps r(12,18) unfolding grep_ready_def grep_string_def g by (auto simp: grep_call_def)
  have "data + of_nat 1024 \<in> span data 1025" by (rule in_spanI) simp
  moreover have "span data 1025 \<inter> ?W = {}" using r(3,12,16) fp unfolding start_area_def by blast
  ultimately have "data + of_nat 1024 \<notin> ?W" by blast
  from same [OF this] show "mem s2 (data + 1024) \<noteq> 10" using c by (simp add: grep_call_def)
qed

lemma grep_opened_fds:
  fixes s :: "'a process_scheme"
  defines "p \<equiv> get_pcb s"
  assumes c: "grep_call e data search buf ps x s" and pr: "prints (start_area e search p d) [] s s2" and lf: "lowest_free (mem s) p d"
    and d2: "ld32 (mem s2) (pcb_flags p d) \<noteq> 0"
    and f: "d < f" "f \<le> 7" "ld32 (mem s) (pcb_flags p f) = 0" "\<forall>j. d < j \<and> j < f \<longrightarrow> ld32 (mem s) (pcb_flags p j) \<noteq> 0"
  shows "lowest_free (mem s2) p f"
proof -
  note r = grep_call_apart [OF c, folded p_def]
  have i: "2 \<le> d" "d \<le> 7" using lf by (simp_all add: lowest_free_def)
  have fl: "ld32 (mem s2) (pcb_flags p j) = ld32 (mem s) (pcb_flags p j)" if j: "0 \<le> j" "j < 8" "j \<noteq> d" for j
  proof -
    have a: "fd_span p j \<subseteq> span p 128" using fd_span_in_table j by simp
    have "fd_span p j \<inter> fd_span p d = {}" by (rule fd_spans_apart) (use j i in auto)
    moreover have "fd_span p j \<inter> span (entry_local e) 40 = {}" using a r(2) by blast
    moreover have "fd_span p j \<inter> span search 1024 = {}" using a r(22) by blast
    ultimately have "mem s2 y = mem s y" if "y \<in> fd_span p j" for y using pr that by (auto simp: prints_def start_area_def)
    then show ?thesis by (rule flags_cong)
  qed
  have "ld32 (mem s2) (pcb_flags p j) \<noteq> 0" if "2 \<le> j" "j < f" for j
    using fl [of j] lf f(2,4) d2 that by (cases "j = d"; cases "j < d") (auto simp: lowest_free_def)
  then show ?thesis using fl [of f] f i by (auto simp: lowest_free_def)
qed

lemma grep_starts:
  fixes s :: "'a process_scheme"
  defines "p \<equiv> get_pcb s"
  assumes c: "grep_call e data search buf ps x s" and lf: "lowest_free (mem s) p d"
    and f: "d < f" "f \<le> 7" "ld32 (mem s) (pcb_flags p f) = 0" "\<forall>j. d < j \<and> j < f \<longrightarrow> ld32 (mem s) (pcb_flags p j) \<noteq> 0"
  shows "\<exists>s1 s2. ece391_getargs e search 1024 s = Some (0, s1) \<and> ece391_open e (lit e ''.'') s1 = Some (d, s2) \<and>
     grep_walk e search ps data buf p d f s2 \<and> num_files_read s2 = 0 \<and>
     directory_report (mem s2) (bootblock_addr s2) ps 0 = directory_report (mem s) (bootblock_addr s) ps 0 \<and>
     prints (start_area e search p d) [] s s2"
proof -
  let ?bb = "bootblock_addr s" and ?W = "start_area e search p d"
  note r = grep_call_apart [OF c, folded p_def]
  have i: "2 \<le> d" "d \<le> 7" using lf by (simp_all add: lowest_free_def)
  have fp: "fd_span p d \<subseteq> span p 128" using fd_span_in_table [of d p] i by simp
  obtain s1 s2 where s2: "ece391_getargs e search 1024 s = Some (0, s1)" "ece391_open e (lit e ''.'') s1 = Some (d, s2)" "ls_ready e p d buf s2"
      "num_files_read s2 = 0" "cstr (mem s2) search ps" "prints ?W [] s s2"
    using grep_opens [OF c lf [unfolded p_def]] unfolding p_def by blast
  have k: "same_kernel s s2" using s2(6) by (simp add: prints_def)
  note kf = same_kernel_fields [OF k]
  have I: "mem s2 y = mem s y" if "y \<in> span ?bb (fs_size (mem s) ?bb)" for y
    using s2(6) that r(1,7,9) fp unfolding prints_def start_area_def by blast
  have eo: "entries_ok (mem s) ?bb" using c by (simp add: grep_call_def)
  note im = image_counts_cong [of ?bb "mem s" "mem s2", OF I] and en = entries_cong [of ?bb "mem s" "mem s2", OF I eo]
  have l: "stdout_ready s2" "ld32 (mem s2) (pcb_flags p d) \<noteq> 0" "ld32 (mem s2) (pcb_fops p d) = directory_table_addr s2"
      "\<exists>j. unat (num_files_read s2) \<le> j \<and> j < 63 \<and> dir_name (mem s2) (bootblock_addr s2) j = []"
    using s2(3) by (simp_all add: ls_ready_def)
  note st = grep_opened_strings [OF c s2(6) [unfolded p_def] i s2(5) l(1)]
  have lf2: "lowest_free (mem s2) p f" using grep_opened_fds [OF c] s2(6) lf l(2) f unfolding p_def by blast
  have "span search (Suc (length ps)) \<subseteq> span search 1024" by (rule span_mono) (use c in \<open>simp add: grep_call_def\<close>)
  then have "span buf 33 \<inter> span search (Suc (length ps)) = {}" using r(19) by blast
  moreover have "span buf 33 \<inter> span (lit e '':'') 2 = {}" "span buf 33 \<inter> span (lit e nl) 2 = {}"
    using c by (simp_all add: grep_call_def Int_commute)
  moreover have "span buf 33 \<inter> grep_area e p data = {}" using r(5,14,17,21) by (auto simp: grep_area_def)
  moreover have "grep_regions e data s2" using r(1-3,6-8,11,12,15,18) im(3) by (simp add: grep_regions_def kf p_def [symmetric])
  moreover have "mounted s2" using c im by (simp add: mounted_def kf grep_call_def)
  ultimately have "grep_walk e search ps data buf p d f s2"
    using st lf2 i f(1) l en(1) c r(10) im(3) unfolding grep_walk_def kf(1) p_def [symmetric]
    by (simp add: grep_call_def kf Int_Un_distrib Int_commute)
  then show ?thesis using s2(1,2,4,6) en(2) by (auto simp: kf(3))
qed

text \<open>C7: \<open>grep\<close> finds the lines. With its pattern as argument, two free descriptors and files whose lines are shorter
  than 1024 bytes and hold no zero byte, its \<open>main\<close> returns 0 and has sent to the terminal, for every
  file of the directory in order and every line of the file that holds the pattern, the name of the file, a
  colon and the line: however the lines fall on the pieces of 1024 bytes in which the files are read. Names
  that begin with a dot are left out, and the empty pattern finds nothing.\<close>

theorem grep_finds_lines:
  fixes s :: "'a process_scheme"
  defines "p \<equiv> get_pcb s"
  assumes "grep_call e data search buf ps x s" and "lowest_free (mem s) p d" and "d < f" "f \<le> 7" "ld32 (mem s) (pcb_flags p f) = 0"
    and "\<forall>j. d < j \<and> j < f \<longrightarrow> ld32 (mem s) (pcb_flags p j) \<noteq> 0"
  shows "\<exists>s'. grep_main e data search buf s = Some (0, s') \<and>
     tty_of s' = fold tty_putc (directory_report (mem s) (bootblock_addr s) ps 0) (tty_of s) \<and>
     (\<forall>y. y \<notin> walk_area e data buf p f \<union> span search 1024 \<union> fd_span p d \<longrightarrow> mem s' y = mem s y)"
proof -
  let ?A = "walk_area e data buf p f \<union> span search 1024 \<union> fd_span p d"
  obtain s1 s2 where s2: "ece391_getargs e search 1024 s = Some (0, s1)" "ece391_open e (lit e ''.'') s1 = Some (d, s2)"
      "grep_walk e search ps data buf p d f s2" "num_files_read s2 = 0"
      "directory_report (mem s2) (bootblock_addr s2) ps 0 = directory_report (mem s) (bootblock_addr s) ps 0"
      "prints (start_area e search p d) [] s s2"
    using grep_starts [of e data search buf ps x s d f] assms unfolding p_def by blast
  obtain s' where s': "grep_files e data search buf d s2 = Some (0, s')"
      "prints (walk_area e data buf p f) (directory_report (mem s2) (bootblock_addr s2) ps 0) s2 s'"
    using grep_files_reports [OF s2(3)] s2(4) by auto
  have "prints ?A ([] @ directory_report (mem s) (bootblock_addr s) ps 0) s s'"
    by (rule prints_append [OF prints_mono [OF s2(6)] prints_mono [OF s'(2) [unfolded s2(5)]]]) (auto simp: walk_area_def start_area_def)
  moreover have "grep_main e data search buf s = Some (0, s')"
    using s2(1,2) s'(1) assms(3) by (simp add: grep_main_def lowest_free_def)
  ultimately show ?thesis by (auto simp: prints_def)
qed

definition demo_grep_lits :: "string list" where
  "demo_grep_lits = [''.'', '':'', nl]"

definition demo_grep_mem :: memory where
  "demo_grep_mem = lit_mem demo_grep_lits (demo_user_mem(0x7FE080 := 101, 0x7FE081 := 108))"

definition demo_grep :: process where
  "demo_grep = demo_user\<lparr>mem := demo_grep_mem\<rparr>"

abbreviation demo_grep_env :: "process user_env" where
  "demo_grep_env \<equiv> demo_env\<lparr>lit := lit_addr demo_grep_lits\<rparr>"

lemma demo_grep_same: "x \<notin> span 0x10000 768 \<Longrightarrow> x \<notin> span 0x7FE080 2 \<Longrightarrow> demo_grep_mem x = demo_user_mem x"
proof -
  assume x: "x \<notin> span 0x10000 768" "x \<notin> span 0x7FE080 2"
  have "lit_mem demo_grep_lits m x = m x" for m by (rule lit_mem_outside) (use x(1) in \<open>simp_all add: demo_grep_lits_def\<close>)
  then show ?thesis using x(2) by (simp add: demo_grep_mem_def span_Cons numeral_2_eq_2)
qed

lemma demo_grep_strings:
  "cstr demo_grep_mem (lit demo_grep_env ''.'') [46]" "cstr demo_grep_mem (lit demo_grep_env '':'') [58]" "cstr demo_grep_mem (lit demo_grep_env nl) [10]"
  using lit_mem_cstr [of "''.''" demo_grep_lits] lit_mem_cstr [of "'':''" demo_grep_lits] lit_mem_cstr [of nl demo_grep_lits]
  by (simp_all add: demo_grep_mem_def demo_grep_lits_def chars_def nl_def)

lemma demo_grep_lit_addrs: "lit demo_grep_env ''.'' = 0x10000" "lit demo_grep_env '':'' = 0x10100" "lit demo_grep_env nl = 0x10200"
  by (simp_all add: lit_addr_def lit_index_def demo_grep_lits_def nl_def)

lemma demo_grep_image: "x \<in> span 0x1000 12288 \<Longrightarrow> demo_grep_mem x = demo_mem x"
proof -
  assume x: "x \<in> span 0x1000 12288"
  have "span 0x1000 12288 \<inter> span 0x10000 768 = {}" "span 0x1000 12288 \<inter> span 0x7FE080 2 = {}" by (rule span_apartI; simp)+
  then have "demo_grep_mem x = demo_user_mem x" using x by (intro demo_grep_same) blast+
  then show ?thesis using x demo_user_image [of x] by (simp add: demo_file)
qed

lemma demo_names_file: "names_file demo_mem 0x1000 [97] 1 0"
  using demo_names demo_file_ok(1)
  by (simp add: names_file_def dentry_filetype_def dentry_inode_num_def direntry_def ld32_def demo_mem_def)

lemma demo_grep_file: "names_file demo_grep_mem 0x1000 [97] 1 0" "file_bytes demo_grep_mem 0x1000 0 = [104, 101, 108, 108, 111]"
proof -
  have "demo_grep_mem x = demo_mem x" if "x \<in> span 0x1000 (fs_size demo_mem 0x1000)" for x
    using demo_grep_image [of x] that by (simp add: demo_file)
  note c = names_file_cong [of "0x1000" demo_mem demo_grep_mem "[97]" 1 0, OF this demo_names_file]
  show "names_file demo_grep_mem 0x1000 [97] 1 0" by (rule c(1))
  show "file_bytes demo_grep_mem 0x1000 0 = [104, 101, 108, 108, 111]" using c(2) by (simp add: demo_file_bytes)
qed

lemma demo_grep_names:
  assumes "j < 63"
  shows "dir_name demo_grep_mem 0x1000 j = (if j = 0 then [46] else if j = 1 then [97] else [])"
proof -
  have "span 0x1000 4096 \<inter> span 0x10000 768 = {}" "span 0x1000 4096 \<inter> span 0x7FE080 2 = {}" by (rule span_apartI; simp)+
  then have "demo_grep_mem x = demo_user_mem x" if "x \<in> span 0x1000 4096" for x using that by (intro demo_grep_same) blast+
  then have "dir_name demo_grep_mem 0x1000 j = dir_name demo_user_mem 0x1000 j" by (rule dir_name_boot_block [OF _ assms])
  then show ?thesis using demo_dir_names(1,2) demo_names_beyond [of j] assms by (cases "j < 2") (auto simp: less_2_cases_iff)
qed

lemma demo_grep_inode: "entry_inode demo_grep_mem 0x1000 1 = 0"
  using demo_grep_file(1) by (simp add: names_file_def entry_inode_def)

lemma demo_grep_entries: "entries_ok demo_grep_mem 0x1000" "directory_report demo_grep_mem 0x1000 [101, 108] 0 = [97, 58, 104, 101, 108, 108, 111, 10]"
proof -
  have "greppable [104, 101, 108, 108, 111]" by (simp add: greppable_def short_lines_def)
  then show "entries_ok demo_grep_mem 0x1000"
    using demo_grep_names demo_grep_file demo_grep_inode unfolding entries_ok_def by auto
  have "sublist [101, 108] [104, 101, 108, 108, 111 :: u8]" by (simp add: sublist_code)
  then have "entry_report demo_grep_mem 0x1000 [101, 108] 1 = [97, 58, 104, 101, 108, 108, 111, 10]"
    using demo_grep_names [of 1] demo_grep_file(2) demo_grep_inode
    by (simp add: entry_report_def grep_report_def line_report_def line_matches_def)
  moreover have "entry_report demo_grep_mem 0x1000 [101, 108] 0 = []" using demo_grep_names [of 0] by (simp add: entry_report_def)
  ultimately show "directory_report demo_grep_mem 0x1000 [101, 108] 0 = [97, 58, 104, 101, 108, 108, 111, 10]"
    using demo_grep_names [of 0] demo_grep_names [of 1] demo_grep_names [of 2] by (simp add: directory_report_unfold numeral_2_eq_2)
qed

lemma demo_grep_fd: "0 \<le> j \<Longrightarrow> j < 8 \<Longrightarrow> ld32 demo_grep_mem (pcb_flags 0x7FE000 j) = ld32 demo_user_mem (pcb_flags 0x7FE000 j)"
proof -
  assume j: "0 \<le> j" "j < 8"
  have "span 0x7FE000 128 \<inter> span 0x10000 768 = {}" "span 0x7FE000 128 \<inter> span 0x7FE080 2 = {}" by (rule span_apartI; simp)+
  then show ?thesis using fd_span_in_table [OF j, of "0x7FE000"] by (intro flags_cong demo_grep_same) blast+
qed

lemma demo_grep_stdout: "stdout_ready demo_grep"
proof -
  have v: "video \<inter> span 0x10000 768 = {}" "video \<inter> span 0x7FE080 2 = {}" by (rule span_apartI; simp)+
  have f: "span 0x7FE000 128 \<inter> span 0x10000 768 = {}" "span 0x7FE000 128 \<inter> span 0x7FE080 2 = {}" by (rule span_apartI; simp)+
  have "tty_of demo_grep = tty_of demo_user" unfolding demo_grep_def by (rule tty_of_mem) (use v in \<open>auto intro: demo_grep_same\<close>)
  moreover have "on_screen demo_grep" using demo_user_stdout by (simp add: stdout_ready_def on_screen_def demo_grep_def)
  moreover have "same_kernel demo_user demo_grep" unfolding demo_grep_def by (rule same_kernel_update)
  ultimately have "prints (span 0x10000 768 \<union> span 0x7FE080 2) [] demo_user demo_grep"
    by (simp add: prints_def demo_grep_same demo_grep_def)
  moreover have "fd_span 0x7FE000 1 \<subseteq> span 0x7FE000 128" by (rule fd_span_in_table) auto
  then have "fd_span (get_pcb demo_user) 1 \<inter> (span 0x10000 768 \<union> span 0x7FE080 2) = {}" using f by simp blast
  ultimately show ?thesis using prints_stdout_ready demo_user_stdout by blast
qed

lemma demo_grep_bytes: "demo_grep_mem 0x8400 = 0" "cstr demo_grep_mem 0x7FE080 [101, 108]"
proof -
  have "(0x8400 :: u32) \<notin> span 0x10000 768" "(0x8400 :: u32) \<notin> span 0x7FE080 2" "(0x8400 :: u32) \<notin> span 0x7FE000 32"
    by (subst in_span_unat; simp)+
  then show "demo_grep_mem 0x8400 = 0" by (simp add: demo_grep_same demo_user_same demo_mem_def)
  have o: "(0x7FE080 :: u32) \<notin> span 0x10000 768" "(0x7FE081 :: u32) \<notin> span 0x10000 768" by (subst in_span_unat; simp)+
  have l: "lit_mem demo_grep_lits m x = m x" if "x \<notin> span 0x10000 768" for m x
    by (rule lit_mem_outside) (use that in \<open>simp_all add: demo_grep_lits_def\<close>)
  have "(0x7FE082 :: u32) \<notin> span 0x10000 768" "(0x7FE082 :: u32) \<notin> span 0x7FE080 2" "(0x7FE082 :: u32) \<notin> span 0x7FE000 32"
    by (subst in_span_unat; simp)+
  then have "demo_grep_mem 0x7FE082 = 0" by (simp add: demo_grep_same demo_user_same demo_mem_def)
  then show "cstr demo_grep_mem 0x7FE080 [101, 108]" using l o by (simp add: demo_grep_mem_def)
qed

lemma demo_grep_image_counts: "fs_size demo_grep_mem 0x1000 = 12288" "ld32 demo_grep_mem 0x1008 = 1"
proof -
  have "demo_grep_mem x = demo_mem x" if "x \<in> span 0x1000 (fs_size demo_mem 0x1000)" for x
    using demo_grep_image [of x] that by (simp add: demo_file)
  note im = image_counts_cong [of "0x1000" demo_mem demo_grep_mem, OF this]
  show "fs_size demo_grep_mem 0x1000 = 12288" using im(3) by (simp add: demo_file)
  show "ld32 demo_grep_mem 0x1008 = 1" using im by (simp add: ld32_def demo_mem_def)
qed

lemma demo_grep_regions:
  "apart [(0x6000, 40), (0x1000, 12288), (0x7FE000, 256), (0x8000, 1025), (0x9000, 1024), (0xA000, 33), (VIDEO, 4000)]"
  "apart [(0x10100, 2), (0x6000, 40), (0x7FE000, 128), (0x8000, 1025), (0x9000, 1024), (0xA000, 33), (VIDEO, 4000)]"
  "apart [(0x10200, 2), (0x6000, 40), (0x7FE000, 128), (0x8000, 1025), (0x9000, 1024), (0xA000, 33), (VIDEO, 4000)]"
  by simp_all (intro conjI span_apartI; simp)+

lemma demo_grep_call: "grep_call demo_grep_env 0x8000 0x9000 0xA000 [101, 108] 0 demo_grep"
proof -
  have g: "mem demo_grep = demo_grep_mem" "bootblock_addr demo_grep = 0x1000" "get_pcb demo_grep = 0x7FE000" "entry_local demo_grep_env = 0x6000"
    by (simp_all add: demo_grep_def get_pcb_def demo_user_def demo_process_def demo_env_def)
  have "mounted demo_grep" using demo_grep_image_counts(2) by (simp add: mounted_def g) (simp add: demo_grep_def demo_user_def demo_process_def)
  moreover have "(0 :: u32) \<notin> span 0x8000 1025" by (subst in_span_unat) simp_all
  moreover have "span (0x10000 :: u32) 2 \<inter> span 0x9000 1024 = {}" by (rule span_apartI) simp
  moreover have "ld32 demo_grep_mem (dentry_filetype (direntry 0x1000 0)) = 1"
  proof -
    have "span (dentry_filetype (direntry 0x1000 0)) 4 \<subseteq> span 0x1000 12288"
      using sub_span [of 96 4 12288 "0x1000"] by (simp add: dentry_filetype_def direntry_def)
    then have "ld32 demo_grep_mem (dentry_filetype (direntry 0x1000 0)) = ld32 demo_mem (dentry_filetype (direntry 0x1000 0))"
      by (intro ld32_disjoint demo_grep_image) blast
    then show ?thesis by (simp add: dentry_filetype_def direntry_def ld32_def demo_mem_def)
  qed
  moreover have "\<exists>j < 63. dir_name demo_grep_mem 0x1000 j = []" using demo_grep_names [of 2] by (intro exI [of _ 2]) simp
  ultimately show ?thesis
    using demo_grep_stdout demo_grep_bytes demo_grep_strings demo_grep_entries(1) demo_grep_names [of 0] demo_grep_regions demo_grep_image_counts(1)
    unfolding grep_call_def g demo_grep_lit_addrs by (simp add: pcb_args_def)
qed

theorem grep_finds_lines_witness:
  "\<exists>s'. grep_main demo_grep_env 0x8000 0x9000 0xA000 demo_grep = Some (0, s') \<and>
     tty_of s' = fold tty_putc [97, 58, 104, 101, 108, 108, 111, 10] (tty_of demo_grep)"
proof -
  have g: "mem demo_grep = demo_grep_mem" "bootblock_addr demo_grep = 0x1000" "get_pcb demo_grep = 0x7FE000"
    by (simp_all add: demo_grep_def get_pcb_def demo_user_def demo_process_def)
  have f: "ld32 demo_grep_mem (pcb_flags 0x7FE000 j) = 0" if "2 \<le> j" "j < 8" for j
    using demo_grep_fd [of j] demo_user_free [of j] that by simp
  have "lowest_free (mem demo_grep) (get_pcb demo_grep) 2" using f [of 2] by (auto simp: lowest_free_def g)
  moreover have "ld32 (mem demo_grep) (pcb_flags (get_pcb demo_grep) 3) = 0" using f [of 3] by (simp add: g)
  moreover have "\<forall>j :: int. 2 < j \<and> j < 3 \<longrightarrow> ld32 (mem demo_grep) (pcb_flags (get_pcb demo_grep) j) \<noteq> 0"
    by (intro allI impI, elim conjE) linarith
  ultimately obtain s' where "grep_main demo_grep_env 0x8000 0x9000 0xA000 demo_grep = Some (0, s')"
      "tty_of s' = fold tty_putc (directory_report (mem demo_grep) (bootblock_addr demo_grep) [101, 108] 0) (tty_of demo_grep)"
    using grep_finds_lines [OF demo_grep_call, of 2 3] by auto
  then show ?thesis unfolding g demo_grep_entries(2) by blast
qed

end
