(* ===== verification/Frames.thy ===== *)
theory Frames
  imports Fish Grep
begin

text \<open>
  What \<open>add_frames\<close> of \<open>fish.c\<close> makes of two text files. The files are read side by side, one byte
  at a time, through the system calls; the specification is on their lines: every position of a row
  where one of the two lines has a visible character becomes a character of the abstract list of
  theory Blink. The loops of the program refine this, whatever the lengths of lines and files are.
\<close>

section \<open>The characters of two files\<close>

text \<open>The positions of a row from \<open>p\<close> on; a line that has ended stands as newlines.\<close>

fun row_cells :: "int \<Rightarrow> u8 list \<Rightarrow> u8 list \<Rightarrow> (int \<times> u8 \<times> u8) list" where
  "row_cells p [] [] = []"
| "row_cells p (a # as) [] = (p, a, 10) # row_cells (p + 1) as []"
| "row_cells p [] (b # bs) = (p, 10, b) # row_cells (p + 1) [] bs"
| "row_cells p (a # as) (b # bs) = (p, a, b) # row_cells (p + 1) as bs"

text \<open>The rows of two files from row \<open>r\<close> on; a file that has ended has empty lines.\<close>

fun frame_cells :: "int \<Rightarrow> u8 list list \<Rightarrow> u8 list list \<Rightarrow> (int \<times> u8 \<times> u8) list" where
  "frame_cells r [] [] = []"
| "frame_cells r (l # ls) [] = row_cells (r * 80 + 40) l [] @ frame_cells (r + 1) ls []"
| "frame_cells r [] (k # ks) = row_cells (r * 80 + 40) [] k @ frame_cells (r + 1) [] ks"
| "frame_cells r (l # ls) (k # ks) = row_cells (r * 80 + 40) l k @ frame_cells (r + 1) ls ks"

definition visible :: "int \<times> u8 \<times> u8 \<Rightarrow> bool" where
  "visible c = (case c of (p, a, b) \<Rightarrow> (a \<noteq> 32 \<and> a \<noteq> 10) \<or> (b \<noteq> 32 \<and> b \<noteq> 10))"

definition cell_blink :: "int \<times> u8 \<times> u8 \<Rightarrow> blink" where
  "cell_blink c = (case c of (p, a, b) \<Rightarrow>
     \<lparr>location = word_of_int p, on_char = (if a = 10 then 32 else a), off_char = (if b = 10 then 32 else b),
      on_length = 15, off_length = 15, countdown = 15, status = 1\<rparr>)"

text \<open>A visible character is put in front of the list, unless it is off the screen or there are 2000.\<close>

definition add_cell :: "int \<times> u8 \<times> u8 \<Rightarrow> blink list \<Rightarrow> blink list" where
  "add_cell c bs = (if visible c \<and> location (cell_blink c) < 2000 \<and> length bs < 2000 then cell_blink c # bs else bs)"

text \<open>No visible character at a position that wraps around to location 0.\<close>

definition cells_fit :: "(int \<times> u8 \<times> u8) list \<Rightarrow> bool" where
  "cells_fit cs \<longleftrightarrow> (\<forall>c \<in> set cs. visible c \<longrightarrow> location (cell_blink c) \<noteq> 0)"

lemma cells_fit_append [simp]: "cells_fit (cs @ ds) \<longleftrightarrow> cells_fit cs \<and> cells_fit ds"
  by (auto simp: cells_fit_def)

lemma cells_fit_Cons [simp]: "cells_fit (c # cs) \<longleftrightarrow> (visible c \<longrightarrow> location (cell_blink c) \<noteq> 0) \<and> cells_fit cs"
  by (auto simp: cells_fit_def)

text \<open>The first line of a text and what is behind its newline.\<close>

definition after_line :: "u8 list option \<Rightarrow> u8 list" where
  "after_line behind = (case behind of None \<Rightarrow> [] | Some ys \<Rightarrow> 10 # ys)"

definition lines_after :: "u8 list option \<Rightarrow> u8 list list" where
  "lines_after behind = (case behind of None \<Rightarrow> [] | Some ys \<Rightarrow> text_lines ys)"

lemma split_line: "\<exists>l behind. xs = l @ after_line behind \<and> 10 \<notin> set l \<and> text_lines xs = l # lines_after behind"
proof -
  define l where "l = takeWhile (\<lambda>c. c \<noteq> 10) xs"
  have l: "10 \<notin> set l" by (auto simp: l_def dest: set_takeWhileD)
  show ?thesis
  proof (cases "dropWhile (\<lambda>c. c \<noteq> 10) xs")
    case Nil
    then have "xs = l" by (metis append_Nil2 l_def takeWhile_dropWhile_id)
    then show ?thesis using l text_lines_one [OF l] by (intro exI [of _ l] exI [of _ None]) (simp add: after_line_def lines_after_def)
  next
    case (Cons c ys)
    then have "c = 10" using hd_dropWhile [of "\<lambda>c. c \<noteq> 10" xs] by simp
    then have "xs = l @ 10 # ys" using Cons by (metis l_def takeWhile_dropWhile_id)
    then show ?thesis using l text_lines_step [OF l] by (intro exI [of _ l] exI [of _ "Some ys"]) (simp add: after_line_def lines_after_def)
  qed
qed

section \<open>Adding a character\<close>

text \<open>The memory that an addition changes.\<close>

definition blink_area :: "fish_env \<Rightarrow> u32 \<Rightarrow> u32 set" where
  "blink_area h v = span (blink_array (globals h)) 32000 \<union> span v 4000 \<union> span (mp1_list_head (globals h)) 4 \<union>
     span (vmem_base_addr (globals h)) 4 \<union> span (ioctl_bp h - 16) 16 \<union> span (frame_struct h) 16"

definition frames_layout :: "fish_env \<Rightarrow> u32 \<Rightarrow> u32 \<Rightarrow> u32 set \<Rightarrow> bool" where
  "frames_layout h v p I \<longleftrightarrow> add_room (globals h) v (ioctl_bp h - 16) (frame_struct h) \<and>
     add_room (globals h) v (frame_struct h) (ioctl_bp h - 16) \<and> I \<inter> (span p 128 \<union> video) = {} \<and> blink_area h v \<inter> (span p 128 \<union> video \<union> I) = {} \<and>
     {char0 h, char1 h} \<inter> (blink_area h v \<union> span p 128 \<union> video \<union> I) = {} \<and> char0 h \<noteq> char1 h"

text \<open>The kernel's side of the program: the screen, its control block and the image \<open>I\<close>.\<close>

definition frames_base :: "fish_env \<Rightarrow> u32 \<Rightarrow> u32 \<Rightarrow> u32 set \<Rightarrow> 'a process_scheme \<Rightarrow> bool" where
  "frames_base h v p I s \<longleftrightarrow> frames_layout h v p I \<and> stdout_ready s \<and> get_pcb s = p \<and>
     span (bootblock_addr s) (fs_size (mem s) (bootblock_addr s)) = I"

text \<open>The program in the loops of \<open>add_frames\<close>: the list is \<open>bs\<close>.\<close>

definition frames_ok :: "fish_env \<Rightarrow> u32 \<Rightarrow> u32 \<Rightarrow> u32 set \<Rightarrow> u32 list \<Rightarrow> blink list \<Rightarrow> 'a process_scheme \<Rightarrow> bool" where
  "frames_ok h v p I ns bs s \<longleftrightarrow> frames_base h v p I s \<and> blinks_ok (globals h) v ns (mem s) \<and> map (blink_at (mem s)) ns = bs \<and>
     ld16 (mem s) (ON_LENGTH (frame_struct h)) = 15 \<and> ld16 (mem s) (OFF_LENGTH (frame_struct h)) = 15"

lemma frames_okD:
  assumes "frames_ok h v p I ns bs s"
  shows "frames_base h v p I s" "frames_layout h v p I" "stdout_ready s" "on_screen s" "get_pcb s = p"
    "span (bootblock_addr s) (fs_size (mem s) (bootblock_addr s)) = I"
  using assms by (auto simp: frames_ok_def frames_base_def stdout_ready_def)

text \<open>The list stays as it is when its memory does.\<close>

lemma blinks_keep:
  assumes ok: "blinks_ok g v ns m"
    and same: "\<And>x. x \<in> span (blink_array g) 32000 \<union> span (mp1_list_head g) 4 \<union> span (vmem_base_addr g) 4 \<Longrightarrow> m' x = m x"
  shows "blinks_ok g v ns m'" "map (blink_at m') ns = map (blink_at m) ns"
proof -
  have sl: "m' x = m x" if "q \<in> slots g" "x \<in> span q 16" for q x using slot_span [OF that(1)] that(2) by (intro same) auto
  have ns: "set ns \<subseteq> slots g" using ok by (auto simp: blinks_ok_def)
  show "blinks_ok g v ns m'"
  proof (rule blinks_ok_cong [OF ok])
    show "m' x = m x" if "x \<in> span (vmem_base_addr g) 4" for x using that by (intro same) simp
    show "m' x = m x" if "x \<in> span (mp1_list_head g) 4" for x using that by (intro same) simp
    show "ld16 m' q = ld16 m q" if "q \<in> slots g" for q using sl [OF that] in_node(2) [of 0 2 16 _ q] by (intro ld16_cong) simp
    show "ld32 m' (NEXT q) = ld32 m (NEXT q)" if "q \<in> set ns" for q
      using sl [of q] that ns in_node(2) [of 12 4 16 _ q] by (intro ld32_disjoint) auto
  qed
  have "blink_at m' q = blink_at m q" if "q \<in> set ns" for q
    using sl [of q] ns that in_node(2) [of 0 12 16 _ q] by (intro blink_at_cong) auto
  then show "map (blink_at m') ns = map (blink_at m) ns" by simp
qed

lemma base_keep:
  assumes r: "frames_base h v p I s" and pr: "prints W [] s s'" and W: "W \<inter> (fd_span p 1 \<union> I) = {}"
  shows "frames_base h v p I s'"
proof -
  have k: "same_kernel s s'" and same: "\<And>x. x \<notin> W \<Longrightarrow> mem s' x = mem s x" using pr by (auto simp: prints_def)
  have I: "span (bootblock_addr s) (fs_size (mem s) (bootblock_addr s)) = I" and p: "get_pcb s = p" using r by (simp_all add: frames_base_def)
  have "stdout_ready s'" using prints_stdout_ready [OF pr] r W p by (auto simp: frames_base_def)
  moreover have "fs_size (mem s') (bootblock_addr s) = fs_size (mem s) (bootblock_addr s)"
    by (rule image_counts_cong(3)) (use same W I in blast)
  ultimately show ?thesis using r unfolding frames_base_def same_kernel_fields [OF k] by simp
qed

lemma base_store:
  assumes r: "frames_base h v p I s" and m: "\<And>x. x \<notin> W \<Longrightarrow> m x = mem s x" and W: "W \<inter> (span p 128 \<union> video \<union> I) = {}"
  shows "frames_base h v p I (s\<lparr>mem := m\<rparr>)" "prints W [] s (s\<lparr>mem := m\<rparr>)"
proof -
  have "tty_of (s\<lparr>mem := m\<rparr>) = tty_of s" using W by (intro tty_of_mem m) blast
  then show pr: "prints W [] s (s\<lparr>mem := m\<rparr>)" using r m by (simp add: prints_def frames_base_def stdout_ready_def on_screen_def)
  have "fd_span p 1 \<subseteq> span p 128" by (rule fd_span_in_table) simp_all
  then show "frames_base h v p I (s\<lparr>mem := m\<rparr>)" using W by (intro base_keep [OF r pr]) blast
qed

lemma frames_keep:
  assumes r: "frames_ok h v p I ns bs s" and pr: "prints W [] s s'" and W: "W \<inter> (blink_area h v \<union> fd_span p 1 \<union> I) = {}"
  shows "frames_ok h v p I ns bs s'"
proof -
  have A: "mem s' x = mem s x" if "x \<in> blink_area h v" for x using pr that W by (auto simp: prints_def)
  have ok: "blinks_ok (globals h) v ns (mem s)" using r by (simp add: frames_ok_def)
  have "\<And>x. x \<in> span (blink_array (globals h)) 32000 \<union> span (mp1_list_head (globals h)) 4 \<union> span (vmem_base_addr (globals h)) 4 \<Longrightarrow>
      mem s' x = mem s x" by (intro A) (auto simp: blink_area_def)
  note b = blinks_keep [OF ok this]
  have "ld16 (mem s') (frame_struct h + of_nat k) = ld16 (mem s) (frame_struct h + of_nat k)" if "k + 2 \<le> 16" for k
    using in_node(2) [OF that, of _ "frame_struct h"] by (intro ld16_cong A) (auto simp: blink_area_def)
  note this [of 4] this [of 6]
  moreover have "frames_base h v p I s'" using W by (intro base_keep [OF frames_okD(1) [OF r] pr]) blast
  ultimately show ?thesis using r b by (simp add: frames_ok_def)
qed

text \<open>Stores into the caller's structure change nothing else.\<close>

lemma struct_store:
  assumes r: "frames_ok h v p I ns bs s" and m: "\<And>x. x \<notin> span (frame_struct h) 16 \<Longrightarrow> m x = mem s x"
  shows "blinks_ok (globals h) v ns m" "map (blink_at m) ns = bs"
proof -
  have a: "blinks_ok (globals h) v ns (mem s)" "add_room (globals h) v (frame_struct h) (ioctl_bp h - 16)" "map (blink_at (mem s)) ns = bs"
    using r frames_okD(2) [OF r] by (simp_all add: frames_ok_def frames_layout_def)
  show "blinks_ok (globals h) v ns m" "map (blink_at m) ns = bs" using outside_tmp_ok [OF a(1,2) m] a(3) by simp_all
qed

lemma area_change:
  assumes r: "frames_ok h v p I ns bs s" and m: "\<And>x. x \<notin> blink_area h v \<Longrightarrow> m x = mem s x"
    and ok: "blinks_ok (globals h) v ns' m" "map (blink_at m) ns' = bs'"
    and len: "ld16 m (ON_LENGTH (frame_struct h)) = 15" "ld16 m (OFF_LENGTH (frame_struct h)) = 15"
  shows "frames_ok h v p I ns' bs' (s\<lparr>mem := m\<rparr>)" "prints (blink_area h v) [] s (s\<lparr>mem := m\<rparr>)"
proof -
  have l: "blink_area h v \<inter> (span p 128 \<union> video \<union> I) = {}" using frames_okD(2) [OF r] by (simp add: frames_layout_def)
  note b = base_store [OF frames_okD(1) [OF r] m l]
  then show "prints (blink_area h v) [] s (s\<lparr>mem := m\<rparr>)" by simp
  show "frames_ok h v p I ns' bs' (s\<lparr>mem := m\<rparr>)" using b(1) ok len by (simp add: frames_ok_def)
qed

lemma add_char_adds:
  assumes r: "frames_ok h v p I ns bs s" and c: "mem s (char0 h) = a" "mem s (char1 h) = b"
    and fit: "visible (row * 80 + col + 40, a, b) \<longrightarrow> location (cell_blink (row * 80 + col + 40, a, b)) \<noteq> 0"
  shows "\<exists>ns' s'. add_char h row col s = Some s' \<and> frames_ok h v p I ns' (add_cell (row * 80 + col + 40, a, b) bs) s' \<and>
     prints (blink_area h v) [] s s'"
proof (cases "visible (row * 80 + col + 40, a, b)")
  case False
  then have "add_char h row col s = Some s" using c by (auto simp: add_char_def visible_def Let_def)
  moreover have "on_screen s" by (rule frames_okD(4) [OF r])
  ultimately show ?thesis using r False prints_Nil [of s] by (auto simp: add_cell_def)
next
  case True
  let ?f = "frame_struct h" and ?g = "globals h" and ?pos = "row * 80 + col + 40"
  define m1 where "m1 = st16 ((mem s)(ON_CHAR ?f := if a = 10 then 32 else a, OFF_CHAR ?f := if b = 10 then 32 else b)) ?f (word_of_int ?pos)"
  have m1x: "m1 x = mem s x" if "x \<notin> span ?f 4" for x
  proof -
    have "x \<noteq> ?f + of_nat k" if "k < 4" for k using \<open>x \<notin> span ?f 4\<close> in_spanI [OF that, of ?f] by blast
    from this [of 0] this [of 1] this [of 2] this [of 3] show ?thesis by (simp add: m1_def st16_def)
  qed
  have m1y: "m1 x = mem s x" if "x \<notin> span ?f 16" for x using that span_mono [of 4 16 ?f] by (intro m1x) auto
  have "ld16 m1 (?f + of_nat k) = ld16 (mem s) (?f + of_nat k)" if "4 \<le> k" "k + 2 \<le> 16" for k
  proof (rule ld16_cong)
    fix x assume "x \<in> span (?f + of_nat k) 2"
    moreover have "span ?f 4 \<inter> span (?f + of_nat k) 2 = {}" by (rule span_disjoint_offset) (use that in auto)
    ultimately show "m1 x = mem s x" by (intro m1x) blast
  qed
  note len = this [of 4] this [of 6]
  have l15: "ld16 m1 (ON_LENGTH ?f) = 15" "ld16 m1 (OFF_LENGTH ?f) = 15" using len r by (simp_all add: frames_ok_def)
  have b1: "fresh (blink_at m1 ?f) = cell_blink (?pos, a, b)" "location (blink_at m1 ?f) = word_of_int ?pos"
  proof -
    have "ld16 m1 ?f = word_of_int ?pos" unfolding m1_def by (rule ld16_st16)
    moreover have "m1 (ON_CHAR ?f) = (if a = 10 then 32 else a)" "m1 (OFF_CHAR ?f) = (if b = 10 then 32 else b)"
      by (simp_all add: m1_def st16_field)
    ultimately show "fresh (blink_at m1 ?f) = cell_blink (?pos, a, b)" "location (blink_at m1 ?f) = word_of_int ?pos"
      using l15 by (simp_all only: blink_at_def fresh_def cell_blink_def blink.simps prod.case)
  qed
  note s1 = struct_store [OF r m1y]
  have room: "add_room ?g v (ioctl_bp h - 16) ?f" using frames_okD(2) [OF r] by (simp add: frames_layout_def)
  have add: "add_char h row col s = (case mp1_ioctl_add ?g (ioctl_bp h) ?f m1 of (r, m) \<Rightarrow> Some (s\<lparr>mem := m\<rparr>))"
    using True c by (simp add: add_char_def visible_def Let_def fish_ioctl_def mp1_ioctl_def m1_def case_prod_unfold)
  have loc: "location (cell_blink (?pos, a, b)) = word_of_int ?pos" by (simp add: cell_blink_def)
  have full: "set ns = slots ?g \<longleftrightarrow> length bs = 2000" "length bs \<le> 2000" using full_list [OF s1(1)] s1(2) by auto
  have sub: "x \<notin> span (ioctl_bp h - 16) 16" "x \<notin> span ?f 16" "x \<notin> span (blink_array ?g) 32000" "x \<notin> span (mp1_list_head ?g) 4" "x \<notin> span v 4000"
    if "x \<notin> blink_area h v" for x using that by (auto simp: blink_area_def)
  have keep: "ld16 m (?f + of_nat k) = ld16 m1 (?f + of_nat k)" if "\<And>x. x \<in> span ?f 16 \<Longrightarrow> m x = m1 x" "k + 2 \<le> 16" for m k
    using that(1) in_node(2) [OF that(2), of _ ?f] by (intro ld16_cong) auto
  show ?thesis
  proof (cases "2000 \<le> location (blink_at m1 ?f) \<or> set ns = slots ?g")
    case no: True
    then obtain m' where m': "mp1_ioctl_add ?g (ioctl_bp h) ?f m1 = (- 1, m')" "\<And>x. x \<notin> span (ioctl_bp h - 16) 16 \<Longrightarrow> m' x = m1 x"
      using mp1_ioctl_add_inserts(1) [OF s1(1) room] by blast
    have "span (ioctl_bp h - 16) 16 \<inter> span ?f 16 = {}" using room by (simp add: add_room_def)
    then have "\<And>x. x \<in> span ?f 16 \<Longrightarrow> m' x = m1 x" by (intro m'(2)) blast
    note k = keep [OF this, of 4] keep [OF this, of 6]
    have "\<And>x. x \<notin> blink_area h v \<Longrightarrow> m' x = mem s x" using m'(2) m1y sub by simp
    note ch = area_change [OF r this outside_tmp_ok(1) [OF s1(1) room m'(2)] outside_tmp_ok(2) [OF s1(1) room m'(2)]]
    have "add_cell (?pos, a, b) bs = bs" using no full b1(2) by (auto simp: add_cell_def loc)
    then show ?thesis using ch k l15 add m'(1) s1(2) by (intro exI [of _ ns] exI [of _ "s\<lparr>mem := m'\<rparr>"]) simp
  next
    case yes: False
    have "0 < location (blink_at m1 ?f)" using fit True by (simp add: b1(2) loc word_neq_0_conv [symmetric])
    then obtain q m' where m': "mp1_ioctl_add ?g (ioctl_bp h) ?f m1 = (0, m')" "blinks_ok ?g v (q # ns) m'"
      "map (blink_at m') (q # ns) = fresh (blink_at m1 ?f) # map (blink_at m1) ns"
      "\<And>x. x \<notin> span (ioctl_bp h - 16) 16 \<Longrightarrow> x \<notin> span (blink_array ?g) 32000 \<Longrightarrow> x \<notin> span (mp1_list_head ?g) 4 \<Longrightarrow>
         x \<noteq> cell_at v (blink_at m1 ?f) \<Longrightarrow> m' x = m1 x"
      using mp1_ioctl_add_inserts(2) [OF s1(1) room] yes by (auto simp: not_le)
    have cell: "cell_at v (blink_at m1 ?f) \<in> span v 4000" using cell_in_screen [of "location (blink_at m1 ?f)" v] yes by (simp add: cell_at_def not_le)
    have fr: "add_room ?g v ?f (ioctl_bp h - 16)" using frames_okD(2) [OF r] by (simp add: frames_layout_def)
    have "\<And>x. x \<in> span ?f 16 \<Longrightarrow> m' x = m1 x" using fr cell by (intro m'(4)) (auto simp: add_room_def)
    note k = keep [OF this, of 4] keep [OF this, of 6]
    have "\<And>x. x \<notin> blink_area h v \<Longrightarrow> m' x = mem s x" using m'(4) m1y sub cell by metis
    note ch = area_change [OF r this m'(2,3)]
    have "add_cell (?pos, a, b) bs = cell_blink (?pos, a, b) # bs" using yes full True b1(2) by (auto simp: add_cell_def loc not_le)
    then show ?thesis using ch k l15 add m'(1) s1(2) b1(1) by (intro exI [of _ "q # ns"] exI [of _ "s\<lparr>mem := m'\<rparr>"]) simp
  qed
qed


section \<open>Reading the files\<close>

text \<open>A file whose current line still has the characters \<open>l\<close>, if it is \<open>unread\<close>; \<open>behind\<close> is what comes after the
  newline, \<open>None\<close> at the end of the file. A finished file may be closed.\<close>

definition held :: "u32 \<Rightarrow> int \<Rightarrow> 'a process_scheme \<Rightarrow> bool" where
  "held p fd s \<longleftrightarrow> 2 \<le> fd \<and> fd \<le> 7 \<and> (ld32 (mem s) (pcb_flags p fd) \<noteq> 0 \<longrightarrow> ld32 (mem s) (pcb_fops p fd) = files_table_addr s)"

definition feed :: "u32 \<Rightarrow> int \<Rightarrow> u32 \<Rightarrow> bool \<Rightarrow> bool \<Rightarrow> u8 list \<Rightarrow> u8 list option \<Rightarrow> 'a process_scheme \<Rightarrow> bool" where
  "feed p fd ch unread eof l behind s \<longleftrightarrow>
     (if unread then file_ready p fd ch 1 s \<and> mem s ch \<noteq> 10 \<and> \<not> eof \<and> 10 \<notin> set l \<and>
        drop (fd_pos fd s) (fd_content fd s) = l @ after_line behind
      else l = [] \<and> mem s ch = 10 \<and> eof = (behind = None) \<and>
        (case behind of None \<Rightarrow> held p fd s | Some ys \<Rightarrow> file_ready p fd ch 1 s \<and> drop (fd_pos fd s) (fd_content fd s) = ys))"

lemma file_ready_held: "file_ready p fd ch n s \<Longrightarrow> held p fd s"
  by (auto simp: file_ready_def held_def fd_reading_def)

lemma held_keep:
  assumes "held p fd s" and pr: "prints W [] s s'" and W: "W \<inter> fd_span p fd = {}"
  shows "held p fd s'"
proof -
  have k: "same_kernel s s'" and same: "mem s' x = mem s x" if "x \<in> fd_span p fd" for x using pr that W by (auto simp: prints_def)
  have "ld32 (mem s') (pcb_flags p fd) = ld32 (mem s) (pcb_flags p fd)" "ld32 (mem s') (pcb_fops p fd) = ld32 (mem s) (pcb_fops p fd)"
    using flags_in_fd_span [of p fd] fops_in_fd_span [of p fd] same by (intro ld32_disjoint; blast)+
  moreover have "same_kernel s s'" using pr by (simp add: prints_def)
  ultimately show ?thesis using assms(1) by (simp add: held_def same_kernel_fields)
qed

lemma feed_keep:
  assumes f: "feed p fd ch u e l b s" and pr: "prints W [] s s'"
    and W: "W \<inter> (fd_span p fd \<union> fd_span p 1 \<union> span (bootblock_addr s) (fs_size (mem s) (bootblock_addr s))) = {}" "ch \<notin> W"
  shows "feed p fd ch u e l b s'"
proof -
  have "mem s' ch = mem s ch" using pr W(2) by (simp add: prints_def)
  moreover have "W \<inter> fd_span p fd = {}" using W(1) by blast
  ultimately show ?thesis
    using f file_ready_apart [of p fd ch 1 s W "[]" s', OF _ pr W(1)] held_keep [OF _ pr, of p fd]
    by (auto simp: feed_def split: option.splits)
qed

lemma char_store:
  assumes o: "on_screen s" and ch: "ch \<notin> video"
  shows "prints {ch} [] s (s\<lparr>mem := (mem s)(ch := c)\<rparr>)"
proof -
  have "tty_of (s\<lparr>mem := (mem s)(ch := c)\<rparr>) = tty_of s" using ch by (intro tty_of_mem) auto
  then show ?thesis using o by (simp add: prints_def on_screen_def)
qed

text \<open>One character: the next of the line, or the end of the line.\<close>

lemma next_char_feeds:
  assumes f: "feed p fd ch u eof l behind s" and r: "frames_ok h v p I ns bs s" and ch: "ch = char0 h \<or> ch = char1 h"
  shows "\<exists>s'. next_char e fd ch eof s = Some (l = [] \<and> behind = None, s') \<and> prints (insert ch (fd_span p fd)) [] s s' \<and>
     (case l of [] \<Rightarrow> mem s' ch = 10 \<and> feed p fd ch False (behind = None) [] behind s'
      | c # l' \<Rightarrow> mem s' ch = c \<and> feed p fd ch True False l' behind s')"
proof (cases u)
  case False
  then have "next_char e fd ch eof s = Some (eof, s)" "on_screen s" using f frames_okD(4) [OF r] by (auto simp: next_char_def feed_def)
  then show ?thesis using f False prints_Nil [of s] by (intro exI [of _ s]) (auto simp: feed_def)
next
  case True
  have c: "ch \<notin> video" "ch \<notin> span p 128" "ch \<notin> I" and I: "span (bootblock_addr s) (fs_size (mem s) (bootblock_addr s)) = I"
    and pp: "get_pcb s = p" using frames_okD(2,5,6) [OF r] ch by (auto simp: frames_layout_def)
  have fr: "file_ready p fd ch 1 s" and m: "mem s ch \<noteq> 10" "10 \<notin> set l" "\<not> eof"
    and d: "drop (fd_pos fd s) (fd_content fd s) = l @ after_line behind" using f True by (simp_all add: feed_def)
  have fd: "0 \<le> fd" "fd < 8" using fr by (simp_all add: file_ready_def fd_reading_def)
  obtain s1 where s1: "ece391_read e fd ch 1 s = Some (int (length (take 1 (l @ after_line behind))), s1)" "file_ready p fd ch 1 s1"
    "rds (mem s1) ch (length (take 1 (l @ after_line behind))) = take 1 (l @ after_line behind)"
    "fd_pos fd s1 = fd_pos fd s + length (take 1 (l @ after_line behind))" "fd_content fd s1 = fd_content fd s"
    "fs_size (mem s1) (bootblock_addr s1) = fs_size (mem s) (bootblock_addr s)" "prints (span ch 1 \<union> fd_span p fd) [] s s1"
    using file_ready_read [OF fr, of e, unfolded d] by auto
  have pr: "prints (insert ch (fd_span p fd)) [] s s1" using s1(7) by (simp add: span_Suc)
  have k: "same_kernel s s1" using pr by (simp add: prints_def)
  have d1: "drop (fd_pos fd s1) (fd_content fd s1) = drop (length (take 1 (l @ after_line behind))) (l @ after_line behind)"
    unfolding s1(4,5) by (metis add.commute d drop_drop)
  show ?thesis
  proof (cases l)
    case (Cons x l')
    then have "mem s1 ch = x" "x \<noteq> 10" using s1(3) m(2) by (auto simp: rds_Cons)
    then have "feed p fd ch True False l' behind s1" using s1(2) m(2) d1 Cons by (simp add: feed_def)
    then show ?thesis using m s1(1) pr Cons \<open>mem s1 ch = x\<close> by (intro exI [of _ s1]) (simp add: next_char_def)
  next
    case Nil
    show ?thesis
    proof (cases behind)
      case None
      let ?s2 = "s1\<lparr>mem := (mem s1)(ch := 10)\<rparr>"
      have o: "on_screen s1" using pr by (simp add: prints_def)
      have p2: "prints {ch} [] s1 ?s2" by (rule char_store [OF o c(1)])
      have "fd_span p fd \<subseteq> span p 128" by (rule fd_span_in_table [OF fd])
      then have "held p fd ?s2" using c(2) by (intro held_keep [OF file_ready_held [OF s1(2)] p2]) auto
      then have "feed p fd ch False True [] None ?s2" by (simp add: feed_def)
      moreover have "prints (insert ch (fd_span p fd)) [] s ?s2"
        using prints_append [OF pr prints_mono [OF p2]] by simp
      ultimately show ?thesis using m s1(1) Nil None by (intro exI [of _ ?s2]) (simp add: next_char_def after_line_def)
    next
      case (Some ys)
      then have "mem s1 ch = 10" using s1(3) Nil by (simp add: after_line_def rds_Cons)
      moreover have "feed p fd ch False False [] (Some ys) s1" using s1(2) d1 Nil Some \<open>mem s1 ch = 10\<close> by (simp add: feed_def after_line_def)
      ultimately show ?thesis using m s1(1) pr Nil Some by (intro exI [of _ s1]) (simp add: next_char_def after_line_def)
    qed
  qed
qed


section \<open>A row\<close>

lemma feed_fd: "feed p fd ch u e l b s \<Longrightarrow> 2 \<le> fd \<and> fd < 8"
  by (auto simp: feed_def file_ready_def fd_reading_def held_def split: if_splits option.splits)

text \<open>What one file does leaves the list and the other file alone, and so does an addition.\<close>

lemma disjoint_subset: "A \<inter> C = {} \<Longrightarrow> B \<subseteq> A \<Longrightarrow> B \<inter> C = {}"
  by blast

lemma frames_apart:
  assumes r: "frames_ok h v p I ns bs s" and ch: "ch = char0 h \<or> ch = char1 h" and fd: "2 \<le> fd" "fd < 8"
  shows "insert ch (fd_span p fd) \<inter> (blink_area h v \<union> fd_span p 1 \<union> I) = {}"
    and "2 \<le> fd' \<Longrightarrow> fd' < 8 \<Longrightarrow> fd' \<noteq> fd \<Longrightarrow> insert ch (fd_span p fd) \<inter> (fd_span p fd' \<union> fd_span p 1 \<union> I) = {}"
    and "blink_area h v \<inter> (fd_span p fd \<union> fd_span p 1 \<union> I) = {}" and "ch \<notin> blink_area h v \<union> video \<union> I" and "ch \<notin> fd_span p i \<or> \<not> (0 \<le> i \<and> i < 8)"
proof -
  have l: "frames_layout h v p I" by (rule frames_okD(2) [OF r])
  have s: "fd_span p fd \<subseteq> span p 128" "fd_span p 1 \<subseteq> span p 128" "fd_span p fd \<inter> fd_span p 1 = {}"
    using fd_span_in_table [of fd p] fd_span_in_table [of 1 p] fd_spans_apart [of fd 1 p] fd by auto
  have c: "ch \<notin> blink_area h v" "ch \<notin> span p 128" "ch \<notin> video" "ch \<notin> I" using l ch by (auto simp: frames_layout_def)
  have d: "I \<inter> span p 128 = {}" "blink_area h v \<inter> span p 128 = {}" "blink_area h v \<inter> I = {}" using l by (auto simp: frames_layout_def)
  have t: "span p 128 \<inter> I = {}" "span p 128 \<inter> blink_area h v = {}" using d by blast+
  note e = disjoint_subset [OF t(1) s(1)] disjoint_subset [OF t(2) s(1)] disjoint_subset [OF t(2) s(2)]
  show "insert ch (fd_span p fd) \<inter> (blink_area h v \<union> fd_span p 1 \<union> I) = {}" using e(1,2) s c by auto
  show "blink_area h v \<inter> (fd_span p fd \<union> fd_span p 1 \<union> I) = {}" using e d(3) by (simp add: Int_Un_distrib Int_commute)
  show "ch \<notin> blink_area h v \<union> video \<union> I" using c by blast
  show "ch \<notin> fd_span p i \<or> \<not> (0 \<le> i \<and> i < 8)" using c fd_span_in_table [of i p] by blast
  show "insert ch (fd_span p fd) \<inter> (fd_span p fd' \<union> fd_span p 1 \<union> I) = {}" if "2 \<le> fd'" "fd' < 8" "fd' \<noteq> fd"
    using that e(1) s(2,3) c(2,4) fd_span_in_table [of fd' p] fd_spans_apart [of fd fd' p] fd by (simp add: Int_Un_distrib) blast
qed

text \<open>The program between two characters of a row, and what a step of it keeps.\<close>

definition row_state :: "fish_env \<Rightarrow> u32 \<Rightarrow> u32 \<Rightarrow> u32 set \<Rightarrow> u32 list \<Rightarrow> blink list \<Rightarrow> int \<Rightarrow> int \<Rightarrow> 'a process_scheme \<Rightarrow> bool" where
  "row_state h v p I ns bs fd0 fd1 s \<longleftrightarrow> frames_ok h v p I ns bs s \<and> 2 \<le> fd0 \<and> fd0 < 8 \<and> 2 \<le> fd1 \<and> fd1 < 8 \<and> fd0 \<noteq> fd1"

lemma other_feed:
  assumes r: "row_state h v p I ns bs fd0 fd1 s"
    and "(ch, fd, ch', fd') = (char0 h, fd0, char1 h, fd1) \<or> (ch, fd, ch', fd') = (char1 h, fd1, char0 h, fd0)"
    and pr: "prints W [] s s'" "W \<subseteq> insert ch (fd_span p fd)"
  shows "row_state h v p I ns bs fd0 fd1 s'" and "feed p fd' ch' u e l b s \<Longrightarrow> feed p fd' ch' u e l b s'"
proof -
  have f: "frames_ok h v p I ns bs s" and fd: "2 \<le> fd" "fd < 8" "2 \<le> fd'" "fd' < 8" "fd' \<noteq> fd" and ch: "ch = char0 h \<or> ch = char1 h" "ch' = char0 h \<or> ch' = char1 h"
    and ne: "ch \<noteq> ch'"
  proof -
    have n: "char0 h \<noteq> char1 h" using r by (simp add: row_state_def frames_ok_def frames_base_def frames_layout_def)
    have k: "frames_ok h v p I ns bs s" "2 \<le> fd0" "fd0 < 8" "2 \<le> fd1" "fd1 < 8" "fd0 \<noteq> fd1" using r by (simp_all add: row_state_def)
    show "frames_ok h v p I ns bs s" by (rule k)
    show "2 \<le> fd" "fd < 8" "2 \<le> fd'" "fd' < 8" "fd' \<noteq> fd" "ch = char0 h \<or> ch = char1 h" "ch' = char0 h \<or> ch' = char1 h" "ch \<noteq> ch'"
      using assms(2) k(2-6) n by auto
  qed
  have I: "span (bootblock_addr s) (fs_size (mem s) (bootblock_addr s)) = I" by (rule frames_okD(6) [OF f])
  note a = frames_apart [OF f ch(1) fd(1,2)]
  show "row_state h v p I ns bs fd0 fd1 s'"
    using frames_keep [OF f pr(1)] a(1) pr(2) r unfolding row_state_def by blast
  have "ch' \<notin> fd_span p fd" using frames_apart(5) [OF f ch(2) fd(3,4), of fd] fd by auto
  then have c: "ch' \<notin> W" using pr(2) ne by blast
  have W: "W \<inter> (fd_span p fd' \<union> fd_span p 1 \<union> span (bootblock_addr s) (fs_size (mem s) (bootblock_addr s))) = {}"
    using a(2) [OF fd(3-5)] pr(2) unfolding I by (rule disjoint_subset)
  show "feed p fd' ch' u e l b s \<Longrightarrow> feed p fd' ch' u e l b s'" by (rule feed_keep [OF _ pr(1) W c])
qed

lemma next_chars:
  assumes r: "row_state h v p I ns bs fd0 fd1 s" and f: "feed p fd0 (char0 h) u0 eof0 l0 b0 s" and g: "feed p fd1 (char1 h) u1 eof1 l1 b1 s"
  shows "\<exists>s1 s2. next_char e fd0 (char0 h) eof0 s = Some (l0 = [] \<and> b0 = None, s1) \<and>
     next_char e fd1 (char1 h) eof1 s1 = Some (l1 = [] \<and> b1 = None, s2) \<and> row_state h v p I ns bs fd0 fd1 s2 \<and>
     mem s2 (char0 h) = (if l0 = [] then 10 else hd l0) \<and> mem s2 (char1 h) = (if l1 = [] then 10 else hd l1) \<and>
     feed p fd0 (char0 h) (l0 \<noteq> []) (l0 = [] \<and> b0 = None) (tl l0) b0 s2 \<and> feed p fd1 (char1 h) (l1 \<noteq> []) (l1 = [] \<and> b1 = None) (tl l1) b1 s2"
proof -
  have ok: "frames_ok h v p I ns bs s" using r by (simp add: row_state_def)
  obtain s1 where s1: "next_char e fd0 (char0 h) eof0 s = Some (l0 = [] \<and> b0 = None, s1)" "prints (insert (char0 h) (fd_span p fd0)) [] s s1"
    "mem s1 (char0 h) = (if l0 = [] then 10 else hd l0)" "feed p fd0 (char0 h) (l0 \<noteq> []) (l0 = [] \<and> b0 = None) (tl l0) b0 s1"
    using next_char_feeds [OF f ok, of e] by (cases l0) auto
  have r1: "row_state h v p I ns bs fd0 fd1 s1" and g1: "feed p fd1 (char1 h) u1 eof1 l1 b1 s1"
    using other_feed [OF r _ s1(2) subset_refl, of "char1 h" fd1] g by auto
  have ok1: "frames_ok h v p I ns bs s1" using r1 by (simp add: row_state_def)
  obtain s2 where s2: "next_char e fd1 (char1 h) eof1 s1 = Some (l1 = [] \<and> b1 = None, s2)" "prints (insert (char1 h) (fd_span p fd1)) [] s1 s2"
    "mem s2 (char1 h) = (if l1 = [] then 10 else hd l1)" "feed p fd1 (char1 h) (l1 \<noteq> []) (l1 = [] \<and> b1 = None) (tl l1) b1 s2"
    using next_char_feeds [OF g1 ok1, of e] by (cases l1) auto
  have r2: "row_state h v p I ns bs fd0 fd1 s2" and f2: "feed p fd0 (char0 h) (l0 \<noteq> []) (l0 = [] \<and> b0 = None) (tl l0) b0 s2"
    using other_feed [OF r1 _ s2(2) subset_refl, of "char0 h" fd0] s1(4) by auto
  have "mem s2 (char0 h) = mem s1 (char0 h)"
  proof -
    have "char0 h \<noteq> char1 h" using frames_okD(2) [OF ok] by (simp add: frames_layout_def)
    moreover have "char0 h \<notin> fd_span p fd1"
      using frames_apart(5) [OF ok _, of "char0 h" fd0 fd1] r by (auto simp: row_state_def)
    ultimately show ?thesis using s2(2) by (auto simp: prints_def)
  qed
  then show ?thesis using s1 s2 r2 f2 by auto
qed

lemma row_cells_step:
  "l \<noteq> [] \<or> k \<noteq> [] \<Longrightarrow> row_cells q l k = (q, if l = [] then 10 else hd l, if k = [] then 10 else hd k) # row_cells (q + 1) (tl l) (tl k)"
  by (cases l; cases k) auto

lemma feed_no_newline: "feed p fd ch u e l b s \<Longrightarrow> 10 \<notin> set l"
  by (auto simp: feed_def split: if_splits)

lemma add_row_cells:
  fixes s :: "'a process_scheme"
  assumes "row_state h v p I ns bs fd0 fd1 s" "feed p fd0 (char0 h) u0 eof0 l0 b0 s" "feed p fd1 (char1 h) u1 eof1 l1 b1 s"
    and "cells_fit (row_cells (row * 80 + col + 40) l0 l1)"
  shows "\<exists>ns' s'. add_row e h fd0 fd1 row col eof0 eof1 s = Some (b0 = None, b1 = None, s') \<and>
     row_state h v p I ns' (fold add_cell (row_cells (row * 80 + col + 40) l0 l1) bs) fd0 fd1 s' \<and>
     feed p fd0 (char0 h) False (b0 = None) [] b0 s' \<and> feed p fd1 (char1 h) False (b1 = None) [] b1 s'"
  using assms
proof (induction "length l0 + length l1" arbitrary: l0 l1 u0 u1 eof0 eof1 col ns bs s rule: less_induct)
  case less
  obtain s1 s2 where s2: "next_char e fd0 (char0 h) eof0 s = Some (l0 = [] \<and> b0 = None, s1)"
     "next_char e fd1 (char1 h) eof1 s1 = Some (l1 = [] \<and> b1 = None, s2)" "row_state h v p I ns bs fd0 fd1 s2"
     "mem s2 (char0 h) = (if l0 = [] then 10 else hd l0)" "mem s2 (char1 h) = (if l1 = [] then 10 else hd l1)"
     "feed p fd0 (char0 h) (l0 \<noteq> []) (l0 = [] \<and> b0 = None) (tl l0) b0 s2" "feed p fd1 (char1 h) (l1 \<noteq> []) (l1 = [] \<and> b1 = None) (tl l1) b1 s2"
    using next_chars [OF less.prems(1-3), of e] by blast
  have nl: "10 \<notin> set l0" "10 \<notin> set l1" using feed_no_newline less.prems(2,3) by blast+
  then have ended: "mem s2 (char0 h) = 10 \<and> mem s2 (char1 h) = 10 \<longleftrightarrow> l0 = [] \<and> l1 = []" using s2(4,5) by (cases l0; cases l1) auto
  show ?case
  proof (cases "l0 = [] \<and> l1 = []")
    case True
    then have "add_row e h fd0 fd1 row col eof0 eof1 s = Some (b0 = None, b1 = None, s2)"
      using s2(1,2) ended by (subst add_row.simps) simp
    then show ?thesis using True s2(3,6,7) by auto
  next
    case False
    let ?q = "row * 80 + col + 40"
    let ?c = "(?q, if l0 = [] then 10 else hd l0, if l1 = [] then 10 else hd l1)"
    have cells: "row_cells ?q l0 l1 = ?c # row_cells (row * 80 + (col + 1) + 40) (tl l0) (tl l1)"
      using row_cells_step [of l0 l1 ?q] False by (simp add: algebra_simps)
    have fit: "visible ?c \<longrightarrow> location (cell_blink ?c) \<noteq> 0" "cells_fit (row_cells (row * 80 + (col + 1) + 40) (tl l0) (tl l1))"
      using less.prems(4) unfolding cells by simp_all
    have ok2: "frames_ok h v p I ns bs s2" and fd: "2 \<le> fd0" "fd0 < 8" "2 \<le> fd1" "fd1 < 8" using s2(3) by (simp_all add: row_state_def)
    from add_char_adds [OF ok2 s2(4,5) fit(1)] obtain ns3 s3 where
      s3: "add_char h row col s2 = Some s3" "frames_ok h v p I ns3 (add_cell ?c bs) s3" "prints (blink_area h v) [] s2 s3" by blast
    have r3: "row_state h v p I ns3 (add_cell ?c bs) fd0 fd1 s3" using s3(2) s2(3) by (simp add: row_state_def)
    have I: "span (bootblock_addr s2) (fs_size (mem s2) (bootblock_addr s2)) = I" by (rule frames_okD(6) [OF ok2])
    note a0 = frames_apart [OF ok2 _ fd(1,2), of "char0 h"] and a1 = frames_apart [OF ok2 _ fd(3,4), of "char1 h"]
    have f3: "feed p fd0 (char0 h) (l0 \<noteq> []) (l0 = [] \<and> b0 = None) (tl l0) b0 s3"
      by (rule feed_keep [OF s2(6) s3(3)]) (use a0(3,4) I in auto)
    have g3: "feed p fd1 (char1 h) (l1 \<noteq> []) (l1 = [] \<and> b1 = None) (tl l1) b1 s3"
      by (rule feed_keep [OF s2(7) s3(3)]) (use a1(3,4) I in auto)
    have "length (tl l0) + length (tl l1) < length l0 + length l1" using False by (cases l0; cases l1) auto
    from less.hyps [OF this r3 f3 g3 fit(2)] obtain ns' s' where
      "add_row e h fd0 fd1 row (col + 1) (l0 = [] \<and> b0 = None) (l1 = [] \<and> b1 = None) s3 = Some (b0 = None, b1 = None, s')"
      "row_state h v p I ns' (fold add_cell (row_cells (row * 80 + (col + 1) + 40) (tl l0) (tl l1)) (add_cell ?c bs)) fd0 fd1 s'"
      "feed p fd0 (char0 h) False (b0 = None) [] b0 s'" "feed p fd1 (char1 h) False (b1 = None) [] b1 s'" by blast
    moreover from this(1) have "add_row e h fd0 fd1 row col eof0 eof1 s = Some (b0 = None, b1 = None, s')"
      using s2(1,2) s3(1) ended False by (subst add_row.simps) (simp only: bind.simps prod.case if_False)
    ultimately show ?thesis unfolding cells by auto
  qed
qed


section \<open>All rows\<close>

text \<open>A file at the start of a row, with the lines \<open>ls\<close> to come; a finished file is closed.\<close>

definition row_feed :: "u32 \<Rightarrow> int \<Rightarrow> u32 \<Rightarrow> bool \<Rightarrow> u8 list list \<Rightarrow> 'a process_scheme \<Rightarrow> bool" where
  "row_feed p fd ch eof ls s \<longleftrightarrow>
     (if eof then ls = [] \<and> feed p fd ch False True [] None s \<and> ld32 (mem s) (pcb_flags p fd) = 0
      else \<exists>l b. feed p fd ch True False l b s \<and> ls = l # lines_after b)"

lemma row_feed_line:
  assumes "row_feed p fd ch eof ls s"
  obtains b where "feed p fd ch (\<not> eof) eof (if ls = [] then [] else hd ls) b s" "lines_after b = tl ls" "eof = (ls = [])"
proof (cases eof)
  case True
  show ?thesis by (rule that [of None]) (use assms True in \<open>simp_all add: row_feed_def lines_after_def\<close>)
next
  case False
  then obtain l b where b: "feed p fd ch True False l b s" "ls = l # lines_after b" using assms by (auto simp: row_feed_def)
  show ?thesis by (rule that [of b]) (use b False in simp_all)
qed

lemma row_feed_keep:
  assumes f: "row_feed p fd ch eof ls s" and pr: "prints W [] s s'"
    and W: "W \<inter> (fd_span p fd \<union> fd_span p 1 \<union> span (bootblock_addr s) (fs_size (mem s) (bootblock_addr s))) = {}" "ch \<notin> W"
  shows "row_feed p fd ch eof ls s'"
proof -
  have "mem s' x = mem s x" if "x \<in> fd_span p fd" for x using pr that W(1) by (auto simp: prints_def)
  then have "ld32 (mem s') (pcb_flags p fd) = ld32 (mem s) (pcb_flags p fd)" by (rule flags_cong)
  then show ?thesis using f feed_keep [OF _ pr W] unfolding row_feed_def by (cases eof) (simp, metis (full_types))
qed

lemma close_closed:
  assumes "2 \<le> fd" "fd \<le> 7" "ld32 (mem s) (pcb_flags (get_pcb s) fd) = 0"
  shows "ece391_close e fd s = Some (- 1, s)"
  using assms by (simp add: ece391_close_def do_call_def syscall_def sint_word_of_int close_fd_def Let_def)

lemma end_row_feeds:
  assumes r: "row_state h v p I ns bs fd0 fd1 s" and f: "feed p fd ch False (b = None) [] b s"
    and ch: "ch = char0 h \<or> ch = char1 h"
  shows "\<exists>s'. end_row e fd ch (b = None) s = Some s' \<and> prints (insert ch (fd_span p fd)) [] s s' \<and> row_feed p fd ch (b = None) (lines_after b) s'"
proof -
  have ok: "frames_ok h v p I ns bs s" using r by (simp add: row_state_def)
  have fd: "2 \<le> fd" "fd < 8" using feed_fd [OF f] by simp_all
  have so: "on_screen s" "stdout_ready s" "get_pcb s = p" and I: "span (bootblock_addr s) (fs_size (mem s) (bootblock_addr s)) = I"
    using frames_okD [OF ok] by simp_all
  have c: "ch \<notin> video" "ch \<notin> I" "ch \<notin> fd_span p fd" "ch \<notin> fd_span p 1"
    using frames_apart(4) [OF ok ch fd] frames_apart(5) [OF ok ch fd, of fd] frames_apart(5) [OF ok ch fd, of 1] fd by auto
  show ?thesis
  proof (cases b)
    case None
    let ?s1 = "s\<lparr>mem := (mem s)(ch := 10)\<rparr>"
    have s1: "?s1 = s" using f None by (simp add: feed_def fun_upd_idem)
    have h: "held p fd s" "mem s ch = 10" using f None by (simp_all add: feed_def)
    have "\<exists>r s'. ece391_close e fd s = Some (r, s') \<and> prints (fd_span p fd) [] s s' \<and> ld32 (mem s') (pcb_flags p fd) = 0"
    proof (cases "ld32 (mem s) (pcb_flags p fd) = 0")
      case True
      then show ?thesis using close_closed [of fd s e] fd so(1,3) prints_Nil [of s] by auto
    next
      case False
      then have "served s fd" using h(1) so(3) by (simp add: held_def served_def)
      then show ?thesis using close_served [OF so(2), of fd e] False fd so(3) by (auto simp: emits_def)
    qed
    then obtain r s' where s': "ece391_close e fd s = Some (r, s')" "prints (fd_span p fd) [] s s'" "ld32 (mem s') (pcb_flags p fd) = 0" by blast
    have "mem s' ch = 10" using s'(2) c(3) h(2) by (simp add: prints_def)
    then have "row_feed p fd ch True [] s'" using s'(3) fd by (simp add: row_feed_def feed_def held_def)
    moreover have "prints (insert ch (fd_span p fd)) [] s s'" by (rule prints_mono [OF s'(2)]) blast
    ultimately show ?thesis using s'(1) s1 None by (intro exI [of _ s']) (simp add: end_row_def lines_after_def)
  next
    case (Some ys)
    let ?s' = "s\<lparr>mem := (mem s)(ch := 48)\<rparr>"
    have pr: "prints {ch} [] s ?s'" by (rule char_store [OF so(1) c(1)])
    have fr: "file_ready p fd ch 1 s" "drop (fd_pos fd s) (fd_content fd s) = ys" using f Some by (simp_all add: feed_def)
    have "{ch} \<inter> (fd_span p fd \<union> fd_span p 1 \<union> span (bootblock_addr s) (fs_size (mem s) (bootblock_addr s))) = {}" using c(2-4) I by simp
    note a = file_ready_apart [OF fr(1) pr this]
    obtain l b' where "ys = l @ after_line b'" "10 \<notin> set l" "text_lines ys = l # lines_after b'" using split_line by blast
    then have "row_feed p fd ch False (lines_after b) ?s'"
      using a(1-3) fr(2) Some unfolding row_feed_def feed_def lines_after_def by auto
    moreover have "prints (insert ch (fd_span p fd)) [] s ?s'" by (rule prints_mono [OF pr]) blast
    ultimately show ?thesis using Some by (intro exI [of _ ?s']) (simp add: end_row_def)
  qed
qed

lemma frame_cells_step:
  "ls \<noteq> [] \<or> ks \<noteq> [] \<Longrightarrow> frame_cells r ls ks =
     row_cells (r * 80 + 40) (if ls = [] then [] else hd ls) (if ks = [] then [] else hd ks) @ frame_cells (r + 1) (tl ls) (tl ks)"
  by (cases ls; cases ks) auto

lemma add_rows_cells:
  fixes s :: "'a process_scheme"
  assumes "row_state h v p I ns bs fd0 fd1 s" "row_feed p fd0 (char0 h) eof0 ls0 s" "row_feed p fd1 (char1 h) eof1 ls1 s"
    and "cells_fit (frame_cells row ls0 ls1)"
  shows "\<exists>ns' s'. add_rows e h fd0 fd1 row eof0 eof1 s = Some s' \<and> row_state h v p I ns' (fold add_cell (frame_cells row ls0 ls1) bs) fd0 fd1 s' \<and>
     row_feed p fd0 (char0 h) True [] s' \<and> row_feed p fd1 (char1 h) True [] s'"
  using assms
proof (induction "length ls0 + length ls1" arbitrary: ls0 ls1 eof0 eof1 row ns bs s rule: less_induct)
  case less
  obtain b0 where b0: "feed p fd0 (char0 h) (\<not> eof0) eof0 (if ls0 = [] then [] else hd ls0) b0 s" "lines_after b0 = tl ls0" "eof0 = (ls0 = [])"
    using row_feed_line [OF less.prems(2)] by blast
  obtain b1 where b1: "feed p fd1 (char1 h) (\<not> eof1) eof1 (if ls1 = [] then [] else hd ls1) b1 s" "lines_after b1 = tl ls1" "eof1 = (ls1 = [])"
    using row_feed_line [OF less.prems(3)] by blast
  show ?case
  proof (cases "ls0 = [] \<and> ls1 = []")
    case True
    then have "add_rows e h fd0 fd1 row eof0 eof1 s = Some s" using b0(3) b1(3) by (subst add_rows.simps) simp
    then show ?thesis using less.prems True b0(3) b1(3) by auto
  next
    case False
    let ?l = "if ls0 = [] then [] else hd ls0" and ?k = "if ls1 = [] then [] else hd ls1"
    define bs1 where "bs1 = fold add_cell (row_cells (row * 80 + 0 + 40) ?l ?k) bs"
    note cells = frame_cells_step [of ls0 ls1 row, OF False [unfolded de_Morgan_conj]]
    have fit: "cells_fit (row_cells (row * 80 + 0 + 40) ?l ?k)" "cells_fit (frame_cells (row + 1) (tl ls0) (tl ls1))"
      using less.prems(4) unfolding cells by simp_all
    from add_row_cells [OF less.prems(1) b0(1) b1(1) fit(1), of e, folded bs1_def] obtain ns1 s1 where
      s1: "add_row e h fd0 fd1 row 0 eof0 eof1 s = Some (b0 = None, b1 = None, s1)"
        "row_state h v p I ns1 bs1 fd0 fd1 s1"
        "feed p fd0 (char0 h) False (b0 = None) [] b0 s1" "feed p fd1 (char1 h) False (b1 = None) [] b1 s1" by blast
    from end_row_feeds [OF s1(2,3), of e] obtain s2 where
      s2: "end_row e fd0 (char0 h) (b0 = None) s1 = Some s2" "prints (insert (char0 h) (fd_span p fd0)) [] s1 s2"
        "row_feed p fd0 (char0 h) (b0 = None) (lines_after b0) s2" by blast
    have r2: "row_state h v p I ns1 bs1 fd0 fd1 s2"
      and g2: "feed p fd1 (char1 h) False (b1 = None) [] b1 s2"
      using other_feed [OF s1(2) _ s2(2) subset_refl, of "char1 h" fd1] s1(4) by auto
    from end_row_feeds [OF r2 g2, of e] obtain s3 where
      s3: "end_row e fd1 (char1 h) (b1 = None) s2 = Some s3" "prints (insert (char1 h) (fd_span p fd1)) [] s2 s3"
        "row_feed p fd1 (char1 h) (b1 = None) (lines_after b1) s3" by blast
    have r3: "row_state h v p I ns1 bs1 fd0 fd1 s3"
      using other_feed(1) [OF r2 _ s3(2) subset_refl] by auto
    have f3: "row_feed p fd0 (char0 h) (b0 = None) (lines_after b0) s3"
    proof (rule row_feed_keep [OF s2(3) s3(2)])
      have ok: "frames_ok h v p I ns1 bs1 s2"
        and fd: "2 \<le> fd0" "fd0 < 8" "2 \<le> fd1" "fd1 < 8" "fd0 \<noteq> fd1" using r2 by (simp_all add: row_state_def)
      have "span (bootblock_addr s2) (fs_size (mem s2) (bootblock_addr s2)) = I" by (rule frames_okD(6) [OF ok])
      then show "insert (char1 h) (fd_span p fd1) \<inter> (fd_span p fd0 \<union> fd_span p 1 \<union> span (bootblock_addr s2) (fs_size (mem s2) (bootblock_addr s2))) = {}"
        using frames_apart(2) [OF ok disjI2 [OF refl] fd(3,4,1,2,5)] by simp
      show "char0 h \<notin> insert (char1 h) (fd_span p fd1)"
        using frames_apart(5) [OF ok disjI1 [OF refl] fd(1,2), of fd1] fd frames_okD(2) [OF ok] by (auto simp: frames_layout_def)
    qed
    have "length (tl ls0) + length (tl ls1) < length ls0 + length ls1" using False by (cases ls0; cases ls1) auto
    from less.hyps [OF this r3 f3 [unfolded b0(2)] s3(3) [unfolded b1(2)] fit(2)] obtain ns' s' where
      s': "add_rows e h fd0 fd1 (row + 1) (b0 = None) (b1 = None) s3 = Some s'"
        "row_state h v p I ns' (fold add_cell (frame_cells (row + 1) (tl ls0) (tl ls1)) bs1) fd0 fd1 s'"
        "row_feed p fd0 (char0 h) True [] s'" "row_feed p fd1 (char1 h) True [] s'" by blast
    have "add_rows e h fd0 fd1 row eof0 eof1 s = Some s'"
      using False b0(3) b1(3) s1(1) s2(1) s3(1) s'(1) by (subst add_rows.simps) (simp only: bind.simps prod.case split: if_splits, blast)
    then show ?thesis using s'(2-4) unfolding cells bs1_def by (intro exI [of _ ns'] exI [of _ s']) simp
  qed
qed


section \<open>The whole of \<open>add_frames\<close>\<close>

text \<open>A name at \<open>f\<close> of a regular file of the directory, apart from what the program changes.\<close>

definition frame_name :: "'a process_scheme user_env \<Rightarrow> fish_env \<Rightarrow> u32 \<Rightarrow> u32 \<Rightarrow> u8 list \<Rightarrow> nat \<Rightarrow> u32 \<Rightarrow> 'a process_scheme \<Rightarrow> bool" where
  "frame_name e h v f name x n s \<longleftrightarrow> names_file (mem s) (bootblock_addr s) name x n \<and> cstr (mem s) f name \<and> f \<noteq> 0 \<and> name \<noteq> [] \<and>
     length name \<le> 32 \<and> BACKSPACE \<notin> set (file_bytes (mem s) (bootblock_addr s) n) \<and>
     span f (Suc (length name)) \<inter> (insert (char0 h) (insert (char1 h) (blink_area h v)) \<union> span (entry_local e) 40 \<union> span (get_pcb s) 128) = {}"

lemma frame_name_keep:
  assumes f: "frame_name e h v f name x n s" and pr: "prints W [] s s'"
    and W: "W \<subseteq> insert (char0 h) (insert (char1 h) (blink_area h v)) \<union> span (entry_local e) 40 \<union> span (get_pcb s) 128"
      "W \<inter> span (bootblock_addr s) (fs_size (mem s) (bootblock_addr s)) = {}"
  shows "frame_name e h v f name x n s'" "file_bytes (mem s') (bootblock_addr s') n = file_bytes (mem s) (bootblock_addr s) n"
proof -
  have k: "same_kernel s s'" and same: "\<And>x. x \<notin> W \<Longrightarrow> mem s' x = mem s x" using pr by (auto simp: prints_def)
  have agree: "mem s' x = mem s x" if "x \<in> span (bootblock_addr s) (fs_size (mem s) (bootblock_addr s))" for x
    using that W(2) by (intro same) blast
  have nf: "names_file (mem s) (bootblock_addr s) name x n" using f by (simp add: frame_name_def)
  note c = names_file_cong [OF agree nf]
  have "span f (Suc (length name)) \<inter> W = {}" using f W(1) unfolding frame_name_def by blast
  then have "cstr (mem s') f name" using prints_cstr [OF pr] f by (simp add: frame_name_def)
  then show "frame_name e h v f name x n s'" using f c unfolding frame_name_def same_kernel_fields [OF k] by simp
  show "file_bytes (mem s') (bootblock_addr s') n = file_bytes (mem s) (bootblock_addr s) n"
    using c(2) by (simp add: same_kernel_fields [OF k])
qed

text \<open>The state in which \<open>add_frames\<close> is called: the list is well-formed, the two files exist, and \<open>fd0\<close> and \<open>fd1\<close>
  are the two lowest free descriptors.\<close>

definition frames_call :: "'a process_scheme user_env \<Rightarrow> fish_env \<Rightarrow> u32 \<Rightarrow> u32 list \<Rightarrow> int \<Rightarrow> int \<Rightarrow> 'a process_scheme \<Rightarrow> bool" where
  "frames_call e h v ns fd0 fd1 s \<longleftrightarrow>
     (\<exists>I. frames_base h v (get_pcb s) I s \<and> span (entry_local e) 40 \<inter> (insert (char0 h) (insert (char1 h) (blink_area h v)) \<union> span (get_pcb s) 128 \<union> video \<union> I) = {}) \<and>
     blinks_ok (globals h) v ns (mem s) \<and> mounted s \<and> char0 h \<noteq> 0 \<and> char1 h \<noteq> 0 \<and> lowest_free (mem s) (get_pcb s) fd0 \<and>
     2 \<le> fd1 \<and> fd1 \<le> 7 \<and> fd1 \<noteq> fd0 \<and> ld32 (mem s) (pcb_flags (get_pcb s) fd1) = 0 \<and>
     (\<forall>j. 2 \<le> j \<and> j < fd1 \<and> j \<noteq> fd0 \<longrightarrow> ld32 (mem s) (pcb_flags (get_pcb s) j) \<noteq> 0)"

text \<open>The locals are set.\<close>

lemma frames_locals:
  assumes c: "frames_call e h v ns fd0 fd1 s" and b: "frames_base h v (get_pcb s) I s"
  defines "m \<equiv> (mem s)(char0 h := 48, char1 h := 48)"
  defines "s0 \<equiv> s\<lparr>mem := st16 (st16 m (ON_LENGTH (frame_struct h)) 15) (OFF_LENGTH (frame_struct h)) 15\<rparr>"
  shows "frames_ok h v (get_pcb s) I ns (map (blink_at (mem s)) ns) s0"
    and "prints (insert (char0 h) (insert (char1 h) (span (frame_struct h) 16))) [] s s0" and "mem s0 (char0 h) = 48" "mem s0 (char1 h) = 48"
proof -
  let ?f = "frame_struct h" and ?W = "insert (char0 h) (insert (char1 h) (span (frame_struct h) 16))"
  have l: "frames_layout h v (get_pcb s) I" using b by (simp add: frames_base_def)
  then have ch: "char0 h \<notin> blink_area h v" "char1 h \<notin> blink_area h v" and fr: "add_room (globals h) v ?f (ioctl_bp h - 16)"
    by (auto simp: frames_layout_def)
  have W: "?W \<inter> (span (get_pcb s) 128 \<union> video \<union> I) = {}" using l by (auto simp: frames_layout_def blink_area_def)
  have cf: "char0 h \<notin> span ?f 16" "char1 h \<notin> span ?f 16" using ch by (auto simp: blink_area_def)
  have m: "mem s0 x = m x" if "x \<notin> span ?f 16" for x using that by (simp add: s0_def st16_outside)
  have ms: "mem s0 x = mem s x" if "x \<notin> ?W" for x using that m [of x] by (simp add: m_def)
  then have bs: "frames_base h v (get_pcb s) I s0" and "prints ?W [] s s0"
    using base_store [OF b, of ?W "mem s0"] W by (simp_all add: s0_def)
  then show "prints ?W [] s s0" by simp
  show "mem s0 (char0 h) = 48" "mem s0 (char1 h) = 48" using m cf by (simp_all add: m_def)
  have ok: "blinks_ok (globals h) v ns (mem s)" using c by (simp add: frames_call_def)
  have "mem s0 x = mem s x" if "x \<in> span (blink_array (globals h)) 32000 \<union> span (mp1_list_head (globals h)) 4 \<union> span (vmem_base_addr (globals h)) 4" for x
  proof (rule ms)
    have "x \<in> blink_area h v" using that by (auto simp: blink_area_def)
    then show "x \<notin> ?W" using ch fr that by (auto simp: add_room_def)
  qed
  note bl = blinks_keep [OF ok this]
  have "ld16 (mem s0) (ON_LENGTH ?f) = 15" "ld16 (mem s0) (OFF_LENGTH ?f) = 15" by (simp_all add: s0_def ld16_st16_field add.assoc)
  then show "frames_ok h v (get_pcb s) I ns (map (blink_at (mem s)) ns) s0" using bs bl by (simp add: frames_ok_def)
qed

text \<open>A file is opened.\<close>

lemma flags_keep:
  assumes "prints W [] s s'" "W \<inter> fd_span p i = {}"
  shows "ld32 (mem s') (pcb_flags p i) = ld32 (mem s) (pcb_flags p i)"
  using assms by (intro flags_cong) (auto simp: prints_def)

lemma mounted_keep:
  assumes m: "mounted s" and pr: "prints W [] s s'" and W: "W \<inter> span (bootblock_addr s) (fs_size (mem s) (bootblock_addr s)) = {}"
  shows "mounted s'"
proof -
  have k: "same_kernel s s'" and same: "mem s' x = mem s x" if "x \<in> span (bootblock_addr s) (fs_size (mem s) (bootblock_addr s))" for x
    using pr that W by (auto simp: prints_def)
  have "same_kernel s s'" using pr by (simp add: prints_def)
  note f = same_kernel_fields [OF this] and c = image_counts_cong [of "bootblock_addr s" "mem s" "mem s'", OF same]
  show ?thesis using m by (simp add: mounted_def f c)
qed

lemma frame_opens:
  assumes ok: "frames_ok h v p I ns bs s" and n: "frame_name e h v f name x n s" and mt: "mounted s" and lf: "lowest_free (mem s) p fd"
    and ch: "ch = char0 h \<or> ch = char1 h" "ch \<noteq> 0"
    and loc: "span (entry_local e) 40 \<inter> (insert (char0 h) (insert (char1 h) (blink_area h v)) \<union> span p 128 \<union> video \<union> I) = {}"
  shows "\<exists>s'. ece391_open e f s = Some (fd, s') \<and> file_ready p fd ch 1 s' \<and> fd_pos fd s' = 0 \<and>
     fd_content fd s' = file_bytes (mem s) (bootblock_addr s) n \<and> prints (span (entry_local e) 40 \<union> fd_span p fd) [] s s' \<and>
     frames_ok h v p I ns bs s'"
proof -
  note o = frames_okD [OF ok]
  have l: "I \<inter> span p 128 = {}" "I \<inter> video = {}" "span ch (nat 1) \<inter> (I \<union> span p 128 \<union> video) = {}"
    using o(2) ch(1) by (auto simp: frames_layout_def span_Suc)
  have d: "span (entry_local e) 40 \<inter> I = {}" "span (entry_local e) 40 \<inter> span p 128 = {}" "span (entry_local e) 40 \<inter> video = {}"
    "span (entry_local e) 40 \<inter> blink_area h v = {}" using loc by blast+
  have fd: "2 \<le> fd" "fd < 8" using lf by (simp_all add: lowest_free_def)
  obtain s' where s': "ece391_open e f s = Some (fd, s')" "file_ready p fd ch 1 s'" "fd_pos fd s' = 0"
      "fd_content fd s' = file_bytes (mem s) (bootblock_addr s) n" "prints (span (entry_local e) 40 \<union> fd_span p fd) [] s s'"
    using file_opens [where s = s and fname = f and name = name and x = x and n = n and fd = fd and buf = ch and sz = 1 and e = e] n mt lf o(3) d l ch(2)
    unfolding o(5,6) frame_name_def by auto
  have "fd_span p fd \<inter> (blink_area h v \<union> fd_span p 1 \<union> I) = {}" using frames_apart(1) [OF ok ch(1) fd] by blast
  moreover have "fd_span p 1 \<subseteq> span p 128" by (rule fd_span_in_table) simp_all
  ultimately have "(span (entry_local e) 40 \<union> fd_span p fd) \<inter> (blink_area h v \<union> fd_span p 1 \<union> I) = {}" using d by blast
  then have "frames_ok h v p I ns bs s'" by (rule frames_keep [OF ok s'(5)])
  then show ?thesis using s' by blast
qed

lemma row_feed_opened:
  assumes "file_ready p fd ch 1 s" "fd_pos fd s = 0" "mem s ch = 48"
  shows "row_feed p fd ch False (text_lines (fd_content fd s)) s"
proof -
  obtain l b where "fd_content fd s = l @ after_line b" "10 \<notin> set l" "text_lines (fd_content fd s) = l # lines_after b" using split_line by blast
  then show ?thesis using assms unfolding row_feed_def feed_def by auto
qed

text \<open>C9: \<open>add_frames\<close> makes the characters of the two frames. When both files exist and two descriptors are free, it
  returns with both files closed and the list of blinking characters is the old one with the visible characters
  of the two texts put in front, row by row and column by column: where a line or a file is shorter than
  the other, it counts as blank, and only what is off the screen or beyond 2000 characters is left out.\<close>

theorem add_frames_builds_list:
  fixes s :: "'a process_scheme"
  assumes c: "frames_call e h v ns fd0 fd1 s" and n0: "frame_name e h v f0 name0 x0 n0 s" and n1: "frame_name e h v f1 name1 x1 n1 s"
  defines "xs \<equiv> file_bytes (mem s) (bootblock_addr s) n0" and "ys \<equiv> file_bytes (mem s) (bootblock_addr s) n1"
  assumes fit: "cells_fit (frame_cells 0 (text_lines xs) (text_lines ys))"
  shows "\<exists>s' ns'. add_frames e h f0 f1 s = Some s' \<and> blinks_ok (globals h) v ns' (mem s') \<and>
     map (blink_at (mem s')) ns' = fold add_cell (frame_cells 0 (text_lines xs) (text_lines ys)) (map (blink_at (mem s)) ns) \<and>
     ld32 (mem s') (pcb_flags (get_pcb s) fd0) = 0 \<and> ld32 (mem s') (pcb_flags (get_pcb s) fd1) = 0"
proof -
  let ?p = "get_pcb s" and ?L = "span (entry_local e) 40"
  obtain I where b: "frames_base h v ?p I s"
    and loc: "?L \<inter> (insert (char0 h) (insert (char1 h) (blink_area h v)) \<union> span ?p 128 \<union> video \<union> I) = {}"
    using c by (auto simp: frames_call_def)
  have k: "mounted s" "char0 h \<noteq> 0" "char1 h \<noteq> 0" "lowest_free (mem s) ?p fd0" "2 \<le> fd1" "fd1 < 8" "fd1 \<noteq> fd0"
    "ld32 (mem s) (pcb_flags ?p fd1) = 0" "\<And>j. 2 \<le> j \<Longrightarrow> j < fd1 \<Longrightarrow> j \<noteq> fd0 \<Longrightarrow> ld32 (mem s) (pcb_flags ?p j) \<noteq> 0"
    using c by (auto simp: frames_call_def)
  have fd0: "2 \<le> fd0" "fd0 < 8" using k(4) by (simp_all add: lowest_free_def)
  have I: "span (bootblock_addr s) (fs_size (mem s) (bootblock_addr s)) = I" and lay: "frames_layout h v ?p I" using b by (simp_all add: frames_base_def)
  define s0 where "s0 = s\<lparr>mem := st16 (st16 ((mem s)(char0 h := 48, char1 h := 48)) (ON_LENGTH (frame_struct h)) 15) (OFF_LENGTH (frame_struct h)) 15\<rparr>"
  note lo = frames_locals [OF c b, folded s0_def]
  let ?W0 = "insert (char0 h) (insert (char1 h) (span (frame_struct h) 16))"
  have W0: "?W0 \<subseteq> insert (char0 h) (insert (char1 h) (blink_area h v))" by (auto simp: blink_area_def)
  have W0': "?W0 \<inter> (span ?p 128 \<union> I) = {}" using lay by (auto simp: frames_layout_def blink_area_def)
  have tab: "fd_span ?p j \<subseteq> span ?p 128" if "2 \<le> j" "j < 8" for j by (rule fd_span_in_table) (use that in auto)
  have fl0: "ld32 (mem s0) (pcb_flags ?p j) = ld32 (mem s) (pcb_flags ?p j)" if "2 \<le> j" "j < 8" for j
    by (rule flags_keep [OF lo(2)]) (use tab [OF that] W0' in blast)
  have keep0: "frame_name e h v f name x n s0" "file_bytes (mem s0) (bootblock_addr s0) n = file_bytes (mem s) (bootblock_addr s) n"
    if "frame_name e h v f name x n s" for f name x n
    by (rule frame_name_keep [OF that lo(2)]; use W0 W0' I in blast)+
  have "?W0 \<inter> span (bootblock_addr s) (fs_size (mem s) (bootblock_addr s)) = {}" unfolding I using W0' by blast
  then have mt0: "mounted s0" by (rule mounted_keep [OF k(1) lo(2)])
  have lf0: "lowest_free (mem s0) ?p fd0" using k(4) fl0 by (auto simp: lowest_free_def)
  from frame_opens [OF lo(1) keep0(1) [OF n0] mt0 lf0 disjI1 [OF refl] k(2) loc] obtain s1 where
    s1: "ece391_open e f0 s0 = Some (fd0, s1)" "file_ready ?p fd0 (char0 h) 1 s1" "fd_pos fd0 s1 = 0" "fd_content fd0 s1 = xs"
      "prints (?L \<union> fd_span ?p fd0) [] s0 s1" "frames_ok h v ?p I ns (map (blink_at (mem s)) ns) s1"
    using keep0(2) [OF n0] by (auto simp: xs_def)
  have I0: "span (bootblock_addr s0) (fs_size (mem s0) (bootblock_addr s0)) = I" and p0: "get_pcb s0 = ?p" using frames_okD [OF lo(1)] by simp_all
  have dI: "span ?p 128 \<inter> I = {}" "?L \<inter> I = {}" "?L \<inter> span ?p 128 = {}" using lay loc by (auto simp: frames_layout_def)
  have W1: "(?L \<union> fd_span ?p fd0) \<inter> span (bootblock_addr s0) (fs_size (mem s0) (bootblock_addr s0)) = {}"
    unfolding I0 using dI tab [OF fd0] by blast
  have "?L \<union> fd_span ?p fd0 \<subseteq> insert (char0 h) (insert (char1 h) (blink_area h v)) \<union> ?L \<union> span (get_pcb s0) 128"
    unfolding p0 using tab [OF fd0] by blast
  note nk = frame_name_keep [OF keep0(1) [OF n1] s1(5) this W1]
  have mt1: "mounted s1" by (rule mounted_keep [OF mt0 s1(5) W1])
  have fl1: "ld32 (mem s1) (pcb_flags ?p j) = ld32 (mem s) (pcb_flags ?p j)" if "2 \<le> j" "j < 8" "j \<noteq> fd0" for j
  proof -
    have "(?L \<union> fd_span ?p fd0) \<inter> fd_span ?p j = {}"
      using dI(3) tab [OF that(1,2)] fd_spans_apart [of fd0 j ?p] fd0 that by auto
    from flags_keep [OF s1(5) this] show ?thesis using fl0 that by simp
  qed
  have "ld32 (mem s1) (pcb_flags ?p fd0) \<noteq> 0" using s1(2) by (simp add: file_ready_def)
  moreover have "ld32 (mem s1) (pcb_flags ?p j) \<noteq> 0" if "2 \<le> j" "j < fd1" "j \<noteq> fd0" for j
    using fl1 [of j] k(9) [OF that] that k(6) by simp
  moreover have "ld32 (mem s1) (pcb_flags ?p fd1) = 0" using fl1 [OF k(5-7)] k(8) by simp
  ultimately have lf1: "lowest_free (mem s1) ?p fd1" using k(5,6) by (auto simp: lowest_free_def)
  from frame_opens [OF s1(6) nk(1) mt1 lf1 disjI2 [OF refl] k(3) loc] obtain s2 where
    s2: "ece391_open e f1 s1 = Some (fd1, s2)" "file_ready ?p fd1 (char1 h) 1 s2" "fd_pos fd1 s2 = 0" "fd_content fd1 s2 = ys"
      "prints (?L \<union> fd_span ?p fd1) [] s1 s2" "frames_ok h v ?p I ns (map (blink_at (mem s)) ns) s2"
    using nk(2) keep0(2) [OF n1] by (auto simp: ys_def)
  have I1: "span (bootblock_addr s1) (fs_size (mem s1) (bootblock_addr s1)) = I" using frames_okD [OF s1(6)] by simp
  have "(?L \<union> fd_span ?p fd1) \<inter> (fd_span ?p fd0 \<union> fd_span ?p 1 \<union> I) = {}"
  proof -
    have "fd_span ?p 1 \<subseteq> span ?p 128" by (rule fd_span_in_table) simp_all
    moreover have "fd_span ?p fd1 \<inter> (fd_span ?p fd0 \<union> fd_span ?p 1 \<union> I) = {}"
      using frames_apart(2) [OF s1(6) disjI1 [OF refl] k(5,6) fd0] k(7) by blast
    ultimately show ?thesis using dI tab [OF fd0] by blast
  qed
  note a = file_ready_apart [OF s1(2) s2(5) this [folded I1]]
  have chars: "mem s2 (char0 h) = 48" "mem s2 (char1 h) = 48"
  proof -
    have "mem s2 x = mem s0 x" if "x = char0 h \<or> x = char1 h" for x
    proof -
      have "x \<notin> ?L" "x \<notin> span ?p 128" using that loc lay by (auto simp: frames_layout_def)
      then have "x \<notin> ?L \<union> fd_span ?p fd0" "x \<notin> ?L \<union> fd_span ?p fd1" using tab [OF fd0] tab [OF k(5,6)] by blast+
      then show ?thesis using s1(5) s2(5) unfolding prints_def by metis
    qed
    then show "mem s2 (char0 h) = 48" "mem s2 (char1 h) = 48" using lo(3,4) by simp_all
  qed
  have rs: "row_state h v ?p I ns (map (blink_at (mem s)) ns) fd0 fd1 s2" using s2(6) fd0 k(5-7) by (simp add: row_state_def)
  have f0: "row_feed ?p fd0 (char0 h) False (text_lines xs) s2" using row_feed_opened [OF a(1)] a(2,3) s1(3,4) chars by simp
  have f1: "row_feed ?p fd1 (char1 h) False (text_lines ys) s2" using row_feed_opened [OF s2(2,3) chars(2)] s2(4) by simp
  from add_rows_cells [OF rs f0 f1 fit, of e] obtain ns' s' where
    s': "add_rows e h fd0 fd1 0 False False s2 = Some s'"
      "row_state h v ?p I ns' (fold add_cell (frame_cells 0 (text_lines xs) (text_lines ys)) (map (blink_at (mem s)) ns)) fd0 fd1 s'"
      "row_feed ?p fd0 (char0 h) True [] s'" "row_feed ?p fd1 (char1 h) True [] s'" by blast
  have "add_frames e h f0 f1 s = Some s'"
    using s1(1) s2(1) s'(1) fd0 k(5) by (simp add: add_frames_def Let_def s0_def [symmetric] or_halt_def)
  then show ?thesis using s'(2-4) by (auto simp: row_state_def frames_ok_def row_feed_def)
qed


section \<open>An example\<close>

text \<open>The example process, with its file system below 128 MB, and above an empty list and the name \<open>a\<close>.\<close>

definition demo_frames :: process where
  "demo_frames = demo_user\<lparr>mem := (\<lambda>x. if 0x8000000 \<le> x then (demo_blink_mem(0x8060100 := 97)) x else demo_user_mem x)\<rparr>"

lemma demo_frames_simps [simp]:
  "get_pcb demo_frames = 0x7FE000" "bootblock_addr demo_frames = 0x1000" "data_count demo_frames = data_count demo_user"
  "globals demo_fish = demo_blink" "char0 demo_fish = 0x8070500" "char1 demo_fish = 0x8070501" "frame_struct demo_fish = 0x8070400"
  "ioctl_bp demo_fish = 0x8070010"
  by (simp_all add: demo_frames_def get_pcb_def demo_user_def demo_process_def demo_fish_def)

lemma low_span: "unat a + n \<le> 0x8000000 \<Longrightarrow> x \<in> span a n \<Longrightarrow> x < 0x8000000"
proof -
  assume a: "unat a + n \<le> 0x8000000" "x \<in> span a n"
  then obtain i where "i < n" "x = a + of_nat i" by (auto simp: in_span_iff)
  then have "unat x = unat a + i" using a(1) unat_add_of_nat32 [of a i] by simp
  then show ?thesis using a(1) \<open>i < n\<close> by (simp add: word_less_nat_alt)
qed

lemma demo_frames_low: "unat a + n \<le> 0x8000000 \<Longrightarrow> x \<in> span a n \<Longrightarrow> mem demo_frames x = demo_user_mem x"
  using low_span [of a n x] by (auto simp: demo_frames_def dest: leD)

lemma demo_frames_image: "x \<in> span 0x1000 (fs_size demo_mem 0x1000) \<Longrightarrow> mem demo_frames x = demo_mem x"
  using demo_frames_low [of "0x1000" 12288 x] demo_user_image [of x] by (simp add: demo_file)

lemma demo_frames_file:
  "names_file (mem demo_frames) 0x1000 [97] 1 0" "file_bytes (mem demo_frames) 0x1000 0 = [104, 101, 108, 108, 111]"
  "fs_size (mem demo_frames) 0x1000 = 12288" "mounted demo_frames"
proof -
  note c = names_file_cong [of "0x1000" demo_mem "mem demo_frames" "[97]" 1 0, OF demo_frames_image demo_names_file]
  show "names_file (mem demo_frames) 0x1000 [97] 1 0" by (rule c(1))
  show "file_bytes (mem demo_frames) 0x1000 0 = [104, 101, 108, 108, 111]" using c(2) by (simp add: demo_file_bytes)
  note im = image_counts_cong [of "0x1000" demo_mem "mem demo_frames", OF demo_frames_image]
  show "fs_size (mem demo_frames) 0x1000 = 12288" using im(3) by (simp add: demo_file)
  show "mounted demo_frames" using im(2) by (simp add: mounted_def demo_file demo_user_def)
qed

lemma demo_frames_flags: "0 \<le> i \<Longrightarrow> i < 8 \<Longrightarrow> ld32 (mem demo_frames) (pcb_flags 0x7FE000 i) = ld32 demo_user_mem (pcb_flags 0x7FE000 i)"
  using fd_span_in_table [of i "0x7FE000"] by (intro flags_cong demo_frames_low [of "0x7FE000" 128]) auto

lemma demo_frames_high:
  "blink_area demo_fish 0x8400000 \<subseteq> {x. 0x8000000 \<le> x}" "0x8070500 \<notin> blink_area demo_fish 0x8400000" "0x8070501 \<notin> blink_area demo_fish 0x8400000"
proof -
  show "blink_area demo_fish 0x8400000 \<subseteq> {x. 0x8000000 \<le> x}"
    using high_span [of "0x8050000" 32000] high_span [of "0x8400000" 4000] high_span [of "0x8060000" 4] high_span [of "0x8060004" 4]
      high_span [of "0x8070000" 16] high_span [of "0x8070400" 16]
    by (auto simp: blink_area_def demo_blink_def)
  show "0x8070500 \<notin> blink_area demo_fish 0x8400000" "0x8070501 \<notin> blink_area demo_fish 0x8400000"
    by (simp_all add: blink_area_def demo_blink_def in_span_unat)
qed

lemma demo_frames_base: "frames_base demo_fish 0x8400000 0x7FE000 (span 0x1000 12288) demo_frames"
proof -
  let ?H = "{x :: u32. 0x8000000 \<le> x}"
  have low: "span 0x7FE000 128 \<inter> ?H = {}" "video \<inter> ?H = {}" "span 0x1000 12288 \<inter> ?H = {}"
    using low_span [of "0x7FE000" 128] low_span [of VIDEO 4000] low_span [of "0x1000" 12288] by (auto dest: leD)
  have "(0x8070500 :: u32) \<in> ?H" "(0x8070501 :: u32) \<in> ?H" by simp_all
  then have ch: "{0x8070500, 0x8070501} \<inter> (blink_area demo_fish 0x8400000 \<union> span 0x7FE000 128 \<union> video \<union> span 0x1000 12288) = {}"
    using low demo_frames_high(2,3) by auto
  have ar: "blink_area demo_fish 0x8400000 \<inter> (span 0x7FE000 128 \<union> video \<union> span 0x1000 12288) = {}" using demo_frames_high(1) low by blast
  have "add_room demo_blink 0x8400000 0x8070000 0x8070400" "add_room demo_blink 0x8400000 0x8070400 0x8070000"
    by (simp_all add: add_room_def demo_blink_def span_apartI)
  moreover have "span 0x1000 12288 \<inter> (span 0x7FE000 128 \<union> video) = {}" unfolding Int_Un_distrib by (simp add: span_apartI)
  ultimately have "frames_layout demo_fish 0x8400000 0x7FE000 (span 0x1000 12288)" using ar ch by (simp add: frames_layout_def)
  moreover have "stdout_ready demo_frames"
  proof -
    have same: "mem demo_frames x = demo_user_mem x" if "x \<notin> ?H" for x using that by (simp add: demo_frames_def)
    have "tty_of demo_frames = tty_of demo_user" unfolding demo_frames_def using same low by (intro tty_of_mem) (auto simp: demo_frames_def)
    moreover have "on_screen demo_frames" using demo_user_stdout by (simp add: stdout_ready_def on_screen_def demo_frames_def)
    moreover have "same_kernel demo_user demo_frames" unfolding demo_frames_def by (rule same_kernel_update)
    ultimately have "prints ?H [] demo_user demo_frames" using same by (simp add: prints_def)
    moreover have "fd_span 0x7FE000 1 \<subseteq> span 0x7FE000 128" by (rule fd_span_in_table) simp_all
    then have "fd_span (get_pcb demo_user) 1 \<inter> ?H = {}" using low by auto
    ultimately show ?thesis using prints_stdout_ready demo_user_stdout by blast
  qed
  ultimately show ?thesis by (simp add: frames_base_def demo_frames_file)
qed

lemma demo_frames_call: "frames_call demo_env demo_fish 0x8400000 [] 2 3 demo_frames"
proof -
  have "span (0x6000 :: u32) 40 \<inter> {x. 0x8000000 \<le> x} = {}" using low_span [of "0x6000" 40] by (auto dest: leD)
  moreover have "(0x8070500 :: u32) \<in> {x. 0x8000000 \<le> x}" "(0x8070501 :: u32) \<in> {x. 0x8000000 \<le> x}" by simp_all
  ultimately have "span (0x6000 :: u32) 40 \<inter> insert 0x8070500 (insert 0x8070501 (blink_area demo_fish 0x8400000)) = {}"
    using demo_frames_high(1) by blast
  moreover have "span (0x6000 :: u32) 40 \<inter> span 0x7FE000 128 = {}" "span (0x6000 :: u32) 40 \<inter> video = {}" "span (0x6000 :: u32) 40 \<inter> span 0x1000 12288 = {}"
    by (rule span_apartI; simp)+
  ultimately have loc: "span (0x6000 :: u32) 40 \<inter> (insert 0x8070500 (insert 0x8070501 (blink_area demo_fish 0x8400000)) \<union> span 0x7FE000 128 \<union> video \<union> span 0x1000 12288) = {}"
    by (simp only: Int_Un_distrib Un_empty simp_thms)
  have "blinks_ok demo_blink 0x8400000 [] (mem demo_frames)"
  proof (rule blinks_keep(1) [OF demo_blinks_ok])
    fix x assume "x \<in> span (blink_array demo_blink) 32000 \<union> span (mp1_list_head demo_blink) 4 \<union> span (vmem_base_addr demo_blink) 4"
    then have "x \<in> span 0x8050000 32000 \<or> x \<in> span 0x8060000 4 \<or> x \<in> span 0x8060004 4" by (simp add: demo_blink_def)
    moreover have "(0x8060100 :: u32) \<notin> span 0x8050000 32000" "(0x8060100 :: u32) \<notin> span 0x8060000 4" "(0x8060100 :: u32) \<notin> span 0x8060004 4"
      by (subst in_span_unat; simp)+
    ultimately show "mem demo_frames x = demo_blink_mem x"
      using high_span [of "0x8050000" 32000 x] high_span [of "0x8060000" 4 x] high_span [of "0x8060004" 4 x] by (auto simp: demo_frames_def)
  qed
  moreover have "lowest_free (mem demo_frames) 0x7FE000 2" using demo_user_free demo_frames_flags by (simp add: lowest_free_def)
  moreover have "ld32 (mem demo_frames) (pcb_flags 0x7FE000 3) = 0" using demo_user_free [of 3] demo_frames_flags [of 3] by simp
  ultimately show ?thesis
    unfolding frames_call_def using demo_frames_base demo_frames_file(4) loc by (auto intro!: exI [of _ "span 0x1000 12288"])
qed

lemma demo_frames_name: "frame_name demo_env demo_fish 0x8400000 0x8060100 [97] 1 0 demo_frames"
proof -
  have "span (0x8060100 :: u32) 2 \<inter> span 0x6000 40 = {}" "span (0x8060100 :: u32) 2 \<inter> span 0x7FE000 128 = {}"
    "span (0x8060100 :: u32) 2 \<inter> blink_area demo_fish 0x8400000 = {}"
    by (simp_all add: blink_area_def demo_blink_def Int_Un_distrib span_apartI)
  moreover have "(0x8070500 :: u32) \<notin> span 0x8060100 2" "(0x8070501 :: u32) \<notin> span 0x8060100 2" by (subst in_span_unat; simp)+
  ultimately have "span (0x8060100 :: u32) (Suc (length [97 :: u8])) \<inter>
      (insert 0x8070500 (insert 0x8070501 (blink_area demo_fish 0x8400000)) \<union> span 0x6000 40 \<union> span 0x7FE000 128) = {}"
    by (simp add: numeral_2_eq_2) blast
  moreover have "cstr (mem demo_frames) 0x8060100 [97]" by (simp add: demo_frames_def demo_blink_mem_def)
  ultimately show ?thesis using demo_frames_file(1,2) by (simp add: frame_name_def)
qed

theorem add_frames_builds_list_witness:
  "\<exists>s' ns'. add_frames demo_env demo_fish 0x8060100 0x8060100 demo_frames = Some s' \<and>
     map (\<lambda>q. (location (blink_at (mem s') q), on_char (blink_at (mem s') q))) ns' = [(44, 111), (43, 108), (42, 108), (41, 101), (40, 104)]"
proof -
  let ?xs = "[104, 101, 108, 108, 111] :: u8 list"
  have f: "file_bytes (mem demo_frames) (bootblock_addr demo_frames) 0 = ?xs" using demo_frames_file(2) by simp
  have cells: "frame_cells 0 (text_lines ?xs) (text_lines ?xs) = [(40, 104, 104), (41, 101, 101), (42, 108, 108), (43, 108, 108), (44, 111, 111)]"
    by simp
  have fit: "cells_fit (frame_cells 0 (text_lines ?xs) (text_lines ?xs))" unfolding cells by (simp add: cells_fit_def cell_blink_def)
  from add_frames_builds_list [OF demo_frames_call demo_frames_name demo_frames_name, unfolded f, OF fit] obtain s' ns' where
    s': "add_frames demo_env demo_fish 0x8060100 0x8060100 demo_frames = Some s'"
      "map (blink_at (mem s')) ns' = fold add_cell (frame_cells 0 (text_lines ?xs) (text_lines ?xs)) []" by auto
  have "map (\<lambda>b. (location b, on_char b)) (map (blink_at (mem s')) ns') = [(44, 111), (43, 108), (42, 108), (41, 101), (40, 104)]"
    unfolding s'(2) cells by (simp add: add_cell_def visible_def cell_blink_def)
  then show ?thesis using s'(1) by (intro exI [of _ s'] exI [of _ ns']) (simp add: comp_def)
qed

end
