(* ===== verification/Pingpong.thy ===== *)
theory Pingpong
  imports Fish
begin

text \<open>
  The \<open>pingpong\<close> program, \<open>ece391pingpong.c\<close>: a letter that moves between two walls, one line of
  the screen and one tick of the clock for each step. The program has no end, so its main loop is
  a partial function; what it does in one turn of the loop is \<open>pingpong_round\<close>.
\<close>

section \<open>Definitions\<close>

text \<open>The macros are not parenthesised; where the program uses them this makes no difference.\<close>

abbreviation BUFMAX :: int where "BUFMAX \<equiv> 79 + 2"
abbreviation STARTLOOP :: int where "STARTLOOP \<equiv> 1 + 1"
abbreviation LOOPMAX :: int where "LOOPMAX \<equiv> 79 + 2 - 2 - 1"

definition fill_blank :: "u32 \<Rightarrow> int \<Rightarrow> int \<Rightarrow> memory \<Rightarrow> memory" where
  "fill_blank buf a b m = fold (\<lambda>i m. m(buf + word_of_int i := 32)) [a..b - 1] m"

definition walls :: "u32 \<Rightarrow> memory \<Rightarrow> memory" where
  "walls buf m =
     (let m = fill_blank buf 0 BUFMAX m;
          m = m(buf + word_of_int (BUFMAX - 1) := 0);
          m = m(buf + word_of_int (BUFMAX - 2) := 10);
          m = m(buf + word_of_int (BUFMAX - 3) := 124)
      in m(buf + 1 := 124))"

definition pingpong_step :: "'a process_scheme user_env \<Rightarrow> u32 \<Rightarrow> u32 \<Rightarrow> int \<Rightarrow> u8 \<Rightarrow> int \<Rightarrow> 'a process_scheme
    \<Rightarrow> 'a process_scheme option" where
  "pingpong_step e buf garb rtc_fd curchar j s = do {
     let m = fill_blank buf STARTLOOP LOOPMAX (mem s);
     s \<leftarrow> ece391_fdputs e 1 buf (s\<lparr>mem := m(buf + word_of_int j := curchar)\<rparr>);
     (r, s) \<leftarrow> ece391_read e rtc_fd garb 4 s;
     Some s
   }"

primrec pingpong_steps :: "'a process_scheme user_env \<Rightarrow> u32 \<Rightarrow> u32 \<Rightarrow> int \<Rightarrow> u8 \<Rightarrow> int list \<Rightarrow> 'a process_scheme
    \<Rightarrow> 'a process_scheme option" where
  "pingpong_steps e buf garb rtc_fd curchar [] s = Some s"
| "pingpong_steps e buf garb rtc_fd curchar (j # js) s = do {
     s \<leftarrow> pingpong_step e buf garb rtc_fd curchar j s;
     pingpong_steps e buf garb rtc_fd curchar js s
   }"

definition pingpong_round :: "'a process_scheme user_env \<Rightarrow> u32 \<Rightarrow> u32 \<Rightarrow> int \<Rightarrow> u8 \<Rightarrow> 'a process_scheme
    \<Rightarrow> (u8 \<times> 'a process_scheme) option" where
  "pingpong_round e buf garb rtc_fd curchar s = do {
     s \<leftarrow> pingpong_steps e buf garb rtc_fd curchar [STARTLOOP..LOOPMAX - 1] s;
     s \<leftarrow> pingpong_steps e buf garb rtc_fd curchar (rev [STARTLOOP..LOOPMAX - 1]) s;
     Some (if curchar = 90 then 65 else curchar + 1, s)
   }"

partial_function (option) pingpong_loop :: "'a process_scheme user_env \<Rightarrow> u32 \<Rightarrow> u32 \<Rightarrow> int \<Rightarrow> u8 \<Rightarrow> 'a process_scheme
    \<Rightarrow> (int \<times> 'a process_scheme) option" where
  "pingpong_loop e buf garb rtc_fd curchar s = do {
     (curchar, s) \<leftarrow> pingpong_round e buf garb rtc_fd curchar s;
     pingpong_loop e buf garb rtc_fd curchar s
   }"

definition pingpong_main :: "'a process_scheme user_env \<Rightarrow> u32 \<Rightarrow> u32 \<Rightarrow> u32 \<Rightarrow> 'a process_scheme \<Rightarrow> (int \<times> 'a process_scheme) option" where
  "pingpong_main e buf rv garb s = do {
     (rtc_fd, s) \<leftarrow> ece391_open e (lit e ''rtc'') (s\<lparr>mem := walls buf (mem s)\<rparr>);
     (r, s) \<leftarrow> ece391_write e rtc_fd rv 4 (put rv 32 s);
     pingpong_loop e buf garb rtc_fd 65 (put rv (word_of_int r) s)
   }"

section \<open>The program does not end\<close>

lemma pingpong_loop_endless: "pingpong_loop e buf garb rtc_fd c s = None"
proof -
  have "False" if "pingpong_loop e buf garb rtc_fd c s = Some r" for e :: "'a process_scheme user_env" and buf garb rtc_fd c s r
    by (rule pingpong_loop.raw_induct [OF _ that]) (auto simp: bind_eq_Some_conv)
  then show ?thesis by (cases "pingpong_loop e buf garb rtc_fd c s") blast+
qed

lemma pingpong_endless: "pingpong_main e buf rv garb s = None"
  by (simp add: pingpong_main_def pingpong_loop_endless bind_eq_None_conv split: prod.splits)

section \<open>What a round shows\<close>

lemma fill_blank_at: "fill_blank buf a b m x = (if \<exists>i \<in> {a..<b}. x = buf + word_of_int i then 32 else m x)"
proof -
  have "fold (\<lambda>i m. m(buf + word_of_int i := 32)) is m x = (if \<exists>i \<in> set is. x = buf + word_of_int i then 32 else m x)" for "is"
    by (induction "is" arbitrary: m) auto
  moreover have "{a..b - 1} = {a..<b}" by auto
  ultimately show ?thesis by (simp add: fill_blank_def)
qed

lemma buf_index:
  assumes "0 \<le> i" "i < 81" "k < 81"
  shows "buf + word_of_int i = (buf :: u32) + of_nat k \<longleftrightarrow> i = int k"
proof -
  have "word_of_int i = (of_nat (nat i) :: u32)" using assms(1) by simp
  then have "buf + word_of_int i = buf + of_nat k \<longleftrightarrow> (of_nat (nat i) :: u32) = of_nat k" by simp
  also have "\<dots> \<longleftrightarrow> nat i = k" using assms by (intro word_of_nat_eq_iff) auto
  finally show ?thesis using assms(1) by auto
qed

text \<open>The line with the letter \<open>c\<close> in column \<open>j\<close>.\<close>

definition pong_line :: "u8 \<Rightarrow> int \<Rightarrow> u8 list" where
  "pong_line c j = [32, 124] @ replicate (nat (j - 2)) 32 @ [c] @ replicate (nat (77 - j)) 32 @ [124, 10]"

definition walled :: "u32 \<Rightarrow> memory \<Rightarrow> bool" where
  "walled buf m \<longleftrightarrow> m buf = 32 \<and> m (buf + 1) = 124 \<and> m (buf + 78) = 124 \<and> m (buf + 79) = 10 \<and> m (buf + 80) = 0"

lemma pong_line_nth:
  assumes "2 \<le> j" "j \<le> 77" and "k < 80"
  shows "pong_line c j ! k = (if k = 0 then 32 else if k = 1 then 124 else if k = 78 then 124 else if k = 79 then 10
     else if int k = j then c else 32)"
proof -
  define a where "a = nat j"
  have a: "j = int a" "2 \<le> a" "a \<le> 77" using assms(1,2) by (simp_all add: a_def)
  have n: "nat (j - 2) = a - 2" "nat (77 - j) = 77 - a" using a by auto
  consider "k < 2" | "2 \<le> k \<and> k < a" | "k = a" | "a < k \<and> k < 78" | "k = 78" | "k = 79" using assms(3) by linarith
  then show ?thesis
  proof cases
    case 1 then show ?thesis using a by (cases "k = 0") (auto simp: pong_line_def nth_Cons')
  next
    case 2 then show ?thesis using a unfolding pong_line_def n
      by (auto simp: nth_append nth_Cons' less_diff_conv)
  next
    case 3 then show ?thesis using a unfolding pong_line_def n by (auto simp: nth_append nth_Cons')
  next
    case 4 then show ?thesis using a unfolding pong_line_def n by (auto simp: nth_append nth_Cons' less_diff_conv)
  next
    case 5 then show ?thesis using a unfolding pong_line_def n by (auto simp: nth_append nth_Cons' less_diff_conv)
  next
    case 6 then show ?thesis using a unfolding pong_line_def n by (auto simp: nth_append nth_Cons' less_diff_conv)
  qed
qed

lemma length_pong_line: "2 \<le> j \<Longrightarrow> j \<le> 77 \<Longrightarrow> length (pong_line c j) = 80"
  by (simp add: pong_line_def)

lemma walls_walled: "walled buf (walls buf m)"
proof -
  have "\<exists>i \<in> {0..<81}. buf = buf + word_of_int i" by (intro bexI [of _ 0]) simp_all
  then show ?thesis by (simp add: walled_def walls_def Let_def fill_blank_at)
qed

lemma drawn_line:
  fixes c :: u8 and m :: memory
  assumes "walled buf m" and "2 \<le> j" "j \<le> 77"
  defines "m' \<equiv> (fill_blank buf STARTLOOP LOOPMAX m)(buf + word_of_int j := c)"
  shows "rds m' buf 80 = pong_line c j" and "walled buf m'" and "x \<notin> span buf 81 \<Longrightarrow> m' x = m x"
proof -
  have at: "m' (buf + of_nat k) = (if int k = j then c else if 2 \<le> k \<and> k < 78 then 32 else m (buf + of_nat k))" if "k < 81" for k
  proof -
    have i: "buf + of_nat k = buf + word_of_int i \<longleftrightarrow> i = int k" if "0 \<le> i" "i < 81" for i
      by (subst eq_commute) (rule buf_index [OF that \<open>k < 81\<close>])
    have "(\<exists>i \<in> {2..<78}. buf + of_nat k = buf + word_of_int i) \<longleftrightarrow> (\<exists>i \<in> {2..<78}. i = int k)" using i by (intro bex_cong refl) simp
    also have "\<dots> \<longleftrightarrow> 2 \<le> k \<and> k < 78" by auto
    finally show ?thesis using i [of j] assms(2,3) by (simp add: m'_def fill_blank_at eq_commute [of j])
  qed
  have w: "m (buf + of_nat 0) = 32" "m (buf + of_nat 1) = 124" "m (buf + of_nat 78) = 124" "m (buf + of_nat 79) = 10" "m (buf + of_nat 80) = 0"
    using assms(1) by (simp_all add: walled_def)
  show "rds m' buf 80 = pong_line c j"
  proof (rule nth_equalityI)
    fix k assume "k < length (rds m' buf 80)"
    then have k: "k < 80" by simp
    consider "k = 0" | "k = 1" | "k = 78" | "k = 79" | "2 \<le> k \<and> k < 78" using k by linarith
    then show "rds m' buf 80 ! k = pong_line c j ! k"
      using k w assms(2,3) at [of k] by cases (auto simp: pong_line_nth)
  qed (simp add: length_pong_line assms(2,3))
  show "walled buf m'"
    using at [of 0] at [of 1] at [of 78] at [of 79] at [of 80] w assms(2,3) by (simp add: walled_def)
  show "m' x = m x" if "x \<notin> span buf 81"
  proof -
    have "x \<noteq> buf + word_of_int i" if "0 \<le> i" "i < 81" for i
    proof -
      have "buf + of_nat (nat i) \<in> span buf 81" using that by (intro in_spanI) simp
      moreover have "word_of_int i = (of_nat (nat i) :: u32)" using that(1) by simp
      ultimately show ?thesis using \<open>x \<notin> span buf 81\<close> by metis
    qed
    then show ?thesis using assms(2,3) by (auto simp: m'_def fill_blank_at)
  qed
qed


section \<open>What the steps print\<close>

text \<open>The program has the screen and the clock open and its buffer is apart from both.\<close>

definition pong_ready :: "u32 \<Rightarrow> u32 \<Rightarrow> int \<Rightarrow> 'a process_scheme \<Rightarrow> bool" where
  "pong_ready buf garb fd s \<longleftrightarrow> stdout_ready s \<and> fd_typed s (get_pcb s) fd Clock \<and> buf \<noteq> 0 \<and> garb \<noteq> 0 \<and>
     span buf 81 \<inter> (span (get_pcb s) 128 \<union> video) = {} \<and> walled buf (mem s)"

lemma walled_cong:
  assumes "walled buf m" and "\<And>x. x \<in> span buf 81 \<Longrightarrow> m' x = m x"
  shows "walled buf m'"
proof -
  have "buf + of_nat k \<in> span buf 81" if "k < 81" for k using that by (rule in_spanI)
  from this [of 0] this [of 1] this [of 78] this [of 79] this [of 80] show ?thesis
    using assms by (simp add: walled_def)
qed

lemma pong_ready_step:
  assumes r: "pong_ready buf garb fd s" and st: "same_tables s s'" "stdout_table_addr s' = stdout_table_addr s" and o: "on_screen s'"
    and w: "walled buf (mem s')" and same: "\<And>x. x \<in> span (get_pcb s) 128 \<Longrightarrow> mem s' x = mem s x"
  shows "pong_ready buf garb fd s'"
proof -
  have ty: "fd_typed s (get_pcb s) fd Clock" using r by (simp add: pong_ready_def)
  have p: "get_pcb s' = get_pcb s" "tables_ready s' = tables_ready s" using st(1) by (simp_all add: same_tables_def)
  have 1: "mem s' x = mem s x" if "x \<in> fd_span (get_pcb s) i" "0 \<le> i" "i \<le> 7" for x i
    using fd_span_in_table [of i "get_pcb s"] that by (intro same) auto
  have "fd_typed s' (get_pcb s) fd Clock" using typed_same_bytes [OF ty st(1)] 1 typed_range [OF ty] by blast
  moreover have "ld32 (mem s') (pcb_flags (get_pcb s) 1) = ld32 (mem s) (pcb_flags (get_pcb s) 1)"
    "ld32 (mem s') (pcb_fops (get_pcb s) 1) = ld32 (mem s) (pcb_fops (get_pcb s) 1)"
    using flags_in_fd_span [of "get_pcb s" 1] fops_in_fd_span [of "get_pcb s" 1] by (intro ld32_disjoint 1 [of _ 1]; auto)+
  ultimately show ?thesis using r w o st(2) by (simp add: pong_ready_def stdout_ready_def p)
qed

lemma pingpong_step_prints:
  fixes c :: u8
  assumes r: "pong_ready buf garb fd s" and e: "clock_runs e" and j: "2 \<le> j" "j \<le> 77" and c: "c \<noteq> 0" "c \<noteq> BACKSPACE"
  shows "\<exists>s'. pingpong_step e buf garb fd c j s = Some s' \<and> pong_ready buf garb fd s' \<and>
     tty_of s' = fold tty_putc (pong_line c j) (tty_of s)"
proof -
  define m where "m = (fill_blank buf STARTLOOP LOOPMAX (mem s))(buf + word_of_int j := c)"
  let ?s1 = "s\<lparr>mem := m\<rparr>"
  have w: "walled buf (mem s)" and d: "span buf 81 \<inter> video = {}" "span buf 81 \<inter> span (get_pcb s) 128 = {}"
    and o: "on_screen s" using r by (auto simp: pong_ready_def stdout_ready_def)
  note l = drawn_line [OF w j, where c = c, folded m_def]
  have r1: "pong_ready buf garb fd ?s1"
    by (rule pong_ready_step [OF r]) (use l(2,3) d o in \<open>auto simp: on_screen_def\<close>)
  have t1: "tty_of ?s1 = tty_of s" using d(1) by (intro tty_of_mem l(3)) blast
  have len: "length (pong_line c j) = 80" using j by (rule length_pong_line)
  have cs: "cstr (mem ?s1) buf (pong_line c j)"
    using l(1,2) c(1) len by (intro cstr_of_rds) (auto simp: walled_def pong_line_def)
  have so: "stdout_ready ?s1" using r1 by (simp add: pong_ready_def)
  have "span buf (length (pong_line c j)) \<inter> video = {}" using d(1) span_mono [of 80 81 buf] len by auto
  moreover have "BACKSPACE \<notin> set (pong_line c j)" using c(2) by (auto simp: pong_line_def)
  ultimately obtain s2 where s2: "ece391_fdputs e 1 buf ?s1 = Some s2" "prints video (pong_line c j) ?s1 s2"
    using fdputs_stdout [OF so cs, of e] len r by (auto simp: pong_ready_def)
  have k: "same_kernel ?s1 s2" and same: "\<And>x. x \<notin> video \<Longrightarrow> mem s2 x = m x" using s2(2) by (auto simp: prints_def)
  have pv: "span (get_pcb s) 128 \<inter> video = {}" using so by (simp add: stdout_ready_def get_pcb_def)
  have r2: "pong_ready buf garb fd s2"
  proof (rule pong_ready_step [OF r1 same_tables_kernel [OF k]])
    show "walled buf (mem s2)" using same d(1) by (intro walled_cong [OF l(2)]) blast
    show "mem s2 x = mem ?s1 x" if "x \<in> span (get_pcb ?s1) 128" for x using that pv same [of x] by (auto simp: get_pcb_def)
  qed (use s2(2) k in \<open>simp_all add: prints_def same_kernel_fields\<close>)
  then obtain s' where s': "ece391_read e fd garb 4 s2 = Some (0, s')" "mem s' = mem s2" "same_tables s2 s'" "screen_x s' = screen_x s2"
    "screen_y s' = screen_y s2" "stdout_table_addr s' = stdout_table_addr s2"
    using read_clock_fd [of s2 fd garb e] e by (auto simp: pong_ready_def stdout_ready_def)
  have "pong_ready buf garb fd s'"
    by (rule pong_ready_step [OF r2 s'(3)]) (use r2 s' in \<open>auto simp: pong_ready_def stdout_ready_def on_screen_def\<close>)
  moreover have "tty_of s' = fold tty_putc (pong_line c j) (tty_of s)" using s2(2) s'(2,4,5) t1 by (simp add: tty_of_def prints_def)
  ultimately show ?thesis using s2(1) s'(1) by (simp add: pingpong_step_def m_def)
qed


lemma pingpong_steps_print:
  fixes c :: u8 and s :: "'a process_scheme"
  assumes e: "clock_runs e" and c: "c \<noteq> 0" "c \<noteq> BACKSPACE"
  shows "pong_ready buf garb fd s \<Longrightarrow> \<forall>j \<in> set js. 2 \<le> j \<and> j \<le> 77 \<Longrightarrow>
     \<exists>s'. pingpong_steps e buf garb fd c js s = Some s' \<and> pong_ready buf garb fd s' \<and>
       tty_of s' = fold tty_putc (concat (map (pong_line c) js)) (tty_of s)"
proof (induction js arbitrary: s)
  case (Cons j js)
  obtain s1 where s1: "pingpong_step e buf garb fd c j s = Some s1" "pong_ready buf garb fd s1"
    "tty_of s1 = fold tty_putc (pong_line c j) (tty_of s)"
    using pingpong_step_prints [OF Cons.prems(1) e _ _ c, of j] Cons.prems(2) by auto
  then show ?case using Cons.IH [OF s1(2)] Cons.prems(2) by auto
qed simp

text \<open>The lines of one turn: the letter goes out to the right wall and comes back.\<close>

definition pong_lines :: "u8 \<Rightarrow> u8 list" where
  "pong_lines c = concat (map (pong_line c) [2..77]) @ concat (map (pong_line c) (rev [2..77]))"

definition next_letter :: "u8 \<Rightarrow> u8" where
  "next_letter c = (if c = 90 then 65 else c + 1)"

lemma pingpong_round_shows:
  fixes c :: u8 and s :: "'a process_scheme"
  assumes r: "pong_ready buf garb fd s" and e: "clock_runs e" and c: "c \<noteq> 0" "c \<noteq> BACKSPACE"
  shows "\<exists>s'. pingpong_round e buf garb fd c s = Some (next_letter c, s') \<and> pong_ready buf garb fd s' \<and>
     tty_of s' = fold tty_putc (pong_lines c) (tty_of s)"
proof -
  obtain s1 where s1: "pingpong_steps e buf garb fd c [2..77] s = Some s1" "pong_ready buf garb fd s1"
    "tty_of s1 = fold tty_putc (concat (map (pong_line c) [2..77])) (tty_of s)"
    using pingpong_steps_print [OF e c r, of "[2..77]"] by auto
  obtain s2 where s2: "pingpong_steps e buf garb fd c (rev [2..77]) s1 = Some s2" "pong_ready buf garb fd s2"
    "tty_of s2 = fold tty_putc (concat (map (pong_line c) (rev [2..77]))) (tty_of s1)"
    using pingpong_steps_print [OF e c s1(2), of "rev [2..77]"] by auto
  have b: "STARTLOOP = 2" "LOOPMAX - 1 = 77" by simp_all
  have "pingpong_round e buf garb fd c s = Some (next_letter c, s2)"
    unfolding pingpong_round_def b s1(1) next_letter_def by (simp only: bind.simps s2(1))
  moreover have "tty_of s2 = fold tty_putc (pong_lines c) (tty_of s)"
    unfolding pong_lines_def fold_append o_apply s2(3) s1(3) ..
  ultimately show ?thesis using s2(2) by blast
qed

text \<open>The letters: \<open>A\<close> to \<open>Z\<close>, then \<open>A\<close> again.\<close>

definition letter :: "nat \<Rightarrow> u8" where
  "letter n = of_nat (65 + n mod 26)"

lemma letter_range: "letter n \<noteq> 0 \<and> letter n \<noteq> BACKSPACE"
proof -
  have n: "n mod 26 < 26" by simp
  have "(of_nat (65 + n mod 26) :: u8) = of_nat k \<longleftrightarrow> 65 + n mod 26 = k" if "k < 256" for k
    using n that by (intro word_of_nat_eq_iff) auto
  from this [of 0] this [of 8] show ?thesis by (auto simp: letter_def)
qed

lemma next_letter_letter: "next_letter (letter n) = letter (Suc n)"
proof -
  have n: "n mod 26 < 26" by simp
  have "(of_nat (65 + n mod 26) :: u8) = of_nat 90 \<longleftrightarrow> 65 + n mod 26 = 90"
    using n by (intro word_of_nat_eq_iff) auto
  then have z: "letter n = 90 \<longleftrightarrow> n mod 26 = 25" by (auto simp: letter_def)
  show ?thesis
  proof (cases "n mod 26 = 25")
    case True
    then have "Suc n mod 26 = 0" by (simp add: mod_Suc)
    then show ?thesis using True z by (simp add: next_letter_def letter_def)
  next
    case False
    then have "Suc n mod 26 = Suc (n mod 26)" by (simp add: mod_Suc)
    then show ?thesis using False z by (simp add: next_letter_def letter_def)
  qed
qed

text \<open>The first turns of the main loop.\<close>

primrec pong_turns :: "'a process_scheme user_env \<Rightarrow> u32 \<Rightarrow> u32 \<Rightarrow> int \<Rightarrow> u8 \<Rightarrow> nat \<Rightarrow> 'a process_scheme
    \<Rightarrow> (u8 \<times> 'a process_scheme) option" where
  "pong_turns e buf garb fd c 0 s = Some (c, s)"
| "pong_turns e buf garb fd c (Suc n) s = do {
     (c, s) \<leftarrow> pingpong_round e buf garb fd c s;
     pong_turns e buf garb fd c n s
   }"

lemma pong_turns_unfold:
  "pong_turns e buf garb fd c n s = Some (c', s') \<Longrightarrow> pingpong_loop e buf garb fd c s = pingpong_loop e buf garb fd c' s'"
proof (induction n arbitrary: c s)
  case (Suc n)
  then obtain c1 s1 where "pingpong_round e buf garb fd c s = Some (c1, s1)" "pong_turns e buf garb fd c1 n s1 = Some (c', s')"
    by (auto simp: bind_eq_Some_conv)
  then show ?case using Suc.IH [of c1 s1] by (subst pingpong_loop.simps) simp
qed simp

lemma pong_turns_print:
  fixes s :: "'a process_scheme"
  assumes "clock_runs e"
  shows "pong_ready buf garb fd s \<Longrightarrow> \<exists>s'. pong_turns e buf garb fd (letter k) n s = Some (letter (k + n), s') \<and>
     pong_ready buf garb fd s' \<and> tty_of s' = fold tty_putc (concat (map (\<lambda>i. pong_lines (letter i)) [k..<k + n])) (tty_of s)"
proof (induction n arbitrary: k s)
  case (Suc n)
  obtain s1 where s1: "pingpong_round e buf garb fd (letter k) s = Some (letter (Suc k), s1)" "pong_ready buf garb fd s1"
    "tty_of s1 = fold tty_putc (pong_lines (letter k)) (tty_of s)"
    using pingpong_round_shows [OF Suc.prems assms, of "letter k"] letter_range by (auto simp: next_letter_letter)
  obtain s2 where "pong_turns e buf garb fd (letter (Suc k)) n s1 = Some (letter (Suc k + n), s2)" "pong_ready buf garb fd s2"
    "tty_of s2 = fold tty_putc (concat (map (\<lambda>i. pong_lines (letter i)) [Suc k..<Suc k + n])) (tty_of s1)"
    using Suc.IH [OF s1(2), of "Suc k"] by blast
  moreover have "[k..<k + Suc n] = k # [Suc k..<Suc k + n]" by (simp add: upt_conv_Cons del: upt_Suc)
  ultimately show ?case using s1(1,3) by (simp del: upt_Suc)
qed simp

text \<open>C12: Pingpong shows the letters and never ends. With the screen and the clock open and the clock
  running, any number \<open>n\<close> of turns of the main loop ends in a state with the next letter; the screen
  got the lines of the letters from \<open>A\<close> on, each once to the right and once back, and the loop that
  started is the loop that goes on from there. The program itself returns nothing.\<close>

theorem pingpong_prints_letters:
  fixes s :: "'a process_scheme"
  assumes "clock_runs e" and "pong_ready buf garb fd s"
  shows "\<exists>s'. pong_turns e buf garb fd (letter 0) n s = Some (letter n, s') \<and> pong_ready buf garb fd s' \<and>
     tty_of s' = fold tty_putc (concat (map (\<lambda>i. pong_lines (letter i)) [0..<n])) (tty_of s) \<and>
     pingpong_loop e buf garb fd (letter 0) s = pingpong_loop e buf garb fd (letter n) s' \<and> pingpong_loop e buf garb fd (letter n) s' = None"
  using pong_turns_print [OF assms, of 0 n] pong_turns_unfold pingpong_loop_endless by fastforce


section \<open>An example\<close>

definition demo_pong :: process where
  "demo_pong = demo_clock (walls 0x8061000 (\<lambda>_. 0))"

lemma demo_clock_stdout: "stdout_ready (demo_clock m)"
proof -
  let ?m = "st32 (st32 demo_user_mem (pcb_flags 0x7FE000 2) 1) (pcb_fops 0x7FE000 2) (rtc_table_addr demo_user)"
  have "mem (demo_clock m) x = ?m x" if "x \<in> fd_span 0x7FE000 1" for x
  proof -
    have "x \<in> span 0x7FE000 128" using that fd_span_in_table [of 1 "0x7FE000"] by auto
    then have "x < 0x8000000" by (simp add: in_span_unat) unat_arith
    then show ?thesis by (auto simp: demo_clock_def dest: leD)
  qed
  then have "ld32 (mem (demo_clock m)) (pcb_flags 0x7FE000 1) = ld32 ?m (pcb_flags 0x7FE000 1)"
    "ld32 (mem (demo_clock m)) (pcb_fops 0x7FE000 1) = ld32 ?m (pcb_fops 0x7FE000 1)"
    using flags_in_fd_span [of "0x7FE000" 1] fops_in_fd_span [of "0x7FE000" 1] by (intro ld32_disjoint; blast)+
  moreover have "ld32 ?m (pcb_flags 0x7FE000 1) = ld32 demo_user_mem (pcb_flags 0x7FE000 1)"
    "ld32 ?m (pcb_fops 0x7FE000 1) = ld32 demo_user_mem (pcb_fops 0x7FE000 1)" by (simp_all add: pcb_fd_defs mem_simps)
  ultimately have same: "ld32 (mem (demo_clock m)) (pcb_flags 0x7FE000 1) = 1" "ld32 (mem (demo_clock m)) (pcb_fops 0x7FE000 1) = 0x503040"
    by (simp_all add: demo_user_flags)
  have g: "get_pcb (demo_clock m) = 0x7FE000" "stdout_table_addr (demo_clock m) = 0x503040"
    by (simp_all add: demo_clock_def get_pcb_def demo_user_def demo_process_def)
  have "tables_ready (demo_clock m)" using demo_clock_typed by blast
  moreover have "on_screen (demo_clock m)" using demo_user_stdout by (simp add: stdout_ready_def on_screen_def demo_clock_def)
  moreover have "span (0x7FE000 :: u32) 128 \<inter> video = {}" by (rule span_disjoint_above) simp_all
  ultimately show ?thesis using same by (simp add: stdout_ready_def g)
qed

lemma demo_pong_ready: "pong_ready 0x8061000 0x8061100 2 demo_pong"
proof -
  have "span (0x8061000 :: u32) 81 \<inter> span 0x7FE000 128 = {}" "span (0x8061000 :: u32) 81 \<inter> video = {}"
    by (simp_all add: span_apartI)
  moreover have "get_pcb demo_pong = 0x7FE000" by (simp add: demo_pong_def demo_clock_def get_pcb_def demo_user_def demo_process_def)
  moreover have "walled 0x8061000 (mem demo_pong)"
    unfolding demo_pong_def
    by (rule walled_cong [OF walls_walled]) (rule demo_clock_high, rule high_span [of "0x8061000" 81], simp_all)
  ultimately show ?thesis using demo_clock_typed demo_clock_stdout by (simp add: pong_ready_def demo_pong_def Int_Un_distrib)
qed

theorem pingpong_prints_letters_witness:
  "letter 0 = 65 \<and> letter 26 = 65 \<and> (\<exists>s'. pong_turns demo_fish_env 0x8061000 0x8061100 2 (letter 0) 26 demo_pong = Some (letter 26, s') \<and>
     pong_ready 0x8061000 0x8061100 2 s')"
  using pingpong_prints_letters [OF demo_clock_runs demo_pong_ready, of 26] by (auto simp: letter_def)

end
