(* ===== verification/Ports.thy ===== *)
theory Ports
  imports Machine
begin

text \<open>
  The wide port accesses and the flag-saving macros of \<open>lib.h\<close>. As its comments say, a wide
  access is one byte access for each of the consecutive ports, joined little-endian. Of the
  EFLAGS register the machine has the interrupt flag, bit 9; the other bits are an argument.
\<close>

section \<open>Definitions\<close>

definition inw :: "u16 \<Rightarrow> 'a machine_scheme \<Rightarrow> u32 \<times> 'a machine_scheme" where
  "inw port s =
     (let (b0, s) = inb port s; (b1, s) = inb (port + 1) s
      in (ucast b0 OR push_bit 8 (ucast b1), s))"

definition inl :: "u16 \<Rightarrow> 'a machine_scheme \<Rightarrow> u32 \<times> 'a machine_scheme" where
  "inl port s =
     (let (b0, s) = inb port s; (b1, s) = inb (port + 1) s; (b2, s) = inb (port + 2) s; (b3, s) = inb (port + 3) s
      in (ucast b0 OR push_bit 8 (ucast b1) OR push_bit 16 (ucast b2) OR push_bit 24 (ucast b3), s))"

definition outw :: "u32 \<Rightarrow> u16 \<Rightarrow> 'a machine_scheme \<Rightarrow> 'a machine_scheme" where
  "outw data port s = outb (ucast (drop_bit 8 data)) (port + 1) (outb (ucast data) port s)"

definition outl :: "u32 \<Rightarrow> u16 \<Rightarrow> 'a machine_scheme \<Rightarrow> 'a machine_scheme" where
  "outl data port s =
     (let s = outb (ucast data) port s; s = outb (ucast (drop_bit 8 data)) (port + 1) s;
          s = outb (ucast (drop_bit 16 data)) (port + 2) s
      in outb (ucast (drop_bit 24 data)) (port + 3) s)"

definition eflags :: "u32 \<Rightarrow> 'a machine_scheme \<Rightarrow> u32" where
  "eflags others s = (if iflag s then set_bit 9 others else unset_bit 9 others)"

definition cli_and_save :: "u32 \<Rightarrow> 'a machine_scheme \<Rightarrow> u32 \<times> 'a machine_scheme" where
  "cli_and_save others s = (eflags others s, cli s)"

definition restore_flags :: "u32 \<Rightarrow> 'a machine_scheme \<Rightarrow> 'a machine_scheme" where
  "restore_flags flags s = s\<lparr>iflag := bit flags 9\<rparr>"

section \<open>Properties\<close>

text \<open>What is written wide to a device that remembers its ports is read back wide.\<close>

definition remembers :: "'a machine_scheme \<Rightarrow> bool" where
  "remembers s \<longleftrightarrow> (\<forall>h p b g. p \<notin> {q. \<exists>c. Out q c \<in> set g} \<longrightarrow> dev s (h @ Out p b # g) p = b)"

lemma outl_inl:
  assumes "remembers s"
  shows "fst (inl port (outl v port s)) = v"
proof -
  have n: "port + 1 \<noteq> port" "port + 2 \<noteq> port" "port + 3 \<noteq> port" "port + 2 \<noteq> port + 1" "port + 3 \<noteq> port + 1" "port + 3 \<noteq> port + 2"
    by simp_all
  have r: "dev s (h @ Out p b # g) p = b" if "\<forall>c. Out p c \<notin> set g" for h p b g
    using assms that by (auto simp: remembers_def)
  let ?b = "\<lambda>k. ucast (drop_bit k v) :: u8"
  let ?h = "io s @ [Out port (?b 0), Out (port + 1) (?b 8), Out (port + 2) (?b 16), Out (port + 3) (?b 24)]"
  have "dev s (?h @ g) port = ?b 0" "dev s (?h @ g) (port + 1) = ?b 8" "dev s (?h @ g) (port + 2) = ?b 16"
    "dev s (?h @ g) (port + 3) = ?b 24" if "\<forall>q c. Out q c \<notin> set g" for g
    using that r [of port "Out (port + 1) (?b 8) # Out (port + 2) (?b 16) # Out (port + 3) (?b 24) # g" "io s" "?b 0"]
      r [of "port + 1" "Out (port + 2) (?b 16) # Out (port + 3) (?b 24) # g" "io s @ [Out port (?b 0)]" "?b 8"]
      r [of "port + 2" "Out (port + 3) (?b 24) # g" "io s @ [Out port (?b 0), Out (port + 1) (?b 8)]" "?b 16"]
      r [of "port + 3" g "io s @ [Out port (?b 0), Out (port + 1) (?b 8), Out (port + 2) (?b 16)]" "?b 24"] n
    by simp_all
  from this [of "[]"] this [of "[In port]"] this [of "[In port, In (port + 1)]"] this [of "[In port, In (port + 1), In (port + 2)]"]
  show ?thesis by (simp add: inl_def outl_def inb_def outb_def Let_def word32_split_bytes)
qed

text \<open>A critical section between the two macros leaves the interrupt flag as it was, whatever the section
  did with it, so that sections can be nested.\<close>

lemma restore_after_save:
  assumes "cli_and_save others s = (flags, s1)"
  shows "\<not> iflag s1" and "iflag (restore_flags flags s2) = iflag s"
  using assms by (auto simp: cli_and_save_def restore_flags_def eflags_def cli_def bit_simps split: if_splits)

end
