(* ===== verification/Emulate.thy ===== *)
theory Emulate
  imports User
begin

text \<open>
  The library \<open>ece391emulate.c\<close>, which lets the user programs run on Linux: the system calls of the
  kernel are made from those of Linux and its C library. Linux is a parameter, the record
  \<open>linux\<close>: what a call returns, what it stores and what becomes of the world \<open>'w\<close> outside the
  program. The program's own state is the record \<open>emulated\<close>, with the static variables of the file.
\<close>

section \<open>Definitions\<close>

subsection \<open>Linux\<close>

text \<open>
  \<open>readdir\<close> gives the address of the \<open>d_name\<close> of the next entry and \<open>opendir\<close> that of a stream, both
  0 when there is none. \<open>fork\<close> says whether there is a child; \<open>execv\<close> gives the status with which a
  child that could run the program ended and is \<open>None\<close> when it returns. \<open>mmap\<close> is \<open>None\<close> when it
  fails. \<open>string_at\<close> is where the compiler put a literal and the \<open>stray\<close> fields are what two
  registers and a local hold that the code does not set.
\<close>

record 'w linux =
  int_0x80 :: "u32 \<Rightarrow> u32 \<Rightarrow> u32 \<Rightarrow> u32 \<Rightarrow> memory \<Rightarrow> 'w \<Rightarrow> u32 \<times> memory \<times> 'w"
  opendir :: "string \<Rightarrow> 'w \<Rightarrow> u32 \<times> 'w"
  readdir :: "u32 \<Rightarrow> memory \<Rightarrow> 'w \<Rightarrow> u32 \<times> memory \<times> 'w"
  closedir :: "u32 \<Rightarrow> 'w \<Rightarrow> 'w"
  os_open :: "string \<Rightarrow> int \<Rightarrow> 'w \<Rightarrow> int \<times> 'w"
  os_close :: "int \<Rightarrow> 'w \<Rightarrow> 'w"
  fork :: "'w \<Rightarrow> bool \<times> 'w"
  execv :: "u32 \<Rightarrow> u32 \<Rightarrow> memory \<Rightarrow> 'w \<Rightarrow> (u32 \<times> 'w) option"
  mmap :: "int \<Rightarrow> memory \<Rightarrow> 'w \<Rightarrow> (u32 \<times> memory \<times> 'w) option"
  perror :: "string \<Rightarrow> 'w \<Rightarrow> 'w"
  string_at :: "string \<Rightarrow> u32"
  stray_ecx :: u32
  stray_edx :: u32
  stray_status :: u32

record 'w emulated =
  lmem :: memory
  world :: 'w
  start_esp :: u32
  dir_fd :: int
  dir :: u32
  mem_fd :: int

subsection \<open>Calls that need no change\<close>

definition linux_call :: "'w linux \<Rightarrow> u32 \<Rightarrow> u32 \<Rightarrow> u32 \<Rightarrow> u32 \<Rightarrow> 'w emulated \<Rightarrow> int \<times> 'w emulated" where
  "linux_call l number ebx ecx edx s =
     (let (eax, m, w) = int_0x80 l number ebx ecx edx (lmem s) (world s)
      in (if eax \<le> 0xFFFFC000 then sint eax else - 1, s\<lparr>lmem := m, world := w\<rparr>))"

definition emu_start :: "'w linux \<Rightarrow> ('w emulated \<Rightarrow> (int \<times> 'w emulated) option) \<Rightarrow> u32 \<Rightarrow> 'w emulated \<Rightarrow> (int \<times> 'w emulated) option" where
  "emu_start l main sp s = do {
     (r, s) \<leftarrow> main (s\<lparr>start_esp := sp\<rparr>);
     Some (linux_call l 1 (word_of_int r) (ld32 (lmem s) sp) (ld32 (lmem s) (sp + 4)) s)
   }"

subsection \<open>Executing a program\<close>

definition word_end :: "u8 \<Rightarrow> bool" where
  "word_end c \<longleftrightarrow> c = 0 \<or> c = 32 \<or> c = 10"

partial_function (option) scan_word :: "memory \<Rightarrow> u32 \<Rightarrow> u32 option" where
  "scan_word m scan = (if word_end (m scan) then Some scan else scan_word m (scan + 1))"

partial_function (option) skip_spaces :: "memory \<Rightarrow> u32 \<Rightarrow> u32 option" where
  "skip_spaces m scan = (if m scan = 32 then skip_spaces m (scan + 1) else Some scan)"

partial_function (option) parse_arguments :: "u32 \<Rightarrow> memory \<Rightarrow> u32 \<Rightarrow> u32 \<Rightarrow> (memory \<times> u32) option" where
  "parse_arguments args m n_arg scan = do {
     scan \<leftarrow> skip_spaces m scan;
     if m scan = 0 \<or> m scan = 10 then Some (m(scan := 0), n_arg)
     else do {
       let m = st32 m (args + 4 * n_arg) scan;
       scan \<leftarrow> scan_word m scan;
       if m scan \<noteq> 0 then parse_arguments args (m(scan := 0)) (n_arg + 1) (scan + 1)
       else parse_arguments args m (n_arg + 1) scan
     }
   }"

text \<open>The vector of arguments that the child gets; \<open>buf\<close> and \<open>args\<close> are the local arrays.\<close>

definition command_vector :: "u32 \<Rightarrow> u32 \<Rightarrow> u32 \<Rightarrow> memory \<Rightarrow> memory option" where
  "command_vector buf args command m = do {
     m \<leftarrow> ece391_strcpy (m(buf := 46, buf + 1 := 47)) (buf + 2) command;
     scan \<leftarrow> scan_word m (buf + 2);
     let m = st32 m args buf;
     (m, n_arg) \<leftarrow> (if m scan \<noteq> 0 then parse_arguments args (m(scan := 0)) 1 (scan + 1) else Some (m, 1));
     Some (st32 m (args + 4 * n_arg) 0)
   }"

text \<open>A child whose \<open>execv\<close> returns kills itself with signal 9; the parent waits for the child.\<close>

definition child_status :: "'w linux \<Rightarrow> u32 \<Rightarrow> u32 \<Rightarrow> memory \<Rightarrow> 'w \<Rightarrow> u32 \<times> 'w" where
  "child_status l buf args m w =
     (let (child, w) = fork l w
      in if \<not> child then (stray_status l, w)
         else case execv l buf args m w of None \<Rightarrow> (9, w) | Some (status, w) \<Rightarrow> (status, w))"

definition exit_value :: "u32 \<Rightarrow> int" where
  "exit_value status =
     (if status AND 0x7F = 0 then uint (drop_bit 8 (status AND 0xFF00))
      else if 9 = status AND 0x7F then - 1
      else 256)"

definition emu_execute :: "'w linux \<Rightarrow> u32 \<Rightarrow> u32 \<Rightarrow> u32 \<Rightarrow> 'w emulated \<Rightarrow> (int \<times> 'w emulated) option" where
  "emu_execute l buf args command s = do {
     n \<leftarrow> ece391_strlen (lmem s) command;
     if 1023 < n then Some (- 1, s)
     else do {
       m \<leftarrow> command_vector buf args command (lmem s);
       let (status, w) = child_status l buf args m (world s);
       Some (exit_value status, s\<lparr>lmem := m, world := w\<rparr>)
     }
   }"

subsection \<open>Arguments\<close>

definition end_args :: "memory \<Rightarrow> u32 \<Rightarrow> int \<Rightarrow> int \<times> memory" where
  "end_args m buf nbytes = (if nbytes < 1 then (- 1, m) else (0, m(buf := 0)))"

partial_function (option) copy_args :: "u32 \<Rightarrow> int \<Rightarrow> memory \<Rightarrow> int \<Rightarrow> u32 \<Rightarrow> int \<Rightarrow> (int \<times> memory) option" where
  "copy_args argv argc m idx buf nbytes =
     (if idx < argc then do {
        let arg = ld32 m (argv + 4 * word_of_int idx);
        n \<leftarrow> ece391_strlen m arg;
        let len = sint n;
        if len > nbytes then Some (- 1, m)
        else do {
          m \<leftarrow> ece391_strcpy m buf arg;
          let buf = buf + word_of_int len;
          let nbytes = nbytes - len;
          if idx + 1 \<ge> argc then Some (end_args m buf nbytes)
          else if nbytes < 1 then Some (- 1, m)
          else copy_args argv argc (m(buf := 32)) (idx + 1) (buf + 1) (nbytes - 1)
        }
      }
      else Some (end_args m buf nbytes))"

definition emu_getargs :: "u32 \<Rightarrow> int \<Rightarrow> 'w emulated \<Rightarrow> (int \<times> 'w emulated) option" where
  "emu_getargs buf nbytes s = do {
     (r, m) \<leftarrow> copy_args (start_esp s + 4) (sint (ld32 (lmem s) (start_esp s))) (lmem s) 1 buf nbytes;
     Some (r, s\<lparr>lmem := m\<rparr>)
   }"

subsection \<open>Files and the directory\<close>

definition emu_open :: "'w linux \<Rightarrow> u32 \<Rightarrow> 'w emulated \<Rightarrow> (int \<times> 'w emulated) option" where
  "emu_open l filename s = do {
     r \<leftarrow> ece391_strcmp (lmem s) filename (string_at l ''.'');
     if 0 = r then
       (let (d, w) = opendir l ''.'' (world s);
            (fd, w) = os_open l ''/dev/null'' 0 w
        in Some (fd, s\<lparr>world := w, dir := d, dir_fd := fd\<rparr>))
     else
       (let (rval, m, w) = int_0x80 l 5 filename 0 (stray_edx l) (lmem s) (world s)
        in Some (if rval > 0xFFFFC000 then - 1 else sint rval, s\<lparr>lmem := m, world := w\<rparr>))
   }"

definition emu_vidmap :: "'w linux \<Rightarrow> u32 \<Rightarrow> 'w emulated \<Rightarrow> int \<times> 'w emulated" where
  "emu_vidmap l screen_start s =
     (let s = (if mem_fd s = - 1 then (let (fd, w) = os_open l ''/dev/mem'' 2 (world s) in s\<lparr>world := w, mem_fd := fd\<rparr>) else s)
      in case mmap l (mem_fd s) (lmem s) (world s) of
           None \<Rightarrow> (- 1, s\<lparr>world := perror l ''mmap low memory'' (world s)\<rparr>)
         | Some (mem_image, m, w) \<Rightarrow> (0, s\<lparr>lmem := st32 m screen_start (mem_image + 0xB8000), world := w\<rparr>))"

partial_function (option) copy_name :: "memory \<Rightarrow> u32 \<Rightarrow> u32 \<Rightarrow> int \<Rightarrow> int \<Rightarrow> (bool \<times> int \<times> memory \<times> u32) option" where
  "copy_name m to from copied nbytes =
     (if 0 \<noteq> m from then
        (let m = m(to := m from);
             copied = copied + 1
         in if copied = nbytes then Some (True, nbytes, m, to + 1)
            else if 32 = copied then Some (True, 32, m, to + 1)
            else copy_name m (to + 1) (from + 1) copied nbytes)
      else Some (False, copied, m, to))"

function pad_name :: "memory \<Rightarrow> u32 \<Rightarrow> int \<Rightarrow> int \<Rightarrow> int \<times> memory" where
  "pad_name m to copied nbytes =
     (if nbytes > copied \<and> 32 > copied then pad_name (m(to := 0)) (to + 1) (copied + 1) nbytes else (copied, m))"
  by pat_completeness auto
termination
  by (relation "measure (\<lambda>(m, to, copied, nbytes). nat (32 - copied))") auto

declare pad_name.simps [simp del]

definition emu_read :: "'w linux \<Rightarrow> int \<Rightarrow> u32 \<Rightarrow> int \<Rightarrow> 'w emulated \<Rightarrow> (int \<times> 'w emulated) option" where
  "emu_read l fd buf nbytes s =
     (if 0 = dir s \<or> dir_fd s \<noteq> fd then Some (linux_call l 3 (word_of_int fd) buf (word_of_int nbytes) s)
      else
        (let (de, m, w) = readdir l (dir s) (lmem s) (world s);
             s = s\<lparr>lmem := m, world := w\<rparr>
         in if de = 0 then Some (0, s)
            else do {
              (full, copied, m, to) \<leftarrow> copy_name m buf de 0 nbytes;
              if full then Some (copied, s\<lparr>lmem := m\<rparr>)
              else (let (copied, m) = pad_name m to copied nbytes in Some (copied, s\<lparr>lmem := m\<rparr>))
            }))"

definition emu_write :: "'w linux \<Rightarrow> int \<Rightarrow> u32 \<Rightarrow> int \<Rightarrow> 'w emulated \<Rightarrow> int \<times> 'w emulated" where
  "emu_write l fd buf nbytes s =
     (if 0 = dir s \<or> dir_fd s \<noteq> fd then linux_call l 4 (word_of_int fd) buf (word_of_int nbytes) s else (- 1, s))"

definition emu_close :: "'w linux \<Rightarrow> int \<Rightarrow> 'w emulated \<Rightarrow> int \<times> 'w emulated" where
  "emu_close l fd s =
     (if 0 = dir s \<or> dir_fd s \<noteq> fd then linux_call l 6 (word_of_int fd) (stray_ecx l) (stray_edx l) s
      else (0, s\<lparr>dir := 0, dir_fd := - 1, world := os_close l (dir_fd s) (closedir l (dir s) (world s))\<rparr>))"


section \<open>Reading the directory\<close>

text \<open>How many bytes a read of a directory entry stores at most.\<close>

definition name_limit :: "int \<Rightarrow> nat" where
  "name_limit nbytes = (if 1 \<le> nbytes \<and> nbytes \<le> 32 then nat nbytes else 32)"

lemma copy_name_wrs:
  assumes "cstr m from xs" and "span to (L - c) \<inter> span from (Suc (length xs)) = {}" and "c < L" and L: "L = name_limit nbytes"
  shows "copy_name m to from (int c) nbytes = Some (L \<le> c + length xs, int (min L (c + length xs)), wrs m to (take (L - c) xs),
     to + of_nat (min (L - c) (length xs)))"
  using assms(1-3)
proof (induction xs arbitrary: m to "from" c)
  case Nil
  then show ?case by (subst copy_name.simps) simp
next
  case (Cons x xs)
  have k: "L - c = Suc (L - Suc c)" using Cons.prems(3) by simp
  have 1: "to \<notin> span (from + 1) (Suc (length xs))" "span (to + 1) (L - Suc c) \<inter> span (from + 1) (Suc (length xs)) = {}"
    using Cons.prems(2) unfolding k by (auto simp: span_Cons [of to] span_Cons [of "from"])
  have "cstr (m(to := x)) (from + 1) xs = cstr m (from + 1) xs" using 1(1) by (intro cstr_cong) auto
  then have c: "cstr (m(to := x)) (from + 1) xs" using Cons.prems(1) by simp
  have x: "m from = x" "x \<noteq> 0" using Cons.prems(1) by auto
  have L32: "L \<le> 32" "0 < L" "nbytes \<le> 0 \<or> 32 < nbytes \<Longrightarrow> L = 32" "1 \<le> nbytes \<Longrightarrow> nbytes \<le> 32 \<Longrightarrow> nbytes = int L"
    by (auto simp: L name_limit_def)
  show ?case
  proof (cases "Suc c = L")
    case True
    then have "int c + 1 = nbytes \<or> (int c + 1 \<noteq> nbytes \<and> int c + 1 = 32)" using L32 by linarith
    then show ?thesis using x True by (subst copy_name.simps) (auto simp: Let_def)
  next
    case False
    then have s: "Suc c < L" using Cons.prems(3) by simp
    then have "int c + 1 \<noteq> nbytes" "int c + 1 \<noteq> 32" using L32 by linarith+
    then have "copy_name m to from (int c) nbytes = copy_name (m(to := x)) (to + 1) (from + 1) (int (Suc c)) nbytes"
      using x by (subst copy_name.simps) (simp add: Let_def add.commute)
    then show ?thesis using Cons.IH [OF c 1(2) s] s by (simp add: k add.assoc min_def)
  qed
qed

lemma pad_name_wrs:
  assumes "c \<le> L" "L \<le> 32" "0 < nbytes" "L = name_limit nbytes"
  shows "pad_name m to (int c) nbytes = (int L, wrs m to (replicate (L - c) 0))"
  using assms(1)
proof (induction "L - c" arbitrary: m to c)
  case 0
  then have "\<not> (nbytes > int c \<and> 32 > int c)" "L = c" using assms by (auto simp: name_limit_def split: if_splits)
  then show ?case by (subst pad_name.simps) (simp only: if_False diff_self_eq_0 replicate_0 wrs.simps)
next
  case (Suc k)
  then have "nbytes > int c \<and> 32 > int c" using assms by (auto simp: name_limit_def split: if_splits)
  moreover have "L - c = Suc (L - Suc c)" using Suc.hyps(2) by simp
  ultimately show ?case using Suc.hyps(1) [of "Suc c" "m(to := 0)" "to + 1"] Suc.hyps(2)
    by (subst pad_name.simps) (simp add: add.commute)
qed

lemma pad_name_none: "nbytes \<le> copied \<Longrightarrow> pad_name m to copied nbytes = (copied, m)"
  by (simp add: pad_name.simps)

text \<open>What the call stores: for a size that is positive, the name padded with zeroes, as far as it fits.\<close>

definition entry_bytes :: "u8 list \<Rightarrow> int \<Rightarrow> u8 list" where
  "entry_bytes xs nbytes = take (name_limit nbytes) xs @ (if 0 < nbytes then replicate (name_limit nbytes - length xs) 0 else [])"

lemma entry_read:
  assumes "dir s \<noteq> 0" "dir_fd s = fd" and rd: "readdir l (dir s) (lmem s) (world s) = (de, m, w)" "de \<noteq> 0"
    and "cstr m de xs" "span buf (name_limit nbytes) \<inter> span de (Suc (length xs)) = {}"
  shows "emu_read l fd buf nbytes s = Some (int (length (entry_bytes xs nbytes)), s\<lparr>lmem := wrs m buf (entry_bytes xs nbytes), world := w\<rparr>)"
proof -
  define L where "L = name_limit nbytes"
  have L: "0 < L" "L \<le> 32" by (auto simp: L_def name_limit_def)
  have "span buf (L - 0) \<inter> span de (Suc (length xs)) = {}" using assms(6) by (simp add: L_def)
  from copy_name_wrs [OF assms(5) this L(1) L_def]
  have c: "copy_name m buf de 0 nbytes = Some (L \<le> length xs, int (min L (length xs)), wrs m buf (take L xs), buf + of_nat (min L (length xs)))"
    by simp
  show ?thesis
  proof (cases "L \<le> length xs")
    case True
    then have "entry_bytes xs nbytes = take L xs" by (simp add: entry_bytes_def L_def)
    then show ?thesis using assms(1,2) rd c True by (simp add: emu_read_def)
  next
    case False
    then have n: "min L (length xs) = length xs" "take L xs = xs" by auto
    show ?thesis
    proof (cases "0 < nbytes")
      case True
      have "pad_name (wrs m buf xs) (buf + of_nat (length xs)) (int (length xs)) nbytes = (int L, wrs m buf (entry_bytes xs nbytes))"
        using pad_name_wrs [OF _ L(2) True L_def, of "length xs" "wrs m buf xs"] False True n(2)
        by (simp add: entry_bytes_def wrs_append L_def)
      moreover have "length (entry_bytes xs nbytes) = L" using False True by (simp add: entry_bytes_def L_def)
      ultimately show ?thesis using assms(1,2) rd c False n by (simp add: emu_read_def)
    next
      case f: False
      then have "entry_bytes xs nbytes = xs" using n(2) by (simp add: entry_bytes_def L_def)
      then show ?thesis using assms(1,2) rd c False n f by (simp add: emu_read_def pad_name_none)
    qed
  qed
qed


text \<open>The kernel's \<open>strncpy\<close> stores the same bytes.\<close>

lemma strncpy_cstr:
  assumes "cstr m src xs" and "span dest n \<inter> span src (Suc (length xs)) = {}" and n: "n < 2 ^ 32" and "span dest n \<inter> span src n = {}"
  shows "strncpy m dest src (of_nat n) = wrs m dest (take n xs @ replicate (n - length xs) 0)"
proof -
  have "name_of (rds m src n) = take n xs"
  proof (cases "length xs \<le> n")
    case True then show ?thesis using cstr_name_of [OF assms(1)] by simp
  next
    case False
    then have "rds m src n = take n xs" using cstr_rds [OF assms(1)] rds_append [of m src n "length xs - n"] by (metis append_eq_conv_conj diff_diff_cancel le_add_diff_inverse length_rds nat_le_linear)
    moreover have "0 \<notin> set (take n xs)" using assms(1) cstr_append [of m src xs "[]"] by (auto dest: in_set_takeD)
    ultimately show ?thesis by (simp add: name_of_def takeWhile_eq_all_conv) (metis)
  qed
  then show ?thesis using strncpy_wrs [of dest "of_nat n" src m] assms(4) n by (simp add: unat_of_nat32 min_def)
qed


lemma entry_bytes_pos: "0 < nbytes \<Longrightarrow> length (entry_bytes xs nbytes) = nat (min nbytes 32)"
  by (auto simp: entry_bytes_def name_limit_def)

text \<open>C34: A read of a directory entry. With a directory open as \<open>fd\<close> and \<open>readdir\<close> giving an entry with
  the name \<open>xs\<close>, a read of a positive number of bytes returns that number, 32 at most, and has
  stored what the kernel's own \<open>strncpy\<close> stores: the name, cut to that size and padded with zeroes. A
  read of no bytes, or of fewer, is not stopped: it stores up to 32 bytes of the name.\<close>

theorem emu_read_copies_entry:
  assumes "dir s \<noteq> 0" "dir_fd s = fd" and "readdir l (dir s) (lmem s) (world s) = (de, m, w)" "de \<noteq> 0"
    and "cstr m de xs" and "span buf 32 \<inter> (span de (Suc (length xs)) \<union> span de 32) = {}"
  shows "emu_read l fd buf nbytes s =
     (if 0 < nbytes then Some (min nbytes 32, s\<lparr>lmem := strncpy m buf de (word_of_int (min nbytes 32)), world := w\<rparr>)
      else Some (int (min 32 (length xs)), s\<lparr>lmem := wrs m buf (take 32 xs), world := w\<rparr>))"
proof -
  define L where "L = name_limit nbytes"
  have L: "L \<le> 32" by (auto simp: L_def name_limit_def)
  have d: "span buf L \<inter> span de (Suc (length xs)) = {}" "span buf L \<inter> span de L = {}"
    using assms(6) span_mono [OF L, of buf] span_mono [OF L, of de] by auto
  note r = entry_read [OF assms(1-5) d(1) [unfolded L_def]]
  show ?thesis
  proof (cases "0 < nbytes")
    case True
    then have n: "L = nat (min nbytes 32)" by (auto simp: L_def name_limit_def)
    then have "word_of_int (min nbytes 32) = (of_nat L :: u32)" using True by simp
    moreover have "strncpy m buf de (of_nat L) = wrs m buf (take L xs @ replicate (L - length xs) 0)"
      using strncpy_cstr [OF assms(5) d(1) _ d(2)] L by simp
    moreover have "entry_bytes xs nbytes = take L xs @ replicate (L - length xs) 0" using True by (simp add: entry_bytes_def L_def)
    ultimately show ?thesis using r True entry_bytes_pos [OF True, of xs] by simp
  next
    case False
    then have "entry_bytes xs nbytes = take 32 xs" by (simp add: entry_bytes_def name_limit_def)
    then show ?thesis using r False by (simp add: min.commute)
  qed
qed

section \<open>Arguments\<close>

text \<open>The arguments in one string.\<close>

fun joined :: "u8 list list \<Rightarrow> u8 list" where
  "joined [] = []"
| "joined [w] = w"
| "joined (w # ws) = w @ 32 # joined ws"

text \<open>The program was started with the arguments \<open>ws\<close>, at strings apart from \<open>W\<close>.\<close>

definition arg_at :: "memory \<Rightarrow> u32 \<Rightarrow> u8 list \<Rightarrow> u32 set \<Rightarrow> bool" where
  "arg_at m a xs W \<longleftrightarrow> cstr m (ld32 m a) xs \<and> length xs < 2 ^ 31 \<and> span a 4 \<inter> W = {} \<and> span (ld32 m a) (Suc (length xs)) \<inter> W = {}"

definition args_at :: "memory \<Rightarrow> u32 \<Rightarrow> nat \<Rightarrow> u8 list list \<Rightarrow> u32 set \<Rightarrow> bool" where
  "args_at m argv k ws W \<longleftrightarrow> (\<forall>i < length ws. arg_at m (argv + 4 * of_nat (k + i)) (ws ! i) W)"

lemma arg_at_cong:
  assumes "arg_at m a xs W" and same: "\<And>x. x \<notin> W \<Longrightarrow> m' x = m x"
  shows "arg_at m' a xs W"
proof -
  have "ld32 m' a = ld32 m a" using assms by (intro ld32_disjoint) (auto simp: arg_at_def)
  moreover have "cstr m' (ld32 m a) xs"
    using assms by (subst cstr_cong [of _ _ _ m]) (auto simp: arg_at_def)
  ultimately show ?thesis using assms(1) by (simp add: arg_at_def)
qed

lemma args_at_cong: "args_at m argv k ws W \<Longrightarrow> (\<And>x. x \<notin> W \<Longrightarrow> m' x = m x) \<Longrightarrow> args_at m' argv k ws W"
  unfolding args_at_def using arg_at_cong by blast

lemma args_at_mono: "args_at m argv k ws W \<Longrightarrow> V \<subseteq> W \<Longrightarrow> args_at m argv k ws V"
  unfolding args_at_def arg_at_def by blast

lemma args_at_Cons:
  assumes "args_at m argv k (w # ws) W"
  shows "arg_at m (argv + 4 * of_nat k) w W" "args_at m argv (Suc k) ws W"
proof -
  have i: "arg_at m (argv + 4 * of_nat (k + i)) ((w # ws) ! i) W" if "i < Suc (length ws)" for i
    using assms that by (simp add: args_at_def)
  show "arg_at m (argv + 4 * of_nat k) w W" using i [of 0] by simp
  show "args_at m argv (Suc k) ws W" unfolding args_at_def using i [of "Suc _"] by (intro allI impI) simp
qed

lemma copy_args_joined:
  assumes "args_at m argv k ws (span buf (Suc n))" and "k + length ws = argc" and "n < 2 ^ 31" and "argc < 2 ^ 31"
  shows "\<exists>m'. copy_args argv (int argc) m (int k) buf (int n) = Some (if length (joined ws) < n then 0 else - 1, m') \<and>
     (length (joined ws) < n \<longrightarrow> m' = wrs m buf (joined ws @ [0])) \<and> (\<forall>x. x \<notin> span buf (Suc n) \<longrightarrow> m' x = m x)"
  using assms
proof (induction ws arbitrary: m k buf n)
  case Nil
  then show ?case by (subst copy_args.simps) (auto simp: end_args_def in_span_iff)
next
  case (Cons w ws)
  let ?a = "ld32 m (argv + 4 * of_nat k)"
  have w: "cstr m ?a w" "span ?a (Suc (length w)) \<inter> span buf (Suc n) = {}" "length w < 2 ^ 31"
    using args_at_Cons(1) [OF Cons.prems(1)] by (simp_all add: arg_at_def)
  have len: "ece391_strlen m ?a = Some (of_nat (length w))" "sint (of_nat (length w) :: u32) = int (length w)"
    using ece391_strlen_cstr [OF w(1)] sint_of_nat_less [OF w(3)] by simp_all
  have k: "int k < int argc" using Cons.prems(2) by simp
  show ?case
  proof (cases "n < length w")
    case True
    then have "copy_args argv (int argc) m (int k) buf (int n) = Some (- 1, m)"
      using k len by (subst copy_args.simps) simp
    moreover have "length w \<le> length (joined (w # ws))" by (cases ws) auto
    ultimately show ?thesis using True by auto
  next
    case fits: False
    let ?m1 = "wrs m buf (w @ [0])"
    have d: "span buf (Suc (length w)) \<inter> span ?a (Suc (length w)) = {}" using w(2) fits span_mono [of "Suc (length w)" "Suc n" buf] by auto
    have cp: "ece391_strcpy m buf ?a = Some ?m1" using ece391_strcpy_cstr [OF w(1) d] .
    have out1: "?m1 x = m x" if "x \<notin> span buf (Suc n)" for x
      using that fits span_mono [of "Suc (length w)" "Suc n" buf] by (intro wrs_other) auto
    have n: "int n - int (length w) = int (n - length w)" using fits by simp
    have step: "copy_args argv (int argc) m (int k) buf (int n) =
        (if ws = [] then Some (end_args ?m1 (buf + of_nat (length w)) (int (n - length w)))
         else if n - length w < 1 then Some (- 1, ?m1)
         else copy_args argv (int argc) (?m1(buf + of_nat (length w) := 32)) (int (Suc k)) (buf + of_nat (length w) + 1) (int (n - Suc (length w))))"
    proof -
      have 1: "int argc \<le> int (Suc k) \<longleftrightarrow> ws = []" using Cons.prems(2) by auto
      have 2: "\<not> int n < int (length w)" "int (n - length w) < 1 \<longleftrightarrow> n - length w < 1" "int k + 1 = int (Suc k)" using fits by auto
      have 3: "int (n - length w) - 1 = int (n - Suc (length w))" if "\<not> n - length w < 1" using that by simp
      show ?thesis
        unfolding copy_args.simps [of argv "int argc" m "int k" buf "int n"]
        using k 3 by (cases "ws = []"; cases "n - length w < 1")
          (simp_all only: Let_def if_True if_False of_int_of_nat_eq len cp n 1 2 bind.simps not_False_eq_True simp_thms)
    qed
    show ?thesis
    proof (cases ws)
      case Nil
      then show ?thesis using step fits out1 by (auto simp: end_args_def wrs_snoc in_span_iff)
    next
      case ws: (Cons v vs)
      show ?thesis
      proof (cases "n - length w < 1")
        case True
        then show ?thesis using step ws out1 fits by auto
      next
        case False
        let ?m2 = "?m1(buf + of_nat (length w) := 32)"
        let ?b = "buf + of_nat (length w) + 1"
        let ?n = "n - Suc (length w)"
        have m2: "?m2 = wrs m buf (w @ [32])" by (simp add: wrs_snoc)
        have "span (buf + of_nat (Suc (length w))) (Suc ?n) \<subseteq> span buf (Suc n)" by (rule sub_span) (use False in simp)
        then have sub: "span ?b (Suc ?n) \<subseteq> span buf (Suc n)" by (simp add: ac_simps)
        have out2: "?m2 x = m x" if "x \<notin> span buf (Suc n)" for x
          unfolding m2 using that False span_mono [of "Suc (length w)" "Suc n" buf] by (intro wrs_other) auto
        have "args_at ?m2 argv (Suc k) ws (span ?b (Suc ?n))"
          using args_at_mono [OF args_at_cong [OF args_at_Cons(2) [OF Cons.prems(1)] out2] sub] .
        moreover have "Suc k + length ws = argc" "?n < 2 ^ 31" using Cons.prems(2,3) by simp_all
        ultimately obtain m' where m': "copy_args argv (int argc) ?m2 (int (Suc k)) ?b (int ?n) =
            Some (if length (joined ws) < ?n then 0 else - 1, m')" "length (joined ws) < ?n \<longrightarrow> m' = wrs ?m2 ?b (joined ws @ [0])"
            "\<forall>x. x \<notin> span ?b (Suc ?n) \<longrightarrow> m' x = ?m2 x"
          using Cons.IH [of ?m2 "Suc k" ?b ?n] Cons.prems(4) by blast
        have j: "joined (w # ws) = w @ 32 # joined ws" using ws by simp
        have "length (joined (w # ws)) < n \<longleftrightarrow> length (joined ws) < ?n" using False unfolding j by auto
        moreover have "wrs ?m2 ?b (joined ws @ [0]) = wrs m buf (joined (w # ws) @ [0])"
          unfolding m2 j using wrs_append [of m buf "w @ [32]" "joined ws @ [0]"] by (simp add: ac_simps)
        moreover have "m' x = m x" if "x \<notin> span buf (Suc n)" for x using m'(3) out2 [OF that] sub that by auto
        ultimately show ?thesis using step m' ws False by simp
      qed
    qed
  qed
qed


lemma joined_nonzero: "\<forall>w \<in> set ws. 0 \<notin> set w \<Longrightarrow> 0 \<notin> set (joined ws)"
  by (induction ws rule: joined.induct) auto

text \<open>Linux started the program with the arguments \<open>ws\<close>, after its name.\<close>

definition started_with :: "u8 list list \<Rightarrow> u32 set \<Rightarrow> 'w emulated \<Rightarrow> bool" where
  "started_with ws W s \<longleftrightarrow> ld32 (lmem s) (start_esp s) = of_nat (Suc (length ws)) \<and> Suc (length ws) < 2 ^ 31 \<and>
     args_at (lmem s) (start_esp s + 4) 1 ws W"

lemma started_nonzero: "started_with ws W s \<Longrightarrow> 0 \<notin> set (joined ws)"
proof (rule joined_nonzero, rule ballI)
  fix w assume "started_with ws W s" "w \<in> set ws"
  then obtain p where "cstr (lmem s) p w" by (auto simp: started_with_def args_at_def arg_at_def in_set_conv_nth)
  then show "0 \<notin> set w" using cstr_append [of "lmem s" p w "[]"] by simp
qed

lemma emu_getargs_runs:
  assumes "started_with ws (span buf (Suc n)) s" and "n < 2 ^ 31"
  shows "\<exists>m'. emu_getargs buf (int n) s = Some (if length (joined ws) < n then 0 else - 1, s\<lparr>lmem := m'\<rparr>) \<and>
     (length (joined ws) < n \<longrightarrow> m' = wrs (lmem s) buf (joined ws @ [0])) \<and> (\<forall>x. x \<notin> span buf (Suc n) \<longrightarrow> m' x = lmem s x)"
proof -
  have a: "args_at (lmem s) (start_esp s + 4) 1 ws (span buf (Suc n))" "1 + length ws = Suc (length ws)" "Suc (length ws) < 2 ^ 31"
    "sint (ld32 (lmem s) (start_esp s)) = int (Suc (length ws))"
    using assms(1) sint_of_nat_less [of "Suc (length ws)"] by (auto simp: started_with_def)
  from copy_args_joined [OF a(1,2) assms(2) a(3)] obtain m' where
    "copy_args (start_esp s + 4) (int (Suc (length ws))) (lmem s) 1 buf (int n) = Some (if length (joined ws) < n then 0 else - 1, m')"
    "length (joined ws) < n \<longrightarrow> m' = wrs (lmem s) buf (joined ws @ [0])" "\<forall>x. x \<notin> span buf (Suc n) \<longrightarrow> m' x = lmem s x" by auto
  then show ?thesis unfolding emu_getargs_def a(4) by auto
qed

text \<open>C26: The arguments on Linux. With the arguments \<open>ws\<close> and a buffer of \<open>n\<close> bytes, \<open>ece391_getargs\<close>
  returns 0 exactly when the arguments, joined by single spaces, fit with their final zero; then the
  buffer holds them, and otherwise the result is -1. Nothing changes outside the buffer and the one
  byte behind it.\<close>

theorem emu_getargs_joins:
  assumes "started_with ws (span buf (Suc n)) s" and "n < 2 ^ 31"
  shows "\<exists>s'. emu_getargs buf (int n) s = Some (if length (joined ws) < n then 0 else - 1, s') \<and>
     (length (joined ws) < n \<longrightarrow> cstr (lmem s') buf (joined ws)) \<and> (\<forall>x. x \<notin> span buf (Suc n) \<longrightarrow> lmem s' x = lmem s x)"
proof -
  obtain m' where m': "emu_getargs buf (int n) s = Some (if length (joined ws) < n then 0 else - 1, s\<lparr>lmem := m'\<rparr>)"
    "length (joined ws) < n \<longrightarrow> m' = wrs (lmem s) buf (joined ws @ [0])" "\<forall>x. x \<notin> span buf (Suc n) \<longrightarrow> m' x = lmem s x"
    using emu_getargs_runs [OF assms] by blast
  then show ?thesis using cstr_wrs_self [OF _ started_nonzero [OF assms(1)], of "lmem s" buf] assms(2) by auto
qed

text \<open>That byte behind the buffer is stored: an argument as long as the buffer is copied with its
  final zero before the call finds that it does not fit.\<close>

theorem emu_getargs_stores_behind:
  assumes "started_with [w] (span buf (Suc n)) s" and "length w = n" "n < 2 ^ 31"
  shows "\<exists>s'. emu_getargs buf (int n) s = Some (- 1, s') \<and> lmem s' (buf + of_nat n) = 0"
proof -
  let ?a = "ld32 (lmem s) (start_esp s + 4 + 4 * of_nat 1)"
  have a: "arg_at (lmem s) (start_esp s + 4 + 4 * of_nat 1) w (span buf (Suc n))" "ld32 (lmem s) (start_esp s) = 2"
    using args_at_Cons(1) [of "lmem s" "start_esp s + 4" 1 w "[]"] assms(1) by (simp_all add: started_with_def del: of_nat_1)
  then have c: "cstr (lmem s) ?a w" "span buf (Suc (length w)) \<inter> span ?a (Suc (length w)) = {}"
    using assms(2) by (auto simp: arg_at_def)
  have "emu_getargs buf (int n) s = Some (- 1, s\<lparr>lmem := wrs (lmem s) buf (w @ [0])\<rparr>)"
    using ece391_strlen_cstr [OF c(1)] ece391_strcpy_cstr [OF c] sint_of_nat_less [of "length w"] a(2) assms(2,3)
    by (simp add: emu_getargs_def copy_args.simps [of _ _ _ 1] end_args_def)
  then show ?thesis using assms(2) by (simp add: wrs_snoc)
qed


section \<open>Commands\<close>

abbreviation in_word :: "u8 \<Rightarrow> bool" where "in_word c \<equiv> \<not> word_end c"

text \<open>The words of a command line behind its first word, up to a newline.\<close>

function words_after :: "u8 list \<Rightarrow> u8 list list" where
  "words_after ys =
     (let zs = dropWhile (\<lambda>c. c = 32) ys
      in if zs = [] \<or> hd zs = 10 then [] else takeWhile in_word zs # words_after (tl (dropWhile in_word zs)))"
  by pat_completeness auto
termination
proof (relation "measure length", goal_cases)
  case (2 ys zs)
  then have "zs \<noteq> []" by blast
  then have "length (dropWhile in_word zs) \<le> length zs" "0 < length zs" by (simp_all add: length_dropWhile_le)
  then have "length (tl (dropWhile in_word zs)) < length zs" unfolding length_tl by linarith
  also have "length zs \<le> length ys" using 2(1) by (simp add: length_dropWhile_le)
  finally show ?case by simp
qed simp

declare words_after.simps [simp del]

definition command_words :: "u8 list \<Rightarrow> u8 list list" where
  "command_words xs = ([46, 47] @ takeWhile in_word xs) # words_after (tl (dropWhile in_word xs))"

lemma length_words_after: "length (words_after ys) \<le> length ys"
proof (induction ys rule: words_after.induct)
  case (1 ys)
  define zs where "zs = dropWhile (\<lambda>c. c = 32) ys"
  have z: "length zs \<le> length ys" by (simp add: zs_def length_dropWhile_le)
  show ?case
  proof (cases "zs = [] \<or> hd zs = 10")
    case True
    then show ?thesis by (subst words_after.simps) (simp only: Let_def zs_def [symmetric] if_True list.size le0)
  next
    case False
    then have "length (words_after (tl (dropWhile in_word zs))) \<le> length (dropWhile in_word zs) - 1" using 1 by (simp add: zs_def)
    moreover have "length (dropWhile in_word zs) \<le> length zs" by (rule length_dropWhile_le)
    moreover have "0 < length zs" using False by blast
    ultimately have "Suc (length (words_after (tl (dropWhile in_word zs)))) \<le> length ys" using z by linarith
    then show ?thesis using False by (subst words_after.simps) (simp only: Let_def zs_def [symmetric] if_False list.size)
  qed
qed

lemma scan_word_cstr: "cstr m a ys \<Longrightarrow> scan_word m a = Some (a + of_nat (length (takeWhile in_word ys)))"
  by (induction ys arbitrary: a) (auto simp: scan_word.simps [of m] word_end_def add.assoc)

lemma skip_spaces_cstr: "cstr m a ys \<Longrightarrow> skip_spaces m a = Some (a + of_nat (length (takeWhile (\<lambda>c. c = 32) ys)))"
  by (induction ys arbitrary: a) (auto simp: skip_spaces.simps [of m] add.assoc)

lemma cstr_dropWhile: "cstr m a ys \<Longrightarrow> cstr m (a + of_nat (length (takeWhile P ys))) (dropWhile P ys)"
  using cstr_append [of m a "takeWhile P ys" "dropWhile P ys"] by simp

lemma cstr_cut:
  assumes "cstr m a (w @ x # ys)" and "length w < 2 ^ 32"
  shows "cstr (m(a + of_nat (length w) := 0)) a w"
proof -
  have r: "rds m a (length w) = w" "0 \<notin> set w" using assms(1) by (simp_all add: cstr_append)
  have "a + of_nat (length w) \<notin> span a (length w)" using assms(2) by (auto simp: in_span_iff of_nat_eq_word32)
  then show ?thesis using r by (intro cstr_of_rds) (simp_all add: rds_upd)
qed

text \<open>The vector \<open>ws\<close> of strings inside \<open>W\<close>, from slot \<open>n\<close> of the array on.\<close>

definition vector_at :: "memory \<Rightarrow> u32 \<Rightarrow> u32 \<Rightarrow> u8 list list \<Rightarrow> u32 set \<Rightarrow> bool" where
  "vector_at m args n ws W \<longleftrightarrow> (\<forall>i < length ws. cstr m (ld32 m (args + 4 * (n + of_nat i))) (ws ! i) \<and>
     span (ld32 m (args + 4 * (n + of_nat i))) (Suc (length (ws ! i))) \<subseteq> W)"

lemma vector_at_Nil [simp]: "vector_at m args n [] W"
  by (simp add: vector_at_def)

lemma vector_at_Cons [simp]:
  "vector_at m args n (w # ws) W \<longleftrightarrow> cstr m (ld32 m (args + 4 * n)) w \<and> span (ld32 m (args + 4 * n)) (Suc (length w)) \<subseteq> W \<and>
     vector_at m args (n + 1) ws W"
  by (simp add: vector_at_def All_less_Suc2 add.assoc)

lemma vector_at_mono: "vector_at m args n ws V \<Longrightarrow> V \<subseteq> W \<Longrightarrow> vector_at m args n ws W"
  unfolding vector_at_def by blast

lemma vector_at_cong:
  assumes v: "vector_at m args n ws W" and same: "\<And>x. x \<in> span (args + 4 * n) (4 * length ws) \<union> W \<Longrightarrow> m' x = m x"
  shows "vector_at m' args n ws W"
  unfolding vector_at_def
proof (intro allI impI)
  fix i assume i: "i < length ws"
  have "span (args + 4 * n + of_nat (4 * i)) 4 \<subseteq> span (args + 4 * n) (4 * length ws)" by (rule sub_span) (use i in simp)
  then have "span (args + 4 * (n + of_nat i)) 4 \<subseteq> span (args + 4 * n) (4 * length ws)" by (simp add: algebra_simps)
  then have "ld32 m' (args + 4 * (n + of_nat i)) = ld32 m (args + 4 * (n + of_nat i))" using same by (intro ld32_disjoint) blast
  moreover have "cstr m' (ld32 m (args + 4 * (n + of_nat i))) (ws ! i)"
    using v i same by (subst cstr_cong [of _ _ _ m]) (auto simp: vector_at_def)
  ultimately show "cstr m' (ld32 m' (args + 4 * (n + of_nat i))) (ws ! i) \<and>
    span (ld32 m' (args + 4 * (n + of_nat i))) (Suc (length (ws ! i))) \<subseteq> W" using v i by (simp add: vector_at_def)
qed

lemma parse_arguments_vector:
  assumes "cstr m scan ys" and "Suc (length ys) \<le> 2 ^ 32" and "4 * length (words_after ys) \<le> 2 ^ 32"
    and "span scan (Suc (length ys)) \<inter> span (args + 4 * n) (4 * length (words_after ys)) = {}"
  shows "\<exists>m'. parse_arguments args m n scan = Some (m', n + of_nat (length (words_after ys))) \<and>
     vector_at m' args n (words_after ys) (span scan (Suc (length ys))) \<and>
     (\<forall>x. x \<notin> span scan (Suc (length ys)) \<union> span (args + 4 * n) (4 * length (words_after ys)) \<longrightarrow> m' x = m x)"
  using assms
proof (induction ys arbitrary: m scan n rule: words_after.induct)
  case (1 ys)
  define k where "k = length (takeWhile (\<lambda>c. c = 32) ys)"
  define zs where "zs = dropWhile (\<lambda>c. c = 32) ys"
  let ?s = "scan + of_nat k"
  have len: "length ys = k + length zs" unfolding k_def zs_def by (metis length_append takeWhile_dropWhile_id)
  have sk: "skip_spaces m scan = Some ?s" using skip_spaces_cstr [OF 1(2)] by (simp add: k_def)
  have cs: "cstr m ?s zs" using cstr_dropWhile [OF 1(2)] by (simp add: k_def zs_def)
  have "span ?s (Suc (length zs)) \<subseteq> span scan (Suc (length ys))" by (rule sub_span) (simp add: len)
  note sub = this
  have hd: "m ?s = (if zs = [] then 0 else hd zs)" "zs \<noteq> [] \<Longrightarrow> hd zs \<noteq> 0" using cs by (cases zs; auto)+
  show ?case
  proof (cases "zs = [] \<or> hd zs = 10")
    case True
    have "words_after ys = []" using True by (subst words_after.simps) (simp only: Let_def zs_def [symmetric] if_True)
    moreover have "parse_arguments args m n scan = Some (m(?s := 0), n)"
      using True hd sk by (subst parse_arguments.simps) auto
    moreover have "?s \<in> span scan (Suc (length ys))" by (rule in_spanI) (simp add: len)
    ultimately show ?thesis by auto
  next
    case False
    define w where "w = takeWhile in_word zs"
    define rest where "rest = dropWhile in_word zs"
    let ?ws = "words_after (tl rest)"
    let ?m1 = "st32 m (args + 4 * n) ?s"
    let ?e = "?s + of_nat (length w)"
    have ws: "words_after ys = w # ?ws"
      using False by (subst words_after.simps) (simp only: Let_def zs_def [symmetric] if_False w_def rest_def)
    have zs: "zs = w @ rest" by (simp add: w_def rest_def)
    have slots: "span (args + 4 * n) (4 * length (words_after ys)) = span (args + 4 * n) 4 \<union> span (args + 4 * (n + 1)) (4 * length ?ws)"
      using span_append [of "args + 4 * n" 4 "4 * length ?ws"] by (simp add: ws algebra_simps)
    have slot: "span (args + 4 * n) 4 \<inter> span (args + 4 * (n + 1)) (4 * length ?ws) = {}"
      using span_consecutive [of 4 "4 * length ?ws" "args + 4 * n"] 1(4) by (simp add: ws algebra_simps)
    have d: "span scan (Suc (length ys)) \<inter> span (args + 4 * n) 4 = {}" "span scan (Suc (length ys)) \<inter> span (args + 4 * (n + 1)) (4 * length ?ws) = {}"
      using 1(5) unfolding slots by auto
    have m1: "?m1 x = m x" if "x \<notin> span (args + 4 * n) 4" for x using that by (rule st32_other)
    have c1: "cstr ?m1 ?s zs" using cs sub d(1) m1 by (subst cstr_cong [of _ _ _ m]) auto
    have sc: "scan_word ?m1 ?s = Some ?e" using scan_word_cstr [OF c1] by (simp add: w_def)
    have ce: "cstr ?m1 ?e rest" using cstr_dropWhile [OF c1, of in_word] by (simp add: w_def rest_def)
    have step: "parse_arguments args m n scan =
      (if ?m1 ?e \<noteq> 0 then parse_arguments args (?m1(?e := 0)) (n + 1) (?e + 1) else parse_arguments args ?m1 (n + 1) ?e)"
      using False hd sk sc by (subst parse_arguments.simps) (auto simp: Let_def)
    show ?thesis
    proof (cases rest)
      case Nil
      then have z: "?m1 ?e = 0" "w = zs" using ce zs by auto
      then have "?m1(?e := 0) = ?m1" by (simp add: fun_upd_idem)
      then have "parse_arguments args ?m1 (n + 1) ?e = Some (?m1, n + 1)"
        using z by (subst parse_arguments.simps, subst skip_spaces.simps) simp
      moreover have "?ws = []" using Nil by (subst words_after.simps) simp
      moreover have "vector_at ?m1 args n [w] (span scan (Suc (length ys)))" using c1 z sub by simp
      ultimately show ?thesis using step z m1 ws by auto
    next
      case (Cons r rs)
      let ?m2 = "?m1(?e := 0)"
      have r: "?m1 ?e = r" "r \<noteq> 0" "cstr ?m1 (?e + 1) rs" using ce Cons by auto
      have lz: "length zs = length w + Suc (length rs)" using zs Cons by simp
      have lw: "length w < 2 ^ 32" using 1(3) len lz by simp
      have ws': "?ws = words_after rs" using Cons by simp
      have esub: "span (?e + 1) (Suc (length rs)) \<subseteq> span scan (Suc (length ys))"
        using sub_span [of "k + Suc (length w)" "Suc (length rs)" "Suc (length ys)" scan] len lz by (simp add: ac_simps)
      have wsub: "span ?s (Suc (length w)) \<subseteq> span scan (Suc (length ys))"
        using sub_span [of k "Suc (length w)" "Suc (length ys)" scan] len lz by simp
      have eapart: "span ?s (Suc (length w)) \<inter> span (?e + 1) (Suc (length rs)) = {}"
        using span_consecutive [of "Suc (length w)" "Suc (length rs)" ?s] 1(3) len lz by (simp add: ac_simps)
      have ein: "?e \<in> span ?s (Suc (length w))" by (rule in_spanI) simp
      have e1: "?e \<notin> span (?e + 1) (Suc (length rs))" using ein eapart by blast
      have c2: "cstr ?m2 (?e + 1) rs" using r(3) e1 by (subst cstr_cong [of _ _ _ ?m1]) auto
      have cw: "cstr ?m2 ?s w" using cstr_cut [of ?m1 ?s w r rs] c1 zs Cons lw by simp
      have l2: "ld32 ?m2 (args + 4 * n) = ?s"
      proof -
        have "?e \<notin> span (args + 4 * n) 4" using ein wsub d(1) by blast
        then have "ld32 ?m2 (args + 4 * n) = ld32 ?m1 (args + 4 * n)" by (intro ld32_disjoint) auto
        then show ?thesis by simp
      qed
      have "\<exists>m'. parse_arguments args ?m2 (n + 1) (?e + 1) = Some (m', n + 1 + of_nat (length ?ws)) \<and>
         vector_at m' args (n + 1) ?ws (span (?e + 1) (Suc (length rs))) \<and>
         (\<forall>x. x \<notin> span (?e + 1) (Suc (length rs)) \<union> span (args + 4 * (n + 1)) (4 * length ?ws) \<longrightarrow> m' x = ?m2 x)"
      proof -
        have "Suc (length rs) \<le> 2 ^ 32" "4 * length (words_after rs) \<le> 2 ^ 32" using 1(3,4) len lz ws ws' by simp_all
        moreover have "span (?e + 1) (Suc (length rs)) \<inter> span (args + 4 * (n + 1)) (4 * length (words_after rs)) = {}"
          using esub d(2) ws' by auto
        moreover have tl: "tl (dropWhile in_word zs) = rs" using Cons by (simp add: rest_def)
        ultimately show ?thesis using 1(1) [OF zs_def False, unfolded tl, OF c2] unfolding ws' by blast
      qed
      then obtain m' where m': "parse_arguments args ?m2 (n + 1) (?e + 1) = Some (m', n + 1 + of_nat (length ?ws))"
        "vector_at m' args (n + 1) ?ws (span (?e + 1) (Suc (length rs)))"
        "\<And>x. x \<notin> span (?e + 1) (Suc (length rs)) \<Longrightarrow> x \<notin> span (args + 4 * (n + 1)) (4 * length ?ws) \<Longrightarrow> m' x = ?m2 x" by blast
      have "ld32 m' (args + 4 * n) = ?s" 
      proof -
        have "m' x = ?m2 x" if "x \<in> span (args + 4 * n) 4" for x using m'(3) that slot d(1) esub by blast
        then have "ld32 m' (args + 4 * n) = ld32 ?m2 (args + 4 * n)" by (rule ld32_disjoint)
        then show ?thesis using l2 by simp
      qed
      moreover have "m' x = ?m2 x" if "x \<in> span ?s (Suc (length w))" for x using m'(3) that eapart wsub d(2) by blast
      then have "cstr m' ?s w" using cw by (subst cstr_cong [of _ _ _ ?m2]) auto
      ultimately have "vector_at m' args n (words_after ys) (span scan (Suc (length ys)))"
        using vector_at_mono [OF m'(2) esub] wsub by (simp add: ws)
      moreover have "m' x = m x" if "x \<notin> span scan (Suc (length ys))" "x \<notin> span (args + 4 * n) (4 * length (words_after ys))" for x
      proof -
        have "x \<noteq> ?e" using that(1) ein wsub by blast
        moreover have "m' x = ?m2 x" "?m1 x = m x" using m'(3) m1 that esub unfolding slots by blast+
        ultimately show ?thesis by simp
      qed
      ultimately show ?thesis using step r m'(1) by (auto simp: ws ac_simps)
    qed
  qed
qed


lemma command_vector_words:
  assumes c: "cstr m command xs" and "length xs \<le> 1023"
    and "span buf 1026 \<inter> span command (Suc (length xs)) = {}" and a: "span buf 1026 \<inter> span args 4096 = {}"
  shows "\<exists>m'. command_vector buf args command m = Some m' \<and> vector_at m' args 0 (command_words xs) (span buf 1026) \<and> ld32 m' args = buf \<and>
     ld32 m' (args + 4 * of_nat (length (command_words xs))) = 0 \<and> (\<forall>x. x \<notin> span buf 1026 \<union> span args 4096 \<longrightarrow> m' x = m x)"
proof -
  define w where "w = takeWhile in_word xs"
  define rest where "rest = dropWhile in_word xs"
  define ws where "ws = words_after (tl rest)"
  let ?s = "buf + 2"
  let ?e = "?s + of_nat (length w)"
  have xs: "xs = w @ rest" "length xs = length w + length rest" by (simp_all add: w_def rest_def flip: length_append)
  have cw: "command_words xs = ([46, 47] @ w) # ws" by (simp add: command_words_def w_def rest_def ws_def)
  have nw: "length ws \<le> 1022"
    using length_words_after [of "tl rest"] xs(2) assms(2) by (cases rest) (simp_all add: ws_def words_after.simps [of "[]"])
  have sbuf: "span ?s 1024 \<subseteq> span buf 1026" using sub_span [of 2 1024 1026 buf] by simp
  have b01: "buf \<in> span buf 1026" "buf + 1 \<in> span buf 1026" using in_spanI [of 0 1026 buf] in_spanI [of 1 1026 buf] by simp_all
  have sxs: "span ?s (Suc (length xs)) \<subseteq> span ?s 1024" using assms(2) by (intro span_mono) simp
  let ?m0 = "m(buf := 46, buf + 1 := 47)"
  have c0: "cstr ?m0 command xs" using c b01 assms(3) by (subst cstr_cong [of _ _ _ m]) auto
  let ?m1 = "wrs ?m0 ?s (xs @ [0])"
  have cp: "ece391_strcpy ?m0 ?s command = Some ?m1"
    using sxs sbuf assms(3) by (intro ece391_strcpy_cstr [OF c0]) blast
  have nz: "0 \<notin> set xs" using c cstr_append [of m command xs "[]"] by simp
  have c1: "cstr ?m1 ?s xs" using assms(2) nz by (intro cstr_wrs_self) simp_all
  have head: "?m1 buf = 46" "?m1 (buf + 1) = 47"
  proof -
    have "buf \<notin> span (buf + of_nat 2) 1024 \<and> buf + 1 \<notin> span (buf + of_nat 2) 1024"
      using span_consecutive [of 2 1024 buf] in_spanI [of 0 2 buf] in_spanI [of 1 2 buf] by auto
    then have "buf \<notin> span ?s (length (xs @ [0])) \<and> buf + 1 \<notin> span ?s (length (xs @ [0]))" using sxs by auto
    then show "?m1 buf = 46" "?m1 (buf + 1) = 47" by (simp_all add: wrs_other)
  qed
  have out1: "?m1 x = m x" if "x \<notin> span buf 1026" for x
  proof -
    have "x \<notin> span ?s (length (xs @ [0]))" using that sxs sbuf by auto
    then show ?thesis using that b01 by (auto simp: wrs_other)
  qed
  have c1': "cstr ?m1 buf ([46, 47] @ xs)" using c1 head by (simp add: add.assoc)
  let ?m2 = "st32 ?m1 args buf"
  have args4: "span args 4 \<subseteq> span args 4096" by (rule span_mono) simp
  have m2: "?m2 x = ?m1 x" if "x \<notin> span args 4096" for x using that args4 by (intro st32_other) blast
  have c2: "cstr ?m2 buf ([46, 47] @ xs)"
    using c1' m2 a span_mono [of "Suc (length ([46, 47] @ xs))" 1026 buf] assms(2) by (subst cstr_cong [of _ _ _ ?m1]) auto
  have sc: "scan_word ?m1 ?s = Some ?e" using scan_word_cstr [OF c1] by (simp add: w_def)
  have ce: "cstr ?m2 ?e rest"
  proof -
    have "cstr ?m2 ?s xs" using c2 by (simp add: add.assoc)
    then show ?thesis using cstr_dropWhile [of ?m2 ?s xs in_word] by (simp add: w_def rest_def)
  qed
  have e: "?e \<in> span buf 1026" "span (?e + 1) (Suc (length (tl rest))) \<subseteq> span buf 1026" if "rest \<noteq> []"
  proof -
    have n: "length rest = Suc (length (tl rest))" using that by (cases rest) auto
    then have l: "2 + length w < 1026" "3 + length w + Suc (length (tl rest)) \<le> 1026" using xs(2) assms(2) by linarith+
    have b: "buf + of_nat (2 + length w) = ?e" "buf + of_nat (3 + length w) = ?e + 1" by simp_all
    from in_spanI [OF l(1), of buf] show "?e \<in> span buf 1026" unfolding b .
    from sub_span [OF l(2), of buf] show "span (?e + 1) (Suc (length (tl rest))) \<subseteq> span buf 1026" unfolding b .
  qed
  have slots: "span (args + 4) (4 * length ws) \<subseteq> span args 4096" using sub_span [of 4 "4 * length ws" 4096 args] nw by simp
  have slot1: "span args 4 \<inter> span (args + 4) (4 * length ws) = {}" using span_consecutive [of 4 "4 * length ws" args] nw by simp
  have "\<exists>m'. (if ?m2 ?e \<noteq> 0 then parse_arguments args (?m2(?e := 0)) 1 (?e + 1) else Some (?m2, 1)) = Some (m', 1 + of_nat (length ws)) \<and>
      cstr m' buf ([46, 47] @ w) \<and> ld32 m' args = buf \<and> vector_at m' args 1 ws (span buf 1026) \<and>
      (\<forall>x. x \<notin> span buf 1026 \<union> span args 4096 \<longrightarrow> m' x = m x)"
  proof (cases rest)
    case Nil
    then have "?m2 ?e = 0" "ws = []" "w = xs" using ce xs by (auto simp: ws_def words_after.simps [of "[]"])
    then show ?thesis using c2 m2 out1 by auto
  next
    case (Cons r rs)
    let ?m3 = "?m2(?e := 0)"
    have r: "?m2 ?e = r" "r \<noteq> 0" "cstr ?m2 (?e + 1) rs" using ce Cons by auto
    have lrs: "length w + Suc (length rs) \<le> 1023" using xs(2) Cons assms(2) by simp
    have ws: "ws = words_after rs" using Cons by (simp add: ws_def)
    have e': "?e \<in> span buf 1026" "span (?e + 1) (Suc (length rs)) \<subseteq> span buf 1026" using e Cons by auto
    have eb: "?e = buf + of_nat (length ([46, 47] @ w))" by (simp add: add.assoc)
    have ap: "span buf (Suc (length ([46, 47] @ w))) \<inter> span (?e + 1) (Suc (length rs)) = {}"
      using span_consecutive [of "Suc (length ([46, 47] @ w))" "Suc (length rs)" buf] lrs by (simp add: ac_simps)
    have "?e \<in> span buf (Suc (length ([46, 47] @ w)))" unfolding eb by (rule in_spanI) simp
    then have e1: "?e \<notin> span (?e + 1) (Suc (length rs))" using ap by blast
    have c3: "cstr ?m3 (?e + 1) rs" using r(3) e1 by (subst cstr_cong [of _ _ _ ?m2]) auto
    have cw3: "cstr ?m3 buf ([46, 47] @ w)" using cstr_cut [of ?m2 buf "[46, 47] @ w" r rs] c2 xs(1) Cons lrs unfolding eb by simp
    have ld3: "ld32 ?m3 args = buf"
    proof -
      have "?e \<notin> span args 4" using e'(1) a args4 by blast
      then have "ld32 ?m3 args = ld32 ?m2 args" by (intro ld32_disjoint) auto
      then show ?thesis by simp
    qed
    have "span (?e + 1) (Suc (length rs)) \<inter> span (args + 4 * 1) (4 * length (words_after rs)) = {}" using e'(2) slots a ws by auto
    moreover have "Suc (length rs) \<le> 2 ^ 32" "4 * length (words_after rs) \<le> 2 ^ 32" using lrs nw ws by auto
    ultimately obtain m' where m': "parse_arguments args ?m3 1 (?e + 1) = Some (m', 1 + of_nat (length ws))"
      "vector_at m' args 1 ws (span (?e + 1) (Suc (length rs)))"
      "\<And>x. x \<notin> span (?e + 1) (Suc (length rs)) \<Longrightarrow> x \<notin> span (args + 4) (4 * length ws) \<Longrightarrow> m' x = ?m3 x"
      using parse_arguments_vector [OF c3, of args 1] ws by auto
    have wb: "span buf (Suc (length ([46, 47] @ w))) \<subseteq> span buf 1026" using lrs by (intro span_mono) simp
    have "cstr m' buf ([46, 47] @ w)"
      using cw3 m'(3) ap wb a slots by (subst cstr_cong [of _ _ _ ?m3]) blast+
    moreover have "ld32 m' args = buf"
    proof -
      have "m' x = ?m3 x" if "x \<in> span args 4" for x using m'(3) that slot1 args4 a e'(2) by blast
      then have "ld32 m' args = ld32 ?m3 args" by (rule ld32_disjoint)
      then show ?thesis using ld3 by simp
    qed
    moreover have "m' x = m x" if "x \<notin> span buf 1026" "x \<notin> span args 4096" for x
    proof -
      have "m' x = ?m3 x" using m'(3) that slots e'(2) by blast
      moreover have "x \<noteq> ?e" using that(1) e'(1) by blast
      ultimately show ?thesis using m2 [OF that(2)] out1 [OF that(1)] by simp
    qed
    ultimately show ?thesis using r m'(1) vector_at_mono [OF m'(2) e'(2)] by auto
  qed
  then obtain m3 where m3: "(if ?m2 ?e \<noteq> 0 then parse_arguments args (?m2(?e := 0)) 1 (?e + 1) else Some (?m2, 1)) = Some (m3, 1 + of_nat (length ws))"
    "cstr m3 buf ([46, 47] @ w)" "ld32 m3 args = buf" "vector_at m3 args 1 ws (span buf 1026)"
    "\<And>x. x \<notin> span buf 1026 \<Longrightarrow> x \<notin> span args 4096 \<Longrightarrow> m3 x = m x" by blast
  let ?t = "args + 4 * (1 + of_nat (length ws))"
  let ?m4 = "st32 m3 ?t 0"
  have tb: "span ?t 4 \<subseteq> span args 4096" using sub_span [of "4 + 4 * length ws" 4 4096 args] nw by (simp add: algebra_simps)
  have t1: "span args 4 \<inter> span ?t 4 = {}"
    using span_consecutive [of "4 + 4 * length ws" 4 args] span_mono [of 4 "4 + 4 * length ws" args] nw by (auto simp: algebra_simps)
  have t2: "span (args + 4) (4 * length ws) \<inter> span ?t 4 = {}"
    using span_consecutive [of "4 * length ws" 4 "args + 4"] nw by (simp add: algebra_simps)
  have m4: "?m4 x = m3 x" if "x \<notin> span ?t 4" for x using that by (rule st32_other)
  have "command_vector buf args command m = Some ?m4"
    unfolding command_vector_def by (simp only: cp bind.simps sc Let_def) (use m3(1) in \<open>simp split: if_splits\<close>)
  moreover have l4: "ld32 ?m4 args = buf"
  proof -
    have "ld32 ?m4 args = ld32 m3 args" using t1 m4 by (intro ld32_disjoint) blast
    then show ?thesis using m3(3) by simp
  qed
  moreover have wb: "span buf (Suc (length ([46, 47] @ w))) \<subseteq> span buf 1026" using xs(2) assms(2) by (intro span_mono) simp
  have "cstr ?m4 buf ([46, 47] @ w)" using m3(2) m4 tb a wb by (subst cstr_cong [of _ _ _ m3]) blast+
  moreover have "vector_at ?m4 args 1 ws (span buf 1026)"
    using m4 t2 tb a by (intro vector_at_cong [OF m3(4)]) (simp, blast)
  ultimately have "vector_at ?m4 args 0 (command_words xs) (span buf 1026)"
    using wb by (simp only: cw vector_at_Cons mult_zero_right add_0_right l4 add_0_left)
  moreover have "args + 4 * of_nat (length (command_words xs)) = ?t" by (simp add: cw)
  then have "ld32 ?m4 (args + 4 * of_nat (length (command_words xs))) = 0" by (simp only: ld32_st32)
  moreover have "?m4 x = m x" if x: "x \<notin> span buf 1026 \<union> span args 4096" for x
  proof -
    have "x \<notin> span ?t 4" "x \<notin> span buf 1026" "x \<notin> span args 4096" using x tb by blast+
    then show ?thesis using m4 [of x] m3(5) [of x] by (simp only: not_False_eq_True)
  qed
  moreover note \<open>command_vector buf args command m = Some ?m4\<close> l4
  ultimately show ?thesis by blast
qed

text \<open>C6: Running a command on Linux. A command that is too long is refused. Otherwise the program
  named by the first word is run in the directory \<open>./\<close> with the words of the command as its arguments,
  in a vector that ends with a null pointer; the result is made of the status with which it ended, and
  only the two local arrays of the call have changed.\<close>

theorem emu_execute_runs_words:
  assumes "cstr (lmem s) command xs" and "length xs < 2 ^ 31" and "span buf 1026 \<inter> (span command (Suc (length xs)) \<union> span args 4096) = {}"
  shows "if length xs > 1023 then emu_execute l buf args command s = Some (- 1, s)
     else \<exists>m status w. emu_execute l buf args command s = Some (exit_value status, s\<lparr>lmem := m, world := w\<rparr>) \<and>
       child_status l buf args m (world s) = (status, w) \<and> ld32 m args = buf \<and>
       vector_at m args 0 (command_words xs) (span buf 1026) \<and> ld32 m (args + 4 * of_nat (length (command_words xs))) = 0 \<and>
       (\<forall>x. x \<notin> span buf 1026 \<union> span args 4096 \<longrightarrow> m x = lmem s x)"
proof -
  have n: "ece391_strlen (lmem s) command = Some (of_nat (length xs))" by (rule ece391_strlen_cstr [OF assms(1)])
  have lt: "(1023 :: u32) < of_nat (length xs) \<longleftrightarrow> 1023 < length xs" using assms(2) by (simp add: word_less_nat_alt unat_of_nat32)
  show ?thesis
  proof (cases "length xs > 1023")
    case False
    then have "length xs \<le> 1023" "span buf 1026 \<inter> span command (Suc (length xs)) = {}" "span buf 1026 \<inter> span args 4096 = {}" using assms(3) by auto
    from command_vector_words [OF assms(1) this] obtain m where
      m: "command_vector buf args command (lmem s) = Some m" "vector_at m args 0 (command_words xs) (span buf 1026)" "ld32 m args = buf"
        "ld32 m (args + 4 * of_nat (length (command_words xs))) = 0" "\<forall>x. x \<notin> span buf 1026 \<union> span args 4096 \<longrightarrow> m x = lmem s x" by blast
    obtain status w where st: "child_status l buf args m (world s) = (status, w)" by fastforce
    then have "emu_execute l buf args command s = Some (exit_value status, s\<lparr>lmem := m, world := w\<rparr>)"
      using False lt n m(1) by (simp add: emu_execute_def)
    then show ?thesis using False st m by (simp only: if_False) blast
  qed (use n lt in \<open>simp add: emu_execute_def\<close>)
qed


section \<open>An example\<close>

text \<open>A Linux on which every program exits with status 3 and a directory has one entry, at 0x9000.\<close>

definition demo_linux :: "unit linux" where
  "demo_linux = \<lparr>int_0x80 = (\<lambda>_ _ _ _ m w. (0, m, w)), opendir = (\<lambda>_ w. (1, w)), readdir = (\<lambda>_ m w. (0x9000, m, w)), closedir = (\<lambda>_ w. w),
     os_open = (\<lambda>_ _ w. (5, w)), os_close = (\<lambda>_ w. w), fork = (\<lambda>w. (True, w)), execv = (\<lambda>_ _ _ w. Some (0x300, w)),
     mmap = (\<lambda>_ _ _. None), perror = (\<lambda>_ w. w), string_at = (\<lambda>_. 0x5000), stray_ecx = 0, stray_edx = 0, stray_status = 0\<rparr>"

text \<open>Its memory: the name \<open>ab\<close> at 0x9000, the command \<open>ls  x\<close> at 0xA000 and the argument \<open>hi\<close> at 0xB000,
  in the vector at 0xC000.\<close>

definition demo_linux_mem :: memory where
  "demo_linux_mem = st32 (st32 (wrs (wrs (wrs (\<lambda>_. 0) 0x9000 [97, 98]) 0xA000 [108, 115, 32, 32, 120]) 0xB000 [104, 105]) 0xC000 2) 0xC008 0xB000"

definition demo_emulated :: "unit emulated" where
  "demo_emulated = \<lparr>lmem = demo_linux_mem, world = (), start_esp = 0xC000, dir_fd = 5, dir = 1, mem_fd = - 1\<rparr>"

lemma demo_linux_strings:
  "cstr demo_linux_mem 0x9000 [97, 98]" "cstr demo_linux_mem 0xA000 [108, 115, 32, 32, 120]" "cstr demo_linux_mem 0xB000 [104, 105]"
  by (simp_all add: demo_linux_mem_def st32_def)

lemma demo_started: "started_with [[104, 105]] (span 0xD000 3) demo_emulated"
proof -
  have l: "ld32 demo_linux_mem 0xC000 = 2" "ld32 demo_linux_mem 0xC008 = 0xB000" by (simp_all add: demo_linux_mem_def st32_def ld32_def)
  have "span (0xC008 :: u32) 4 \<inter> span 0xD000 3 = {}" "span (0xB000 :: u32) (Suc (Suc (Suc 0))) \<inter> span 0xD000 3 = {}" by (rule span_apartI; simp)+
  then show ?thesis using demo_linux_strings(3) l by (simp add: started_with_def args_at_def arg_at_def demo_emulated_def)
qed

theorem emu_read_copies_entry_witness:
  "\<exists>s'. emu_read demo_linux 5 0xD000 16 demo_emulated = Some (16, s') \<and> lmem s' = strncpy demo_linux_mem 0xD000 0x9000 16"
proof -
  have d: "span (0xD000 :: u32) 32 \<inter> (span 0x9000 (Suc (length [97 :: u8, 98])) \<union> span 0x9000 32) = {}"
    unfolding Int_Un_distrib by (subst span_apartI, simp, subst span_apartI, simp_all)
  have "readdir demo_linux (dir demo_emulated) (lmem demo_emulated) (world demo_emulated) = (0x9000, demo_linux_mem, ())"
    "dir demo_emulated \<noteq> 0" "dir_fd demo_emulated = 5" by (simp_all add: demo_linux_def demo_emulated_def)
  from emu_read_copies_entry [OF this(2,3,1) _ demo_linux_strings(1) d, of 16] show ?thesis by simp
qed

theorem emu_getargs_joins_witness:
  "\<exists>s'. emu_getargs 0xD000 2 demo_emulated = Some (- 1, s') \<and> (\<forall>x. x \<notin> span 0xD000 3 \<longrightarrow> lmem s' x = demo_linux_mem x)"
proof -
  have "started_with [[104, 105]] (span 0xD000 (Suc 2)) demo_emulated" using demo_started by (simp add: eval_nat_numeral)
  from emu_getargs_joins [OF this] show ?thesis by (auto simp: demo_emulated_def)
qed

theorem emu_getargs_stores_behind_witness:
  "\<exists>s'. emu_getargs 0xD000 2 demo_emulated = Some (- 1, s') \<and> lmem s' 0xD002 = 0"
proof -
  have "started_with [[104, 105]] (span 0xD000 (Suc 2)) demo_emulated" using demo_started by (simp add: eval_nat_numeral)
  from emu_getargs_stores_behind [OF this] show ?thesis by auto
qed

lemma demo_words: "command_words [108, 115, 32, 32, 120] = [[46, 47, 108, 115], [120]]"
  by (simp add: command_words_def words_after.simps word_end_def)

theorem emu_execute_runs_words_witness:
  "\<exists>s'. emu_execute demo_linux 0xD000 0xE000 0xA000 demo_emulated = Some (3, s') \<and> cstr (lmem s') 0xD000 [46, 47, 108, 115] \<and>
     cstr (lmem s') (ld32 (lmem s') 0xE004) [120] \<and> ld32 (lmem s') 0xE008 = 0"
proof -
  let ?xs = "[108, 115, 32, 32, 120] :: u8 list"
  have d: "span (0xD000 :: u32) 1026 \<inter> (span 0xA000 (Suc (length ?xs)) \<union> span 0xE000 4096) = {}"
    unfolding Int_Un_distrib by (subst span_apartI, simp, subst span_apartI, simp_all)
  have c: "cstr (lmem demo_emulated) 0xA000 ?xs" using demo_linux_strings(2) by (simp add: demo_emulated_def)
  have "length ?xs < 2 ^ 31" "\<not> 1023 < length ?xs" by simp_all
  from emu_execute_runs_words [OF c this(1) d, of demo_linux] this(2) obtain m status w where
    m: "emu_execute demo_linux 0xD000 0xE000 0xA000 demo_emulated = Some (exit_value status, demo_emulated\<lparr>lmem := m, world := w\<rparr>)"
      "child_status demo_linux 0xD000 0xE000 m (world demo_emulated) = (status, w)" "ld32 m 0xE000 = 0xD000"
      "vector_at m 0xE000 0 (command_words ?xs) (span 0xD000 1026)" "ld32 m (0xE000 + 4 * of_nat (length (command_words ?xs))) = 0"
    by (simp only: if_False) blast
  have "exit_value status = 3" using m(2) by (auto simp: child_status_def demo_linux_def exit_value_def)
  then show ?thesis using m(1,3-5) by (intro exI [of _ "demo_emulated\<lparr>lmem := m, world := w\<rparr>"]) (simp add: demo_words)
qed

end
