(* ===== verification/Spec2Isabelle.thy ===== *)
theory Spec2Isabelle
  imports Sched Boot Syserr Frames Pingpong Ports Emulate
begin

text \<open>
  A verification development of a small 32-bit x86 kernel (three terminals, six processes, a read-only file
  system), of the user programs that come with it, of its animation demo and of the library that runs the programs
  on Linux.

  \<^bold>\<open>The program and the theories.\<close> Every theory models one source file, or the part of one that its name says,
  by one definition for each function, with the function's name where Isabelle allows it (\<open>read\<close>, \<open>write\<close>, \<open>open\<close> and
  \<open>close\<close> have \<open>_fd\<close> added). Under \<open>src/student-distrib\<close>:

    \<^item> \<open>Kernel_Prelude\<close>: C's integers as words, the byte memory, little-endian loads and stores, runs of bytes (\<open>span\<close>,
      \<open>rds\<close>, \<open>wrs\<close>) and the lemmas on them that all theories share.
    \<^item> \<open>CString\<close> (string and block routines of \<open>lib.c\<close>), \<open>Machine\<close> and \<open>Ports\<close> (port access and interrupt flag, \<open>lib.h\<close>),
      \<open>Console\<close> (screen and cursor, \<open>lib.c\<close>), \<open>Printf\<close> (\<open>printf\<close>).
    \<^item> \<open>I8259\<close>, \<open>Rtc\<close>, \<open>Paging\<close> (\<open>paging.c\<close> and the page routines of \<open>syscall.c\<close>), \<open>Idt\<close> (\<open>idt.c\<close>, \<open>x86_desc.h\<close>), \<open>Exceptions\<close>
      (\<open>handle_exception\<close> and what the entry points of \<open>interrupt.S\<close> call).
    \<^item> \<open>Filesys\<close> (\<open>filesys.c\<close> over the raw bytes of the image), \<open>Keyboard\<close> (\<open>keyboard.c\<close>, the terminal as a file).
    \<^item> \<open>Descriptors\<close> (open files, \<open>syscall.c\<close>), \<open>Fdtype\<close> (a type system for the descriptor table), \<open>Process\<close> (\<open>execute\<close>, \<open>halt\<close>,
      terminals, the dispatch of system calls), \<open>Execute\<close> and \<open>Terminals\<close> (the proofs on these), \<open>Sched\<close> (\<open>sched.c\<close>),
      \<open>Boot\<close> (\<open>entry\<close> of \<open>kernel.c\<close>).

  Under \<open>src/syscalls\<close>: \<open>User\<close> (system call wrappers, start code, support library), \<open>Programs\<close> (\<open>testprint\<close>, \<open>hello\<close>, \<open>cat\<close>,
  \<open>ls\<close>, \<open>counter\<close>, \<open>shell\<close>), \<open>Grep\<close>, \<open>Syserr\<close>, \<open>Pingpong\<close>, and \<open>Emulate\<close> (the same calls on Linux). Under \<open>src/fish\<close>: \<open>Blink\<close>
  (the assembly of the blinking characters), \<open>Fish\<close> (the program), \<open>Frames\<close> (what its reading loops draw). This
  theory has the properties that span components: a file opened and read through the system call entry, and
  the keyboard that switches the display.

  \<^bold>\<open>State.\<close> The state of the kernel is one record that each component extends: \<open>machine\<close> (memory, ports, interrupt flag),
  \<open>console\<close>, \<open>pic\<close>, \<open>rtc\<close>, \<open>paging\<close>, \<open>idt\<close>, \<open>filesys\<close>, \<open>keyboard\<close>, \<open>process\<close>, \<open>boot\<close>. A routine is a function on the record of
  its component and so applies to every later one. Structures to which the code has pointers (control blocks, the array of
  terminals, directory entries, the image, strings and buffers) are raw bytes of \<open>mem\<close> at the offsets the compiler
  gives their fields, so overlapping stores behave as in the program; other globals are fields.
  The user page at 128 MB shows one of the frames kept in \<open>frames\<close>, and \<open>page_switch\<close> exchanges it. The addresses that the
  linker or the stack decides (globals, literals, local arrays) are fields or arguments. The environment of a
  user program is the record \<open>user_env\<close>: its literals, the frames of nested \<open>execute\<close> calls, the interrupts that come during
  a call, and what another program does until it halts (\<open>run_program\<close>). \<open>fish_env\<close> and \<open>blink_env\<close> are the same for the
  demo, \<open>boot_env\<close> and \<open>printer\<close> for the kernel's start and its messages, \<open>linux\<close> and \<open>emulated\<close> for the emulation.

  \<^bold>\<open>Errors, loops and effects.\<close> A failing call returns -1 as in the code. A routine that may not return is an \<open>option\<close>: a search for
  a zero byte, a wait for an interrupt, or a loop over reads is a \<open>partial_function\<close> or recursion over the sequence of the
  handlers that run while it waits, and the properties state that it does return. \<open>execute\<close> and \<open>halt\<close> call each other; the list
  of stack frames bounds the nesting, and two frames are enough for every command while the literal of the shell's
  name is intact, because the nested call starts the shell. \<open>execute\<close> ends in \<open>User\<close> with the frame of its \<open>iret\<close>, in \<open>Resume\<close>
  when \<open>halt\<close> gives a status to the parent's frame, or returns. In \<open>context_switch\<close> the register moves of the assembly are
  modelled; what the compiler does with \<open>ebx\<close>, \<open>ecx\<close> and the declared outputs is the argument \<open>asm_regs\<close>.

  \<^bold>\<open>Interfaces.\<close> The locale \<open>irq_lines\<close> is what a driver needs of the interrupt controller (interpreted on \<open>enable_irq\<close>);
  \<open>chunk_reader\<close> is repeated reading of a byte sequence (on \<open>file_read\<close>); \<open>fd_driver\<close> is what \<open>open\<close> and \<open>close\<close> need
  of a driver (on the drivers of files, directories and the clock); \<open>std_output\<close> is what a program that prints
  needs of the kernel (on \<open>write\<close> to descriptor 1); \<open>copy_program\<close> is a loop that reads and prints (on \<open>cat\<close> and \<open>ls\<close>).

  \<^bold>\<open>What is shown.\<close> Data: the block routines equal their byte loops, \<open>itoa\<close> and \<open>printf\<close> give the text of a number and of a format,
  the screen refines an abstract terminal, the image is read as a directory and files. Protection: at boot user mode
  can reach no page and call one gate, page switching isolates processes, the descriptor table
  is type safe. Processes: \<open>execute\<close> starts a program with all it needs in the lowest free slot, or fails and starts nothing;
  \<open>halt\<close> resumes the parent. Terminals: lines are typed, edited and delivered, the display is switched and restored, the letter
  case follows the modifier keys as far as the driver remembers them. Scheduling: the timer moves the running terminal but
  never changes the process. Programs: \<open>cat\<close>, \<open>ls\<close>, \<open>grep\<close> and \<open>pingpong\<close> print exactly what they should, \<open>syserr\<close> passes on this
  kernel, \<open>fish\<close> draws its two files and blinks with the clock, and the blinking characters refine a list.
  On Linux: \<open>execute\<close>, \<open>getargs\<close> and the directory read of the emulation, with the byte that \<open>getargs\<close> stores behind its
  buffer (lemma \<open>emu_getargs_stores_behind\<close>). Where the code departs from what it means to do, the property states what it
  does, for example \<open>ticks_round_robin\<close>, \<open>halt_first_shell_keeps_slot\<close>, \<open>held_shift_forgotten\<close> and \<open>origin_character_hangs\<close>.

  \<^bold>\<open>Not modelled.\<close> \<open>sigtest\<close> (it tests calls 9 and 10, which the table of this kernel does not have) and the kernel's own
  tests, which nothing calls. The saving of registers at the assembly entry points, the literals of the GDT and the jump into
  \<open>entry\<close>; the stores of C calls to the kernel stack, which the properties take to be apart from the memory they
  describe. Memory is flat: that the page at 132 MB which \<open>vidmap\<close> gives to a program shows the same bytes as video memory is stated of
  the page tables but not built into \<open>mem\<close>. An interrupt is taken where the code waits or at a system call, not between any two
  instructions.
\<close>

section \<open>Keyboard and display\<close>

text \<open>The terminal switch the keyboard handler calls, when it comes back.\<close>

definition key_switch :: "exec_frame list \<Rightarrow> u32 \<Rightarrow> 'a process_scheme \<Rightarrow> 'a process_scheme option" where
  "key_switch frs t s = (case display_switch frs t s of Some (Ret v s') \<Rightarrow> Some s' | _ \<Rightarrow> None)"

text \<open>The tables give no character to F1 and F2, and a space to F3.\<close>

lemma function_key_tables:
  "table_of p ! unat (0x3B :: u8) = 0" "table_of p ! unat (0x3C :: u8) = 0" "table_of p ! unat (0x3D :: u8) = 32"
  by (cases p; simp add: table_of_def lower_def uppershift_def caps_def lowershift_def nth_append)+

lemma handle_key_function:
  assumes "control_status s = 0" "alt_status s = 1" and "u \<in> {0, 1, 2 :: int}"
  shows "handle_key dsw (0x3B + word_of_int u) s = dsw (word_of_int u) ((send_eoi 1 s)\<lparr>disp_term_k := u\<rparr>)"
proof -
  have n: "key_noprint 0 s = s" "key_noprint 32 s = s" by (simp_all add: key_noprint_def)
  show ?thesis using assms function_key_tables [of "pointer s"] by (auto simp: handle_key_def cntl_l_check_off n Let_def)
qed

text \<open>What the switch depends on is untouched by the handler before it.\<close>

definition same_display :: "'a process_scheme \<Rightarrow> 'a process_scheme \<Rightarrow> bool" where
  "same_display s v \<longleftrightarrow> mem v = mem s \<and> active_terminal v = active_terminal s \<and> screen_x v = screen_x s \<and> screen_y v = screen_y s \<and>
     terminals_addr v = terminals_addr s \<and> esp v = esp s"

lemma same_display_ok: "same_display s v \<Longrightarrow> display_ok v = display_ok s \<and> term_flag v = term_flag s"
  by (simp add: same_display_def display_ok_def get_pcb_def term_flag_def term_base_def fun_eq_iff)

lemma handler_before_switch:
  fixes s :: "'a process_scheme"
  assumes "dev s (io s) KEYBOARD_ENCODER = d" "\<not> modifier d" "alt_status s = 1" "control_status s = 0"
  shows "\<exists>w. keyboard_handler dsw s = handle_key dsw d w \<and> alt_status w = 1 \<and> control_status w = 0 \<and>
    same_display s ((send_eoi 1 w)\<lparr>disp_term_k := u\<rparr>)"
proof -
  define w where "w = key_status d (snd (inb KEYBOARD_ENCODER
     (s\<lparr>disp_term_k := active_terminal s, is_alphabet := 0, enter_read := (enter_read s)(active_terminal s := 0)\<rparr>)))"
  have "keyboard_handler dsw s = handle_key dsw d w"
    using assms(1) by (simp add: keyboard_handler_def w_def inb_def Let_def)
  moreover have "alt_status w = 1" "control_status w = 0" using assms by (simp_all add: w_def key_status_plain inb_def)
  moreover have "same_display s ((send_eoi 1 w)\<lparr>disp_term_k := u\<rparr>)"
    using assms(2) by (simp add: same_display_def w_def key_status_plain inb_def send_eoi_def outb_def)
  ultimately show ?thesis by blast
qed

text \<open>C29: Alt with a function key shows another terminal: while Alt is held, the interrupt for F1, F2 or F3 acknowledges
  the controller and, when that terminal is started and not the one shown, puts its saved screen on the display, keeps the
  screen that was shown in the page of its terminal, and makes the new terminal the active one.\<close>

theorem alt_function_key_switches_display:
  fixes s :: "'a process_scheme"
  assumes "display_ok s" and "u \<in> {0, 1, 2}" "u \<noteq> active_terminal s" and "mem s (term_flag s u) = 0"
    and "dev s (io s) KEYBOARD_ENCODER = 0x3B + word_of_int u" and "alt_status s = 1" "control_status s = 0"
  shows "\<exists>s'. keyboard_handler (key_switch frs) s = Some s' \<and> active_terminal s' = u \<and>
     rds (mem s') 0xB8000 0x1000 = rds (mem s) (saved_screen u) 0x1000 \<and>
     rds (mem s') (saved_screen (active_terminal s)) 0x1000 = rds (mem s) 0xB8000 0x1000"
proof -
  let ?d = "0x3B + word_of_int u :: u8"
  have "\<not> modifier ?d" using assms(2) by (auto simp: modifier_def)
  from handler_before_switch [OF assms(5) this assms(6,7), of "key_switch frs" u] obtain w where w:
    "keyboard_handler (key_switch frs) s = handle_key (key_switch frs) ?d w" "alt_status w = 1" "control_status w = 0"
    "same_display s ((send_eoi 1 w)\<lparr>disp_term_k := u\<rparr>)" by blast
  define v where "v = (send_eoi 1 w)\<lparr>disp_term_k := u\<rparr>"
  have same: "mem v = mem s" "active_terminal v = active_terminal s" and ok: "display_ok v" "term_flag v = term_flag s"
    using w(4) same_display_ok [OF w(4)] assms(1) by (simp_all add: same_display_def v_def)
  obtain s' where "display_switch frs (word_of_int u) v = Some (Ret 0 s')" "switched_mem v u (mem s')" "active_terminal s' = u"
    using display_switch_to [OF ok(1) assms(2), of frs] assms(3,4) same ok(2) by auto
  then show ?thesis using w(1) handle_key_function [OF w(3,2) assms(2), of "key_switch frs"] same
    by (auto simp: key_switch_def v_def switched_mem_def Let_def)
qed

theorem alt_function_key_switches_display_witness:
  "\<exists>s'. keyboard_handler (key_switch []) (demo_screens\<lparr>dev := (\<lambda>_ _. 0x3C), alt_status := 1\<rparr>) = Some s' \<and> active_terminal s' = 1
     \<and> mem s' 0xB8000 = 66"
proof -
  let ?s = "demo_screens\<lparr>dev := (\<lambda>_ _. 0x3C), alt_status := 1\<rparr>"
  have "same_display demo_screens ?s" by (simp add: same_display_def)
  then have ok: "display_ok ?s" using same_display_ok demo_screens_ok(1) by blast
  have f: "mem ?s (term_flag ?s 1) = 0" "control_status ?s = 0" "active_terminal ?s = 0" "mem ?s (saved_screen 1) = 66"
    by (simp_all add: demo_screens_def demo_process_def term_flag_def term_base_def saved_screen_def)
  obtain s' where s': "keyboard_handler (key_switch []) ?s = Some s'" "active_terminal s' = 1"
      "rds (mem s') 0xB8000 0x1000 = rds (mem ?s) (saved_screen 1) 0x1000"
    using alt_function_key_switches_display [OF ok, of 1 "[]"] f by auto
  have "rds m a 0x1000 ! 0 = m a" for m a by (simp add: rds_def)
  with arg_cong [OF s'(3), of "\<lambda>l. l ! 0"] f(4) have "mem s' 0xB8000 = 66" by (simp only:)
  with s' show ?thesis by blast
qed

section \<open>System calls on files\<close>

text \<open>C3: A program that opens a regular file by its name and reads it gets the file: system call 5 takes the lowest free
  descriptor, and system call 3 on it returns the smaller of the bytes asked for and the length of the file, with the first
  bytes of the file in the buffer, from the inode and the block list the directory leads to.\<close>

theorem open_read_delivers_file:
  fixes s :: "'a process_scheme"
  defines "bb \<equiv> bootblock_addr s"
  assumes nf: "names_file (mem s) bb xs e n" and mt: "mounted s" and tables: "tables_ready s"
    and name: "filename \<noteq> 0" "xs \<noteq> []" "length xs \<le> 32" "cstr (mem s) filename xs"
    and free: "lowest_free (mem s) (get_pcb s) i"
    and buf: "buf \<noteq> 0" "nbytes < 2 ^ 30"
    and ap: "apart [(local, 40), (bb, fs_size (mem s) bb), (get_pcb s, 128), (buf, nbytes)]"
  shows "\<exists>s1 s2. syscall frs hs local 5 filename x y s = Some (Ret i s1) \<and>
     syscall frs hs local 3 (word_of_int i) buf (of_nat nbytes) s1 = Some (Ret (int (min nbytes (length (file_bytes (mem s) bb n)))) s2) \<and>
     rds (mem s2) buf (min nbytes (length (file_bytes (mem s) bb n))) = take nbytes (file_bytes (mem s) bb n)"
proof -
  let ?p = "get_pcb s" and ?I = "span bb (fs_size (mem s) bb)"
  have d: "span local 40 \<inter> ?I = {}" "span local 40 \<inter> span ?p 128 = {}" "?I \<inter> span ?p 128 = {}" "span buf nbytes \<inter> ?I = {}"
      "span buf nbytes \<inter> span ?p 128 = {}"
    using ap by auto
  have ne: "named_entry local filename xs e s"
    using nf name d boot_block_in_image [of bb "mem s"] unfolding named_entry_def names_file_def bb_def by blast
  have i: "2 \<le> i" "i \<le> 7" using free by (simp_all add: lowest_free_def)
  obtain m1 where m1: "open_fd local filename s = Some (i, s\<lparr>mem := m1\<rparr>)" "ld32 m1 (pcb_flags ?p i) = 1"
      "ld32 m1 (pcb_fops ?p i) = files_table_addr s" "ld32 m1 (pcb_inode ?p i) = n" "ld32 m1 (pcb_file_pos ?p i) = 0"
      "\<And>x. x \<notin> span local 40 \<Longrightarrow> x \<notin> fd_span ?p i \<Longrightarrow> m1 x = mem s x"
    using open_regular_file [OF ne tables free] nf unfolding names_file_def bb_def by auto
  have "fd_span ?p i \<subseteq> span ?p 128" by (rule fd_span_in_table) (use i in auto)
  then have agree: "m1 x = mem s x" if "x \<in> ?I" for x using that d by (intro m1(6)) blast+
  let ?s1 = "sti (s\<lparr>mem := m1\<rparr>)"
  have f1: "get_pcb ?s1 = ?p" "mem ?s1 = m1" "bootblock_addr ?s1 = bb" "data_count ?s1 = data_count s"
    by (simp_all add: get_pcb_def sti_def bb_def)
  note cong = names_file_cong [OF agree nf] image_counts_cong [OF agree]
  have fd: "fd_inode i ?s1 = n" "fd_pos i ?s1 = 0" "fd_content i ?s1 = file_bytes (mem s) bb n"
    using m1(4,5) cong(2) by (simp_all add: fd_inode_def fd_pos_def fd_content_def f1)
  have "fd_reading i buf (int nbytes) ?s1"
    using i buf(2) mt cong d unfolding fd_reading_def fd f1 mounted_def names_file_def bb_def [symmetric] by (simp add: Int_commute)
  from file_read_ok [OF this] obtain m2 where m2: "file_read i buf (int nbytes) ?s1 =
      (int (read_count m1 bb n 0 nbytes), ?s1\<lparr>mem := m2\<rparr>)"
      "rds m2 buf (read_count m1 bb n 0 nbytes) = take nbytes (file_bytes (mem s) bb n)"
    unfolding fd f1 by auto
  have c: "read_count m1 bb n 0 nbytes = min nbytes (length (file_bytes (mem s) bb n))"
    using arg_cong [OF m2(2), of length] by simp
  have "fops_at ?s1 (files_table_addr s) = Some (files_table s)" by (simp add: fops_at_def sti_def)
  moreover have "fop_read (files_table s) = File_read" using tables by (simp add: tables_ready_def tables_init_def)
  ultimately have "read_fd hs local i buf (int nbytes) (s\<lparr>mem := m1\<rparr>) = Some (int (read_count m1 bb n 0 nbytes), ?s1\<lparr>mem := m2\<rparr>)"
    using i buf(1) m1(2,3) m2(1) unfolding read_fd_def Let_def f1 by (simp add: call_read_def)
  moreover have "sint (word_of_int i :: u32) = i" "sint (of_nat nbytes :: u32) = int nbytes"
    using i buf(2) sint_of_nat_less [of nbytes] sint_of_nat_less [of "nat i"] by simp_all
  ultimately show ?thesis using m1(1) m2(2) by (auto simp: syscall_def c)
qed

theorem open_read_delivers_file_witness:
  "\<exists>s1 s2. syscall [] [] 0x6000 5 0x5000 0 0 demo_process = Some (Ret 2 s1) \<and>
     syscall [] [] 0x6000 3 2 0x8000 3 s1 = Some (Ret 3 s2) \<and> rds (mem s2) 0x8000 3 = [104, 101, 108]"
proof -
  have nf: "names_file (mem demo_process) (bootblock_addr demo_process) [97] 1 0"
    using demo_names demo_file_ok(1)
    by (simp add: names_file_def dentry_filetype_def dentry_inode_num_def direntry_def ld32_def demo_mem_def)
  have mt: "mounted demo_process" by (simp add: mounted_def demo_file demo_process_def)
  have f: "(0x5000 :: u32) \<noteq> 0" "[97 :: u8] \<noteq> []" "length [97 :: u8] \<le> 32" "cstr (mem demo_process) 0x5000 [97]"
    "lowest_free (mem demo_process) (get_pcb demo_process) 2" "(0x8000 :: u32) \<noteq> 0" "(3 :: nat) < 2 ^ 30"
    using demo_flags by (simp_all add: demo_mem_def lowest_free_def)
  have ap: "apart [(0x6000, 40), (bootblock_addr demo_process, fs_size (mem demo_process) (bootblock_addr demo_process)),
      (get_pcb demo_process, 128), (0x8000, 3)]"
    by (simp add: demo_file) (intro conjI span_apartI; simp)
  show ?thesis
    using open_read_delivers_file [OF nf mt demo_tables_ready f(1-7) ap, of "[]" "[]" 0 0] by (simp add: demo_file_bytes numeral_3_eq_3)
qed

end
